(* ===== verification/Peerz_Prelude.thy ===== *)
theory Peerz_Prelude
  imports Complex_Main "HOL-Library.AList" "HOL-Library.Multiset"
    "HOL-Library.List_Lexorder" "HOL-Library.Product_Lexorder" "HOL-Library.Char_ord"
begin

text \<open>
  Shared ground of the development: Python exceptions as values of a sum type, the loops over
  lists that stop at the first exception, Python's ranges, indexing and slices, insertion-ordered
  dictionaries as association lists, floats that may be infinite, and the contract under which an
  invariant of a step relation holds in every reachable state.

  Python floats are modelled by exact rational numbers (\<^typ>\<open>rat\<close>); rounding is not modelled.
  Python integers are \<^typ>\<open>int\<close>. Where a value may be infinite (round-trip times) it is an
  \<open>xfloat\<close>.
\<close>

named_theorems py_simps \<open>unfoldings of the small Python primitives\<close>
named_theorems resultD \<open>inversion of computations that ended without an exception\<close>

subsection \<open>Exceptions as values\<close>

datatype py_error =
    AssertionError | ValueError | KeyError | IndexError | TypeError | RuntimeError
  | ZeroDivisionError | NameError | NotImplementedError | AttributeError | TimeoutError
  | AllocationFailed | NoPathError | RemoteError | FileNotFoundError | SystemExit | StopIteration
  | MissingBlocksError "int list"

type_synonym 'a result = "py_error + 'a"

definition bindR :: "'a result \<Rightarrow> ('a \<Rightarrow> 'b result) \<Rightarrow> 'b result" where
  "bindR m f = (case m of Inl e \<Rightarrow> Inl e | Inr a \<Rightarrow> f a)"

text \<open>\<open>guardR b e k\<close>: raise \<open>e\<close> unless \<open>b\<close> holds, then go on with \<open>k\<close>.\<close>

definition guardR :: "bool \<Rightarrow> py_error \<Rightarrow> 'a result \<Rightarrow> 'a result" where
  "guardR b e k = (if b then k else Inl e)"

text \<open>A \<open>for\<close> loop over a list whose body may raise: the first exception ends the loop.\<close>

fun foldR :: "('a \<Rightarrow> 's \<Rightarrow> 's result) \<Rightarrow> 'a list \<Rightarrow> 's \<Rightarrow> 's result" where
  "foldR f [] s = Inr s"
| "foldR f (x # xs) s = bindR (f x s) (foldR f xs)"

fun mapR :: "('a \<Rightarrow> 'b result) \<Rightarrow> 'a list \<Rightarrow> 'b list result" where
  "mapR f [] = Inr []"
| "mapR f (x # xs) = bindR (f x) (\<lambda>y. bindR (mapR f xs) (\<lambda>ys. Inr (y # ys)))"

lemma bindR_simps [simp]: "bindR (Inl e) f = Inl e" "bindR (Inr a) f = f a"
  by (simp_all add: bindR_def)

lemma bindR_Inr [resultD]: "bindR m f = Inr b \<longleftrightarrow> (\<exists>a. m = Inr a \<and> f a = Inr b)"
  by (simp add: bindR_def split: sum.splits)

lemma bindR_Inl [resultD]: "bindR m f = Inl e \<longleftrightarrow> m = Inl e \<or> (\<exists>a. m = Inr a \<and> f a = Inl e)"
  by (simp add: bindR_def split: sum.splits)

lemma bindR_assoc: "bindR (bindR m f) g = bindR m (\<lambda>a. bindR (f a) g)"
  by (cases m) auto

lemma bindR_cong_Inr: "(\<And>a. m = Inr a \<Longrightarrow> f a = g a) \<Longrightarrow> bindR m f = bindR m g"
  by (cases m) auto

lemma guardR_simps [simp]: "guardR True e k = k" "guardR False e k = Inl e"
  by (simp_all add: guardR_def)

lemma guardR_Inr [resultD]: "guardR b e k = Inr a \<longleftrightarrow> b \<and> k = Inr a"
  by (simp add: guardR_def)

lemma guardR_Inl [resultD]: "guardR b e k = Inl e' \<longleftrightarrow> (\<not> b \<and> e' = e) \<or> (b \<and> k = Inl e')"
  by (auto simp: guardR_def)

lemma foldR_append: "foldR f (xs @ ys) s = bindR (foldR f xs s) (foldR f ys)"
  by (induction xs arbitrary: s) (auto simp: bindR_def split: sum.splits)

lemma foldR_snoc: "foldR f (xs @ [x]) s = bindR (foldR f xs s) (f x)"
  by (simp add: foldR_append bindR_def split: sum.splits)

lemma foldR_invariant:
  assumes "foldR f xs s = Inr t" and "P s"
    and "\<And>x s t. x \<in> set xs \<Longrightarrow> P s \<Longrightarrow> f x s = Inr t \<Longrightarrow> P t"
  shows "P t"
  using assms
proof (induction xs arbitrary: s)
  case (Cons x xs)
  then obtain s' where s': "f x s = Inr s'" "foldR f xs s' = Inr t"
    by (auto simp: bindR_Inr)
  with Cons.prems(2,3) have "P s'" by (metis list.set_intros(1))
  with s'(2) Cons.IH Cons.prems(3) show ?case by (metis list.set_intros(2))
qed simp

lemma foldR_total: "(\<And>x s. x \<in> set xs \<Longrightarrow> f x s = Inr (h x s)) \<Longrightarrow> foldR f xs s = Inr (fold h xs s)"
  by (induction xs arbitrary: s) auto

lemma mapR_Inr_iff: "mapR f xs = Inr ys \<longleftrightarrow> list_all2 (\<lambda>x y. f x = Inr y) xs ys"
  by (induction xs arbitrary: ys) (auto simp: bindR_Inr list_all2_Cons1)

lemma mapR_memD: "mapR f xs = Inr ys \<Longrightarrow> y \<in> set ys \<Longrightarrow> \<exists>x \<in> set xs. f x = Inr y"
  by (induction xs arbitrary: ys) (auto simp: bindR_Inr)

lemma mapR_Inl: "mapR f xs = Inl e \<Longrightarrow> \<exists>x \<in> set xs. f x = Inl e"
  by (induction xs) (auto simp: bindR_Inl)

lemma mapR_cong: "(\<And>x. x \<in> set xs \<Longrightarrow> f x = g x) \<Longrightarrow> mapR f xs = mapR g xs"
  by (induction xs) auto

lemma mapR_total: "(\<And>x. x \<in> set xs \<Longrightarrow> f x = Inr (g x)) \<Longrightarrow> mapR f xs = Inr (map g xs)"
  by (induction xs) auto

subsection \<open>Ranges, indices and slices\<close>

text \<open>\<open>range(a, b)\<close>.\<close>

definition py_range :: "int \<Rightarrow> int \<Rightarrow> int list" where
  "py_range a b = [a..b - 1]"

text \<open>\<open>xs[i]\<close>: a negative index counts from the end, an index out of range raises.\<close>

definition abs_index :: "nat \<Rightarrow> int \<Rightarrow> nat option" where
  "abs_index n i =
     (if - int n \<le> i \<and> i < 0 then Some (n - nat (- i)) else if 0 \<le> i \<and> nat i < n then Some (nat i) else None)"

definition py_index :: "'a list \<Rightarrow> int \<Rightarrow> 'a result" where
  "py_index xs i = (case abs_index (length xs) i of None \<Rightarrow> Inl IndexError | Some k \<Rightarrow> Inr (xs ! k))"

text \<open>A slice bound: negative bounds count from the end, then both are clamped to the list.\<close>

definition slice_bound :: "nat \<Rightarrow> int \<Rightarrow> nat" where
  "slice_bound n i = (if i < 0 then nat (int n + i) else min n (nat i))"

definition py_slice :: "'a list \<Rightarrow> int \<Rightarrow> int \<Rightarrow> 'a list" where
  "py_slice xs a b =
     (let n = length xs; lo = slice_bound n a; hi = slice_bound n b
      in take (hi - lo) (drop lo xs))"

lemma set_py_range [simp]: "set (py_range a b) = {a..<b}"
  by (auto simp: py_range_def)

lemma length_py_range [simp]: "length (py_range a b) = nat (b - a)"
  by (simp add: py_range_def)

lemma nth_py_range [simp]: "k < nat (b - a) \<Longrightarrow> py_range a b ! k = a + int k"
  by (simp add: py_range_def)

lemma distinct_py_range [simp]: "distinct (py_range a b)"
  by (simp add: py_range_def)

lemma py_range_empty [simp]: "b \<le> a \<Longrightarrow> py_range a b = []"
  by (simp add: py_range_def)

lemma py_range_Cons: "a < b \<Longrightarrow> py_range a b = a # py_range (a + 1) b"
  by (simp add: py_range_def upto_rec1)

lemma py_range_snoc: "a < b \<Longrightarrow> py_range a b = py_range a (b - 1) @ [b - 1]"
  by (simp add: py_range_def upto_rec2)

lemma py_index_nonneg:
  "0 \<le> i \<Longrightarrow> py_index xs i = (if i < int (length xs) then Inr (xs ! nat i) else Inl IndexError)"
  by (auto simp: py_index_def abs_index_def)

lemma py_index_nat: "i < length xs \<Longrightarrow> py_index xs (int i) = Inr (xs ! i)"
  by (simp add: py_index_nonneg)

lemma py_index_last: "xs \<noteq> [] \<Longrightarrow> py_index xs (-1) = Inr (last xs)"
  by (cases xs) (auto simp: py_index_def abs_index_def last_conv_nth)

lemma length_py_slice_le: "length (py_slice xs a b) \<le> length xs"
  by (simp add: py_slice_def Let_def)

lemma py_slice_in_range:
  "0 \<le> a \<Longrightarrow> a \<le> b \<Longrightarrow> b \<le> int (length xs) \<Longrightarrow>
   py_slice xs a b = take (nat (b - a)) (drop (nat a) xs)"
  by (simp add: py_slice_def slice_bound_def Let_def min_def nat_diff_distrib)

lemma length_py_slice:
  "0 \<le> a \<Longrightarrow> a \<le> b \<Longrightarrow> b \<le> int (length xs) \<Longrightarrow> length (py_slice xs a b) = nat (b - a)"
  by (auto simp: py_slice_in_range)

lemma nth_py_slice:
  "0 \<le> a \<Longrightarrow> b \<le> int (length xs) \<Longrightarrow> k < nat (b - a) \<Longrightarrow> py_slice xs a b ! k = xs ! nat (a + int k)"
  by (simp add: py_slice_in_range nat_add_distrib)

lemma set_py_slice_subset: "set (py_slice xs a b) \<subseteq> set xs"
  unfolding py_slice_def Let_def by (meson order_trans set_drop_subset set_take_subset)

lemma py_slice_full [simp]: "py_slice xs 0 (int (length xs)) = xs"
  by (simp add: py_slice_in_range)

lemma py_slice_append:
  assumes "0 \<le> a" "a \<le> b" "b \<le> c" "c \<le> int (length xs)"
  shows "py_slice xs a b @ py_slice xs b c = py_slice xs a c"
proof -
  obtain i j k where ijk: "a = int i" "b = int (i + j)" "c = int (i + j + k)"
    using assms(1-3) by (metis nonneg_int_cases of_nat_add zle_iff_zadd)
  show ?thesis
    using assms unfolding ijk
    by (simp add: py_slice_in_range take_add ac_simps nat_add_distrib)
qed

subsection \<open>Insertion-ordered dictionaries\<close>

text \<open>
  A Python \<open>dict\<close> keeps insertion order: storing to a present key keeps its place, a new key goes
  to the end. \<open>AList.update\<close> does exactly this.
\<close>

type_synonym ('k, 'v) dict = "('k \<times> 'v) list"

abbreviation dict_get :: "('k, 'v) dict \<Rightarrow> 'k \<Rightarrow> 'v option" where
  "dict_get d k \<equiv> map_of d k"

abbreviation dict_set :: "'k \<Rightarrow> 'v \<Rightarrow> ('k, 'v) dict \<Rightarrow> ('k, 'v) dict" where
  "dict_set k v d \<equiv> AList.update k v d"

abbreviation dict_pop :: "'k \<Rightarrow> ('k, 'v) dict \<Rightarrow> ('k, 'v) dict" where
  "dict_pop k d \<equiv> AList.delete k d"

abbreviation wf_dict :: "('k, 'v) dict \<Rightarrow> bool" where
  "wf_dict d \<equiv> distinct (map fst d)"

definition dict_item :: "('k, 'v) dict \<Rightarrow> 'k \<Rightarrow> 'v result" where
  "dict_item d k = (case dict_get d k of None \<Rightarrow> Inl KeyError | Some v \<Rightarrow> Inr v)"

lemma dict_get_set [simp]: "dict_get (dict_set k v d) k' = (if k' = k then Some v else dict_get d k')"
  by (simp add: update_conv')

lemma dict_get_pop [simp]: "dict_get (dict_pop k d) k' = (if k' = k then None else dict_get d k')"
  by (simp add: delete_conv')

lemma wf_dict_set [simp]: "wf_dict d \<Longrightarrow> wf_dict (dict_set k v d)"
  by (rule distinct_update)

lemma wf_dict_pop [simp]: "wf_dict d \<Longrightarrow> wf_dict (dict_pop k d)"
  by (rule distinct_delete)

lemma keys_dict_set: "fst ` set (dict_set k v d) = insert k (fst ` set d)"
  by (simp add: dom_update)

lemma dict_get_key: "dict_get d k = Some v \<Longrightarrow> k \<in> fst ` set d"
  by (metis map_of_eq_None_iff option.distinct(1))

lemma dict_set_new: "k \<notin> fst ` set d \<Longrightarrow> dict_set k v d = d @ [(k, v)]"
  by (induction d) auto

lemma keys_dict_pop: "fst ` set (dict_pop k d) = fst ` set d - {k}"
  by (metis delete_keys list.set_map set_removeAll)

lemma dict_set_mem: "e \<in> set (dict_set k v d) \<Longrightarrow> e = (k, v) \<or> e \<in> set d"
  by (induction d) (auto split: if_splits)

text \<open>Storing under a key that is present keeps what a projection that cannot tell the two values apart
  shows of every entry.\<close>

lemma map_dict_set:
  "wf_dict d \<Longrightarrow> dict_get d k = Some v \<Longrightarrow> g (k, v') = g (k, v) \<Longrightarrow> map g (dict_set k v' d) = map g d"
  by (induction d) (auto split: if_splits)

lemma dict_item_Inr [simp]: "dict_item d k = Inr v \<longleftrightarrow> dict_get d k = Some v"
  by (simp add: dict_item_def split: option.splits)

lemma dict_item_Inl [simp]: "dict_item d k = Inl e \<longleftrightarrow> dict_get d k = None \<and> e = KeyError"
  by (auto simp: dict_item_def split: option.splits)

subsection \<open>Floats that may be infinite\<close>

datatype xfloat = Fin rat | PInf

instantiation xfloat :: linorder
begin

fun less_eq_xfloat :: "xfloat \<Rightarrow> xfloat \<Rightarrow> bool" where
  "less_eq_xfloat (Fin a) (Fin b) = (a \<le> b)"
| "less_eq_xfloat (Fin a) PInf = True"
| "less_eq_xfloat PInf (Fin b) = False"
| "less_eq_xfloat PInf PInf = True"

definition less_xfloat :: "xfloat \<Rightarrow> xfloat \<Rightarrow> bool" where
  "less_xfloat a b = (a \<le> b \<and> \<not> b \<le> a)"

instance
proof
  fix x y z :: xfloat
  show "(x < y) = (x \<le> y \<and> \<not> y \<le> x)" by (simp add: less_xfloat_def)
  show "x \<le> x" by (cases x) auto
  show "x \<le> y \<Longrightarrow> y \<le> z \<Longrightarrow> x \<le> z" by (cases x; cases y; cases z) auto
  show "x \<le> y \<Longrightarrow> y \<le> x \<Longrightarrow> x = y" by (cases x; cases y) auto
  show "x \<le> y \<or> y \<le> x" by (cases x; cases y) auto
qed

end

lemma less_xfloat_simps [simp]:
  "Fin a < Fin b \<longleftrightarrow> a < b" "Fin a < PInf" "\<not> PInf < x"
  by (auto simp: less_xfloat_def) (cases x; simp)

subsection \<open>Invariants of step relations\<close>

text \<open>
  The contract between a state machine and its invariant: every start state satisfies it and every
  step keeps it; then every state reachable from a start state satisfies it.
\<close>

locale invariant_system =
  fixes init :: "'s \<Rightarrow> bool"
    and step :: "'s \<Rightarrow> 's \<Rightarrow> bool"
    and inv :: "'s \<Rightarrow> bool"
  assumes init_inv: "init s \<Longrightarrow> inv s"
    and step_inv: "inv s \<Longrightarrow> step s t \<Longrightarrow> inv t"
begin

lemma steps_inv: "step\<^sup>*\<^sup>* s t \<Longrightarrow> inv s \<Longrightarrow> inv t"
  by (induction rule: rtranclp_induct) (auto intro: step_inv)

lemma reachable_inv: "init s \<Longrightarrow> step\<^sup>*\<^sup>* s t \<Longrightarrow> inv t"
  by (blast intro: init_inv steps_inv)

end

subsection \<open>Running sums\<close>

text \<open>A causal function on sequences, from which the examples of later theories build their models.\<close>

fun running_sums :: "int \<Rightarrow> int list \<Rightarrow> int list" where
  "running_sums acc [] = []"
| "running_sums acc (x # xs) = (acc + x) # running_sums (acc + x) xs"

lemma running_sums_length [simp]: "length (running_sums acc xs) = length xs"
  by (induction xs arbitrary: acc) simp_all

lemma running_sums_take: "take k (running_sums acc xs) = running_sums acc (take k xs)"
proof (induction xs arbitrary: acc k)
  case (Cons x xs)
  then show ?case by (cases k) simp_all
qed simp

lemma running_sums_append: "running_sums acc (xs @ ys) = running_sums acc xs @ running_sums (acc + sum_list xs) ys"
  by (induction xs arbitrary: acc) (simp_all add: algebra_simps)

end
