(* ===== verification/Py_Strings.thy ===== *)
theory Py_Strings
  imports Peerz_Prelude
begin

text \<open>
  The string operations of Python that the sources use: \<open>str.split\<close> and \<open>str.join\<close> on a
  one-character separator, \<open>str(int)\<close> and \<open>int(str)\<close>, and the two round trips between them.
\<close>

fun py_split :: "char \<Rightarrow> string \<Rightarrow> string list" where
  "py_split d [] = [[]]"
| "py_split d (c # cs) =
     (if c = d then [] # py_split d cs
      else (case py_split d cs of [] \<Rightarrow> [[c]] | w # ws \<Rightarrow> (c # w) # ws))"

fun py_join :: "char \<Rightarrow> string list \<Rightarrow> string" where
  "py_join d [] = []"
| "py_join d [w] = w"
| "py_join d (w # v # ws) = w @ d # py_join d (v # ws)"

definition is_space :: "char \<Rightarrow> bool" where
  "is_space c = (let n = (of_char c :: nat) in (9 \<le> n \<and> n \<le> 13) \<or> (28 \<le> n \<and> n \<le> 32))"

definition py_strip :: "string \<Rightarrow> string" where
  "py_strip s = rev (dropWhile is_space (rev (dropWhile is_space s)))"

definition digit_val :: "char \<Rightarrow> int option" where
  "digit_val c = (let n = (of_char c :: nat) in if 48 \<le> n \<and> n \<le> 57 then Some (int n - 48) else None)"

text \<open>Digits of a decimal literal, single underscores allowed between digits; the flag says that the
  last character read was a digit.\<close>

fun int_digits :: "string \<Rightarrow> int \<Rightarrow> bool \<Rightarrow> int result" where
  "int_digits [] acc d = (if d then Inr acc else Inl ValueError)"
| "int_digits (c # cs) acc d =
     (if c = CHR ''_'' then (if d then int_digits cs acc False else Inl ValueError)
      else (case digit_val c of None \<Rightarrow> Inl ValueError | Some v \<Rightarrow> int_digits cs (10 * acc + v) True))"

definition py_int :: "string \<Rightarrow> int result" where
  "py_int s =
     (case py_strip s of
        [] \<Rightarrow> Inl ValueError
      | c # cs \<Rightarrow>
          if c = CHR ''-'' then bindR (int_digits cs 0 False) (\<lambda>n. Inr (- n))
          else if c = CHR ''+'' then int_digits cs 0 False
          else int_digits (c # cs) 0 False)"

definition digit_char :: "nat \<Rightarrow> char" where
  "digit_char n = char_of (48 + n)"

fun nat_str :: "nat \<Rightarrow> string" where
  "nat_str n = (if n < 10 then [digit_char n] else nat_str (n div 10) @ [digit_char (n mod 10)])"

declare nat_str.simps [simp del]

definition py_str :: "int \<Rightarrow> string" where
  "py_str i = (if i < 0 then CHR ''-'' # nat_str (nat (- i)) else nat_str (nat i))"

subsection \<open>Splitting and joining\<close>

lemma py_split_nonempty [simp]: "py_split d s \<noteq> []"
  by (induction s) (auto split: list.splits)

lemma py_split_no_sep: "d \<notin> set s \<Longrightarrow> py_split d s = [s]"
  by (induction s) auto

lemma py_split_append: "d \<notin> set s \<Longrightarrow> py_split d (s @ d # t) = s # py_split d t"
  by (induction s) auto

lemma py_split_join: "ws \<noteq> [] \<Longrightarrow> (\<And>w. w \<in> set ws \<Longrightarrow> d \<notin> set w) \<Longrightarrow> py_split d (py_join d ws) = ws"
  by (induction d ws rule: py_join.induct) (auto simp: py_split_no_sep py_split_append)

lemma py_split_parts: "w \<in> set (py_split d s) \<Longrightarrow> d \<notin> set w"
  by (induction s arbitrary: w) (auto split: list.splits if_splits)

lemma py_join_split: "py_join d (py_split d s) = s"
proof (induction s)
  case (Cons c cs)
  show ?case
  proof (cases "py_split d cs")
    case (Cons w ws)
    with Cons.IH show ?thesis by (cases ws) auto
  qed (use py_split_nonempty in blast)
qed simp

subsection \<open>Decimal numerals\<close>

lemma of_char_digit [simp]: "n < 10 \<Longrightarrow> (of_char (digit_char n) :: nat) = 48 + n"
  by (simp add: digit_char_def)

lemma digit_val_digit [simp]: "n < 10 \<Longrightarrow> digit_val (digit_char n) = Some (int n)"
  by (simp add: digit_val_def Let_def)

lemma digit_not_special [simp]:
  assumes "n < 10"
  shows "digit_char n \<noteq> CHR ''_''" "digit_char n \<noteq> CHR ''-''" "digit_char n \<noteq> CHR ''+''"
    "digit_char n \<noteq> CHR ''.''" "digit_char n \<noteq> CHR '' ''" "\<not> is_space (digit_char n)"
proof -
  have *: "(of_char (digit_char n) :: nat) = 48 + n" using assms by simp
  show "digit_char n \<noteq> CHR ''_''" "digit_char n \<noteq> CHR ''-''" "digit_char n \<noteq> CHR ''+''"
    "digit_char n \<noteq> CHR ''.''" "digit_char n \<noteq> CHR '' ''"
    using assms by (auto dest!: arg_cong [where f = "of_char :: char \<Rightarrow> nat"])
  show "\<not> is_space (digit_char n)" using assms * by (simp add: is_space_def Let_def)
qed

lemma set_nat_str: "c \<in> set (nat_str n) \<Longrightarrow> \<exists>k < 10. c = digit_char k"
proof (induction n rule: nat_str.induct)
  case (1 n)
  show ?case
  proof (cases "n < 10")
    case True
    with "1.prems" show ?thesis by (auto simp: nat_str.simps [of n])
  next
    case False
    with "1.prems" have "c \<in> set (nat_str (n div 10)) \<or> c = digit_char (n mod 10)"
      by (auto simp: nat_str.simps [of n])
    with False "1.IH" show ?thesis by (metis mod_less_divisor zero_less_numeral)
  qed
qed

lemma nat_str_nonempty [simp]: "nat_str n \<noteq> []"
  by (subst nat_str.simps) simp

lemma int_digits_nat_str:
  "int_digits (nat_str n @ cs) acc d = int_digits cs (acc * 10 ^ length (nat_str n) + int n) True"
proof (induction n arbitrary: cs acc d rule: nat_str.induct)
  case (1 n)
  show ?case
  proof (cases "n < 10")
    case True
    then show ?thesis by (simp add: nat_str.simps [of n] algebra_simps)
  next
    case False
    have "int n = 10 * int (n div 10) + int (n mod 10)"
      by (metis int_ops(7) mult_div_mod_eq of_nat_add of_nat_numeral)
    with False "1.IH" show ?thesis by (simp add: nat_str.simps [of n] algebra_simps)
  qed
qed

lemma nat_str_clean:
  "CHR ''.'' \<notin> set (nat_str n)" "CHR '' '' \<notin> set (nat_str n)" "CHR ''-'' \<notin> set (nat_str n)"
  "CHR ''+'' \<notin> set (nat_str n)" "c \<in> set (nat_str n) \<Longrightarrow> \<not> is_space c"
  by (auto dest!: set_nat_str dest: sym)

lemma dropWhile_none: "(\<And>x. x \<in> set xs \<Longrightarrow> \<not> P x) \<Longrightarrow> dropWhile P xs = xs"
  by (cases xs) auto

lemma py_strip_none: "(\<And>c. c \<in> set s \<Longrightarrow> \<not> is_space c) \<Longrightarrow> py_strip s = s"
  unfolding py_strip_def by (subst dropWhile_none; simp add: dropWhile_none)+

lemma not_space_minus: "\<not> is_space (CHR ''-'')"
  by (simp add: is_space_def)

lemma py_str_clean: "CHR ''.'' \<notin> set (py_str i)" "CHR '' '' \<notin> set (py_str i)"
  by (simp_all add: py_str_def nat_str_clean)

text \<open>\<open>int(str(i)) == i\<close>.\<close>

lemma py_int_py_str: "py_int (py_str i) = Inr i"
proof -
  have strip: "py_strip (py_str i) = py_str i"
    by (rule py_strip_none) (auto simp: py_str_def nat_str_clean not_space_minus split: if_splits)
  have digits: "int_digits (nat_str n) 0 False = Inr (int n)" for n
    using int_digits_nat_str [of n "[]" 0 False] by simp
  show ?thesis
  proof (cases "i < 0")
    case True
    with strip digits show ?thesis by (simp add: py_int_def py_str_def)
  next
    case False
    obtain c cs where c: "nat_str (nat i) = c # cs" by (meson list.exhaust nat_str_nonempty)
    then have "c \<noteq> CHR ''-''" "c \<noteq> CHR ''+''" using nat_str_clean(3,4) [where n = "nat i"] by auto
    moreover have "int_digits (c # cs) 0 False = Inr i" using digits [of "nat i"] c False by simp
    ultimately show ?thesis using strip c False by (simp add: py_int_def py_str_def del: int_digits.simps)
  qed
qed

lemma py_str_inj: "py_str i = py_str j \<Longrightarrow> i = j"
  by (metis py_int_py_str sum.inject(2))

subsection \<open>Prefixes and suffixes\<close>

text \<open>\<open>startswith\<close> and \<open>endswith\<close>.\<close>

definition starts_with :: "string \<Rightarrow> string \<Rightarrow> bool" where
  "starts_with s p \<longleftrightarrow> take (length p) s = p"

definition ends_with :: "string \<Rightarrow> string \<Rightarrow> bool" where
  "ends_with s p \<longleftrightarrow> starts_with (rev s) (rev p)"

lemma starts_with_append [simp]: "starts_with (p @ s) p"
  by (simp add: starts_with_def)

lemma starts_with_cut: "starts_with s p \<Longrightarrow> p @ drop (length p) s = s"
  unfolding starts_with_def by (metis append_take_drop_id)

end
