(* ===== verification/Data_Structures.thy ===== *)
theory Data_Structures
  imports Py_Strings
begin

text \<open>
  \<open>src/peerz/data_structures.py\<close>: module uids and their parser, the server states, the server
  record announced over the DHT with its wire format (\<open>to_tuple\<close>, \<open>from_tuple\<close>), and the records
  that describe which peers serve a module and which span of blocks one peer serves.

  A \<open>PeerID\<close> is its base58 text: \<open>hivemind\<close> compares, orders and hashes peer ids by it. The
  field validation that pydantic performs is written out where the annotations are strict
  (\<open>conint\<close>, \<open>confloat\<close>); the coercions of its non-strict fields are parameters.
\<close>

type_synonym peer_id = string
type_synonym module_uid = string

definition UID_DELIMITER :: char where "UID_DELIMITER = CHR ''.''"
definition CHAIN_DELIMITER :: char where "CHAIN_DELIMITER = CHR '' ''"

definition parse_uid :: "module_uid \<Rightarrow> (string \<times> int) result" where
  "parse_uid uid =
     guardR (CHAIN_DELIMITER \<notin> set uid) AssertionError
       (case py_split UID_DELIMITER uid of
          [dht_prefix, index] \<Rightarrow> bindR (py_int index) (\<lambda>i. Inr (dht_prefix, i))
        | _ \<Rightarrow> Inl ValueError)"

text \<open>The uid of a block, \<open>f"{dht_prefix}{UID_DELIMITER}{i}"\<close>, and a chain of uids.\<close>

definition block_uid :: "string \<Rightarrow> int \<Rightarrow> module_uid" where
  "block_uid dht_prefix i = dht_prefix @ UID_DELIMITER # py_str i"

definition chain_uids :: "module_uid list \<Rightarrow> string" where
  "chain_uids uids = py_join CHAIN_DELIMITER uids"

subsection \<open>Values on the wire\<close>

datatype wire = WNone | WBool bool | WInt int | WFloat xfloat | WStr string
  | WList "wire list" | WDict "(string \<times> wire) list"

record model_info =
  mi_num_blocks :: int
  mi_repository :: "string option"

definition model_info_to_dict :: "model_info \<Rightarrow> (string, wire) dict" where
  "model_info_to_dict m =
     [(''num_blocks'', WInt (mi_num_blocks m)),
      (''repository'', case mi_repository m of None \<Rightarrow> WNone | Some r \<Rightarrow> WStr r)]"

datatype server_state = OFFLINE | JOINING | ONLINE

fun state_value :: "server_state \<Rightarrow> int" where
  "state_value OFFLINE = 0"
| "state_value JOINING = 1"
| "state_value ONLINE = 2"

instantiation server_state :: linorder
begin

definition less_eq_server_state :: "server_state \<Rightarrow> server_state \<Rightarrow> bool" where
  "less_eq_server_state a b = (state_value a \<le> state_value b)"

definition less_server_state :: "server_state \<Rightarrow> server_state \<Rightarrow> bool" where
  "less_server_state a b = (state_value a < state_value b)"

instance
proof
  fix x y z :: server_state
  show "x \<le> y \<Longrightarrow> y \<le> x \<Longrightarrow> x = y"
    by (cases x; cases y) (auto simp: less_eq_server_state_def)
qed (auto simp: less_eq_server_state_def less_server_state_def)

end

text \<open>\<open>ServerState(value)\<close>: lookup by value; a bool or an integral float equal to a value finds it.\<close>

definition server_state_of :: "wire \<Rightarrow> server_state result" where
  "server_state_of w =
     (let n = (case w of WInt i \<Rightarrow> Some i | WBool b \<Rightarrow> Some (if b then 1 else 0)
                 | WFloat (Fin r) \<Rightarrow> (if r = 0 then Some 0 else if r = 1 then Some 1
                                     else if r = 2 then Some 2 else None)
                 | _ \<Rightarrow> None)
      in if n = Some 0 then Inr OFFLINE else if n = Some 1 then Inr JOINING
         else if n = Some 2 then Inr ONLINE else Inl ValueError)"

record server_info =
  si_state :: server_state
  si_throughput :: rat
  start_block :: "int option"
  end_block :: "int option"
  public_name :: "string option"
  version :: "string option"
  network_rps :: "rat option"
  forward_rps :: "rat option"
  inference_rps :: "rat option"
  adapters :: "string list"
  torch_dtype :: "string option"
  quant_type :: "string option"
  using_relay :: "bool option"
  cache_tokens_left :: "int option"
  next_pings :: "(string, xfloat) dict option"

definition wire_opt :: "('a \<Rightarrow> wire) \<Rightarrow> 'a option \<Rightarrow> wire" where
  "wire_opt f x = (case x of None \<Rightarrow> WNone | Some a \<Rightarrow> f a)"

text \<open>\<open>ServerInfo.to_tuple\<close>: the state's value, the throughput and a dictionary of the other fields.\<close>

definition extra_info :: "server_info \<Rightarrow> (string, wire) dict" where
  "extra_info s =
     [(''start_block'', wire_opt WInt (start_block s)),
      (''end_block'', wire_opt WInt (end_block s)),
      (''public_name'', wire_opt WStr (public_name s)),
      (''version'', wire_opt WStr (version s)),
      (''network_rps'', wire_opt (WFloat \<circ> Fin) (network_rps s)),
      (''forward_rps'', wire_opt (WFloat \<circ> Fin) (forward_rps s)),
      (''inference_rps'', wire_opt (WFloat \<circ> Fin) (inference_rps s)),
      (''adapters'', WList (map WStr (adapters s))),
      (''torch_dtype'', wire_opt WStr (torch_dtype s)),
      (''quant_type'', wire_opt WStr (quant_type s)),
      (''using_relay'', wire_opt WBool (using_relay s)),
      (''cache_tokens_left'', wire_opt WInt (cache_tokens_left s)),
      (''next_pings'', wire_opt (\<lambda>d. WDict (map (\<lambda>(k, v). (k, WFloat v)) d)) (next_pings s))]"

definition to_tuple :: "server_info \<Rightarrow> wire list" where
  "to_tuple s = [WInt (state_value (si_state s)), WFloat (Fin (si_throughput s)), WDict (extra_info s)]"

text \<open>What pydantic does to the values of non-strict fields.\<close>

record pydantic_lax =
  lax_str :: "wire \<Rightarrow> string result"
  lax_bool :: "wire \<Rightarrow> bool result"
  lax_strs :: "wire \<Rightarrow> string list result"
  lax_dict :: "wire \<Rightarrow> (string, wire) dict result"

text \<open>Documented: a value that already has the declared type is taken as it is, and a value that
  cannot be coerced raises a \<open>ValidationError\<close>, which is a \<open>ValueError\<close>.\<close>

definition pydantic_ok :: "pydantic_lax \<Rightarrow> bool" where
  "pydantic_ok P \<longleftrightarrow>
     (\<forall>s. lax_str P (WStr s) = Inr s) \<and> (\<forall>b. lax_bool P (WBool b) = Inr b) \<and>
     (\<forall>ss. lax_strs P (WList (map WStr ss)) = Inr ss) \<and> (\<forall>d. lax_dict P (WDict d) = Inr d) \<and>
     (\<forall>w e. lax_str P w = Inl e \<or> lax_bool P w = Inl e \<or> lax_strs P w = Inl e \<or> lax_dict P w = Inl e
        \<longrightarrow> e = ValueError)"

fun strict_nat :: "wire \<Rightarrow> int result" where
  "strict_nat (WInt n) = (if 0 \<le> n then Inr n else Inl ValueError)"
| "strict_nat _ = Inl ValueError"

fun strict_rps :: "wire \<Rightarrow> rat result" where
  "strict_rps (WFloat (Fin r)) = (if 0 \<le> r then Inr r else Inl ValueError)"
| "strict_rps _ = Inl ValueError"

fun strict_ping :: "wire \<Rightarrow> xfloat result" where
  "strict_ping (WFloat x) = (if Fin 0 \<le> x then Inr x else Inl ValueError)"
| "strict_ping _ = Inl ValueError"

definition opt_field :: "(string, wire) dict \<Rightarrow> string \<Rightarrow> (wire \<Rightarrow> 'a result) \<Rightarrow> 'a option result" where
  "opt_field d k v =
     (case dict_get d k of
        None \<Rightarrow> Inr None
      | Some w \<Rightarrow> if w = WNone then Inr None else bindR (v w) (\<lambda>x. Inr (Some x)))"

definition pings_field :: "pydantic_lax \<Rightarrow> wire \<Rightarrow> (string, xfloat) dict result" where
  "pings_field P w =
     bindR (lax_dict P w) (mapR (\<lambda>(k, v). bindR (strict_ping v) (\<lambda>x. Inr (k, x))))"

text \<open>The pydantic constructor of \<open>ServerInfo\<close> from the state, the throughput and the extra fields;
  fields it does not know are ignored.\<close>

definition validate_server_info ::
    "pydantic_lax \<Rightarrow> server_state \<Rightarrow> wire \<Rightarrow> (string, wire) dict \<Rightarrow> server_info result" where
  "validate_server_info P st th d =
     bindR (strict_rps th) (\<lambda>throughput.
     bindR (opt_field d ''start_block'' strict_nat) (\<lambda>sb.
     bindR (opt_field d ''end_block'' strict_nat) (\<lambda>eb.
     bindR (opt_field d ''public_name'' (lax_str P)) (\<lambda>pn.
     bindR (opt_field d ''version'' (lax_str P)) (\<lambda>vs.
     bindR (opt_field d ''network_rps'' strict_rps) (\<lambda>nr.
     bindR (opt_field d ''forward_rps'' strict_rps) (\<lambda>fr.
     bindR (opt_field d ''inference_rps'' strict_rps) (\<lambda>ir.
     bindR (case dict_get d ''adapters'' of None \<Rightarrow> Inr [] | Some w \<Rightarrow> lax_strs P w) (\<lambda>ad.
     bindR (opt_field d ''torch_dtype'' (lax_str P)) (\<lambda>td.
     bindR (opt_field d ''quant_type'' (lax_str P)) (\<lambda>qt.
     bindR (opt_field d ''using_relay'' (lax_bool P)) (\<lambda>ur.
     bindR (opt_field d ''cache_tokens_left'' strict_nat) (\<lambda>ct.
     bindR (opt_field d ''next_pings'' (pings_field P)) (\<lambda>np.
     Inr \<lparr>si_state = st, si_throughput = throughput, start_block = sb, end_block = eb,
          public_name = pn, version = vs, network_rps = nr, forward_rps = fr, inference_rps = ir,
          adapters = ad, torch_dtype = td, quant_type = qt, using_relay = ur,
          cache_tokens_left = ct, next_pings = np\<rparr>))))))))))))))"

text \<open>\<open>**extra_info\<close>: only a mapping can be passed as keyword arguments.\<close>

fun as_kwargs :: "wire \<Rightarrow> (string, wire) dict result" where
  "as_kwargs (WDict d) = Inr d"
| "as_kwargs _ = Inl TypeError"

definition from_tuple :: "pydantic_lax \<Rightarrow> wire list \<Rightarrow> server_info result" where
  "from_tuple P source =
     (case source of
        state # throughput # rest \<Rightarrow>
          (let extra = (case rest of [] \<Rightarrow> WDict [] | e # _ \<Rightarrow> e) in
           bindR (server_state_of state) (\<lambda>st.
           bindR (as_kwargs extra) (\<lambda>d.
             if dict_get d ''state'' \<noteq> None \<or> dict_get d ''throughput'' \<noteq> None then Inl TypeError
             else validate_server_info P st throughput d)))
      | _ \<Rightarrow> Inl ValueError)"

subsection \<open>Modules and spans\<close>

record remote_module_info =
  rm_uid :: module_uid
  rm_servers :: "(peer_id, server_info) dict"

record remote_span_info =
  rs_peer :: peer_id
  rs_start :: int
  rs_end :: int
  rs_info :: server_info

definition span_length :: "remote_span_info \<Rightarrow> int" where
  "span_length s = rs_end s - rs_start s"

definition span_state :: "remote_span_info \<Rightarrow> server_state" where
  "span_state s = si_state (rs_info s)"

definition span_throughput :: "remote_span_info \<Rightarrow> rat" where
  "span_throughput s = si_throughput (rs_info s)"

record inference_metadata =
  im_uid :: module_uid
  im_prefix_length :: int
  im_cache_handles :: "int list"
  im_active_adapter :: "string option"

text \<open>What the annotations of \<open>ServerInfo\<close> promise about its numbers.\<close>

definition valid_server_info :: "server_info \<Rightarrow> bool" where
  "valid_server_info s \<longleftrightarrow>
     0 \<le> si_throughput s \<and>
     (\<forall>n. start_block s = Some n \<longrightarrow> 0 \<le> n) \<and> (\<forall>n. end_block s = Some n \<longrightarrow> 0 \<le> n) \<and>
     (\<forall>r. network_rps s = Some r \<longrightarrow> 0 \<le> r) \<and> (\<forall>r. forward_rps s = Some r \<longrightarrow> 0 \<le> r) \<and>
     (\<forall>r. inference_rps s = Some r \<longrightarrow> 0 \<le> r) \<and>
     (\<forall>n. cache_tokens_left s = Some n \<longrightarrow> 0 \<le> n) \<and>
     (\<forall>d. next_pings s = Some d \<longrightarrow> (\<forall>(k, x) \<in> set d. Fin 0 \<le> x))"

subsection \<open>Lemmas on uids\<close>

lemma block_uid_no_space: "CHR '' '' \<notin> set p \<Longrightarrow> CHR '' '' \<notin> set (block_uid p i)"
  by (simp add: block_uid_def UID_DELIMITER_def py_str_clean)

lemma block_uid_inj: "block_uid p i = block_uid p j \<longleftrightarrow> i = j"
  by (auto simp: block_uid_def dest: py_str_inj)

lemma parse_block_uid:
  assumes "CHR ''.'' \<notin> set p" and "CHR '' '' \<notin> set p"
  shows "parse_uid (block_uid p i) = Inr (p, i)"
proof -
  have "CHR '' '' \<notin> set (p @ CHR ''.'' # py_str i)"
    using assms(2) by (simp add: py_str_clean)
  then show ?thesis
    using assms by (simp add: parse_uid_def block_uid_def UID_DELIMITER_def CHAIN_DELIMITER_def
        py_split_append py_split_no_sep py_str_clean py_int_py_str)
qed

lemma split_chain_uids:
  "uids \<noteq> [] \<Longrightarrow> (\<And>u. u \<in> set uids \<Longrightarrow> CHR '' '' \<notin> set u) \<Longrightarrow> py_split CHAIN_DELIMITER (chain_uids uids) = uids"
  by (simp add: chain_uids_def CHAIN_DELIMITER_def py_split_join)

subsection \<open>Lemmas on the wire format\<close>

lemma server_state_of_value [simp]: "server_state_of (WInt (state_value s)) = Inr s"
  by (cases s) (simp_all add: server_state_of_def)

lemma opt_field_wire:
  assumes "dict_get d k = Some (wire_opt f x)" "\<And>a. x = Some a \<Longrightarrow> f a \<noteq> WNone \<and> v (f a) = Inr a"
  shows "opt_field d k v = Inr x"
  using assms by (cases x) (auto simp: opt_field_def wire_opt_def)

lemma opt_field_valid: "opt_field d k v = Inr (Some a) \<Longrightarrow> \<exists>w. v w = Inr a"
  by (auto simp: opt_field_def bindR_Inr split: option.splits if_splits)

lemma strict_nat_ge: "strict_nat w = Inr n \<Longrightarrow> 0 \<le> n"
  by (cases w rule: strict_nat.cases) (auto split: if_splits)

lemma strict_rps_ge: "strict_rps w = Inr r \<Longrightarrow> 0 \<le> r"
  by (cases w rule: strict_rps.cases) (auto split: if_splits)

lemma strict_ping_ge: "strict_ping w = Inr x \<Longrightarrow> Fin 0 \<le> x"
  by (cases w rule: strict_ping.cases) (auto split: if_splits)

lemma pings_field_ge:
  assumes "pings_field P w = Inr d" and "(k, x) \<in> set d"
  shows "Fin 0 \<le> x"
proof -
  from assms obtain p where "(case p of (k, v) \<Rightarrow> bindR (strict_ping v) (\<lambda>x. Inr (k, x))) = Inr (k, x)"
    by (auto simp: pings_field_def bindR_Inr dest!: mapR_memD)
  then show ?thesis by (auto simp: bindR_Inr strict_ping_ge split: prod.splits)
qed

lemma pings_field_wire:
  assumes "pydantic_ok P" and "\<forall>(k, x) \<in> set d. Fin 0 \<le> x"
  shows "pings_field P (WDict (map (\<lambda>(k, v). (k, WFloat v)) d)) = Inr d"
proof -
  have "mapR (\<lambda>(k, v). bindR (strict_ping v) (\<lambda>x. Inr (k, x))) (map (\<lambda>(k, v). (k, WFloat v)) d) = Inr d"
    using assms(2) by (induction d) auto
  with assms(1) show ?thesis by (simp add: pings_field_def pydantic_ok_def)
qed

lemma extra_info_get:
  "dict_get (extra_info s) ''start_block'' = Some (wire_opt WInt (start_block s))"
  "dict_get (extra_info s) ''end_block'' = Some (wire_opt WInt (end_block s))"
  "dict_get (extra_info s) ''public_name'' = Some (wire_opt WStr (public_name s))"
  "dict_get (extra_info s) ''version'' = Some (wire_opt WStr (version s))"
  "dict_get (extra_info s) ''network_rps'' = Some (wire_opt (WFloat \<circ> Fin) (network_rps s))"
  "dict_get (extra_info s) ''forward_rps'' = Some (wire_opt (WFloat \<circ> Fin) (forward_rps s))"
  "dict_get (extra_info s) ''inference_rps'' = Some (wire_opt (WFloat \<circ> Fin) (inference_rps s))"
  "dict_get (extra_info s) ''adapters'' = Some (WList (map WStr (adapters s)))"
  "dict_get (extra_info s) ''torch_dtype'' = Some (wire_opt WStr (torch_dtype s))"
  "dict_get (extra_info s) ''quant_type'' = Some (wire_opt WStr (quant_type s))"
  "dict_get (extra_info s) ''using_relay'' = Some (wire_opt WBool (using_relay s))"
  "dict_get (extra_info s) ''cache_tokens_left'' = Some (wire_opt WInt (cache_tokens_left s))"
  "dict_get (extra_info s) ''next_pings'' =
     Some (wire_opt (\<lambda>d. WDict (map (\<lambda>(k, v). (k, WFloat v)) d)) (next_pings s))"
  "dict_get (extra_info s) ''state'' = None" "dict_get (extra_info s) ''throughput'' = None"
  by (simp_all add: extra_info_def)

lemma validate_extra_info:
  assumes "pydantic_ok P" and "valid_server_info s"
  shows "validate_server_info P (si_state s) (WFloat (Fin (si_throughput s))) (extra_info s) = Inr s"
proof -
  have lax: "lax_str P (WStr x) = Inr x" "lax_bool P (WBool b) = Inr b"
    "lax_strs P (WList (map WStr ss)) = Inr ss" for x b ss
    using assms(1) by (simp_all add: pydantic_ok_def)
  note field = opt_field_wire [OF extra_info_get(1)] opt_field_wire [OF extra_info_get(2)]
    opt_field_wire [OF extra_info_get(3)] opt_field_wire [OF extra_info_get(4)]
    opt_field_wire [OF extra_info_get(5)] opt_field_wire [OF extra_info_get(6)]
    opt_field_wire [OF extra_info_get(7)] opt_field_wire [OF extra_info_get(9)]
    opt_field_wire [OF extra_info_get(10)] opt_field_wire [OF extra_info_get(11)]
    opt_field_wire [OF extra_info_get(12)] opt_field_wire [OF extra_info_get(13)]
  show ?thesis
    using assms unfolding validate_server_info_def valid_server_info_def
    by (simp add: field extra_info_get(8) lax pings_field_wire)
qed

lemma validate_server_info_valid: "validate_server_info P st th d = Inr s \<Longrightarrow> valid_server_info s"
  unfolding validate_server_info_def valid_server_info_def
  by (auto simp: bindR_Inr strict_rps_ge
      dest!: opt_field_valid dest: strict_nat_ge strict_rps_ge pings_field_ge)

lemma from_tuple_valid: "from_tuple P src = Inr s \<Longrightarrow> valid_server_info s"
  by (auto simp: from_tuple_def bindR_Inr Let_def split: list.splits if_splits
      intro: validate_server_info_valid)

lemma from_tuple_to_tuple: "pydantic_ok P \<Longrightarrow> valid_server_info s \<Longrightarrow> from_tuple P (to_tuple s) = Inr s"
  by (simp add: from_tuple_def to_tuple_def extra_info_get validate_extra_info)

lemma strict_errors:
  "strict_nat w = Inl e \<Longrightarrow> e = ValueError" "strict_rps w = Inl e \<Longrightarrow> e = ValueError"
  "strict_ping w = Inl e \<Longrightarrow> e = ValueError"
proof -
  show "strict_nat w = Inl e \<Longrightarrow> e = ValueError"
    by (cases w rule: strict_nat.cases) (auto split: if_splits)
  show "strict_rps w = Inl e \<Longrightarrow> e = ValueError"
    by (cases w rule: strict_rps.cases) (auto split: if_splits)
  show "strict_ping w = Inl e \<Longrightarrow> e = ValueError"
    by (cases w rule: strict_ping.cases) (auto split: if_splits)
qed

lemma pings_field_error: "pydantic_ok P \<Longrightarrow> pings_field P w = Inl e \<Longrightarrow> e = ValueError"
  by (auto simp: pings_field_def bindR_Inl pydantic_ok_def dest!: mapR_Inl strict_errors(3))

lemma opt_field_error: "opt_field d k v = Inl e \<Longrightarrow> \<exists>w. v w = Inl e"
  by (auto simp: opt_field_def bindR_Inl split: option.splits if_splits)

lemma validate_server_info_error:
  assumes "pydantic_ok P" and "validate_server_info P st th d = Inl e"
  shows "e = ValueError"
proof -
  have lax: "lax_str P w = Inl e \<Longrightarrow> e = ValueError" "lax_bool P w = Inl e \<Longrightarrow> e = ValueError"
    "lax_strs P w = Inl e \<Longrightarrow> e = ValueError" for w e
    using assms(1) by (auto simp: pydantic_ok_def)
  from assms show ?thesis
    unfolding validate_server_info_def
    by (auto simp: bindR_Inl dest!: opt_field_error dest: strict_errors lax pings_field_error
        split: option.splits)
qed

lemma from_tuple_error: "pydantic_ok P \<Longrightarrow> from_tuple P src = Inl e \<Longrightarrow> e = TypeError \<or> e = ValueError"
proof -
  have "as_kwargs w = Inl e \<Longrightarrow> e = TypeError" for w e by (cases w) auto
  moreover have "server_state_of w = Inl e \<Longrightarrow> e = ValueError" for w e
    by (simp add: server_state_of_def Let_def split: if_splits)
  ultimately show "pydantic_ok P \<Longrightarrow> from_tuple P src = Inl e \<Longrightarrow> e = TypeError \<or> e = ValueError"
    by (auto simp: from_tuple_def bindR_Inl Let_def split: list.splits if_splits
        dest: validate_server_info_error)
qed

subsection \<open>Properties\<close>

text \<open>Uid round trip: for a prefix without the two delimiters, parsing the uid built for a block
  gives back the prefix and the block index, and splitting a chain of such uids at the chain
  delimiter gives back the list of uids, so uids and chains are unambiguous.\<close>

theorem uid_roundtrip:
  assumes "CHR ''.'' \<notin> set p" and "CHR '' '' \<notin> set p" and "a < b"
  shows "parse_uid (block_uid p i) = Inr (p, i) \<and>
    py_split CHAIN_DELIMITER (chain_uids (map (block_uid p) (py_range a b))) = map (block_uid p) (py_range a b)"
proof
  show "parse_uid (block_uid p i) = Inr (p, i)"
    using assms(1,2) by (rule parse_block_uid)
  show "py_split CHAIN_DELIMITER (chain_uids (map (block_uid p) (py_range a b))) = map (block_uid p) (py_range a b)"
    using assms(2,3) by (intro split_chain_uids) (auto simp: block_uid_no_space py_range_Cons)
qed

theorem uid_roundtrip_witness:
  "parse_uid (block_uid ''bloom'' 4) = Inr (''bloom'', 4) \<and>
   py_split CHAIN_DELIMITER (chain_uids (map (block_uid ''bloom'') (py_range 3 6))) =
     map (block_uid ''bloom'') (py_range 3 6)"
  using uid_roundtrip [of "''bloom''" 3 6 4] by simp

text \<open>Wire format of \<open>ServerInfo\<close>: what \<open>from_tuple\<close> accepts always satisfies the numeric bounds the
  field annotations declare, and every record that satisfies them survives the trip through
  \<open>to_tuple\<close> and \<open>from_tuple\<close> unchanged.\<close>

theorem server_info_wire:
  assumes "pydantic_ok P"
  shows "(valid_server_info s \<longleftrightarrow> from_tuple P (to_tuple s) = Inr s) \<and>
    (\<forall>src t. from_tuple P src = Inr t \<longrightarrow> valid_server_info t)"
  using assms from_tuple_valid from_tuple_to_tuple by blast

definition strict_pydantic :: pydantic_lax where
  "strict_pydantic =
     \<lparr>lax_str = (\<lambda>w. case w of WStr s \<Rightarrow> Inr s | _ \<Rightarrow> Inl ValueError),
      lax_bool = (\<lambda>w. case w of WBool b \<Rightarrow> Inr b | _ \<Rightarrow> Inl ValueError),
      lax_strs = (\<lambda>w. case w of
          WList ws \<Rightarrow> mapR (\<lambda>v. case v of WStr s \<Rightarrow> Inr s | _ \<Rightarrow> Inl ValueError) ws
        | _ \<Rightarrow> Inl ValueError),
      lax_dict = (\<lambda>w. case w of WDict d \<Rightarrow> Inr d | _ \<Rightarrow> Inl ValueError)\<rparr>"

lemma strict_pydantic_ok: "pydantic_ok strict_pydantic"
proof -
  have "mapR (\<lambda>v. case v of WStr s \<Rightarrow> Inr s | _ \<Rightarrow> Inl ValueError) (map WStr ss) = Inr ss" for ss
    by (induction ss) auto
  then show ?thesis
    by (auto simp: pydantic_ok_def strict_pydantic_def split: wire.splits dest!: mapR_Inl)
qed

definition sample_info :: server_info where
  "sample_info = \<lparr>si_state = ONLINE, si_throughput = 5 / 2, start_block = Some 3, end_block = Some 7,
     public_name = None, version = Some ''1.0'', network_rps = None, forward_rps = Some 10,
     inference_rps = Some 4, adapters = [''lora''], torch_dtype = Some ''bfloat16'',
     quant_type = Some ''none'', using_relay = Some False, cache_tokens_left = Some 4096,
     next_pings = Some [(''QmB'', PInf)]\<rparr>"

lemma sample_info_valid: "valid_server_info sample_info"
  by (simp add: valid_server_info_def sample_info_def)

theorem server_info_wire_witness:
  "from_tuple strict_pydantic (to_tuple sample_info) = Inr sample_info \<and>
   valid_server_info sample_info"
  using server_info_wire [OF strict_pydantic_ok, of sample_info] sample_info_valid by blast

end
