(* ===== verification/Dht_Utils.thy ===== *)
theory Dht_Utils
  imports Data_Structures
begin

text \<open>
  \<open>src/peerz/utils/dht.py\<close>: announcing served blocks to the DHT, reading the announcements back,
  and folding them into one span of blocks per peer (\<open>compute_spans\<close>).

  The DHT itself is hivemind's: its node operations \<open>store_many\<close> and \<open>get_many\<close> and the parser of
  base58 peer ids are arguments of the definitions. A stored value is a dictionary from subkeys to
  values, or something else that the reader has to skip.
\<close>

datatype dht_value = DictValue "(string, wire) dict" | OtherValue

type_synonym dht_found = "module_uid \<Rightarrow> dht_value option"
type_synonym 'd store_many = "'d \<Rightarrow> module_uid list \<Rightarrow> string list \<Rightarrow> wire list \<Rightarrow> xfloat \<Rightarrow> 'd"
type_synonym 'd get_many = "'d \<Rightarrow> module_uid list \<Rightarrow> xfloat \<Rightarrow> dht_found"

subsection \<open>Announcing and reading\<close>

definition declare_active_modules ::
    "'d store_many \<Rightarrow> 'd \<Rightarrow> peer_id \<Rightarrow> module_uid list \<Rightarrow> server_info \<Rightarrow> xfloat \<Rightarrow> 'd result" where
  "declare_active_modules store_many dht me uids info expiration =
     guardR (\<forall>uid \<in> set uids. UID_DELIMITER \<in> set uid \<and> CHAIN_DELIMITER \<notin> set uid) AssertionError
       (Inr (store_many dht uids (replicate (length uids) me)
               (replicate (length uids) (WList (to_tuple info))) expiration))"

text \<open>\<open>ServerInfo.from_tuple(value)\<close> on whatever the DHT returned: only sequences can be sliced.\<close>

fun server_info_of :: "pydantic_lax \<Rightarrow> wire \<Rightarrow> server_info result" where
  "server_info_of P (WList ws) = from_tuple P ws"
| "server_info_of P (WStr s) = Inl ValueError"
| "server_info_of P _ = Inl TypeError"

definition adapter_missing :: "string option \<Rightarrow> server_info \<Rightarrow> bool" where
  "adapter_missing active_adapter info =
     (case active_adapter of None \<Rightarrow> False | Some a \<Rightarrow> a \<noteq> [] \<and> a \<notin> set (adapters info))"

text \<open>One entry of a module's dictionary: kept, or skipped when it does not parse
  (\<open>TypeError\<close>, \<open>ValueError\<close>) or lacks the adapter.\<close>

definition read_peer_entry ::
    "pydantic_lax \<Rightarrow> (string \<Rightarrow> peer_id result) \<Rightarrow> string option \<Rightarrow> string \<times> wire
     \<Rightarrow> (peer_id, server_info) dict \<Rightarrow> (peer_id, server_info) dict result" where
  "read_peer_entry P from_base58 active_adapter e servers =
     (case bindR (from_base58 (fst e)) (\<lambda>p. bindR (server_info_of P (snd e)) (\<lambda>si. Inr (p, si))) of
        Inl x \<Rightarrow> if x = TypeError \<or> x = ValueError then Inr servers else Inl x
      | Inr (p, si) \<Rightarrow> Inr (if adapter_missing active_adapter si then servers else dict_set p si servers))"

definition read_module ::
    "pydantic_lax \<Rightarrow> (string \<Rightarrow> peer_id result) \<Rightarrow> string option \<Rightarrow> dht_found \<Rightarrow> module_uid
     \<Rightarrow> remote_module_info result" where
  "read_module P from_base58 active_adapter found uid =
     (case found uid of
        Some (DictValue m) \<Rightarrow>
          bindR (foldR (read_peer_entry P from_base58 active_adapter) m [])
            (\<lambda>servers. Inr \<lparr>rm_uid = uid, rm_servers = servers\<rparr>)
      | _ \<Rightarrow> Inr \<lparr>rm_uid = uid, rm_servers = []\<rparr>)"

definition get_remote_module_infos ::
    "'d get_many \<Rightarrow> pydantic_lax \<Rightarrow> (string \<Rightarrow> peer_id result) \<Rightarrow> rat \<Rightarrow> 'd \<Rightarrow> module_uid list
     \<Rightarrow> xfloat option \<Rightarrow> string option \<Rightarrow> bool \<Rightarrow> remote_module_info list result" where
  "get_remote_module_infos get_many P from_base58 dht_time dht uids expiration_time active_adapter latest =
     guardR (latest \<longrightarrow> expiration_time = None) AssertionError
       (let expiration = (if latest then PInf
                          else case expiration_time of None \<Rightarrow> Fin dht_time | Some t \<Rightarrow> t);
            found = get_many dht uids expiration
        in mapR (read_module P from_base58 active_adapter found) uids)"

subsection \<open>Spans\<close>

definition new_span :: "int \<Rightarrow> int \<Rightarrow> int \<Rightarrow> peer_id \<Rightarrow> server_info \<Rightarrow> remote_span_info" where
  "new_span block_offset num_blocks block_idx p si =
     (case (start_block si, end_block si) of
        (Some s, Some e) \<Rightarrow>
          \<lparr>rs_peer = p, rs_start = max (s - block_offset) 0, rs_end = min (e - block_offset) num_blocks,
           rs_info = si\<rparr>
      | _ \<Rightarrow> \<lparr>rs_peer = p, rs_start = block_idx, rs_end = block_idx + 1, rs_info = si\<rparr>)"

text \<open>What one entry \<open>(p, si)\<close> of block \<open>block_idx\<close> does to the span known for the peer.\<close>

definition span_entry ::
    "int \<Rightarrow> int \<Rightarrow> server_state \<Rightarrow> int \<Rightarrow> peer_id \<Rightarrow> server_info
     \<Rightarrow> remote_span_info option \<Rightarrow> remote_span_info option" where
  "span_entry block_offset num_blocks min_state block_idx p si cur =
     (if state_value (si_state si) < state_value min_state then cur
      else (case cur of
              None \<Rightarrow> Some (new_span block_offset num_blocks block_idx p si)
            | Some sp \<Rightarrow>
                if state_value (span_state sp) < state_value (si_state si)
                then Some (new_span block_offset num_blocks block_idx p si)
                else if span_state sp = si_state si
                then Some (sp\<lparr>rs_end := max (rs_end sp) (block_idx + 1)\<rparr>)
                else cur))"

definition span_visit ::
    "int \<Rightarrow> int \<Rightarrow> server_state \<Rightarrow> int \<Rightarrow> peer_id \<times> server_info
     \<Rightarrow> (peer_id, remote_span_info) dict \<Rightarrow> (peer_id, remote_span_info) dict" where
  "span_visit block_offset num_blocks min_state block_idx e spans =
     (case span_entry block_offset num_blocks min_state block_idx (fst e) (snd e) (dict_get spans (fst e)) of
        None \<Rightarrow> spans
      | Some sp \<Rightarrow> dict_set (fst e) sp spans)"

definition span_block ::
    "int \<Rightarrow> int \<Rightarrow> server_state \<Rightarrow> nat \<times> remote_module_info
     \<Rightarrow> (peer_id, remote_span_info) dict \<Rightarrow> (peer_id, remote_span_info) dict" where
  "span_block block_offset num_blocks min_state b spans =
     fold (span_visit block_offset num_blocks min_state (int (fst b)))
       (sort_key fst (rm_servers (snd b))) spans"

definition compute_spans ::
    "remote_module_info list \<Rightarrow> server_state \<Rightarrow> (peer_id, remote_span_info) dict result" where
  "compute_spans module_infos min_state =
     bindR (case module_infos of [] \<Rightarrow> Inr 0 | m # _ \<Rightarrow> bindR (parse_uid (rm_uid m)) (\<lambda>(_, i). Inr i))
       (\<lambda>block_offset.
          Inr (fold (span_block block_offset (int (length module_infos)) min_state)
                 (enumerate 0 module_infos) []))"

subsection \<open>Well-formed spans\<close>

text \<open>Every computed span is filed under its own peer, starts at or after block 0, ends at or before
  the last block, and is in at least the requested state.\<close>

definition wf_span :: "int \<Rightarrow> server_state \<Rightarrow> peer_id \<Rightarrow> remote_span_info \<Rightarrow> bool" where
  "wf_span n min_state p sp \<longleftrightarrow> rs_peer sp = p \<and> 0 \<le> rs_start sp \<and> rs_end sp \<le> n \<and> min_state \<le> span_state sp"

definition wf_spans :: "int \<Rightarrow> server_state \<Rightarrow> (peer_id, remote_span_info) dict \<Rightarrow> bool" where
  "wf_spans n min_state spans \<longleftrightarrow>
     wf_dict spans \<and> (\<forall>p sp. dict_get spans p = Some sp \<longrightarrow> wf_span n min_state p sp)"

lemma wf_spansD: "wf_spans n ms spans \<Longrightarrow> dict_get spans p = Some sp \<Longrightarrow> wf_span n ms p sp"
  by (simp add: wf_spans_def)

lemma wf_spans_mem: "wf_spans n ms spans \<Longrightarrow> (p, sp) \<in> set spans \<Longrightarrow> wf_span n ms p sp"
  by (simp add: wf_spans_def)

lemma wf_spans_Nil [simp]: "wf_spans n ms []"
  by (simp add: wf_spans_def)

lemma wf_spans_set: "wf_spans n ms spans \<Longrightarrow> wf_span n ms p sp \<Longrightarrow> wf_spans n ms (dict_set p sp spans)"
  by (simp add: wf_spans_def)

lemma wf_new_span:
  "0 \<le> i \<Longrightarrow> i < n \<Longrightarrow> ms \<le> si_state si \<Longrightarrow> wf_span n ms p (new_span off n i p si)"
  by (auto simp: wf_span_def new_span_def span_state_def split: option.splits)

lemma wf_span_extend:
  "wf_span n ms p sp \<Longrightarrow> i < n \<Longrightarrow> wf_span n ms p (sp\<lparr>rs_end := max (rs_end sp) (i + 1)\<rparr>)"
  by (simp add: wf_span_def span_state_def)

lemma wf_span_entry:
  assumes "0 \<le> i" "i < n" "\<And>sp. cur = Some sp \<Longrightarrow> wf_span n ms p sp"
    and "span_entry off n ms i p si cur = Some sp"
  shows "wf_span n ms p sp"
proof -
  have "ms \<le> si_state si" if "\<not> state_value (si_state si) < state_value ms"
    using that by (simp add: less_eq_server_state_def)
  with assms show ?thesis
    by (auto simp: span_entry_def wf_new_span wf_span_extend split: if_splits option.splits)
qed

lemma wf_span_visit:
  "0 \<le> i \<Longrightarrow> i < n \<Longrightarrow> wf_spans n ms spans \<Longrightarrow> wf_spans n ms (span_visit off n ms i e spans)"
  unfolding span_visit_def
  by (auto split: option.splits intro!: wf_spans_set intro: wf_span_entry wf_spansD)

lemma wf_span_block:
  "int (fst b) < n \<Longrightarrow> wf_spans n ms spans \<Longrightarrow> wf_spans n ms (span_block off n ms b spans)"
  unfolding span_block_def
  by (rule fold_invariant [where Q = "\<lambda>_. True"]) (auto intro: wf_span_visit)

lemma compute_spans_wf:
  assumes "compute_spans infos ms = Inr spans"
  shows "wf_spans (int (length infos)) ms spans"
proof -
  from assms obtain off where
    "spans = fold (span_block off (int (length infos)) ms) (enumerate 0 infos) []"
    by (auto simp: compute_spans_def bindR_Inr)
  moreover have "wf_spans (int (length infos)) ms
      (fold (span_block off (int (length infos)) ms) (enumerate 0 infos) [])"
    by (rule fold_invariant [where Q = "\<lambda>b. fst b < length infos"])
      (auto simp: in_set_enumerate_eq intro: wf_span_block)
  ultimately show ?thesis by simp
qed

subsection \<open>The span of one peer\<close>

text \<open>The fold over all entries acts on each peer separately.\<close>

lemma span_visit_get:
  "dict_get (span_visit off n ms i e spans) p =
     (if p = fst e then span_entry off n ms i (fst e) (snd e) (dict_get spans p) else dict_get spans p)"
  by (auto simp: span_visit_def span_entry_def split: option.splits)

lemma span_visits_get:
  "wf_dict items \<Longrightarrow> dict_get (fold (span_visit off n ms i) items spans) p =
     (case dict_get items p of None \<Rightarrow> dict_get spans p
      | Some si \<Rightarrow> span_entry off n ms i p si (dict_get spans p))"
proof (induction items arbitrary: spans)
  case (Cons e items)
  show ?case
  proof (cases "p = fst e")
    case True
    with Cons.prems have "dict_get items p = None" by (simp add: map_of_eq_None_iff)
    with True Cons show ?thesis by (simp add: span_visit_get)
  next
    case False
    with Cons show ?thesis by (auto simp: span_visit_get split: option.splits)
  qed
qed simp

lemma sort_key_get:
  assumes "wf_dict d"
  shows "wf_dict (sort_key fst d) \<and> dict_get (sort_key fst d) = dict_get d"
proof -
  have *: "wf_dict (sort_key fst d)" using assms by (simp add: distinct_map)
  with assms show ?thesis by (simp add: map_of_inject_set)
qed

lemma span_block_get:
  "wf_dict (rm_servers m) \<Longrightarrow> dict_get (span_block off n ms (i, m) spans) p =
     (case dict_get (rm_servers m) p of None \<Rightarrow> dict_get spans p
      | Some si \<Rightarrow> span_entry off n ms (int i) p si (dict_get spans p))"
  by (simp add: span_block_def span_visits_get sort_key_get)

definition spans_upto ::
    "int \<Rightarrow> int \<Rightarrow> server_state \<Rightarrow> remote_module_info list \<Rightarrow> nat \<Rightarrow> (peer_id, remote_span_info) dict" where
  "spans_upto off n ms infos k = fold (span_block off n ms) (enumerate 0 (take k infos)) []"

lemma spans_upto_Suc:
  "k < length infos \<Longrightarrow> spans_upto off n ms infos (Suc k) = span_block off n ms (k, infos ! k) (spans_upto off n ms infos k)"
  by (simp add: spans_upto_def take_Suc_conv_app_nth enumerate_append_eq)

text \<open>A peer announces honestly when it is listed, with the same record, exactly at the blocks between
  the \<open>start_block\<close> and \<open>end_block\<close> of that record.\<close>

definition announces :: "int \<Rightarrow> remote_module_info list \<Rightarrow> peer_id \<Rightarrow> server_info \<Rightarrow> int \<Rightarrow> int \<Rightarrow> bool" where
  "announces off infos p si s e \<longleftrightarrow>
     start_block si = Some s \<and> end_block si = Some e \<and>
     (\<forall>i < length infos. wf_dict (rm_servers (infos ! i)) \<and>
        dict_get (rm_servers (infos ! i)) p = (if s \<le> off + int i \<and> off + int i < e then Some si else None))"

lemma announced_span_upto:
  assumes "announces off infos p si s e" and "ms \<le> si_state si" and "k \<le> length infos"
  shows "dict_get (spans_upto off (int (length infos)) ms infos k) p =
    (if \<exists>i < k. s \<le> off + int i \<and> off + int i < e
     then Some \<lparr>rs_peer = p, rs_start = max (s - off) 0, rs_end = min (e - off) (int (length infos)), rs_info = si\<rparr>
     else None)"
  using assms(3)
proof (induction k)
  case 0
  show ?case by (simp add: spans_upto_def)
next
  case (Suc k)
  then have k: "k < length infos" and IH: "k \<le> length infos" by auto
  have state: "\<not> state_value (si_state si) < state_value ms"
    using assms(2) by (simp add: less_eq_server_state_def)
  show ?case
  proof (cases "s \<le> off + int k \<and> off + int k < e")
    case True
    with assms(1) k have "dict_get (rm_servers (infos ! k)) p = Some si" "wf_dict (rm_servers (infos ! k))"
      by (auto simp: announces_def)
    moreover have "max (min (e - off) (int (length infos))) (int k + 1) = min (e - off) (int (length infos))"
      using True k by linarith
    ultimately show ?thesis
      using True assms(1) state
      by (auto simp: spans_upto_Suc [OF k] span_block_get Suc.IH [OF IH] span_entry_def new_span_def
          announces_def span_state_def less_Suc_eq)
  next
    case False
    with assms(1) k have "dict_get (rm_servers (infos ! k)) p = None" "wf_dict (rm_servers (infos ! k))"
      by (auto simp: announces_def)
    with False show ?thesis
      by (auto simp: spans_upto_Suc [OF k] span_block_get Suc.IH [OF IH] less_Suc_eq)
  qed
qed

text \<open>With the lowest minimal state, the span of a peer carries one of its records, with its highest state.\<close>

lemma spans_upto_state:
  assumes "\<forall>m \<in> set infos. wf_dict (rm_servers m)" and "k \<le> length infos"
  shows "case dict_get (spans_upto off n OFFLINE infos k) p of
      None \<Rightarrow> \<forall>i < k. dict_get (rm_servers (infos ! i)) p = None
    | Some sp \<Rightarrow> (\<exists>i < k. dict_get (rm_servers (infos ! i)) p = Some (rs_info sp)) \<and>
        (\<forall>i < k. \<forall>si. dict_get (rm_servers (infos ! i)) p = Some si \<longrightarrow> state_value (si_state si) \<le> state_value (span_state sp))"
  using assms(2)
proof (induction k)
  case (Suc k)
  then have k: "k < length infos" and le: "k \<le> length infos" by auto
  have wf: "wf_dict (rm_servers (infos ! k))" using assms(1) k by simp
  show ?case
  proof (cases "dict_get (rm_servers (infos ! k)) p")
    case None
    with Suc.IH [OF le] show ?thesis
      by (auto simp: spans_upto_Suc [OF k] span_block_get [OF wf] less_Suc_eq split: option.splits)
  next
    case (Some si)
    have low: "\<not> state_value (si_state si) < state_value OFFLINE" by (cases "si_state si") auto
    show ?thesis
    proof (cases "dict_get (spans_upto off n OFFLINE infos k) p")
      case None
      with Suc.IH [OF le] Some low show ?thesis
        by (auto simp: spans_upto_Suc [OF k] span_block_get [OF wf] span_entry_def new_span_def span_state_def less_Suc_eq
            split: option.splits)
    next
      case (Some sp)
      have "span_state sp \<noteq> si_state si \<Longrightarrow> state_value (span_state sp) \<noteq> state_value (si_state si)"
        by (cases "span_state sp"; cases "si_state si") auto
      with Suc.IH [OF le] Some \<open>dict_get (rm_servers (infos ! k)) p = Some si\<close> low show ?thesis
        by (fastforce simp: spans_upto_Suc [OF k] span_block_get [OF wf] span_entry_def new_span_def span_state_def less_Suc_eq
            split: option.splits if_splits)
    qed
  qed
qed (simp add: spans_upto_def)

subsection \<open>Reading announcements back\<close>

text \<open>A base58 text either denotes the peer id it spells or is rejected.\<close>

definition base58_ok :: "(string \<Rightarrow> peer_id result) \<Rightarrow> bool" where
  "base58_ok from_base58 \<longleftrightarrow> (\<forall>s. from_base58 s = Inr s \<or> from_base58 s = Inl ValueError)"

text \<open>The record a module entry contributes, if any.\<close>

definition entry_value ::
    "pydantic_lax \<Rightarrow> (string \<Rightarrow> peer_id result) \<Rightarrow> string option \<Rightarrow> string \<Rightarrow> wire \<Rightarrow> server_info option" where
  "entry_value P from_base58 active_adapter p w =
     (case (from_base58 p, server_info_of P w) of
        (Inr _, Inr si) \<Rightarrow> if adapter_missing active_adapter si then None else Some si
      | _ \<Rightarrow> None)"

lemma server_info_of_error: "pydantic_ok P \<Longrightarrow> server_info_of P w = Inl e \<Longrightarrow> e = TypeError \<or> e = ValueError"
  by (cases w) (auto dest: from_tuple_error)

lemma server_info_of_valid: "server_info_of P w = Inr si \<Longrightarrow> valid_server_info si"
  by (cases w) (auto dest: from_tuple_valid)

lemma read_peer_entry_eq:
  assumes "pydantic_ok P" and "base58_ok b58"
  shows "read_peer_entry P b58 aa e servers =
    Inr (case entry_value P b58 aa (fst e) (snd e) of None \<Rightarrow> servers | Some si \<Rightarrow> dict_set (fst e) si servers)"
proof -
  have "b58 (fst e) = Inr (fst e) \<or> b58 (fst e) = Inl ValueError"
    using assms(2) by (simp add: base58_ok_def)
  with assms(1) show ?thesis
    by (auto simp: read_peer_entry_def entry_value_def split: sum.splits dest: server_info_of_error)
qed

lemma read_entries:
  assumes "pydantic_ok P" and "base58_ok b58" and "wf_dict servers"
  shows "\<exists>servers'. foldR (read_peer_entry P b58 aa) m servers = Inr servers' \<and> wf_dict servers' \<and>
    (wf_dict m \<longrightarrow> (\<forall>p. dict_get servers' p =
       (case dict_get m p of None \<Rightarrow> dict_get servers p
        | Some w \<Rightarrow> (case entry_value P b58 aa p w of None \<Rightarrow> dict_get servers p | Some si \<Rightarrow> Some si))))"
  using assms(3)
proof (induction m arbitrary: servers)
  case (Cons e m)
  let ?s = "case entry_value P b58 aa (fst e) (snd e) of None \<Rightarrow> servers | Some si \<Rightarrow> dict_set (fst e) si servers"
  have "wf_dict ?s" using Cons.prems by (simp split: option.splits)
  from Cons.IH [OF this] obtain t where t: "foldR (read_peer_entry P b58 aa) m ?s = Inr t" "wf_dict t"
    "wf_dict m \<longrightarrow> (\<forall>p. dict_get t p = (case dict_get m p of None \<Rightarrow> dict_get ?s p
        | Some w \<Rightarrow> (case entry_value P b58 aa p w of None \<Rightarrow> dict_get ?s p | Some si \<Rightarrow> Some si)))"
    by blast
  have get: "dict_get t p = (case dict_get (e # m) p of None \<Rightarrow> dict_get servers p
        | Some w \<Rightarrow> (case entry_value P b58 aa p w of None \<Rightarrow> dict_get servers p | Some si \<Rightarrow> Some si))"
    if "wf_dict (e # m)" for p
  proof (cases "p = fst e")
    case True
    with that have "dict_get m p = None" by (simp add: map_of_eq_None_iff)
    with True that t(3) show ?thesis by (auto split: option.splits)
  next
    case False
    with that t(3) show ?thesis by (auto split: option.splits)
  qed
  have "foldR (read_peer_entry P b58 aa) (e # m) servers = Inr t"
    using t(1) by (simp add: read_peer_entry_eq [OF assms(1,2), of aa e servers])
  with t(2) get show ?case by blast
qed auto

lemma read_entries_valid:
  assumes "pydantic_ok P" and "base58_ok b58" and "foldR (read_peer_entry P b58 aa) m [] = Inr servers"
  shows "\<forall>(p, si) \<in> set servers. valid_server_info si \<and> \<not> adapter_missing aa si"
proof -
  let ?ok = "\<lambda>d. wf_dict d \<and> (\<forall>p si. dict_get d p = Some si \<longrightarrow> valid_server_info si \<and> \<not> adapter_missing aa si)"
  have "?ok servers"
    using assms(3)
  proof (rule foldR_invariant)
    fix e d d' assume "?ok d" and "read_peer_entry P b58 aa e d = Inr d'"
    then show "?ok d'"
      by (auto simp: read_peer_entry_eq [OF assms(1,2)] entry_value_def
          split: option.splits sum.splits if_splits dest: server_info_of_valid)
  qed simp
  then show ?thesis by (auto simp: map_of_eq_Some_iff)
qed

text \<open>What hivemind documents of a DHT node: a stored subkey is found under its key by the next lookup
  for the latest value.\<close>

definition dht_keeps :: "'d store_many \<Rightarrow> 'd get_many \<Rightarrow> bool" where
  "dht_keeps store_many get_many \<longleftrightarrow>
     (\<forall>dht keys subkeys vals expiration i.
        distinct keys \<and> length subkeys = length keys \<and> length vals = length keys \<and> i < length keys \<longrightarrow>
        (\<exists>m. get_many (store_many dht keys subkeys vals expiration) keys PInf (keys ! i) = Some (DictValue m) \<and>
           wf_dict m \<and> dict_get m (subkeys ! i) = Some (vals ! i)))"

lemma read_module_total:
  assumes "pydantic_ok P" and "base58_ok b58"
  shows "\<exists>m. read_module P b58 aa found uid = Inr m \<and> rm_uid m = uid \<and> wf_dict (rm_servers m) \<and>
    (\<forall>(p, si) \<in> set (rm_servers m). valid_server_info si \<and> \<not> adapter_missing aa si)"
proof (cases "\<exists>d. found uid = Some (DictValue d)")
  case True
  then obtain d where d: "found uid = Some (DictValue d)" by blast
  from read_entries [OF assms, of "[]" aa d] obtain servers where
    "foldR (read_peer_entry P b58 aa) d [] = Inr servers" "wf_dict servers" by auto
  with d read_entries_valid [OF assms] show ?thesis by (auto simp: read_module_def)
next
  case False
  then show ?thesis by (auto simp: read_module_def split: option.splits dht_value.splits)
qed

subsection \<open>Properties\<close>

text \<open>C20. Spans are exact: when a peer announces honestly (it is listed, with one record, exactly at the
  blocks between its \<open>start_block\<close> and \<open>end_block\<close>) and at least one of its blocks is among the
  modules asked for, \<open>compute_spans\<close> files exactly the intersection of its range with the asked
  modules, shifted by the index of the first module, under that peer, whatever the other peers
  announce.\<close>

theorem compute_spans_exact:
  assumes "infos \<noteq> []" and "parse_uid (rm_uid (hd infos)) = Inr (pre, off)"
    and "announces off infos p si s e" and "ms \<le> si_state si"
    and "i < length infos" and "s \<le> off + int i" and "off + int i < e"
  shows "\<exists>spans. compute_spans infos ms = Inr spans \<and>
    dict_get spans p = Some \<lparr>rs_peer = p, rs_start = max (s - off) 0,
      rs_end = min (e - off) (int (length infos)), rs_info = si\<rparr>"
proof -
  have "compute_spans infos ms = Inr (spans_upto off (int (length infos)) ms infos (length infos))"
    using assms(1,2) by (cases infos) (simp_all add: compute_spans_def spans_upto_def)
  with announced_span_upto [OF assms(3,4), of "length infos"] assms(5-7) show ?thesis by auto
qed

definition sample_modules :: "remote_module_info list" where
  "sample_modules = map (\<lambda>i. \<lparr>rm_uid = block_uid ''m'' i,
     rm_servers = (if 3 \<le> i \<and> i < 7 then [(''QmA'', sample_info)] else [])\<rparr>) [2, 3, 4, 5]"

lemma sample_modules_announced: "announces 2 sample_modules ''QmA'' sample_info 3 7"
  by (auto simp: announces_def sample_modules_def sample_info_def less_Suc_eq numeral_eq_Suc)

theorem compute_spans_exact_witness:
  "\<exists>spans. compute_spans sample_modules ONLINE = Inr spans \<and>
     dict_get spans ''QmA'' = Some \<lparr>rs_peer = ''QmA'', rs_start = 1, rs_end = 4, rs_info = sample_info\<rparr>"
proof -
  have "parse_uid (rm_uid (hd sample_modules)) = Inr (''m'', 2)"
    by (simp add: sample_modules_def parse_block_uid)
  then show ?thesis
    using compute_spans_exact [OF _ _ sample_modules_announced, of "''m''" ONLINE 1]
    by (simp add: sample_modules_def sample_info_def)
qed

text \<open>Every computed span stays inside the modules asked for: it is filed under its own peer, starts
  at or after 0, ends at or before their number and has at least the requested state; no peer has
  two spans.\<close>

theorem compute_spans_bounds:
  assumes "compute_spans infos ms = Inr spans"
  shows "wf_dict spans \<and> (\<forall>(p, sp) \<in> set spans. rs_peer sp = p \<and> 0 \<le> rs_start sp \<and>
    rs_end sp \<le> int (length infos) \<and> ms \<le> span_state sp)"
  using compute_spans_wf [OF assms] by (auto simp: wf_spans_def wf_span_def)

theorem compute_spans_bounds_witness:
  "\<exists>spans. compute_spans sample_modules JOINING = Inr spans \<and> wf_dict spans \<and>
     (\<forall>(p, sp) \<in> set spans. rs_peer sp = p \<and> 0 \<le> rs_start sp \<and> rs_end sp \<le> 4 \<and> JOINING \<le> span_state sp)"
proof -
  obtain spans where "compute_spans sample_modules JOINING = Inr spans"
    by (simp add: compute_spans_def sample_modules_def parse_block_uid)
  with compute_spans_bounds [of sample_modules JOINING] show ?thesis
    by (auto simp: sample_modules_def)
qed


definition map_store :: "(module_uid \<Rightarrow> (string, wire) dict) store_many" where
  "map_store dht keys subkeys vals expiration =
     fold (\<lambda>(k, s, v) d. d(k := dict_set s v (d k))) (zip keys (zip subkeys vals)) dht"

definition map_get :: "(module_uid \<Rightarrow> (string, wire) dict) get_many" where
  "map_get dht uids expiration uid =
     (let m = dht uid in if wf_dict m then Some (DictValue m) else Some (DictValue (AList.clearjunk m)))"

lemma map_store_get:
  "distinct keys \<Longrightarrow> length subkeys = length keys \<Longrightarrow> length vals = length keys \<Longrightarrow> i < length keys \<Longrightarrow>
   dict_get (map_store dht keys subkeys vals e (keys ! i)) (subkeys ! i) = Some (vals ! i)"
proof (induction keys arbitrary: subkeys vals dht i)
  case (Cons k keys)
  obtain s subs v vs where sv: "subkeys = s # subs" "vals = v # vs"
    using Cons.prems(2,3) by (metis length_Suc_conv)
  have other: "fold (\<lambda>(k, s, v) d. d(k := dict_set s v (d k))) (zip ks zs) d x = d x"
    if "x \<notin> set ks" for ks x and zs :: "(string \<times> wire) list" and d :: "module_uid \<Rightarrow> (string, wire) dict"
    using that by (induction ks arbitrary: zs d) (auto simp: zip_Cons1 split: list.splits)
  show ?case
  proof (cases i)
    case 0
    with Cons.prems(1) show ?thesis by (simp add: sv map_store_def other)
  next
    case (Suc j)
    with Cons sv show ?thesis by (simp add: map_store_def)
  qed
qed simp

lemma map_dht_keeps: "dht_keeps map_store map_get"
  unfolding dht_keeps_def map_get_def
  by (auto simp: Let_def map_store_get distinct_clearjunk map_of_clearjunk)




end
