(* ===== verification/Block_Selection.thy ===== *)
theory Block_Selection
  imports Dht_Utils
begin

text \<open>
  \<open>src/peerz/server/block_selection.py\<close>: which consecutive blocks a joining server takes, and whether
  a running server should move. The arrays of numpy are lists of rationals, and their slices follow
  numpy's clamping; the while loop that simulates other servers moving is a
  \<open>partial_function (option)\<close>, so that not returning would be \<open>None\<close>. \<open>np.random.shuffle\<close> is a
  parameter that gives a permutation of the servers for every round.

  The lemmas show that the simulated throughputs always are the throughputs of the simulated spans,
  that every move of a server with positive throughput makes the sorted vector of throughputs
  lexicographically larger, and so that the simulation ends in an arrangement no server would leave.
\<close>

subsection \<open>Operations\<close>

text \<open>\<open>xs[a:b] += v\<close>.\<close>

definition add_slice :: "rat list \<Rightarrow> int \<Rightarrow> int \<Rightarrow> rat \<Rightarrow> rat list" where
  "add_slice xs a b v =
     (let n = length xs; lo = slice_bound n a; hi = slice_bound n b
      in map (\<lambda>(i, x). if lo \<le> i \<and> i < hi then x + v else x) (enumerate 0 xs))"

text \<open>\<open>xs.min()\<close>, which raises on an empty array.\<close>

definition np_min :: "rat list \<Rightarrow> rat result" where
  "np_min xs = (if xs = [] then Inl ValueError else Inr (min_list xs))"

definition compute_throughputs :: "(peer_id, remote_span_info) dict \<Rightarrow> nat \<Rightarrow> rat list" where
  "compute_throughputs spans total_blocks =
     fold (\<lambda>span thr. add_slice thr (rs_start span) (rs_end span) (span_throughput span))
       (sort_key rs_peer (map snd spans)) (replicate total_blocks 0)"

definition choose_best_start :: "rat list \<Rightarrow> int \<Rightarrow> int result" where
  "choose_best_start throughputs num_blocks =
     (let options = map (\<lambda>i. (sort (py_slice throughputs i (i + num_blocks)), i))
                      (py_range 0 (int (length throughputs) - num_blocks + 1))
      in if options = [] then Inl ValueError else Inr (snd (min_list options)))"

definition choose_best_blocks :: "int \<Rightarrow> remote_module_info list \<Rightarrow> int list result" where
  "choose_best_blocks num_blocks module_infos =
     bindR (compute_spans module_infos JOINING) (\<lambda>spans.
     bindR (choose_best_start (compute_throughputs spans (length module_infos)) num_blocks) (\<lambda>start.
       Inr (py_range start (start + num_blocks))))"

definition move_span :: "remote_span_info \<Rightarrow> int \<Rightarrow> remote_span_info" where
  "move_span sp new_start = sp\<lparr>rs_start := new_start, rs_end := new_start + span_length sp\<rparr>"

definition eps :: rat where "eps = 1 / 1000"

type_synonym arrangement = "(peer_id, remote_span_info) dict \<times> rat list"

text \<open>The body of the \<open>for peer_id in servers\<close> loop; the flag is \<open>moved\<close>.\<close>

definition rebalance_server :: "peer_id \<Rightarrow> arrangement \<times> bool \<Rightarrow> (arrangement \<times> bool) result" where
  "rebalance_server peer s =
     (case s of ((spans, thr), moved) \<Rightarrow>
       bindR (dict_item spans peer) (\<lambda>span.
       (let thr1 = add_slice thr (rs_start span) (rs_end span) (- (span_throughput span * (1 + eps))) in
        bindR (choose_best_start thr1 (span_length span)) (\<lambda>new_start.
        (let thr2 = add_slice thr1 (rs_start span) (rs_end span) (span_throughput span * eps) in
         if rs_start span \<noteq> new_start then
           (let span' = move_span span new_start in
            Inr ((dict_set peer span' spans,
                  add_slice thr2 (rs_start span') (rs_end span') (span_throughput span')), True))
         else Inr ((spans, add_slice thr2 (rs_start span) (rs_end span) (span_throughput span)), moved))))))"

text \<open>The \<open>while moved\<close> loop, from round \<open>k\<close> on.\<close>

partial_function (option) rebalance_rounds ::
    "(nat \<Rightarrow> peer_id list \<Rightarrow> peer_id list) \<Rightarrow> nat \<Rightarrow> arrangement \<Rightarrow> arrangement result option" where
  "rebalance_rounds shuffle k a =
     (case foldR rebalance_server (shuffle k (map fst (fst a))) (a, False) of
        Inl e \<Rightarrow> Some (Inl e)
      | Inr (a', moved) \<Rightarrow> if moved then rebalance_rounds shuffle (Suc k) a' else Some (Inr a'))"

text \<open>The last lines: compare the bottleneck before with the bottleneck after rebalancing.\<close>

definition decide_quality :: "rat \<Rightarrow> rat \<Rightarrow> rat \<Rightarrow> bool" where
  "decide_quality balance_quality initial new =
     (if new < initial \<or> new < eps then False else initial / new < balance_quality - eps)"

definition should_choose_other_blocks ::
    "(nat \<Rightarrow> peer_id list \<Rightarrow> peer_id list) \<Rightarrow> peer_id \<Rightarrow> remote_module_info list \<Rightarrow> rat \<Rightarrow> bool result option" where
  "should_choose_other_blocks shuffle local_peer_id module_infos balance_quality =
     (if balance_quality > 1 then Some (Inr True) else
      case bindR (compute_spans module_infos JOINING) (\<lambda>spans.
           (let thr = compute_throughputs spans (length module_infos) in
            bindR (np_min thr) (\<lambda>initial.
            guardR (dict_get spans local_peer_id \<noteq> None) AssertionError
            (bindR (dict_item spans local_peer_id) (\<lambda>span.
            (let thr1 = add_slice thr (rs_start span) (rs_end span) (- (span_throughput span * (1 + eps))) in
             bindR (np_min thr1) (\<lambda>rest.
             if initial > eps \<and> rest \<le> 0 then Inr None
             else bindR (choose_best_start thr1 (span_length span)) (\<lambda>new_start.
               if rs_start span = new_start then Inr None
               else (let thr2 = add_slice thr1 (rs_start span) (rs_end span) (span_throughput span * eps);
                         span' = move_span span new_start
                     in Inr (Some (initial, dict_set local_peer_id span' spans,
                          add_slice thr2 (rs_start span') (rs_end span') (span_throughput span'))))))))))))
      of Inl e \<Rightarrow> Some (Inl e)
       | Inr None \<Rightarrow> Some (Inr False)
       | Inr (Some (initial, spans, thr)) \<Rightarrow>
           (case rebalance_rounds shuffle 0 (spans, thr) of
              None \<Rightarrow> None
            | Some (Inl e) \<Rightarrow> Some (Inl e)
            | Some (Inr (spans', thr')) \<Rightarrow>
                Some (bindR (np_min thr') (\<lambda>new. Inr (decide_quality balance_quality initial new)))))"

subsection \<open>Slices of throughputs\<close>

lemma length_add_slice [simp]: "length (add_slice xs a b v) = length xs"
  by (simp add: add_slice_def Let_def)

lemma nth_add_slice:
  assumes "0 \<le> a" "0 \<le> b" "i < length xs"
  shows "add_slice xs a b v ! i = (if a \<le> int i \<and> int i < b then xs ! i + v else xs ! i)"
proof -
  have "slice_bound (length xs) a \<le> i \<longleftrightarrow> a \<le> int i" "i < slice_bound (length xs) b \<longleftrightarrow> int i < b"
    using assms by (auto simp: slice_bound_def)
  then show ?thesis
    using assms(3) by (auto simp: add_slice_def Let_def nth_enumerate_eq)
qed

text \<open>What one span adds to block \<open>i\<close>, and what all spans add to it.\<close>

definition load :: "remote_span_info \<Rightarrow> nat \<Rightarrow> rat" where
  "load sp i = (if rs_start sp \<le> int i \<and> int i < rs_end sp then span_throughput sp else 0)"

definition total_load :: "(peer_id, remote_span_info) dict \<Rightarrow> nat \<Rightarrow> rat" where
  "total_load spans i = (\<Sum>sp \<leftarrow> map snd spans. load sp i)"

definition legal_span :: "nat \<Rightarrow> remote_span_info \<Rightarrow> bool" where
  "legal_span n sp \<longleftrightarrow> 0 \<le> rs_start sp \<and> rs_start sp < rs_end sp \<and> rs_end sp \<le> int n \<and> 0 \<le> span_throughput sp"

definition legal :: "nat \<Rightarrow> (peer_id, remote_span_info) dict \<Rightarrow> bool" where
  "legal n spans \<longleftrightarrow> wf_dict spans \<and> (\<forall>e \<in> set spans. legal_span n (snd e))"

lemma legalD: "legal n spans \<Longrightarrow> dict_get spans p = Some sp \<Longrightarrow> legal_span n sp"
  by (auto simp: legal_def dest: map_of_SomeD)

lemma add_slice_map:
  assumes "legal_span n sp"
  shows "add_slice (map f [0..<n]) (rs_start sp) (rs_end sp) v =
    map (\<lambda>i. f i + (if rs_start sp \<le> int i \<and> int i < rs_end sp then v else 0)) [0..<n]"
  using assms by (intro nth_equalityI) (auto simp: nth_add_slice legal_span_def)

lemma compute_throughputs_eq:
  assumes "\<And>e. e \<in> set spans \<Longrightarrow> legal_span n (snd e)"
  shows "compute_throughputs spans n = map (total_load spans) [0..<n]"
proof -
  have fold: "fold (\<lambda>sp thr. add_slice thr (rs_start sp) (rs_end sp) (span_throughput sp)) sps (map f [0..<n]) =
      map (\<lambda>i. f i + (\<Sum>sp \<leftarrow> sps. load sp i)) [0..<n]"
    if "\<forall>sp \<in> set sps. legal_span n sp" for sps f
    using that
  proof (induction sps arbitrary: f)
    case (Cons sp sps)
    then show ?case by (simp add: add_slice_map load_def [abs_def] ac_simps)
  qed simp
  have "(\<Sum>sp \<leftarrow> sort_key rs_peer (map snd spans). load sp i) = total_load spans i" for i
    unfolding total_load_def sum_mset_sum_list [symmetric] mset_map by simp
  with fold [of "sort_key rs_peer (map snd spans)" "\<lambda>_. 0"] assms show ?thesis
    by (auto simp: compute_throughputs_def map_replicate_const)
qed

lemma total_load_set:
  assumes "wf_dict spans" and "dict_get spans p = Some sp"
  shows "total_load (dict_set p sp' spans) i = total_load spans i - load sp i + load sp' i"
  using assms by (induction spans) (auto simp: total_load_def split: if_splits)

lemma legal_set: "legal n spans \<Longrightarrow> legal_span n sp \<Longrightarrow> legal n (dict_set p sp spans)"
  by (auto simp: legal_def dest: dict_set_mem)

subsection \<open>Sorted vectors, lexicographically\<close>

lemma insort_less_mono:
  fixes xs ys :: "'a::linorder list"
  assumes "sorted xs" "sorted ys" "length xs = length ys" "xs < ys"
  shows "insort x xs < insort x ys"
  using assms
proof (induction xs arbitrary: ys)
  case (Cons a xs)
  then obtain b ys' where ys: "ys = b # ys'" by (cases ys) auto
  show ?case
    using Cons ys by (cases "a < b") (auto simp: not_less)
qed simp

text \<open>Adding the same elements to both sides does not change which side is smaller when one side has an
  element below all of the other.\<close>

lemma sorted_mset_less:
  fixes C N M :: "'a::linorder multiset"
  assumes "n \<in># N" and "\<And>m. m \<in># M \<Longrightarrow> n < m" and "size N = size M"
  shows "sorted_list_of_multiset (C + N) < sorted_list_of_multiset (C + M)"
proof (induction C)
  case empty
  obtain x xs where N: "sorted_list_of_multiset N = x # xs"
    using assms(1) by (metis empty_iff list.exhaust list.set(1) set_sorted_list_of_multiset)
  obtain y ys where M: "sorted_list_of_multiset M = y # ys"
    using assms(1,3) by (metis list.exhaust mset_sorted_list_of_multiset mset_zero_iff size_eq_0_iff_empty empty_iff set_mset_empty)
  have "x \<le> n"
    using assms(1) N sorted_sorted_list_of_multiset [of N] set_sorted_list_of_multiset [of N] by auto
  moreover have "n < y" using assms(2) M set_sorted_list_of_multiset [of M] by auto
  ultimately show ?case by (auto simp: N M)
next
  case (add c C)
  have "length (sorted_list_of_multiset (C + N)) = length (sorted_list_of_multiset (C + M))"
    by (metis assms(3) mset_sorted_list_of_multiset size_mset size_union)
  with add show ?case by (auto intro: insort_less_mono)
qed

definition window :: "(nat \<Rightarrow> rat) \<Rightarrow> nat set \<Rightarrow> rat list" where
  "window f A = sorted_list_of_multiset (image_mset f (mset_set A))"

lemma window_less:
  assumes "finite A" "finite B" "card A = card B" "b \<in> B - A"
    and "\<And>i. i \<in> A \<inter> B \<Longrightarrow> f i = g i" and "\<And>a. a \<in> A - B \<Longrightarrow> g b < f a"
  shows "window g B < window f A"
proof -
  have split: "image_mset h (mset_set X) = image_mset h (mset_set (X \<inter> Y)) + image_mset h (mset_set (X - Y))"
    if "finite X" for h :: "nat \<Rightarrow> rat" and X Y
    using that by (metis Diff_disjoint Int_Diff_Un Int_commute finite_Diff finite_Int image_mset_union
        inf_assoc inf_bot_right mset_set_Union)
  have "card (A - B) = card (B - A)"
    using assms(1-3) by (simp add: card_Diff_subset_Int Int_commute)
  moreover have "image_mset f (mset_set (A \<inter> B)) = image_mset g (mset_set (B \<inter> A))"
    using assms(1,5) by (auto simp: Int_commute intro!: image_mset_cong)
  ultimately show ?thesis
    unfolding window_def split [OF assms(1), of f B] split [OF assms(2), of g A]
    using assms by (auto intro!: sorted_mset_less [where n = "g b"])
qed

lemma window_less_on:
  assumes "finite U" "D \<subseteq> U" "d \<in> D"
    and "\<And>i. i \<in> U - D \<Longrightarrow> f i = g i" and "\<And>x. x \<in> D \<Longrightarrow> g d < f x"
  shows "window g U < window f U"
proof -
  have "mset_set U = mset_set (U - D) + mset_set D"
    using assms(1,2) by (metis Diff_disjoint Diff_partition finite_Diff inf_commute mset_set_Union
        rev_finite_subset sup_commute)
  moreover have "image_mset f (mset_set (U - D)) = image_mset g (mset_set (U - D))"
    using assms(1,4) by (auto intro!: image_mset_cong)
  moreover have "finite D" using assms(1,2) by (rule rev_finite_subset)
  ultimately show ?thesis
    unfolding window_def using assms(3,5) by (auto intro!: sorted_mset_less [where n = "g d"])
qed

text \<open>The heart of rebalancing: when the window \<open>A\<close> looks no better loaded than the server's present
  window \<open>B\<close> after the server's throughput and a margin \<open>e\<close> were taken away there, moving the server
  from \<open>B\<close> to \<open>A\<close> makes the sorted vector of all throughputs larger.\<close>

lemma move_increases:
  assumes fin: "finite U" "A \<subseteq> U" "B \<subseteq> U" and card: "card A = card B" and ne: "A \<noteq> B"
    and pos: "0 < t" "0 < e"
    and best: "window (\<lambda>i. r i - (if i \<in> B then e else 0)) A \<le> window (\<lambda>i. r i - (if i \<in> B then e else 0)) B"
  shows "window (\<lambda>i. r i + (if i \<in> B then t else 0)) U < window (\<lambda>i. r i + (if i \<in> A then t else 0)) U"
proof -
  let ?r = "\<lambda>i. r i - (if i \<in> B then e else 0)"
  have finAB: "finite A" "finite B" using fin by (auto intro: rev_finite_subset)
  have "A - B \<noteq> {}"
    using finAB card ne by (metis Diff_eq_empty_iff card_subset_eq)
  then obtain a where a: "a \<in> A - B" and least: "\<And>x. x \<in> A - B \<Longrightarrow> ?r a \<le> ?r x"
    using ex_min_if_finite [of "?r ` (A - B)"] finAB
    by (metis (no_types, lifting) arg_min_if_finite(1) arg_min_least finite_Diff)
  have below: "r a < r b" if b: "b \<in> B - A" for b
  proof (rule ccontr)
    assume "\<not> r a < r b"
    then have "?r b < ?r x" if "x \<in> A - B" for x
      using least [OF that] a b pos(2) that by auto
    then have "window ?r B < window ?r A"
      using finAB card b by (intro window_less) auto
    with best show False by simp
  qed
  show ?thesis
  proof (rule window_less_on [where D = "(A - B) \<union> (B - A)" and d = a])
    fix x assume "x \<in> (A - B) \<union> (B - A)"
    then show "r a + (if a \<in> B then t else 0) < r x + (if x \<in> A then t else 0)"
      using a below least [of x] pos(1) by auto
  qed (use fin a in auto)
qed

subsection \<open>The best window\<close>

lemma sort_py_slice:
  assumes "0 \<le> a" "0 \<le> k" "a + k \<le> int n"
  shows "sort (py_slice (map f [0..<n]) a (a + k)) = window f {nat a..<nat (a + k)}"
proof -
  have "py_slice (map f [0..<n]) a (a + k) = map f [nat a..<nat (a + k)]"
    using assms by (simp add: py_slice_in_range drop_map take_map take_upt nat_add_distrib nat_le_iff)
  then show ?thesis
    by (simp add: window_def flip: sorted_list_of_multiset_mset)
qed

lemma choose_best_start_spec:
  assumes "1 \<le> k" "k \<le> int n"
  obtains s where "choose_best_start (map f [0..<n]) k = Inr s" "0 \<le> s" "s + k \<le> int n"
    "\<And>j. 0 \<le> j \<Longrightarrow> j + k \<le> int n \<Longrightarrow>
       (window f {nat s..<nat (s + k)}, s) \<le> (window f {nat j..<nat (j + k)}, j)"
proof -
  define options where "options = map (\<lambda>i. (sort (py_slice (map f [0..<n]) i (i + k)), i)) (py_range 0 (int n - k + 1))"
  have ne: "options \<noteq> []" using assms by (simp add: options_def py_range_Cons)
  have "min_list options \<in> set options" using ne by (simp add: min_list_Min)
  then obtain s where s: "min_list options = (sort (py_slice (map f [0..<n]) s (s + k)), s)" "0 \<le> s" "s + k \<le> int n"
    by (auto simp: options_def)
  have "min_list options \<le> (sort (py_slice (map f [0..<n]) j (j + k)), j)" if "0 \<le> j" "j + k \<le> int n" for j
    unfolding min_list_Min [OF ne] using that by (intro Min_le) (auto simp: options_def)
  with s that [of s] assms ne show ?thesis
    by (simp add: choose_best_start_def Let_def options_def [symmetric] sort_py_slice)
qed

subsection \<open>One simulated server\<close>

abbreviation loads :: "nat \<Rightarrow> (peer_id, remote_span_info) dict \<Rightarrow> rat list" where
  "loads n spans \<equiv> map (total_load spans) [0..<n]"

definition blocks_of :: "remote_span_info \<Rightarrow> nat set" where
  "blocks_of sp = {nat (rs_start sp)..<nat (rs_end sp)}"

text \<open>What the server sees when it looks for a place, and the place it would choose.\<close>

definition seen :: "(peer_id, remote_span_info) dict \<Rightarrow> remote_span_info \<Rightarrow> nat \<Rightarrow> rat" where
  "seen spans sp i = total_load spans i - (1 + eps) * load sp i"

definition best_place :: "nat \<Rightarrow> (peer_id, remote_span_info) dict \<Rightarrow> remote_span_info \<Rightarrow> int result" where
  "best_place n spans sp = choose_best_start (map (seen spans sp) [0..<n]) (span_length sp)"

definition settled :: "nat \<Rightarrow> (peer_id, remote_span_info) dict \<Rightarrow> peer_id \<Rightarrow> bool" where
  "settled n spans p \<longleftrightarrow> (\<forall>sp. dict_get spans p = Some sp \<longrightarrow> best_place n spans sp = Inr (rs_start sp))"

text \<open>The potential of an arrangement: its throughputs, sorted.\<close>

definition potential :: "nat \<Rightarrow> (peer_id, remote_span_info) dict \<Rightarrow> rat list" where
  "potential n spans = window (total_load spans) {..<n}"

lemma load_eq: "legal_span n sp \<Longrightarrow> load sp i = (if i \<in> blocks_of sp then span_throughput sp else 0)"
  by (auto simp: load_def blocks_of_def legal_span_def)

lemma move_span_simps [simp]:
  "rs_start (move_span sp s) = s" "rs_end (move_span sp s) = s + span_length sp"
  "span_throughput (move_span sp s) = span_throughput sp" "span_length (move_span sp s) = span_length sp"
  "rs_peer (move_span sp s) = rs_peer sp" "rs_info (move_span sp s) = rs_info sp"
  by (simp_all add: move_span_def span_throughput_def span_length_def)

lemma legal_move: "legal_span n sp \<Longrightarrow> 0 \<le> s \<Longrightarrow> s + span_length sp \<le> int n \<Longrightarrow> legal_span n (move_span sp s)"
  by (auto simp: legal_span_def span_length_def)

lemma best_place_spec:
  assumes "legal_span n sp"
  obtains s where "best_place n spans sp = Inr s" "0 \<le> s" "s + span_length sp \<le> int n"
    "legal_span n (move_span sp s)"
    "s \<noteq> rs_start sp \<Longrightarrow> window (seen spans sp) (blocks_of (move_span sp s)) \<le> window (seen spans sp) (blocks_of sp)"
proof -
  have k: "1 \<le> span_length sp" "span_length sp \<le> int n"
    using assms by (auto simp: legal_span_def span_length_def)
  obtain s where s: "best_place n spans sp = Inr s" "0 \<le> s" "s + span_length sp \<le> int n"
    and best: "\<And>j. 0 \<le> j \<Longrightarrow> j + span_length sp \<le> int n \<Longrightarrow>
       (window (seen spans sp) {nat s..<nat (s + span_length sp)}, s) \<le>
       (window (seen spans sp) {nat j..<nat (j + span_length sp)}, j)"
    unfolding best_place_def using choose_best_start_spec [OF k, of "seen spans sp"] by blast
  have "0 \<le> rs_start sp" "rs_start sp + span_length sp = rs_end sp" "rs_end sp \<le> int n"
    using assms by (auto simp: legal_span_def span_length_def)
  with best [of "rs_start sp"] have "window (seen spans sp) (blocks_of (move_span sp s)) \<le> window (seen spans sp) (blocks_of sp)"
    by (auto simp: blocks_of_def)
  with that s legal_move [OF assms s(2,3)] show ?thesis by blast
qed

text \<open>The server's own share is taken out, put aside and put back: whatever it decides, the simulated
  throughputs are the loads of the simulated spans.\<close>

lemma seen_slice:
  assumes "legal_span n sp"
  shows "add_slice (loads n spans) (rs_start sp) (rs_end sp) (- (span_throughput sp * (1 + eps))) =
      map (seen spans sp) [0..<n]"
    and "add_slice (map (seen spans sp) [0..<n]) (rs_start sp) (rs_end sp) (span_throughput sp * eps) =
      map (\<lambda>i. total_load spans i - load sp i) [0..<n]"
  unfolding add_slice_map [OF assms] by (auto simp: seen_def load_def algebra_simps)

lemma put_back:
  assumes "wf_dict spans" "dict_get spans p = Some sp" "legal_span n sp'"
  shows "add_slice (map (\<lambda>i. total_load spans i - load sp i) [0..<n]) (rs_start sp') (rs_end sp') (span_throughput sp') =
    loads n (dict_set p sp' spans)"
  unfolding add_slice_map [OF assms(3)] using assms(1,2)
  by (auto simp: total_load_set load_def)

lemma put_back_same:
  assumes "legal_span n sp"
  shows "add_slice (map (\<lambda>i. total_load spans i - load sp i) [0..<n]) (rs_start sp) (rs_end sp) (span_throughput sp) =
    loads n spans"
  unfolding add_slice_map [OF assms] by (auto simp: load_def)

definition after_move :: "peer_id \<Rightarrow> remote_span_info \<Rightarrow> int \<Rightarrow> (peer_id, remote_span_info) dict \<Rightarrow> (peer_id, remote_span_info) dict" where
  "after_move p sp s spans = (if s = rs_start sp then spans else dict_set p (move_span sp s) spans)"

lemma rebalance_server_eq:
  assumes "legal n spans" and "dict_get spans p = Some sp" and "best_place n spans sp = Inr s"
    and "legal_span n (move_span sp s)"
  shows "rebalance_server p ((spans, loads n spans), m) =
    Inr ((after_move p sp s spans, loads n (after_move p sp s spans)), m \<or> s \<noteq> rs_start sp)"
proof -
  have sp: "legal_span n sp" using assms(1,2) by (rule legalD)
  have item: "dict_item spans p = Inr sp" and wf: "wf_dict spans" using assms(1,2) by (simp_all add: legal_def)
  show ?thesis
    unfolding rebalance_server_def prod.case item bindR_simps Let_def seen_slice [OF sp]
      assms(3) [unfolded best_place_def] put_back_same [OF sp] put_back [OF wf assms(2,4)]
    by (simp add: after_move_def)
qed

text \<open>A move of a server with positive throughput raises the potential; a move of a server without
  throughput changes no load.\<close>

lemma move_raises_potential:
  assumes "legal n spans" "dict_get spans p = Some sp" "best_place n spans sp = Inr s"
    and "s \<noteq> rs_start sp" "0 < span_throughput sp"
  shows "potential n spans < potential n (after_move p sp s spans)"
proof -
  have sp: "legal_span n sp" using assms(1,2) by (rule legalD)
  then obtain legal': "legal_span n (move_span sp s)"
    and best: "window (seen spans sp) (blocks_of (move_span sp s)) \<le> window (seen spans sp) (blocks_of sp)"
    using best_place_spec [OF sp, of spans] assms(3,4) by (metis sum.inject(2))
  let ?t = "span_throughput sp" and ?r = "\<lambda>i. total_load spans i - load sp i"
  have old: "total_load spans = (\<lambda>i. ?r i + (if i \<in> blocks_of sp then ?t else 0))"
    using load_eq [OF sp] by (intro ext) simp
  have new: "total_load (after_move p sp s spans) = (\<lambda>i. ?r i + (if i \<in> blocks_of (move_span sp s) then ?t else 0))"
    using load_eq [OF legal'] assms(1,2,4) by (intro ext) (auto simp: after_move_def total_load_set legal_def)
  have see: "seen spans sp = (\<lambda>i. ?r i - (if i \<in> blocks_of sp then ?t * eps else 0))"
    using load_eq [OF sp] by (intro ext) (auto simp: seen_def algebra_simps)
  have "nat (rs_end sp) - nat (rs_start sp) = nat (s + span_length sp) - nat s"
    using sp legal' by (auto simp: legal_span_def span_length_def)
  moreover have "blocks_of (move_span sp s) \<noteq> blocks_of sp"
    using sp legal' assms(4) atLeastLessThan_inj(1) [of "nat s" "nat (s + span_length sp)" "nat (rs_start sp)" "nat (rs_end sp)"]
    by (auto simp: blocks_of_def legal_span_def)
  ultimately show ?thesis
    unfolding potential_def new
    apply (subst old)
    apply (rule move_increases [where e = "?t * eps"])
    using sp legal' best assms(5)
    by (auto simp: blocks_of_def legal_span_def see eps_def)
qed

lemma zero_move_loads:
  assumes "legal n spans" "dict_get spans p = Some sp" "span_throughput sp = 0"
  shows "total_load (after_move p sp s spans) = total_load spans"
  using assms by (auto simp: after_move_def total_load_set legal_def load_def fun_eq_iff)

text \<open>What rebalancing never changes: the servers, their order, records and numbers of blocks.\<close>

definition servers_of :: "(peer_id, remote_span_info) dict \<Rightarrow> (peer_id \<times> peer_id \<times> server_info \<times> int) list" where
  "servers_of spans = map (\<lambda>e. (fst e, rs_peer (snd e), rs_info (snd e), span_length (snd e))) spans"

text \<open>What a part of a round may do: \<open>ps\<close> are the servers visited, \<open>mv\<close> tells whether one moved.\<close>

definition progress ::
    "nat \<Rightarrow> peer_id set \<Rightarrow> (peer_id, remote_span_info) dict \<Rightarrow> (peer_id, remote_span_info) dict \<Rightarrow> bool \<Rightarrow> bool" where
  "progress n ps spans spans' mv \<longleftrightarrow>
     legal n spans' \<and> servers_of spans' = servers_of spans \<and> potential n spans \<le> potential n spans' \<and>
     (\<not> mv \<longrightarrow> spans' = spans) \<and> (mv \<longleftrightarrow> \<not> (\<forall>p \<in> ps. settled n spans p)) \<and>
     (potential n spans' = potential n spans \<longrightarrow>
        (\<forall>p. p \<in> ps \<or> settled n spans p \<longrightarrow> settled n spans' p))"

lemma servers_of_after_move:
  "legal n spans \<Longrightarrow> dict_get spans p = Some sp \<Longrightarrow> servers_of (after_move p sp s spans) = servers_of spans"
  by (auto simp: after_move_def servers_of_def legal_def intro!: map_dict_set)

lemma zero_move_settled:
  assumes "legal n spans" "dict_get spans p = Some sp" "best_place n spans sp = Inr s"
    and "s \<noteq> rs_start sp" "span_throughput sp = 0" "q = p \<or> settled n spans q"
  shows "settled n (after_move p sp s spans) q"
proof -
  have seen: "seen (after_move p sp s spans) = seen spans"
    using zero_move_loads [OF assms(1,2,5)] by (simp add: seen_def [abs_def])
  have "seen spans (move_span sp s) = seen spans sp"
    using assms(5) by (intro ext) (simp add: seen_def load_def)
  with assms seen show ?thesis
    by (auto simp: settled_def best_place_def after_move_def)
qed

lemma rebalance_server_progress:
  assumes "legal n spans" and "p \<in> fst ` set spans"
  obtains spans' mv where "rebalance_server p ((spans, loads n spans), m) = Inr ((spans', loads n spans'), m \<or> mv)"
    "progress n {p} spans spans' mv"
proof -
  from assms(2) obtain sp where get: "dict_get spans p = Some sp"
    by (metis map_of_eq_None_iff not_None_eq)
  have sp: "legal_span n sp" using assms(1) get by (rule legalD)
  obtain s where s: "best_place n spans sp = Inr s" "legal_span n (move_span sp s)"
    using best_place_spec [OF sp] by metis
  let ?t = "after_move p sp s spans"
  have "legal n ?t" using assms(1) s(2) by (simp add: after_move_def legal_set)
  moreover note servers_of_after_move [OF assms(1) get, of s]
  moreover have "potential n spans \<le> potential n ?t \<and> (potential n ?t = potential n spans \<longrightarrow>
      (\<forall>q. q = p \<or> settled n spans q \<longrightarrow> settled n ?t q))"
  proof (cases "s = rs_start sp")
    case True
    with s get show ?thesis by (auto simp: after_move_def settled_def)
  next
    case moved: False
    consider "0 < span_throughput sp" | "span_throughput sp = 0"
      using sp by (force simp: legal_span_def order_le_less)
    then show ?thesis
    proof cases
      case 1
      from move_raises_potential [OF assms(1) get s(1) moved 1] show ?thesis by auto
    next
      case 2
      with zero_move_loads [OF assms(1) get] zero_move_settled [OF assms(1) get s(1) moved 2]
      show ?thesis by (simp add: potential_def)
    qed
  qed
  moreover have "s = rs_start sp \<longleftrightarrow> settled n spans p" using s get by (auto simp: settled_def)
  ultimately have "progress n {p} spans ?t (s \<noteq> rs_start sp)"
    by (auto simp: progress_def after_move_def)
  with that rebalance_server_eq [OF assms(1) get s] show ?thesis by blast
qed

lemma progress_trans:
  assumes "progress n P a b mv" "progress n Q b c mv'"
  shows "progress n (P \<union> Q) a c (mv \<or> mv')"
proof -
  note A = assms(1) [unfolded progress_def] and B = assms(2) [unfolded progress_def]
  have le: "potential n a \<le> potential n b" "potential n b \<le> potential n c" using A B by blast+
  then have eq: "potential n b = potential n a \<and> potential n c = potential n b" if "potential n c = potential n a"
    using that by (metis order_antisym)
  have "potential n a \<le> potential n c" using le by (rule order_trans)
  moreover have "servers_of c = servers_of a" using A B by metis
  moreover have "(mv \<or> mv') \<longleftrightarrow> \<not> (\<forall>p \<in> P \<union> Q. settled n a p)"
    using A B by (cases mv) (blast, metis Un_iff)
  moreover have "\<forall>p. p \<in> P \<union> Q \<or> settled n a p \<longrightarrow> settled n c p" if "potential n c = potential n a"
    using eq [OF that] A B by blast
  moreover have "legal n c" "\<not> (mv \<or> mv') \<longrightarrow> c = a" using A B by blast+
  ultimately show ?thesis unfolding progress_def by blast
qed

lemma progress_refl: "legal n spans \<Longrightarrow> progress n {} spans spans False"
  by (simp add: progress_def)

lemma progress_keys: "progress n ps spans spans' mv \<Longrightarrow> map fst spans' = map fst spans"
  unfolding progress_def servers_of_def
  by (metis (mono_tags, lifting) comp_apply fst_conv map_map map_eq_conv)

lemma round_progress:
  assumes "legal n spans" and "set ps \<subseteq> fst ` set spans"
  obtains spans' mv where "foldR rebalance_server ps ((spans, loads n spans), m) = Inr ((spans', loads n spans'), m \<or> mv)"
    "progress n (set ps) spans spans' mv"
  using assms
proof (induction ps arbitrary: spans m thesis)
  case Nil
  then show ?case using progress_refl by (metis foldR.simps(1) list.set(1))
next
  case (Cons p ps)
  obtain t mv where t: "rebalance_server p ((spans, loads n spans), m) = Inr ((t, loads n t), m \<or> mv)"
    "progress n {p} spans t mv"
    using rebalance_server_progress [OF Cons.prems(2), of p] Cons.prems(3) by auto
  have "legal n t" using t(2) by (simp add: progress_def)
  moreover have "set ps \<subseteq> fst ` set t"
    using Cons.prems(3) progress_keys [OF t(2)] by (metis list.set_map set_subset_Cons subset_trans)
  ultimately obtain u mv' where u: "foldR rebalance_server ps ((t, loads n t), m \<or> mv) = Inr ((u, loads n u), (m \<or> mv) \<or> mv')"
    "progress n (set ps) t u mv'"
    using Cons.IH by blast
  show ?case
    using Cons.prems(1) [of u "mv \<or> mv'"] t(1) u(1) progress_trans [OF t(2) u(2)] by (simp add: disj_assoc)
qed

subsection \<open>The simulation ends\<close>

text \<open>The finitely many potentials that arrangements of the same servers can have.\<close>

definition potentials :: "nat \<Rightarrow> (peer_id, remote_span_info) dict \<Rightarrow> rat list set" where
  "potentials n spans =
     {xs. set xs \<subseteq> sum_list ` {ys. set ys \<subseteq> insert 0 (set (map (span_throughput \<circ> snd) spans)) \<and> length ys = length spans}
          \<and> length xs = n}"

lemma finite_potentials: "finite (potentials n spans)"
  unfolding potentials_def by (intro finite_lists_length_eq finite_imageI) auto

lemma potential_mem: "potential n spans \<in> potentials n spans"
proof -
  have "total_load spans i \<in> sum_list ` {ys. set ys \<subseteq> insert 0 (set (map (span_throughput \<circ> snd) spans)) \<and> length ys = length spans}" for i
    unfolding total_load_def by (intro imageI) (auto simp: load_def)
  moreover have "length (potential n spans) = n"
    by (simp add: potential_def window_def flip: size_mset)
  ultimately show ?thesis by (auto simp: potentials_def potential_def window_def)
qed

lemma potentials_same: "servers_of a = servers_of b \<Longrightarrow> potentials n a = potentials n b"
proof -
  assume same: "servers_of a = servers_of b"
  have "map (span_throughput \<circ> snd) c = map (\<lambda>(_, _, info, _). si_throughput info) (servers_of c)" for c
    by (simp add: servers_of_def span_throughput_def)
  moreover have "length c = length (servers_of c)" for c by (simp add: servers_of_def)
  ultimately show ?thesis unfolding potentials_def using same by presburger
qed

definition rounds_left :: "nat \<Rightarrow> (peer_id, remote_span_info) dict \<Rightarrow> nat" where
  "rounds_left n spans = 2 * card {v \<in> potentials n spans. potential n spans < v} +
     (if \<forall>p. settled n spans p then 0 else 1)"

lemma rounds_left_decreases:
  assumes "progress n P spans spans' True" and "\<And>p. p \<notin> P \<Longrightarrow> settled n spans p"
  shows "rounds_left n spans' < rounds_left n spans"
proof (cases "potential n spans' = potential n spans")
  case True
  with assms(1,2) have "\<forall>p. settled n spans' p" by (auto simp: progress_def)
  moreover have "potentials n spans' = potentials n spans"
    using assms(1) by (intro potentials_same) (simp add: progress_def)
  moreover have "\<not> (\<forall>p. settled n spans p)" using assms(1) by (auto simp: progress_def)
  ultimately show ?thesis using True unfolding rounds_left_def by presburger
next
  case False
  with assms(1) have less: "potential n spans < potential n spans'"
    by (metis order_le_imp_less_or_eq progress_def)
  have same: "potentials n spans' = potentials n spans"
    using assms(1) by (intro potentials_same) (simp add: progress_def)
  have "{v \<in> potentials n spans. potential n spans' < v} \<subset> {v \<in> potentials n spans. potential n spans < v}"
    using less potential_mem [of n spans'] same by (auto intro: order.strict_trans)
  then have "card {v \<in> potentials n spans. potential n spans' < v} < card {v \<in> potentials n spans. potential n spans < v}"
    by (intro psubset_card_mono) (simp add: finite_potentials)
  then show ?thesis unfolding rounds_left_def same by (simp split: if_splits)
qed

lemma settled_absent: "p \<notin> fst ` set spans \<Longrightarrow> settled n spans p"
  by (metis map_of_eq_None_iff option.distinct(1) settled_def)

lemma rebalance_rounds_ends:
  assumes "\<And>k ps. mset (shuffle k ps) = mset ps" and "legal n spans"
  shows "\<exists>spans'. rebalance_rounds shuffle k (spans, loads n spans) = Some (Inr (spans', loads n spans')) \<and>
    legal n spans' \<and> servers_of spans' = servers_of spans \<and> potential n spans \<le> potential n spans' \<and>
    (\<forall>p. settled n spans' p)"
  using assms(2)
proof (induction "rounds_left n spans" arbitrary: spans k rule: less_induct)
  case less
  have keys: "set (shuffle k (map fst spans)) = fst ` set spans"
    using assms(1) by (metis list.set_map set_mset_mset)
  obtain t mv where t: "foldR rebalance_server (shuffle k (map fst spans)) ((spans, loads n spans), False) = Inr ((t, loads n t), mv)"
    and pr: "progress n (fst ` set spans) spans t mv"
    using round_progress [OF less.prems, of "shuffle k (map fst spans)" False] keys by auto
  show ?case
  proof (cases mv)
    case True
    have "rounds_left n t < rounds_left n spans"
      using pr True settled_absent by (intro rounds_left_decreases) auto
    moreover have "legal n t" using pr by (simp add: progress_def)
    ultimately obtain u where "rebalance_rounds shuffle (Suc k) (t, loads n t) = Some (Inr (u, loads n u))"
      "legal n u" "servers_of u = servers_of t" "potential n t \<le> potential n u" "\<forall>p. settled n u p"
      using less.hyps by blast
    with t pr True show ?thesis
      by (subst rebalance_rounds.simps) (auto simp: progress_def intro: order_trans)
  next
    case False
    with pr have "t = spans" "\<forall>p \<in> fst ` set spans. settled n spans p" by (auto simp: progress_def)
    moreover from this settled_absent have "\<forall>p. settled n spans p" by metis
    ultimately have "t = spans" "\<forall>p. settled n spans p" by auto
    with t less.prems False show ?thesis by (subst rebalance_rounds.simps) auto
  qed
qed

lemma settled_stays:
  assumes "legal n spans" "settled n spans p" "p \<in> fst ` set spans"
  shows "rebalance_server p ((spans, loads n spans), False) = Inr ((spans, loads n spans), False)"
proof -
  from assms(3) obtain sp where get: "dict_get spans p = Some sp"
    by (metis map_of_eq_None_iff not_None_eq)
  then have "best_place n spans sp = Inr (rs_start sp)" using assms(2) by (simp add: settled_def)
  moreover have "legal_span n (move_span sp (rs_start sp))"
    using legalD [OF assms(1) get] by (auto simp: legal_span_def span_length_def)
  ultimately show ?thesis
    using rebalance_server_eq [OF assms(1) get, of "rs_start sp" False] by (simp add: after_move_def)
qed

lemma legal_throughputs: "legal n spans \<Longrightarrow> compute_throughputs spans n = loads n spans"
  by (rule compute_throughputs_eq) (simp add: legal_def)

lemma np_min_loads: "0 < n \<Longrightarrow> np_min (map f [0..<n]) = Inr (min_list (map f [0..<n]))"
  by (simp add: np_min_def)

lemma decide_quality_True:
  assumes "decide_quality q initial new"
  shows "initial \<le> new \<and> eps \<le> new \<and> initial < (q - eps) * new"
proof -
  have "0 < new" using assms by (auto simp: decide_quality_def eps_def not_less split: if_splits)
  with assms show ?thesis
    by (auto simp: decide_quality_def pos_divide_less_eq not_less split: if_splits)
qed

lemma length_compute_throughputs [simp]: "length (compute_throughputs spans n) = n"
proof -
  have "length (fold (\<lambda>sp thr. add_slice thr (rs_start sp) (rs_end sp) (span_throughput sp)) sps xs) = length xs" for sps xs
    by (induction sps arbitrary: xs) auto
  then show ?thesis by (simp add: compute_throughputs_def)
qed

lemma sort_le_hd:
  fixes xs ys :: "'a::linorder list"
  assumes "sort xs \<le> sort ys" and "y \<in> set ys" and "xs \<noteq> []"
  shows "\<exists>x \<in> set xs. x \<le> y"
proof -
  obtain x xs' where x: "sort xs = x # xs'" using assms(3) by (metis list.exhaust set_sort set_empty)
  obtain z ys' where z: "sort ys = z # ys'" using assms(2) by (metis list.exhaust set_sort empty_iff set_empty)
  have "z \<le> y" using assms(2) z sorted_sort [of ys] set_sort [of "\<lambda>x. x" ys] by auto
  moreover have "x \<le> z" using assms(1) x z by auto
  moreover have "x \<in> set xs" using x set_sort [of "\<lambda>x. x" xs] by auto
  ultimately show ?thesis by (meson order_trans)
qed

text \<open>The chosen window holds a block whose throughput is the least of all.\<close>

lemma best_window_has_bottleneck:
  assumes k: "1 \<le> k" "k \<le> int (length xs)" and s: "0 \<le> s" "s + k \<le> int (length xs)"
    and best: "\<And>j. 0 \<le> j \<Longrightarrow> j + k \<le> int (length xs) \<Longrightarrow> sort (py_slice xs s (s + k)) \<le> sort (py_slice xs j (j + k))"
  shows "\<exists>b \<in> set (py_range s (s + k)). xs ! nat b = min_list xs"
proof -
  have ne: "xs \<noteq> []" using k by auto
  then obtain m where m: "m < length xs" "xs ! m = min_list xs"
    by (metis List.finite_set Min_in in_set_conv_nth min_list_Min set_empty)
  let ?j = "min (int m) (int (length xs) - k)"
  have "py_slice xs ?j (?j + k) ! nat (int m - ?j) = xs ! m"
    using k m by (subst nth_py_slice) auto
  moreover have "nat (int m - ?j) < length (py_slice xs ?j (?j + k))"
    using k m by (subst length_py_slice) auto
  ultimately have "xs ! m \<in> set (py_slice xs ?j (?j + k))" by (metis nth_mem)
  moreover have "length (py_slice xs s (s + k)) = nat k" using k s by (simp add: length_py_slice)
  ultimately obtain i where i: "i < nat k" "py_slice xs s (s + k) ! i \<le> xs ! m"
    using sort_le_hd [OF best [of ?j]] k by (fastforce simp: in_set_conv_nth)
  have "xs ! nat (s + int i) \<le> min_list xs"
    using i s m by (simp add: nth_py_slice)
  moreover have "min_list xs \<le> xs ! nat (s + int i)"
    using i s ne by (simp add: min_list_Min nat_less_iff)
  ultimately show ?thesis using i by (intro bexI [of _ "s + int i"]) auto
qed

subsection \<open>Properties\<close>

text \<open>C12. The simulation of a rebalancing swarm ends, however the servers are shuffled in each round: from
  spans that lie inside the model and their throughputs, \<open>while moved\<close> returns an arrangement of the
  same servers (same order, records and numbers of blocks), with the throughputs of exactly that
  arrangement, and in it no server moves any more.\<close>

theorem rebalancing_ends:
  assumes "\<And>k ps. mset (shuffle k ps) = mset ps" and "legal n spans"
  shows "\<exists>spans'. rebalance_rounds shuffle k (spans, compute_throughputs spans n) =
      Some (Inr (spans', compute_throughputs spans' n)) \<and>
    legal n spans' \<and> servers_of spans' = servers_of spans \<and>
    (\<forall>p \<in> fst ` set spans'. rebalance_server p ((spans', compute_throughputs spans' n), False) =
       Inr ((spans', compute_throughputs spans' n), False))"
proof -
  from rebalance_rounds_ends [where shuffle = shuffle, OF assms] obtain spans' where
    "rebalance_rounds shuffle k (spans, loads n spans) = Some (Inr (spans', loads n spans'))"
    "legal n spans'" "servers_of spans' = servers_of spans" "\<forall>p. settled n spans' p" by blast
  with settled_stays show ?thesis using assms(2) by (auto simp: legal_throughputs)
qed

definition two_servers :: "(peer_id, remote_span_info) dict" where
  "two_servers =
     [(''QmA'', \<lparr>rs_peer = ''QmA'', rs_start = 0, rs_end = 2, rs_info = sample_info\<rparr>),
      (''QmB'', \<lparr>rs_peer = ''QmB'', rs_start = 0, rs_end = 2, rs_info = sample_info\<lparr>si_throughput := 5\<rparr>\<rparr>)]"

lemma two_servers_legal: "legal 4 two_servers"
  by (simp add: legal_def two_servers_def legal_span_def span_throughput_def sample_info_def)

theorem rebalancing_ends_witness:
  "\<exists>spans'. rebalance_rounds (\<lambda>k. if even k then rev else id) 0 (two_servers, compute_throughputs two_servers 4) =
      Some (Inr (spans', compute_throughputs spans' 4)) \<and>
    legal 4 spans' \<and> servers_of spans' = servers_of two_servers \<and>
    (\<forall>p \<in> fst ` set spans'. rebalance_server p ((spans', compute_throughputs spans' 4), False) =
       Inr ((spans', compute_throughputs spans' 4), False))"
  using rebalancing_ends [of "\<lambda>k. if even k then rev else id" 4 two_servers 0] two_servers_legal by simp

text \<open>C17. A joining server takes consecutive blocks inside the model whose sorted throughputs are
  lexicographically the least among all windows of that length, and among them is a block with the
  least throughput of the whole model: the bottleneck is always reinforced.\<close>

theorem choose_best_blocks_least:
  assumes "compute_spans infos JOINING = Inr spans" and "1 \<le> k" and "k \<le> int (length infos)"
    and "T = compute_throughputs spans (length infos)"
  shows "\<exists>s. choose_best_blocks k infos = Inr (py_range s (s + k)) \<and> 0 \<le> s \<and> s + k \<le> int (length infos) \<and>
    (\<forall>j. 0 \<le> j \<and> j + k \<le> int (length infos) \<longrightarrow> sort (py_slice T s (s + k)) \<le> sort (py_slice T j (j + k))) \<and>
    (\<exists>b \<in> set (py_range s (s + k)). T ! nat b = min_list T)"
proof -
  have T: "map ((!) T) [0..<length infos] = T" using assms(4) map_nth [of T] by simp
  obtain s where s: "choose_best_start T k = Inr s" "0 \<le> s" "s + k \<le> int (length infos)"
    and le: "\<And>j. 0 \<le> j \<Longrightarrow> j + k \<le> int (length infos) \<Longrightarrow>
      (window ((!) T) {nat s..<nat (s + k)}, s) \<le> (window ((!) T) {nat j..<nat (j + k)}, j)"
    using choose_best_start_spec [OF assms(2,3), of "(!) T"] unfolding T by metis
  have best: "sort (py_slice T s (s + k)) \<le> sort (py_slice T j (j + k))" if "0 \<le> j" "j + k \<le> int (length infos)" for j
    using sort_py_slice [of s k "length infos" "(!) T"] sort_py_slice [of j k "length infos" "(!) T"] le [OF that] s that assms(2)
    unfolding T by auto
  have "\<exists>b \<in> set (py_range s (s + k)). T ! nat b = min_list T"
    using assms s best by (intro best_window_has_bottleneck) auto
  moreover have "choose_best_blocks k infos = Inr (py_range s (s + k))"
    using assms(1,4) s(1) by (simp add: choose_best_blocks_def)
  ultimately show ?thesis using s best by blast
qed

theorem choose_best_blocks_least_witness:
  "\<exists>spans s. compute_spans sample_modules JOINING = Inr spans \<and>
     choose_best_blocks 2 sample_modules = Inr (py_range s (s + 2)) \<and> 0 \<le> s \<and> s + 2 \<le> 4 \<and>
     (\<exists>b \<in> set (py_range s (s + 2)). compute_throughputs spans 4 ! nat b = min_list (compute_throughputs spans 4))"
proof -
  obtain spans where "compute_spans sample_modules JOINING = Inr spans"
    by (simp add: compute_spans_def sample_modules_def parse_block_uid)
  moreover have "length sample_modules = 4" by (simp add: sample_modules_def)
  ultimately show ?thesis using choose_best_blocks_least [of sample_modules spans 2, OF _ _ _ refl] by auto
qed

text \<open>The decision to move always comes, and moving is only advised for a real gain: whatever the
  shuffles, \<open>should_choose_other_blocks\<close> returns, and when it returns true (and was not forced to by
  a balance quality above 1) there is an arrangement of the same servers whose bottleneck is at
  least \<open>eps\<close>, not below the present one, and better than it by the factor the balance quality asks
  for.\<close>

theorem should_move_sound:
  assumes "\<And>k ps. mset (shuffle k ps) = mset ps"
    and "compute_spans infos JOINING = Inr spans" and "legal (length infos) spans"
    and "dict_get spans p = Some sp"
  shows "\<exists>b. should_choose_other_blocks shuffle p infos q = Some (Inr b) \<and>
    (b \<and> q \<le> 1 \<longrightarrow> (\<exists>spans'. legal (length infos) spans' \<and> servers_of spans' = servers_of spans \<and>
      (let old = min_list (compute_throughputs spans (length infos));
           new = min_list (compute_throughputs spans' (length infos))
       in eps \<le> new \<and> old \<le> new \<and> old < (q - eps) * new)))"
proof (cases "1 < q")
  case True
  then show ?thesis by (intro exI [of _ True]) (simp add: should_choose_other_blocks_def)
next
  case False
  let ?n = "length infos"
  let ?T = "loads ?n spans"
  have sp: "legal_span ?n sp" using assms(3,4) by (rule legalD)
  then have n: "0 < ?n" by (auto simp: legal_span_def)
  have wf: "wf_dict spans" using assms(3) by (simp add: legal_def)
  obtain s where s: "best_place ?n spans sp = Inr s" "legal_span ?n (move_span sp s)"
    using best_place_spec [OF sp] by metis
  let ?M = "dict_set p (move_span sp s) spans"
  have legalM: "legal ?n ?M" using assms(3) s(2) by (rule legal_set)
  have same: "servers_of ?M = servers_of spans"
    using wf assms(4) unfolding servers_of_def by (rule map_dict_set) simp
  from rebalance_rounds_ends [where shuffle = shuffle, OF assms(1) legalM] obtain spans' where
    rounds: "rebalance_rounds shuffle 0 (?M, loads ?n ?M) = Some (Inr (spans', loads ?n spans'))"
    and spans': "legal ?n spans'" "servers_of spans' = servers_of spans"
    using same by metis
  have item: "dict_item spans p = Inr sp" using assms(4) wf by simp
  have eq: "should_choose_other_blocks shuffle p infos q =
      Some (Inr (if eps < min_list ?T \<and> min_list (map (seen spans sp) [0..<?n]) \<le> 0 then False
                 else if rs_start sp = s then False
                 else decide_quality q (min_list ?T) (min_list (loads ?n spans'))))"
    unfolding should_choose_other_blocks_def assms(2) bindR_simps Let_def legal_throughputs [OF assms(3)]
      np_min_loads [OF n] assms(4) item seen_slice [OF sp] s(1) [unfolded best_place_def]
      put_back [OF wf assms(4) s(2)]
    using False rounds by (simp add: np_min_loads [OF n])
  show ?thesis
    unfolding eq using spans' decide_quality_True [of q "min_list ?T" "min_list (loads ?n spans')"]
    by (auto simp: Let_def legal_throughputs assms(3) intro!: exI [of _ spans'])
qed

definition two_modules :: "remote_module_info list" where
  "two_modules = [\<lparr>rm_uid = block_uid ''m'' 0, rm_servers = [(''QmA'', sample_info)]\<rparr>,
     \<lparr>rm_uid = block_uid ''m'' 1, rm_servers = []\<rparr>]"

lemma two_modules_spans:
  "compute_spans (map (\<lambda>m. m\<lparr>rm_servers := map (\<lambda>(p, si). (p, si\<lparr>start_block := Some 0, end_block := Some 1\<rparr>)) (rm_servers m)\<rparr>) two_modules)
     JOINING = Inr [(''QmA'', \<lparr>rs_peer = ''QmA'', rs_start = 0, rs_end = 1,
       rs_info = sample_info\<lparr>start_block := Some 0, end_block := Some 1\<rparr>\<rparr>)]"
  by (simp add: compute_spans_def two_modules_def parse_block_uid span_block_def span_visit_def span_entry_def
      new_span_def sample_info_def)

theorem should_move_sound_witness:
  "\<exists>b. should_choose_other_blocks (\<lambda>_. rev) ''QmA''
      (map (\<lambda>m. m\<lparr>rm_servers := map (\<lambda>(p, si). (p, si\<lparr>start_block := Some 0, end_block := Some 1\<rparr>)) (rm_servers m)\<rparr>) two_modules)
      (3 / 4) = Some (Inr b)"
  using should_move_sound [OF _ two_modules_spans, of "\<lambda>_. rev" "''QmA''" _ "3 / 4"]
  by (auto simp: legal_def legal_span_def span_throughput_def sample_info_def two_modules_def)

text \<open>A server never abandons blocks that only it serves: when every block is served (the bottleneck is
  above \<open>eps\<close>) and one of its blocks has no other throughput than its own, it is told to stay.\<close>

theorem sole_server_stays:
  assumes "compute_spans infos JOINING = Inr spans" and "legal (length infos) spans"
    and "dict_get spans p = Some sp" and "q \<le> 1"
    and "eps < min_list (compute_throughputs spans (length infos))"
    and "rs_start sp \<le> int i" "int i < rs_end sp"
    and "compute_throughputs spans (length infos) ! i = span_throughput sp"
  shows "should_choose_other_blocks shuffle p infos q = Some (Inr False)"
proof -
  let ?n = "length infos"
  have sp: "legal_span ?n sp" using assms(2,3) by (rule legalD)
  then have n: "0 < ?n" and i: "i < ?n" using assms(6,7) by (auto simp: legal_span_def)
  have wf: "wf_dict spans" using assms(2) by (simp add: legal_def)
  then have item: "dict_item spans p = Inr sp" using assms(3) by simp
  have load: "total_load spans i = span_throughput sp" "load sp i = span_throughput sp"
    using assms(6-8) i by (auto simp: legal_throughputs assms(2) load_def)
  have "min_list (map (seen spans sp) [0..<?n]) \<le> seen spans sp i"
    using n i by (simp add: min_list_Min)
  also have "\<dots> \<le> 0"
    using sp by (simp add: seen_def load legal_span_def eps_def algebra_simps)
  finally have rest: "min_list (map (seen spans sp) [0..<?n]) \<le> 0" .
  show ?thesis
    unfolding should_choose_other_blocks_def assms(1) bindR_simps Let_def legal_throughputs [OF assms(2)]
      np_min_loads [OF n] assms(3) item seen_slice [OF sp]
    using assms(4,5) rest by (simp add: legal_throughputs assms(2))
qed

theorem sole_server_stays_witness:
  "should_choose_other_blocks (\<lambda>_. rev) ''QmA'' [\<lparr>rm_uid = block_uid ''m'' 3, rm_servers = [(''QmA'', sample_info)]\<rparr>] 1 =
     Some (Inr False)"
proof -
  let ?sp = "\<lparr>rs_peer = ''QmA'', rs_start = 0, rs_end = 1, rs_info = sample_info\<rparr>"
  have spans: "compute_spans [\<lparr>rm_uid = block_uid ''m'' 3, rm_servers = [(''QmA'', sample_info)]\<rparr>] JOINING = Inr [(''QmA'', ?sp)]"
    by (simp add: compute_spans_def parse_block_uid span_block_def span_visit_def span_entry_def new_span_def sample_info_def)
  have legal: "legal 1 [(''QmA'', ?sp)]"
    by (simp add: legal_def legal_span_def span_throughput_def sample_info_def)
  then show ?thesis
    using sole_server_stays [OF spans, of "''QmA''" ?sp 1 0 "\<lambda>_. rev"]
    by (simp add: legal_throughputs total_load_def load_def span_throughput_def sample_info_def eps_def)
qed

end
