(* ===== verification/Memory_Cache.thy ===== *)
theory Memory_Cache
  imports Data_Structures "HOL-Library.Word"
begin

text \<open>
  \<open>src/peerz/server/memory_cache.py\<close>: the attention cache shared by the runtime process and the
  connection handlers. The shared counters are the \<open>c_int64\<close> values of the code, as 64-bit words.
  Every request to allocate is a task with a phase; the step relation interleaves the tasks at every
  point where the code lets another process run: between the lock of the queue counter, the memory
  lock, the wait for a free event, the metadata lock and the pipe. The runtime reads the pipe in
  order, creates and deletes tensors, and looks handles up.

  The lemmas show that the counters always are the sums they stand for, that allocations that live at
  the same time have different handles, that a live handle is always found by the runtime, that no
  wake-up is lost, and that the memory limit holds when a request is committed before another one is
  admitted; without that order it does not.
\<close>

subsection \<open>Sizes\<close>

record torch_dtype_info =
  dt_name :: string
  dt_floating :: bool
  dt_complex :: bool

definition SPECIAL_DTYPE_SIZES :: "(string, int) dict" where
  "SPECIAL_DTYPE_SIZES = [(''bool'', 1), (''qint8'', 1), (''qint32'', 4)]"

text \<open>\<open>finfo\<close> and \<open>iinfo\<close> give the number of bits of a floating or integer dtype, or raise.\<close>

definition get_size_in_bytes :: "(string \<Rightarrow> int result) \<Rightarrow> (string \<Rightarrow> int result) \<Rightarrow> torch_dtype_info \<Rightarrow> int result" where
  "get_size_in_bytes finfo iinfo dtype =
     (case dict_get SPECIAL_DTYPE_SIZES (dt_name dtype) of
        Some n \<Rightarrow> Inr n
      | None \<Rightarrow> bindR ((if dt_floating dtype then finfo else iinfo) (dt_name dtype))
          (\<lambda>bits. Inr ((bits * (1 + (if dt_complex dtype then 1 else 0))) div 8)))"

text \<open>A tensor descriptor: shape, dtype (with its size) and device.\<close>

record tensor_descr =
  td_shape :: "int list"
  td_dtype :: torch_dtype_info
  td_device :: "string option"

definition numel :: "tensor_descr \<Rightarrow> int" where
  "numel d = prod_list (td_shape d)"

definition add_to_device :: "(torch_dtype_info \<Rightarrow> int result) \<Rightarrow> tensor_descr
    \<Rightarrow> (string option, int) dict \<Rightarrow> (string option, int) dict result" where
  "add_to_device size_of d by_device =
     bindR (size_of (td_dtype d)) (\<lambda>b.
       Inr (dict_set (td_device d)
              ((case dict_get by_device (td_device d) of None \<Rightarrow> 0 | Some n \<Rightarrow> n) + numel d * b) by_device))"

definition get_allocation_size :: "(torch_dtype_info \<Rightarrow> int result) \<Rightarrow> tensor_descr list \<Rightarrow> int result" where
  "get_allocation_size size_of descriptors =
     bindR (foldR (add_to_device size_of) descriptors []) (\<lambda>by_device.
       if by_device = [] then Inl ValueError else Inr (Max (set (map snd by_device))))"

text \<open>The lines of \<open>allocate_cache\<close> that run before the allocation task is created.\<close>

definition allocate_cache_request ::
    "(torch_dtype_info \<Rightarrow> int result) \<Rightarrow> xfloat option \<Rightarrow> int \<Rightarrow> int \<Rightarrow> tensor_descr list \<Rightarrow> xfloat option
     \<Rightarrow> (int \<times> xfloat option) result" where
  "allocate_cache_request size_of max_alloc_timeout runtime_pid pid descriptors timeout =
     guardR (pid \<noteq> runtime_pid) AssertionError
     (guardR (\<forall>d \<in> set descriptors. td_device d \<noteq> None) AssertionError
     (bindR (case (max_alloc_timeout, timeout) of
               (None, t) \<Rightarrow> Inr t
             | (Some m, Some t) \<Rightarrow> Inr (Some (min t m))
             | (Some m, None) \<Rightarrow> Inl TypeError) (\<lambda>timeout'.
      bindR (get_allocation_size size_of descriptors) (\<lambda>size. Inr (size, timeout')))))"

subsection \<open>Shared state and phases of a request\<close>

datatype phase =
    Enqueued    \<comment> \<open>counted in \<open>enqueued_size\<close>, before the immediate check\<close>
  | Checked     \<comment> \<open>about to take the memory lock\<close>
  | Locked      \<comment> \<open>holds the memory lock, before the check under it\<close>
  | Polling     \<comment> \<open>in \<open>_wait_until_available\<close>, about to test the loop condition\<close>
  | Sleeping    \<comment> \<open>waits for \<open>_memory_freed_event\<close>\<close>
  | Woken       \<comment> \<open>the event was seen, not yet cleared\<close>
  | Admitted    \<comment> \<open>lock released, still counted as enqueued\<close>
  | Dequeued    \<comment> \<open>no longer enqueued, before the metadata lock\<close>
  | Live "int list"   \<comment> \<open>yielded these handles\<close>
  | Freed       \<comment> \<open>returned its memory, before setting the event\<close>
  | Closed
  | Failed      \<comment> \<open>raised \<open>AllocationFailed\<close>\<close>

record alloc_task =
  at_size :: int
  at_descrs :: "tensor_descr list"
  at_timeout :: "xfloat option"
  at_phase :: phase

text \<open>A message on the pipe: handles with descriptors to create, or with nothing to delete.\<close>

type_synonym message = "int list \<times> tensor_descr list option"

record 't cache =
  max_size_bytes :: int
  current_size :: "64 word"
  enqueued_size :: "64 word"
  handle_counter :: "64 word"
  allocated_tensors :: "(int, 't) dict"
  pipe :: "message list"
  lock_acquire_memory :: "nat option"
  memory_freed_event :: bool
  tasks :: "alloc_task list"

definition new_cache :: "int option \<Rightarrow> 't cache" where
  "new_cache max_size =
     \<lparr>max_size_bytes = (case max_size of Some m \<Rightarrow> m | None \<Rightarrow> 2 ^ 64 - 1),
      current_size = 0, enqueued_size = 0, handle_counter = 0, allocated_tensors = [], pipe = [],
      lock_acquire_memory = None, memory_freed_event = False, tasks = []\<rparr>"

definition current_size_bytes :: "'t cache \<Rightarrow> int" where
  "current_size_bytes c = sint (current_size c)"

definition enqueued_size_bytes :: "'t cache \<Rightarrow> int" where
  "enqueued_size_bytes c = sint (enqueued_size c)"

definition bytes_left :: "'t cache \<Rightarrow> int" where
  "bytes_left c = max_size_bytes c - current_size_bytes c"

subsection \<open>Operations of a request\<close>

definition set_phase :: "nat \<Rightarrow> phase \<Rightarrow> 't cache \<Rightarrow> 't cache" where
  "set_phase i ph c = c\<lparr>tasks := (tasks c)[i := (tasks c ! i)\<lparr>at_phase := ph\<rparr>]\<rparr>"

definition enqueue :: "int \<Rightarrow> tensor_descr list \<Rightarrow> xfloat option \<Rightarrow> 't cache \<Rightarrow> 't cache" where
  "enqueue alloc_size descrs timeout c =
     c\<lparr>enqueued_size := enqueued_size c + word_of_int alloc_size,
       tasks := tasks c @ [\<lparr>at_size = alloc_size, at_descrs = descrs, at_timeout = timeout, at_phase = Enqueued\<rparr>]\<rparr>"

definition dequeue_size :: "nat \<Rightarrow> 't cache \<Rightarrow> 't cache" where
  "dequeue_size i c = c\<lparr>enqueued_size := enqueued_size c - word_of_int (at_size (tasks c ! i))\<rparr>"

definition fail :: "nat \<Rightarrow> 't cache \<Rightarrow> 't cache" where
  "fail i c = set_phase i Failed (dequeue_size i c)"

definition check_immediate :: "nat \<Rightarrow> 't cache \<Rightarrow> 't cache" where
  "check_immediate i c =
     (if at_timeout (tasks c ! i) = Some (Fin 0) \<and>
         current_size_bytes c + enqueued_size_bytes c > max_size_bytes c
      then fail i c else set_phase i Checked c)"

definition acquire :: "nat \<Rightarrow> 't cache \<Rightarrow> 't cache" where
  "acquire i c = set_phase i Locked (c\<lparr>lock_acquire_memory := Some i\<rparr>)"

definition release :: "'t cache \<Rightarrow> 't cache" where
  "release c = c\<lparr>lock_acquire_memory := None\<rparr>"

definition no_room :: "nat \<Rightarrow> 't cache \<Rightarrow> bool" where
  "no_room i c \<longleftrightarrow> current_size_bytes c + at_size (tasks c ! i) > max_size_bytes c"

text \<open>The check under the memory lock, with the test at the start of \<open>_wait_until_available\<close>.\<close>

definition check_locked :: "nat \<Rightarrow> 't cache \<Rightarrow> 't cache" where
  "check_locked i c =
     (if no_room i c then
        (if at_timeout (tasks c ! i) = Some (Fin 0) then release (fail i c)
         else if at_size (tasks c ! i) > max_size_bytes c then release (fail i c)
         else set_phase i Polling c)
      else release (set_phase i Admitted c))"

definition poll_room :: "nat \<Rightarrow> 't cache \<Rightarrow> 't cache" where
  "poll_room i c = (if no_room i c then set_phase i Sleeping c else release (set_phase i Admitted c))"

definition clear_event :: "nat \<Rightarrow> 't cache \<Rightarrow> 't cache" where
  "clear_event i c = set_phase i Polling (c\<lparr>memory_freed_event := False\<rparr>)"

definition dequeue :: "nat \<Rightarrow> 't cache \<Rightarrow> 't cache" where
  "dequeue i c = set_phase i Dequeued (dequeue_size i c)"

definition new_handles :: "nat \<Rightarrow> 't cache \<Rightarrow> int list" where
  "new_handles k c = map (\<lambda>j. sint (handle_counter c) + int j) [0..<k]"

definition commit :: "nat \<Rightarrow> 't cache \<Rightarrow> 't cache" where
  "commit i c =
     (let t = tasks c ! i; handles = new_handles (length (at_descrs t)) c in
      set_phase i (Live handles)
        (c\<lparr>current_size := current_size c + word_of_int (at_size t),
           handle_counter := handle_counter c + word_of_nat (length handles),
           pipe := pipe c @ [(handles, Some (at_descrs t))]\<rparr>))"

definition free :: "nat \<Rightarrow> int list \<Rightarrow> 't cache \<Rightarrow> 't cache" where
  "free i handles c =
     set_phase i Freed
       (c\<lparr>pipe := pipe c @ [(handles, None)],
          current_size := current_size c - word_of_int (at_size (tasks c ! i))\<rparr>)"

definition signal :: "nat \<Rightarrow> 't cache \<Rightarrow> 't cache" where
  "signal i c = set_phase i Closed (c\<lparr>memory_freed_event := True\<rparr>)"

subsection \<open>Operations of the runtime\<close>

definition create_tensors :: "(tensor_descr \<Rightarrow> 't) \<Rightarrow> int list \<Rightarrow> tensor_descr list \<Rightarrow> (int, 't) dict \<Rightarrow> (int, 't) dict" where
  "create_tensors make_zeros handles descrs ts =
     fold (\<lambda>(h, d). dict_set h (make_zeros d)) (zip handles descrs) ts"

definition delete_tensors :: "int list \<Rightarrow> (int, 't) dict \<Rightarrow> (int, 't) dict" where
  "delete_tensors handles ts = fold dict_pop handles ts"

definition recv :: "(tensor_descr \<Rightarrow> 't) \<Rightarrow> message \<Rightarrow> (int, 't) dict \<Rightarrow> (int, 't) dict result" where
  "recv make_zeros m ts =
     (case m of
        (handles, Some descrs) \<Rightarrow>
          guardR (length handles = length descrs) AssertionError
            (Inr (create_tensors make_zeros handles descrs ts))
      | (handles, None) \<Rightarrow> Inr (delete_tensors handles ts))"

definition use_cache :: "(tensor_descr \<Rightarrow> 't) \<Rightarrow> int \<Rightarrow> int \<Rightarrow> int list \<Rightarrow> 't cache \<Rightarrow> ('t cache \<times> 't list) result" where
  "use_cache make_zeros runtime_pid pid handles c =
     guardR (pid = runtime_pid) AssertionError
       (bindR (foldR (recv make_zeros) (pipe c) (allocated_tensors c)) (\<lambda>ts.
        bindR (mapR (dict_item ts) handles) (\<lambda>tensors.
          Inr (c\<lparr>allocated_tensors := ts, pipe := []\<rparr>, tensors))))"

subsection \<open>Interleaving\<close>

abbreviation in_phase :: "'t cache \<Rightarrow> nat \<Rightarrow> phase \<Rightarrow> bool" where
  "in_phase c i ph \<equiv> i < length (tasks c) \<and> at_phase (tasks c ! i) = ph"

text \<open>One step of some process. Sizes of requests are not negative. A request with a nonzero timeout may
  give up while it waits for the lock or for memory. The runtime receives one message at a time and
  may overwrite the contents of an allocated tensor.\<close>

inductive cache_step :: "(tensor_descr \<Rightarrow> 't) \<Rightarrow> 't cache \<Rightarrow> 't cache \<Rightarrow> bool" for make_zeros where
  request: "0 \<le> alloc_size \<Longrightarrow> cache_step make_zeros c (enqueue alloc_size descrs timeout c)"
| immediate: "in_phase c i Enqueued \<Longrightarrow> cache_step make_zeros c (check_immediate i c)"
| give_up: "in_phase c i Checked \<Longrightarrow> at_timeout (tasks c ! i) \<noteq> Some (Fin 0) \<Longrightarrow> cache_step make_zeros c (fail i c)"
| lock: "in_phase c i Checked \<Longrightarrow> lock_acquire_memory c = None \<Longrightarrow> cache_step make_zeros c (acquire i c)"
| check: "in_phase c i Locked \<Longrightarrow> cache_step make_zeros c (check_locked i c)"
| poll: "in_phase c i Polling \<Longrightarrow> cache_step make_zeros c (poll_room i c)"
| wake: "in_phase c i Sleeping \<Longrightarrow> memory_freed_event c \<Longrightarrow> cache_step make_zeros c (set_phase i Woken c)"
| wait_fails: "in_phase c i Sleeping \<Longrightarrow> \<not> memory_freed_event c \<Longrightarrow> cache_step make_zeros c (release (fail i c))"
| clear: "in_phase c i Woken \<Longrightarrow> cache_step make_zeros c (clear_event i c)"
| leave: "in_phase c i Admitted \<Longrightarrow> cache_step make_zeros c (dequeue i c)"
| committed: "in_phase c i Dequeued \<Longrightarrow> cache_step make_zeros c (commit i c)"
| freed: "in_phase c i (Live handles) \<Longrightarrow> cache_step make_zeros c (free i handles c)"
| signalled: "in_phase c i Freed \<Longrightarrow> cache_step make_zeros c (signal i c)"
| receive: "pipe c = m # ms \<Longrightarrow> recv make_zeros m (allocated_tensors c) = Inr ts \<Longrightarrow>
    cache_step make_zeros c (c\<lparr>allocated_tensors := ts, pipe := ms\<rparr>)"
| overwrite: "dict_get (allocated_tensors c) h = Some old \<Longrightarrow>
    cache_step make_zeros c (c\<lparr>allocated_tensors := dict_set h new (allocated_tensors c)\<rparr>)"

inductive_cases cache_stepE: "cache_step make_zeros c c'"

subsection \<open>Counters\<close>

fun live :: "phase \<Rightarrow> bool" where
  "live (Live _) = True"
| "live _ = False"

fun waiting :: "phase \<Rightarrow> bool" where
  "waiting Dequeued = False"
| "waiting (Live _) = False"
| "waiting Freed = False"
| "waiting Closed = False"
| "waiting Failed = False"
| "waiting _ = True"

fun holds_lock :: "phase \<Rightarrow> bool" where
  "holds_lock Locked = True"
| "holds_lock Polling = True"
| "holds_lock Sleeping = True"
| "holds_lock Woken = True"
| "holds_lock _ = False"

fun committed :: "phase \<Rightarrow> bool" where
  "committed (Live _) = True"
| "committed Freed = True"
| "committed Closed = True"
| "committed _ = False"

definition bytes_if :: "(phase \<Rightarrow> bool) \<Rightarrow> alloc_task \<Rightarrow> int" where
  "bytes_if P t = (if P (at_phase t) then at_size t else 0)"

definition total_live :: "'t cache \<Rightarrow> int" where
  "total_live c = sum_list (map (bytes_if live) (tasks c))"

definition total_waiting :: "'t cache \<Rightarrow> int" where
  "total_waiting c = sum_list (map (bytes_if waiting) (tasks c))"

definition counters_ok :: "'t cache \<Rightarrow> bool" where
  "counters_ok c \<longleftrightarrow>
     current_size c = word_of_int (total_live c) \<and> enqueued_size c = word_of_int (total_waiting c) \<and>
     (\<forall>t \<in> set (tasks c). 0 \<le> at_size t)"

definition lock_ok :: "'t cache \<Rightarrow> bool" where
  "lock_ok c \<longleftrightarrow>
     (\<forall>i < length (tasks c). holds_lock (at_phase (tasks c ! i)) \<longleftrightarrow> lock_acquire_memory c = Some i) \<and>
     (\<forall>i. lock_acquire_memory c = Some i \<longrightarrow> i < length (tasks c))"

text \<open>No wake-up is lost: whoever sleeps while the event is not set either does not fit, or somebody who
  returned memory is about to set the event.\<close>

definition wake_ok :: "'t cache \<Rightarrow> bool" where
  "wake_ok c \<longleftrightarrow>
     (\<forall>i. in_phase c i Sleeping \<and> \<not> memory_freed_event c \<longrightarrow>
        max_size_bytes c < total_live c + at_size (tasks c ! i) \<or> (\<exists>j. in_phase c j Freed))"

lemma sum_list_map_update:
  "i < length xs \<Longrightarrow> sum_list (map f (xs[i := y])) = sum_list (map f xs) - f (xs ! i) + (f y :: int)"
  by (induction xs arbitrary: i) (auto split: nat.splits)

lemma set_phase_simps [simp]:
  "max_size_bytes (set_phase i ph c) = max_size_bytes c"
  "current_size (set_phase i ph c) = current_size c"
  "enqueued_size (set_phase i ph c) = enqueued_size c"
  "handle_counter (set_phase i ph c) = handle_counter c"
  "allocated_tensors (set_phase i ph c) = allocated_tensors c"
  "pipe (set_phase i ph c) = pipe c"
  "lock_acquire_memory (set_phase i ph c) = lock_acquire_memory c"
  "memory_freed_event (set_phase i ph c) = memory_freed_event c"
  "tasks (set_phase i ph c) = (tasks c)[i := (tasks c ! i)\<lparr>at_phase := ph\<rparr>]"
  by (simp_all add: set_phase_def)

lemmas op_defs = enqueue_def fail_def dequeue_size_def check_immediate_def acquire_def release_def
  check_locked_def poll_room_def clear_event_def dequeue_def commit_def free_def signal_def Let_def

text \<open>\<open>moves c i old ph c'\<close>: the only request that changes is \<open>i\<close>, which goes from \<open>old\<close> to \<open>ph\<close>.\<close>

definition moves :: "'t cache \<Rightarrow> nat \<Rightarrow> phase \<Rightarrow> phase \<Rightarrow> 't cache \<Rightarrow> bool" where
  "moves c i old ph c' \<longleftrightarrow> in_phase c i old \<and> tasks c' = (tasks c)[i := (tasks c ! i)\<lparr>at_phase := ph\<rparr>]"

lemma moves_nth:
  "moves c i old ph c' \<Longrightarrow> j < length (tasks c) \<Longrightarrow> tasks c' ! j = (if j = i then (tasks c ! i)\<lparr>at_phase := ph\<rparr> else tasks c ! j)"
  by (auto simp: moves_def)

lemma moves_length: "moves c i old ph c' \<Longrightarrow> length (tasks c') = length (tasks c)"
  by (simp add: moves_def)

lemma moves_total:
  assumes "moves c i old ph c'"
  shows "sum_list (map (bytes_if P) (tasks c')) =
    sum_list (map (bytes_if P) (tasks c)) + ((if P ph then at_size (tasks c ! i) else 0) - (if P old then at_size (tasks c ! i) else 0))"
  using assms by (simp add: moves_def sum_list_map_update bytes_if_def)

lemma moves_size: "moves c i old ph c' \<Longrightarrow> at_size (tasks c' ! j) = at_size (tasks c ! j)"
  unfolding moves_def by (cases "j < length (tasks c)") (auto simp: nth_list_update)

lemma counters_move:
  assumes "counters_ok c" "moves c i old ph c'"
    and "current_size c' = current_size c + word_of_int
      ((if live ph then at_size (tasks c ! i) else 0) - (if live old then at_size (tasks c ! i) else 0))"
    and "enqueued_size c' = enqueued_size c + word_of_int
      ((if waiting ph then at_size (tasks c ! i) else 0) - (if waiting old then at_size (tasks c ! i) else 0))"
  shows "counters_ok c'"
proof -
  have "0 \<le> at_size t" if "t \<in> set (tasks c')" for t
    using assms(1) that moves_size [OF assms(2)] moves_length [OF assms(2)]
    unfolding counters_ok_def by (metis in_set_conv_nth)
  with assms show ?thesis
    by (simp add: counters_ok_def total_live_def total_waiting_def moves_total)
qed

lemma lock_move:
  assumes "lock_ok c" "moves c i old ph c'"
    and "lock_acquire_memory c' = (if holds_lock ph then Some i else if holds_lock old then None else lock_acquire_memory c)"
    and "holds_lock ph \<longrightarrow> holds_lock old \<or> lock_acquire_memory c = None"
  shows "lock_ok c'"
proof -
  have i: "i < length (tasks c)" and old: "holds_lock old \<longleftrightarrow> lock_acquire_memory c = Some i"
    using assms(1,2) by (auto simp: lock_ok_def moves_def)
  show ?thesis
    unfolding lock_ok_def moves_length [OF assms(2)]
    using assms(1,3,4) i old by (auto simp: lock_ok_def moves_nth [OF assms(2)] split: if_splits)
qed

lemma lock_ok_holder: "lock_ok c \<Longrightarrow> in_phase c i ph \<Longrightarrow> holds_lock ph \<Longrightarrow> lock_acquire_memory c = Some i"
  by (auto simp: lock_ok_def)

text \<open>Everything a step of one request does to the shared state, apart from the pipe.\<close>

definition effect :: "'t cache \<Rightarrow> nat \<Rightarrow> phase \<Rightarrow> phase \<Rightarrow> 't cache \<Rightarrow> bool" where
  "effect c i old ph c' \<longleftrightarrow>
     moves c i old ph c' \<and> max_size_bytes c' = max_size_bytes c \<and>
     current_size c' = current_size c + word_of_int
       ((if live ph then at_size (tasks c ! i) else 0) - (if live old then at_size (tasks c ! i) else 0)) \<and>
     enqueued_size c' = enqueued_size c + word_of_int
       ((if waiting ph then at_size (tasks c ! i) else 0) - (if waiting old then at_size (tasks c ! i) else 0)) \<and>
     lock_acquire_memory c' = (if holds_lock ph then Some i else if holds_lock old then None else lock_acquire_memory c) \<and>
     (holds_lock ph \<longrightarrow> holds_lock old \<or> lock_acquire_memory c = None) \<and>
     memory_freed_event c' = (if old = Freed then True else if old = Woken then False else memory_freed_event c) \<and>
     (ph = Sleeping \<longrightarrow> no_room i c) \<and> (ph = Admitted \<longrightarrow> \<not> no_room i c) \<and> (live old \<longrightarrow> ph = Freed) \<and>
     (live ph \<longrightarrow> old = Dequeued) \<and> (ph = Dequeued \<longrightarrow> old = Admitted) \<and>
     (\<not> live ph \<and> \<not> live old \<longrightarrow> pipe c' = pipe c \<and> handle_counter c' = handle_counter c \<and>
        allocated_tensors c' = allocated_tensors c \<and> committed ph = committed old)"

lemmas effect_defs = op_defs effect_def moves_def

lemma effects:
  assumes "lock_ok c"
  shows "in_phase c i Enqueued \<Longrightarrow> \<exists>ph. effect c i Enqueued ph (check_immediate i c)"
    and "in_phase c i Checked \<Longrightarrow> effect c i Checked Failed (fail i c)"
    and "in_phase c i Checked \<Longrightarrow> lock_acquire_memory c = None \<Longrightarrow> effect c i Checked Locked (acquire i c)"
    and "in_phase c i Locked \<Longrightarrow> \<exists>ph. effect c i Locked ph (check_locked i c)"
    and "in_phase c i Polling \<Longrightarrow> \<exists>ph. effect c i Polling ph (poll_room i c)"
    and "in_phase c i Sleeping \<Longrightarrow> effect c i Sleeping Woken (set_phase i Woken c)"
    and "in_phase c i Sleeping \<Longrightarrow> effect c i Sleeping Failed (release (fail i c))"
    and "in_phase c i Woken \<Longrightarrow> effect c i Woken Polling (clear_event i c)"
    and "in_phase c i Admitted \<Longrightarrow> effect c i Admitted Dequeued (dequeue i c)"
    and "in_phase c i Dequeued \<Longrightarrow> effect c i Dequeued (Live (new_handles (length (at_descrs (tasks c ! i))) c)) (commit i c)"
    and "in_phase c i (Live hs) \<Longrightarrow> effect c i (Live hs) Freed (free i hs c)"
    and "in_phase c i Freed \<Longrightarrow> effect c i Freed Closed (signal i c)"
proof -
  assume p: "in_phase c i Enqueued"
  then show "\<exists>ph. effect c i Enqueued ph (check_immediate i c)"
    by (intro exI [of _ "if at_timeout (tasks c ! i) = Some (Fin 0) \<and>
         current_size_bytes c + enqueued_size_bytes c > max_size_bytes c then Failed else Checked"])
      (simp add: effect_defs)
next
  assume p: "in_phase c i Locked"
  with lock_ok_holder [OF assms] show "\<exists>ph. effect c i Locked ph (check_locked i c)"
    by (intro exI [of _ "if no_room i c then if at_timeout (tasks c ! i) = Some (Fin 0) \<or> at_size (tasks c ! i) > max_size_bytes c
        then Failed else Polling else Admitted"]) (simp add: effect_defs)
next
  assume p: "in_phase c i Polling"
  with lock_ok_holder [OF assms] show "\<exists>ph. effect c i Polling ph (poll_room i c)"
    by (intro exI [of _ "if no_room i c then Sleeping else Admitted"]) (simp add: effect_defs)
qed (use lock_ok_holder [OF assms] in \<open>simp_all add: effect_defs\<close>)

text \<open>Every step is a new request, a step of one request, or a step of the runtime.\<close>

lemma step_cases:
  assumes "cache_step mz c c'" and "lock_ok c"
  obtains (request) alloc_size descrs timeout where "0 \<le> alloc_size" "c' = enqueue alloc_size descrs timeout c"
  | (effect) i old ph where "effect c i old ph c'"
  | (runtime) ts ms where "c' = c\<lparr>allocated_tensors := ts, pipe := ms\<rparr>"
  using assms(1)
proof (cases rule: cache_step.cases)
  case (overwrite h old new)
  then show ?thesis using runtime [where ts = "dict_set h new (allocated_tensors c)" and ms = "pipe c"] by simp
qed (metis effects [OF assms(2)] request effect runtime)+

lemma counters_step:
  assumes "cache_step mz c c'" "lock_ok c" "counters_ok c"
  shows "counters_ok c'"
  using assms(1,2)
proof (cases rule: step_cases)
  case (request alloc_size descrs timeout)
  with assms(3) show ?thesis
    by (auto simp: counters_ok_def total_live_def total_waiting_def enqueue_def bytes_if_def)
next
  case (effect i old ph)
  with assms(3) show ?thesis unfolding effect_def by (blast intro: counters_move)
next
  case (runtime ts ms)
  with assms(3) show ?thesis by (simp add: counters_ok_def total_live_def total_waiting_def)
qed

lemma lock_step:
  assumes "cache_step mz c c'" "lock_ok c"
  shows "lock_ok c'"
  using assms
proof (cases rule: step_cases)
  case (request alloc_size descrs timeout)
  with assms(2) show ?thesis by (auto simp: lock_ok_def enqueue_def nth_append less_Suc_eq)
next
  case (effect i old ph)
  with assms(2) show ?thesis unfolding effect_def by (blast intro: lock_move)
next
  case (runtime ts ms)
  with assms(2) show ?thesis by (simp add: lock_ok_def)
qed

lemma holder_unique: "lock_ok c \<Longrightarrow> in_phase c i ph \<Longrightarrow> in_phase c j ph' \<Longrightarrow> holds_lock ph \<Longrightarrow> holds_lock ph' \<Longrightarrow> i = j"
  by (auto simp: lock_ok_def)

lemma sint_word_of_int_le: "0 \<le> n \<Longrightarrow> sint (word_of_int n :: 64 word) \<le> n"
proof (cases "n < 2 ^ 63")
  case True
  then show "0 \<le> n \<Longrightarrow> ?thesis" by (simp add: sint_sbintrunc' signed_take_bit_int_eq_self)
next
  case False
  then show ?thesis using signed_take_bit_int_less_exp [of 63 n] by (simp add: sint_sbintrunc')
qed

subsection \<open>Waiting for memory\<close>

lemma total_live_move:
  assumes "moves c i old ph c'"
  shows "total_live c' = total_live c + ((if live ph then at_size (tasks c ! i) else 0) - (if live old then at_size (tasks c ! i) else 0))"
  unfolding total_live_def by (rule moves_total [OF assms])

lemma total_live_nonneg: "counters_ok c \<Longrightarrow> 0 \<le> total_live c"
  unfolding total_live_def by (intro sum_list_nonneg) (auto simp: counters_ok_def bytes_if_def)

lemma no_room_total:
  assumes "counters_ok c" "no_room i c"
  shows "max_size_bytes c < total_live c + at_size (tasks c ! i)"
  using assms sint_word_of_int_le [OF total_live_nonneg [OF assms(1)]]
  by (simp add: counters_ok_def no_room_def current_size_bytes_def)

lemma effectD:
  assumes "effect c i old ph c'"
  shows "moves c i old ph c'" "max_size_bytes c' = max_size_bytes c"
    "memory_freed_event c' = (if old = Freed then True else if old = Woken then False else memory_freed_event c)"
    "ph = Sleeping \<Longrightarrow> no_room i c" "ph = Admitted \<Longrightarrow> \<not> no_room i c" "live old \<Longrightarrow> ph = Freed"
    "live ph \<Longrightarrow> old = Dequeued" "ph = Dequeued \<Longrightarrow> old = Admitted" "in_phase c i old" "in_phase c' i ph"
proof -
  show mv: "moves c i old ph c'" using assms unfolding effect_def by blast
  then show "in_phase c i old" "in_phase c' i ph" by (simp_all add: moves_def)
qed (use assms [unfolded effect_def] in blast)+

lemma wake_effect:
  assumes eff: "effect c i old ph c'" and ok: "lock_ok c" "counters_ok c" "wake_ok c"
  shows "wake_ok c'"
  unfolding wake_ok_def
proof (intro allI impI)
  fix k assume k: "in_phase c' k Sleeping \<and> \<not> memory_freed_event c'"
  note E = effectD [OF eff]
  note mv = E(1) and size = moves_size [OF E(1)]
  have sz: "0 \<le> at_size (tasks c ! i)" using ok(2) E(9) by (simp add: counters_ok_def)
  show "max_size_bytes c' < total_live c' + at_size (tasks c' ! k) \<or> (\<exists>j. in_phase c' j Freed)"
  proof (cases "k = i")
    case True
    then have "ph = Sleeping" using k E(10) by simp
    then show ?thesis
      using no_room_total [OF ok(2) E(4)] E(2,6) True by (auto simp: total_live_move [OF mv] size)
  next
    case False
    then have ck: "in_phase c k Sleeping" using k moves_nth [OF mv, of k] moves_length [OF mv] by auto
    have "old \<noteq> Woken" using False holder_unique [OF ok(1) E(9) ck] by auto
    moreover have "old \<noteq> Freed" using E(3) k by auto
    ultimately have "\<not> memory_freed_event c" using E(3) k by simp
    with ok(3) ck consider "max_size_bytes c < total_live c + at_size (tasks c ! k)" | j where "in_phase c j Freed"
      unfolding wake_ok_def by blast
    then show ?thesis
    proof cases
      case 1
      show ?thesis
      proof (cases "live old")
        case True
        then show ?thesis using E(6,10) by blast
      next
        case False
        then show ?thesis using 1 E(2) sz by (simp add: total_live_move [OF mv] size)
      qed
    next
      case 2
      then have "j \<noteq> i" using E(9) \<open>old \<noteq> Freed\<close> by auto
      with 2 have "in_phase c' j Freed" using moves_nth [OF mv, of j] moves_length [OF mv] by auto
      then show ?thesis by blast
    qed
  qed
qed

lemma wake_step:
  assumes "cache_step mz c c'" "lock_ok c" "counters_ok c" "wake_ok c"
  shows "wake_ok c'"
  using assms(1,2)
proof (cases rule: step_cases)
  case (request alloc_size descrs timeout)
  have "in_phase c k Sleeping \<and> at_size (tasks c' ! k) = at_size (tasks c ! k)" if "in_phase c' k Sleeping" for k
    using that request by (auto simp: enqueue_def nth_append less_Suc_eq split: if_splits)
  moreover have "total_live c' = total_live c" using request by (simp add: total_live_def enqueue_def bytes_if_def)
  moreover have "in_phase c' j Freed" if "in_phase c j Freed" for j
    using that request by (auto simp: enqueue_def nth_append)
  moreover have "memory_freed_event c' = memory_freed_event c" "max_size_bytes c' = max_size_bytes c"
    using request by (simp_all add: enqueue_def)
  ultimately show ?thesis using assms(4) unfolding wake_ok_def by metis
next
  case (effect i old ph)
  then show ?thesis using assms by (blast intro: wake_effect)
next
  case (runtime ts ms)
  with assms(4) show ?thesis by (simp add: wake_ok_def total_live_def)
qed

subsection \<open>The memory limit\<close>

fun admitted :: "phase \<Rightarrow> bool" where
  "admitted Admitted = True"
| "admitted Dequeued = True"
| "admitted _ = False"

text \<open>At most one request is between its admission and its commit.\<close>

definition one_in_flight :: "'t cache \<Rightarrow> bool" where
  "one_in_flight c \<longleftrightarrow> (\<forall>i j. i < length (tasks c) \<and> j < length (tasks c) \<and>
     admitted (at_phase (tasks c ! i)) \<and> admitted (at_phase (tasks c ! j)) \<longrightarrow> i = j)"

definition serial_step :: "(tensor_descr \<Rightarrow> 't) \<Rightarrow> 't cache \<Rightarrow> 't cache \<Rightarrow> bool" where
  "serial_step mz c c' \<longleftrightarrow> cache_step mz c c' \<and> one_in_flight c'"

definition total_admitted :: "'t cache \<Rightarrow> int" where
  "total_admitted c = sum_list (map (bytes_if admitted) (tasks c))"

definition within_limit :: "'t cache \<Rightarrow> bool" where
  "within_limit c \<longleftrightarrow> total_live c + total_admitted c \<le> max_size_bytes c"

lemma total_admitted_nonneg: "counters_ok c \<Longrightarrow> 0 \<le> total_admitted c"
  unfolding total_admitted_def by (intro sum_list_nonneg) (auto simp: counters_ok_def bytes_if_def)

lemma room_total:
  assumes "counters_ok c" "\<not> no_room i c" "total_live c < 2 ^ 63"
  shows "total_live c + at_size (tasks c ! i) \<le> max_size_bytes c"
proof -
  have "sint (word_of_int (total_live c) :: 64 word) = total_live c"
    using assms(3) total_live_nonneg [OF assms(1)]
    by (simp add: sint_sbintrunc' signed_take_bit_int_eq_self)
  with assms show ?thesis by (simp add: counters_ok_def no_room_def current_size_bytes_def)
qed

lemma limit_effect:
  assumes eff: "effect c i old ph c'" and one: "one_in_flight c'" and ok: "counters_ok c" "within_limit c"
    and max: "max_size_bytes c < 2 ^ 63"
  shows "within_limit c'"
proof -
  note E = effectD [OF eff]
  note mv = E(1)
  have sz: "0 \<le> at_size (tasks c ! i)" using ok(1) E(9) by (simp add: counters_ok_def)
  have adm: "total_admitted c' = total_admitted c +
      ((if admitted ph then at_size (tasks c ! i) else 0) - (if admitted old then at_size (tasks c ! i) else 0))"
    unfolding total_admitted_def by (rule moves_total [OF mv])
  show ?thesis
  proof (cases "admitted ph \<and> \<not> admitted old")
    case True
    then have ph: "ph = Admitted" using E(8) by (cases ph) auto
    have none: "\<not> admitted (at_phase (tasks c ! j))" if "j < length (tasks c)" for j
    proof (cases "j = i")
      case True
      then show ?thesis using E(9) \<open>admitted ph \<and> \<not> admitted old\<close> by simp
    next
      case False
      then show ?thesis
        using that one [unfolded one_in_flight_def, rule_format, of i j] E(10) ph moves_nth [OF mv, of j] moves_length [OF mv]
        by auto
    qed
    have "total_admitted c = 0"
    proof -
      have "map (bytes_if admitted) (tasks c) = map (\<lambda>_. 0) (tasks c)"
        using none by (auto simp: bytes_if_def in_set_conv_nth)
      then show ?thesis unfolding total_admitted_def by (simp only: sum_list_0)
    qed
    moreover have "total_live c < 2 ^ 63"
      using ok max total_admitted_nonneg [OF ok(1)] by (simp add: within_limit_def)
    ultimately show ?thesis
      using room_total [OF ok(1) E(5)] ph True E(2,6)
      by (auto simp: within_limit_def adm total_live_move [OF mv])
  next
    case False
    moreover have "live ph \<longrightarrow> admitted old" using E(7) by auto
    moreover have "live ph \<longrightarrow> \<not> admitted ph" by (cases ph) auto
    moreover have "live old \<longrightarrow> \<not> admitted old" by (cases old) auto
    ultimately show ?thesis
      using ok(2) sz E(2) by (auto simp: within_limit_def adm total_live_move [OF mv])
  qed
qed

lemma max_size_step:
  assumes "cache_step mz c c'" "lock_ok c"
  shows "max_size_bytes c' = max_size_bytes c"
  using assms
proof (cases rule: step_cases)
  case (effect i old ph)
  then show ?thesis by (rule effectD(2))
qed (simp_all add: enqueue_def)

lemma limit_step:
  assumes "serial_step mz c c'" "lock_ok c" "counters_ok c" "within_limit c" "max_size_bytes c < 2 ^ 63"
  shows "within_limit c' \<and> max_size_bytes c' = max_size_bytes c"
proof -
  have st: "cache_step mz c c'" "one_in_flight c'" using assms(1) by (auto simp: serial_step_def)
  from st(1) assms(2) show ?thesis
  proof (cases rule: step_cases)
    case (request alloc_size descrs timeout)
    with assms(4) show ?thesis
      by (simp add: within_limit_def total_live_def total_admitted_def enqueue_def bytes_if_def)
  next
    case (effect i old ph)
    then show ?thesis using limit_effect [OF effect st(2) assms(3-5)] effectD(2) by blast
  next
    case (runtime ts ms)
    with assms(4) show ?thesis by (simp add: within_limit_def total_live_def total_admitted_def)
  qed
qed

subsection \<open>Handles\<close>

definition issued :: "'t cache \<Rightarrow> int" where
  "issued c = sum_list (map (\<lambda>t. if committed (at_phase t) then int (length (at_descrs t)) else 0) (tasks c))"

definition live_handles :: "'t cache \<Rightarrow> int set" where
  "live_handles c = {h. \<exists>i hs. in_phase c i (Live hs) \<and> h \<in> set hs}"

text \<open>What a message does to the set of known handles.\<close>

fun recv_keys :: "message \<Rightarrow> int set \<Rightarrow> int set" where
  "recv_keys (hs, Some _) K = K \<union> set hs"
| "recv_keys (hs, None) K = K - set hs"

fun wf_message :: "message \<Rightarrow> bool" where
  "wf_message (hs, Some ds) = (length hs = length ds)"
| "wf_message (hs, None) = True"

definition pipe_ok :: "'t cache \<Rightarrow> bool" where
  "pipe_ok c \<longleftrightarrow> (\<forall>m \<in> set (pipe c). wf_message m)"

definition handles_ok :: "'t cache \<Rightarrow> bool" where
  "handles_ok c \<longleftrightarrow>
     handle_counter c = word_of_int (issued c) \<and>
     (issued c < 2 ^ 63 \<longrightarrow>
        (\<forall>i hs. in_phase c i (Live hs) \<longrightarrow> set hs \<subseteq> {0..<issued c}) \<and>
        (\<forall>i j hs hs'. in_phase c i (Live hs) \<and> in_phase c j (Live hs') \<and> i \<noteq> j \<longrightarrow> set hs \<inter> set hs' = {}) \<and>
        fold recv_keys (pipe c) (fst ` set (allocated_tensors c)) = live_handles c)"

lemma keys_create:
  "length hs = length ds \<Longrightarrow> fst ` set (create_tensors mz hs ds ts) = fst ` set ts \<union> set hs"
  unfolding create_tensors_def
  by (induction hs ds arbitrary: ts rule: list_induct2) (auto simp: keys_dict_set)

lemma keys_delete: "fst ` set (delete_tensors hs ts) = fst ` set ts - set hs"
  unfolding delete_tensors_def
  by (induction hs arbitrary: ts) (simp, simp add: keys_dict_pop Diff_insert2 [symmetric] Diff_insert [symmetric])

lemma recv_ok:
  "wf_message m \<Longrightarrow> \<exists>ts'. recv mz m ts = Inr ts' \<and> fst ` set ts' = recv_keys m (fst ` set ts)"
  by (cases m rule: wf_message.cases) (auto simp: recv_def keys_create keys_delete)

lemma drain_ok:
  "\<forall>m \<in> set ms. wf_message m \<Longrightarrow>
   \<exists>ts'. foldR (recv mz) ms ts = Inr ts' \<and> fst ` set ts' = fold recv_keys ms (fst ` set ts)"
proof (induction ms arbitrary: ts)
  case (Cons m ms)
  obtain t where t: "recv mz m ts = Inr t" "fst ` set t = recv_keys m (fst ` set ts)"
    using recv_ok [of m mz ts] Cons.prems by auto
  obtain t' where "foldR (recv mz) ms t = Inr t'" "fst ` set t' = fold recv_keys ms (fst ` set t)"
    using Cons.IH [of t] Cons.prems by auto
  with t show ?case by (intro exI [of _ t']) (simp del: recv_keys.simps)
qed simp

lemma moves_issued:
  assumes "moves c i old ph c'"
  shows "issued c' = issued c + ((if committed ph then int (length (at_descrs (tasks c ! i))) else 0)
    - (if committed old then int (length (at_descrs (tasks c ! i))) else 0))"
  using assms by (simp add: moves_def issued_def sum_list_map_update)

lemma in_phase_moves:
  assumes "moves c i old ph c'"
  shows "in_phase c' j p \<longleftrightarrow> (if j = i then p = ph else in_phase c j p)"
  using assms moves_nth [OF assms, of j] moves_length [OF assms] by (auto simp: moves_def)

lemma issued_nonneg: "0 \<le> issued c"
  unfolding issued_def by (intro sum_list_nonneg) auto

lemma handles_keep:
  assumes "handles_ok c" and mv: "moves c i old ph c'" and "\<not> live ph" "\<not> live old" "committed ph = committed old"
    "pipe c' = pipe c" "handle_counter c' = handle_counter c" "allocated_tensors c' = allocated_tensors c"
  shows "handles_ok c'"
proof -
  have same: "in_phase c' j (Live hs) \<longleftrightarrow> in_phase c j (Live hs)" for j hs
    using assms(3,4) mv in_phase_moves [OF mv, of j "Live hs"] by (auto simp: moves_def)
  then have "live_handles c' = live_handles c" by (simp only: live_handles_def)
  moreover have "issued c' = issued c" using assms(5) by (simp add: moves_issued [OF mv])
  ultimately show ?thesis using assms(1,6-8) unfolding handles_ok_def same by simp
qed

lemma sint_counter: "handle_counter c = word_of_int n \<Longrightarrow> 0 \<le> n \<Longrightarrow> n < 2 ^ 63 \<Longrightarrow> sint (handle_counter c) = n"
  by (simp add: sint_sbintrunc' signed_take_bit_int_eq_self)

lemma set_new_handles: "set (new_handles k c) = {sint (handle_counter c)..<sint (handle_counter c) + int k}"
proof -
  have "(\<lambda>j. s + int j) ` {0..<k} = {s..<s + int k}" for s :: int
    by (auto simp: image_iff intro!: bexI [of _ "nat (_ - s)"])
  then show ?thesis by (simp add: new_handles_def atLeast0LessThan)
qed

lemma handles_commit:
  assumes ok: "handles_ok c" and i: "in_phase c i Dequeued"
  shows "handles_ok (commit i c)"
proof -
  let ?k = "length (at_descrs (tasks c ! i))" and ?c = "commit i c"
  let ?hs = "new_handles ?k c"
  have mv: "moves c i Dequeued (Live ?hs) ?c" using i by (simp add: moves_def commit_def Let_def)
  have iss: "issued ?c = issued c + int ?k" by (simp add: moves_issued [OF mv])
  have len: "length ?hs = ?k" by (simp add: new_handles_def)
  have "handle_counter ?c = handle_counter c + word_of_nat ?k" by (simp add: commit_def Let_def len)
  then have cnt: "handle_counter ?c = word_of_int (issued ?c)"
    using ok unfolding iss handles_ok_def by simp
  have phases: "in_phase ?c j (Live hs) \<longleftrightarrow> (if j = i then hs = ?hs else in_phase c j (Live hs))" for j hs
    using in_phase_moves [OF mv, of j "Live hs"] by auto
  have "live_handles ?c = live_handles c \<union> set ?hs"
  proof -
    have "in_phase ?c j (Live hs) \<longleftrightarrow> j = i \<and> hs = ?hs \<or> in_phase c j (Live hs)" for j hs
      using phases [of j hs] i by auto
    then show ?thesis unfolding live_handles_def by auto
  qed
  note live = this
  have pipe: "pipe ?c = pipe c @ [(?hs, Some (at_descrs (tasks c ! i)))]" "allocated_tensors ?c = allocated_tensors c"
    by (simp_all add: commit_def Let_def)
  show ?thesis
    unfolding handles_ok_def
  proof (intro conjI impI cnt)
    assume small: "issued ?c < 2 ^ 63"
    then have old: "issued c < 2 ^ 63" by (simp add: iss)
    note O = ok [unfolded handles_ok_def, THEN conjunct2, rule_format, OF old]
    have new: "set ?hs = {issued c..<issued ?c}"
      using ok sint_counter [of c "issued c"] issued_nonneg [of c] old by (simp add: set_new_handles handles_ok_def iss)
    show "\<forall>j hs. in_phase ?c j (Live hs) \<longrightarrow> set hs \<subseteq> {0..<issued ?c}"
      unfolding phases using O new issued_nonneg [of c] iss by (fastforce split: if_splits)
    have "set hs \<inter> set ?hs = {}" if "in_phase c j (Live hs)" for j hs
      using O that new by fastforce
    then show "\<forall>j k hs hs'. in_phase ?c j (Live hs) \<and> in_phase ?c k (Live hs') \<and> j \<noteq> k \<longrightarrow> set hs \<inter> set hs' = {}"
      unfolding phases using O by (metis inf_commute)
    show "fold recv_keys (pipe ?c) (fst ` set (allocated_tensors ?c)) = live_handles ?c"
      using O live pipe by simp
  qed
qed

lemma handles_free:
  assumes ok: "handles_ok c" and i: "in_phase c i (Live hs)"
  shows "handles_ok (free i hs c)"
proof -
  let ?c = "free i hs c"
  have mv: "moves c i (Live hs) Freed ?c" using i by (simp add: moves_def free_def)
  have iss: "issued ?c = issued c" by (simp add: moves_issued [OF mv])
  have phases: "in_phase ?c j (Live hs') \<longleftrightarrow> j \<noteq> i \<and> in_phase c j (Live hs')" for j hs'
    using in_phase_moves [OF mv, of j "Live hs'"] by auto
  have "live_handles ?c = live_handles c - set hs" if "issued c < 2 ^ 63"
  proof -
    have "set hs' \<inter> set hs = {}" if "in_phase c j (Live hs')" "j \<noteq> i" for j hs'
      using ok that i \<open>issued c < 2 ^ 63\<close> unfolding handles_ok_def by blast
    with i show ?thesis unfolding live_handles_def phases by (auto, metis phase.inject)
  qed
  moreover have "pipe ?c = pipe c @ [(hs, None)]" "allocated_tensors ?c = allocated_tensors c" "handle_counter ?c = handle_counter c"
    by (simp_all add: free_def)
  ultimately show ?thesis
    using ok unfolding handles_ok_def phases iss by (simp; blast)
qed

lemma handles_step:
  assumes st: "cache_step mz c c'" and ok: "lock_ok c" "pipe_ok c" "handles_ok c"
  shows "handles_ok c'"
proof -
  have keep: "handles_ok c'" if "effect c i old ph c'" "\<not> live ph" "\<not> live old" for i old ph
    using handles_keep [OF ok(3) effectD(1) [OF that(1)] that(2,3)] that unfolding effect_def by blast
  from st show ?thesis
  proof (cases rule: cache_step.cases)
    case (request alloc_size descrs timeout)
    then have "in_phase c' j (Live hs) \<longleftrightarrow> in_phase c j (Live hs)" for j hs
      by (auto simp: enqueue_def nth_append less_Suc_eq split: if_splits)
    moreover from request have "issued c' = issued c" by (simp add: issued_def enqueue_def)
    moreover from request have "pipe c' = pipe c" "handle_counter c' = handle_counter c" "allocated_tensors c' = allocated_tensors c"
      by (simp_all add: enqueue_def)
    ultimately show ?thesis using ok(3) by (simp add: handles_ok_def live_handles_def)
  next
    case (immediate i)
    then obtain ph where eff: "effect c i Enqueued ph c'" using effects(1) [OF ok(1)] by blast
    from effectD(7) [OF eff] show ?thesis by (auto intro: keep [OF eff])
  next
    case (check i)
    then obtain ph where eff: "effect c i Locked ph c'" using effects(4) [OF ok(1)] by blast
    from effectD(7) [OF eff] show ?thesis by (auto intro: keep [OF eff])
  next
    case (poll i)
    then obtain ph where eff: "effect c i Polling ph c'" using effects(5) [OF ok(1)] by blast
    from effectD(7) [OF eff] show ?thesis by (auto intro: keep [OF eff])
  next
    case (committed i)
    then show ?thesis using handles_commit [OF ok(3)] by blast
  next
    case (freed i handles)
    then show ?thesis using handles_free [OF ok(3)] by blast
  next
    case (receive m ms ts)
    obtain ts' where "recv mz m (allocated_tensors c) = Inr ts'" "fst ` set ts' = recv_keys m (fst ` set (allocated_tensors c))"
      using ok(2) receive(2) recv_ok [of m mz "allocated_tensors c"] by (auto simp: pipe_ok_def)
    with receive ok(3) show ?thesis
      by (simp add: handles_ok_def live_handles_def issued_def del: recv_keys.simps)
  next
    case (overwrite h old new)
    then have "fst ` set (dict_set h new (allocated_tensors c)) = fst ` set (allocated_tensors c)"
      by (auto simp: keys_dict_set dest: dict_get_key)
    with overwrite ok(3) show ?thesis by (simp add: handles_ok_def live_handles_def issued_def)
  next
    case (give_up i)
    then show ?thesis using keep effects(2) [OF ok(1), of i] by simp
  next
    case (lock i)
    then show ?thesis using keep effects(3) [OF ok(1), of i] by simp
  next
    case (wake i)
    then show ?thesis using keep effects(6) [OF ok(1), of i] by simp
  next
    case (wait_fails i)
    then show ?thesis using keep effects(7) [OF ok(1), of i] by simp
  next
    case (clear i)
    then show ?thesis using keep effects(8) [OF ok(1), of i] by simp
  next
    case (leave i)
    then show ?thesis using keep effects(9) [OF ok(1), of i] by simp
  next
    case (signalled i)
    then show ?thesis using keep effects(12) [OF ok(1), of i] by simp
  qed
qed

lemma pipe_step:
  assumes "cache_step mz c c'" "pipe_ok c"
  shows "pipe_ok c'"
  using assms by (induction rule: cache_step.induct) (auto simp: pipe_ok_def op_defs new_handles_def)

subsection \<open>The invariant\<close>

definition cache_inv :: "'t cache \<Rightarrow> bool" where
  "cache_inv c \<longleftrightarrow> lock_ok c \<and> counters_ok c \<and> wake_ok c \<and> pipe_ok c \<and> handles_ok c"

definition initial_cache :: "'t cache \<Rightarrow> bool" where
  "initial_cache c \<longleftrightarrow> (\<exists>m. c = new_cache m)"

lemma initial_cache_inv: "initial_cache c \<Longrightarrow> cache_inv c"
  by (auto simp: initial_cache_def new_cache_def cache_inv_def lock_ok_def counters_ok_def wake_ok_def pipe_ok_def
      handles_ok_def total_live_def total_waiting_def issued_def live_handles_def)

lemma cache_inv_step: "cache_inv c \<Longrightarrow> cache_step mz c c' \<Longrightarrow> cache_inv c'"
  unfolding cache_inv_def by (blast intro: lock_step counters_step wake_step pipe_step handles_step)

interpretation cache: invariant_system initial_cache "cache_step mz" cache_inv for mz
  by unfold_locales (auto intro: initial_cache_inv cache_inv_step)

definition limit_inv :: "int \<Rightarrow> 't cache \<Rightarrow> bool" where
  "limit_inv m c \<longleftrightarrow> cache_inv c \<and> max_size_bytes c = m \<and> (0 \<le> m \<and> m < 2 ^ 63 \<longrightarrow> within_limit c)"

lemma initial_limit:
  assumes "c = new_cache (Some m)"
  shows "limit_inv m c"
proof -
  have "cache_inv c" using assms by (intro initial_cache_inv) (auto simp: initial_cache_def)
  with assms show ?thesis
    by (simp add: limit_inv_def within_limit_def total_live_def total_admitted_def new_cache_def)
qed

lemma limit_inv_step:
  assumes "limit_inv m c" "serial_step mz c c'"
  shows "limit_inv m c'"
proof -
  have "cache_inv c'" "max_size_bytes c' = max_size_bytes c"
    using assms cache_inv_step [of c mz c'] max_size_step [of mz c c']
    by (auto simp: limit_inv_def serial_step_def cache_inv_def)
  with assms show ?thesis
    using limit_step [of mz c c'] by (auto simp: limit_inv_def cache_inv_def)
qed

interpretation serial_cache: invariant_system "\<lambda>c. c = new_cache (Some m)" "serial_step mz" "limit_inv m" for m mz
  by unfold_locales (auto intro: initial_limit limit_inv_step)

lemma reachable_cache: "(cache_step mz)\<^sup>*\<^sup>* (new_cache m) c \<Longrightarrow> cache_inv c"
  by (rule cache.reachable_inv) (auto simp: initial_cache_def)

lemma live_handles_inv:
  "handles_ok c \<Longrightarrow> issued c < 2 ^ 63 \<Longrightarrow> in_phase c i (Live hs) \<Longrightarrow>
   set hs \<subseteq> fold recv_keys (pipe c) (fst ` set (allocated_tensors c))"
  by (auto simp: handles_ok_def live_handles_def)

subsection \<open>Properties\<close>

text \<open>C7. Accounting: whatever the interleaving of requests, frees and the runtime, the shared counters
  are, as 64-bit integers, exactly the number of bytes of the live allocations and of the requests
  that still wait, and at most one process is inside the memory lock.\<close>

theorem cache_accounting:
  assumes "(cache_step mz)\<^sup>*\<^sup>* (new_cache m) c"
  shows "current_size c = word_of_int (total_live c) \<and> enqueued_size c = word_of_int (total_waiting c) \<and>
    (\<forall>i j. i < length (tasks c) \<and> j < length (tasks c) \<and> holds_lock (at_phase (tasks c ! i)) \<and>
       holds_lock (at_phase (tasks c ! j)) \<longrightarrow> i = j)"
  using reachable_cache [OF assms] by (auto simp: cache_inv_def counters_ok_def lock_ok_def)

definition sample_descr :: tensor_descr where
  "sample_descr = \<lparr>td_shape = [2, 5], td_dtype = \<lparr>dt_name = ''qint8'', dt_floating = False, dt_complex = False\<rparr>,
     td_device = Some ''cpu''\<rparr>"

text \<open>Two requests of 10 bytes each against a cache of 10 bytes: both are admitted before either is
  committed.\<close>

definition race_ops :: "('t cache \<Rightarrow> 't cache) list" where
  "race_ops = [enqueue 10 [sample_descr] (Some (Fin 1)), enqueue 10 [sample_descr] (Some (Fin 1)),
     check_immediate 0, check_immediate 1, acquire 0, check_locked 0, acquire 1, check_locked 1,
     dequeue 0, dequeue 1, commit 0, commit 1]"

primrec race_state :: "nat \<Rightarrow> 't cache" where
  "race_state 0 = new_cache (Some 10)"
| "race_state (Suc k) = (race_ops ! k) (race_state k)"

lemmas race_defs = race_ops_def new_cache_def op_defs no_room_def current_size_bytes_def set_phase_def
  eval_nat_numeral

lemma race_phases:
  "in_phase (race_state 2) 0 Enqueued" "in_phase (race_state 3) 1 Enqueued"
  "in_phase (race_state 4) 0 Checked" "lock_acquire_memory (race_state 4) = None"
  "in_phase (race_state 5) 0 Locked" "in_phase (race_state 6) 1 Checked" "lock_acquire_memory (race_state 6) = None"
  "in_phase (race_state 7) 1 Locked" "in_phase (race_state 8) 0 Admitted" "in_phase (race_state 9) 1 Admitted"
  "in_phase (race_state 10) 0 Dequeued" "in_phase (race_state 11) 1 Dequeued"
  by (simp_all add: race_defs)

lemma race_tasks:
  "tasks (race_state 2) \<noteq> []" "tasks (race_state 4) \<noteq> []" "tasks (race_state 5) \<noteq> []" "tasks (race_state 8) \<noteq> []" "tasks (race_state 10) \<noteq> []"
  by (simp_all add: race_defs)

lemma race_steps: "k < 12 \<Longrightarrow> cache_step mz (race_state k) (race_state (Suc k))"
proof -
  assume "k < 12"
  then have "k \<in> {0, 1, 2, 3, 4, 5, 6, 7, 8, 9, 10, 11}" by (simp add: numeral_eq_Suc less_Suc_eq)
  then show ?thesis
    by (auto simp: race_ops_def race_phases race_tasks simp del: One_nat_def intro!: cache_step.intros)
qed

lemma race_reachable: "k \<le> 12 \<Longrightarrow> (cache_step mz)\<^sup>*\<^sup>* (new_cache (Some 10)) (race_state k)"
proof (induction k)
  case (Suc k)
  with race_steps [of k mz] show ?case by (auto intro: rtranclp.rtrancl_into_rtrancl simp del: race_state.simps(2))
qed simp

theorem cache_accounting_witness:
  "current_size (race_state 12 :: nat cache) = word_of_int (total_live (race_state 12 :: nat cache)) \<and>
   enqueued_size (race_state 12 :: nat cache) = 0"
  using cache_accounting [OF race_reachable [of 12], where ?'a = nat]
  by (simp add: total_waiting_def bytes_if_def race_defs)

text \<open>A live allocation can always be used: as long as fewer than \<open>2 ^ 63\<close> handles were issued, two
  allocations that live at the same time never share a handle, and the runtime, after reading all
  pending messages, finds a tensor for every handle of a live allocation; the tensors it then holds
  are exactly those of the live allocations.\<close>

theorem live_handles_found:
  assumes "(cache_step mz)\<^sup>*\<^sup>* (new_cache m) c" and "issued c < 2 ^ 63" and "in_phase c i (Live hs)"
  shows "\<exists>c' tensors. use_cache mz pid pid hs c = Inr (c', tensors) \<and> length tensors = length hs \<and>
    pipe c' = [] \<and> fst ` set (allocated_tensors c') = live_handles c \<and>
    (\<forall>j hs'. in_phase c j (Live hs') \<and> j \<noteq> i \<longrightarrow> set hs \<inter> set hs' = {})"
proof -
  have inv: "pipe_ok c" "handles_ok c" using reachable_cache [OF assms(1)] by (auto simp: cache_inv_def)
  obtain ts where ts: "foldR (recv mz) (pipe c) (allocated_tensors c) = Inr ts"
    "fst ` set ts = fold recv_keys (pipe c) (fst ` set (allocated_tensors c))"
    using drain_ok inv(1) by (metis pipe_ok_def)
  have "\<exists>v. dict_get ts h = Some v" if "h \<in> set hs" for h
    using live_handles_inv [OF inv(2) assms(2,3)] ts(2) that by (metis map_of_eq_None_iff not_None_eq subsetD)
  then obtain f where "\<And>h. h \<in> set hs \<Longrightarrow> dict_item ts h = Inr (f h)" by (metis dict_item_Inr)
  then have "mapR (dict_item ts) hs = Inr (map f hs)" by (rule mapR_total)
  moreover have "fst ` set ts = live_handles c" using inv(2) assms(2) ts(2) by (simp add: handles_ok_def)
  moreover have "\<forall>j hs'. in_phase c j (Live hs') \<and> j \<noteq> i \<longrightarrow> set hs \<inter> set hs' = {}"
    using inv(2) assms(2,3) unfolding handles_ok_def by blast
  ultimately show ?thesis using ts(1) by (simp add: use_cache_def)
qed

theorem live_handles_found_witness:
  "\<exists>c' tensors. use_cache (\<lambda>d. numel d) 7 7 [0] (race_state 12) = Inr (c', tensors) \<and> length tensors = 1 \<and>
    fst ` set (allocated_tensors c') = live_handles (race_state 12 :: int cache)"
proof -
  have "issued (race_state 12 :: int cache) < 2 ^ 63" "in_phase (race_state 12 :: int cache) 0 (Live [0])"
    by (simp_all add: issued_def race_defs new_handles_def)
  from live_handles_found [OF race_reachable [of 12 "\<lambda>d. numel d"] this, of 7]
  show ?thesis by auto
qed


text \<open>A run in which the second request must wait for the first.\<close>

definition wait_ops :: "('t cache \<Rightarrow> 't cache) list" where
  "wait_ops = [enqueue 10 [sample_descr] None, check_immediate 0, acquire 0, check_locked 0, dequeue 0, commit 0,
     enqueue 10 [sample_descr] None, check_immediate 1, acquire 1, check_locked 1, poll_room 1]"

primrec wait_state :: "nat \<Rightarrow> 't cache" where
  "wait_state 0 = new_cache (Some 10)"
| "wait_state (Suc k) = (wait_ops ! k) (wait_state k)"

lemma wait_phases:
  "in_phase (wait_state 1) 0 Enqueued" "in_phase (wait_state 2) 0 Checked" "lock_acquire_memory (wait_state 2) = None"
  "in_phase (wait_state 3) 0 Locked" "in_phase (wait_state 4) 0 Admitted" "in_phase (wait_state 5) 0 Dequeued"
  "in_phase (wait_state 7) 1 Enqueued" "in_phase (wait_state 8) 1 Checked" "lock_acquire_memory (wait_state 8) = None"
  "in_phase (wait_state 9) 1 Locked" "in_phase (wait_state 10) 1 Polling"
  by (simp_all add: race_defs wait_ops_def)

lemma wait_tasks:
  "tasks (wait_state 1) \<noteq> []" "tasks (wait_state 2) \<noteq> []" "tasks (wait_state 3) \<noteq> []" "tasks (wait_state 4) \<noteq> []" "tasks (wait_state 5) \<noteq> []"
  by (simp_all add: race_defs wait_ops_def)

lemma wait_steps: "k < 11 \<Longrightarrow> cache_step mz (wait_state k) (wait_state (Suc k))"
proof -
  assume "k < 11"
  then have "k \<in> {0, 1, 2, 3, 4, 5, 6, 7, 8, 9, 10}" by (simp add: numeral_eq_Suc less_Suc_eq)
  then show ?thesis
    by (auto simp: wait_ops_def wait_phases wait_tasks simp del: One_nat_def intro!: cache_step.intros)
qed

lemma wait_reachable: "k \<le> 11 \<Longrightarrow> (cache_step mz)\<^sup>*\<^sup>* (new_cache (Some 10)) (wait_state k)"
proof (induction k)
  case (Suc k)
  with wait_steps [of k mz] show ?case by (auto intro: rtranclp.rtrancl_into_rtrancl simp del: wait_state.simps(2))
qed simp


text \<open>The memory limit holds as long as requests are admitted one at a time: when at most one request
  is ever between its admission (leaving the memory lock) and its commit, the live allocations never
  take more than the limit.\<close>

theorem memory_limit:
  assumes "(serial_step mz)\<^sup>*\<^sup>* (new_cache (Some m)) c" and "0 \<le> m" "m < 2 ^ 63"
  shows "total_live c \<le> m"
proof -
  have "limit_inv m c" using serial_cache.reachable_inv [OF refl assms(1)] .
  with assms(2,3) have "within_limit c" "max_size_bytes c = m" "counters_ok c"
    by (auto simp: limit_inv_def cache_inv_def)
  with total_admitted_nonneg [of c] show ?thesis by (simp add: within_limit_def)
qed

lemma wait_one_in_flight: "k \<le> 11 \<Longrightarrow> one_in_flight (wait_state k)"
proof -
  assume "k \<le> 11"
  then have "k \<in> {0, 1, 2, 3, 4, 5, 6, 7, 8, 9, 10, 11}" by (simp add: numeral_eq_Suc le_Suc_eq)
  then show ?thesis
    unfolding one_in_flight_def
    by (auto simp: race_defs wait_ops_def nth_list_update nth_Cons less_Suc_eq split: nat.splits if_splits)
qed

theorem memory_limit_witness:
  "(serial_step (\<lambda>_. 0 :: nat))\<^sup>*\<^sup>* (new_cache (Some 10)) (wait_state 11) \<and> total_live (wait_state 11 :: nat cache) \<le> 10"
proof -
  have "k \<le> 11 \<Longrightarrow> (serial_step (\<lambda>_. 0 :: nat))\<^sup>*\<^sup>* (new_cache (Some 10)) (wait_state k)" for k
  proof (induction k)
    case (Suc k)
    then have "serial_step (\<lambda>_. 0 :: nat) (wait_state k) (wait_state (Suc k))"
      using wait_steps [of k] wait_one_in_flight [of "Suc k"] by (auto simp: serial_step_def simp del: wait_state.simps(2))
    with Suc show ?case by (auto intro: rtranclp.rtrancl_into_rtrancl simp del: wait_state.simps(2))
  qed simp
  with memory_limit [of "\<lambda>_. 0 :: nat" 10 "wait_state 11"] show ?thesis by simp
qed

text \<open>Without that order the limit is not kept: the check under the memory lock and the increment of
  \<open>current_size\<close> under the metadata lock are two critical sections, so two handlers can both be admitted
  before either is counted, and 20 bytes are live in a cache of 10.\<close>

theorem overcommit_reachable:
  "\<exists>c :: nat cache. (cache_step (\<lambda>_. 0))\<^sup>*\<^sup>* (new_cache (Some 10)) c \<and> max_size_bytes c = 10 \<and> total_live c = 20"
proof (intro exI conjI)
  show "(cache_step (\<lambda>_. 0 :: nat))\<^sup>*\<^sup>* (new_cache (Some 10)) (race_state 12)" by (rule race_reachable) simp
qed (simp_all add: total_live_def bytes_if_def race_defs)

end
