(* ===== verification/Task_Pool.thy ===== *)
theory Task_Pool
  imports Peerz_Prelude
begin

text \<open>
  \<open>src/peerz/server/task_pool.py\<close> and \<open>src/peerz/server/task_prioritizer.py\<close>: the queue between the
  connection handlers and the runtime. The contract of a priority queue is a locale, interpreted on
  lists kept in order; tasks with equal (priority, time) leave in the order in which they came. Tensor
  moves between devices are a parameter. The uid of a task is that of its \<open>MPFuture\<close>, an argument
  assumed fresh, and the clock reading is an argument too.
\<close>

subsection \<open>Tasks\<close>

datatype 'a arg = TensorArg "int list" 'a | OtherArg 'a

record 'a task =
  tk_priority :: xfloat
  tk_time :: xfloat
  tk_uid :: nat
  tk_args :: "'a arg list"

definition task_key :: "'a task \<Rightarrow> xfloat \<times> xfloat" where
  "task_key t = (tk_priority t, tk_time t)"

text \<open>\<open>DummyTaskPrioritizer.prioritize\<close>.\<close>

definition prioritize :: "(string, string) dict \<Rightarrow> xfloat" where
  "prioritize kwargs = (if dict_get kwargs ''type'' = Some ''inference'' then Fin 1 else Fin 2)"

subsection \<open>Priority queues\<close>

locale priority_queue =
  fixes empty :: 'q
    and put :: "'x \<Rightarrow> 'q \<Rightarrow> 'q"
    and get :: "'q \<Rightarrow> ('x \<times> 'q) option"
    and peek :: "'q \<Rightarrow> 'x option"
    and contents :: "'q \<Rightarrow> 'x multiset"
    and invar :: "'q \<Rightarrow> bool"
    and key :: "'x \<Rightarrow> 'k::linorder"
  assumes contents_empty: "contents empty = {#}"
    and invar_empty: "invar empty"
    and contents_put: "invar q \<Longrightarrow> contents (put x q) = add_mset x (contents q)"
    and invar_put: "invar q \<Longrightarrow> invar (put x q)"
    and get_None: "invar q \<Longrightarrow> get q = None \<longleftrightarrow> contents q = {#}"
    and get_Some: "invar q \<Longrightarrow> get q = Some (x, q') \<Longrightarrow>
      contents q = add_mset x (contents q') \<and> invar q' \<and> (\<forall>y \<in># contents q. key x \<le> key y)"
    and peek_get: "invar q \<Longrightarrow> peek q = map_option fst (get q)"
begin

lemma get_nonempty: "invar q \<Longrightarrow> contents q \<noteq> {#} \<Longrightarrow> \<exists>x q'. get q = Some (x, q')"
  using get_None [of q] by (cases "get q") auto

lemma peek_least: "invar q \<Longrightarrow> peek q = Some x \<Longrightarrow> x \<in># contents q \<and> (\<forall>y \<in># contents q. key x \<le> key y)"
  using get_Some [of q] by (auto simp: peek_get)

lemma get_after_put: "invar q \<Longrightarrow> get (put x q) = Some (y, q') \<Longrightarrow> key y \<le> key x"
  using get_Some [OF invar_put] contents_put by fastforce

end

definition pq_put :: "'a task \<Rightarrow> 'a task list \<Rightarrow> 'a task list" where
  "pq_put t q = insort_key task_key t q"

definition pq_get :: "'a task list \<Rightarrow> ('a task \<times> 'a task list) option" where
  "pq_get q = (case q of [] \<Rightarrow> None | t # q' \<Rightarrow> Some (t, q'))"

definition pq_peek :: "'a task list \<Rightarrow> 'a task option" where
  "pq_peek q = (case q of [] \<Rightarrow> None | t # _ \<Rightarrow> Some t)"

definition pq_sorted :: "'a task list \<Rightarrow> bool" where
  "pq_sorted q \<longleftrightarrow> sorted (map task_key q)"

interpretation pq: priority_queue "[]" pq_put pq_get pq_peek mset pq_sorted task_key
  by unfold_locales
    (auto simp: pq_put_def pq_get_def pq_peek_def pq_sorted_def sorted_insort_key split: list.splits)

subsection \<open>The pool\<close>

datatype 'a outcome = Result "'a arg list" | Failure py_error

record 'a pool =
  max_batch_size :: int
  pool_device :: "string option"
  submitted_tasks :: "'a task option list"
  ordered_tasks :: "'a task list"
  dispatched_tasks :: "(nat, 'a task) dict"
  batch_pipe :: nat
  pool_priority :: "xfloat \<times> xfloat"
  futures :: "(nat, 'a outcome) dict"
  prioritizer_running :: bool

definition new_pool :: "int \<Rightarrow> string option \<Rightarrow> 'a pool" where
  "new_pool max_size device =
     \<lparr>max_batch_size = max_size, pool_device = device, submitted_tasks = [], ordered_tasks = [],
      dispatched_tasks = [], batch_pipe = 0, pool_priority = (PInf, PInf), futures = [], prioritizer_running = True\<rparr>"

definition get_task_size :: "'a task \<Rightarrow> int result" where
  "get_task_size t =
     (case tk_args t of
        [] \<Rightarrow> Inr 1
      | OtherArg _ # _ \<Rightarrow> Inl AttributeError
      | TensorArg (n # m # _) _ # _ \<Rightarrow> Inr (n * m)
      | TensorArg _ _ # _ \<Rightarrow> Inr 1)"

definition submit_task :: "nat \<Rightarrow> xfloat \<Rightarrow> 'a arg list \<Rightarrow> xfloat \<Rightarrow> 'a pool \<Rightarrow> 'a pool result" where
  "submit_task uid now args priority p =
     (let t = \<lparr>tk_priority = priority, tk_time = now, tk_uid = uid, tk_args = args\<rparr> in
      bindR (get_task_size t) (\<lambda>size.
        if size > max_batch_size p then Inr (p\<lparr>futures := dict_set uid (Failure ValueError) (futures p)\<rparr>)
        else Inr (p\<lparr>submitted_tasks := submitted_tasks p @ [Some t], batch_pipe := batch_pipe p + 1,
                    pool_priority := (if task_key t < pool_priority p then task_key t else pool_priority p)\<rparr>)))"

definition shutdown :: "'a pool \<Rightarrow> 'a pool" where
  "shutdown p = p\<lparr>submitted_tasks := submitted_tasks p @ [None]\<rparr>"

text \<open>One turn of \<open>run\<close>, when a message is waiting.\<close>

definition run_step :: "'a pool \<Rightarrow> 'a pool" where
  "run_step p =
     (case submitted_tasks p of
        [] \<Rightarrow> p
      | None # rest \<Rightarrow> p\<lparr>submitted_tasks := rest, prioritizer_running := False\<rparr>
      | Some t # rest \<Rightarrow> p\<lparr>submitted_tasks := rest, ordered_tasks := pq_put t (ordered_tasks p)\<rparr>)"

fun move_to_device :: "(string \<Rightarrow> bool \<Rightarrow> 'a \<Rightarrow> 'a) \<Rightarrow> string option \<Rightarrow> bool \<Rightarrow> 'a arg \<Rightarrow> 'a arg" where
  "move_to_device move (Some d) share (TensorArg shape x) = TensorArg shape (move d share x)"
| "move_to_device move None share (TensorArg shape x) = TensorArg shape x"
| "move_to_device move d share (OtherArg x) = OtherArg x"

text \<open>\<open>load_batch_to_runtime\<close>, when a task is ordered and its message is in the pipe (else it blocks).\<close>

definition load_batch_to_runtime ::
    "(string \<Rightarrow> bool \<Rightarrow> 'a \<Rightarrow> 'a) \<Rightarrow> string option \<Rightarrow> 'a pool \<Rightarrow> ('a pool \<times> nat \<times> 'a arg list) option" where
  "load_batch_to_runtime move device p =
     (let dev = (case device of None \<Rightarrow> pool_device p | Some d \<Rightarrow> Some d) in
      case pq_get (ordered_tasks p) of
        None \<Rightarrow> None
      | Some (t, rest) \<Rightarrow>
          if batch_pipe p = 0 then None
          else Some
            (p\<lparr>ordered_tasks := rest,
               dispatched_tasks := dict_set (tk_uid t) t (dispatched_tasks p),
               batch_pipe := batch_pipe p - 1,
               pool_priority := (case pq_peek rest of None \<Rightarrow> pool_priority p | Some f \<Rightarrow> task_key f)\<rparr>,
             tk_uid t, map (move_to_device move dev False) (tk_args t)))"

definition finish :: "nat \<Rightarrow> 'a outcome \<Rightarrow> 'a pool \<Rightarrow> 'a pool" where
  "finish uid out p =
     (case dict_get (dispatched_tasks p) uid of
        None \<Rightarrow> p
      | Some t \<Rightarrow> p\<lparr>dispatched_tasks := dict_pop uid (dispatched_tasks p),
                   futures := dict_set (tk_uid t) out (futures p)\<rparr>)"

definition send_outputs_from_runtime :: "(string \<Rightarrow> bool \<Rightarrow> 'a \<Rightarrow> 'a) \<Rightarrow> nat \<Rightarrow> 'a arg list \<Rightarrow> 'a pool \<Rightarrow> 'a pool" where
  "send_outputs_from_runtime move uid outputs p =
     finish uid (Result (map (move_to_device move (Some ''cpu'') True) outputs)) p"

definition send_exception_from_runtime :: "nat \<Rightarrow> py_error \<Rightarrow> 'a pool \<Rightarrow> 'a pool" where
  "send_exception_from_runtime uid e p = finish uid (Failure e) p"

definition pool_empty :: "'a pool \<Rightarrow> bool" where
  "pool_empty p \<longleftrightarrow> batch_pipe p = 0"

subsection \<open>Runs of the pool\<close>

definition real_tasks :: "'a task option list \<Rightarrow> 'a task list" where
  "real_tasks ms = List.map_filter id ms"

definition queued :: "'a pool \<Rightarrow> 'a task list" where
  "queued p = real_tasks (submitted_tasks p)"

definition all_uids :: "'a pool \<Rightarrow> nat list" where
  "all_uids p = map tk_uid (queued p) @ map tk_uid (ordered_tasks p) @ map fst (dispatched_tasks p) @ map fst (futures p)"

inductive pool_step :: "(string \<Rightarrow> bool \<Rightarrow> 'a \<Rightarrow> 'a) \<Rightarrow> 'a pool \<Rightarrow> 'a pool \<Rightarrow> bool" for move where
  submit: "uid \<notin> set (all_uids p) \<Longrightarrow> submit_task uid now args priority p = Inr p' \<Longrightarrow> pool_step move p p'"
| stop: "pool_step move p (shutdown p)"
| order: "prioritizer_running p \<Longrightarrow> submitted_tasks p \<noteq> [] \<Longrightarrow> pool_step move p (run_step p)"
| load: "load_batch_to_runtime move device p = Some (p', uid, inputs) \<Longrightarrow> pool_step move p p'"
| outputs: "pool_step move p (send_outputs_from_runtime move uid outs p)"
| exception: "pool_step move p (send_exception_from_runtime uid e p)"

definition pool_inv :: "'a pool \<Rightarrow> bool" where
  "pool_inv p \<longleftrightarrow>
     distinct (all_uids p) \<and> pq_sorted (ordered_tasks p) \<and>
     batch_pipe p = length (queued p) + length (ordered_tasks p) \<and>
     (\<forall>(u, t) \<in> set (dispatched_tasks p). tk_uid t = u)"

lemma real_tasks_simps [simp]:
  "real_tasks [] = []" "real_tasks (Some t # ms) = t # real_tasks ms" "real_tasks (None # ms) = real_tasks ms"
  "real_tasks (ms @ ms') = real_tasks ms @ real_tasks ms'"
  by (simp_all add: real_tasks_def map_filter_def)

lemma mset_pq_put [simp]: "mset (pq_put t q) = add_mset t (mset q)"
  by (simp add: pq_put_def)

lemma length_pq_put [simp]: "length (pq_put t q) = Suc (length q)"
  by (simp add: pq_put_def)

lemma set_pq_put [simp]: "set (pq_put t q) = insert t (set q)"
  by (simp add: pq_put_def set_insort_key)

lemma submit_inv:
  assumes "pool_inv p" "uid \<notin> set (all_uids p)" "submit_task uid now args priority p = Inr p'"
  shows "pool_inv p' \<and> mset (all_uids p') = add_mset uid (mset (all_uids p)) \<and> (\<forall>u. u \<noteq> uid \<longrightarrow> dict_get (futures p') u = dict_get (futures p) u)"
proof -
  have fut: "dict_set uid (Failure ValueError) (futures p) = futures p @ [(uid, Failure ValueError)]"
    using assms(2) by (intro dict_set_new) (auto simp: all_uids_def)
  let ?t = "\<lparr>tk_priority = priority, tk_time = now, tk_uid = uid, tk_args = args\<rparr>"
  from assms(3) consider "p' = p\<lparr>futures := futures p @ [(uid, Failure ValueError)]\<rparr>"
    | "p' = p\<lparr>submitted_tasks := submitted_tasks p @ [Some ?t], batch_pipe := batch_pipe p + 1,
          pool_priority := (if task_key ?t < pool_priority p then task_key ?t else pool_priority p)\<rparr>"
    by (auto simp: submit_task_def Let_def bindR_Inr fut split: if_splits)
  then show ?thesis
  proof cases
    case 1
    with assms(1,2) show ?thesis
      by (simp add: pool_inv_def all_uids_def queued_def map_add_def split: option.splits)
  next
    case 2
    with assms(1,2) show ?thesis by (simp add: pool_inv_def all_uids_def queued_def)
  qed
qed

lemma run_step_inv:
  assumes "pool_inv p"
  shows "pool_inv (run_step p) \<and> mset (all_uids (run_step p)) = mset (all_uids p) \<and> futures (run_step p) = futures p"
proof -
  have "mset (all_uids (run_step p)) = mset (all_uids p)"
    by (auto simp: run_step_def all_uids_def queued_def split: list.splits option.splits)
  moreover from this have "distinct (all_uids (run_step p))"
    using assms mset_eq_imp_distinct_iff by (metis pool_inv_def)
  moreover have "pq_sorted (ordered_tasks (run_step p))"
    using assms by (auto simp: run_step_def pool_inv_def pq.invar_put split: list.splits option.splits)
  moreover have "batch_pipe (run_step p) = length (queued (run_step p)) + length (ordered_tasks (run_step p))"
    using assms by (auto simp: run_step_def pool_inv_def queued_def split: list.splits option.splits)
  moreover have "dispatched_tasks (run_step p) = dispatched_tasks p" "futures (run_step p) = futures p"
    by (auto simp: run_step_def split: list.splits option.splits)
  ultimately show ?thesis using assms by (simp add: pool_inv_def)
qed

lemma load_inv:
  assumes "pool_inv p" "load_batch_to_runtime move device p = Some (p', uid, inputs)"
  shows "pool_inv p' \<and> mset (all_uids p') = mset (all_uids p) \<and> futures p' = futures p"
proof -
  from assms(2) obtain t rest where o: "ordered_tasks p = t # rest" "uid = tk_uid t" "batch_pipe p \<noteq> 0"
    and p': "p' = p\<lparr>ordered_tasks := rest, dispatched_tasks := dict_set (tk_uid t) t (dispatched_tasks p),
        batch_pipe := batch_pipe p - 1,
        pool_priority := (case pq_peek rest of None \<Rightarrow> pool_priority p | Some f \<Rightarrow> task_key f)\<rparr>"
    by (auto simp: load_batch_to_runtime_def Let_def pq_get_def split: list.splits if_splits)
  have d: "dict_set (tk_uid t) t (dispatched_tasks p) = dispatched_tasks p @ [(tk_uid t, t)]"
    using assms(1) o(1) by (intro dict_set_new) (auto simp: pool_inv_def all_uids_def)
  have "mset (all_uids p') = mset (all_uids p)" by (simp add: p' d o(1) all_uids_def queued_def)
  moreover from this have "distinct (all_uids p')" using assms(1) mset_eq_imp_distinct_iff by (metis pool_inv_def)
  ultimately show ?thesis
    using assms(1) o by (auto simp: pool_inv_def p' d queued_def pq_sorted_def)
qed

lemma finish_inv:
  assumes "pool_inv p"
  shows "pool_inv (finish uid out p) \<and> set (all_uids (finish uid out p)) = set (all_uids p) \<and>
    (\<forall>u x. dict_get (futures p) u = Some x \<longrightarrow> dict_get (futures (finish uid out p)) u = Some x)"
proof (cases "dict_get (dispatched_tasks p) uid")
  case None
  with assms show ?thesis by (simp add: finish_def)
next
  case (Some t)
  have mem: "(uid, t) \<in> set (dispatched_tasks p)" using Some by (rule map_of_SomeD)
  with assms have t: "tk_uid t = uid" by (auto simp: pool_inv_def)
  have new: "uid \<notin> fst ` set (futures p)"
    using assms dict_get_key [OF Some] by (auto simp: pool_inv_def all_uids_def)
  then have fut: "dict_set uid out (futures p) = futures p @ [(uid, out)]" by (rule dict_set_new)
  have keys: "map fst (dict_pop uid (dispatched_tasks p)) = removeAll uid (map fst (dispatched_tasks p))"
    by (simp add: delete_keys)
  have fin: "finish uid out p = p\<lparr>dispatched_tasks := dict_pop uid (dispatched_tasks p), futures := futures p @ [(uid, out)]\<rparr>"
    using Some t fut by (simp add: finish_def)
  have uids: "all_uids (finish uid out p) = map tk_uid (queued p) @ map tk_uid (ordered_tasks p) @
      removeAll uid (map fst (dispatched_tasks p)) @ map fst (futures p) @ [uid]"
    by (simp add: fin all_uids_def queued_def delete_keys)
  have d: "distinct (all_uids p)" and mem': "uid \<in> set (map fst (dispatched_tasks p))"
    using assms dict_get_key [OF Some] by (auto simp: pool_inv_def)
  have "distinct (all_uids (finish uid out p))"
    unfolding uids using d mem' new by (auto simp: all_uids_def distinct_removeAll)
  moreover have "set (all_uids (finish uid out p)) = set (all_uids p)"
    unfolding uids using mem' by (auto simp: all_uids_def)
  moreover have "set (dict_pop uid (dispatched_tasks p)) \<subseteq> set (dispatched_tasks p)"
    by (auto simp: AList.delete_eq)
  ultimately show ?thesis
    using assms new by (auto simp: pool_inv_def fin queued_def map_add_def map_of_eq_None_iff dest: dict_get_key split: option.splits)
qed

lemma shutdown_inv: "pool_inv p \<Longrightarrow> pool_inv (shutdown p) \<and> all_uids (shutdown p) = all_uids p \<and> futures (shutdown p) = futures p"
  by (simp add: pool_inv_def shutdown_def all_uids_def queued_def)

lemma pool_step_inv:
  assumes "pool_inv p" "pool_step move p p'"
  shows "pool_inv p' \<and> set (all_uids p) \<subseteq> set (all_uids p') \<and>
    (\<forall>u x. dict_get (futures p) u = Some x \<longrightarrow> dict_get (futures p') u = Some x)"
  using assms(2)
proof (cases rule: pool_step.cases)
  case (submit uid now args priority)
  from submit_inv [OF assms(1) submit] have *: "pool_inv p'" "mset (all_uids p') = add_mset uid (mset (all_uids p))"
    "\<forall>u. u \<noteq> uid \<longrightarrow> dict_get (futures p') u = dict_get (futures p) u" by auto
  moreover have "dict_get (futures p) uid = None"
    using submit(1) by (auto simp: all_uids_def map_of_eq_None_iff)
  moreover have "set (all_uids p) \<subseteq> set (all_uids p')" using *(2) by (metis set_mset_mset set_mset_add_mset_insert subset_insertI)
  ultimately show ?thesis by (metis option.distinct(1))
next
  case order
  with run_step_inv [OF assms(1)] show ?thesis by (metis mset_eq_setD order_refl)
next
  case (load device uid inputs)
  with load_inv [OF assms(1) load] show ?thesis by (metis mset_eq_setD order_refl)
qed (use shutdown_inv finish_inv assms(1) in \<open>auto simp: send_outputs_from_runtime_def send_exception_from_runtime_def\<close>)

interpretation pool: invariant_system "\<lambda>p. \<exists>n d. p = new_pool n d" "pool_step move" pool_inv for move
proof
  show "\<exists>n d. p = new_pool n d \<Longrightarrow> pool_inv p" for p :: "'a pool"
    by (auto simp: pool_inv_def new_pool_def all_uids_def queued_def pq_sorted_def)
qed (use pool_step_inv in blast)

subsection \<open>Properties\<close>

text \<open>C13. Every task is accounted for exactly once: in every reachable state each uid ever accepted is in
  exactly one place (waiting to be ordered, ordered, dispatched to the runtime, or finished), no step
  loses one, and an outcome that was set is never changed.\<close>

theorem each_task_once:
  assumes "(pool_step move)\<^sup>*\<^sup>* (new_pool n d) p" and "pool_step move p p'"
  shows "distinct (all_uids p) \<and> set (all_uids p) \<subseteq> set (all_uids p') \<and>
    (\<forall>u x. dict_get (futures p) u = Some x \<longrightarrow> dict_get (futures p') u = Some x)"
proof -
  have "pool_inv p" using pool.reachable_inv [OF _ assms(1)] by blast
  with pool_step_inv [OF this assms(2)] show ?thesis by (auto simp: pool_inv_def)
qed

text \<open>The runtime takes the most urgent ordered task and never waits in vain: whenever the pool is not
  \<open>empty\<close> a task is waiting or ordered; as soon as one is ordered, \<open>load_batch_to_runtime\<close> returns a task
  whose (priority, time) is least among the ordered ones and files it as dispatched; and the
  pool's priority afterwards is that of the most urgent ordered task left, if there is one.\<close>

theorem load_most_urgent:
  assumes "(pool_step move)\<^sup>*\<^sup>* (new_pool n d) p"
  shows "(\<not> pool_empty p \<longleftrightarrow> queued p \<noteq> [] \<or> ordered_tasks p \<noteq> []) \<and>
    (ordered_tasks p \<noteq> [] \<longrightarrow>
      (\<exists>p' t. load_batch_to_runtime move device p =
           Some (p', tk_uid t, map (move_to_device move (case device of None \<Rightarrow> pool_device p | Some d \<Rightarrow> Some d) False) (tk_args t)) \<and>
         t \<in> set (ordered_tasks p) \<and> (\<forall>y \<in> set (ordered_tasks p). task_key t \<le> task_key y) \<and>
         dict_get (dispatched_tasks p') (tk_uid t) = Some t \<and>
         (\<forall>y \<in> set (ordered_tasks p'). pool_priority p' \<le> task_key y) \<and>
         (ordered_tasks p' \<noteq> [] \<longrightarrow> (\<exists>y \<in> set (ordered_tasks p'). pool_priority p' = task_key y))))"
proof -
  have inv: "pool_inv p" using pool.reachable_inv [OF _ assms] by blast
  have "\<not> pool_empty p \<longleftrightarrow> queued p \<noteq> [] \<or> ordered_tasks p \<noteq> []"
    using inv by (auto simp: pool_inv_def pool_empty_def)
  moreover have "\<exists>p' t. load_batch_to_runtime move device p =
           Some (p', tk_uid t, map (move_to_device move (case device of None \<Rightarrow> pool_device p | Some d \<Rightarrow> Some d) False) (tk_args t)) \<and>
         t \<in> set (ordered_tasks p) \<and> (\<forall>y \<in> set (ordered_tasks p). task_key t \<le> task_key y) \<and>
         dict_get (dispatched_tasks p') (tk_uid t) = Some t \<and>
         (\<forall>y \<in> set (ordered_tasks p'). pool_priority p' \<le> task_key y) \<and>
         (ordered_tasks p' \<noteq> [] \<longrightarrow> (\<exists>y \<in> set (ordered_tasks p'). pool_priority p' = task_key y))"
    if ne: "ordered_tasks p \<noteq> []"
  proof -
    obtain t rest where o: "ordered_tasks p = t # rest" using ne by (cases "ordered_tasks p") auto
    have sorted: "pq_sorted (ordered_tasks p)" and b: "batch_pipe p \<noteq> 0" using inv o by (auto simp: pool_inv_def)
    have get: "pq_get (ordered_tasks p) = Some (t, rest)" by (simp add: o pq_get_def)
    have least: "\<forall>y \<in> set (ordered_tasks p). task_key t \<le> task_key y" and rest: "pq_sorted rest"
      using pq.get_Some [OF sorted get] by auto
    have peek: "\<forall>y \<in> set rest. f \<in> set rest \<and> task_key f \<le> task_key y" if "pq_peek rest = Some f" for f
      using pq.peek_least [OF rest that] by auto
    let ?p = "p\<lparr>ordered_tasks := rest, dispatched_tasks := dict_set (tk_uid t) t (dispatched_tasks p),
        batch_pipe := batch_pipe p - 1,
        pool_priority := (case pq_peek rest of None \<Rightarrow> pool_priority p | Some f \<Rightarrow> task_key f)\<rparr>"
    have load: "load_batch_to_runtime move device p =
        Some (?p, tk_uid t, map (move_to_device move (case device of None \<Rightarrow> pool_device p | Some d \<Rightarrow> Some d) False) (tk_args t))"
      using get b by (simp add: load_batch_to_runtime_def)
    have "rest = []" if "pq_peek rest = None" using that by (simp add: pq_peek_def split: list.splits)
    with peek have "\<forall>y \<in> set rest. pool_priority ?p \<le> task_key y"
      "rest \<noteq> [] \<longrightarrow> (\<exists>y \<in> set rest. pool_priority ?p = task_key y)"
      by (cases "pq_peek rest"; force simp: neq_Nil_conv)+
    with least o show ?thesis
      by (intro exI [of _ ?p] exI [of _ t] conjI load) simp_all
  qed
  ultimately show ?thesis by blast
qed

text \<open>A run: tasks 1 and 2 are submitted and ordered, task 3 is submitted but not yet ordered, and the
  runtime takes task 1.\<close>

definition demo_task :: "nat \<Rightarrow> rat \<Rightarrow> rat \<Rightarrow> nat task" where
  "demo_task uid now priority =
     \<lparr>tk_priority = Fin priority, tk_time = Fin now, tk_uid = uid, tk_args = [TensorArg [1, 4, 8] 0]\<rparr>"

definition demo_pool :: "nat task option list \<Rightarrow> nat task list \<Rightarrow> nat \<Rightarrow> xfloat \<times> xfloat \<Rightarrow> nat pool" where
  "demo_pool sub ord k pr = (new_pool 16 None)\<lparr>submitted_tasks := sub, ordered_tasks := ord, batch_pipe := k, pool_priority := pr\<rparr>"

abbreviation "demo1 \<equiv> demo_task 1 10 1"
abbreviation "demo2 \<equiv> demo_task 2 11 2"
abbreviation "demo3 \<equiv> demo_task 3 12 1"

definition demo_run :: "nat \<Rightarrow> nat pool" where
  "demo_run k =
     [demo_pool [] [] 0 (PInf, PInf),
      demo_pool [Some demo1] [] 1 (Fin 1, Fin 10),
      demo_pool [] [demo1] 1 (Fin 1, Fin 10),
      demo_pool [Some demo2] [demo1] 2 (Fin 1, Fin 10),
      demo_pool [] [demo1, demo2] 2 (Fin 1, Fin 10),
      demo_pool [Some demo3] [demo1, demo2] 3 (Fin 1, Fin 10),
      (demo_pool [Some demo3] [demo2] 2 (Fin 2, Fin 11))\<lparr>dispatched_tasks := [(1, demo1)]\<rparr>] ! k"

lemmas demo_defs = demo_run_def demo_pool_def demo_task_def submit_task_def get_task_size_def new_pool_def run_step_def
  load_batch_to_runtime_def pq_put_def pq_get_def pq_peek_def all_uids_def queued_def task_key_def

abbreviation "demo_step \<equiv> pool_step (\<lambda>_ _ x. x)"

lemma demo_steps:
  "demo_step (demo_run 0) (demo_run 1)" "demo_step (demo_run 1) (demo_run 2)" "demo_step (demo_run 2) (demo_run 3)"
  "demo_step (demo_run 3) (demo_run 4)" "demo_step (demo_run 4) (demo_run 5)" "demo_step (demo_run 5) (demo_run 6)"
proof -
  show "demo_step (demo_run 0) (demo_run 1)"
    by (rule pool_step.submit [where uid = 1 and now = "Fin 10" and priority = "Fin 1" and args = "[TensorArg [1, 4, 8] 0]"])
      (simp_all add: demo_defs)
  show "demo_step (demo_run 2) (demo_run 3)"
    by (rule pool_step.submit [where uid = 2 and now = "Fin 11" and priority = "Fin 2" and args = "[TensorArg [1, 4, 8] 0]"])
      (simp_all add: demo_defs)
  show "demo_step (demo_run 4) (demo_run 5)"
    by (rule pool_step.submit [where uid = 3 and now = "Fin 12" and priority = "Fin 1" and args = "[TensorArg [1, 4, 8] 0]"])
      (simp_all add: demo_defs)
  show "demo_step (demo_run 1) (demo_run 2)" "demo_step (demo_run 3) (demo_run 4)"
    using pool_step.order [of "demo_run 1"] pool_step.order [of "demo_run 3"] by (simp_all add: demo_defs)
  show "demo_step (demo_run 5) (demo_run 6)"
    by (rule pool_step.load [where device = None and uid = 1 and inputs = "[TensorArg [1, 4, 8] 0]"])
      (simp add: demo_defs)
qed

lemma demo_reachable: "demo_step\<^sup>*\<^sup>* (new_pool 16 None) (demo_run 5)" "demo_step\<^sup>*\<^sup>* (new_pool 16 None) (demo_run 6)"
proof -
  have "demo_run 0 = new_pool 16 None" by (simp add: demo_defs)
  then show *: "demo_step\<^sup>*\<^sup>* (new_pool 16 None) (demo_run 5)"
    using demo_steps by (metis (no_types, lifting) rtranclp.rtrancl_into_rtrancl rtranclp.rtrancl_refl)
  show "demo_step\<^sup>*\<^sup>* (new_pool 16 None) (demo_run 6)"
    using * demo_steps(6) by (rule rtranclp.rtrancl_into_rtrancl)
qed

theorem each_task_once_witness:
  "distinct (all_uids (demo_run 5)) \<and> set (all_uids (demo_run 5)) \<subseteq> set (all_uids (demo_run 6))"
  using each_task_once [OF demo_reachable(1) demo_steps(6)] by simp

theorem load_most_urgent_witness:
  "\<exists>p' t. load_batch_to_runtime (\<lambda>_ _ x. x) None (demo_run 5) = Some (p', tk_uid t, [TensorArg [1, 4, 8] 0]) \<and>
     t \<in> set (ordered_tasks (demo_run 5))"
  using load_most_urgent [OF demo_reachable(1), of None] by (auto simp: demo_defs)

text \<open>The priority of a pool is not always that of its most important task, as its docstring says: a
  reachable pool reports priority 2 while a task of priority 1 is waiting in it.\<close>

theorem priority_not_least:
  "\<exists>p t. demo_step\<^sup>*\<^sup>* (new_pool 16 None) p \<and> t \<in> set (queued p) \<and> task_key (t :: nat task) < pool_priority p"
proof (intro exI conjI)
  show "demo_step\<^sup>*\<^sup>* (new_pool 16 None) (demo_run 6)" by (rule demo_reachable)
  show "demo3 \<in> set (queued (demo_run 6))" by (simp add: demo_defs)
qed (simp add: demo_defs)

end
