(* ===== verification/Sequence_Info.thy ===== *)
theory Sequence_Info
  imports Dht_Utils
begin

text \<open>
  \<open>src/peerz/client/routing/sequence_info.py\<close>: which servers hold which block of a client's sequence.
  The table of spans per block is built by indexed appends that may raise; the locale \<open>span_table\<close>
  states what the routing code relies on, and is interpreted on \<open>sort_spans\<close>.
\<close>

subsection \<open>Operations\<close>

record seq_info =
  sq_block_uids :: "module_uid list"
  sq_block_infos :: "remote_module_info list"
  sq_spans_by_priority :: "remote_span_info list"
  sq_spans_containing_block :: "remote_span_info list list"
  sq_last_updated_time :: "rat option"

definition make_empty :: "module_uid list \<Rightarrow> seq_info" where
  "make_empty block_uids =
     \<lparr>sq_block_uids = block_uids,
      sq_block_infos = map (\<lambda>uid. \<lparr>rm_uid = uid, rm_servers = []\<rparr>) block_uids,
      sq_spans_by_priority = [], sq_spans_containing_block = map (\<lambda>_. []) block_uids,
      sq_last_updated_time = None\<rparr>"

text \<open>\<open>spans_containing_block[block_index].append(span)\<close>.\<close>

definition append_span :: "remote_span_info \<Rightarrow> int \<Rightarrow> remote_span_info list list \<Rightarrow> remote_span_info list list result" where
  "append_span sp b table =
     (case abs_index (length table) b of
        None \<Rightarrow> Inl IndexError
      | Some k \<Rightarrow> Inr (table[k := table ! k @ [sp]]))"

definition sort_spans :: "remote_module_info list \<Rightarrow> (remote_span_info list \<times> remote_span_info list list) result" where
  "sort_spans block_infos =
     bindR (compute_spans block_infos ONLINE) (\<lambda>spans.
       (let by_priority = sort_key (\<lambda>sp. - span_length sp) (map snd spans) in
        bindR (foldR (\<lambda>sp table. foldR (append_span sp) (py_range (rs_start sp) (rs_end sp)) table)
                 by_priority (map (\<lambda>_. []) block_infos)) (\<lambda>table.
          Inr (by_priority, table))))"

definition seq_getitem :: "seq_info \<Rightarrow> int \<Rightarrow> int \<Rightarrow> seq_info result" where
  "seq_getitem s a b =
     (let uids = py_slice (sq_block_uids s) a b; infos = py_slice (sq_block_infos s) a b in
      bindR (sort_spans infos) (\<lambda>(by_priority, table).
        Inr \<lparr>sq_block_uids = uids, sq_block_infos = infos, sq_spans_by_priority = by_priority,
             sq_spans_containing_block = table, sq_last_updated_time = sq_last_updated_time s\<rparr>))"

definition seq_len :: "seq_info \<Rightarrow> int" where
  "seq_len s = int (length (sq_block_uids s))"

text \<open>One turn of the loop of \<open>update_\<close>.\<close>

definition update_block :: "nat \<times> module_uid \<times> remote_module_info \<Rightarrow> remote_module_info list \<Rightarrow> remote_module_info list result" where
  "update_block e infos =
     (case e of (i, uid, info) \<Rightarrow>
        guardR (uid = rm_uid info) AssertionError
          (if i < length infos then Inr (infos[i := (infos ! i)\<lparr>rm_servers := rm_servers info\<rparr>]) else Inl IndexError))"

definition seq_update :: "rat \<Rightarrow> remote_module_info list \<Rightarrow> seq_info \<Rightarrow> seq_info result" where
  "seq_update now new_block_infos s =
     guardR (length new_block_infos = length (sq_block_uids s)) AssertionError
       (bindR (foldR update_block (enumerate 0 (zip (sq_block_uids s) new_block_infos)) (sq_block_infos s)) (\<lambda>infos.
        bindR (sort_spans infos) (\<lambda>(by_priority, table).
          Inr (s\<lparr>sq_block_infos := infos, sq_spans_by_priority := by_priority,
                 sq_spans_containing_block := table, sq_last_updated_time := Some now\<rparr>))))"

subsection \<open>What routing relies on\<close>

locale span_table =
  fixes table_of :: "'i list \<Rightarrow> (remote_span_info list \<times> remote_span_info list list) result"
  assumes table_length: "table_of infos = Inr (spans, table) \<Longrightarrow> length table = length infos"
    and table_spans: "table_of infos = Inr (spans, table) \<Longrightarrow> b < length infos \<Longrightarrow>
      set (table ! b) = {sp \<in> set spans. rs_start sp \<le> int b \<and> int b < rs_end sp}"
    and span_bounds: "table_of infos = Inr (spans, table) \<Longrightarrow> sp \<in> set spans \<Longrightarrow>
      0 \<le> rs_start sp \<and> rs_end sp \<le> int (length infos)"
    and one_per_peer: "table_of infos = Inr (spans, table) \<Longrightarrow> sp \<in> set spans \<Longrightarrow> sp' \<in> set spans \<Longrightarrow>
      rs_peer sp = rs_peer sp' \<Longrightarrow> sp = sp'"
begin

lemma containing_in_range:
  "table_of infos = Inr (spans, table) \<Longrightarrow> b < length infos \<Longrightarrow> sp \<in> set (table ! b) \<Longrightarrow>
   sp \<in> set spans \<and> 0 \<le> rs_start sp \<and> rs_start sp \<le> int b \<and> int b < rs_end sp \<and> rs_end sp \<le> int (length infos)"
  using table_spans span_bounds by fastforce

text \<open>A span found at one block is found at all its blocks.\<close>

lemma containing_all:
  assumes "table_of infos = Inr (spans, table)" "b < length infos" "sp \<in> set (table ! b)"
    and "rs_start sp \<le> int c" "int c < rs_end sp"
  shows "c < length infos \<and> sp \<in> set (table ! c)"
proof -
  have "int c < int (length infos)" using containing_in_range [OF assms(1-3)] assms(5) by linarith
  then have "c < length infos" by simp
  with assms containing_in_range [OF assms(1-3)] table_spans [OF assms(1) this] show ?thesis by simp
qed

lemma same_peer:
  "table_of infos = Inr (spans, table) \<Longrightarrow> b < length infos \<Longrightarrow> c < length infos \<Longrightarrow> sp \<in> set (table ! b) \<Longrightarrow>
   sp' \<in> set (table ! c) \<Longrightarrow> rs_peer sp = rs_peer sp' \<Longrightarrow> sp = sp'"
  using containing_in_range one_per_peer by metis

end

subsection \<open>The table is right\<close>

lemma append_range:
  assumes "0 \<le> a" "b \<le> int (length table)"
  shows "\<exists>t. foldR (append_span sp) (py_range a b) table = Inr t \<and> length t = length table \<and>
    (\<forall>k < length table. t ! k = (if a \<le> int k \<and> int k < b then table ! k @ [sp] else table ! k))"
  using assms
proof (induction "nat (b - a)" arbitrary: a table)
  case 0
  then show ?case by auto
next
  case (Suc n)
  let ?t = "table[nat a := table ! nat a @ [sp]]"
  have ab: "a < b" using Suc.hyps(2) by linarith
  have idx: "abs_index (length table) a = Some (nat a)" using ab Suc.prems by (auto simp: abs_index_def)
  obtain t where t: "foldR (append_span sp) (py_range (a + 1) b) ?t = Inr t" "length t = length table"
    "\<forall>k < length table. t ! k = (if a + 1 \<le> int k \<and> int k < b then ?t ! k @ [sp] else ?t ! k)"
    using Suc.hyps(1) [of "a + 1" ?t] Suc.hyps(2) Suc.prems by fastforce
  have "t ! k = (if a \<le> int k \<and> int k < b then table ! k @ [sp] else table ! k)" if "k < length table" for k
    using t(3) that ab Suc.prems(1) by (cases "k = nat a") auto
  then show ?case using t(1,2) idx by (simp add: py_range_Cons [OF ab] append_span_def)
qed

lemma table_of_spans:
  assumes "\<And>sp. sp \<in> set sps \<Longrightarrow> 0 \<le> rs_start sp \<and> rs_end sp \<le> int (length table)"
  shows "\<exists>t. foldR (\<lambda>sp table. foldR (append_span sp) (py_range (rs_start sp) (rs_end sp)) table) sps table = Inr t \<and>
    length t = length table \<and>
    (\<forall>k < length table. t ! k = table ! k @ filter (\<lambda>sp. rs_start sp \<le> int k \<and> int k < rs_end sp) sps)"
  using assms
proof (induction sps arbitrary: table)
  case (Cons sp sps)
  obtain t where t: "foldR (append_span sp) (py_range (rs_start sp) (rs_end sp)) table = Inr t" "length t = length table"
    "\<forall>k < length table. t ! k = (if rs_start sp \<le> int k \<and> int k < rs_end sp then table ! k @ [sp] else table ! k)"
    using append_range [of "rs_start sp" "rs_end sp" table sp] Cons.prems by auto
  from Cons.IH [of t] Cons.prems t(2) obtain u where
    "foldR (\<lambda>sp table. foldR (append_span sp) (py_range (rs_start sp) (rs_end sp)) table) sps t = Inr u"
    "length u = length t" "\<forall>k < length t. u ! k = t ! k @ filter (\<lambda>sp. rs_start sp \<le> int k \<and> int k < rs_end sp) sps"
    by auto
  with t show ?case by auto
qed simp

text \<open>\<open>sort_spans\<close> raises only when the uid of the first block does not parse, and lists at every block
  exactly the spans that cover it, longest first.\<close>

lemma sort_spans_eq:
  assumes "compute_spans infos ONLINE = Inr spans"
  shows "\<exists>table. sort_spans infos = Inr (sort_key (\<lambda>sp. - span_length sp) (map snd spans), table) \<and>
    length table = length infos \<and>
    (\<forall>k < length infos. table ! k =
       filter (\<lambda>sp. rs_start sp \<le> int k \<and> int k < rs_end sp) (sort_key (\<lambda>sp. - span_length sp) (map snd spans)))"
proof -
  have "0 \<le> rs_start sp \<and> rs_end sp \<le> int (length infos)" if "sp \<in> snd ` set spans" for sp
    using compute_spans_wf [OF assms] that by (auto simp: wf_spans_def wf_span_def)
  then obtain t where "foldR (\<lambda>sp table. foldR (append_span sp) (py_range (rs_start sp) (rs_end sp)) table)
      (sort_key (\<lambda>sp. - span_length sp) (map snd spans)) (map (\<lambda>_. []) infos) = Inr t" "length t = length infos"
    "\<forall>k < length infos. t ! k = filter (\<lambda>sp. rs_start sp \<le> int k \<and> int k < rs_end sp)
       (sort_key (\<lambda>sp. - span_length sp) (map snd spans))"
    using table_of_spans [of "sort_key (\<lambda>sp. - span_length sp) (map snd spans)" "map (\<lambda>_. []) infos"] by auto
  with assms show ?thesis by (simp add: sort_spans_def Let_def)
qed

lemma sort_spans_Inr:
  assumes "sort_spans infos = Inr (by_priority, table)"
  obtains spans where "compute_spans infos ONLINE = Inr spans"
    "by_priority = sort_key (\<lambda>sp. - span_length sp) (map snd spans)" "length table = length infos"
    "\<And>k. k < length infos \<Longrightarrow> table ! k = filter (\<lambda>sp. rs_start sp \<le> int k \<and> int k < rs_end sp) by_priority"
proof -
  obtain spans where spans: "compute_spans infos ONLINE = Inr spans"
    using assms by (auto simp: sort_spans_def bindR_Inr)
  with sort_spans_eq [OF spans] assms that show ?thesis by fastforce
qed

interpretation routes: span_table sort_spans
proof
  fix infos spans table assume *: "sort_spans infos = Inr (spans, table)"
  obtain d where d: "compute_spans infos ONLINE = Inr d"
    "spans = sort_key (\<lambda>sp. - span_length sp) (map snd d)" "length table = length infos"
    "\<And>k. k < length infos \<Longrightarrow> table ! k = filter (\<lambda>sp. rs_start sp \<le> int k \<and> int k < rs_end sp) spans"
    using sort_spans_Inr [OF *] by blast
  have wf: "wf_spans (int (length infos)) ONLINE d" using d(1) by (rule compute_spans_wf)
  show "length table = length infos" by (rule d(3))
  show "set (table ! b) = {sp \<in> set spans. rs_start sp \<le> int b \<and> int b < rs_end sp}" if "b < length infos" for b
    using d(4) [OF that] by auto
  show "0 \<le> rs_start sp \<and> rs_end sp \<le> int (length infos)" if "sp \<in> set spans" for sp
    using that wf by (auto simp: d(2) wf_spans_def wf_span_def)
  show "sp = sp'" if "sp \<in> set spans" "sp' \<in> set spans" "rs_peer sp = rs_peer sp'" for sp sp'
    using that wf by (auto simp: d(2) wf_spans_def wf_span_def) (metis (no_types, lifting) eq_key_imp_eq_value)
qed

subsection \<open>Updating\<close>

definition wf_seq :: "seq_info \<Rightarrow> bool" where
  "wf_seq s \<longleftrightarrow> map rm_uid (sq_block_infos s) = sq_block_uids s"

lemma make_empty_wf: "wf_seq (make_empty uids)"
  by (simp add: wf_seq_def make_empty_def comp_def)

lemma update_blocks:
  assumes "map rm_uid new = drop k uids" and "map rm_uid infos = uids" and "k \<le> length uids"
  shows "foldR update_block (enumerate k (zip (drop k uids) new)) infos = Inr (take k infos @ new)"
  using assms
proof (induction new arbitrary: k infos)
  case Nil
  then show ?case by auto
next
  case (Cons m new)
  have k: "k < length uids" using Cons.prems(1) by (metis drop_all list.simps(3) list.simps(9) not_le_imp_less)
  have uid: "uids ! k = rm_uid m" and rest: "map rm_uid new = drop (Suc k) uids"
    using Cons.prems(1) Cons_nth_drop_Suc [OF k, symmetric] by auto
  have len: "length infos = length uids" using Cons.prems(2) by auto
  let ?i = "infos[k := (infos ! k)\<lparr>rm_servers := rm_servers m\<rparr>]"
  have "rm_uid (infos ! k) = rm_uid m" using Cons.prems(2) k uid len by (metis nth_map)
  then have same: "?i ! k = m" using k len by simp
  have "(map rm_uid infos)[k := rm_uid (infos ! k)] = map rm_uid infos"
    using k len by (metis list_update_id nth_map)
  then have "map rm_uid ?i = uids" using Cons.prems(2) by (simp add: map_update)
  then have "foldR update_block (enumerate (Suc k) (zip (drop (Suc k) uids) new)) ?i = Inr (take (Suc k) ?i @ new)"
    using Cons.IH [of "Suc k" ?i] rest k by auto
  moreover have "take (Suc k) ?i = take k infos @ [m]"
    using same k len by (simp add: take_Suc_conv_app_nth)
  moreover have "update_block (k, uids ! k, m) infos = Inr ?i" using uid k len by (simp add: update_block_def)
  ultimately show ?case using Cons_nth_drop_Suc [OF k, symmetric] by (simp add: enumerate_simps)
qed

lemma seq_update_eq:
  assumes "wf_seq s" and "map rm_uid new = sq_block_uids s"
  shows "seq_update now new s = bindR (sort_spans new) (\<lambda>(by_priority, table).
    Inr (s\<lparr>sq_block_infos := new, sq_spans_by_priority := by_priority,
           sq_spans_containing_block := table, sq_last_updated_time := Some now\<rparr>))"
proof -
  have "length new = length (sq_block_uids s)" using assms(2) by (metis length_map)
  moreover have "foldR update_block (enumerate 0 (zip (sq_block_uids s) new)) (sq_block_infos s) = Inr new"
    using update_blocks [of new 0 "sq_block_uids s" "sq_block_infos s"] assms by (simp add: wf_seq_def)
  ultimately show ?thesis by (simp add: seq_update_def)
qed

subsection \<open>Properties\<close>

text \<open>The routing table is exact after an update: when the new infos are for the sequence's blocks and
  the first uid parses, \<open>update_\<close> succeeds, and then block \<open>b\<close> lists exactly the spans of online servers
  that cover \<open>b\<close>, one per peer, longest first.\<close>

theorem routing_table_exact:
  assumes "wf_seq s" and "map rm_uid new = sq_block_uids s" and "compute_spans new ONLINE = Inr spans"
  shows "\<exists>s'. seq_update now new s = Inr s' \<and> wf_seq s' \<and> sq_block_infos s' = new \<and> sq_last_updated_time s' = Some now \<and>
    length (sq_spans_containing_block s') = length new \<and>
    (\<forall>b < length new. set (sq_spans_containing_block s' ! b) =
        {sp. (\<exists>p. dict_get spans p = Some sp) \<and> rs_start sp \<le> int b \<and> int b < rs_end sp} \<and>
      distinct (map rs_peer (sq_spans_containing_block s' ! b)) \<and>
      sorted (map (\<lambda>sp. - span_length sp) (sq_spans_containing_block s' ! b)))"
proof -
  let ?by = "sort_key (\<lambda>sp. - span_length sp) (map snd spans)"
  have wf: "wf_spans (int (length new)) ONLINE spans" using assms(3) by (rule compute_spans_wf)
  obtain table where t: "sort_spans new = Inr (?by, table)" "length table = length new"
    "\<forall>k < length new. table ! k = filter (\<lambda>sp. rs_start sp \<le> int k \<and> int k < rs_end sp) ?by"
    using sort_spans_eq [OF assms(3)] by blast
  have "map rs_peer (map snd spans) = map fst spans" using wf by (auto simp: wf_spans_def wf_span_def)
  then have "distinct (map rs_peer (map snd spans))" using wf by (metis wf_spans_def)
  then have "distinct (map rs_peer ?by)" by (metis mset_eq_imp_distinct_iff mset_map mset_sort)
  then have peers: "distinct (map rs_peer (table ! b))" if "b < length new" for b
    using t(3) that by (simp add: distinct_map_filter)
  have "sorted (map (\<lambda>sp. - span_length sp) ?by)" by simp
  then have sorted: "sorted (map (\<lambda>sp. - span_length sp) (table ! b))" if "b < length new" for b
    using t(3) that by (simp add: sorted_filter)
  have mem: "sp \<in> snd ` set spans \<longleftrightarrow> (\<exists>p. dict_get spans p = Some sp)" for sp
    using wf by (force simp: wf_spans_def map_of_eq_Some_iff)
  show ?thesis
    using assms(1,2) t(1,2) peers sorted
    by (auto simp: seq_update_eq [OF assms(1,2)] wf_seq_def t(3) mem)
qed

theorem routing_table_exact_witness:
  "\<exists>s'. seq_update 1 [\<lparr>rm_uid = block_uid ''m'' 3, rm_servers = [(''QmA'', sample_info)]\<rparr>] (make_empty [block_uid ''m'' 3]) = Inr s' \<and>
     set (sq_spans_containing_block s' ! 0) = {\<lparr>rs_peer = ''QmA'', rs_start = 0, rs_end = 1, rs_info = sample_info\<rparr>}"
proof -
  let ?new = "[\<lparr>rm_uid = block_uid ''m'' 3, rm_servers = [(''QmA'', sample_info)]\<rparr>]"
  have spans: "compute_spans ?new ONLINE = Inr [(''QmA'', \<lparr>rs_peer = ''QmA'', rs_start = 0, rs_end = 1, rs_info = sample_info\<rparr>)]"
    by (simp add: compute_spans_def parse_block_uid span_block_def span_visit_def span_entry_def new_span_def sample_info_def)
  have "map rm_uid ?new = sq_block_uids (make_empty [block_uid ''m'' 3])" by (simp add: make_empty_def)
  from routing_table_exact [OF make_empty_wf this spans, of 1] show ?thesis by auto
qed

end
