(* ===== verification/Ping.thy ===== *)
theory Ping
  imports Data_Structures
begin

text \<open>
  \<open>src/peerz/utils/ping.py\<close> and \<open>src/peerz/utils/random.py\<close>: measuring round-trip times and smoothing
  them. The remote call, the clock and \<open>random.sample\<close> are parameters; so is \<open>hivemind.TimedStorage\<close>,
  of which the code relies on the laws in \<open>timed_storage\<close>. A failed ping counts as an infinite time.
\<close>

text \<open>Multiplication of a float by a positive number, and addition.\<close>

fun xscale :: "rat \<Rightarrow> xfloat \<Rightarrow> xfloat" where
  "xscale r (Fin x) = Fin (r * x)"
| "xscale r PInf = PInf"

fun xadd :: "xfloat \<Rightarrow> xfloat \<Rightarrow> xfloat" where
  "xadd (Fin x) (Fin y) = Fin (x + y)"
| "xadd _ _ = PInf"

text \<open>How \<open>rpc_ping\<close> ended: it answered, it failed with the given message, after some seconds.\<close>

datatype rpc_ping = Pong rat | PingError string rat

definition ping :: "(peer_id \<Rightarrow> rpc_ping) \<Rightarrow> peer_id \<Rightarrow> xfloat" where
  "ping rpc peer =
     (case rpc peer of
        Pong elapsed \<Rightarrow> Fin elapsed
      | PingError msg elapsed \<Rightarrow> if msg = ''protocol not supported'' then Fin elapsed else PInf)"

definition ping_parallel :: "(peer_id \<Rightarrow> rpc_ping) \<Rightarrow> peer_id list \<Rightarrow> (peer_id, xfloat) dict" where
  "ping_parallel rpc peers = fold (\<lambda>p. dict_set p (ping rpc p)) peers []"

text \<open>\<open>TimedStorage\<close>: its operations, and the laws the aggregator relies on. \<open>live t now\<close> is what the
  storage shows at time \<open>now\<close>.\<close>

record 's timed_storage =
  ts_store :: "peer_id \<Rightarrow> xfloat \<Rightarrow> rat \<Rightarrow> rat \<Rightarrow> 's \<Rightarrow> 's"
  ts_get :: "rat \<Rightarrow> 's \<Rightarrow> peer_id \<Rightarrow> xfloat option"
  ts_items :: "rat \<Rightarrow> 's \<Rightarrow> (peer_id, xfloat) dict"

definition timed_storage_ok :: "'s timed_storage \<Rightarrow> bool" where
  "timed_storage_ok S \<longleftrightarrow>
     (\<forall>p v expiration now s q. now < expiration \<longrightarrow>
        ts_get S now (ts_store S p v expiration now s) q = (if q = p then Some v else ts_get S now s q)) \<and>
     (\<forall>now s. wf_dict (ts_items S now s) \<and> (\<forall>p. dict_get (ts_items S now s) p = ts_get S now s p))"

definition smooth :: "rat \<Rightarrow> xfloat option \<Rightarrow> xfloat \<Rightarrow> xfloat" where
  "smooth ema_alpha prev rtt =
     (case prev of
        None \<Rightarrow> rtt
      | Some v \<Rightarrow> if v \<noteq> PInf then xadd (xscale ema_alpha rtt) (xscale (1 - ema_alpha) v) else rtt)"

text \<open>\<open>PingAggregator.ping\<close> and \<open>to_dict\<close>, at the clock reading \<open>now\<close>.\<close>

definition aggregate_ping ::
    "'s timed_storage \<Rightarrow> rat \<Rightarrow> rat \<Rightarrow> rat \<Rightarrow> (peer_id \<Rightarrow> rpc_ping) \<Rightarrow> peer_id list \<Rightarrow> 's \<Rightarrow> 's" where
  "aggregate_ping S ema_alpha expiration now rpc peers emas =
     fold (\<lambda>(p, rtt) s. ts_store S p (smooth ema_alpha (ts_get S now s p) rtt) (now + expiration) now s)
       (ping_parallel rpc peers) emas"

definition ping_to_dict :: "'s timed_storage \<Rightarrow> rat \<Rightarrow> 's \<Rightarrow> (peer_id, xfloat) dict" where
  "ping_to_dict S now emas = ts_items S now emas"

text \<open>\<open>sample_up_to\<close>; \<open>random.sample(population, k)\<close> is a parameter.\<close>

definition sample_up_to :: "('a list \<Rightarrow> int \<Rightarrow> 'a list) \<Rightarrow> 'a list \<Rightarrow> int \<Rightarrow> 'a list" where
  "sample_up_to random_sample population k =
     (if int (length population) > k then random_sample population k else population)"

definition random_sample_ok :: "('a list \<Rightarrow> int \<Rightarrow> 'a list) \<Rightarrow> bool" where
  "random_sample_ok f \<longleftrightarrow> (\<forall>xs k. 0 \<le> k \<and> k \<le> int (length xs) \<longrightarrow> length (f xs k) = nat k \<and> mset (f xs k) \<subseteq># mset xs)"

subsection \<open>Lemmas\<close>

lemma dict_of_keys:
  "dict_get (fold (\<lambda>p. dict_set p (f p)) ps d) q = (if q \<in> set ps then Some (f q) else dict_get d q)"
  by (induction ps arbitrary: d) auto

lemma wf_dict_of_keys: "wf_dict d \<Longrightarrow> wf_dict (fold (\<lambda>p. dict_set p (f p)) ps d)"
  by (induction ps arbitrary: d) auto

lemma ping_parallel_get: "dict_get (ping_parallel rpc peers) p = (if p \<in> set peers then Some (ping rpc p) else None)"
  by (simp add: ping_parallel_def dict_of_keys)

lemma ping_parallel_wf: "wf_dict (ping_parallel rpc peers)"
  by (simp add: ping_parallel_def wf_dict_of_keys)

lemma store_all:
  assumes "timed_storage_ok S" and "0 < e" and "wf_dict rtts"
  shows "ts_get S now (fold (\<lambda>(p, rtt) s. ts_store S p (smooth a (ts_get S now s p) rtt) (now + e) now s) rtts s) q =
    (case dict_get rtts q of None \<Rightarrow> ts_get S now s q | Some rtt \<Rightarrow> Some (smooth a (ts_get S now s q) rtt))"
  using assms(3)
proof (induction rtts arbitrary: s)
  case (Cons e rtts)
  obtain p rtt where e: "e = (p, rtt)" by (cases e)
  have "dict_get rtts p = None" using Cons.prems e by (simp add: map_of_eq_None_iff)
  with Cons e assms(1,2) show ?case by (auto simp: timed_storage_ok_def split: option.splits)
qed simp

lemma smooth_between:
  assumes "0 < a" "a < 1"
  shows "smooth a (Some (Fin v)) (Fin r) \<in> {Fin (min v r)..Fin (max v r)}"
proof -
  have "min v r \<le> a * r + (1 - a) * v" "a * r + (1 - a) * v \<le> max v r"
    using assms convex_bound_le [of r "max v r" v a "1 - a"] convex_bound_le [of "- r" "- min v r" "- v" a "1 - a"]
    by auto
  then show ?thesis by (simp add: smooth_def)
qed

subsection \<open>Properties\<close>

text \<open>Smoothing of round-trip times: after a round of pings every pinged peer is stored with the new
  time when it was unknown or unreachable before, with infinity when the ping failed, and otherwise
  with a value between its old and its new time; peers that were not pinged keep their value.\<close>

theorem ping_smooths:
  assumes "timed_storage_ok S" and "0 < expiration" and "0 < a" "a < 1"
    and "rtts = ping_to_dict S now (aggregate_ping S a expiration now rpc peers emas)"
  shows "(\<forall>p. p \<notin> set peers \<longrightarrow> dict_get rtts p = ts_get S now emas p) \<and>
    (\<forall>p \<in> set peers. ts_get S now emas p \<in> {None, Some PInf} \<longrightarrow> dict_get rtts p = Some (ping rpc p)) \<and>
    (\<forall>p \<in> set peers. ping rpc p = PInf \<longrightarrow> dict_get rtts p = Some PInf) \<and>
    (\<forall>p \<in> set peers. \<forall>v r. ts_get S now emas p = Some (Fin v) \<and> ping rpc p = Fin r \<longrightarrow>
       (\<exists>x. dict_get rtts p = Some (Fin x) \<and> min v r \<le> x \<and> x \<le> max v r))"
proof -
  have get: "dict_get rtts p =
      (if p \<in> set peers then Some (smooth a (ts_get S now emas p) (ping rpc p)) else ts_get S now emas p)" for p
    using assms(1) store_all [OF assms(1,2) ping_parallel_wf, of now a rpc peers emas p]
    by (auto simp: assms(5) ping_to_dict_def aggregate_ping_def timed_storage_ok_def ping_parallel_get)
  have "\<exists>x. smooth a (Some (Fin v)) (Fin r) = Fin x \<and> min v r \<le> x \<and> x \<le> max v r" for v r
    using smooth_between [OF assms(3,4), of v r] by (simp add: smooth_def)
  moreover have "smooth a v PInf = PInf" for v by (cases v) (auto simp: smooth_def)
  ultimately show ?thesis by (auto simp: get smooth_def split: option.splits)
qed

text \<open>A storage whose entries never expire.\<close>

definition plain_storage :: "(peer_id, xfloat) dict timed_storage" where
  "plain_storage = \<lparr>ts_store = \<lambda>p v _ _ s. dict_set p v s, ts_get = \<lambda>_ s p. dict_get s p,
     ts_items = \<lambda>_ s. AList.clearjunk s\<rparr>"

lemma plain_storage_ok: "timed_storage_ok plain_storage"
  by (simp add: timed_storage_ok_def plain_storage_def distinct_clearjunk map_of_clearjunk)

theorem ping_smooths_witness:
  "\<exists>x. dict_get (ping_to_dict plain_storage 0 (aggregate_ping plain_storage (1 / 5) 300 0 (\<lambda>_. Pong 2) [''QmA'', ''QmB'']
      [(''QmA'', Fin 1)])) ''QmA'' = Some (Fin x) \<and> 1 \<le> x \<and> x \<le> 2"
  using ping_smooths [OF plain_storage_ok, of 300 "1 / 5" _ 0 "\<lambda>_. Pong 2" "[''QmA'', ''QmB'']" "[(''QmA'', Fin 1)]", OF _ _ _ refl]
  by (auto simp: plain_storage_def ping_def)

end
