(* ===== verification/Sequence_Manager.thy ===== *)
theory Sequence_Manager
  imports Sequence_Info Ping
begin

text \<open>
  \<open>src/peerz/client/routing/sequence_manager.py\<close>, \<open>client/routing/spending_policy.py\<close> and
  \<open>client/config.py\<close>: the client's view of the swarm, how it is refreshed from the DHT, and how a chain
  of servers is chosen for a range of blocks.

  Parameters: the DHT lookup with its pydantic and base58 parts (see \<open>Dht_Utils\<close>), hivemind's
  \<open>Blacklist\<close> and \<open>TimedStorage\<close>, the remote calls, \<open>dijkstar.find_path\<close>, \<open>np.random.choice\<close>,
  \<open>random.sample\<close> and \<open>random.choice\<close>, and the clock. A graph of dijkstar is the dictionary of its
  weighted edges.
\<close>

subsection \<open>State\<close>

record client_config =
  cc_initial_peers :: "string list"
  cc_dht_prefix :: "string option"
  cc_use_server_to_server :: bool
  cc_connect_timeout :: rat
  cc_request_timeout :: rat
  cc_update_period :: rat
  cc_max_retries :: "int option"
  cc_min_backoff :: rat
  cc_max_backoff :: rat
  cc_ban_timeout :: rat
  cc_active_adapter :: "string option"
  cc_max_pinged :: int
  cc_ping_timeout :: rat

record 'b blacklist =
  bl_register_failure :: "peer_id \<Rightarrow> 'b \<Rightarrow> 'b"
  bl_register_success :: "peer_id \<Rightarrow> 'b \<Rightarrow> 'b"
  bl_contains :: "peer_id \<Rightarrow> 'b \<Rightarrow> bool"

record ('b, 's, 'r) manager =
  mg_config :: client_config
  mg_sequence_info :: seq_info
  mg_rpc_info :: "'r option"
  mg_banned_peers :: 'b
  mg_allowed_servers :: "peer_id list option"
  mg_blocked_servers :: "peer_id list option"
  mg_ping_emas :: 's
  mg_ready :: bool
  mg_trigger :: bool

datatype peer_ref = PeerRef peer_id | StrRef string | BadRef

definition peer_ids_to_set :: "(string \<Rightarrow> peer_id result) \<Rightarrow> peer_ref list option \<Rightarrow> peer_id list option result" where
  "peer_ids_to_set from_base58 refs =
     (case refs of
        None \<Rightarrow> Inr None
      | Some rs \<Rightarrow>
          bindR (foldR (\<lambda>r acc. case r of
                     PeerRef p \<Rightarrow> Inr (List.insert p acc)
                   | StrRef s \<Rightarrow> bindR (from_base58 s) (\<lambda>p. Inr (List.insert p acc))
                   | BadRef \<Rightarrow> Inl TypeError) rs []) (\<lambda>ps. Inr (Some ps)))"

text \<open>\<open>__init__\<close> for a given DHT: \<open>state\<close> is the optional shared state, its parts optional as in the code.\<close>

record ('b, 'r) shared_state =
  sh_sequence_info :: "seq_info option"
  sh_rpc_info :: "'r option"
  sh_banned_peers :: "'b option"

definition init_manager ::
    "(string \<Rightarrow> peer_id result) \<Rightarrow> (rat \<Rightarrow> rat \<Rightarrow> 'b) \<Rightarrow> 's \<Rightarrow> client_config \<Rightarrow> peer_ref list option \<Rightarrow> peer_ref list option
     \<Rightarrow> module_uid list \<Rightarrow> ('b, 'r) shared_state option \<Rightarrow> ('b, 's, 'r) manager result" where
  "init_manager from_base58 new_blacklist no_emas config allowed blocked block_uids state =
     guardR (case cc_dht_prefix config of None \<Rightarrow> False | Some p \<Rightarrow> p \<noteq> []) AssertionError
     (guardR (block_uids \<noteq> []) AssertionError
     (bindR (peer_ids_to_set from_base58 allowed) (\<lambda>al.
      bindR (peer_ids_to_set from_base58 blocked) (\<lambda>bl.
      (let st = (case state of None \<Rightarrow> \<lparr>sh_sequence_info = None, sh_rpc_info = None, sh_banned_peers = None\<rparr> | Some s \<Rightarrow> s);
           seq = (case sh_sequence_info st of None \<Rightarrow> make_empty block_uids | Some s \<Rightarrow> s);
           fresh = (sq_last_updated_time seq \<noteq> None)
       in guardR (fresh \<longrightarrow> block_uids = sq_block_uids seq) AssertionError
            (Inr \<lparr>mg_config = config, mg_sequence_info = seq, mg_rpc_info = sh_rpc_info st,
                 mg_banned_peers = (case sh_banned_peers st of None \<Rightarrow> new_blacklist (cc_ban_timeout config) 2 | Some b \<Rightarrow> b),
                 mg_allowed_servers = al, mg_blocked_servers = bl, mg_ping_emas = no_emas,
                 mg_ready = fresh, mg_trigger = False\<rparr>))))))"

subsection \<open>Delays\<close>

definition rtt_to_delay :: "xfloat option \<Rightarrow> rat" where
  "rtt_to_delay rtt = (case rtt of None \<Rightarrow> 15 / 100 | Some (Fin r) \<Rightarrow> min (r / 2) 5 | Some PInf \<Rightarrow> 5)"

definition has_cache_for :: "remote_span_info \<Rightarrow> int option \<Rightarrow> bool" where
  "has_cache_for sp cache_tokens_needed =
     (case (cache_tokens_needed, cache_tokens_left (rs_info sp)) of
        (Some need, Some left) \<Rightarrow> need * 2 * span_length sp \<le> left
      | _ \<Rightarrow> True)"

definition get_retry_delay :: "client_config \<Rightarrow> nat \<Rightarrow> rat" where
  "get_retry_delay config attempt_no =
     (if attempt_no = 0 then 0
      else min (cc_min_backoff config * 2 ^ (attempt_no - 1)) (cc_max_backoff config))"

subsection \<open>The inference graph\<close>

datatype node = StartNode | EndNode | ServerNode peer_id int

type_synonym graph = "(node \<times> node, rat) dict"

abbreviation add_edge :: "node \<Rightarrow> node \<Rightarrow> rat \<Rightarrow> graph \<Rightarrow> graph" where
  "add_edge u v w g \<equiv> dict_set (u, v) w g"

definition overhead_delay :: rat where "overhead_delay = 18 / 1000"
definition default_inference_rps :: rat where "default_inference_rps = 300"
definition alloc_delay :: rat where "alloc_delay = 10"

definition missing_blocks :: "remote_span_info list list \<Rightarrow> int \<Rightarrow> int \<Rightarrow> int list result" where
  "missing_blocks table a b =
     bindR (mapR (\<lambda>i. bindR (py_index table i) (\<lambda>spans. Inr (i, spans))) (py_range a b)) (\<lambda>rows.
       Inr (map fst (filter (\<lambda>(i, spans). spans = []) rows)))"

definition hop_delay :: "xfloat option \<Rightarrow> int option \<Rightarrow> remote_span_info \<Rightarrow> rat" where
  "hop_delay rtt need sp = rtt_to_delay rtt + overhead_delay + (if has_cache_for sp need then 0 else alloc_delay)"

definition client_edges ::
    "(peer_id, xfloat) dict \<Rightarrow> int option \<Rightarrow> int \<Rightarrow> remote_span_info list \<Rightarrow> graph \<Rightarrow> graph" where
  "client_edges rtts need start_index spans =
     fold (\<lambda>sp. add_edge StartNode (ServerNode (rs_peer sp) start_index) (hop_delay (dict_get rtts (rs_peer sp)) need sp)) spans"

definition return_edges :: "(peer_id, xfloat) dict \<Rightarrow> int \<Rightarrow> remote_span_info list \<Rightarrow> graph \<Rightarrow> graph" where
  "return_edges rtts end_index spans =
     fold (\<lambda>sp. add_edge (ServerNode (rs_peer sp) end_index) EndNode (rtt_to_delay (dict_get rtts (rs_peer sp)))) spans"

definition server_rtt :: "remote_span_info \<Rightarrow> remote_span_info \<Rightarrow> xfloat option" where
  "server_rtt cur_span next_span =
     (case next_pings (rs_info cur_span) of None \<Rightarrow> None | Some d \<Rightarrow> dict_get d (rs_peer next_span))"

definition switch_edges :: "int option \<Rightarrow> int \<Rightarrow> remote_span_info list \<Rightarrow> remote_span_info list \<Rightarrow> graph \<Rightarrow> graph" where
  "switch_edges need block_idx prev_spans next_spans =
     fold (\<lambda>cur_span g.
       if rs_end cur_span \<noteq> block_idx then g
       else fold (\<lambda>next_span. add_edge (ServerNode (rs_peer cur_span) block_idx) (ServerNode (rs_peer next_span) block_idx)
                   (hop_delay (server_rtt cur_span next_span) need next_span)) next_spans g) prev_spans"

definition compute_edge :: "remote_span_info \<Rightarrow> int \<Rightarrow> graph \<Rightarrow> graph result" where
  "compute_edge sp block_idx g =
     (let rps = (case inference_rps (rs_info sp) of None \<Rightarrow> default_inference_rps | Some r \<Rightarrow> r) in
      if rps = 0 then Inl ZeroDivisionError
      else Inr (add_edge (ServerNode (rs_peer sp) block_idx) (ServerNode (rs_peer sp) (block_idx + 1)) (1 / rps) g))"

definition compute_edges :: "int \<Rightarrow> int \<Rightarrow> remote_span_info \<Rightarrow> graph \<Rightarrow> graph result" where
  "compute_edges start_index end_index sp =
     foldR (compute_edge sp) (py_range (max (rs_start sp) start_index) (min (rs_end sp) end_index))"

definition build_inference_graph ::
    "(peer_id, xfloat) dict \<Rightarrow> remote_span_info list \<Rightarrow> remote_span_info list list \<Rightarrow> int \<Rightarrow> int \<Rightarrow> int option \<Rightarrow> graph result" where
  "build_inference_graph rtts spans table start_index end_index need =
     bindR (missing_blocks table start_index end_index) (\<lambda>missing.
     guardR (missing = []) (MissingBlocksError missing)
     (bindR (py_index table start_index) (\<lambda>first_spans.
      bindR (py_index table (end_index - 1)) (\<lambda>last_spans.
      bindR (foldR (\<lambda>i g. bindR (py_index table (i - 1)) (\<lambda>prev_spans.
                          bindR (py_index table i) (\<lambda>next_spans.
                            Inr (switch_edges need i prev_spans next_spans g))))
               (py_range (start_index + 1) end_index)
               (return_edges rtts end_index last_spans (client_edges rtts need start_index first_spans [])))
        (foldR (compute_edges start_index end_index) spans)))))"

subsection \<open>Routes\<close>

text \<open>The loop over \<open>path.nodes[1:-1]\<close>: unpacking a node that is not a pair raises.\<close>

definition extend_route :: "(peer_id, server_info) dict \<Rightarrow> node \<Rightarrow> remote_span_info list \<Rightarrow> remote_span_info list result" where
  "extend_route infos n route =
     (case n of
        ServerNode p i \<Rightarrow>
          if route = [] \<or> rs_peer (last route) \<noteq> p
          then bindR (dict_item infos p) (\<lambda>si. Inr (route @ [\<lparr>rs_peer = p, rs_start = i, rs_end = i, rs_info = si\<rparr>]))
          else Inr (butlast route @ [(last route)\<lparr>rs_end := i\<rparr>])
      | _ \<Rightarrow> Inl ValueError)"

definition route_of_path :: "(peer_id, server_info) dict \<Rightarrow> node list \<Rightarrow> remote_span_info list result" where
  "route_of_path infos nodes =
     bindR (foldR (extend_route infos) (butlast (tl nodes)) []) (\<lambda>route.
       Inr (filter (\<lambda>sp. span_length sp > 0) route))"

definition route_infos :: "remote_span_info list list \<Rightarrow> (peer_id, server_info) dict" where
  "route_infos rows = fold (\<lambda>sp. dict_set (rs_peer sp) (rs_info sp)) (concat rows) []"

type_synonym find_path = "graph \<Rightarrow> node \<Rightarrow> node \<Rightarrow> node list result"

definition make_sequence_with_min_latency ::
    "find_path \<Rightarrow> (peer_id, xfloat) dict \<Rightarrow> seq_info \<Rightarrow> int \<Rightarrow> int \<Rightarrow> int option \<Rightarrow> remote_span_info list result" where
  "make_sequence_with_min_latency find_path rtts s start_index end_index need =
     (let table = sq_spans_containing_block s in
      if start_index = end_index then Inr []
      else
        bindR (missing_blocks table start_index end_index) (\<lambda>missing.
        guardR (missing = []) (MissingBlocksError missing)
        (bindR (mapR (py_index table) (py_range start_index end_index)) (\<lambda>rows.
         bindR (build_inference_graph rtts (sq_spans_by_priority s) table start_index end_index need) (\<lambda>graph.
         bindR (find_path graph StartNode EndNode) (\<lambda>nodes.
           route_of_path (route_infos rows) nodes))))))"

text \<open>The loop of \<open>_make_sequence_with_max_throughput\<close>; \<open>draw i spans weights\<close> is the draw made at
  block \<open>i\<close>.\<close>

definition throughput_weight :: "(peer_id, xfloat) dict \<Rightarrow> remote_span_info \<Rightarrow> rat" where
  "throughput_weight rtts sp =
     (if dict_get rtts (rs_peer sp) \<noteq> Some PInf then of_int (span_length sp) else 1 / 1000000)"

function make_sequence_with_max_throughput ::
    "(int \<Rightarrow> remote_span_info list \<Rightarrow> rat list \<Rightarrow> remote_span_info) \<Rightarrow> (peer_id, xfloat) dict
     \<Rightarrow> remote_span_info list list \<Rightarrow> int \<Rightarrow> int \<Rightarrow> remote_span_info list result" where
  "make_sequence_with_max_throughput draw rtts table current_index end_index =
     (if current_index < end_index then
        bindR (py_index table current_index) (\<lambda>candidates.
        guardR (candidates \<noteq> []) (MissingBlocksError [current_index])
        (let weights = map (throughput_weight rtts) candidates;
             chosen = draw current_index candidates (map (\<lambda>w. w / sum_list weights) weights)
         in if rs_start chosen \<le> current_index \<and> current_index < rs_end chosen
            then bindR (make_sequence_with_max_throughput draw rtts table (rs_end chosen) end_index)
                   (\<lambda>rest. Inr (chosen\<lparr>rs_start := current_index\<rparr> # rest))
            else Inl AssertionError))
      else Inr [])"
  by auto
termination
  by (relation "measure (\<lambda>(_, _, _, i, e). nat (e - i))") auto

declare make_sequence_with_max_throughput.simps [simp del]

datatype mode = MinLatency | MaxThroughput | OtherMode string

definition make_sequence ::
    "find_path \<Rightarrow> (int \<Rightarrow> remote_span_info list \<Rightarrow> rat list \<Rightarrow> remote_span_info) \<Rightarrow> (peer_id, xfloat) dict
     \<Rightarrow> seq_info \<Rightarrow> int \<Rightarrow> int option \<Rightarrow> mode \<Rightarrow> int option \<Rightarrow> remote_span_info list result" where
  "make_sequence find_path draw rtts s start_index end_index mode need =
     (let e = (case end_index of None \<Rightarrow> seq_len s | Some e \<Rightarrow> e) in
      case mode of
        MinLatency \<Rightarrow> make_sequence_with_min_latency find_path rtts s start_index e need
      | MaxThroughput \<Rightarrow> make_sequence_with_max_throughput draw rtts (sq_spans_containing_block s) start_index e
      | OtherMode _ \<Rightarrow> Inl RuntimeError)"

subsection \<open>Refreshing the view\<close>

text \<open>The loop body of \<open>_update\<close> for one block.\<close>

definition filter_servers :: "'b blacklist \<Rightarrow> ('b, 's, 'r) manager \<Rightarrow> remote_module_info \<Rightarrow> remote_module_info" where
  "filter_servers B m info =
     (let listed = filter (\<lambda>(p, _). (case mg_allowed_servers m of None \<Rightarrow> True | Some al \<Rightarrow> p \<in> set al) \<and>
                                  (case mg_blocked_servers m of None \<Rightarrow> True | Some bl \<Rightarrow> p \<notin> set bl)) (rm_servers info);
          valid = filter (\<lambda>(p, _). \<not> bl_contains B p (mg_banned_peers m)) listed
      in info\<lparr>rm_servers := (if length valid < length listed then (if valid \<noteq> [] then valid else listed) else listed)\<rparr>)"

text \<open>The servers that are pinged: line 381 samples servers of the first block, and line 382 overwrites
  that set.\<close>

definition pinged_servers ::
    "(peer_id list \<Rightarrow> int \<Rightarrow> peer_id list) \<Rightarrow> int \<Rightarrow> remote_span_info list list \<Rightarrow> peer_id list result" where
  "pinged_servers random_sample max_pinged table =
     bindR (py_index table 0) (\<lambda>first_spans.
     bindR (py_index table (-1)) (\<lambda>last_spans.
       (let first_servers = map rs_peer first_spans;
            middle_servers = concat (map (map rs_peer) (py_slice table 1 (-1)));
            last_servers = map rs_peer last_spans;
            pinged = remdups (sample_up_to random_sample first_servers max_pinged);
            pinged = remdups (sample_up_to random_sample middle_servers max_pinged)
        in Inr (remdups (pinged @ sample_up_to random_sample last_servers max_pinged)))))"

text \<open>\<open>_update\<close>: \<open>lookup\<close> is \<open>get_remote_module_infos\<close> for the latest values, \<open>now\<close> the clock.\<close>

definition update_manager ::
    "'b blacklist \<Rightarrow> 's timed_storage \<Rightarrow> (module_uid list \<Rightarrow> string option \<Rightarrow> remote_module_info list result)
     \<Rightarrow> (peer_id list \<Rightarrow> int \<Rightarrow> peer_id list) \<Rightarrow> (peer_id \<Rightarrow> rpc_ping) \<Rightarrow> rat \<Rightarrow> ('b, 's, 'r) manager
     \<Rightarrow> ('b, 's, 'r) manager result" where
  "update_manager B S lookup random_sample rpc now m =
     bindR (lookup (sq_block_uids (mg_sequence_info m)) (cc_active_adapter (mg_config m))) (\<lambda>new_infos.
     bindR (seq_update now (map (filter_servers B m) new_infos) (mg_sequence_info m)) (\<lambda>s.
     bindR (pinged_servers random_sample (cc_max_pinged (mg_config m)) (sq_spans_containing_block s)) (\<lambda>pinged.
       Inr (m\<lparr>mg_sequence_info := s,
              mg_ping_emas := aggregate_ping S (1 / 5) 300 now rpc pinged (mg_ping_emas m),
              mg_ready := True\<rparr>))))"

text \<open>One turn of the update thread: an exception is logged and the view stays as it was.\<close>

definition update_thread_turn ::
    "(('b, 's, 'r) manager \<Rightarrow> ('b, 's, 'r) manager result) \<Rightarrow> ('b, 's, 'r) manager \<Rightarrow> ('b, 's, 'r) manager" where
  "update_thread_turn upd m =
     (let m' = m\<lparr>mg_trigger := False\<rparr> in case upd m' of Inl _ \<Rightarrow> m' | Inr u \<Rightarrow> u)"

definition request_update :: "('b, 's, 'r) manager \<Rightarrow> ('b, 's, 'r) manager" where
  "request_update m = m\<lparr>mg_ready := False, mg_trigger := True\<rparr>"

text \<open>\<open>make_sequence\<close> of the manager: it first waits for an update when the view is not ready; \<open>wait\<close> is
  what the update thread does until it sets \<open>ready\<close>.\<close>

definition manager_make_sequence ::
    "(('b, 's, 'r) manager \<Rightarrow> ('b, 's, 'r) manager) \<Rightarrow> 's timed_storage \<Rightarrow> rat \<Rightarrow> find_path
     \<Rightarrow> (int \<Rightarrow> remote_span_info list \<Rightarrow> rat list \<Rightarrow> remote_span_info) \<Rightarrow> ('b, 's, 'r) manager
     \<Rightarrow> int \<Rightarrow> int option \<Rightarrow> mode \<Rightarrow> int option \<Rightarrow> ('b, 's, 'r) manager \<times> remote_span_info list result" where
  "manager_make_sequence wait S now find_path draw m start_index end_index mode need =
     (let m' = (if mg_ready m then m else wait (request_update m)) in
      (m', make_sequence find_path draw (ping_to_dict S now (mg_ping_emas m')) (mg_sequence_info m')
             start_index end_index mode need))"

definition on_request_failure :: "'b blacklist \<Rightarrow> peer_id option \<Rightarrow> ('b, 's, 'r) manager \<Rightarrow> ('b, 's, 'r) manager" where
  "on_request_failure B peer m =
     (let banned = (case peer of None \<Rightarrow> mg_banned_peers m | Some p \<Rightarrow> bl_register_failure B p (mg_banned_peers m));
          s = mg_sequence_info m;
          infos = map (\<lambda>info. case peer of None \<Rightarrow> info | Some p \<Rightarrow> info\<lparr>rm_servers := dict_pop p (rm_servers info)\<rparr>)
                    (sq_block_infos s);
          m' = m\<lparr>mg_banned_peers := banned, mg_sequence_info := s\<lparr>sq_block_infos := infos\<rparr>\<rparr>
      in if \<exists>info \<in> set infos. rm_servers info = [] then request_update m' else m')"

definition on_request_success :: "'b blacklist \<Rightarrow> peer_id \<Rightarrow> ('b, 's, 'r) manager \<Rightarrow> ('b, 's, 'r) manager" where
  "on_request_success B peer m = m\<lparr>mg_banned_peers := bl_register_success B peer (mg_banned_peers m)\<rparr>"

definition no_points :: rat where "no_points = 0"

definition get_request_metadata :: "('b, 's, 'r) manager \<Rightarrow> 'x \<Rightarrow> rat \<times> string option \<times> 'x" where
  "get_request_metadata m args_structure = (no_points, cc_active_adapter (mg_config m), args_structure)"

text \<open>\<open>__getitem__\<close> with a slice: a manager for a part of the blocks, sharing the bans and the rpc info.\<close>

definition manager_getitem :: "('b, 's, 'r) manager \<Rightarrow> 's \<Rightarrow> int \<Rightarrow> int \<Rightarrow> ('b, 's, 'r) manager result" where
  "manager_getitem m no_emas a b =
     bindR (seq_getitem (mg_sequence_info m) a b) (\<lambda>s.
       guardR (sq_block_uids s \<noteq> []) AssertionError
         (Inr (m\<lparr>mg_sequence_info := s, mg_ping_emas := no_emas,
                 mg_ready := (sq_last_updated_time s \<noteq> None), mg_trigger := False\<rparr>)))"

subsection \<open>The rpc info of a server\<close>

text \<open>One attempt: \<open>pick\<close> is \<open>random.choice\<close> and \<open>call\<close> the remote call with its deserialisation.\<close>

definition rpc_info_attempt ::
    "(peer_id list \<Rightarrow> peer_id) \<Rightarrow> (peer_id \<Rightarrow> 'r result) \<Rightarrow> ('b, 's, 'r) manager \<Rightarrow> (peer_id \<times> 'r result, py_error) sum" where
  "rpc_info_attempt pick call m =
     (case py_index (sq_block_infos (mg_sequence_info m)) 0 of
        Inl e \<Rightarrow> Inr e
      | Inr info \<Rightarrow>
          (let active = map fst (filter (\<lambda>(_, si). si_state si = ONLINE) (rm_servers info)) in
           if active = [] then Inr (MissingBlocksError [0])
           else (let p = pick active in Inl (p, call p))))"

text \<open>The retry loop from attempt \<open>k\<close> on; \<open>wait k\<close> and \<open>call k\<close> are what happens in that attempt. The
  result is the manager with its rpc info, or the exception of the last allowed attempt.\<close>

partial_function (option) rpc_info_loop ::
    "'b blacklist \<Rightarrow> (peer_id list \<Rightarrow> peer_id) \<Rightarrow> (nat \<Rightarrow> ('b, 's, 'r) manager \<Rightarrow> ('b, 's, 'r) manager)
     \<Rightarrow> (nat \<Rightarrow> peer_id \<Rightarrow> 'r result) \<Rightarrow> nat \<Rightarrow> ('b, 's, 'r) manager \<Rightarrow> (('b, 's, 'r) manager \<times> 'r result) option" where
  "rpc_info_loop B pick wait call k m =
     (let m1 = (if mg_ready m then m else wait k (request_update m)) in
      case rpc_info_attempt pick (call k) m1 of
        Inl (p, Inr info) \<Rightarrow> Some (on_request_success B p (m1\<lparr>mg_rpc_info := Some info\<rparr>), Inr info)
      | other \<Rightarrow>
          (let peer = (case other of Inl (p, _) \<Rightarrow> Some p | Inr _ \<Rightarrow> None);
               exc = (case other of Inl (_, Inl e) \<Rightarrow> e | Inr e \<Rightarrow> e);
               m2 = on_request_failure B peer m1
           in if cc_max_retries (mg_config m2) = Some (int k + 1) then Some (m2, Inl exc)
              else rpc_info_loop B pick wait call (Suc k) m2))"

definition get_rpc_info ::
    "'b blacklist \<Rightarrow> (peer_id list \<Rightarrow> peer_id) \<Rightarrow> (nat \<Rightarrow> ('b, 's, 'r) manager \<Rightarrow> ('b, 's, 'r) manager)
     \<Rightarrow> (nat \<Rightarrow> peer_id \<Rightarrow> 'r result) \<Rightarrow> ('b, 's, 'r) manager \<Rightarrow> (('b, 's, 'r) manager \<times> 'r result) option" where
  "get_rpc_info B pick wait call m =
     (case mg_rpc_info m of Some info \<Rightarrow> Some (m, Inr info) | None \<Rightarrow> rpc_info_loop B pick wait call 0 m)"

subsection \<open>Contiguous routes\<close>

text \<open>The spans of a route follow each other without gaps from block \<open>a\<close> to block \<open>b\<close>; in the weak form
  spans may be empty.\<close>

fun contiguous :: "int \<Rightarrow> remote_span_info list \<Rightarrow> int \<Rightarrow> bool" where
  "contiguous a [] b = (a = b)"
| "contiguous a (sp # r) b = (rs_start sp = a \<and> a < rs_end sp \<and> contiguous (rs_end sp) r b)"

fun weakly_contiguous :: "int \<Rightarrow> remote_span_info list \<Rightarrow> int \<Rightarrow> bool" where
  "weakly_contiguous a [] b = (a = b)"
| "weakly_contiguous a (sp # r) b = (rs_start sp = a \<and> a \<le> rs_end sp \<and> weakly_contiguous (rs_end sp) r b)"

lemma contiguous_le: "contiguous a route b \<Longrightarrow> a \<le> b"
  by (induction a route b rule: contiguous.induct) auto

text \<open>A part of a span that some server announces.\<close>

definition part_of :: "remote_span_info \<Rightarrow> remote_span_info list \<Rightarrow> bool" where
  "part_of sp spans \<longleftrightarrow> (\<exists>sp0 \<in> set spans. rs_peer sp = rs_peer sp0 \<and> rs_info sp = rs_info sp0 \<and>
     rs_start sp0 \<le> rs_start sp \<and> rs_end sp \<le> rs_end sp0)"

lemma weakly_contiguous_filter:
  "weakly_contiguous a r b \<Longrightarrow> contiguous a (filter (\<lambda>sp. span_length sp > 0) r) b"
  by (induction r arbitrary: a) (auto simp: span_length_def)

lemma weakly_contiguous_snoc:
  "weakly_contiguous a (r @ [sp]) b \<longleftrightarrow> weakly_contiguous a r (rs_start sp) \<and> rs_start sp \<le> rs_end sp \<and> rs_end sp = b"
  by (induction r arbitrary: a) auto

subsection \<open>Maximal throughput\<close>

lemma max_throughput_route:
  assumes table: "sort_spans infos = Inr (spans, table)"
    and draw: "\<And>i xs ws. xs \<noteq> [] \<Longrightarrow> draw i xs ws \<in> set xs"
    and range: "0 \<le> a" "e \<le> int (length infos)"
    and served: "\<And>b. a \<le> int b \<Longrightarrow> int b < e \<Longrightarrow> table ! b \<noteq> []"
  shows "\<exists>route b. make_sequence_with_max_throughput draw rtts table a e = Inr route \<and> contiguous a route b \<and>
    (if a < e then e \<le> b \<and> b \<le> int (length infos) else b = a) \<and> (\<forall>sp \<in> set route. part_of sp spans)"
  using range(1) served
proof (induction "nat (e - a)" arbitrary: a rule: less_induct)
  case less
  show ?case
  proof (cases "a < e")
    case False
    then show ?thesis by (subst make_sequence_with_max_throughput.simps) auto
  next
    case True
    let ?c = "table ! nat a" and ?w = "\<lambda>c. map (\<lambda>w. w / sum_list (map (throughput_weight rtts) c)) (map (throughput_weight rtts) c)"
    define sp where "sp = draw a ?c (?w ?c)"
    have len: "length table = length infos" using routes.table_length [OF table] .
    have a: "nat a < length infos" using True less.prems(1) range(2) by linarith
    have ne: "?c \<noteq> []" using less.prems True by auto
    have sp: "sp \<in> set ?c" unfolding sp_def using ne by (rule draw)
    have bounds: "sp \<in> set spans" "rs_start sp \<le> a" "a < rs_end sp" "rs_end sp \<le> int (length infos)"
      using routes.containing_in_range [OF table a sp] less.prems(1) by auto
    obtain route b where IH: "make_sequence_with_max_throughput draw rtts table (rs_end sp) e = Inr route"
      "contiguous (rs_end sp) route b" "if rs_end sp < e then e \<le> b \<and> b \<le> int (length infos) else b = rs_end sp"
      "\<forall>sp \<in> set route. part_of sp spans"
      using less.hyps [of "rs_end sp"] bounds less.prems True by fastforce
    have idx: "py_index table a = Inr ?c" using a len less.prems(1) by (simp add: py_index_nonneg)
    have "make_sequence_with_max_throughput draw rtts table a e = Inr (sp\<lparr>rs_start := a\<rparr> # route)"
      using True idx ne IH(1) bounds
      by (subst make_sequence_with_max_throughput.simps) (simp add: Let_def sp_def [symmetric] del: map_map)
    moreover have "part_of (sp\<lparr>rs_start := a\<rparr>) spans" using bounds by (auto simp: part_of_def intro!: bexI [of _ sp])
    moreover have "contiguous a (sp\<lparr>rs_start := a\<rparr> # route) b" using bounds IH(2) by simp
    moreover have "e \<le> b \<and> b \<le> int (length infos)" using IH(3) bounds by (auto split: if_splits)
    ultimately show ?thesis using IH(4) True by (intro exI [of _ "sp\<lparr>rs_start := a\<rparr> # route"] exI [of _ b]) auto
  qed
qed

subsection \<open>Edges of the inference graph\<close>

definition edges :: "graph \<Rightarrow> (node \<times> node) set" where
  "edges g = fst ` set g"

lemma edges_add [simp]: "edges (add_edge u v w g) = insert (u, v) (edges g)"
  by (simp add: edges_def keys_dict_set)

lemma edges_Nil [simp]: "edges [] = {}"
  by (simp add: edges_def)

lemma edges_fold:
  "(\<And>x g. x \<in> set xs \<Longrightarrow> edges (h x g) = A x \<union> edges g) \<Longrightarrow> edges (fold h xs g) = (\<Union>x \<in> set xs. A x) \<union> edges g"
  by (induction xs arbitrary: g) auto

lemma client_edges_eq:
  "edges (client_edges rtts need a spans g) = {(StartNode, ServerNode (rs_peer sp) a) | sp. sp \<in> set spans} \<union> edges g"
  unfolding client_edges_def
  by (subst edges_fold [where A = "\<lambda>sp. {(StartNode, ServerNode (rs_peer sp) a)}"]) auto

lemma return_edges_eq:
  "edges (return_edges rtts e spans g) = {(ServerNode (rs_peer sp) e, EndNode) | sp. sp \<in> set spans} \<union> edges g"
  unfolding return_edges_def
  by (subst edges_fold [where A = "\<lambda>sp. {(ServerNode (rs_peer sp) e, EndNode)}"]) auto

lemma switch_edges_eq:
  "edges (switch_edges need i prev next g) =
     {(ServerNode (rs_peer c) i, ServerNode (rs_peer n) i) | c n. c \<in> set prev \<and> rs_end c = i \<and> n \<in> set next} \<union> edges g"
proof -
  have "edges (if rs_end c \<noteq> i then g
       else fold (\<lambda>n. add_edge (ServerNode (rs_peer c) i) (ServerNode (rs_peer n) i) (hop_delay (server_rtt c n) need n)) next g) =
     {(ServerNode (rs_peer c) i, ServerNode (rs_peer n) i) | n. rs_end c = i \<and> n \<in> set next} \<union> edges g" for c g
    by (cases "rs_end c = i")
      (auto simp: edges_fold [where A = "\<lambda>n. {(ServerNode (rs_peer c) i, ServerNode (rs_peer n) i)}"])
  then show ?thesis
    unfolding switch_edges_def
    by (subst edges_fold [where A = "\<lambda>c. {(ServerNode (rs_peer c) i, ServerNode (rs_peer n) i) | n. rs_end c = i \<and> n \<in> set next}"]) auto
qed

lemma compute_edges_eq:
  assumes "inference_rps (rs_info sp) \<noteq> Some 0"
  obtains h where "compute_edges a e sp = (\<lambda>g. Inr (h g))"
    "\<And>g. edges (h g) = {(ServerNode (rs_peer sp) i, ServerNode (rs_peer sp) (i + 1)) | i.
       max (rs_start sp) a \<le> i \<and> i < min (rs_end sp) e} \<union> edges g"
proof -
  define rps where "rps = (case inference_rps (rs_info sp) of None \<Rightarrow> default_inference_rps | Some r \<Rightarrow> r)"
  have "rps \<noteq> 0" using assms by (auto simp: rps_def default_inference_rps_def split: option.splits)
  let ?h = "\<lambda>i. add_edge (ServerNode (rs_peer sp) i) (ServerNode (rs_peer sp) (i + 1)) (1 / rps)"
  let ?r = "py_range (max (rs_start sp) a) (min (rs_end sp) e)"
  have "compute_edge sp i g = Inr (?h i g)" for i g
    using \<open>rps \<noteq> 0\<close> by (simp add: compute_edge_def rps_def Let_def)
  then have "compute_edges a e sp = (\<lambda>g. Inr (fold ?h ?r g))"
    unfolding compute_edges_def by (intro ext foldR_total) simp
  moreover have "edges (fold ?h ?r g) = {(ServerNode (rs_peer sp) i, ServerNode (rs_peer sp) (i + 1)) | i.
       max (rs_start sp) a \<le> i \<and> i < min (rs_end sp) e} \<union> edges g" for g
    by (subst edges_fold [where A = "\<lambda>i. {(ServerNode (rs_peer sp) i, ServerNode (rs_peer sp) (i + 1))}"]) auto
  ultimately show thesis using that by blast
qed

lemma no_missing:
  assumes "0 \<le> a" "e \<le> int (length table)"
  shows "missing_blocks table a e = Inr (filter (\<lambda>i. table ! nat i = []) (py_range a e))"
    and "mapR (py_index table) (py_range a e) = Inr (map (\<lambda>i. table ! nat i) (py_range a e))"
proof -
  have idx: "py_index table i = Inr (table ! nat i)" if "i \<in> set (py_range a e)" for i
    using that assms by (auto simp: py_index_nonneg)
  then show "mapR (py_index table) (py_range a e) = Inr (map (\<lambda>i. table ! nat i) (py_range a e))"
    by (rule mapR_total)
  have "mapR (\<lambda>i. bindR (py_index table i) (\<lambda>spans. Inr (i, spans))) (py_range a e) =
      Inr (map (\<lambda>i. (i, table ! nat i)) (py_range a e))"
    using idx by (intro mapR_total) simp
  then show "missing_blocks table a e = Inr (filter (\<lambda>i. table ! nat i = []) (py_range a e))"
    by (simp add: missing_blocks_def filter_map comp_def)
qed

text \<open>The four kinds of edges, for a range of served blocks.\<close>

definition route_edge :: "remote_span_info list \<Rightarrow> remote_span_info list list \<Rightarrow> int \<Rightarrow> int \<Rightarrow> node \<times> node \<Rightarrow> bool" where
  "route_edge spans table a e uv \<longleftrightarrow>
     (\<exists>sp \<in> set (table ! nat a). uv = (StartNode, ServerNode (rs_peer sp) a)) \<or>
     (\<exists>sp \<in> set (table ! nat (e - 1)). uv = (ServerNode (rs_peer sp) e, EndNode)) \<or>
     (\<exists>i c n. a + 1 \<le> i \<and> i < e \<and> c \<in> set (table ! nat (i - 1)) \<and> rs_end c = i \<and> n \<in> set (table ! nat i) \<and>
        uv = (ServerNode (rs_peer c) i, ServerNode (rs_peer n) i)) \<or>
     (\<exists>sp i. sp \<in> set spans \<and> max (rs_start sp) a \<le> i \<and> i < min (rs_end sp) e \<and>
        uv = (ServerNode (rs_peer sp) i, ServerNode (rs_peer sp) (i + 1)))"

lemma foldR_compute_edges:
  assumes "\<And>sp. sp \<in> set sps \<Longrightarrow> inference_rps (rs_info sp) \<noteq> Some 0"
  shows "\<exists>g'. foldR (compute_edges a e) sps g = Inr g' \<and>
    edges g' = {(ServerNode (rs_peer sp) i, ServerNode (rs_peer sp) (i + 1)) | sp i.
       sp \<in> set sps \<and> max (rs_start sp) a \<le> i \<and> i < min (rs_end sp) e} \<union> edges g"
  using assms
proof (induction sps arbitrary: g)
  case (Cons sp sps)
  obtain h where h: "compute_edges a e sp = (\<lambda>g. Inr (h g))"
    "\<And>g. edges (h g) = {(ServerNode (rs_peer sp) i, ServerNode (rs_peer sp) (i + 1)) | i.
       max (rs_start sp) a \<le> i \<and> i < min (rs_end sp) e} \<union> edges g"
    using compute_edges_eq [of sp a e] Cons.prems by auto
  from Cons.IH [of "h g"] Cons.prems obtain g' where g': "foldR (compute_edges a e) sps (h g) = Inr g'"
    "edges g' = {(ServerNode (rs_peer sp) i, ServerNode (rs_peer sp) (i + 1)) | sp i.
       sp \<in> set sps \<and> max (rs_start sp) a \<le> i \<and> i < min (rs_end sp) e} \<union> edges (h g)" by auto
  have "foldR (compute_edges a e) (sp # sps) g = Inr g'" using h(1) g'(1) by simp
  then show ?case using g'(2) h(2) by (intro exI [of _ g'] conjI) auto
qed simp

lemma inference_graph:
  assumes range: "0 \<le> a" "a < e" "e \<le> int (length table)"
    and served: "\<And>b. a \<le> int b \<Longrightarrow> int b < e \<Longrightarrow> table ! b \<noteq> []"
    and rps: "\<And>sp. sp \<in> set spans \<Longrightarrow> inference_rps (rs_info sp) \<noteq> Some 0"
  shows "\<exists>g. build_inference_graph rtts spans table a e need = Inr g \<and> edges g = Collect (route_edge spans table a e)"
proof -
  have missing: "filter (\<lambda>i. table ! nat i = []) (py_range a e) = []"
    using served range(1) by (auto simp: filter_empty_conv)
  have idx: "py_index table i = Inr (table ! nat i)" if "a \<le> i" "i < e" for i
    using that range by (auto simp: py_index_nonneg)
  let ?g0 = "return_edges rtts e (table ! nat (e - 1)) (client_edges rtts need a (table ! nat a) [])"
  let ?h = "\<lambda>i. switch_edges need i (table ! nat (i - 1)) (table ! nat i)"
  have switch: "foldR (\<lambda>i g. bindR (py_index table (i - 1)) (\<lambda>prev_spans. bindR (py_index table i) (\<lambda>next_spans.
        Inr (switch_edges need i prev_spans next_spans g)))) (py_range (a + 1) e) ?g0 =
      Inr (fold ?h (py_range (a + 1) e) ?g0)"
    using idx range by (intro foldR_total) auto
  let ?S = "\<lambda>i. {(ServerNode (rs_peer c) i, ServerNode (rs_peer n) i) | c n.
      c \<in> set (table ! nat (i - 1)) \<and> rs_end c = i \<and> n \<in> set (table ! nat i)}"
  have sw: "edges (fold ?h (py_range (a + 1) e) ?g0) = (\<Union>i \<in> set (py_range (a + 1) e). ?S i) \<union> edges ?g0"
    by (rule edges_fold) (rule switch_edges_eq)
  obtain g where g: "foldR (compute_edges a e) spans (fold ?h (py_range (a + 1) e) ?g0) = Inr g"
    "edges g = {(ServerNode (rs_peer sp) i, ServerNode (rs_peer sp) (i + 1)) | sp i.
       sp \<in> set spans \<and> max (rs_start sp) a \<le> i \<and> i < min (rs_end sp) e} \<union> edges (fold ?h (py_range (a + 1) e) ?g0)"
    using foldR_compute_edges [OF rps] by blast
  have "build_inference_graph rtts spans table a e need = Inr g"
    unfolding build_inference_graph_def no_missing(1) [OF range(1,3)] missing
    using idx [of a] idx [of "e - 1"] range(2) switch g(1) by simp
  moreover have "edges g = Collect (route_edge spans table a e)"
    unfolding g(2) sw return_edges_eq client_edges_eq route_edge_def set_py_range by (rule set_eqI) (auto, blast)
  ultimately show ?thesis by blast
qed

subsection \<open>Paths\<close>

text \<open>What dijkstar documents: when the target can be reached, \<open>find_path\<close> returns the nodes of a path
  along edges of the graph.\<close>

definition find_path_ok :: "find_path \<Rightarrow> bool" where
  "find_path_ok find_path \<longleftrightarrow>
     (\<forall>g u v. (u, v) \<in> (edges g)\<^sup>* \<longrightarrow>
        (\<exists>ns. find_path g u v = Inr ns \<and> ns \<noteq> [] \<and> hd ns = u \<and> last ns = v \<and> successively (\<lambda>x y. (x, y) \<in> edges g) ns))"

lemma reach_end:
  assumes table: "sort_spans infos = Inr (spans, table)"
    and range: "0 \<le> a" "e \<le> int (length infos)"
    and served: "\<And>b. a \<le> int b \<Longrightarrow> int b < e \<Longrightarrow> table ! b \<noteq> []"
    and i: "a \<le> i" "i < e" "sp \<in> set (table ! nat i)"
  shows "(ServerNode (rs_peer sp) i, EndNode) \<in> (Collect (route_edge spans table a e))\<^sup>*"
  using i
proof (induction "nat (e - i)" arbitrary: i sp rule: less_induct)
  case less
  let ?E = "Collect (route_edge spans table a e)"
  have ni: "nat i < length infos" using less.prems range by linarith
  have sp: "sp \<in> set spans" "rs_start sp \<le> i" "i < rs_end sp"
    using routes.containing_in_range [OF table ni less.prems(3)] less.prems(1) range(1) by auto
  have step: "(ServerNode (rs_peer sp) i, ServerNode (rs_peer sp) (i + 1)) \<in> ?E"
    using sp less.prems by (auto simp: route_edge_def)
  consider "i + 1 = e" | "i + 1 < e" "i + 1 < rs_end sp" | "i + 1 < e" "rs_end sp = i + 1"
    using less.prems sp by linarith
  then have "(ServerNode (rs_peer sp) (i + 1), EndNode) \<in> ?E\<^sup>*"
  proof cases
    case 1
    then have "nat i = nat (e - 1)" by auto
    then have "(ServerNode (rs_peer sp) (i + 1), EndNode) \<in> ?E" using less.prems(3) 1 by (auto simp: route_edge_def)
    then show ?thesis by blast
  next
    case 2
    have "sp \<in> set (table ! nat (i + 1))"
      using routes.containing_all [OF table ni less.prems(3), of "nat (i + 1)"] 2 sp less.prems range by auto
    then show ?thesis using less.hyps [of "i + 1" sp] 2 less.prems by auto
  next
    case 3
    have "table ! nat (i + 1) \<noteq> []" using served 3 less.prems range(1) by auto
    then obtain sp' where sp': "sp' \<in> set (table ! nat (i + 1))" by (meson list.set_sel(1))
    have "(ServerNode (rs_peer sp) (i + 1), ServerNode (rs_peer sp') (i + 1)) \<in> ?E"
      using 3 sp' less.prems unfolding mem_Collect_eq route_edge_def by (intro disjI2 disjI1 exI [of _ "i + 1"]) auto
    moreover have "(ServerNode (rs_peer sp') (i + 1), EndNode) \<in> ?E\<^sup>*"
      using less.hyps [of "i + 1" sp'] 3 sp' less.prems by auto
    ultimately show ?thesis by (rule converse_rtrancl_into_rtrancl)
  qed
  with step show ?case by (rule converse_rtrancl_into_rtrancl)
qed

lemma route_infos_get:
  assumes "\<And>sp'. sp' \<in> set sps \<Longrightarrow> rs_peer sp' = p \<Longrightarrow> rs_info sp' = v"
    and "(\<exists>sp \<in> set sps. rs_peer sp = p) \<or> dict_get d p = Some v"
  shows "dict_get (fold (\<lambda>sp. dict_set (rs_peer sp) (rs_info sp)) sps d) p = Some v"
  using assms
proof (induction sps arbitrary: d)
  case (Cons sp sps)
  then show ?case by (cases "rs_peer sp = p") auto
qed simp

definition route_inv :: "remote_span_info list \<Rightarrow> int \<Rightarrow> remote_span_info list \<Rightarrow> peer_id \<Rightarrow> int \<Rightarrow> bool" where
  "route_inv spans a route p i \<longleftrightarrow>
     route \<noteq> [] \<and> rs_peer (last route) = p \<and> weakly_contiguous a route i \<and> (\<forall>sp \<in> set route. part_of sp spans)"

lemma route_inv_end: "route_inv spans a route p i \<Longrightarrow> rs_end (last route) = i"
  by (metis append_butlast_last_id route_inv_def weakly_contiguous_snoc)

lemma route_inv_compute:
  assumes inv: "route_inv spans a route p i" and sp: "sp \<in> set spans" "rs_peer sp = p" "i < rs_end sp"
    and one: "\<And>x y. x \<in> set spans \<Longrightarrow> y \<in> set spans \<Longrightarrow> rs_peer x = rs_peer y \<Longrightarrow> x = y"
  shows "route_inv spans a (butlast route @ [(last route)\<lparr>rs_end := i + 1\<rparr>]) p (i + 1)"
proof -
  have route: "route = butlast route @ [last route]" and peer: "rs_peer (last route) = p"
    using inv by (auto simp: route_inv_def)
  have wc: "weakly_contiguous a (butlast route) (rs_start (last route))" "rs_start (last route) \<le> i"
    using inv route unfolding route_inv_def by (metis weakly_contiguous_snoc)+
  have "part_of (last route) spans" using inv by (auto simp: route_inv_def)
  then have "part_of ((last route)\<lparr>rs_end := i + 1\<rparr>) spans"
    using one sp peer unfolding part_of_def by fastforce
  moreover have "\<forall>x \<in> set (butlast route). part_of x spans" using inv by (auto simp: route_inv_def dest: in_set_butlastD)
  ultimately show ?thesis using wc peer by (auto simp: route_inv_def weakly_contiguous_snoc)
qed

lemma route_inv_switch:
  assumes inv: "route_inv spans a route p i" and sp: "sp \<in> set spans" "rs_start sp \<le> i" "i \<le> rs_end sp"
    and get: "dict_get infos (rs_peer sp) = Some (rs_info sp)"
  shows "\<exists>route'. extend_route infos (ServerNode (rs_peer sp) i) route = Inr route' \<and> route_inv spans a route' (rs_peer sp) i"
proof (cases "rs_peer (last route) = rs_peer sp")
  case True
  have "(last route)\<lparr>rs_end := i\<rparr> = last route" using route_inv_end [OF inv] by simp
  then have "extend_route infos (ServerNode (rs_peer sp) i) route = Inr route"
    using True inv by (simp add: extend_route_def route_inv_def)
  then show ?thesis using inv True by (auto simp: route_inv_def)
next
  case False
  let ?n = "\<lparr>rs_peer = rs_peer sp, rs_start = i, rs_end = i, rs_info = rs_info sp\<rparr>"
  have item: "dict_item infos (rs_peer sp) = Inr (rs_info sp)" unfolding dict_item_def get by simp
  have "extend_route infos (ServerNode (rs_peer sp) i) route = Inr (route @ [?n])"
    unfolding extend_route_def using False by (simp add: item)
  moreover have "part_of ?n spans" using sp by (auto simp: part_of_def)
  then have "route_inv spans a (route @ [?n]) (rs_peer sp) i"
    using inv by (auto simp: route_inv_def weakly_contiguous_snoc)
  ultimately show ?thesis by blast
qed

text \<open>Following any path of the graph from a server node to the end builds a route up to block \<open>e\<close>.\<close>

lemma route_walk:
  assumes table: "sort_spans infos = Inr (spans, table)"
    and range: "0 \<le> a" "e \<le> int (length infos)"
    and get: "\<forall>i sp. a \<le> i \<and> i < e \<and> sp \<in> set (table ! nat i) \<longrightarrow> dict_get sis (rs_peer sp) = Some (rs_info sp)"
    and walk: "successively (\<lambda>x y. route_edge spans table a e (x, y)) (ServerNode p i # rest)" "rest \<noteq> []" "last rest = EndNode"
    and inv: "route_inv spans a route p i"
  shows "\<exists>route'. foldR (extend_route sis) (butlast rest) route = Inr route' \<and> weakly_contiguous a route' e \<and>
    (\<forall>sp \<in> set route'. part_of sp spans)"
  using walk inv
proof (induction rest arbitrary: p i route)
  case (Cons v rest)
  note one = routes.one_per_peer [OF table]
  have edge: "route_edge spans table a e (ServerNode p i, v)" and rest: "successively (\<lambda>x y. route_edge spans table a e (x, y)) (v # rest)"
    using Cons.prems(1) by (auto simp: successively_Cons)
  have more: "rest \<noteq> [] \<and> last rest = EndNode" if "v \<noteq> EndNode" using that Cons.prems(3) by (auto split: if_splits)
  from edge consider (ret) "v = EndNode" "i = e"
    | (switch) n where "a + 1 \<le> i" "i < e" "n \<in> set (table ! nat i)" "v = ServerNode (rs_peer n) i"
    | (compute) sp where "sp \<in> set spans" "rs_peer sp = p" "i < rs_end sp" "v = ServerNode p (i + 1)"
    by (auto simp: route_edge_def)
  then show ?case
  proof cases
    case ret
    have "rest = []"
      using rest ret(1) by (cases rest) (auto simp: route_edge_def)
    with ret Cons.prems(4) show ?thesis by (auto simp: route_inv_def)
  next
    case switch
    have ni: "nat i < length infos" using switch(1,2) range by linarith
    have sp: "n \<in> set spans" "rs_start n \<le> i" "i \<le> rs_end n"
      using routes.containing_in_range [OF table ni switch(3)] switch(1) range(1) by auto
    have "dict_get sis (rs_peer n) = Some (rs_info n)" using get [rule_format, of i n] switch(1-3) by simp
    then obtain r where r: "extend_route sis v route = Inr r" "route_inv spans a r (rs_peer n) i"
      using route_inv_switch [OF Cons.prems(4) sp, of sis] switch(4) by blast
    have m: "rest \<noteq> []" "last rest = EndNode" using more switch(4) by auto
    from Cons.IH [OF rest [unfolded switch(4)] m r(2)] show ?thesis using r(1) m(1) by simp
  next
    case compute
    let ?r = "butlast route @ [(last route)\<lparr>rs_end := i + 1\<rparr>]"
    have r: "route_inv spans a ?r p (i + 1)"
      by (rule route_inv_compute [OF Cons.prems(4) compute(1-3)]) (rule one)
    have ext: "extend_route sis v route = Inr ?r"
      using Cons.prems(4) unfolding compute(4) extend_route_def route_inv_def by simp
    have m: "rest \<noteq> []" "last rest = EndNode" using more compute(4) by auto
    from Cons.IH [OF rest [unfolded compute(4)] m r] show ?thesis using ext m(1) by simp
  qed
qed simp

lemma table_row_infos:
  assumes table: "sort_spans infos = Inr (spans, table)" and range: "0 \<le> a" "e \<le> int (length infos)"
    and i: "a \<le> i" "i < e" "sp \<in> set (table ! nat i)"
  shows "dict_get (route_infos (map (\<lambda>i. table ! nat i) (py_range a e))) (rs_peer sp) = Some (rs_info sp)"
  unfolding route_infos_def
proof (rule route_infos_get)
  have "sp \<in> set (concat (map (\<lambda>i. table ! nat i) (py_range a e)))" using i by auto
  then show "(\<exists>x \<in> set (concat (map (\<lambda>i. table ! nat i) (py_range a e))). rs_peer x = rs_peer sp) \<or> dict_get [] (rs_peer sp) = Some (rs_info sp)"
    by blast
  fix x assume "x \<in> set (concat (map (\<lambda>i. table ! nat i) (py_range a e)))" and peer: "rs_peer x = rs_peer sp"
  then obtain j where j: "a \<le> j" "j < e" "x \<in> set (table ! nat j)" by auto
  have "nat i < length infos" "nat j < length infos" using i j range by auto
  then have "x = sp" using routes.same_peer [OF table _ _ j(3) i(3) peer] by blast
  then show "rs_info x = rs_info sp" by simp
qed

lemma path_from_start:
  assumes "ns \<noteq> []" "hd ns = StartNode" "last ns = EndNode" "successively (\<lambda>x y. route_edge spans table a e (x, y)) ns"
  obtains sp rest where "ns = StartNode # ServerNode (rs_peer sp) a # rest" "rest \<noteq> []" "last rest = EndNode"
    "sp \<in> set (table ! nat a)"
    "successively (\<lambda>x y. route_edge spans table a e (x, y)) (ServerNode (rs_peer sp) a # rest)"
proof -
  obtain ns1 where ns: "ns = StartNode # ns1" "ns1 \<noteq> []"
    using assms(1-3) by (metis last_ConsL list.collapse node.distinct(1))
  then obtain v rest where v: "ns1 = v # rest" by (cases ns1) auto
  have "route_edge spans table a e (StartNode, v)" and suc: "successively (\<lambda>x y. route_edge spans table a e (x, y)) (v # rest)"
    using assms(4) ns v by (auto simp: successively_Cons)
  then obtain sp where sp: "sp \<in> set (table ! nat a)" "v = ServerNode (rs_peer sp) a"
    by (auto simp: route_edge_def)
  then have "rest \<noteq> []" "last rest = EndNode" using assms(3) ns v by (auto split: if_splits)
  with that sp ns v suc show thesis by auto
qed

subsection \<open>Properties of routing\<close>

text \<open>C6. A minimal-latency route is a chain of servers that covers the blocks: when every block of the range
  has an online server and no server reports a zero speed, a path exists in the inference graph, and
  whatever shortest path dijkstar returns, the route built from it follows the blocks without gap or
  overlap from the first to the last, each piece inside a span the server announces, with that
  server's record.\<close>

theorem min_latency_route:
  assumes table: "sort_spans infos = Inr (sq_spans_by_priority s, sq_spans_containing_block s)"
    and range: "0 \<le> a" "a < e" "e \<le> int (length infos)"
    and served: "\<And>b. a \<le> int b \<Longrightarrow> int b < e \<Longrightarrow> sq_spans_containing_block s ! b \<noteq> []"
    and rps: "\<And>sp. sp \<in> set (sq_spans_by_priority s) \<Longrightarrow> inference_rps (rs_info sp) \<noteq> Some 0"
    and dijkstra: "find_path_ok find_path"
  shows "\<exists>route. make_sequence_with_min_latency find_path rtts s a e need = Inr route \<and> contiguous a route e \<and>
    (\<forall>sp \<in> set route. part_of sp (sq_spans_by_priority s))"
proof -
  let ?table = "sq_spans_containing_block s" and ?spans = "sq_spans_by_priority s"
  let ?sis = "route_infos (map (\<lambda>i. ?table ! nat i) (py_range a e))"
  have len: "length ?table = length infos" by (rule routes.table_length [OF table])
  obtain g where g: "build_inference_graph rtts ?spans ?table a e need = Inr g"
    "edges g = Collect (route_edge ?spans ?table a e)"
    using inference_graph [of a e ?table ?spans rtts need] range served rps len by auto
  obtain sp where sp: "sp \<in> set (?table ! nat a)"
    using served [of "nat a"] range by (metis int_nat_eq list.set_sel(1) order_refl)
  have "(StartNode, ServerNode (rs_peer sp) a) \<in> edges g" using sp by (auto simp: g(2) route_edge_def)
  moreover have "(ServerNode (rs_peer sp) a, EndNode) \<in> (edges g)\<^sup>*"
    using reach_end [OF table range(1,3) served] sp range(2) by (simp add: g(2))
  ultimately have "(StartNode, EndNode) \<in> (edges g)\<^sup>*" by (rule converse_rtrancl_into_rtrancl)
  then obtain ns where ns: "find_path g StartNode EndNode = Inr ns" "ns \<noteq> []" "hd ns = StartNode" "last ns = EndNode"
    "successively (\<lambda>x y. route_edge ?spans ?table a e (x, y)) ns"
    using dijkstra unfolding find_path_ok_def g(2) [symmetric] by (metis (no_types, lifting) g(2) mem_Collect_eq successively_mono)
  from path_from_start [OF ns(2-5)] obtain sp0 rest where p: "ns = StartNode # ServerNode (rs_peer sp0) a # rest" "rest \<noteq> []"
    "last rest = EndNode" "sp0 \<in> set (?table ! nat a)"
    "successively (\<lambda>x y. route_edge ?spans ?table a e (x, y)) (ServerNode (rs_peer sp0) a # rest)" by metis
  have get: "dict_get ?sis (rs_peer x) = Some (rs_info x)" if "a \<le> i" "i < e" "x \<in> set (?table ! nat i)" for i x
    using table_row_infos [OF table range(1,3) that] .
  let ?r0 = "[\<lparr>rs_peer = rs_peer sp0, rs_start = a, rs_end = a, rs_info = rs_info sp0\<rparr>]"
  have "nat a < length infos" using range by linarith
  from routes.containing_in_range [OF table this p(4)] have "sp0 \<in> set ?spans" "rs_start sp0 \<le> a" "a \<le> rs_end sp0"
    using range(1) by auto
  then have inv: "route_inv ?spans a ?r0 (rs_peer sp0) a" by (auto simp: route_inv_def part_of_def)
  have "dict_item ?sis (rs_peer sp0) = Inr (rs_info sp0)"
    unfolding dict_item_def get [OF order_refl range(2) p(4)] by simp
  then have first: "extend_route ?sis (ServerNode (rs_peer sp0) a) [] = Inr ?r0"
    unfolding extend_route_def by (simp del: dict_item_Inr)
  obtain route where r: "foldR (extend_route ?sis) (butlast rest) ?r0 = Inr route" "weakly_contiguous a route e"
    "\<forall>sp \<in> set route. part_of sp ?spans"
    using route_walk [OF table range(1,3) _ p(5,2,3) inv, of ?sis] get by blast
  have "route_of_path ?sis ns = Inr (filter (\<lambda>sp. span_length sp > 0) route)"
    using p(1,2) first r(1) by (simp add: route_of_path_def)
  moreover have "filter (\<lambda>i. ?table ! nat i = []) (py_range a e) = []"
    using served range(1) by (auto simp: filter_empty_conv)
  ultimately have "make_sequence_with_min_latency find_path rtts s a e need = Inr (filter (\<lambda>sp. span_length sp > 0) route)"
    using range g(1) ns(1) len by (simp add: make_sequence_with_min_latency_def Let_def no_missing)
  with weakly_contiguous_filter [OF r(2)] r(3) show ?thesis by auto
qed

text \<open>A maximal-throughput route covers the blocks too: whatever the random draws, it has no gap from the
  first block on, each piece is the rest of a span some server announces, and it reaches at least the
  end of the range; it ends exactly there when the range ends at the last block.\<close>

theorem max_throughput_covers:
  assumes table: "sort_spans infos = Inr (spans, table)"
    and draw: "\<And>i xs ws. xs \<noteq> [] \<Longrightarrow> draw i xs ws \<in> set xs"
    and range: "0 \<le> a" "a < e" "e \<le> int (length infos)"
    and served: "\<And>b. a \<le> int b \<Longrightarrow> int b < e \<Longrightarrow> table ! b \<noteq> []"
  shows "\<exists>route b. make_sequence_with_max_throughput draw rtts table a e = Inr route \<and> contiguous a route b \<and>
    e \<le> b \<and> b \<le> int (length infos) \<and> (\<forall>sp \<in> set route. part_of sp spans) \<and> (e = int (length infos) \<longrightarrow> b = e)"
  using max_throughput_route [where draw = draw, OF table draw range(1,3) served] range(2) by fastforce

subsection \<open>Examples\<close>

text \<open>Two servers hold two blocks each of a model with four blocks.\<close>

definition part_info :: "int \<Rightarrow> int \<Rightarrow> server_info" where
  "part_info a b = sample_info\<lparr>start_block := Some a, end_block := Some b\<rparr>"

definition chain_infos :: "remote_module_info list" where
  "chain_infos = map (\<lambda>i. \<lparr>rm_uid = block_uid ''m'' i,
     rm_servers = (if i < 2 then [(''QmA'', part_info 0 2)] else [(''QmB'', part_info 2 4)])\<rparr>) [0, 1, 2, 3]"

definition chain_spans :: "remote_span_info list" where
  "chain_spans = [\<lparr>rs_peer = ''QmA'', rs_start = 0, rs_end = 2, rs_info = part_info 0 2\<rparr>,
     \<lparr>rs_peer = ''QmB'', rs_start = 2, rs_end = 4, rs_info = part_info 2 4\<rparr>]"

definition chain_table :: "remote_span_info list list" where
  "chain_table = [[chain_spans ! 0], [chain_spans ! 0], [chain_spans ! 1], [chain_spans ! 1]]"

definition chain_seq :: seq_info where
  "chain_seq = \<lparr>sq_block_uids = map rm_uid chain_infos, sq_block_infos = chain_infos,
     sq_spans_by_priority = chain_spans, sq_spans_containing_block = chain_table, sq_last_updated_time = Some 0\<rparr>"

lemma chain_compute_spans: "compute_spans chain_infos ONLINE = Inr (map (\<lambda>sp. (rs_peer sp, sp)) chain_spans)"
  by (simp add: compute_spans_def chain_infos_def parse_block_uid span_block_def span_visit_def span_entry_def
      new_span_def part_info_def sample_info_def chain_spans_def span_state_def)

lemma chain_sorted: "sort_spans chain_infos = Inr (chain_spans, chain_table)"
proof -
  have "length chain_infos = 4" by (simp add: chain_infos_def)
  then have four: "map (\<lambda>_. []) chain_infos = [[], [], [], [] :: remote_span_info list]"
    by (simp add: map_replicate_const eval_nat_numeral)
  show ?thesis
    unfolding sort_spans_def chain_compute_spans four
    by (simp add: chain_spans_def chain_table_def span_length_def py_range_Cons append_span_def abs_index_def eval_nat_numeral)
qed

lemma chain_served: "0 \<le> int b \<Longrightarrow> int b < 4 \<Longrightarrow> chain_table ! b \<noteq> []"
  by (auto simp: chain_table_def nth_Cons less_Suc_eq numeral_eq_Suc split: nat.splits)

text \<open>A path finder that satisfies the contract: it tries walks of growing length.\<close>

fun walk :: "graph \<Rightarrow> nat \<Rightarrow> node \<Rightarrow> node \<Rightarrow> node list option" where
  "walk g 0 u v = (if u = v then Some [u] else None)"
| "walk g (Suc n) u v =
     (case List.map_filter (\<lambda>(x, y). if x = u then walk g n y v else None) (map fst g) of
        [] \<Rightarrow> None | ns # _ \<Rightarrow> Some (u # ns))"

definition walk_finder :: find_path where
  "walk_finder g u v =
     (case List.map_filter (\<lambda>n. walk g n u v) [0..<Suc (length g)] of [] \<Rightarrow> Inl NoPathError | ns # _ \<Rightarrow> Inr ns)"

lemma map_filter_hd: "List.map_filter f xs = y # ys \<Longrightarrow> \<exists>x \<in> set xs. f x = Some y"
  by (induction xs) (auto simp: map_filter_simps split: option.splits)

lemma map_filter_nonempty: "x \<in> set xs \<Longrightarrow> f x = Some y \<Longrightarrow> List.map_filter f xs \<noteq> []"
  by (induction xs) (auto simp: map_filter_simps split: option.splits)

lemma walk_sound:
  "walk g n u v = Some ns \<Longrightarrow> ns \<noteq> [] \<and> hd ns = u \<and> last ns = v \<and> successively (\<lambda>x y. (x, y) \<in> edges g) ns"
proof (induction n arbitrary: u ns)
  case (Suc n)
  then obtain ms y where ms: "ns = u # ms" "(u, y) \<in> edges g" "walk g n y v = Some ms"
    by (force simp: edges_def split: list.splits if_splits dest!: map_filter_hd)
  with Suc.IH [OF ms(3)] show ?case by (auto simp: successively_Cons)
qed (auto split: if_splits)

lemma walk_complete: "(u, v) \<in> edges g ^^ n \<Longrightarrow> walk g n u v \<noteq> None"
proof (induction n arbitrary: u)
  case (Suc n)
  from relpow_Suc_D2 [OF Suc.prems] obtain y where y: "(u, y) \<in> edges g" "(y, v) \<in> edges g ^^ n" by blast
  with Suc.IH [of y] obtain ns where ns: "walk g n y v = Some ns" by blast
  have "List.map_filter (\<lambda>(x, y). if x = u then walk g n y v else None) (map fst g) \<noteq> []"
    using y(1) ns by (intro map_filter_nonempty [of "(u, y)"]) (auto simp: edges_def)
  then show ?case by (auto split: list.splits)
qed simp

lemma walk_finder_ok: "find_path_ok walk_finder"
  unfolding find_path_ok_def
proof (intro allI impI)
  fix g u v assume uv: "(u, v) \<in> (edges g)\<^sup>*"
  have "finite (edges g)" "card (edges g) \<le> length g"
    by (simp_all add: edges_def) (metis card_image_le card_length le_trans List.finite_set)
  then obtain n where n: "n \<le> length g" "(u, v) \<in> edges g ^^ n"
    using uv rtrancl_finite_eq_relpow [of "edges g"] by (metis (no_types, lifting) UN_E le_trans mem_Collect_eq)
  from walk_complete [OF n(2)] obtain ns where "walk g n u v = Some ns" by blast
  with n(1) have "List.map_filter (\<lambda>n. walk g n u v) [0..<Suc (length g)] \<noteq> []"
    by (intro map_filter_nonempty [of n]) auto
  then obtain ns nss where ns: "List.map_filter (\<lambda>n. walk g n u v) [0..<Suc (length g)] = ns # nss"
    by (meson neq_Nil_conv)
  from map_filter_hd [OF this] obtain k where "walk g k u v = Some ns" by auto
  from walk_sound [OF this] ns show "\<exists>ns. walk_finder g u v = Inr ns \<and> ns \<noteq> [] \<and> hd ns = u \<and> last ns = v \<and>
      successively (\<lambda>x y. (x, y) \<in> edges g) ns"
    by (simp add: walk_finder_def)
qed

theorem min_latency_route_witness:
  "\<exists>route. make_sequence_with_min_latency walk_finder [] chain_seq 0 4 (Some 7) = Inr route \<and> contiguous 0 route 4 \<and>
     (\<forall>sp \<in> set route. part_of sp chain_spans)"
proof -
  have table: "sort_spans chain_infos = Inr (sq_spans_by_priority chain_seq, sq_spans_containing_block chain_seq)"
    using chain_sorted by (simp add: chain_seq_def)
  have rps: "inference_rps (rs_info sp) \<noteq> Some 0" if "sp \<in> set (sq_spans_by_priority chain_seq)" for sp
    using that by (auto simp: chain_seq_def chain_spans_def part_info_def sample_info_def)
  have "length chain_infos = 4" by (simp add: chain_infos_def)
  then show ?thesis
    using min_latency_route [OF table _ _ _ _ rps walk_finder_ok, of 0 4 "[]" "Some 7"] chain_served
    by (auto simp: chain_seq_def)
qed

theorem max_throughput_covers_witness:
  "\<exists>route. make_sequence_with_max_throughput (\<lambda>_ xs _. hd xs) [] chain_table 0 4 = Inr route \<and> contiguous 0 route 4"
proof -
  have "length chain_infos = 4" by (simp add: chain_infos_def)
  then show ?thesis
    using max_throughput_covers [OF chain_sorted, of "\<lambda>_ xs _. hd xs" 0 4 "[]"] chain_served by auto
qed

text \<open>A maximal-throughput route may run past the requested end: asked for blocks 0 to 1 of a model in which
  a server holds blocks 0 to 2, the route ends at block 2, one more than asked for.\<close>

theorem max_throughput_overshoots:
  "\<exists>draw route. (\<forall>i xs ws. xs \<noteq> [] \<longrightarrow> draw i xs ws \<in> set xs) \<and>
     make_sequence_with_max_throughput draw [] chain_table 0 1 = Inr route \<and> contiguous 0 route 2"
proof (intro exI conjI)
  show "\<forall>i xs ws. xs \<noteq> [] \<longrightarrow> (\<lambda>_ xs _. hd xs) i xs ws \<in> set (xs :: remote_span_info list)" by simp
  show "make_sequence_with_max_throughput (\<lambda>_ xs _. hd xs) [] chain_table 0 1 = Inr [chain_spans ! 0]"
    by (simp add: make_sequence_with_max_throughput.simps chain_table_def chain_spans_def py_index_nonneg)
  show "contiguous 0 [chain_spans ! 0] 2" by (simp add: chain_spans_def)
qed

subsection \<open>Properties of the manager\<close>

lemma span_peers_listed:
  assumes "compute_spans infos ms = Inr spans" and "p \<in> fst ` set spans"
  shows "\<exists>m \<in> set infos. p \<in> fst ` set (rm_servers m)"
proof -
  let ?ok = "\<lambda>spans. fst ` set spans \<subseteq> (\<Union>m \<in> set infos. fst ` set (rm_servers m))"
  have visit: "?ok (span_visit off n ms i e sp)" if "?ok sp" "fst e \<in> (\<Union>m \<in> set infos. fst ` set (rm_servers m))" for off n i e sp
    using that by (auto simp: span_visit_def keys_dict_set split: option.splits)
  have block: "?ok (span_block off n ms b sp)" if "?ok sp" "snd b \<in> set infos" for off n b sp
    unfolding span_block_def
    by (rule fold_invariant [where Q = "\<lambda>e. fst e \<in> (\<Union>m \<in> set infos. fst ` set (rm_servers m))"]) (use that visit in auto)
  obtain off n where "spans = fold (span_block off n ms) (enumerate 0 infos) []"
    using assms(1) by (auto simp: compute_spans_def bindR_Inr)
  moreover have "?ok (fold (span_block off n ms) (enumerate 0 infos) [])"
    by (rule fold_invariant [where Q = "\<lambda>b. snd b \<in> set infos"]) (auto simp: in_set_enumerate_eq block)
  ultimately show ?thesis using assms(2) by blast
qed

lemma update_blocks_uids:
  "foldR update_block es infos = Inr r \<Longrightarrow> (i, uid, info) \<in> set es \<Longrightarrow> uid = rm_uid info"
  by (induction es arbitrary: infos) (auto simp: bindR_Inr update_block_def guardR_Inr split: prod.splits)

lemma seq_update_uids:
  assumes "seq_update now new s = Inr s'"
  shows "map rm_uid new = sq_block_uids s"
proof (rule nth_equalityI)
  have len: "length new = length (sq_block_uids s)" using assms by (simp add: seq_update_def guardR_Inr)
  then show "length (map rm_uid new) = length (sq_block_uids s)" by simp
  obtain r where r: "foldR update_block (enumerate 0 (zip (sq_block_uids s) new)) (sq_block_infos s) = Inr r"
    using assms by (auto simp: seq_update_def guardR_Inr bindR_Inr)
  fix i assume "i < length (map rm_uid new)"
  then have "(i, sq_block_uids s ! i, new ! i) \<in> set (enumerate 0 (zip (sq_block_uids s) new))"
    using len by (auto simp: in_set_enumerate_eq)
  from update_blocks_uids [OF r this] show "map rm_uid new ! i = sq_block_uids s ! i"
    using \<open>i < length (map rm_uid new)\<close> by simp
qed

lemma filter_servers_listed:
  assumes "p \<in> fst ` set (rm_servers (filter_servers B m info))"
  shows "(\<forall>al. mg_allowed_servers m = Some al \<longrightarrow> p \<in> set al) \<and> (\<forall>bl. mg_blocked_servers m = Some bl \<longrightarrow> p \<notin> set bl) \<and>
    p \<in> fst ` set (rm_servers info)"
  using assms by (auto simp: filter_servers_def Let_def split: if_splits)

lemma keep_unless_all:
  assumes "r = (if length (filter P xs) < length xs then (if filter P xs \<noteq> [] then filter P xs else xs) else xs)"
    and "e \<in> set r" "\<not> P e" "e' \<in> set r"
  shows "\<not> P e'"
proof -
  have "length (filter P xs) < length xs" if "e \<in> set xs" using that assms(3) by (rule length_filter_less)
  with assms show ?thesis by (auto simp: filter_empty_conv split: if_splits)
qed

text \<open>C30. A refreshed view respects the user's lists: after a successful update, no routed span belongs to a
  server that is not allowed or is blocked, and at every block a banned server is kept only when all
  the listed servers of that block are banned.\<close>

theorem routes_respect_lists:
  assumes "update_manager B S lookup random_sample rpc now m = Inr m'" and "wf_seq (mg_sequence_info m)"
  shows "mg_ready m' \<and> wf_seq (mg_sequence_info m') \<and>
    (\<forall>sp \<in> set (sq_spans_by_priority (mg_sequence_info m')).
       (\<forall>al. mg_allowed_servers m = Some al \<longrightarrow> rs_peer sp \<in> set al) \<and>
       (\<forall>bl. mg_blocked_servers m = Some bl \<longrightarrow> rs_peer sp \<notin> set bl)) \<and>
    (\<forall>info \<in> set (sq_block_infos (mg_sequence_info m')).
       (\<exists>p \<in> fst ` set (rm_servers info). bl_contains B p (mg_banned_peers m)) \<longrightarrow>
       (\<forall>p \<in> fst ` set (rm_servers info). bl_contains B p (mg_banned_peers m)))"
proof -
  from assms(1) obtain new s pinged where
    upd: "seq_update now (map (filter_servers B m) new) (mg_sequence_info m) = Inr s"
    and m': "m' = m\<lparr>mg_sequence_info := s, mg_ping_emas := aggregate_ping S (1 / 5) 300 now rpc pinged (mg_ping_emas m), mg_ready := True\<rparr>"
    by (auto simp: update_manager_def bindR_Inr)
  let ?new = "map (filter_servers B m) new"
  have uids: "map rm_uid ?new = sq_block_uids (mg_sequence_info m)" using upd by (rule seq_update_uids)
  from upd obtain by_priority table where sorted: "sort_spans ?new = Inr (by_priority, table)"
    and s: "s = (mg_sequence_info m)\<lparr>sq_block_infos := ?new, sq_spans_by_priority := by_priority,
      sq_spans_containing_block := table, sq_last_updated_time := Some now\<rparr>"
    by (auto simp: seq_update_eq [OF assms(2) uids] bindR_Inr)
  obtain spans where spans: "compute_spans ?new ONLINE = Inr spans" "set by_priority = snd ` set spans"
    using sort_spans_Inr [OF sorted] by (metis list.set_map set_sort)
  have listed: "(\<forall>al. mg_allowed_servers m = Some al \<longrightarrow> rs_peer sp \<in> set al) \<and>
      (\<forall>bl. mg_blocked_servers m = Some bl \<longrightarrow> rs_peer sp \<notin> set bl)" if "sp \<in> set by_priority" for sp
  proof -
    from that spans(2) obtain p where p: "(p, sp) \<in> set spans" by auto
    with compute_spans_wf [OF spans(1)] have "rs_peer sp = p" by (auto simp: wf_spans_def wf_span_def)
    moreover have "p \<in> fst ` set spans" using p by force
    ultimately obtain info where "info \<in> set new" "rs_peer sp \<in> fst ` set (rm_servers (filter_servers B m info))"
      using span_peers_listed [OF spans(1), of p] by (metis (no_types, lifting) image_iff list.set_map)
    with filter_servers_listed show ?thesis by blast
  qed
  have banned: "(\<exists>p \<in> fst ` set (rm_servers (filter_servers B m info)). bl_contains B p (mg_banned_peers m)) \<longrightarrow>
      (\<forall>p \<in> fst ` set (rm_servers (filter_servers B m info)). bl_contains B p (mg_banned_peers m))" for info
  proof -
    let ?P = "\<lambda>e. \<not> bl_contains B (fst e) (mg_banned_peers m)"
    define xs where "xs = filter (\<lambda>(p, _). (case mg_allowed_servers m of None \<Rightarrow> True | Some al \<Rightarrow> p \<in> set al) \<and>
        (case mg_blocked_servers m of None \<Rightarrow> True | Some bl \<Rightarrow> p \<notin> set bl)) (rm_servers info)"
    have xs: "rm_servers (filter_servers B m info) =
        (if length (filter ?P xs) < length xs then (if filter ?P xs \<noteq> [] then filter ?P xs else xs) else xs)"
      unfolding filter_servers_def xs_def Let_def case_prod_beta by simp
    show ?thesis using keep_unless_all [OF xs] by auto
  qed
  have "wf_seq s" using uids by (simp add: s wf_seq_def)
  with listed banned show ?thesis by (auto simp: m' s)
qed

definition no_bans :: "peer_id list blacklist" where
  "no_bans = \<lparr>bl_register_failure = Cons, bl_register_success = removeAll, bl_contains = (\<lambda>p b. p \<in> set b)\<rparr>"

definition demo_config :: client_config where
  "demo_config = \<lparr>cc_initial_peers = [''/ip4/1''], cc_dht_prefix = Some ''m'', cc_use_server_to_server = True,
     cc_connect_timeout = 5, cc_request_timeout = 180, cc_update_period = 60, cc_max_retries = Some 3,
     cc_min_backoff = 1, cc_max_backoff = 60, cc_ban_timeout = 15, cc_active_adapter = None,
     cc_max_pinged = 3, cc_ping_timeout = 2\<rparr>"

definition demo_manager :: "(peer_id list, (peer_id, xfloat) dict, unit) manager" where
  "demo_manager = \<lparr>mg_config = demo_config, mg_sequence_info = make_empty [block_uid ''m'' 3], mg_rpc_info = None,
     mg_banned_peers = [''QmB''], mg_allowed_servers = None, mg_blocked_servers = Some [''QmC''], mg_ping_emas = [],
     mg_ready = False, mg_trigger = False\<rparr>"

definition demo_lookup :: "module_uid list \<Rightarrow> string option \<Rightarrow> remote_module_info list result" where
  "demo_lookup uids _ = Inr (map (\<lambda>u. \<lparr>rm_uid = u,
     rm_servers = [(''QmA'', sample_info), (''QmB'', sample_info), (''QmC'', sample_info)]\<rparr>) uids)"

theorem routes_respect_lists_witness:
  "\<exists>m'. update_manager no_bans plain_storage demo_lookup (\<lambda>xs k. take (nat k) xs) (\<lambda>_. Pong 1) 0 demo_manager = Inr m' \<and>
     mg_ready m' \<and> (\<forall>sp \<in> set (sq_spans_by_priority (mg_sequence_info m')). rs_peer sp \<notin> set [''QmC''])"
proof -
  obtain m' where m': "update_manager no_bans plain_storage demo_lookup (\<lambda>xs k. take (nat k) xs) (\<lambda>_. Pong 1) 0 demo_manager = Inr m'"
    by (simp add: update_manager_def demo_manager_def demo_config_def demo_lookup_def filter_servers_def no_bans_def make_empty_def
        seq_update_def update_block_def sort_spans_def compute_spans_def parse_block_uid span_block_def span_visit_def
        span_entry_def new_span_def sample_info_def py_range_Cons append_span_def abs_index_def pinged_servers_def
        py_index_nonneg py_index_last enumerate_simps Let_def)
  have "wf_seq (mg_sequence_info demo_manager)" by (simp add: demo_manager_def make_empty_wf)
  from routes_respect_lists [OF m' this] have "mg_ready m'"
    "\<forall>sp \<in> set (sq_spans_by_priority (mg_sequence_info m')). \<forall>bl. mg_blocked_servers demo_manager = Some bl \<longrightarrow> rs_peer sp \<notin> set bl"
    by blast+
  with m' show ?thesis by (simp add: demo_manager_def)
qed

text \<open>A failing peer stays in the routes: \<open>on_request_failure\<close> removes it from the lists of servers per
  block, but not from the spans that routing uses, so until the next update the same routes are
  returned as if nothing had failed.\<close>

theorem failed_peer_still_routed:
  "make_sequence find_path draw rtts (mg_sequence_info (on_request_failure B p m)) a e mode need =
   make_sequence find_path draw rtts (mg_sequence_info m) a e mode need"
proof -
  have "sq_spans_by_priority (mg_sequence_info (on_request_failure B p m)) = sq_spans_by_priority (mg_sequence_info m)"
    "sq_spans_containing_block (mg_sequence_info (on_request_failure B p m)) = sq_spans_containing_block (mg_sequence_info m)"
    "seq_len (mg_sequence_info (on_request_failure B p m)) = seq_len (mg_sequence_info m)"
    by (auto simp: on_request_failure_def Let_def request_update_def seq_len_def)
  then show ?thesis
    unfolding make_sequence_def make_sequence_with_min_latency_def Let_def by (simp only:)
qed

text \<open>Servers of the first block are never pinged for their own sake: the set that samples them is
  overwritten, so the pinged servers do not depend on who serves the first block.\<close>

theorem first_block_not_pinged:
  "pinged_servers random_sample k (x # t # ts) = pinged_servers random_sample k (y # t # ts)"
proof -
  have "py_slice (x # t # ts) 1 (-1) = py_slice (y # t # ts) 1 (-1)"
    by (simp add: py_slice_def slice_bound_def)
  then show ?thesis
    by (simp add: pinged_servers_def py_index_nonneg py_index_last Let_def)
qed

text \<open>Asking for the rpc info ends when retries are limited: with \<open>max_retries\<close> positive, whatever the
  servers answer and whatever the update thread does, the property returns after at most that many
  attempts, either with the last exception or with the info, which is then cached.\<close>

theorem rpc_info_ends:
  assumes "cc_max_retries (mg_config m) = Some (int n)" and "0 < n" and "\<And>k m. mg_config (wait k m) = mg_config m"
    and "mg_rpc_info m = None"
  shows "\<exists>m' r. get_rpc_info B pick wait call m = Some (m', r) \<and>
    (\<forall>info. r = Inr info \<longrightarrow> mg_rpc_info m' = Some info \<and> get_rpc_info B pick wait call m' = Some (m', Inr info))"
proof -
  have "\<exists>m' r. rpc_info_loop B pick wait call k m = Some (m', r) \<and> (\<forall>info. r = Inr info \<longrightarrow> mg_rpc_info m' = Some info)"
    if "k < n" "cc_max_retries (mg_config m) = Some (int n)" for k m
    using that
  proof (induction "n - k" arbitrary: k m rule: less_induct)
    case less
    define m1 where "m1 = (if mg_ready m then m else wait k (request_update m))"
    have cfg: "mg_config m1 = mg_config m" by (simp add: m1_def assms(3) request_update_def)
    define att where "att = rpc_info_attempt pick (call k) m1"
    show ?case
    proof (cases "\<exists>p info. att = Inl (p, Inr info)")
      case True
      then obtain p info where "att = Inl (p, Inr info)" by blast
      then show ?thesis
        by (subst rpc_info_loop.simps) (simp add: Let_def m1_def [symmetric] att_def [symmetric] on_request_success_def)
    next
      case False
      then obtain peer exc where att: "att = (case peer of Some p \<Rightarrow> Inl (p, Inl exc) | None \<Rightarrow> Inr exc)"
        by (metis old.prod.exhaust option.simps(4,5) sum.exhaust)
      then have fail: "rpc_info_loop B pick wait call k m =
          (let m2 = on_request_failure B peer m1 in if cc_max_retries (mg_config m2) = Some (int k + 1) then Some (m2, Inl exc)
           else rpc_info_loop B pick wait call (Suc k) m2)"
        by (subst rpc_info_loop.simps)
          (cases peer; simp add: Let_def m1_def [symmetric] att_def [symmetric])
      have cfg2: "mg_config (on_request_failure B peer m1) = mg_config m"
        by (simp add: on_request_failure_def Let_def request_update_def cfg)
      show ?thesis
      proof (cases "Suc k = n")
        case True
        then show ?thesis using less.prems by (auto simp: fail Let_def cfg2)
      next
        case False
        then have "Suc k < n" using less.prems by simp
        then show ?thesis using less.hyps [of "Suc k" "on_request_failure B peer m1"] less.prems by (auto simp: fail Let_def cfg2)
      qed
    qed
  qed
  from this [OF assms(2,1)] obtain m' r where "rpc_info_loop B pick wait call 0 m = Some (m', r)"
    "\<forall>info. r = Inr info \<longrightarrow> mg_rpc_info m' = Some info" by blast
  then show ?thesis using assms(4) by (auto simp: get_rpc_info_def)
qed

theorem rpc_info_ends_witness:
  "\<exists>m' r. get_rpc_info no_bans hd (\<lambda>_ m. m\<lparr>mg_ready := True\<rparr>) (\<lambda>_ _. Inl TimeoutError) demo_manager = Some (m', r)"
  using rpc_info_ends [of demo_manager 3 "\<lambda>_ m. m\<lparr>mg_ready := True\<rparr>" no_bans hd "\<lambda>_ _. Inl TimeoutError"]
  by (auto simp: demo_manager_def demo_config_def)

end
