(* ===== verification/Inference_Session.thy ===== *)
theory Inference_Session
  imports Sequence_Manager
begin

text \<open>
  \<open>src/peerz/client/inference_session.py\<close>: one client session over a chain of server sessions, with
  retries. Hidden states are lists of tokens (the second dimension of the tensors); the first and last
  dimensions only matter for the checks of the arguments. The sequence manager, the remote calls and
  the closing of streams are parameters that act on a world state; an operation returns its result
  together with the changed state, so that what an exception leaves behind is explicit. The loop over
  attempts has no bound in the code and is a \<open>partial_function (option)\<close>.
\<close>

subsection \<open>State\<close>

record ('x, 'p) request =
  rq_uid :: string
  rq_session_id :: string
  rq_step_id :: string
  rq_tokens :: "'x list"
  rq_prompts :: 'p
  rq_opens_session :: bool      \<comment> \<open>the session metadata is included\<close>
  rq_next_servers :: "(peer_id \<times> string \<times> int \<times> int) list"

record 'x server_session =
  ss_span :: remote_span_info
  ss_uid :: string
  ss_session_id :: string
  ss_stepped :: bool
  ss_closed :: bool
  ss_stream_open :: bool
  ss_position :: int
  ss_history :: "'x list option"
  ss_next_session :: "string option"

record ('w, 'x, 'p) session_env =
  se_make_sequence :: "int \<Rightarrow> int \<Rightarrow> 'w \<Rightarrow> remote_span_info list result \<times> 'w"
  se_create :: "remote_span_info \<Rightarrow> string \<Rightarrow> 'w \<Rightarrow> string result \<times> 'w"   \<comment> \<open>opens a stream, gives the session id\<close>
  se_call :: "('x, 'p) request \<Rightarrow> 'w \<Rightarrow> 'x list result \<times> 'w"
  se_aclose :: "string \<Rightarrow> 'w \<Rightarrow> unit result \<times> 'w"
  se_on_success :: "peer_id \<Rightarrow> 'w \<Rightarrow> 'w"
  se_on_failure :: "peer_id option \<Rightarrow> 'w \<Rightarrow> 'w"
  se_block_uids :: "module_uid list"
  se_max_retries :: "int option"
  se_server_to_server :: bool
  se_schema_length :: nat

definition new_server_session :: "remote_span_info \<Rightarrow> string \<Rightarrow> string \<Rightarrow> 'x server_session" where
  "new_server_session sp uid sid =
     \<lparr>ss_span = sp, ss_uid = uid, ss_session_id = sid, ss_stepped = False, ss_closed = False,
      ss_stream_open = True, ss_position = 0, ss_history = None, ss_next_session = None\<rparr>"

definition session_num_blocks :: "'x server_session \<Rightarrow> nat" where
  "session_num_blocks s = length (filter (\<lambda>c. c = CHAIN_DELIMITER) (ss_uid s)) + 1"

subsection \<open>One server session\<close>

text \<open>\<open>_collect_next_servers\<close>: follow the links while the sessions have stepped; a session is found by its
  id among the sessions of the client.\<close>

fun collect_next_servers :: "nat \<Rightarrow> 'x server_session list \<Rightarrow> string option \<Rightarrow> (peer_id \<times> string \<times> int \<times> int) list" where
  "collect_next_servers 0 sessions link = []"
| "collect_next_servers (Suc k) sessions link =
     (case link of
        None \<Rightarrow> []
      | Some sid \<Rightarrow>
          (case List.find (\<lambda>s. ss_session_id s = sid) sessions of
             None \<Rightarrow> []
           | Some s \<Rightarrow>
               if ss_stepped s
               then (rs_peer (ss_span s), ss_session_id s, rs_start (ss_span s), rs_end (ss_span s))
                    # collect_next_servers k sessions (ss_next_session s)
               else []))"

definition extend_history :: "'x server_session \<Rightarrow> 'x list \<Rightarrow> 'x list" where
  "extend_history s inputs =
     (case ss_history s of
        None \<Rightarrow> inputs
      | Some h \<Rightarrow> if int (length h) = ss_position s then h @ inputs else h)"

definition step_request ::
    "('w, 'x, 'p) session_env \<Rightarrow> 'x server_session list \<Rightarrow> 'x server_session \<Rightarrow> string \<Rightarrow> 'x list \<Rightarrow> 'p \<Rightarrow> ('x, 'p) request" where
  "step_request env sessions s step_id tokens prompts =
     \<lparr>rq_uid = ss_uid s, rq_session_id = ss_session_id s, rq_step_id = step_id, rq_tokens = tokens, rq_prompts = prompts,
      rq_opens_session = \<not> ss_stepped s,
      rq_next_servers = (if ss_stepped s \<and> se_server_to_server env
                         then collect_next_servers (length sessions) sessions (ss_next_session s) else [])\<rparr>"

definition server_session_step ::
    "('w, 'x, 'p) session_env \<Rightarrow> 'x server_session list \<Rightarrow> string \<Rightarrow> 'x list \<Rightarrow> 'p \<Rightarrow> 'x server_session \<Rightarrow> 'w
     \<Rightarrow> 'x list result \<times> 'x server_session \<times> 'w" where
  "server_session_step env sessions step_id inputs prompts s w =
     (if ss_closed s then (Inl RuntimeError, s, w) else
      let n = int (length inputs); h = extend_history s inputs; s1 = s\<lparr>ss_history := Some h\<rparr> in
      if int (length h) \<noteq> ss_position s + n then (Inl AssertionError, s1, w) else
      let tokens = (if \<not> ss_stepped s then h else inputs);
          request = step_request env sessions s1 step_id tokens prompts
      in if 3 < se_schema_length env then (Inl AssertionError, s1, w) else
         (case se_call env request w of
            (Inl e, w') \<Rightarrow> (Inl e, s1\<lparr>ss_stepped := True\<rparr>, w')
          | (Inr outputs, w') \<Rightarrow>
              if length outputs \<noteq> length tokens then (Inl AssertionError, s1\<lparr>ss_stepped := True\<rparr>, w')
              else (Inr outputs, s1\<lparr>ss_stepped := True, ss_position := ss_position s + n\<rparr>, w')))"

definition close_server_session ::
    "('w, 'x, 'p) session_env \<Rightarrow> 'x server_session \<Rightarrow> 'w \<Rightarrow> 'x server_session \<times> 'w" where
  "close_server_session env s w =
     (if \<not> ss_stream_open s then (s, w)
      else if \<not> ss_stepped s then (s\<lparr>ss_stream_open := False, ss_closed := True\<rparr>, w)
      else (case se_aclose env (ss_session_id s) w of
              (Inl _, w') \<Rightarrow> (s, w')
            | (Inr _, w') \<Rightarrow> (s\<lparr>ss_stream_open := False, ss_closed := True\<rparr>, w')))"

subsection \<open>The client session\<close>

record ('w, 'x) inference_session =
  is_closed :: bool
  is_server_sessions :: "'x server_session list"
  is_position :: int
  is_max_length :: int
  is_world :: 'w

definition new_inference_session :: "int \<Rightarrow> 'w \<Rightarrow> ('w, 'x) inference_session" where
  "new_inference_session max_length w =
     \<lparr>is_closed = False, is_server_sessions = [], is_position = 0, is_max_length = max_length, is_world = w\<rparr>"

definition num_blocks :: "('w, 'x, 'p) session_env \<Rightarrow> int" where
  "num_blocks env = int (length (se_block_uids env))"

text \<open>\<open>_exit_server_sessions\<close> closes in reverse order; exceptions are logged.\<close>

definition exit_server_sessions ::
    "('w, 'x, 'p) session_env \<Rightarrow> 'x server_session list \<Rightarrow> 'w \<Rightarrow> 'x server_session list \<times> 'w" where
  "exit_server_sessions env sessions w =
     fold (\<lambda>s (done, w). case close_server_session env s w of (s', w') \<Rightarrow> (s' # done, w')) (rev sessions) ([], w)"

fun enter_server_sessions ::
    "('w, 'x, 'p) session_env \<Rightarrow> remote_span_info list \<Rightarrow> 'x server_session list \<Rightarrow> 'w \<Rightarrow> 'x server_session list result \<times> 'w" where
  "enter_server_sessions env [] opened w = (Inr opened, w)"
| "enter_server_sessions env (sp # spans) opened w =
     (let uid = chain_uids (py_slice (se_block_uids env) (rs_start sp) (rs_end sp)) in
      case se_create env sp uid w of
        (Inl e, w') \<Rightarrow> (Inl e, snd (exit_server_sessions env opened w'))
      | (Inr sid, w') \<Rightarrow> enter_server_sessions env spans (opened @ [new_server_session sp uid sid]) w')"

text \<open>The links set by \<open>_update_sequence\<close> for the indices of its last loop.\<close>

definition link_sessions :: "nat \<Rightarrow> nat \<Rightarrow> 'x server_session list \<Rightarrow> 'x server_session list" where
  "link_sessions lo hi sessions =
     fold (\<lambda>i ss. ss[i := (ss ! i)\<lparr>ss_next_session := Some (ss_session_id (ss ! Suc i))\<rparr>]) [lo..<hi] sessions"

definition update_sequence ::
    "('w, 'x, 'p) session_env \<Rightarrow> nat \<Rightarrow> int \<Rightarrow> ('w, 'x) inference_session \<Rightarrow> unit result \<times> ('w, 'x) inference_session" where
  "update_sequence env server_idx block_idx s =
     (let sessions = is_server_sessions s; n_prev = length sessions in
      case exit_server_sessions env (take 1 (drop server_idx sessions)) (is_world s) of (exited, w1) \<Rightarrow>
      let sessions1 = take server_idx sessions @ exited @ drop (server_idx + 1) sessions;
          s1 = s\<lparr>is_server_sessions := sessions1, is_world := w1\<rparr>;
          update_end = (if server_idx < n_prev then rs_end (ss_span (sessions1 ! server_idx)) else num_blocks env)
      in case se_make_sequence env block_idx update_end w1 of
           (Inl e, w2) \<Rightarrow> (Inl e, s1\<lparr>is_world := w2\<rparr>)
         | (Inr spans, w2) \<Rightarrow>
             if spans = [] then (Inl IndexError, s1\<lparr>is_world := w2\<rparr>)
             else (let spans' = butlast spans @ [(last spans)\<lparr>rs_end := min (rs_end (last spans)) update_end\<rparr>] in
                   case enter_server_sessions env spans' [] w2 of
                     (Inl e, w3) \<Rightarrow> (Inl e, s1\<lparr>is_world := w3\<rparr>)
                   | (Inr updated, w3) \<Rightarrow>
                       (let updated' = (if server_idx < n_prev
                              then updated[0 := (updated ! 0)\<lparr>ss_history := ss_history (sessions1 ! server_idx)\<rparr>] else updated);
                            all = take server_idx sessions1 @ updated' @ drop (server_idx + 1) sessions1
                        in (Inr (), s1\<lparr>is_world := w3,
                              is_server_sessions := link_sessions (server_idx - 1)
                                (min (server_idx + length spans) (length all - 1)) all\<rparr>))))"

text \<open>One attempt at the server \<open>server_idx\<close>: the result is the outputs and the block reached, or an
  exception with the peer that is blamed for it.\<close>

definition attempt ::
    "('w, 'x, 'p) session_env \<Rightarrow> string \<Rightarrow> (remote_span_info \<Rightarrow> 'p) \<Rightarrow> nat \<Rightarrow> int \<Rightarrow> nat \<Rightarrow> 'x list
     \<Rightarrow> ('w, 'x) inference_session \<Rightarrow> ((peer_id option \<times> py_error) + ('x list \<times> int)) \<times> ('w, 'x) inference_session" where
  "attempt env step_id prompts server_idx block_idx attempt_no inputs s =
     (case (if is_server_sessions s = [] \<or> attempt_no \<ge> 1 then update_sequence env server_idx block_idx s else (Inr (), s)) of
        (Inl e, s1) \<Rightarrow> (Inl (None, e), s1)
      | (Inr _, s1) \<Rightarrow>
          if \<not> server_idx < length (is_server_sessions s1) then (Inl (None, IndexError), s1)
          else (let ss = is_server_sessions s1 ! server_idx in
                case server_session_step env (is_server_sessions s1) step_id inputs (prompts (ss_span ss)) ss (is_world s1) of
                  (r, ss', w') \<Rightarrow>
                    (let s2 = s1\<lparr>is_server_sessions := (is_server_sessions s1)[server_idx := ss'], is_world := w'\<rparr> in
                     case r of
                       Inl e \<Rightarrow> (Inl (Some (rs_peer (ss_span ss)), e), s2)
                     | Inr outputs \<Rightarrow> (Inr (outputs, rs_end (ss_span ss)),
                         s2\<lparr>is_world := se_on_success env (rs_peer (ss_span ss)) w'\<rparr>))))"

text \<open>The two nested loops of \<open>step\<close>.\<close>

partial_function (option) step_loop ::
    "('w, 'x, 'p) session_env \<Rightarrow> string \<Rightarrow> (remote_span_info \<Rightarrow> 'p) \<Rightarrow> nat \<Rightarrow> int \<Rightarrow> nat \<Rightarrow> 'x list
     \<Rightarrow> ('w, 'x) inference_session \<Rightarrow> ('x list result \<times> ('w, 'x) inference_session) option" where
  "step_loop env step_id prompts server_idx block_idx attempt_no inputs s =
     (if block_idx \<ge> num_blocks env then Some (Inr inputs, s)
      else case attempt env step_id prompts server_idx block_idx attempt_no inputs s of
             (Inr (outputs, next_block), s') \<Rightarrow> step_loop env step_id prompts (Suc server_idx) next_block 0 outputs s'
           | (Inl (peer, e), s') \<Rightarrow>
               (let s2 = s'\<lparr>is_world := se_on_failure env peer (is_world s')\<rparr> in
                if se_max_retries env = Some (int attempt_no + 1) then Some (Inl e, s2)
                else step_loop env step_id prompts server_idx block_idx (Suc attempt_no) inputs s2))"

definition last_tokens :: "int \<Rightarrow> 'x list \<Rightarrow> 'x list" where
  "last_tokens n xs = (if n = 0 then xs else drop (length xs - nat n) xs)"

definition session_step ::
    "('w, 'x, 'p) session_env \<Rightarrow> string \<Rightarrow> (remote_span_info \<Rightarrow> 'p) \<Rightarrow> 'x list
     \<Rightarrow> ('w, 'x) inference_session \<Rightarrow> ('x list result \<times> ('w, 'x) inference_session) option" where
  "session_step env step_id prompts inputs s =
     (if is_closed s then Some (Inl AssertionError, s)
      else let n = int (length inputs) in
        if is_position s + n > is_max_length s then Some (Inl ValueError, s)
        else case step_loop env step_id prompts 0 0 0 inputs s of
               None \<Rightarrow> None
             | Some (Inl e, s') \<Rightarrow> Some (Inl e, s')
             | Some (Inr outputs, s') \<Rightarrow> Some (Inr (last_tokens n outputs), s'\<lparr>is_position := is_position s' + n\<rparr>))"

definition close_session :: "('w, 'x, 'p) session_env \<Rightarrow> ('w, 'x) inference_session \<Rightarrow> ('w, 'x) inference_session" where
  "close_session env s =
     (if is_closed s then s
      else s\<lparr>is_world := snd (exit_server_sessions env (is_server_sessions s) (is_world s)),
             is_server_sessions := [], is_closed := True\<rparr>)"

text \<open>The checks of \<open>step\<close> on its arguments: batch size, number of tokens and hidden size of the inputs, the
  shape of the prompts, length and element type of the hypothesis ids.\<close>

definition check_arguments :: "int \<Rightarrow> int \<times> int \<times> int \<Rightarrow> int list option \<Rightarrow> (int \<times> bool) option \<Rightarrow> unit result" where
  "check_arguments blocks inputs prompts hypo_ids =
     (case inputs of (batch, tokens, hidden) \<Rightarrow>
        bindR (case prompts of
                 None \<Rightarrow> Inr ()
               | Some shape \<Rightarrow>
                   if prod_list shape = 0 then Inr ()
                   else (case shape of
                           [l, b, p, h] \<Rightarrow> if l = blocks \<and> (b = batch \<or> b = 1) \<and> p \<le> tokens \<and> h = hidden
                                           then Inr () else Inl AssertionError
                         | _ \<Rightarrow> Inl AssertionError)) (\<lambda>_.
        (case hypo_ids of
           None \<Rightarrow> Inr ()
         | Some (len, int64) \<Rightarrow> if len = 0 then Inr () else if len = batch \<and> int64 then Inr () else Inl AssertionError)))"

definition checked_step ::
    "('w, 'x, 'p) session_env \<Rightarrow> string \<Rightarrow> int \<times> int \<Rightarrow> int list option \<Rightarrow> (int \<times> bool) option \<Rightarrow> (remote_span_info \<Rightarrow> 'p)
     \<Rightarrow> 'x list \<Rightarrow> ('w, 'x) inference_session \<Rightarrow> ('x list result \<times> ('w, 'x) inference_session) option" where
  "checked_step env step_id dims prompts_shape hypo_ids prompts inputs s =
     (if is_closed s then Some (Inl AssertionError, s)
      else case check_arguments (num_blocks env) (fst dims, int (length inputs), snd dims) prompts_shape hypo_ids of
             Inl e \<Rightarrow> Some (Inl e, s)
           | Inr _ \<Rightarrow> session_step env step_id prompts inputs s)"

subsection \<open>Recovery\<close>

text \<open>A session that takes over the history of a failed one, at a position above zero, fails its check of
  the history on every call, before anything is sent.\<close>

lemma inherited_history_fails:
  assumes "\<not> ss_closed s" "ss_position s = 0" "ss_history s = Some h" "length h = p + length inputs" "0 < p"
  shows "server_session_step env sessions step_id inputs prompts s w = (Inl AssertionError, s, w)"
proof -
  have "extend_history s inputs = h" using assms by (simp add: extend_history_def)
  moreover have "s\<lparr>ss_history := Some h\<rparr> = s" using assms(3) by simp
  ultimately show ?thesis using assms by (simp add: server_session_step_def Let_def)
qed

lemma enter_sessions_new:
  "enter_server_sessions env spans opened w = (Inr ss, w') \<Longrightarrow>
   \<exists>new. ss = opened @ new \<and> map ss_span new = spans \<and>
     (\<forall>x \<in> set new. \<not> ss_closed x \<and> \<not> ss_stepped x \<and> ss_position x = 0 \<and> ss_history x = None)"
proof (induction spans arbitrary: opened w)
  case (Cons sp spans)
  obtain r w1 where c: "se_create env sp (chain_uids (py_slice (se_block_uids env) (rs_start sp) (rs_end sp))) w = (r, w1)"
    by (cases "se_create env sp (chain_uids (py_slice (se_block_uids env) (rs_start sp) (rs_end sp))) w")
  show ?case
  proof (cases r)
    case (Inl e)
    with Cons.prems c show ?thesis by (simp add: Let_def)
  next
    case (Inr sid)
    let ?n = "new_server_session sp (chain_uids (py_slice (se_block_uids env) (rs_start sp) (rs_end sp))) sid"
    from Cons.prems c Inr have "enter_server_sessions env spans (opened @ [?n]) w1 = (Inr ss, w')" by (simp add: Let_def)
    from Cons.IH [OF this] obtain new where "ss = (opened @ [?n]) @ new" "map ss_span new = spans"
      "\<forall>x \<in> set new. \<not> ss_closed x \<and> \<not> ss_stepped x \<and> ss_position x = 0 \<and> ss_history x = None" by blast
    then show ?thesis by (intro exI [of _ "?n # new"]) (auto simp: new_server_session_def)
  qed
qed simp

lemma link_sessions_keeps:
  "length (link_sessions lo hi ss) = length ss \<and>
   (\<forall>i < length ss. \<exists>l. link_sessions lo hi ss ! i = (ss ! i)\<lparr>ss_next_session := l\<rparr>)"
proof -
  have "length (fold (\<lambda>i ss. ss[i := (ss ! i)\<lparr>ss_next_session := Some (ss_session_id (ss ! Suc i))\<rparr>]) is ss) = length ss \<and>
    (\<forall>i < length ss. \<exists>l. fold (\<lambda>i ss. ss[i := (ss ! i)\<lparr>ss_next_session := Some (ss_session_id (ss ! Suc i))\<rparr>]) is ss ! i =
       (ss ! i)\<lparr>ss_next_session := l\<rparr>)" for "is" and ss :: "'x server_session list"
  proof (induction "is" arbitrary: ss)
    case Nil
    have "x = x\<lparr>ss_next_session := ss_next_session x\<rparr>" for x :: "'x server_session" by simp
    then show ?case by (metis fold_simps(1))
  next
    case (Cons j "is")
    let ?ss = "ss[j := (ss ! j)\<lparr>ss_next_session := Some (ss_session_id (ss ! Suc j))\<rparr>]"
    have "\<exists>l. (?ss ! i)\<lparr>ss_next_session := k\<rparr> = (ss ! i)\<lparr>ss_next_session := l\<rparr>" if "i < length ss" for i k
      using that by (cases "i = j") auto
    with Cons.IH [of ?ss] show ?case by (auto simp del: nth_list_update)
  qed
  then show ?thesis by (simp add: link_sessions_def)
qed

definition keeps_history :: "('w, 'x) inference_session \<Rightarrow> nat \<Rightarrow> 'x list \<Rightarrow> bool" where
  "keeps_history s k h \<longleftrightarrow> k < length (is_server_sessions s) \<and> ss_history (is_server_sessions s ! k) = Some h"

lemma exit_one:
  "k < length ss \<Longrightarrow> \<exists>x w'. exit_server_sessions env (take 1 (drop k ss)) w = ([x], w') \<and> ss_history x = ss_history (ss ! k)"
proof -
  assume "k < length ss"
  then have one: "take 1 (drop k ss) = [ss ! k]"
    by (simp add: take_Suc_conv_app_nth Cons_nth_drop_Suc [symmetric] del: Cons_nth_drop_Suc)
  obtain x w' where "close_server_session env (ss ! k) w = (x, w')" by (cases "close_server_session env (ss ! k) w")
  then show ?thesis
    unfolding one by (auto simp: exit_server_sessions_def close_server_session_def split: if_splits prod.splits sum.splits)
qed

lemma update_keeps_history:
  assumes "keeps_history s k h" and "update_sequence env k b s = (r, s')"
  shows "keeps_history s' k h \<and>
    (r = Inr () \<longrightarrow> \<not> ss_closed (is_server_sessions s' ! k) \<and> ss_position (is_server_sessions s' ! k) = 0)"
proof -
  let ?ss = "is_server_sessions s"
  have k: "k < length ?ss" and h: "ss_history (?ss ! k) = Some h" using assms(1) by (auto simp: keeps_history_def)
  obtain x w1 where ex: "exit_server_sessions env (take 1 (drop k ?ss)) (is_world s) = ([x], w1)" "ss_history x = Some h"
    using exit_one [OF k, of env "is_world s"] h by auto
  let ?ss1 = "take k ?ss @ [x] @ drop (k + 1) ?ss"
  let ?s1 = "\<lambda>w. s\<lparr>is_server_sessions := ?ss1, is_world := w\<rparr>"
  have at: "?ss1 ! k = x" using k by (simp add: nth_append)
  have keep1: "keeps_history (?s1 w) k h" for w using k at ex(2) by (simp add: keeps_history_def)
  let ?stop = "rs_end (ss_span x)"
  obtain q w2 where mk: "se_make_sequence env b ?stop w1 = (q, w2)" by (cases "se_make_sequence env b ?stop w1")
  note upd = assms(2) [unfolded update_sequence_def Let_def ex(1) prod.case]
  show ?thesis
  proof (cases q)
    case (Inl e)
    with upd k at mk keep1 show ?thesis by auto
  next
    case (Inr spans)
    show ?thesis
    proof (cases "spans = []")
      case True
      with upd k at mk Inr keep1 show ?thesis by auto
    next
      case False
      let ?spans = "butlast spans @ [(last spans)\<lparr>rs_end := min (rs_end (last spans)) ?stop\<rparr>]"
      obtain q2 w3 where en: "enter_server_sessions env ?spans [] w2 = (q2, w3)" by (cases "enter_server_sessions env ?spans [] w2")
      show ?thesis
      proof (cases q2)
        case Inl2: (Inl e)
        with upd k at mk Inr False en keep1 show ?thesis by auto
      next
        case Inr2: (Inr updated)
        from enter_sessions_new [OF en [unfolded Inr2]] have new: "map ss_span updated = ?spans"
          "\<forall>y \<in> set updated. \<not> ss_closed y \<and> ss_position y = 0" by auto
        then have ne: "updated \<noteq> []" by auto
        let ?u = "updated[0 := (updated ! 0)\<lparr>ss_history := ss_history (?ss1 ! k)\<rparr>]"
        let ?all = "take k ?ss1 @ ?u @ drop (k + 1) ?ss1"
        have k_all: "k < length ?all" using k ne by (cases updated) (auto simp: min_def)
        have "?all ! k = ?u ! 0" using k ne by (simp add: nth_append)
        then have first: "ss_history (?all ! k) = Some h \<and> \<not> ss_closed (?all ! k) \<and> ss_position (?all ! k) = 0"
          using ne new(2) ex(2) at by (auto simp: nth_mem)
        obtain lo hi where res: "r = Inr ()" "is_server_sessions s' = link_sessions lo hi ?all"
          using upd k at mk Inr False en Inr2 by auto
        obtain l where "is_server_sessions s' ! k = (?all ! k)\<lparr>ss_next_session := l\<rparr>" "k < length (is_server_sessions s')"
          using link_sessions_keeps [of lo hi ?all] k_all res(2) by metis
        with first show ?thesis by (auto simp: keeps_history_def)
      qed
    qed
  qed
qed

lemma stuck_attempt:
  assumes "keeps_history s k h" "length h = p + length inputs" "0 < p" "1 \<le> att"
  shows "\<exists>e s'. attempt env step_id prompts k b att inputs s = (Inl e, s') \<and> keeps_history s' k h"
proof -
  obtain r s1 where upd: "update_sequence env k b s = (r, s1)" by (cases "update_sequence env k b s")
  note K = update_keeps_history [OF assms(1) upd]
  show ?thesis
  proof (cases r)
    case (Inl e)
    with upd K assms(4) show ?thesis by (auto simp: attempt_def)
  next
    case (Inr u)
    let ?x = "is_server_sessions s1 ! k"
    have x: "\<not> ss_closed ?x" "ss_position ?x = 0" "ss_history ?x = Some h" "k < length (is_server_sessions s1)"
      using K Inr by (auto simp: keeps_history_def)
    have "server_session_step env (is_server_sessions s1) step_id inputs (prompts (ss_span ?x)) ?x (is_world s1) =
        (Inl AssertionError, ?x, is_world s1)"
      using inherited_history_fails [OF x(1-3) assms(2,3)] .
    then show ?thesis using upd Inr x K assms(4) by (auto simp: attempt_def keeps_history_def)
  qed
qed

subsection \<open>Healthy servers\<close>

text \<open>Blocks \<open>a\<close> to \<open>b\<close> of a causal model as a function on token sequences.\<close>

definition causal_blocks :: "(int \<Rightarrow> int \<Rightarrow> 'x list \<Rightarrow> 'x list) \<Rightarrow> bool" where
  "causal_blocks blocks \<longleftrightarrow>
     (\<forall>a b xs. length (blocks a b xs) = length xs) \<and>
     (\<forall>a b xs k. take k (blocks a b xs) = blocks a b (take k xs)) \<and>
     (\<forall>a xs. blocks a a xs = xs) \<and>
     (\<forall>a b c xs. a \<le> b \<and> b \<le> c \<longrightarrow> blocks b c (blocks a b xs) = blocks a c xs)"

text \<open>The contract between a session and the swarm, when nothing fails: \<open>view w\<close> gives, for every open session of a
  server, its blocks and the tokens it received, up to \<open>L\<close> tokens; a server answers with its outputs for
  the new tokens.\<close>

locale healthy =
  fixes env :: "('w, 'x, 'p) session_env"
    and blocks :: "int \<Rightarrow> int \<Rightarrow> 'x list \<Rightarrow> 'x list"
    and view :: "'w \<Rightarrow> string \<Rightarrow> (int \<times> int \<times> 'x list) option"
    and L :: int
  assumes routes: "\<exists>route w'. se_make_sequence env 0 (num_blocks env) w = (Inr route, w') \<and>
        contiguous 0 route (num_blocks env) \<and> view w' = view w"
    and creates: "\<exists>sid w'. se_create env sp uid w = (Inr sid, w') \<and> view w sid = None \<and>
        view w' = (view w)(sid \<mapsto> (rs_start sp, rs_end sp, []))"
    and answers: "view w (rq_session_id rq) = Some (a, b, h) \<Longrightarrow> int (length h + length (rq_tokens rq)) \<le> L \<Longrightarrow>
        \<exists>w'. se_call env rq w = (Inr (drop (length h) (blocks a b (h @ rq_tokens rq))), w') \<and>
           view w' = (view w)(rq_session_id rq \<mapsto> (a, b, h @ rq_tokens rq))"
    and success: "view (se_on_success env p w) = view w"
    and schema: "\<not> 3 < se_schema_length env"
    and causal: "causal_blocks blocks"

text \<open>A server session that has seen the prefix \<open>X\<close> of the client's tokens.\<close>

definition session_ok ::
    "(int \<Rightarrow> int \<Rightarrow> 'x list \<Rightarrow> 'x list) \<Rightarrow> ('w \<Rightarrow> string \<Rightarrow> (int \<times> int \<times> 'x list) option) \<Rightarrow> 'w \<Rightarrow> 'x list
     \<Rightarrow> 'x server_session \<Rightarrow> bool" where
  "session_ok blocks view w X s \<longleftrightarrow>
     \<not> ss_closed s \<and> ss_position s = int (length X) \<and>
     view w (ss_session_id s) =
       Some (rs_start (ss_span s), rs_end (ss_span s), blocks 0 (rs_start (ss_span s)) X) \<and>
     (ss_history s = Some (blocks 0 (rs_start (ss_span s)) X) \<or> ss_history s = None \<and> X = []) \<and>
     (ss_stepped s \<or> X = [])"

lemma causal_split:
  assumes "causal_blocks blocks"
  shows "blocks a b X @ drop (length X) (blocks a b (X @ Y)) = blocks a b (X @ Y)"
proof -
  have "take (length X) (blocks a b (X @ Y)) = blocks a b X" using assms by (simp add: causal_blocks_def)
  then show ?thesis by (metis append_take_drop_id)
qed

context healthy
begin

lemma step_ok:
  assumes fits: "int (length (X @ Y)) \<le> L"
    and ok: "session_ok blocks view w X s" and span: "0 \<le> rs_start (ss_span s)" "rs_start (ss_span s) \<le> rs_end (ss_span s)"
    and inputs: "inputs = drop (length X) (blocks 0 (rs_start (ss_span s)) (X @ Y))"
  shows "\<exists>s' w'. server_session_step env sessions step_id inputs prompts s w =
      (Inr (drop (length X) (blocks 0 (rs_end (ss_span s)) (X @ Y))), s', w') \<and>
    session_ok blocks view w' (X @ Y) s' \<and> ss_span s' = ss_span s \<and> ss_session_id s' = ss_session_id s \<and>
    (\<forall>sid. sid \<noteq> ss_session_id s \<longrightarrow> view w' sid = view w sid)"
proof -
  let ?a = "rs_start (ss_span s)" and ?b = "rs_end (ss_span s)"
  let ?h = "blocks 0 ?a X" and ?h' = "blocks 0 ?a (X @ Y)"
  have len: "length (blocks a b xs) = length xs" for a b xs using causal by (simp add: causal_blocks_def)
  have comp: "blocks ?a ?b (blocks 0 ?a xs) = blocks 0 ?b xs" for xs using causal span by (simp add: causal_blocks_def)
  have n: "length inputs = length Y" by (simp add: inputs len)
  have hh: "?h @ inputs = ?h'" unfolding inputs by (rule causal_split [OF causal])
  have nil: "?h = []" if "X = []" using len [of 0 ?a X] that by simp
  have hist: "extend_history s inputs = ?h'"
    using ok hh nil by (auto simp: extend_history_def session_ok_def len)
  have tokens: "(if \<not> ss_stepped s then ?h' else inputs) = inputs"
    using ok hh nil by (auto simp: session_ok_def)
  let ?s1 = "s\<lparr>ss_history := Some ?h'\<rparr>"
  let ?rq = "step_request env sessions ?s1 step_id inputs prompts"
  have sid: "rq_session_id ?rq = ss_session_id s" "rq_tokens ?rq = inputs" by (simp_all add: step_request_def)
  have view: "view w (rq_session_id ?rq) = Some (?a, ?b, ?h)" using ok by (simp add: sid session_ok_def)
  have "int (length ?h + length (rq_tokens ?rq)) \<le> L" using fits n by (simp add: sid len)
  with view obtain w' where call: "se_call env ?rq w = (Inr (drop (length ?h) (blocks ?a ?b (?h @ inputs))), w')"
    "view w' = (view w)(ss_session_id s \<mapsto> (?a, ?b, ?h @ inputs))"
    using answers [of w ?rq ?a ?b ?h] unfolding sid by blast
  have out: "drop (length ?h) (blocks ?a ?b (?h @ inputs)) = drop (length X) (blocks 0 ?b (X @ Y))"
    by (simp add: hh comp len)
  let ?s' = "?s1\<lparr>ss_stepped := True, ss_position := ss_position s + int (length inputs)\<rparr>"
  have "server_session_step env sessions step_id inputs prompts s w = (Inr (drop (length X) (blocks 0 ?b (X @ Y))), ?s', w')"
    unfolding server_session_step_def hist Let_def tokens call(1) out
    using ok n schema by (simp add: len session_ok_def)
  moreover have "session_ok blocks view w' (X @ Y) ?s'"
    using ok n call(2) by (simp add: session_ok_def hh)
  ultimately show ?thesis using call(2) by auto
qed

end
definition sessions_ok ::
    "(int \<Rightarrow> int \<Rightarrow> 'x list \<Rightarrow> 'x list) \<Rightarrow> ('w \<Rightarrow> string \<Rightarrow> (int \<times> int \<times> 'x list) option) \<Rightarrow> 'w \<Rightarrow> 'x list
     \<Rightarrow> 'x server_session list \<Rightarrow> bool" where
  "sessions_ok blocks view w X ss \<longleftrightarrow> (\<forall>s \<in> set ss. session_ok blocks view w X s)"

lemma session_ok_cong: "view w' (ss_session_id s) = view w (ss_session_id s) \<Longrightarrow> session_ok blocks view w' X s = session_ok blocks view w X s"
  by (simp add: session_ok_def)

lemma sessions_ok_other:
  assumes "sessions_ok blocks view w X ss" "\<And>sid. sid \<noteq> i \<Longrightarrow> view w' sid = view w sid" "i \<notin> ss_session_id ` set ss"
  shows "sessions_ok blocks view w' X ss"
  using assms unfolding sessions_ok_def by (metis imageI session_ok_cong)

text \<open>The loop over the remaining sessions \<open>todo\<close>, when the first ones, \<open>done\<close>, have made the step.\<close>

context healthy
begin

lemma loop_ok:
  assumes fits: "int (length (X @ Y)) \<le> L"
    and ss: "is_server_sessions s = prev @ todo" "is_server_sessions s \<noteq> []" "distinct (map ss_session_id (prev @ todo))"
    and ok: "sessions_ok blocks view (is_world s) (X @ Y) prev" "sessions_ok blocks view (is_world s) X todo"
    and a: "0 \<le> a" "contiguous a (map ss_span todo) (num_blocks env)"
  shows "\<exists>s'. step_loop env step_id prompts (length prev) a 0 (drop (length X) (blocks 0 a (X @ Y))) s =
      Some (Inr (drop (length X) (blocks 0 (num_blocks env) (X @ Y))), s') \<and>
    sessions_ok blocks view (is_world s') (X @ Y) (is_server_sessions s') \<and>
    map ss_span (is_server_sessions s') = map ss_span (prev @ todo) \<and>
    map ss_session_id (is_server_sessions s') = map ss_session_id (prev @ todo) \<and>
    is_closed s' = is_closed s \<and> is_position s' = is_position s \<and> is_max_length s' = is_max_length s"
  using ss ok a
proof (induction todo arbitrary: prev s a)
  case Nil
  then show ?case by (subst step_loop.simps) auto
next
  case (Cons t todo)
  let ?k = "length prev" and ?in = "drop (length X) (blocks 0 a (X @ Y))"
  have t: "rs_start (ss_span t) = a" "a < rs_end (ss_span t)" "contiguous (rs_end (ss_span t)) (map ss_span todo) (num_blocks env)"
    using Cons.prems(7) by auto
  have at: "is_server_sessions s ! ?k = t" "?k < length (is_server_sessions s)" using Cons.prems(1) by auto
  have tok: "session_ok blocks view (is_world s) X t" using Cons.prems(5) by (simp add: sessions_ok_def)
  obtain t' w' where st: "server_session_step env (is_server_sessions s) step_id ?in (prompts (ss_span t)) t (is_world s) =
      (Inr (drop (length X) (blocks 0 (rs_end (ss_span t)) (X @ Y))), t', w')"
    "session_ok blocks view w' (X @ Y) t'" "ss_span t' = ss_span t" "ss_session_id t' = ss_session_id t"
    "\<And>sid. sid \<noteq> ss_session_id t \<Longrightarrow> view w' sid = view (is_world s) sid"
    using step_ok [OF fits tok, of ?in "is_server_sessions s" step_id "prompts (ss_span t)"] t Cons.prems(6) by auto
  let ?w = "se_on_success env (rs_peer (ss_span t)) w'"
  let ?s = "s\<lparr>is_server_sessions := prev @ t' # todo, is_world := ?w\<rparr>"
  have view: "view ?w = view w'" by (rule success)
  have att: "attempt env step_id prompts ?k a 0 ?in s =
      (Inr (drop (length X) (blocks 0 (rs_end (ss_span t)) (X @ Y)), rs_end (ss_span t)), ?s)"
    unfolding attempt_def using Cons.prems(1) at st(1) by (auto simp: Let_def)
  have other: "i \<notin> ss_session_id ` set prev" "i \<notin> ss_session_id ` set todo" if "i = ss_session_id t" for i
    using Cons.prems(3) that by auto
  have "sessions_ok blocks view w' (X @ Y) prev" "sessions_ok blocks view w' X todo"
    using sessions_ok_other [OF Cons.prems(4) st(5) other(1)] sessions_ok_other [of blocks view "is_world s" X todo, OF _ st(5) other(2)]
      Cons.prems(5) by (auto simp: sessions_ok_def)
  then have "sessions_ok blocks view ?w (X @ Y) (prev @ [t'])" "sessions_ok blocks view ?w X todo"
    using st(2) session_ok_cong [of view ?w _ w'] view unfolding sessions_ok_def by auto
  from Cons.IH [of ?s "prev @ [t']" "rs_end (ss_span t)"] this t Cons.prems(3,6) st(3,4)
  obtain s' where IH: "step_loop env step_id prompts (Suc ?k) (rs_end (ss_span t)) 0
      (drop (length X) (blocks 0 (rs_end (ss_span t)) (X @ Y))) ?s =
      Some (Inr (drop (length X) (blocks 0 (num_blocks env) (X @ Y))), s')"
    "sessions_ok blocks view (is_world s') (X @ Y) (is_server_sessions s')"
    "map ss_span (is_server_sessions s') = map ss_span (prev @ t' # todo)"
    "map ss_session_id (is_server_sessions s') = map ss_session_id (prev @ t' # todo)"
    "is_closed s' = is_closed s" "is_position s' = is_position s" "is_max_length s' = is_max_length s"
    by auto
  have "a < num_blocks env" using t(2,3) contiguous_le by fastforce
  with IH att st(3,4) show ?case by (subst step_loop.simps) auto
qed

lemma contiguous_last: "contiguous a r b \<Longrightarrow> r \<noteq> [] \<Longrightarrow> rs_end (last r) = b"
  by (induction r arbitrary: a) (auto split: if_splits)

lemma enter_ok:
  shows "\<exists>new w'. enter_server_sessions env spans opened w = (Inr (opened @ new), w') \<and> map ss_span new = spans \<and>
    distinct (map ss_session_id new) \<and> (\<forall>x \<in> set new. view w (ss_session_id x) = None) \<and>
    sessions_ok blocks view w' [] new \<and> (\<forall>sid. view w sid \<noteq> None \<longrightarrow> view w' sid = view w sid)"
proof (induction spans arbitrary: opened w)
  case Nil
  then show ?case by (simp add: sessions_ok_def)
next
  case (Cons sp spans)
  let ?uid = "chain_uids (py_slice (se_block_uids env) (rs_start sp) (rs_end sp))"
  obtain sid w1 where c: "se_create env sp ?uid w = (Inr sid, w1)" "view w sid = None"
    "view w1 = (view w)(sid \<mapsto> (rs_start sp, rs_end sp, []))"
    using creates by blast
  let ?n = "new_server_session sp ?uid sid"
  from Cons.IH [of "opened @ [?n]" w1] obtain new w' where IH:
    "enter_server_sessions env spans (opened @ [?n]) w1 = (Inr ((opened @ [?n]) @ new), w')" "map ss_span new = spans"
    "distinct (map ss_session_id new)" "\<forall>x \<in> set new. view w1 (ss_session_id x) = None"
    "sessions_ok blocks view w' [] new" "\<forall>i. view w1 i \<noteq> None \<longrightarrow> view w' i = view w1 i" by blast
  have nil: "blocks 0 (rs_start sp) [] = []" using causal by (metis causal_blocks_def length_0_conv)
  have "view w' sid = Some (rs_start sp, rs_end sp, [])" using IH(6) c(3) by (metis fun_upd_same option.distinct(1))
  then have "session_ok blocks view w' [] ?n" by (simp add: session_ok_def new_server_session_def nil)
  moreover have "sid \<notin> ss_session_id ` set new" using IH(4) c(3) by auto
  moreover have "view w (ss_session_id x) = None" if "x \<in> set new" for x
    using IH(4) c(2,3) that by (metis fun_upd_apply)
  moreover have "view w' i = view w i" if "view w i \<noteq> None" for i
    using IH(6) c(2,3) that by (metis fun_upd_apply)
  ultimately show ?case
    using c IH(1-3,5) by (intro exI [of _ "?n # new"] exI [of _ w'])
      (auto simp: Let_def sessions_ok_def new_server_session_def)
qed

end

definition session_inv ::
    "('w, 'x, 'p) session_env \<Rightarrow> (int \<Rightarrow> int \<Rightarrow> 'x list \<Rightarrow> 'x list) \<Rightarrow> ('w \<Rightarrow> string \<Rightarrow> (int \<times> int \<times> 'x list) option)
     \<Rightarrow> 'x list \<Rightarrow> ('w, 'x) inference_session \<Rightarrow> bool" where
  "session_inv env blocks view X s \<longleftrightarrow>
     \<not> is_closed s \<and> is_position s = int (length X) \<and>
     (is_server_sessions s = [] \<and> X = [] \<or>
      is_server_sessions s \<noteq> [] \<and> sessions_ok blocks view (is_world s) X (is_server_sessions s) \<and>
      contiguous 0 (map ss_span (is_server_sessions s)) (num_blocks env) \<and>
      distinct (map ss_session_id (is_server_sessions s)))"

lemma linked_sessions:
  assumes "length ss' = length ss" "\<forall>i < length ss. \<exists>l. ss' ! i = (ss ! i)\<lparr>ss_next_session := l\<rparr>"
  shows "map ss_span ss' = map ss_span ss \<and> map ss_session_id ss' = map ss_session_id ss \<and>
    (sessions_ok blocks view w X ss \<longrightarrow> sessions_ok blocks view w X ss')"
proof -
  have "ss_span (ss' ! i) = ss_span (ss ! i) \<and> ss_session_id (ss' ! i) = ss_session_id (ss ! i) \<and>
      session_ok blocks view w X (ss' ! i) = session_ok blocks view w X (ss ! i)" if "i < length ss" for i
    using assms(2) that by (auto simp: session_ok_def dest!: spec [of _ i])
  with assms(1) show ?thesis
    unfolding sessions_ok_def by (auto simp: all_set_conv_all_nth intro!: nth_equalityI)
qed

context healthy
begin

lemma first_update_ok:
  assumes s: "is_server_sessions s = []" and pos: "0 < num_blocks env"
  shows "\<exists>s1. update_sequence env 0 0 s = (Inr (), s1) \<and> is_server_sessions s1 \<noteq> [] \<and>
    sessions_ok blocks view (is_world s1) [] (is_server_sessions s1) \<and>
    contiguous 0 (map ss_span (is_server_sessions s1)) (num_blocks env) \<and> distinct (map ss_session_id (is_server_sessions s1)) \<and>
    is_closed s1 = is_closed s \<and> is_position s1 = is_position s \<and> is_max_length s1 = is_max_length s"
proof -
  obtain route w2 where mk: "se_make_sequence env 0 (num_blocks env) (is_world s) = (Inr route, w2)"
    "contiguous 0 route (num_blocks env)" using routes by blast
  have ne: "route \<noteq> []" using mk(2) pos by auto
  have "num_blocks env = rs_end (last route)" using contiguous_last [OF mk(2) ne] by simp
  then have same: "butlast route @ [(last route)\<lparr>rs_end := min (rs_end (last route)) (num_blocks env)\<rparr>] = route"
    using ne by simp
  obtain new w3 where en: "enter_server_sessions env route [] w2 = (Inr new, w3)" "map ss_span new = route"
    "distinct (map ss_session_id new)" "sessions_ok blocks view w3 [] new"
    using enter_ok [of route "[]" w2] by auto
  let ?ss = "link_sessions 0 (min (length route) (length new - 1)) new"
  have "update_sequence env 0 0 s = (Inr (), s\<lparr>is_server_sessions := ?ss, is_world := w3\<rparr>)"
    unfolding update_sequence_def Let_def s
    using mk(1) ne en(1) by (simp add: exit_server_sessions_def same)
  moreover have "map ss_span ?ss = map ss_span new \<and> map ss_session_id ?ss = map ss_session_id new \<and>
      (sessions_ok blocks view w3 [] new \<longrightarrow> sessions_ok blocks view w3 [] ?ss)"
    using link_sessions_keeps [of 0 "min (length route) (length new - 1)" new] by (intro linked_sessions) auto
  moreover have "?ss \<noteq> []" using calculation(2) en(2) ne by (metis list.map_disc_iff)
  ultimately show ?thesis using en mk(2) by auto
qed

lemma session_step_ok:
  assumes pos: "0 < num_blocks env"
    and inv: "session_inv env blocks view X s" and max: "int (length X + length Y) \<le> is_max_length s" "is_max_length s \<le> L"
  shows "\<exists>s'. session_step env step_id prompts Y s = Some (Inr (drop (length X) (blocks 0 (num_blocks env) (X @ Y))), s') \<and>
    session_inv env blocks view (X @ Y) s' \<and> is_max_length s' = is_max_length s"
proof -
  have len: "length (blocks a b xs) = length xs" for a b xs using causal by (simp add: causal_blocks_def)
  have id: "blocks 0 0 xs = xs" for xs using causal by (simp add: causal_blocks_def)
  obtain s1 where s1: "step_loop env step_id prompts 0 0 0 Y s = step_loop env step_id prompts 0 0 0 Y s1"
    "is_server_sessions s1 \<noteq> []" "sessions_ok blocks view (is_world s1) X (is_server_sessions s1)"
    "contiguous 0 (map ss_span (is_server_sessions s1)) (num_blocks env)" "distinct (map ss_session_id (is_server_sessions s1))"
    "\<not> is_closed s1" "is_position s1 = int (length X)" "is_max_length s1 = is_max_length s"
  proof (cases "is_server_sessions s = []")
    case True
    with inv have X: "X = []" by (simp add: session_inv_def)
    obtain s1 where u: "update_sequence env 0 0 s = (Inr (), s1)" "is_server_sessions s1 \<noteq> []"
      "sessions_ok blocks view (is_world s1) [] (is_server_sessions s1)"
      "contiguous 0 (map ss_span (is_server_sessions s1)) (num_blocks env)" "distinct (map ss_session_id (is_server_sessions s1))"
      "is_closed s1 = is_closed s" "is_position s1 = is_position s" "is_max_length s1 = is_max_length s"
      using first_update_ok [OF True pos] by blast
    have "attempt env step_id prompts 0 0 0 Y s = attempt env step_id prompts 0 0 0 Y s1"
      unfolding attempt_def using True u(1,2) by simp
    then have "step_loop env step_id prompts 0 0 0 Y s = step_loop env step_id prompts 0 0 0 Y s1"
      using pos by (subst (1 2) step_loop.simps) simp
    with that u inv X show thesis by (simp add: session_inv_def)
  next
    case False
    with that inv show thesis by (auto simp: session_inv_def)
  qed
  have "\<exists>s'. step_loop env step_id prompts 0 0 0 Y s1 = Some (Inr (drop (length X) (blocks 0 (num_blocks env) (X @ Y))), s') \<and>
    sessions_ok blocks view (is_world s') (X @ Y) (is_server_sessions s') \<and>
    map ss_span (is_server_sessions s') = map ss_span (is_server_sessions s1) \<and>
    map ss_session_id (is_server_sessions s') = map ss_session_id (is_server_sessions s1) \<and>
    is_closed s' = is_closed s1 \<and> is_position s' = is_position s1 \<and> is_max_length s' = is_max_length s1"
    using loop_ok [of X Y s1 "[]" "is_server_sessions s1" 0 step_id prompts] s1 id max
    by (simp add: sessions_ok_def)
  then obtain s' where s': "step_loop env step_id prompts 0 0 0 Y s1 = Some (Inr (drop (length X) (blocks 0 (num_blocks env) (X @ Y))), s')"
    "sessions_ok blocks view (is_world s') (X @ Y) (is_server_sessions s')"
    "map ss_span (is_server_sessions s') = map ss_span (is_server_sessions s1)"
    "map ss_session_id (is_server_sessions s') = map ss_session_id (is_server_sessions s1)"
    "is_closed s' = is_closed s1" "is_position s' = is_position s1" "is_max_length s' = is_max_length s1" by blast
  have last: "last_tokens (int (length Y)) (drop (length X) (blocks 0 (num_blocks env) (X @ Y))) =
      drop (length X) (blocks 0 (num_blocks env) (X @ Y))"
    by (simp add: last_tokens_def len)
  have "is_server_sessions s' \<noteq> []" using s'(3) s1(2) by (metis list.map_disc_iff)
  with s' s1 inv max show ?thesis
    by (auto simp: session_step_def session_inv_def Let_def last)
qed

end

subsubsection \<open>A swarm of two servers\<close>

text \<open>A block that outputs running sums, and two servers with one block each; the world lists the sessions
  opened so far.\<close>

definition demo_blocks :: "int \<Rightarrow> int \<Rightarrow> int list \<Rightarrow> int list" where
  "demo_blocks a b = (running_sums 0 ^^ nat (b - a))"

definition demo_sid :: "nat \<Rightarrow> string" where
  "demo_sid n = replicate n CHR ''s''"

type_synonym demo_world = "(int \<times> int \<times> int list) list"

definition demo_view :: "demo_world \<Rightarrow> string \<Rightarrow> (int \<times> int \<times> int list) option" where
  "demo_view w sid = (if sid = demo_sid (length sid) \<and> length sid < length w then Some (w ! length sid) else None)"

definition demo_call :: "(int, unit) request \<Rightarrow> demo_world \<Rightarrow> int list result \<times> demo_world" where
  "demo_call rq w =
     (case demo_view w (rq_session_id rq) of
        None \<Rightarrow> (Inl KeyError, w)
      | Some (a, b, h) \<Rightarrow> (Inr (drop (length h) (demo_blocks a b (h @ rq_tokens rq))),
                          w[length (rq_session_id rq) := (a, b, h @ rq_tokens rq)]))"

definition demo_span :: "string \<Rightarrow> int \<Rightarrow> remote_span_info" where
  "demo_span p i = \<lparr>rs_peer = p, rs_start = i, rs_end = i + 1, rs_info = sample_info\<rparr>"

definition demo_env :: "(demo_world, int, unit) session_env" where
  "demo_env = \<lparr>se_make_sequence = \<lambda>a b w. (Inr (if a = 0 then [demo_span ''p'' 0, demo_span ''q'' 1] else [demo_span ''r'' 1]), w),
     se_create = \<lambda>sp uid w. (Inr (demo_sid (length w)), w @ [(rs_start sp, rs_end sp, [])]),
     se_call = demo_call, se_aclose = \<lambda>sid w. (Inr (), w), se_on_success = \<lambda>p w. w, se_on_failure = \<lambda>p w. w,
     se_block_uids = [''m.0'', ''m.1''], se_max_retries = None, se_server_to_server = True, se_schema_length = 3\<rparr>"

lemma demo_causal: "causal_blocks demo_blocks"
proof -
  have len: "length ((running_sums 0 ^^ n) xs) = length xs" for n xs by (induction n) simp_all
  have take: "take k ((running_sums 0 ^^ n) xs) = (running_sums 0 ^^ n) (take k xs)" for n k xs
    by (induction n) (simp_all add: running_sums_take)
  have "(running_sums 0 ^^ nat (c - b)) ((running_sums 0 ^^ nat (b - a)) xs) = (running_sums 0 ^^ nat (c - a)) xs"
    if "a \<le> b" "b \<le> c" for a b c xs
  proof -
    have "nat (c - a) = nat (c - b) + nat (b - a)" using that by simp
    then show ?thesis by (simp only: funpow_add o_apply)
  qed
  with len take show ?thesis unfolding causal_blocks_def demo_blocks_def by simp
qed

lemma demo_healthy: "healthy demo_env demo_blocks demo_view L"
proof -
  have sid: "length (demo_sid n) = n" for n by (simp add: demo_sid_def)
  have create: "demo_view (w @ [c]) = (demo_view w)(demo_sid (length w) \<mapsto> c)" for w c
  proof
    fix i
    show "demo_view (w @ [c]) i = ((demo_view w)(demo_sid (length w) \<mapsto> c)) i"
      by (cases "i = demo_sid (length i)") (auto simp: demo_view_def sid nth_append less_Suc_eq)
  qed
  have call: "demo_view (w[length i := c]) = (demo_view w)(i \<mapsto> c)" if "demo_view w i \<noteq> None" for w i c
  proof
    fix j
    show "demo_view (w[length i := c]) j = ((demo_view w)(i \<mapsto> c)) j"
      using that by (cases "length j = length i") (auto simp: demo_view_def sid split: if_splits)
  qed
  have "num_blocks demo_env = 2" by (simp add: num_blocks_def demo_env_def)
  then show ?thesis
    by unfold_locales (auto simp: demo_causal demo_env_def demo_span_def create demo_view_def [of _ "demo_sid _"] sid demo_call_def call)
qed

subsection \<open>Properties\<close>

text \<open>Feeding a session chunk after chunk.\<close>

fun session_run ::
    "('w, 'x, 'p) session_env \<Rightarrow> (remote_span_info \<Rightarrow> 'p) \<Rightarrow> (string \<times> 'x list) list \<Rightarrow> ('w, 'x) inference_session
     \<Rightarrow> ('x list list result \<times> ('w, 'x) inference_session) option" where
  "session_run env prompts [] s = Some (Inr [], s)"
| "session_run env prompts ((step_id, inputs) # chunks) s =
     (case session_step env step_id prompts inputs s of
        None \<Rightarrow> None
      | Some (Inl e, s') \<Rightarrow> Some (Inl e, s')
      | Some (Inr outputs, s') \<Rightarrow>
          (case session_run env prompts chunks s' of
             None \<Rightarrow> None
           | Some (Inl e, s'') \<Rightarrow> Some (Inl e, s'')
           | Some (Inr outs, s'') \<Rightarrow> Some (Inr (outputs # outs), s'')))"

context healthy
begin

lemma session_run_ok:
  assumes pos: "0 < num_blocks env" and "max_length \<le> L" and "int (length (concat (map snd chunks))) \<le> max_length"
  shows "\<exists>outs s'. session_run env prompts chunks (new_inference_session max_length w) = Some (Inr outs, s') \<and>
    concat outs = blocks 0 (num_blocks env) (concat (map snd chunks)) \<and>
    map length outs = map (length \<circ> snd) chunks \<and> is_position s' = int (length (concat (map snd chunks)))"
proof -
  have len: "length (blocks a b xs) = length xs" for a b xs using causal by (simp add: causal_blocks_def)
  have "\<exists>outs s'. session_run env prompts chunks s = Some (Inr outs, s') \<and>
      concat outs = drop (length X) (blocks 0 (num_blocks env) (X @ concat (map snd chunks))) \<and>
      map length outs = map (length \<circ> snd) chunks \<and> session_inv env blocks view (X @ concat (map snd chunks)) s'"
    if "session_inv env blocks view X s" "int (length (X @ concat (map snd chunks))) \<le> is_max_length s" "is_max_length s \<le> L" for X s
    using that
  proof (induction chunks arbitrary: X s)
    case Nil
    then show ?case by (simp add: len)
  next
    case (Cons c chunks)
    obtain i Y where c: "c = (i, Y)" by (cases c)
    let ?rest = "concat (map snd chunks)"
    obtain s1 where s1: "session_step env i prompts Y s = Some (Inr (drop (length X) (blocks 0 (num_blocks env) (X @ Y))), s1)"
      "session_inv env blocks view (X @ Y) s1" "is_max_length s1 = is_max_length s"
      using session_step_ok [OF pos Cons.prems(1), of Y i prompts] Cons.prems(2,3) c by auto
    from Cons.IH [OF s1(2)] Cons.prems(2,3) s1(3) c obtain outs s' where IH: "session_run env prompts chunks s1 = Some (Inr outs, s')"
      "concat outs = drop (length (X @ Y)) (blocks 0 (num_blocks env) ((X @ Y) @ ?rest))"
      "map length outs = map (length \<circ> snd) chunks" "session_inv env blocks view ((X @ Y) @ ?rest) s'" by auto
    let ?A = "blocks 0 (num_blocks env) (X @ Y)" and ?W = "blocks 0 (num_blocks env) (X @ Y @ ?rest)"
    have "?W = ?A @ drop (length (X @ Y)) ?W"
      using causal_split [OF causal, of 0 "num_blocks env" "X @ Y" ?rest] by (simp add: len)
    then have "drop (length X) ?W = drop (length X) (?A @ drop (length (X @ Y)) ?W)" by presburger
    also have "\<dots> = drop (length X) ?A @ drop (length (X @ Y)) ?W" by (simp add: len)
    finally have "drop (length X) ?A @ drop (length (X @ Y)) ?W = drop (length X) ?W" by simp
    with s1(1) IH c show ?case by (simp add: len)
  qed
  from this [of "[]" "new_inference_session max_length w"] assms(2,3) show ?thesis
    by (auto simp: session_inv_def new_inference_session_def)
qed

end

text \<open>C2. A session computes the whole model: when the servers answer and the route covers the blocks,
  feeding the tokens in any chunks to a new session returns, chunk by chunk, exactly the outputs of all
  blocks on the whole token sequence, as long as it fits the maximal length.\<close>

theorem session_computes_model:
  assumes "healthy env blocks view L" and "0 < num_blocks env"
    and "max_length \<le> L" and "int (length (concat (map snd chunks))) \<le> max_length"
  shows "\<exists>outs s'. session_run env prompts chunks (new_inference_session max_length w) = Some (Inr outs, s') \<and>
    concat outs = blocks 0 (num_blocks env) (concat (map snd chunks)) \<and>
    map length outs = map (length \<circ> snd) chunks \<and> is_position s' = int (length (concat (map snd chunks)))"
  using assms by (rule healthy.session_run_ok)

theorem session_computes_model_witness:
  "\<exists>outs s'. session_run demo_env (\<lambda>_. ()) [(''a'', [1, 2, 3]), (''b'', [4])] (new_inference_session 8 []) = Some (Inr outs, s') \<and>
     concat outs = [1, 4, 10, 20] \<and> map length outs = [3, 1] \<and> is_position s' = 4"
proof -
  have b: "num_blocks demo_env = 2" by (simp add: num_blocks_def demo_env_def)
  have "demo_blocks 0 2 [1, 2, 3, 4] = [1, 4, 10, 20]" by (simp add: demo_blocks_def numeral_2_eq_2)
  with session_computes_model [OF demo_healthy [of 8], of 8 "[(''a'', [1, 2, 3]), (''b'', [4])]" "\<lambda>_. ()" "[]"] b
  show ?thesis by (simp add: numeral_3_eq_3 del: session_run.simps)
qed

text \<open>C31. Recovery after a failure never succeeds once the session has a prefix: when the session of the failed
  server holds the history of \<open>p > 0\<close> earlier tokens and the tokens of this step, every further attempt
  at that server index is rejected by the history check of the replacement session, which starts at
  position 0; the step can only end with an exception, and with unlimited retries (the default) it
  does not end at all.\<close>

theorem recovery_never_succeeds:
  assumes "k < length (is_server_sessions s)" and "ss_history (is_server_sessions s ! k) = Some h"
    and "length h = p + length inputs" and "0 < p" and "1 \<le> att" and "b < num_blocks env"
  shows "(\<forall>r s'. step_loop env step_id prompts k b att inputs s = Some (r, s') \<longrightarrow> isl r) \<and>
    (se_max_retries env = None \<longrightarrow> step_loop env step_id prompts k b att inputs s = None)"
proof -
  let ?P = "\<lambda>env' step_id' prompts' k' b' att' inputs' s' res.
    env' = env \<and> step_id' = step_id \<and> prompts' = prompts \<and> k' = k \<and> b' = b \<and> inputs' = inputs \<and> 1 \<le> att' \<and>
    keeps_history s' k h \<longrightarrow> isl (fst res) \<and> se_max_retries env \<noteq> None"
  have stuck: "?P env' step_id' prompts' k' b' att' inputs' s' res"
    if "step_loop env' step_id' prompts' k' b' att' inputs' s' = Some res"
    for env' step_id' prompts' k' b' att' inputs' s' res
  proof (rule step_loop.raw_induct [where P = ?P, OF _ that], goal_cases)
    case (1 loop env' step_id' prompts' k' b' att' inputs' s' res)
    show ?case
    proof (intro impI, elim conjE)
      assume eqs: "env' = env" "step_id' = step_id" "prompts' = prompts" "k' = k" "b' = b" "inputs' = inputs"
        and att': "1 \<le> att'" "keeps_history s' k h"
      obtain pe e s'' where att: "attempt env step_id prompts k b att' inputs s' = (Inl (pe, e), s'')" "keeps_history s'' k h"
        using stuck_attempt [of s' k h p inputs att' env step_id prompts b] att' assms(3,4) by (metis surj_pair)
      let ?s2 = "s''\<lparr>is_world := se_on_failure env pe (is_world s'')\<rparr>"
      have "keeps_history ?s2 k h" using att(2) by (simp add: keeps_history_def)
      with 1(1) [of env step_id prompts k b "Suc att'" inputs ?s2 res] 1(2) att(1) assms(6)
      show "isl (fst res) \<and> se_max_retries env \<noteq> None" unfolding eqs by (auto simp: Let_def split: if_splits)
    qed
  qed
  have "keeps_history s k h" using assms(1,2) by (simp add: keeps_history_def)
  with stuck [of env step_id prompts k b att inputs s] assms(5) show ?thesis
    by (cases "step_loop env step_id prompts k b att inputs s") force+
qed

definition demo_failed_session :: "(demo_world, int) inference_session" where
  "demo_failed_session =
     (new_inference_session 8 [])\<lparr>is_server_sessions :=
        [(new_server_session (demo_span ''p'' 0) ''m.0'' (demo_sid 0))\<lparr>ss_stepped := True, ss_position := 3, ss_history := Some [1, 2, 3, 4]\<rparr>],
      is_position := 3\<rparr>"

theorem recovery_never_succeeds_witness:
  "step_loop demo_env ''x'' (\<lambda>_. ()) 0 0 1 [4] demo_failed_session = None"
proof -
  have "se_max_retries demo_env = None" "0 < num_blocks demo_env" by (simp_all add: demo_env_def num_blocks_def)
  then show ?thesis
    using recovery_never_succeeds [of 0 demo_failed_session "[1, 2, 3, 4]" 3 "[4]" 1 0 demo_env "''x''" "\<lambda>_. ()"]
    by (simp add: demo_failed_session_def)
qed

end
