(* ===== verification/Packaging.thy ===== *)
theory Packaging
  imports Py_Strings
begin

text \<open>
  \<open>src/peerz/utils/packaging.py\<close>: the arguments of a remote call are sent as a flat list of distinct tensors
  and a structure in which every tensor is replaced by a marker. hivemind's \<open>nested_flatten\<close> and
  \<open>nested_pack\<close> are parameters; what is used of them is \<open>nested_laws\<close>. Tensors are compared by identity,
  as the dictionary in the code does.
\<close>

datatype ('t, 'o) leaf = Tensor 't | Bytes string | Other 'o

definition mark_masked_tensor :: "int \<Rightarrow> ('t, 'o) leaf" where
  "mark_masked_tensor index = Bytes (''__T'' @ py_str index)"

definition is_masked_tensor :: "('t, 'o) leaf \<Rightarrow> bool" where
  "is_masked_tensor item = (case item of Bytes s \<Rightarrow> take 3 s = ''__T'' | _ \<Rightarrow> False)"

definition get_tensor_index :: "string \<Rightarrow> int result" where
  "get_tensor_index item = py_int (drop 3 item)"

text \<open>The loop of \<open>pack_args_kwargs\<close>; its state is the tensors, their indices and the masked values so far.\<close>

definition pack_value ::
    "('t, 'o) leaf \<Rightarrow> 't list \<times> ('t, int) dict \<times> ('t, 'o) leaf list \<Rightarrow> 't list \<times> ('t, int) dict \<times> ('t, 'o) leaf list" where
  "pack_value v st =
     (case (v, st) of
        (Tensor t, flat_tensors, tensor_to_index, masked) \<Rightarrow>
          (let n = int (length flat_tensors);
               index = (case dict_get tensor_to_index t of None \<Rightarrow> n | Some i \<Rightarrow> i);
               tensor_to_index' = (if dict_get tensor_to_index t = None then dict_set t n tensor_to_index else tensor_to_index)
           in (if index = n then flat_tensors @ [t] else flat_tensors, tensor_to_index', masked @ [mark_masked_tensor index]))
      | (_, flat_tensors, tensor_to_index, masked) \<Rightarrow> (flat_tensors, tensor_to_index, masked @ [v]))"

definition pack_args_kwargs ::
    "('s \<Rightarrow> ('t, 'o) leaf list) \<Rightarrow> (('t, 'o) leaf list \<Rightarrow> 's \<Rightarrow> 's) \<Rightarrow> 's \<Rightarrow> 't list \<times> 's" where
  "pack_args_kwargs nested_flatten nested_pack args =
     (case fold pack_value (nested_flatten args) ([], [], []) of
        (flat_tensors, _, masked) \<Rightarrow> (flat_tensors, nested_pack masked args))"

definition unpack_value :: "'t list \<Rightarrow> ('t, 'o) leaf \<Rightarrow> ('t, 'o) leaf result" where
  "unpack_value flat_tensors v =
     (if is_masked_tensor v
      then (case v of
              Bytes s \<Rightarrow> bindR (get_tensor_index s) (\<lambda>i. bindR (py_index flat_tensors i) (\<lambda>t. Inr (Tensor t)))
            | _ \<Rightarrow> Inr v)
      else Inr v)"

definition unpack_args_kwargs ::
    "('s \<Rightarrow> ('t, 'o) leaf list) \<Rightarrow> (('t, 'o) leaf list \<Rightarrow> 's \<Rightarrow> 's) \<Rightarrow> 't list \<Rightarrow> 's \<Rightarrow> 's result" where
  "unpack_args_kwargs nested_flatten nested_pack flat_tensors structure =
     bindR (mapR (unpack_value flat_tensors) (nested_flatten structure)) (\<lambda>values. Inr (nested_pack values structure))"

text \<open>Flattening and packing as documented: packing as many values as a structure has leaves gives a
  structure of the same shape with these leaves.\<close>

definition nested_laws :: "('s \<Rightarrow> 'l list) \<Rightarrow> ('l list \<Rightarrow> 's \<Rightarrow> 's) \<Rightarrow> bool" where
  "nested_laws nested_flatten nested_pack \<longleftrightarrow>
     (\<forall>s. nested_pack (nested_flatten s) s = s) \<and>
     (\<forall>vs s. length vs = length (nested_flatten s) \<longrightarrow> nested_flatten (nested_pack vs s) = vs) \<and>
     (\<forall>us vs s. length us = length (nested_flatten s) \<and> length vs = length us \<longrightarrow>
        nested_pack vs (nested_pack us s) = nested_pack vs s)"

subsection \<open>Packing and unpacking\<close>

lemma masked_mark [simp]: "is_masked_tensor (mark_masked_tensor i)"
  by (simp add: is_masked_tensor_def mark_masked_tensor_def)

lemma unpack_mark: "i < length ts \<Longrightarrow> unpack_value ts (mark_masked_tensor (int i)) = Inr (Tensor (ts ! i))"
  by (simp add: unpack_value_def mark_masked_tensor_def is_masked_tensor_def get_tensor_index_def py_int_py_str py_index_nat)

lemma unpack_grow: "unpack_value ts v = Inr x \<Longrightarrow> v = mark_masked_tensor (int i) \<Longrightarrow> i < length ts \<Longrightarrow> unpack_value (ts @ us) v = Inr x"
  by (auto simp: unpack_mark nth_append)

text \<open>The state of the loop after the values \<open>vs\<close>: the tensors are distinct, indexed by position, and the
  masked values unpack to \<open>vs\<close> with any later extension of the tensors.\<close>

definition packed :: "('t, 'o) leaf list \<Rightarrow> 't list \<times> ('t, int) dict \<times> ('t, 'o) leaf list \<Rightarrow> bool" where
  "packed vs st \<longleftrightarrow>
     (case st of (ts, ix, masked) \<Rightarrow>
        distinct ts \<and> (\<forall>t i. dict_get ix t = Some i \<longleftrightarrow> 0 \<le> i \<and> nat i < length ts \<and> ts ! nat i = t) \<and>
        set ts = {t. Tensor t \<in> set vs} \<and> length masked = length vs \<and>
        (\<forall>us. mapR (unpack_value (ts @ us)) masked = Inr vs))"

lemma mapR_snoc: "mapR f (xs @ [x]) = bindR (mapR f xs) (\<lambda>ys. bindR (f x) (\<lambda>y. Inr (ys @ [y])))"
  by (induction xs) (auto simp: bindR_def split: sum.splits)

lemma pack_value_packed:
  assumes p: "packed vs st" and v: "\<not> is_masked_tensor v"
  shows "packed (vs @ [v]) (pack_value v st)"
proof -
  obtain ts ix masked where st: "st = (ts, ix, masked)" by (cases st)
  have dt: "distinct ts" and ix: "\<And>t i. dict_get ix t = Some i \<longleftrightarrow> 0 \<le> i \<and> nat i < length ts \<and> ts ! nat i = t"
    and ts: "set ts = {t. Tensor t \<in> set vs}" and len: "length masked = length vs"
    and un: "\<And>us. mapR (unpack_value (ts @ us)) masked = Inr vs"
    using p by (simp_all add: packed_def st)
  show ?thesis
  proof (cases v)
    case t: (Tensor t)
    show ?thesis
    proof (cases "dict_get ix t")
      case None
      then have new: "t \<notin> set ts" using ix [of t] by (metis in_set_conv_nth nat_int of_nat_0_le_iff option.distinct(1))
      have "mapR (unpack_value ((ts @ [t]) @ us)) (masked @ [mark_masked_tensor (int (length ts))]) = Inr (vs @ [Tensor t])" for us
        using un [of "t # us"] unpack_mark [of "length ts" "ts @ t # us", where 'b = 'b] by (simp add: mapR_snoc)
      moreover have "dict_get (dict_set t (int (length ts)) ix) t' = Some i \<longleftrightarrow>
          0 \<le> i \<and> nat i < length (ts @ [t]) \<and> (ts @ [t]) ! nat i = t'" for t' i
        using new ix [of t' i] by (auto simp: nth_append less_Suc_eq in_set_conv_nth)
      ultimately show ?thesis
        using None dt new ts len by (auto simp: pack_value_def st t packed_def Let_def)
    next
      case (Some i)
      then have i: "0 \<le> i" "nat i < length ts" "ts ! nat i = t" using ix by blast+
      have "mapR (unpack_value (ts @ us)) (masked @ [mark_masked_tensor i]) = Inr (vs @ [Tensor t])" for us
        using un [of us] unpack_mark [of "nat i" "ts @ us", where 'b = 'b] i by (simp add: mapR_snoc nth_append)
      moreover have "i \<noteq> int (length ts)" using i by auto
      moreover have "set ts = {t'. Tensor t' \<in> set (vs @ [Tensor t])}" using ts i(2,3) nth_mem by fastforce
      moreover have "pack_value v st = (ts, ix, masked @ [mark_masked_tensor i])"
        using Some \<open>i \<noteq> int (length ts)\<close> by (simp add: pack_value_def st t)
      ultimately show ?thesis using dt ix len t by (simp add: packed_def)
    qed
  next
    case (Bytes s)
    have "mapR (unpack_value (ts @ us)) (masked @ [v]) = Inr (vs @ [v])" for us
      using un [of us] v by (simp add: mapR_snoc unpack_value_def)
    with Bytes dt ix ts len show ?thesis by (simp add: pack_value_def st packed_def)
  next
    case (Other y)
    have "mapR (unpack_value (ts @ us)) (masked @ [v]) = Inr (vs @ [v])" for us
      using un [of us] v by (simp add: mapR_snoc unpack_value_def)
    with Other dt ix ts len show ?thesis by (simp add: pack_value_def st packed_def)
  qed
qed

lemma pack_loop_packed:
  assumes "\<forall>v \<in> set ws. \<not> is_masked_tensor v" and "packed vs st"
  shows "packed (vs @ ws) (fold pack_value ws st)"
  using assms
proof (induction ws arbitrary: vs st)
  case (Cons w ws)
  have "packed (vs @ [w]) (pack_value w st)"
    by (rule pack_value_packed [OF Cons.prems(2)]) (use Cons.prems(1) in simp)
  from Cons.IH [OF _ this] Cons.prems(1) show ?case by simp
qed simp

text \<open>C32. Arguments survive packing: unpacking the packed form of a call gives back its arguments, and every
  tensor of the call is sent exactly once, unless an argument is a byte string that looks like a marker.\<close>

theorem pack_roundtrip:
  assumes "nested_laws nested_flatten nested_pack" and "\<forall>v \<in> set (nested_flatten args). \<not> is_masked_tensor v"
    and "pack_args_kwargs nested_flatten nested_pack args = (flat_tensors, structure)"
  shows "unpack_args_kwargs nested_flatten nested_pack flat_tensors structure = Inr args \<and>
    distinct flat_tensors \<and> set flat_tensors = {t. Tensor t \<in> set (nested_flatten args)}"
proof -
  obtain ts ix masked where loop: "fold pack_value (nested_flatten args) ([], [], []) = (ts, ix, masked)"
    by (metis prod_cases3)
  have "packed [] ([], [], [])" by (simp add: packed_def)
  from pack_loop_packed [OF assms(2) this] have p: "packed (nested_flatten args) (ts, ix, masked)" by (simp add: loop)
  have eqs: "flat_tensors = ts" "structure = nested_pack masked args" using assms(3) by (simp_all add: pack_args_kwargs_def loop)
  have len: "length masked = length (nested_flatten args)" using p by (simp add: packed_def)
  have "mapR (unpack_value (ts @ [])) masked = Inr (nested_flatten args)" using p unfolding packed_def by blast
  then have "unpack_args_kwargs nested_flatten nested_pack flat_tensors structure =
      Inr (nested_pack (nested_flatten args) (nested_pack masked args))"
    using assms(1) len by (simp add: unpack_args_kwargs_def eqs nested_laws_def)
  also have "\<dots> = Inr args" using assms(1) len by (simp add: nested_laws_def)
  finally show ?thesis using p by (simp add: packed_def eqs)
qed

text \<open>Positional arguments and keyword arguments as a pair of a list and a dictionary.\<close>

type_synonym 'l call = "'l list \<times> (string \<times> 'l) list"

definition call_flatten :: "'l call \<Rightarrow> 'l list" where
  "call_flatten c = fst c @ map snd (snd c)"

definition call_pack :: "'l list \<Rightarrow> 'l call \<Rightarrow> 'l call" where
  "call_pack vs c = (take (length (fst c)) vs, zip (map fst (snd c)) (drop (length (fst c)) vs))"

lemma call_nested: "nested_laws call_flatten call_pack"
proof -
  have "zip (map fst kw) (map snd kw) = kw" for kw :: "(string \<times> 'l) list" by (simp add: zip_map_fst_snd)
  then show ?thesis by (auto simp: nested_laws_def call_flatten_def call_pack_def)
qed

theorem pack_roundtrip_witness:
  "pack_args_kwargs call_flatten call_pack ([Tensor 7, Tensor (8::nat), Tensor 7], [(''n'', Other True)]) =
     ([7, 8], ([Bytes ''__T0'', Bytes ''__T1'', Bytes ''__T0''], [(''n'', Other True)])) \<and>
   unpack_args_kwargs call_flatten call_pack [7::nat, 8]
     ([Bytes ''__T0'', Bytes ''__T1'', Bytes ''__T0''], [(''n'', Other True)]) =
     Inr ([Tensor 7, Tensor 8, Tensor 7], [(''n'', Other True)])"
proof -
  have mark: "mark_masked_tensor 0 = Bytes ''__T0''" "mark_masked_tensor 1 = Bytes ''__T1''"
    by (simp_all add: mark_masked_tensor_def py_str_def digit_char_def nat_str.simps char_of_def bit_0)
  have packed: "pack_args_kwargs call_flatten call_pack ([Tensor 7, Tensor (8::nat), Tensor 7], [(''n'', Other True)]) =
     ([7, 8], ([Bytes ''__T0'', Bytes ''__T1'', Bytes ''__T0''], [(''n'', Other True)]))"
    by (simp add: pack_args_kwargs_def call_flatten_def call_pack_def pack_value_def Let_def mark)
  have "\<forall>v \<in> set (call_flatten ([Tensor 7, Tensor (8::nat), Tensor 7], [(''n'', Other True)])). \<not> is_masked_tensor v"
    by (simp add: call_flatten_def is_masked_tensor_def)
  with pack_roundtrip [OF call_nested _ packed] packed show ?thesis by blast
qed

end
