(* ===== verification/Disk_Cache.thy ===== *)
theory Disk_Cache
  imports Peerz_Prelude
begin

text \<open>
  \<open>src/peerz/utils/disk_cache.py\<close>: \<open>free_disk_space_for\<close> removes the least recently used files of the block
  cache until a new block fits, under an exclusive lock of the cache directory. The scan of the cache
  and the free space of the volume are arguments; the file system is the list of its paths, and
  \<open>os.remove\<close> raises when the path is gone.
\<close>

record cached_file =
  cf_path :: string
  cf_blob_path :: string
  cf_last_accessed :: rat
  cf_size :: int

record cache_info =
  ci_repos :: "cached_file list list list"    \<comment> \<open>repositories, revisions, files\<close>
  ci_size_on_disk :: int

definition available_space :: "cache_info \<Rightarrow> int \<Rightarrow> int option \<Rightarrow> int \<Rightarrow> int" where
  "available_space info disk_free max_disk_space os_quota =
     (case max_disk_space of
        None \<Rightarrow> disk_free - os_quota
      | Some m \<Rightarrow> min (disk_free - os_quota) (m - ci_size_on_disk info))"

definition cached_files :: "cache_info \<Rightarrow> cached_file list" where
  "cached_files info = concat (concat (ci_repos info))"

definition os_remove :: "string \<Rightarrow> string list \<Rightarrow> string list result" where
  "os_remove path fs = (if path \<in> set fs then Inr (removeAll path fs) else Inl FileNotFoundError)"

text \<open>The loop of removals: what is left of the file system, the removed files in order, and the space they
  freed or the exception.\<close>

fun remove_files ::
    "int \<Rightarrow> cached_file list \<Rightarrow> string list \<Rightarrow> cached_file list \<Rightarrow> int \<Rightarrow> string list \<times> cached_file list \<times> int result" where
  "remove_files needed [] fs removed freed = (fs, removed, Inr freed)"
| "remove_files needed (file # files) fs removed freed =
     (case os_remove (cf_path file) fs of
        Inl e \<Rightarrow> (fs, removed, Inl e)
      | Inr fs1 \<Rightarrow>
          (case os_remove (cf_blob_path file) fs1 of
             Inl e \<Rightarrow> (fs1, removed, Inl e)
           | Inr fs2 \<Rightarrow>
               (let removed' = removed @ [file]; freed' = freed + cf_size file in
                if freed' \<ge> needed then (fs2, removed', Inr freed')
                else remove_files needed files fs2 removed' freed')))"

definition free_disk_space_for ::
    "int \<Rightarrow> cache_info \<Rightarrow> int \<Rightarrow> int option \<Rightarrow> int \<Rightarrow> string list \<Rightarrow> string list \<times> cached_file list \<times> unit result" where
  "free_disk_space_for sz info disk_free max_disk_space os_quota fs =
     (let available = available_space info disk_free max_disk_space os_quota in
      if sz \<le> available then (fs, [], Inr ())
      else let needed = sz - available in
        case remove_files needed (sort_key cf_last_accessed (cached_files info)) fs [] 0 of
          (fs', removed, Inl e) \<Rightarrow> (fs', removed, Inl e)
        | (fs', removed, Inr freed) \<Rightarrow> (fs', removed, if freed < needed then Inl RuntimeError else Inr ()))"

subsection \<open>The lock of the cache directory\<close>

text \<open>\<open>flock\<close> on \<open>blocks.lock\<close>: readers share the lock, a writer has it alone; leaving the block of the context
  manager, normally or by an exception, releases it.\<close>

datatype lock_mode = LOCK_SH | LOCK_EX

type_synonym lock_state = "(nat \<times> lock_mode) list"     \<comment> \<open>holders, by process\<close>

definition may_lock :: "lock_mode \<Rightarrow> lock_state \<Rightarrow> bool" where
  "may_lock mode held = (case mode of LOCK_SH \<Rightarrow> (\<forall>(_, m) \<in> set held. m = LOCK_SH) | LOCK_EX \<Rightarrow> held = [])"

inductive blocks_lock_step :: "lock_state \<Rightarrow> lock_state \<Rightarrow> bool" where
  lock: "may_lock mode held \<Longrightarrow> p \<notin> fst ` set held \<Longrightarrow> blocks_lock_step held ((p, mode) # held)"
| unlock: "blocks_lock_step held (filter (\<lambda>(q, _). q \<noteq> p) held)"

definition lock_inv :: "lock_state \<Rightarrow> bool" where
  "lock_inv held \<longleftrightarrow> distinct (map fst held) \<and> (length held \<le> 1 \<or> (\<forall>(_, m) \<in> set held. m = LOCK_SH))"

interpretation blocks_lock: invariant_system "\<lambda>held. held = []" blocks_lock_step lock_inv
proof
  fix s t
  assume inv: "lock_inv s" and step: "blocks_lock_step s t"
  from step inv show "lock_inv t"
  proof cases
    case (lock mode p)
    with inv show ?thesis by (cases mode) (auto simp: lock_inv_def may_lock_def)
  next
    case (unlock p)
    have "length (filter (\<lambda>(q, _). q \<noteq> p) s) \<le> length s" by simp
    then have "length s \<le> 1 \<Longrightarrow> length (filter (\<lambda>(q, _). q \<noteq> p) s) \<le> 1" by linarith
    with inv unlock show ?thesis by (auto simp: lock_inv_def distinct_map_filter)
  qed
qed (simp add: lock_inv_def)

subsection \<open>Properties\<close>

text \<open>The paths of the files, links and contents.\<close>

definition paths :: "cached_file list \<Rightarrow> string list" where
  "paths files = concat (map (\<lambda>f. [cf_path f, cf_blob_path f]) files)"

lemma remove_files_spec:
  assumes "distinct (paths files)" "set (paths files) \<subseteq> set fs" "freed < needed"
  shows "\<exists>k fs'. remove_files needed files fs removed freed =
       (fs', removed @ take k files, Inr (freed + sum_list (map cf_size (take k files)))) \<and>
     set fs' = set fs - set (paths (take k files)) \<and>
     (freed + sum_list (map cf_size (take k files)) < needed \<longrightarrow> take k files = files) \<and>
     (\<forall>j < k. j \<le> length files \<longrightarrow> freed + sum_list (map cf_size (take j files)) < needed)"
  using assms
proof (induction files arbitrary: fs removed freed)
  case Nil
  then show ?case by (intro exI [of _ 0]) (simp add: paths_def)
next
  case (Cons f files)
  let ?fs = "removeAll (cf_blob_path f) (removeAll (cf_path f) fs)"
  have p: "cf_path f \<in> set fs" "cf_blob_path f \<in> set fs" "cf_path f \<noteq> cf_blob_path f" "distinct (paths files)"
    "set (paths files) \<subseteq> set ?fs" using Cons.prems(1,2) by (auto simp: paths_def)
  then have rm: "os_remove (cf_path f) fs = Inr (removeAll (cf_path f) fs)"
    "os_remove (cf_blob_path f) (removeAll (cf_path f) fs) = Inr ?fs" by (auto simp: os_remove_def)
  show ?case
  proof (cases "freed + cf_size f \<ge> needed")
    case True
    with Cons.prems(3) rm show ?thesis by (intro exI [of _ 1]) (auto simp: Let_def paths_def)
  next
    case False
    with Cons.IH [OF p(4,5), of "freed + cf_size f" "removed @ [f]"] obtain k fs' where
      k: "remove_files needed files ?fs (removed @ [f]) (freed + cf_size f) =
          (fs', (removed @ [f]) @ take k files, Inr (freed + cf_size f + sum_list (map cf_size (take k files))))"
      "set fs' = set ?fs - set (paths (take k files))"
      "freed + cf_size f + sum_list (map cf_size (take k files)) < needed \<longrightarrow> take k files = files"
      "\<forall>j < k. j \<le> length files \<longrightarrow> freed + cf_size f + sum_list (map cf_size (take j files)) < needed" by auto
    have "freed + sum_list (map cf_size (take j (f # files))) < needed" if "j < Suc k" "j \<le> length (f # files)" for j
      using that k(4) Cons.prems(3) by (cases j) (auto simp: algebra_simps)
    moreover have "remove_files needed (f # files) fs removed freed =
        (fs', removed @ take (Suc k) (f # files), Inr (freed + sum_list (map cf_size (take (Suc k) (f # files)))))"
      using False rm k(1) by (simp add: Let_def algebra_simps)
    moreover have "set fs' = set fs - set (paths (take (Suc k) (f # files)))" using k(2) by (auto simp: paths_def)
    ultimately show ?thesis using k(3) by (intro exI [of _ "Suc k"] exI [of _ fs']) auto
  qed
qed

lemma sum_list_sort_key: "sum_list (map h (sort_key key xs)) = sum_list (map h xs)" for h :: "'a \<Rightarrow> 'b::comm_monoid_add"
proof -
  have "sum_mset (image_mset h (mset (sort_key key xs))) = sum_mset (image_mset h (mset xs))" by (simp only: mset_sort)
  then show ?thesis by (simp only: mset_map [symmetric] sum_mset_sum_list)
qed

lemma lru_prefix:
  fixes k :: nat and files :: "cached_file list"
  defines "fs \<equiv> sort_key cf_last_accessed files"
  shows "mset (take k fs) + mset (drop k fs) = mset files" and "sorted (map cf_last_accessed (take k fs))"
    and "f \<in> set (take k fs) \<Longrightarrow> g \<in> set (drop k fs) \<Longrightarrow> cf_last_accessed f \<le> cf_last_accessed g"
proof -
  have "sorted (map cf_last_accessed (take k fs) @ map cf_last_accessed (drop k fs))"
    unfolding fs_def by (metis append_take_drop_id map_append sorted_sort_key)
  then show "sorted (map cf_last_accessed (take k fs))"
    and "f \<in> set (take k fs) \<Longrightarrow> g \<in> set (drop k fs) \<Longrightarrow> cf_last_accessed f \<le> cf_last_accessed g"
    by (auto simp: sorted_append)
  show "mset (take k fs) + mset (drop k fs) = mset files"
    unfolding fs_def by (metis append_take_drop_id mset_append mset_sort)
qed

text \<open>C26. Making room for a block on disk, when every cached file has its own contents: on success the removed
  files free at least the missing space, and removing any shorter prefix of the same order would not have
  been enough; on failure every cached file has been removed and their total is still too small. The
  removed files are in order of last access, every file kept was accessed no earlier than every removed
  one, and nothing but the removed files leaves the file system.\<close>

theorem disk_space_lru:
  assumes "distinct (paths (cached_files info))" and "set (paths (cached_files info)) \<subseteq> set fs"
    and "free_disk_space_for sz info disk_free max_disk_space os_quota fs = (fs', removed, outcome)"
    and "kept = drop (length removed) (sort_key cf_last_accessed (cached_files info))"
  shows "mset removed + mset kept = mset (cached_files info) \<and>
    sorted (map cf_last_accessed removed) \<and>
    (\<forall>f \<in> set removed. \<forall>g \<in> set kept. cf_last_accessed f \<le> cf_last_accessed g) \<and>
    set fs' = set fs - set (paths removed) \<and>
    (case outcome of
       Inr _ \<Rightarrow> sz \<le> available_space info disk_free max_disk_space os_quota + sum_list (map cf_size removed) \<and>
         (\<forall>j < length removed. available_space info disk_free max_disk_space os_quota + sum_list (map cf_size (take j removed)) < sz)
     | Inl e \<Rightarrow> e = RuntimeError \<and> kept = [] \<and>
         available_space info disk_free max_disk_space os_quota + sum_list (map cf_size (cached_files info)) < sz)"
proof -
  let ?av = "available_space info disk_free max_disk_space os_quota" and ?fs = "sort_key cf_last_accessed (cached_files info)"
  have mset: "mset (paths ?fs) = mset (paths (cached_files info))"
    by (simp add: paths_def mset_concat sum_list_sort_key)
  have dp: "distinct (paths ?fs)" "set (paths ?fs) \<subseteq> set fs"
    using assms(1,2) mset_eq_imp_distinct_iff [OF mset] mset_eq_setD [OF mset] by simp_all
  show ?thesis
  proof (cases "sz \<le> ?av")
    case True
    with assms(3,4) show ?thesis by (auto simp: free_disk_space_for_def Let_def paths_def)
  next
    case False
    with remove_files_spec [OF dp, of 0 "sz - ?av" "[]"] obtain k fs1 where
      k: "remove_files (sz - ?av) ?fs fs [] 0 = (fs1, take k ?fs, Inr (sum_list (map cf_size (take k ?fs))))"
      "set fs1 = set fs - set (paths (take k ?fs))" "sum_list (map cf_size (take k ?fs)) < sz - ?av \<longrightarrow> take k ?fs = ?fs"
      "\<forall>j < k. j \<le> length ?fs \<longrightarrow> sum_list (map cf_size (take j ?fs)) < sz - ?av" by auto
    have r: "fs' = fs1" "removed = take k ?fs"
      "outcome = (if sum_list (map cf_size (take k ?fs)) < sz - ?av then Inl RuntimeError else Inr ())"
      using assms(3) False k(1) by (auto simp: free_disk_space_for_def Let_def)
    have kept: "kept = drop k ?fs" "length removed \<le> k" "length removed \<le> length ?fs"
      using assms(4) r(2) by (auto simp: min_def)
    have least: "?av + sum_list (map cf_size (take j removed)) < sz" if "j < length removed" for j
    proof -
      have "take j removed = take j ?fs" using that r(2) kept(2) by (simp add: min_absorb1)
      moreover have "sum_list (map cf_size (take j ?fs)) < sz - ?av" using that kept k(4) by auto
      ultimately show ?thesis by simp
    qed
    have all: "kept = [] \<and> ?av + sum_list (map cf_size (cached_files info)) < sz"
      if "sum_list (map cf_size (take k ?fs)) < sz - ?av"
    proof -
      have t: "take k ?fs = ?fs" using k(3) that by simp
      then have "length ?fs \<le> k" by (metis length_take min.cobounded2)
      moreover have "sum_list (map cf_size ?fs) = sum_list (map cf_size (cached_files info))"
        by (rule sum_list_sort_key)
      ultimately show ?thesis using that t kept(1) by simp
    qed
    have "case outcome of
       Inr _ \<Rightarrow> sz \<le> ?av + sum_list (map cf_size removed) \<and> (\<forall>j < length removed. ?av + sum_list (map cf_size (take j removed)) < sz)
     | Inl e \<Rightarrow> e = RuntimeError \<and> kept = [] \<and> ?av + sum_list (map cf_size (cached_files info)) < sz"
      using least all by (simp add: r(2,3))
    then show ?thesis using lru_prefix [where k = k and files = "cached_files info"] k(2) kept(1) r(1,2) by blast
  qed
qed

text \<open>Two revisions of a repository share the contents of a file that did not change between them. When both
  links have to go, removing the second fails and the call ends with an exception.\<close>

theorem shared_blob_fails:
  assumes "sort_key cf_last_accessed (cached_files info) = f # g # rest" and "cf_blob_path f = cf_blob_path g"
    and "distinct [cf_path f, cf_path g, cf_blob_path f]" and "{cf_path f, cf_path g, cf_blob_path f} \<subseteq> set fs"
    and "available_space info disk_free max_disk_space os_quota + max 0 (cf_size f) < sz"
  shows "snd (snd (free_disk_space_for sz info disk_free max_disk_space os_quota fs)) = Inl FileNotFoundError"
  using assms by (auto simp: free_disk_space_for_def Let_def os_remove_def)

definition demo_cache :: cache_info where
  "demo_cache = \<lparr>ci_repos = [[[\<lparr>cf_path = ''a'', cf_blob_path = ''A'', cf_last_accessed = 5, cf_size = 10\<rparr>,
     \<lparr>cf_path = ''b'', cf_blob_path = ''B'', cf_last_accessed = 2, cf_size = 20\<rparr>]]], ci_size_on_disk = 30\<rparr>"

theorem disk_space_lru_witness:
  "free_disk_space_for 15 demo_cache 105 None 100 [''a'', ''A'', ''b'', ''B'', ''c''] =
     ([''a'', ''A'', ''c''], [\<lparr>cf_path = ''b'', cf_blob_path = ''B'', cf_last_accessed = 2, cf_size = 20\<rparr>], Inr ()) \<and>
   cf_last_accessed (cached_files demo_cache ! 1) \<le> cf_last_accessed (cached_files demo_cache ! 0)"
proof -
  let ?b = "\<lparr>cf_path = ''b'', cf_blob_path = ''B'', cf_last_accessed = 2, cf_size = 20\<rparr>"
  let ?a = "\<lparr>cf_path = ''a'', cf_blob_path = ''A'', cf_last_accessed = 5, cf_size = 10\<rparr>"
  have srt: "sort_key cf_last_accessed (cached_files demo_cache) = [?b, ?a]"
    by (simp add: cached_files_def demo_cache_def)
  have run: "free_disk_space_for 15 demo_cache 105 None 100 [''a'', ''A'', ''b'', ''B'', ''c''] = ([''a'', ''A'', ''c''], [?b], Inr ())"
    unfolding free_disk_space_for_def srt by (simp add: available_space_def Let_def os_remove_def)
  have "distinct (paths (cached_files demo_cache))" "set (paths (cached_files demo_cache)) \<subseteq> set [''a'', ''A'', ''b'', ''B'', ''c'']"
    by (simp_all add: paths_def cached_files_def demo_cache_def)
  from disk_space_lru [OF this run refl] have "cf_last_accessed ?b \<le> cf_last_accessed ?a" using srt by simp
  with run show ?thesis by (simp add: cached_files_def demo_cache_def)
qed

end
