(* ===== verification/Backend.thy ===== *)
theory Backend
  imports Memory_Cache
begin

text \<open>
  \<open>src/peerz/server/backend.py\<close>: a transformer block with its attention caches. A cache tensor is indexed by
  sequence of the batch, attention head and position; its entries stand for the vectors along the head
  dimension, which sit before the position in key tensors and after it in value tensors. Hidden states
  are lists of tokens, each token standing for its vectors over the batch. The forward pass of the
  wrapped module (\<open>TensorParallel\<close>), the \<open>forward\<close> and \<open>backward\<close> of hivemind's \<open>ModuleBackend\<close> and
  \<open>torch.empty_like\<close> are parameters; the tensors behind the handles
  are the dictionary that \<open>MemoryCache.use_cache\<close> reads, and an in-place write replaces an entry of it.

  The lemmas show that running the block chunk by chunk gives what one pass over all tokens gives, and
  that steps with the cache continue a pass over the earlier tokens.
\<close>

subsection \<open>State\<close>

record block_config =
  cfg_hidden_size :: int
  cfg_num_attention_heads :: int
  cfg_num_key_value_groups :: int
  cfg_num_key_value_heads :: "int option"     \<comment> \<open>None when the attribute is missing\<close>

type_synonym 'v cache_tensor = "'v list list list"     \<comment> \<open>batch, heads, positions\<close>
type_synonym 'v kv = "'v list list"                    \<comment> \<open>batch times heads, positions\<close>

record ('x, 'v) backend =
  bk_config :: block_config
  bk_devices :: "string option list"
  bk_shard_num_heads :: "int list"
  bk_dtype :: torch_dtype_info
  bk_dtype_bytes :: int
  bk_max_chunk_size_bytes :: int
  bk_cache_bytes_per_token :: "(string option, int) dict"
  bk_forward :: "string option \<Rightarrow> 'x list \<Rightarrow> 'v kv list \<Rightarrow> ('x list \<times> 'v kv list) result"
  bk_empty_like :: "'x list \<Rightarrow> 'x list"
  bk_super_forward :: "string option \<Rightarrow> 'x list \<Rightarrow> 'x list result"
  bk_super_backward :: "string option \<Rightarrow> 'x list \<Rightarrow> 'x list \<Rightarrow> 'x list result"

subsection \<open>Cache descriptors\<close>

definition get_inference_cache_descriptors :: "('x, 'v) backend \<Rightarrow> int \<Rightarrow> int \<Rightarrow> tensor_descr list" where
  "get_inference_cache_descriptors b batch_size max_length =
     (let cfg = bk_config b; head_dim = cfg_hidden_size cfg div cfg_num_attention_heads cfg in
      concat (map (\<lambda>(device, num_heads).
        let n = (case cfg_num_key_value_heads cfg of None \<Rightarrow> num_heads div cfg_num_key_value_groups cfg | Some k \<Rightarrow> k) in
        [\<lparr>td_shape = [batch_size, n, head_dim, max_length], td_dtype = bk_dtype b, td_device = device\<rparr>,
         \<lparr>td_shape = [batch_size, n, max_length, head_dim], td_dtype = bk_dtype b, td_device = device\<rparr>])
        (zip (bk_devices b) (bk_shard_num_heads b))))"

text \<open>The part of \<open>__init__\<close> that belongs to this class: no parameter or buffer (listed by whether it requires
  a gradient) may train, the shards must add up to the configured heads, and the bytes per token are
  counted per device.\<close>

definition init_backend ::
    "(torch_dtype_info \<Rightarrow> int result) \<Rightarrow> bool list \<Rightarrow> bool list \<Rightarrow> ('x, 'v) backend \<Rightarrow> ('x, 'v) backend result" where
  "init_backend size_of params_grad buffers_grad b =
     guardR (\<not> True \<in> set params_grad) AssertionError
     (guardR (\<not> True \<in> set buffers_grad) AssertionError
     (bindR (size_of (bk_dtype b)) (\<lambda>n.
      guardR (length (bk_shard_num_heads b) = length (bk_devices b)) AssertionError
      (guardR (sum_list (bk_shard_num_heads b) = cfg_num_attention_heads (bk_config b)) AssertionError
      (guardR (cfg_num_attention_heads (bk_config b) \<noteq> 0) ZeroDivisionError
      (guardR (bk_devices b = [] \<or> cfg_num_key_value_groups (bk_config b) \<noteq> 0) ZeroDivisionError
      (bindR (foldR (add_to_device size_of) (get_inference_cache_descriptors b 1 1) []) (\<lambda>by_device.
        Inr (b\<lparr>bk_dtype_bytes := n, bk_cache_bytes_per_token := by_device\<rparr>)))))))))"

subsection \<open>One inference step\<close>

fun evens :: "'a list \<Rightarrow> 'a list" where
  "evens (x # y # r) = x # evens r"
| "evens xs = xs"

fun odds :: "'a list \<Rightarrow> 'a list" where
  "odds (x # y # r) = y # odds r"
| "odds xs = []"

definition interleave :: "'a list \<Rightarrow> 'a list \<Rightarrow> 'a list" where
  "interleave xs ys = concat (map (\<lambda>(x, y). [x, y]) (zip xs ys))"

definition estimate_max_chunk_length :: "('x, 'v) backend \<Rightarrow> int \<Rightarrow> int \<Rightarrow> int \<Rightarrow> int result" where
  "estimate_max_chunk_length b batch_size seq_length prefix_length =
     (let worst_case_length = prefix_length + seq_length in
      if bk_shard_num_heads b = [] then Inl ValueError
      else let attn_bytes_per_token = Max (set (bk_shard_num_heads b)) * batch_size * bk_dtype_bytes b * worst_case_length in
        if attn_bytes_per_token = 0 then Inl ZeroDivisionError
        else Inr (max 1 (bk_max_chunk_size_bytes b div attn_bytes_per_token)))"

text \<open>Hypothesis ids: \<open>None\<close> or no ids leave the caches as they are.\<close>

definition reorder_cache_inplace :: "int list option \<Rightarrow> 'v cache_tensor list \<Rightarrow> 'v cache_tensor list result" where
  "reorder_cache_inplace hypo_ids tensors =
     (case hypo_ids of
        None \<Rightarrow> Inr tensors
      | Some ids \<Rightarrow>
          if ids = [] then Inr tensors
          else mapR (\<lambda>t. bindR (mapR (py_index t) ids) (\<lambda>t'. guardR (length t' = length t \<or> length t' = 1) RuntimeError
                 (Inr (if length t' = length t then t' else replicate (length t) (hd t'))))) tensors)"

definition select_layer_past :: "'v cache_tensor list \<Rightarrow> nat \<Rightarrow> 'v kv list result" where
  "select_layer_past tensors prefix_length =
     (let keys = evens tensors; values = odds tensors; cut = (\<lambda>t. map (take prefix_length) (concat t)) in
      if length keys \<noteq> length values then Inl IndexError
      else Inr (interleave (map cut keys) (map cut values)))"

fun regroup :: "nat list \<Rightarrow> 'a list \<Rightarrow> 'a list list" where
  "regroup [] rows = []"
| "regroup (n # ns) rows = take n rows # regroup ns (drop n rows)"

text \<open>The slice assignment along the positions: both sides must have the same size, or the right one size 1.\<close>

definition write_row :: "nat \<Rightarrow> nat \<Rightarrow> 'v list \<Rightarrow> 'v list \<Rightarrow> 'v list result" where
  "write_row prefix_length new_length old new =
     (let lo = min prefix_length (length old); hi = min new_length (length old); vals = drop prefix_length (take new_length new) in
      guardR (hi - lo = length vals \<or> length vals = 1) RuntimeError
        (Inr (take lo old @ take (hi - lo) vals @ drop (max lo hi) old)))"

definition write_tensor :: "nat \<Rightarrow> nat \<Rightarrow> 'v cache_tensor \<Rightarrow> 'v kv \<Rightarrow> 'v cache_tensor result" where
  "write_tensor prefix_length new_length cache new =
     guardR (length new = length (concat cache)) RuntimeError
       (bindR (mapR (\<lambda>(old, r). write_row prefix_length new_length old r) (zip (concat cache) new))
         (\<lambda>rows. Inr (regroup (map length cache) rows)))"

text \<open>\<open>_update_cache_inplace\<close>; tensors without a partner in the new ones keep their contents.\<close>

definition update_cache_inplace :: "'v cache_tensor list \<Rightarrow> 'v kv list \<Rightarrow> nat \<Rightarrow> 'v cache_tensor list result" where
  "update_cache_inplace tensors new_kvs prefix_length =
     (case new_kvs of
        (row # _) # _ \<Rightarrow>
          bindR (mapR (\<lambda>(c, n). write_tensor prefix_length (length row) c n) (zip tensors new_kvs))
            (\<lambda>ts. Inr (ts @ drop (length ts) tensors))
      | _ \<Rightarrow> Inl IndexError)"

definition range_step :: "nat \<Rightarrow> nat \<Rightarrow> nat list" where
  "range_step n step = map (\<lambda>i. i * step) [0..<(n + step - 1) div step]"

definition chunk_step ::
    "('x list \<Rightarrow> 'v kv list \<Rightarrow> ('x list \<times> 'v kv list) result) \<Rightarrow> 'x list \<Rightarrow> nat \<Rightarrow> nat
     \<Rightarrow> 'x list \<times> 'v kv list \<Rightarrow> ('x list \<times> 'v kv list) result" where
  "chunk_step fw hidden_states max_chunk_length offset st =
     (let chunk = take max_chunk_length (drop offset hidden_states) in
      bindR (fw chunk (snd st)) (\<lambda>(output, new_kvs).
        if length hidden_states > max_chunk_length
        then guardR (length output = length chunk) RuntimeError
               (Inr (take offset (fst st) @ output @ drop (offset + max_chunk_length) (fst st), new_kvs))
        else Inr (output, new_kvs)))"

definition inference_step ::
    "('x, 'v) backend \<Rightarrow> int \<Rightarrow> 'x list \<Rightarrow> int list option \<Rightarrow> inference_metadata \<Rightarrow> (int, 'v cache_tensor) dict
     \<Rightarrow> ('x list \<times> (int, 'v cache_tensor) dict) result" where
  "inference_step b batch_size hidden_states hypo_ids info store =
     (let prefix_length = nat (im_prefix_length info); fw = bk_forward b (im_active_adapter info) in
      bindR (mapR (dict_item store) (im_cache_handles info)) (\<lambda>cache_tensors.
      bindR (reorder_cache_inplace hypo_ids cache_tensors) (\<lambda>cache_tensors1.
      bindR (estimate_max_chunk_length b batch_size (int (length hidden_states)) (im_prefix_length info)) (\<lambda>max_chunk_length.
      bindR (select_layer_past cache_tensors1 prefix_length) (\<lambda>layer_past.
      bindR (foldR (chunk_step fw hidden_states (nat max_chunk_length)) (range_step (length hidden_states) (nat max_chunk_length))
               (bk_empty_like b hidden_states, layer_past)) (\<lambda>(output, new_kvs).
      guardR (hidden_states \<noteq> []) NameError     \<comment> \<open>the loop never set \<open>new_kvs\<close>\<close>
      (bindR (update_cache_inplace cache_tensors1 new_kvs prefix_length) (\<lambda>cache_tensors2.
        Inr (output, fold (\<lambda>(h, t). dict_set h t) (zip (im_cache_handles info) cache_tensors2) store)))))))))"

subsection \<open>Forward and backward\<close>

text \<open>The last argument of a task is the adapter, which is active during the call.\<close>

definition backend_forward :: "('x, 'v) backend \<Rightarrow> 'x list \<Rightarrow> string option \<Rightarrow> 'x list result" where
  "backend_forward b inputs active_adapter = bk_super_forward b active_adapter inputs"

definition backend_backward :: "('x, 'v) backend \<Rightarrow> 'x list \<Rightarrow> 'x list \<Rightarrow> string option \<Rightarrow> 'x list result" where
  "backend_backward b inputs grad_outputs active_adapter = bk_super_backward b active_adapter inputs grad_outputs"

subsection \<open>The merged step\<close>

text \<open>\<open>hidden_states[:, : prompt.shape[1]] += prompt\<close>.\<close>

definition add_prompt :: "'x::plus list \<Rightarrow> 'x list \<Rightarrow> 'x list result" where
  "add_prompt prompt hidden_states =
     guardR (length prompt \<le> length hidden_states) RuntimeError
       (Inr (map2 (+) (take (length prompt) hidden_states) prompt @ drop (length prompt) hidden_states))"

definition merged_block ::
    "(module_uid, ('x::plus, 'v) backend) dict \<Rightarrow> int \<Rightarrow> int list option \<Rightarrow> inference_metadata \<times> 'x list option
     \<Rightarrow> 'x list \<times> (int, 'v cache_tensor) dict \<Rightarrow> ('x list \<times> (int, 'v cache_tensor) dict) result" where
  "merged_block backends batch_size hypo_ids arg st =
     (case (arg, st) of ((info, optional_prompt), (hidden_states, store)) \<Rightarrow>
        bindR (case optional_prompt of None \<Rightarrow> Inr hidden_states | Some p \<Rightarrow> add_prompt p hidden_states) (\<lambda>hs.
        bindR (dict_item backends (im_uid info)) (\<lambda>b. inference_step b batch_size hs hypo_ids info store)))"

definition merged_inference_step ::
    "(module_uid, ('x::plus, 'v) backend) dict \<Rightarrow> int \<Rightarrow> 'x list \<Rightarrow> int list option \<Rightarrow> inference_metadata list \<Rightarrow> 'x list option list
     \<Rightarrow> (int, 'v cache_tensor) dict \<Rightarrow> ('x list \<times> (int, 'v cache_tensor) dict) result" where
  "merged_inference_step backends batch_size hidden_states hypo_ids infos optional_prompts store =
     guardR (length infos = length optional_prompts) AssertionError
       (foldR (merged_block backends batch_size hypo_ids) (zip infos optional_prompts) (hidden_states, store))"

subsection \<open>Chunks\<close>

text \<open>What is used of the forward pass of a block. The predicate \<open>tok\<close> describes its tokens (as many sequences as the
  batch has, vectors of the hidden size), \<open>vec\<close> the vectors of its caches and \<open>shape\<close> the number of rows of each cache
  tensor. On caches of one length it takes any non-empty list of tokens, returns as many, extends the caches by as many
  positions, and passes over two parts of the tokens one after the other as over their concatenation.\<close>

definition uniform :: "nat \<Rightarrow> 'v kv list \<Rightarrow> bool" where
  "uniform m kvs \<longleftrightarrow> kvs \<noteq> [] \<and> hd kvs \<noteq> [] \<and> (\<forall>t \<in> set kvs. \<forall>r \<in> set t. length r = m)"

definition extends :: "nat \<Rightarrow> 'v kv list \<Rightarrow> 'v kv list \<Rightarrow> bool" where
  "extends n past kvs \<longleftrightarrow> list_all2 (list_all2 (\<lambda>p k. length k = length p + n \<and> take (length p) k = p)) past kvs"

definition fitting :: "('v \<Rightarrow> bool) \<Rightarrow> nat list \<Rightarrow> nat \<Rightarrow> 'v kv list \<Rightarrow> bool" where
  "fitting vec shape m kvs \<longleftrightarrow> uniform m kvs \<and> map length kvs = shape \<and> list_all (list_all (list_all vec)) kvs"

definition causal_module ::
    "('x \<Rightarrow> bool) \<Rightarrow> ('v \<Rightarrow> bool) \<Rightarrow> nat list \<Rightarrow> ('x list \<Rightarrow> 'v kv list \<Rightarrow> ('x list \<times> 'v kv list) result) \<Rightarrow> bool" where
  "causal_module tok vec shape fw \<longleftrightarrow>
     (\<forall>hs past m. hs \<noteq> [] \<and> list_all tok hs \<and> fitting vec shape m past \<longrightarrow>
        (\<exists>out kvs. fw hs past = Inr (out, kvs) \<and> length out = length hs \<and> list_all tok out \<and> extends (length hs) past kvs \<and>
           list_all (list_all (list_all vec)) kvs)) \<and>
     (\<forall>h1 h2 past m. h1 \<noteq> [] \<and> h2 \<noteq> [] \<and> list_all tok h1 \<and> list_all tok h2 \<and> fitting vec shape m past \<longrightarrow>
        fw (h1 @ h2) past = bindR (fw h1 past) (\<lambda>(o1, k1). bindR (fw h2 k1) (\<lambda>(o2, k2). Inr (o1 @ o2, k2))))"

lemma extends_uniform: "extends n past kvs \<Longrightarrow> uniform m past \<Longrightarrow> uniform (m + n) kvs"
proof -
  assume e: "extends n past kvs" and u: "uniform m past"
  then have "\<forall>t \<in> set kvs. \<forall>r \<in> set t. length r = m + n"
    unfolding extends_def uniform_def list_all2_conv_all_nth by (metis in_set_conv_nth)
  moreover have "kvs \<noteq> [] \<and> hd kvs \<noteq> []"
    using e u by (cases past; cases kvs) (auto simp: extends_def uniform_def)
  ultimately show ?thesis by (simp add: uniform_def)
qed

lemma extends_shape: "extends n past kvs \<Longrightarrow> map length kvs = map length past"
  by (auto simp: extends_def list_all2_conv_all_nth intro!: nth_equalityI)

lemma causal_total:
  assumes "causal_module tok vec shape fw" "hs \<noteq> []" "list_all tok hs" "fitting vec shape m past"
  obtains out kvs where "fw hs past = Inr (out, kvs)" "length out = length hs" "list_all tok out" "extends (length hs) past kvs"
    "fitting vec shape (m + length hs) kvs"
proof -
  from assms obtain out kvs where k: "fw hs past = Inr (out, kvs)" "length out = length hs" "list_all tok out"
    "extends (length hs) past kvs" "list_all (list_all (list_all vec)) kvs"
    unfolding causal_module_def by meson
  from k(4,5) assms(4) have "fitting vec shape (m + length hs) kvs"
    unfolding fitting_def using extends_uniform [OF k(4)] extends_shape [OF k(4)] by simp
  with k(1-4) show thesis by (rule that)
qed

lemma causal_append:
  "causal_module tok vec shape fw \<Longrightarrow> h1 \<noteq> [] \<Longrightarrow> h2 \<noteq> [] \<Longrightarrow> list_all tok h1 \<Longrightarrow> list_all tok h2 \<Longrightarrow> fitting vec shape m past \<Longrightarrow>
   fw (h1 @ h2) past = bindR (fw h1 past) (\<lambda>(o1, k1). bindR (fw h2 k1) (\<lambda>(o2, k2). Inr (o1 @ o2, k2)))"
  unfolding causal_module_def by blast

lemma list_all_take_drop [simp]: "list_all p xs \<Longrightarrow> list_all p (take n xs)" "list_all p xs \<Longrightarrow> list_all p (drop n xs)"
  by (auto simp: list_all_iff dest: in_set_takeD in_set_dropD)

lemma range_step_short: "0 < n \<Longrightarrow> n \<le> step \<Longrightarrow> range_step n step = [0]"
proof -
  assume "0 < n" "n \<le> step"
  then have "(n + step - 1) div step = 1" by (intro div_nat_eqI) auto
  then show ?thesis by (simp add: range_step_def)
qed

lemma chunk_count:
  fixes n step :: nat
  assumes "0 < step"
  shows "k < (n + step - 1) div step \<Longrightarrow> k * step < n" and "n \<le> (n + step - 1) div step * step"
proof -
  let ?q = "(n + step - 1) div step"
  have "?q * step \<le> n + step - 1" by simp
  moreover assume "k < ?q"
  then have "Suc k * step \<le> ?q * step" by (intro mult_le_mono1) simp
  ultimately have "Suc k * step \<le> n + step - 1" by (rule order_trans [rotated])
  then show "k * step < n" using assms by simp
next
  let ?q = "(n + step - 1) div step"
  have "n + step - 1 < Suc ?q * step" using assms by (simp add: dividend_less_div_times)
  then show "n \<le> ?q * step" by simp
qed

lemma chunks_prefix:
  assumes causal: "causal_module tok vec shape fw" and tok: "list_all tok hs" and past: "fitting vec shape m past" and L: "0 < L" and long: "L < length hs"
    and buf: "length buf = length hs" and k: "k \<le> (length hs + L - 1) div L"
  shows "\<exists>st. foldR (chunk_step fw hs L) (map (\<lambda>i. i * L) [0..<k]) (buf, past) = Inr st \<and>
    (k = 0 \<longrightarrow> st = (buf, past)) \<and>
    (0 < k \<longrightarrow> (\<exists>out kvs. fw (take (k * L) hs) past = Inr (out, kvs) \<and> st = (out @ drop (k * L) buf, kvs)))"
  using k
proof (induction k)
  case (Suc k)
  let ?chunk = "take L (drop (k * L) hs)"
  have lt: "k * L < length hs" using chunk_count(1) [OF L, of k "length hs"] Suc.prems by simp
  then have ne: "?chunk \<noteq> []" using L by simp
  have tk: "list_all tok ?chunk" "list_all tok (take (k * L) hs)" using tok by simp_all
  have whole: "take (Suc k * L) hs = take (k * L) hs @ ?chunk" using take_add [of "k * L" L hs] by (simp add: add.commute)
  from Suc obtain st where st: "foldR (chunk_step fw hs L) (map (\<lambda>i. i * L) [0..<k]) (buf, past) = Inr st"
    "k = 0 \<longrightarrow> st = (buf, past)"
    "0 < k \<longrightarrow> (\<exists>out kvs. fw (take (k * L) hs) past = Inr (out, kvs) \<and> st = (out @ drop (k * L) buf, kvs))" by auto
  have step: "\<exists>out kvs. chunk_step fw hs L (k * L) st = Inr (out @ drop (Suc k * L) buf, kvs) \<and>
      fw (take (Suc k * L) hs) past = Inr (out, kvs)"
  proof (cases "k = 0")
    case True
    from causal_total [OF causal ne tk(1) past] obtain out kvs where f: "fw ?chunk past = Inr (out, kvs)" "length out = length ?chunk" by blast
    with True st(2) long show ?thesis by (simp add: chunk_step_def)
  next
    case False
    then obtain o1 k1 where s: "fw (take (k * L) hs) past = Inr (o1, k1)" "st = (o1 @ drop (k * L) buf, k1)" using st(3) by auto
    have ne1: "take (k * L) hs \<noteq> []" using False L lt by auto
    from causal_total [OF causal ne1 tk(2) past] s(1) have o1: "length o1 = k * L" "fitting vec shape (m + length (take (k * L) hs)) k1"
      using lt by auto
    from causal_total [OF causal ne tk(1) o1(2)] obtain o2 k2 where
      f: "fw ?chunk k1 = Inr (o2, k2)" "length o2 = length ?chunk" by blast
    have "fw (take (Suc k * L) hs) past = Inr (o1 @ o2, k2)"
      using causal_append [OF causal ne1 ne tk(2,1) past] s(1) f(1) unfolding whole by simp
    with s(2) f o1(1) long show ?thesis by (simp add: chunk_step_def Let_def add.commute)
  qed
  then show ?case using st(1) by (auto simp: foldR_append)
qed simp

lemma chunked_run:
  assumes causal: "causal_module tok vec shape fw" and tok: "list_all tok hs" and past: "fitting vec shape m past" and L: "0 < L" and hs: "hs \<noteq> []" and buf: "length buf = length hs"
  shows "foldR (chunk_step fw hs L) (range_step (length hs) L) (buf, past) = fw hs past"
proof -
  from causal_total [OF causal hs tok past] obtain out kvs where f: "fw hs past = Inr (out, kvs)" by blast
  show ?thesis
  proof (cases "length hs \<le> L")
    case True
    then show ?thesis using hs f by (simp add: range_step_short chunk_step_def)
  next
    case False
    let ?q = "(length hs + L - 1) div L"
    have q: "length hs \<le> ?q * L" by (rule chunk_count(2) [OF L])
    then have "0 < ?q" using hs by (cases "?q = 0") auto
    with chunks_prefix [OF causal tok past L _ buf order_refl] False q buf f show ?thesis
      by (auto simp: range_step_def)
  qed
qed

subsection \<open>The cache between steps\<close>

text \<open>The keys, values and outputs of a pass over all tokens \<open>X\<close>, for tensors with the given numbers of rows.\<close>

abbreviation no_past :: "nat list \<Rightarrow> 'v kv list" where
  "no_past shape \<equiv> map (\<lambda>n. replicate n []) shape"

definition full_kv :: "('x list \<Rightarrow> 'v kv list \<Rightarrow> ('x list \<times> 'v kv list) result) \<Rightarrow> nat list \<Rightarrow> 'x list \<Rightarrow> 'v kv list" where
  "full_kv fw shape X = (if X = [] then no_past shape else case fw X (no_past shape) of Inr r \<Rightarrow> snd r | Inl _ \<Rightarrow> [])"

definition full_out :: "('x list \<Rightarrow> 'v kv list \<Rightarrow> ('x list \<times> 'v kv list) result) \<Rightarrow> nat list \<Rightarrow> 'x list \<Rightarrow> 'x list" where
  "full_out fw shape X = (if X = [] then [] else case fw X (no_past shape) of Inr r \<Rightarrow> fst r | Inl _ \<Rightarrow> [])"

definition row_shape :: "nat list \<Rightarrow> bool" where
  "row_shape shape \<longleftrightarrow> even (length shape) \<and> shape \<noteq> [] \<and> 0 < hd shape"

lemma fitting_no_past: "row_shape shape \<Longrightarrow> fitting vec shape 0 (no_past shape)"
  by (cases shape) (auto simp: fitting_def uniform_def row_shape_def list_all_iff comp_def)

lemma full_kv_facts:
  assumes "causal_module tok vec shape fw" and shape: "row_shape shape" and X: "list_all tok X"
  shows "fitting vec shape (length X) (full_kv fw shape X)" "length (full_out fw shape X) = length X" "list_all tok (full_out fw shape X)"
proof -
  have "fitting vec shape (length X) (full_kv fw shape X) \<and> length (full_out fw shape X) = length X \<and> list_all tok (full_out fw shape X)"
  proof (cases "X = []")
    case True
    then show ?thesis using fitting_no_past [OF shape] by (simp add: full_kv_def full_out_def comp_def)
  next
    case False
    from causal_total [OF assms(1) False X fitting_no_past [OF shape]] obtain out kvs where
      "fw X (no_past shape) = Inr (out, kvs)" "length out = length X" "list_all tok out" "fitting vec shape (0 + length X) kvs" by blast
    then show ?thesis using False by (simp add: full_kv_def full_out_def)
  qed
  then show "fitting vec shape (length X) (full_kv fw shape X)" "length (full_out fw shape X) = length X" "list_all tok (full_out fw shape X)"
    by auto
qed

text \<open>One more pass continues the full pass.\<close>

lemma continue_pass:
  assumes causal: "causal_module tok vec shape fw" and shape: "row_shape shape" and X: "list_all tok X" and Y: "Y \<noteq> []" "list_all tok Y"
  obtains out where "fw Y (full_kv fw shape X) = Inr (out, full_kv fw shape (X @ Y))" and "full_out fw shape (X @ Y) = full_out fw shape X @ out"
    and "length out = length Y" and "list_all tok out" and "extends (length Y) (full_kv fw shape X) (full_kv fw shape (X @ Y))"
proof -
  from causal_total [OF causal Y full_kv_facts(1) [OF causal shape X]] obtain out kvs where
    f: "fw Y (full_kv fw shape X) = Inr (out, kvs)" "length out = length Y" "list_all tok out" "extends (length Y) (full_kv fw shape X) kvs" .
  have "kvs = full_kv fw shape (X @ Y) \<and> full_out fw shape (X @ Y) = full_out fw shape X @ out"
  proof (cases "X = []")
    case True
    with f(1) Y show ?thesis by (simp add: full_kv_def full_out_def)
  next
    case False
    from causal_total [OF causal False X fitting_no_past [OF shape]] obtain o1 k1 where
      g: "fw X (no_past shape) = Inr (o1, k1)" by blast
    with f(1) False have "fw (X @ Y) (no_past shape) = Inr (o1 @ out, kvs)"
      using causal_append [OF causal False Y(1) X Y(2) fitting_no_past [OF shape]] by (simp add: full_kv_def)
    with g False show ?thesis by (simp add: full_kv_def full_out_def)
  qed
  with f that show thesis by blast
qed

definition holds_past ::
    "('x list \<Rightarrow> 'v kv list \<Rightarrow> ('x list \<times> 'v kv list) result) \<Rightarrow> nat list \<Rightarrow> nat \<Rightarrow> 'x list \<Rightarrow> 'v cache_tensor list \<Rightarrow> bool" where
  "holds_past fw shape M X ts \<longleftrightarrow>
     uniform M (map concat ts) \<and> map (\<lambda>t. map (take (length X)) (concat t)) ts = full_kv fw shape X"

lemma evens_odds:
  "even (length ts) \<Longrightarrow> length (evens ts) = length (odds ts) \<and> interleave (map f (evens ts)) (map f (odds ts)) = map f ts"
  by (induction ts rule: evens.induct) (auto simp: interleave_def)

lemma concat_regroup: "length rows = sum_list ns \<Longrightarrow> concat (regroup ns rows) = rows"
  by (induction ns arbitrary: rows) auto

lemma write_row_ok:
  assumes "length old = M" "p \<le> n" "n \<le> M" "length new = n" "take p new = take p old"
  shows "\<exists>r. write_row p n old new = Inr r \<and> length r = M \<and> take n r = new"
proof -
  have "take p old @ drop p new = new" using assms(5) by (metis append_take_drop_id)
  moreover have "take (n - p) (drop p new) = drop p new" using assms(4) by simp
  ultimately have "write_row p n old new = Inr (new @ drop n old)"
    using assms by (simp add: write_row_def Let_def min_def max_def flip: append_assoc)
  then show ?thesis using assms by simp
qed

lemma write_tensor_ok:
  assumes old: "\<forall>r \<in> set (concat c). length r = M" and pn: "p \<le> n" "n \<le> M"
    and new: "list_all2 (\<lambda>r k. length k = n \<and> take p k = r) (map (take p) (concat c)) new"
  shows "\<exists>c'. write_tensor p n c new = Inr c' \<and> map (take n) (concat c') = new \<and> (\<forall>r \<in> set (concat c'). length r = M)"
proof -
  have len: "length new = length (concat c)" using list_all2_lengthD [OF new] by simp
  have row: "\<exists>r. write_row p n (concat c ! i) (new ! i) = Inr r \<and> length r = M \<and> take n r = new ! i" if "i < length new" for i
  proof (rule write_row_ok)
    show "length (concat c ! i) = M" using that len old by (metis nth_mem)
    show "length (new ! i) = n" "take p (new ! i) = take p (concat c ! i)"
      using that len new by (simp_all add: list_all2_conv_all_nth)
  qed (rule pn)+
  then obtain f where f: "\<And>i. i < length new \<Longrightarrow> write_row p n (concat c ! i) (new ! i) = Inr (f i) \<and> length (f i) = M \<and> take n (f i) = new ! i"
    by metis
  let ?rows = "map f [0..<length new]"
  have "mapR (\<lambda>(old, r). write_row p n old r) (zip (concat c) new) = Inr ?rows"
    unfolding mapR_Inr_iff using f len by (auto simp: list_all2_conv_all_nth)
  moreover have "concat (regroup (map length c) ?rows) = ?rows"
    using len by (intro concat_regroup) (simp add: length_concat)
  moreover have "map (take n) ?rows = new" using f by (auto intro!: nth_equalityI)
  moreover have "\<forall>r \<in> set ?rows. length r = M" using f by auto
  ultimately show ?thesis
    by (intro exI [of _ "regroup (map length c) ?rows"]) (simp only: write_tensor_def len bindR_simps guardR_simps simp_thms)
qed

lemma update_cache_ok:
  assumes causal: "causal_module tok vec shape fw" and X: "list_all tok X" and Y: "Y \<noteq> []" "list_all tok Y" and fits: "length X + length Y \<le> M"
    and hold: "holds_past fw shape M X ts" and shape: "row_shape shape"
  shows "\<exists>ts'. update_cache_inplace ts (full_kv fw shape (X @ Y)) (length X) = Inr ts' \<and> holds_past fw shape M (X @ Y) ts' \<and> length ts' = length ts"
proof -
  let ?kv = "full_kv fw shape (X @ Y)" and ?p = "length X" and ?n = "length (X @ Y)"
  obtain out where ext: "extends (length Y) (full_kv fw shape X) ?kv" using continue_pass [OF causal shape X Y] by metis
  have past: "full_kv fw shape X = map (\<lambda>t. map (take ?p) (concat t)) ts" using hold by (simp add: holds_past_def)
  have uni: "\<And>t r. t \<in> set ts \<Longrightarrow> r \<in> set (concat t) \<Longrightarrow> length r = M" using hold unfolding holds_past_def uniform_def by fastforce
  have len: "length ?kv = length ts" using ext unfolding extends_def past by (auto dest: list_all2_lengthD)
  have kv: "uniform ?n ?kv" "map length ?kv = shape"
    using full_kv_facts(1) [OF causal shape, of "X @ Y"] X Y(2) by (simp_all add: fitting_def)
  then obtain row rows rest where first: "?kv = (row # rows) # rest" "length row = ?n"
    using shape by (cases ?kv; cases "hd ?kv") (auto simp: uniform_def row_shape_def)
  have each: "\<exists>c'. write_tensor ?p ?n (ts ! i) (?kv ! i) = Inr c' \<and> map (take ?n) (concat c') = ?kv ! i \<and> (\<forall>r \<in> set (concat c'). length r = M)"
    if "i < length ts" for i
  proof (rule write_tensor_ok)
    have "list_all2 (\<lambda>r k. length k = length r + length Y \<and> take (length r) k = r) (map (take ?p) (concat (ts ! i))) (?kv ! i)"
      using ext that unfolding extends_def past by (simp add: list_all2_conv_all_nth)
    moreover have "length r = ?p" if r: "r \<in> set (map (take ?p) (concat (ts ! i)))" for r
    proof -
      obtain x where "r = take ?p x" "x \<in> set (concat (ts ! i))" using r by (auto simp del: set_concat)
      then show ?thesis using uni [of "ts ! i" x] \<open>i < length ts\<close> fits by (simp add: min_def)
    qed
    ultimately show "list_all2 (\<lambda>r k. length k = ?n \<and> take ?p k = r) (map (take ?p) (concat (ts ! i))) (?kv ! i)"
      unfolding list_all2_conv_all_nth by (metis length_append nth_mem)
    show "\<forall>r \<in> set (concat (ts ! i)). length r = M" using uni [OF nth_mem [OF that]] by blast
  qed (use fits in auto)
  then obtain f where f: "\<And>i. i < length ts \<Longrightarrow> write_tensor ?p ?n (ts ! i) (?kv ! i) = Inr (f i) \<and> map (take ?n) (concat (f i)) = ?kv ! i \<and>
      (\<forall>r \<in> set (concat (f i)). length r = M)" by metis
  let ?ts = "map f [0..<length ts]"
  have "mapR (\<lambda>(c, n). write_tensor ?p ?n c n) (zip ts ?kv) = Inr ?ts"
    unfolding mapR_Inr_iff using f len by (auto simp: list_all2_conv_all_nth)
  then have "update_cache_inplace ts ?kv ?p = Inr ?ts" using first len by (simp add: update_cache_inplace_def)
  moreover have "holds_past fw shape M (X @ Y) ?ts"
  proof -
    have "map (\<lambda>t. map (take ?n) (concat t)) ?ts = ?kv" using f len by (auto intro!: nth_equalityI simp del: length_append)
    moreover have "\<forall>t \<in> set (map concat ?ts). \<forall>r \<in> set t. length r = M" using f by (auto simp del: set_concat)
    moreover have "?ts \<noteq> [] \<and> concat (hd ?ts) \<noteq> []"
    proof -
      have ne: "0 < length ts" using first(1) len by auto
      then have "map (take ?n) (concat (f 0)) = row # rows" using f [OF ne] first(1) by simp
      then have "concat (f 0) \<noteq> []" by (metis list.distinct(1) list.simps(8))
      moreover have "hd ?ts = f 0" using ne by (simp add: hd_map)
      moreover have "?ts \<noteq> []" using ne by simp
      ultimately show ?thesis by (simp only: simp_thms not_False_eq_True)
    qed
    ultimately show ?thesis unfolding holds_past_def uniform_def by (metis (no_types, lifting) hd_map list.map_disc_iff)
  qed
  ultimately show ?thesis by simp
qed

subsection \<open>A whole step\<close>

lemma dict_store_zip:
  assumes "distinct hs" "length ts = length hs"
  shows "mapR (dict_item (fold (\<lambda>(h, t). dict_set h t) (zip hs ts) d)) hs = Inr ts"
    and "h \<notin> set hs \<Longrightarrow> dict_get (fold (\<lambda>(h, t). dict_set h t) (zip hs ts) d) h = dict_get d h"
proof -
  have other: "dict_get (fold (\<lambda>(h, t). dict_set h t) (zip hs ts) d) h = dict_get d h" if "h \<notin> set hs" for h hs ts and d :: "('a, 'b) dict"
    using that
  proof (induction hs arbitrary: ts d)
    case (Cons a hs)
    then show ?case by (cases ts) auto
  qed simp
  then show "h \<notin> set hs \<Longrightarrow> dict_get (fold (\<lambda>(h, t). dict_set h t) (zip hs ts) d) h = dict_get d h" .
  show "mapR (dict_item (fold (\<lambda>(h, t). dict_set h t) (zip hs ts) d)) hs = Inr ts"
    using assms
  proof (induction hs arbitrary: ts d)
    case (Cons a hs)
    then obtain t us where ts: "ts = t # us" by (cases ts) auto
    with Cons other [of a hs us "dict_set a t d"] show ?case by (simp add: dict_item_def)
  qed simp
qed

lemma select_past_ok:
  "even (length ts) \<Longrightarrow> select_layer_past ts p = Inr (map (\<lambda>t. map (take p) (concat t)) ts)"
  using evens_odds [of ts "\<lambda>t. map (take p) (concat t)"] by (simp add: select_layer_past_def)

text \<open>Sizes that make the estimate of the chunk length a number, and room for the caches.\<close>

definition sane_backend :: "('x, 'v) backend \<Rightarrow> int \<Rightarrow> bool" where
  "sane_backend b batch_size \<longleftrightarrow>
     bk_shard_num_heads b \<noteq> [] \<and> 0 < Max (set (bk_shard_num_heads b)) \<and> 0 < batch_size \<and> 0 < bk_dtype_bytes b \<and>
     (\<forall>hs. length (bk_empty_like b hs) = length hs)"

lemma estimate_ok:
  "sane_backend b batch_size \<Longrightarrow> 0 \<le> p \<Longrightarrow> 0 < n \<Longrightarrow> \<exists>L. estimate_max_chunk_length b batch_size n p = Inr L \<and> 1 \<le> L"
  by (auto simp: estimate_max_chunk_length_def sane_backend_def Let_def)

lemma inference_step_ok:
  fixes b :: "('x, 'v) backend" and info :: inference_metadata
  defines "fw \<equiv> bk_forward b (im_active_adapter info)"
  assumes sane: "sane_backend b batch_size" and causal: "causal_module tok vec shape fw"
    and store: "mapR (dict_item store) (im_cache_handles info) = Inr ts" and hold: "holds_past fw shape M X ts"
    and shape: "row_shape shape" and dist: "distinct (im_cache_handles info)"
    and pre: "im_prefix_length info = int (length X)" and X: "list_all tok X" and Y: "Y \<noteq> []" "list_all tok Y" and fits: "length X + length Y \<le> M"
  shows "\<exists>store' ts'. inference_step b batch_size Y None info store = Inr (drop (length X) (full_out fw shape (X @ Y)), store') \<and>
    mapR (dict_item store') (im_cache_handles info) = Inr ts' \<and> holds_past fw shape M (X @ Y) ts' \<and>
    (\<forall>h. h \<notin> set (im_cache_handles info) \<longrightarrow> dict_get store' h = dict_get store h)"
proof -
  have past: "map (\<lambda>t. map (take (length X)) (concat t)) ts = full_kv fw shape X" using hold by (simp add: holds_past_def)
  have "map length (full_kv fw shape X) = shape" using full_kv_facts(1) [OF causal shape X] by (simp add: fitting_def)
  then have lts: "length ts = length shape" using past by (metis length_map)
  obtain L where L: "estimate_max_chunk_length b batch_size (int (length Y)) (int (length X)) = Inr L" "1 \<le> L"
    using estimate_ok [OF sane, of "int (length X)" "int (length Y)"] Y by auto
  obtain out where out: "fw Y (full_kv fw shape X) = Inr (out, full_kv fw shape (X @ Y))"
    "full_out fw shape (X @ Y) = full_out fw shape X @ out" by (rule continue_pass [OF causal shape X Y])
  have run: "foldR (chunk_step fw Y (nat L)) (range_step (length Y) (nat L)) (bk_empty_like b Y, full_kv fw shape X) =
      Inr (out, full_kv fw shape (X @ Y))"
    using chunked_run [OF causal Y(2) full_kv_facts(1) [OF causal shape X], of "nat L" "bk_empty_like b Y"] L(2) Y sane out(1)
    by (simp add: sane_backend_def)
  obtain ts' where ts': "update_cache_inplace ts (full_kv fw shape (X @ Y)) (length X) = Inr ts'"
    "holds_past fw shape M (X @ Y) ts'" "length ts' = length ts"
    using update_cache_ok [OF causal X Y fits hold shape] by blast
  have lh: "length ts' = length (im_cache_handles info)" using ts'(3) store by (auto simp: mapR_Inr_iff dest: list_all2_lengthD)
  let ?store = "fold (\<lambda>(h, t). dict_set h t) (zip (im_cache_handles info) ts') store"
  have "inference_step b batch_size Y None info store = Inr (out, ?store)"
    using store L(1) run ts'(1) Y select_past_ok [of ts "length X"] lts shape [unfolded row_shape_def]
    unfolding inference_step_def fw_def [symmetric] pre by (simp add: Let_def reorder_cache_inplace_def past)
  moreover have "out = drop (length X) (full_out fw shape (X @ Y))" by (simp add: out(2) full_kv_facts(2) [OF causal shape X])
  ultimately show ?thesis using dict_store_zip [OF dist lh] ts'(2) by blast
qed

text \<open>C14. The chunk size never changes a result: whatever limit on the chunk size the server is configured with,
  an inference step returns the same outputs and the same caches, or the same exception.\<close>

theorem chunk_size_irrelevant:
  assumes "causal_module tok vec (map (length \<circ> concat) ts) (bk_forward b (im_active_adapter info))" and "list_all tok hs" and "\<forall>hs. length (bk_empty_like b hs) = length hs"
    and "mapR (dict_item store) (im_cache_handles info) = Inr ts" and "even (length ts)"
    and "fitting vec (map (length \<circ> concat) ts) M (map concat ts)"
  shows "inference_step (b\<lparr>bk_max_chunk_size_bytes := c\<rparr>) batch_size hs None info store =
    inference_step (b\<lparr>bk_max_chunk_size_bytes := c'\<rparr>) batch_size hs None info store"
proof -
  let ?fw = "bk_forward b (im_active_adapter info)" and ?p = "nat (im_prefix_length info)"
  let ?past = "map (\<lambda>t. map (take ?p) (concat t)) ts"
  have past: "fitting vec (map (length \<circ> concat) ts) (min M ?p) ?past"
    using assms(6) by (cases ts) (auto simp: fitting_def uniform_def list_all_iff dest: in_set_takeD)
  show ?thesis
  proof (cases "hs = []")
    case True
    then show ?thesis
      unfolding inference_step_def estimate_max_chunk_length_def
      by (simp add: Let_def assms(4) reorder_cache_inplace_def select_past_ok [OF assms(5)] range_step_def split: if_splits)
  next
    case False
    have run: "foldR (chunk_step ?fw hs (nat (max 1 L))) (range_step (length hs) (nat (max 1 L))) (bk_empty_like b hs, ?past) = ?fw hs ?past" for L
      using chunked_run [OF assms(1,2) past] False assms(3) by simp
    show ?thesis
      unfolding inference_step_def estimate_max_chunk_length_def
      by (simp add: Let_def assms(4) reorder_cache_inplace_def select_past_ok [OF assms(5)] run)
  qed
qed

subsection \<open>Sizes of caches\<close>

definition scale_dict :: "int \<Rightarrow> ('k, int) dict \<Rightarrow> ('k, int) dict" where
  "scale_dict c d = map (\<lambda>(k, v). (k, c * v)) d"

lemma scale_dict_Nil: "scale_dict c d = [] \<longleftrightarrow> d = []"
  by (simp add: scale_dict_def)

lemma add_to_device_scale:
  assumes "numel d' = c * numel d" "td_dtype d' = td_dtype d" "td_device d' = td_device d"
  shows "add_to_device size_of d' (scale_dict c acc) =
    (case add_to_device size_of d acc of Inl e \<Rightarrow> Inl e | Inr r \<Rightarrow> Inr (scale_dict c r))"
proof -
  have upd: "dict_set k (c * v) (scale_dict c acc) = scale_dict c (dict_set k v acc)" for k v
    by (induction acc) (auto simp: scale_dict_def)
  have get: "dict_get (scale_dict c acc) k = map_option ((*) c) (dict_get acc k)" for k
    by (induction acc) (auto simp: scale_dict_def)
  have "(case dict_get (scale_dict c acc) k of None \<Rightarrow> 0 | Some n \<Rightarrow> n) + c * numel d * v =
      c * ((case dict_get acc k of None \<Rightarrow> 0 | Some n \<Rightarrow> n) + numel d * v)" for k v
    by (simp add: get algebra_simps split: option.splits)
  with upd show ?thesis by (simp add: add_to_device_def assms bindR_def mult.assoc split: sum.splits)
qed

lemma foldR_add_to_device_scale:
  assumes "list_all2 (\<lambda>d' d. numel d' = c * numel d \<and> td_dtype d' = td_dtype d \<and> td_device d' = td_device d) ds' ds"
  shows "foldR (add_to_device size_of) ds' (scale_dict c acc) =
    (case foldR (add_to_device size_of) ds acc of Inl e \<Rightarrow> Inl e | Inr r \<Rightarrow> Inr (scale_dict c r))"
  using assms
proof (induction arbitrary: acc rule: list_all2_induct)
  case (Cons d' ds' d ds)
  then show ?case
    using add_to_device_scale [of d' c d size_of acc] by (cases "add_to_device size_of d acc") auto
qed simp

lemma descriptors_scale:
  "list_all2 (\<lambda>d' d. numel d' = (batch_size * max_length) * numel d \<and> td_dtype d' = td_dtype d \<and> td_device d' = td_device d)
     (get_inference_cache_descriptors b batch_size max_length) (get_inference_cache_descriptors b 1 1)"
proof -
  have gen: "list_all2 P (concat (map f xs)) (concat (map g xs))" if "\<And>x. list_all2 P (f x) (g x)" for P f g and xs :: "(string option \<times> int) list"
    using that by (induction xs) (auto intro: list_all2_appendI)
  show ?thesis
    unfolding get_inference_cache_descriptors_def Let_def by (rule gen) (auto simp: numel_def split: prod.splits)
qed

lemma Max_scale: "finite S \<Longrightarrow> S \<noteq> {} \<Longrightarrow> 0 \<le> c \<Longrightarrow> Max ((*) c ` S) = c * Max S" for c :: int
  by (rule mono_Max_commute [symmetric]) (auto simp: mono_def mult_left_mono)

text \<open>The size of the caches of a block is linear in the number of sequences and tokens: allocating for
  \<open>batch_size\<close> sequences of up to \<open>max_length\<close> tokens takes exactly that many times the largest per-device number of
  bytes per token that the server counted when it started. So a server that reports \<open>n\<close> available tokens
  really has the memory for the caches of one block and any one sequence of at most \<open>n\<close> tokens.\<close>

theorem cache_size_linear:
  assumes "init_backend size_of params_grad buffers_grad b0 = Inr b" and "bk_devices b \<noteq> []"
    and "0 \<le> batch_size" and "0 \<le> max_length"
  shows "get_allocation_size size_of (get_inference_cache_descriptors b batch_size max_length) =
      Inr (batch_size * max_length * Max (set (map snd (bk_cache_bytes_per_token b)))) \<and>
    (0 < Max (set (map snd (bk_cache_bytes_per_token b))) \<and>
     max_length \<le> bytes_avail div Max (set (map snd (bk_cache_bytes_per_token b))) \<longrightarrow>
     max_length * Max (set (map snd (bk_cache_bytes_per_token b))) \<le> bytes_avail)"
proof -
  from assms(1) obtain n by_device where i: "foldR (add_to_device size_of) (get_inference_cache_descriptors b0 1 1) [] = Inr by_device"
    "b = b0\<lparr>bk_dtype_bytes := n, bk_cache_bytes_per_token := by_device\<rparr>" "length (bk_shard_num_heads b0) = length (bk_devices b0)"
    unfolding init_backend_def by (auto simp: resultD)
  have same: "get_inference_cache_descriptors b x y = get_inference_cache_descriptors b0 x y" for x y
    by (simp add: get_inference_cache_descriptors_def i(2))
  let ?c = "batch_size * max_length"
  have scaled: "foldR (add_to_device size_of) (get_inference_cache_descriptors b batch_size max_length) [] = Inr (scale_dict ?c by_device)"
    using foldR_add_to_device_scale [OF descriptors_scale, of size_of b batch_size max_length "[]"] i(1) same
    by (simp add: scale_dict_def)
  have ne: "by_device \<noteq> []"
  proof
    assume "by_device = []"
    moreover have "get_inference_cache_descriptors b0 1 1 \<noteq> []"
      using assms(2) i(2,3) by (cases "bk_devices b0"; cases "bk_shard_num_heads b0") (auto simp: get_inference_cache_descriptors_def Let_def)
    moreover have "foldR (add_to_device size_of) ds acc = Inr [] \<Longrightarrow> ds = []" for ds acc
    proof (induction ds arbitrary: acc rule: rev_induct)
      case (snoc d ds)
      have "dict_set k v e \<noteq> []" for k v and e :: "(string option, int) dict" by (cases e) auto
      with snoc show ?case by (auto simp: foldR_append add_to_device_def resultD)
    qed simp
    ultimately show False using i(1) by metis
  qed
  have "snd ` set (scale_dict ?c by_device) = (*) ?c ` snd ` set by_device" by (force simp: scale_dict_def)
  then have "Max (snd ` set (scale_dict ?c by_device)) = ?c * Max (snd ` set by_device)"
    using ne assms(3,4) by (simp add: Max_scale)
  with ne have alloc: "get_allocation_size size_of (get_inference_cache_descriptors b batch_size max_length) = Inr (?c * Max (snd ` set by_device))"
    by (simp add: get_allocation_size_def scaled scale_dict_Nil)
  have "max_length * m \<le> bytes_avail" if "0 < m" "max_length \<le> bytes_avail div m" for m
  proof -
    have "max_length * m \<le> bytes_avail div m * m" using that by (intro mult_right_mono) auto
    also have "\<dots> \<le> bytes_avail" using that(1) div_mult_mod_eq [of bytes_avail m] pos_mod_sign [of m bytes_avail] by linarith
    finally show ?thesis .
  qed
  with alloc show ?thesis by (simp add: i(2))
qed

subsection \<open>An example block\<close>

text \<open>A block whose outputs are the running sums of its inputs and whose keys and values are the inputs.\<close>

definition past_sum :: "int kv list \<Rightarrow> int" where
  "past_sum past = (case past of (r # _) # _ \<Rightarrow> sum_list r | _ \<Rightarrow> 0)"

definition demo_forward :: "int list \<Rightarrow> int kv list \<Rightarrow> (int list \<times> int kv list) result" where
  "demo_forward hs past = Inr (running_sums (past_sum past) hs, map (map (\<lambda>r. r @ hs)) past)"

definition demo_backend :: "(int, int) backend" where
  "demo_backend = \<lparr>bk_config = \<lparr>cfg_hidden_size = 8, cfg_num_attention_heads = 2, cfg_num_key_value_groups = 1, cfg_num_key_value_heads = None\<rparr>,
     bk_devices = [Some ''cpu''], bk_shard_num_heads = [2], bk_dtype = \<lparr>dt_name = ''float16'', dt_floating = True, dt_complex = False\<rparr>,
     bk_dtype_bytes = 2, bk_max_chunk_size_bytes = 32, bk_cache_bytes_per_token = [(Some ''cpu'', 32)],
     bk_forward = \<lambda>_. demo_forward, bk_empty_like = map (\<lambda>_. 0),
     bk_super_forward = \<lambda>_ hs. Inr (running_sums 0 hs), bk_super_backward = \<lambda>_ hs g. Inr (rev (running_sums 0 (rev g)))\<rparr>"

lemma demo_forward_causal: "causal_module (\<lambda>_. True) (\<lambda>_. True) shape demo_forward"
proof -
  have ext: "extends (length hs) past (map (map (\<lambda>r. r @ hs)) past)" for hs :: "int list" and past
    by (auto simp: extends_def list_all2_conv_all_nth)
  have "running_sums (past_sum past) (h1 @ h2) =
      running_sums (past_sum past) h1 @ running_sums (past_sum (map (map (\<lambda>r. r @ h1)) past)) h2"
    if "past \<noteq> []" "hd past \<noteq> []" for h1 h2 past
    using that by (cases past; cases "hd past") (auto simp: past_sum_def running_sums_append)
  with ext show ?thesis unfolding causal_module_def demo_forward_def fitting_def uniform_def by (auto simp: comp_def list_all_iff)
qed

definition demo_store :: "(int, int cache_tensor) dict" where
  "demo_store = [(0, [[[4, 0, 0, 0]]]), (1, [[[4, 0, 0, 0]]])]"

definition demo_info :: inference_metadata where
  "demo_info = \<lparr>im_uid = ''m.0'', im_prefix_length = 1, im_cache_handles = [0, 1], im_active_adapter = None\<rparr>"

theorem chunk_size_irrelevant_witness:
  "inference_step (demo_backend\<lparr>bk_max_chunk_size_bytes := 1\<rparr>) 1 [1, 2, 3] None demo_info demo_store =
   inference_step (demo_backend\<lparr>bk_max_chunk_size_bytes := 1000\<rparr>) 1 [1, 2, 3] None demo_info demo_store"
proof (rule chunk_size_irrelevant)
  show "mapR (dict_item demo_store) (im_cache_handles demo_info) = Inr [[[[4, 0, 0, 0]]], [[[4, 0, 0, 0]]]]"
    by (simp add: demo_store_def demo_info_def dict_item_def)
  show "fitting (\<lambda>_. True) (map (length \<circ> concat) [[[[4, 0, 0, 0]]], [[[4, 0, 0, 0]]]]) 4 (map concat [[[[4, 0, 0, 0]]], [[[4, 0, 0, 0]]]])"
    by (simp add: fitting_def uniform_def)
qed (simp_all add: demo_backend_def demo_forward_causal list_all_iff)

text \<open>The same step, evaluated.\<close>

lemma demo_step:
  "inference_step demo_backend 1 [1, 2, 3] None demo_info demo_store =
     Inr ([5, 7, 10], [(0, [[[4, 1, 2, 3]]]), (1, [[[4, 1, 2, 3]]])])"
  by code_simp

definition half_size :: "torch_dtype_info \<Rightarrow> int result" where
  "half_size dt = Inr 2"

theorem cache_size_linear_witness:
  "init_backend half_size [False] [] demo_backend = Inr demo_backend \<and>
   get_allocation_size half_size (get_inference_cache_descriptors demo_backend 3 10) = Inr (3 * 10 * 32)"
proof -
  have init: "init_backend half_size [False] [] demo_backend = Inr demo_backend"
    by (simp add: init_backend_def demo_backend_def half_size_def get_inference_cache_descriptors_def add_to_device_def numel_def Let_def)
  moreover have "bk_devices demo_backend \<noteq> []" "Max (set (map snd (bk_cache_bytes_per_token demo_backend))) = 32"
    by (simp_all add: demo_backend_def)
  ultimately show ?thesis using cache_size_linear [OF init, of 3 10 0] by simp
qed

end
