(* ===== verification/Block_Functions.thy ===== *)
theory Block_Functions
  imports Backend
begin

text \<open>
  \<open>src/peerz/server/block_functions.py\<close>: what a server computes for a forward, a backward and an inference
  request over a chain of its blocks. A task given to a pool is the call of the function of that pool;
  that every task gets its outcome is shown with the task pools. Casts between dtypes are not modelled.
  Tensors carry what the functions look at: hidden states are three-dimensional with a batch size and a
  list of tokens, deep prompts four-dimensional with one list of tokens per block.
\<close>

datatype 'x tensor =
    Hidden int "'x list"       \<comment> \<open>batch size, tokens\<close>
  | Prompts "'x list list"     \<comment> \<open>for every block its prompt tokens\<close>
  | Ids "int list"             \<comment> \<open>int64\<close>
  | Dummy                      \<comment> \<open>\<open>torch.empty(0)\<close>\<close>
  | NoneArg

fun is_dummy :: "'x tensor \<Rightarrow> bool" where
  "is_dummy (Hidden b ts) = (b = 0 \<or> ts = [])"
| "is_dummy (Prompts ps) = (\<forall>p \<in> set ps. p = [])"
| "is_dummy (Ids is) = (is = [])"
| "is_dummy Dummy = True"
| "is_dummy NoneArg = False"

type_synonym 'x args_structure = "('x tensor list \<Rightarrow> 'x tensor list result) option"

text \<open>The arguments: the tensors as they are, or as \<open>unpack_args_kwargs\<close> restores them from the structure.\<close>

definition unpack_flat :: "'x args_structure \<Rightarrow> 'x tensor list \<Rightarrow> 'x tensor list result" where
  "unpack_flat args_structure flat_tensors = (case args_structure of None \<Rightarrow> Inr flat_tensors | Some unpack \<Rightarrow> unpack flat_tensors)"

text \<open>Deep prompts for each of \<open>n\<close> blocks; an empty prompt is a dummy.\<close>

definition split_prompts :: "nat \<Rightarrow> 'x tensor \<Rightarrow> 'x list list result" where
  "split_prompts n prompts =
     (if prompts = NoneArg \<or> is_dummy prompts then Inr (replicate n [])
      else case prompts of Prompts ps \<Rightarrow> Inr ps | _ \<Rightarrow> Inl RuntimeError)"

definition with_prompt :: "'x::plus list \<Rightarrow> 'x list \<Rightarrow> 'x list result" where
  "with_prompt prompt hidden_states = (if prompt = [] then Inr hidden_states else add_prompt prompt hidden_states)"

subsection \<open>Forward\<close>

definition forward_block ::
    "string option \<Rightarrow> ('x::plus, 'v) backend \<times> 'x list \<Rightarrow> 'x list \<Rightarrow> 'x list result" where
  "forward_block active_adapter bp hidden_states =
     bindR (with_prompt (snd bp) hidden_states) (\<lambda>hs. backend_forward (fst bp) hs active_adapter)"

definition run_rpc_forward ::
    "('x::plus, 'v) backend list \<Rightarrow> string option \<Rightarrow> 'x args_structure \<Rightarrow> 'x tensor list \<Rightarrow> 'x list result" where
  "run_rpc_forward requested_backends active_adapter args_structure flat_tensors =
     bindR (unpack_flat args_structure flat_tensors) (\<lambda>args.
       case args of
         hidden_states # prompts # _ \<Rightarrow>
           if requested_backends = [] then Inl IndexError
           else (case hidden_states of
                   Hidden _ hs \<Rightarrow>
                     bindR (split_prompts (length requested_backends) prompts) (\<lambda>ps.
                       foldR (forward_block active_adapter) (zip requested_backends ps) hs)
                 | _ \<Rightarrow> Inl AssertionError)
       | _ \<Rightarrow> Inl ValueError)"

subsection \<open>Backward\<close>

text \<open>The forward chain that collects the inputs of all blocks but the last.\<close>

definition collect_input ::
    "string option \<Rightarrow> ('x::plus, 'v) backend \<times> 'x list \<Rightarrow> 'x list \<times> 'x list list \<Rightarrow> ('x list \<times> 'x list list) result" where
  "collect_input active_adapter bp st =
     bindR (with_prompt (snd bp) (fst st)) (\<lambda>inputs.
     bindR (backend_forward (fst bp) inputs active_adapter) (\<lambda>outputs. Inr (outputs, snd st @ [inputs])))"

definition backward_block ::
    "string option \<Rightarrow> 'x list \<times> 'x list \<times> ('x, 'v) backend \<Rightarrow> 'x list \<times> 'x list list \<Rightarrow> ('x list \<times> 'x list list) result" where
  "backward_block active_adapter arg st =
     (case arg of (inp, prompt, b) \<Rightarrow>
        bindR (backend_backward b inp (fst st) active_adapter) (\<lambda>grad.
          Inr (grad, if prompt = [] then snd st else snd st @ [take (length prompt) grad])))"

definition run_rpc_backward ::
    "('x::plus, 'v) backend list \<Rightarrow> string option \<Rightarrow> 'x args_structure \<Rightarrow> 'x tensor list \<Rightarrow> ('x list \<times> 'x list list option) result" where
  "run_rpc_backward requested_backends active_adapter args_structure flat_tensors =
     bindR (unpack_flat args_structure flat_tensors) (\<lambda>args.
       case args of
         Hidden _ inputs # Hidden _ grad_outputs # prompts # _ \<Rightarrow>
           if requested_backends = [] then Inl IndexError
           else bindR (split_prompts (length requested_backends) prompts) (\<lambda>ps.
             bindR (foldR (collect_input active_adapter) (zip (butlast requested_backends) (butlast ps)) (inputs, [])) (\<lambda>(inputs', inter).
             if ps = [] then Inl IndexError
             else bindR (with_prompt (last ps) inputs') (\<lambda>last_input.
             let inter_inputs = inter @ [last_input] in
             guardR (length inter_inputs = length ps \<and> length ps = length requested_backends) AssertionError
             (bindR (foldR (backward_block active_adapter) (rev (zip inter_inputs (zip ps requested_backends))) (grad_outputs, []))
               (\<lambda>(grad, grad_prompts_reversed).
                 Inr (grad, if grad_prompts_reversed = [] then None else Some (rev grad_prompts_reversed)))))))
       | Hidden _ _ # Hidden _ _ # [] \<Rightarrow> Inl ValueError
       | [_] \<Rightarrow> Inl ValueError
       | [] \<Rightarrow> Inl ValueError
       | _ \<Rightarrow> Inl AssertionError)"

subsection \<open>Inference\<close>

datatype quant_type = NONE | INT8 | NF4

definition MAX_SHORT_INFERENCE_TOKENS :: int where
  "MAX_SHORT_INFERENCE_TOKENS = 128"

definition MAX_NF4_SHORT_INFERENCE_TOKENS :: int where
  "MAX_NF4_SHORT_INFERENCE_TOKENS = 1"

text \<open>Running the hidden states through the pools: one task for all blocks, or one task per block. All pools of
  a server are the merged one, which looks blocks up in \<open>all_backends\<close>.\<close>

definition run_pools ::
    "(module_uid, ('x::plus, 'v) backend) dict \<Rightarrow> bool \<Rightarrow> int \<Rightarrow> int list option \<Rightarrow> inference_metadata list \<Rightarrow> 'x list option list
     \<Rightarrow> 'x list \<Rightarrow> (int, 'v cache_tensor) dict \<Rightarrow> ('x list \<times> (int, 'v cache_tensor) dict) result" where
  "run_pools all_backends can_merge_pools batch_size hypo_ids infos prompts hidden_states store =
     (if can_merge_pools then merged_inference_step all_backends batch_size hidden_states hypo_ids infos prompts store
      else foldR (\<lambda>(info, prompt) (hs, st). merged_inference_step all_backends batch_size hs hypo_ids [info] [prompt] st)
             (zip infos prompts) (hidden_states, store))"

definition optional_prompts :: "nat \<Rightarrow> 'x tensor \<Rightarrow> (bool \<times> 'x list option list) result" where
  "optional_prompts n prompts =
     (if prompts = NoneArg \<or> is_dummy prompts then Inr (False, replicate n None)
      else case prompts of
             Prompts ps \<Rightarrow> Inr (True, map (\<lambda>p. if p = [] then None else Some p) ps)
           | _ \<Rightarrow> Inl RuntimeError)"

definition can_merge :: "quant_type \<Rightarrow> int \<Rightarrow> int \<Rightarrow> bool" where
  "can_merge quant batch_size length_increment =
     (batch_size * length_increment \<le> (if quant = NF4 then MAX_NF4_SHORT_INFERENCE_TOKENS else MAX_SHORT_INFERENCE_TOKENS))"

text \<open>One turn of the loop of \<open>iterate_rpc_inference\<close>: outputs, whether they may be pushed to the next server,
  the number of new tokens, and the caches.\<close>

definition inference_request ::
    "(module_uid, ('x::plus, 'v) backend) dict \<Rightarrow> module_uid list \<Rightarrow> string option \<Rightarrow> int list list \<Rightarrow> int \<Rightarrow> quant_type
     \<Rightarrow> 'x args_structure \<Rightarrow> int \<Rightarrow> 'x tensor list \<Rightarrow> (int, 'v cache_tensor) dict
     \<Rightarrow> ('x tensor \<times> bool \<times> nat \<times> (int, 'v cache_tensor) dict) result" where
  "inference_request all_backends requested_uids active_adapter cache_handles max_length quant args_structure prefix_length flat_tensors store =
     bindR (unpack_flat args_structure flat_tensors) (\<lambda>args.
       case args of
         Hidden batch_size hidden_states # prompts # hypo_ids # _ \<Rightarrow>
           (case hypo_ids of
              Ids ids \<Rightarrow>
                bindR (optional_prompts (length requested_uids) prompts) (\<lambda>(has_prompts, ps).
                guardR (length requested_uids = length ps) ValueError
                (guardR (prefix_length + int (length hidden_states) \<le> max_length) ValueError
                (let infos = map (\<lambda>(uid, handles). \<lparr>im_uid = uid, im_prefix_length = prefix_length, im_cache_handles = handles,
                               im_active_adapter = active_adapter\<rparr>) (zip requested_uids cache_handles) in
                 bindR (if batch_size \<noteq> 0 \<and> hidden_states \<noteq> []
                        then run_pools all_backends (can_merge quant batch_size (int (length hidden_states))) batch_size
                               (if ids = [] then None else Some ids) infos ps hidden_states store
                        else Inr (hidden_states, store)) (\<lambda>(outputs, store').
                 Inr (Hidden batch_size outputs, \<not> has_prompts, length hidden_states, store')))))
            | _ \<Rightarrow> Inl AssertionError)
       | _ # _ # _ # _ \<Rightarrow> Inl ValueError
       | _ \<Rightarrow> Inl ValueError)"

fun iterate_requests ::
    "(module_uid, ('x::plus, 'v) backend) dict \<Rightarrow> module_uid list \<Rightarrow> string option \<Rightarrow> int list list \<Rightarrow> int \<Rightarrow> quant_type
     \<Rightarrow> 'x args_structure \<Rightarrow> int \<Rightarrow> ('x tensor list \<times> 'm) list \<Rightarrow> (int, 'v cache_tensor) dict
     \<Rightarrow> ('x tensor \<times> bool \<times> 'm) list \<times> (int, 'v cache_tensor) dict result" where
  "iterate_requests bs uids ad hs mx q st prefix_length [] store = ([], Inr store)"
| "iterate_requests bs uids ad hs mx q st prefix_length ((tensors, step_metadata) # requests) store =
     (case inference_request bs uids ad hs mx q st prefix_length tensors store of
        Inl e \<Rightarrow> ([], Inl e)
      | Inr (outputs, can_push, length_increment, store') \<Rightarrow>
          (case iterate_requests bs uids ad hs mx q st (prefix_length + int length_increment) requests store' of
             (yielded, r) \<Rightarrow> ((outputs, can_push, step_metadata) # yielded, r)))"

text \<open>The whole generator: what it yields for the requests it is given, and how it ends.\<close>

definition iterate_rpc_inference ::
    "(module_uid, ('x::plus, 'v) backend) dict \<Rightarrow> module_uid list \<Rightarrow> string option \<Rightarrow> int list list \<Rightarrow> int \<Rightarrow> quant_type
     \<Rightarrow> 'x args_structure \<Rightarrow> ('x tensor list \<times> 'm) list \<Rightarrow> (int, 'v cache_tensor) dict
     \<Rightarrow> ('x tensor \<times> bool \<times> 'm) list \<times> (int, 'v cache_tensor) dict result" where
  "iterate_rpc_inference bs uids ad cache_handles mx q st requests store =
     (if length cache_handles \<noteq> length uids then ([], Inl AssertionError)
      else iterate_requests bs uids ad cache_handles mx q st 0 requests store)"

subsection \<open>Backpropagation\<close>

text \<open>The reference: forward through the first block, backpropagate through the rest, then through the first.\<close>

fun backprop ::
    "string option \<Rightarrow> (('x::plus, 'v) backend \<times> 'x list) list \<Rightarrow> 'x list \<Rightarrow> 'x list \<Rightarrow> ('x list \<times> 'x list list) result" where
  "backprop ad [] x g = Inr (g, [])"
| "backprop ad ((b, p) # r) x g =
     bindR (with_prompt p x) (\<lambda>i.
     bindR (if r = [] then Inr (g, []) else bindR (backend_forward b i ad) (\<lambda>y. backprop ad r y g)) (\<lambda>(g1, gps).
     bindR (backend_backward b i g1 ad) (\<lambda>g'. Inr (g', (if p = [] then [] else [take (length p) g']) @ gps))))"

fun gather_inputs :: "string option \<Rightarrow> (('x::plus, 'v) backend \<times> 'x list) list \<Rightarrow> 'x list \<Rightarrow> 'x list list result" where
  "gather_inputs ad [] x = Inr []"
| "gather_inputs ad ((b, p) # r) x =
     bindR (with_prompt p x) (\<lambda>i.
     if r = [] then Inr [i] else bindR (backend_forward b i ad) (\<lambda>y. bindR (gather_inputs ad r y) (\<lambda>is. Inr (i # is))))"

lemma collect_input_pair:
  "collect_input ad (b, p) (x, acc) =
     bindR (with_prompt p x) (\<lambda>i. bindR (backend_forward b i ad) (\<lambda>y. Inr (y, acc @ [i])))"
  by (simp add: collect_input_def)

lemma collect_gather:
  "pairs \<noteq> [] \<Longrightarrow>
   bindR (foldR (collect_input ad) (butlast pairs) (x, acc)) (\<lambda>(x', inter).
     bindR (with_prompt (snd (last pairs)) x') (\<lambda>l. Inr (inter @ [l]))) =
   bindR (gather_inputs ad pairs x) (\<lambda>is. Inr (acc @ is))"
proof (induction pairs arbitrary: x acc)
  case (Cons bp r)
  obtain b p where bp: "bp = (b, p)" by (cases bp)
  show ?case
  proof (cases "r = []")
    case True
    then show ?thesis by (simp add: bp bindR_assoc)
  next
    case False
    have "bindR (foldR (collect_input ad) (butlast (bp # r)) (x, acc)) (\<lambda>(x', inter).
        bindR (with_prompt (snd (last (bp # r))) x') (\<lambda>l. Inr (inter @ [l]))) =
      bindR (with_prompt p x) (\<lambda>i. bindR (backend_forward b i ad) (\<lambda>y. bindR (gather_inputs ad r y) (\<lambda>is. Inr ((acc @ [i]) @ is))))"
      using False Cons.IH by (simp add: bp collect_input_pair bindR_assoc)
    then show ?thesis using False by (simp add: bp bindR_assoc)
  qed
qed simp

lemma gather_length: "gather_inputs ad pairs x = Inr is \<Longrightarrow> length is = length pairs"
proof (induction pairs arbitrary: x "is")
  case (Cons bp r)
  then show ?case by (cases bp) (fastforce simp: resultD split: if_splits)
qed simp

lemma backprop_gather:
  "backprop ad pairs x g =
     bindR (gather_inputs ad pairs x) (\<lambda>is.
     bindR (foldR (backward_block ad) (rev (zip is (map (\<lambda>(b, p). (p, b)) pairs))) (g, [])) (\<lambda>(g', gr). Inr (g', rev gr)))"
proof (induction pairs arbitrary: x g)
  case (Cons bp r)
  obtain b p where bp: "bp = (b, p)" by (cases bp)
  let ?bw = "\<lambda>r is. foldR (backward_block ad) (rev (zip is (map (\<lambda>(b, p). (p, b)) r))) (g, [])"
  have last: "bindR (m :: ('a list \<times> 'a list list) result) (\<lambda>st. bindR (backward_block ad (i, p, b) st) (\<lambda>(g', gr). Inr (g', rev gr))) =
      bindR (bindR m (\<lambda>(g', gr). Inr (g', rev gr))) (\<lambda>(g1, gps). bindR (backend_backward b i g1 ad)
        (\<lambda>g'. Inr (g', (if p = [] then [] else [take (length p) g']) @ gps)))" for m i
    by (cases m) (auto simp: backward_block_def bindR_assoc intro!: bindR_cong_Inr)
  show ?case
  proof (cases "r = []")
    case True
    then show ?thesis
      using last [of "Inr (g, [])"] by (simp add: bp bindR_assoc)
  next
    case False
    have "?bw (bp # r) (i # is) = bindR (?bw r is) (\<lambda>st. backward_block ad (i, p, b) st)" for i "is"
      by (simp add: bp foldR_snoc)
    then have "bindR (?bw (bp # r) (i # is)) (\<lambda>(g', gr). Inr (g', rev gr)) =
        bindR (bindR (?bw r is) (\<lambda>(g', gr). Inr (g', rev gr))) (\<lambda>(g1, gps). bindR (backend_backward b i g1 ad)
          (\<lambda>g'. Inr (g', (if p = [] then [] else [take (length p) g']) @ gps)))" for i "is"
      using last [of "?bw r is" i] by (simp add: bindR_assoc)
    with False show ?thesis by (simp add: bp Cons.IH bindR_assoc)
  qed
qed simp

text \<open>C25. Two passes make backpropagation: \<open>run_rpc_backward\<close>, which first collects the inputs of all blocks and
  then walks back over them, returns exactly the gradients, and raises exactly the exceptions, of
  recursive backpropagation through the blocks with their prompts.\<close>

theorem backward_is_backprop:
  assumes "length ps = length backends" and "backends \<noteq> []" and "split_prompts (length backends) prompts = Inr ps"
  shows "run_rpc_backward backends ad None [Hidden n x, Hidden n g, prompts] =
    bindR (backprop ad (zip backends ps) x g) (\<lambda>(grad, gps). Inr (grad, if gps = [] then None else Some gps))"
proof -
  let ?pairs = "zip backends ps"
  have ne: "?pairs \<noteq> []" "ps \<noteq> []" using assms(1,2) by auto
  have last: "snd (last ?pairs) = last ps" using ne assms(1,2) by (metis last_zip snd_conv)
  have but: "zip (butlast backends) (butlast ps) = butlast ?pairs" using assms(1) by (simp add: butlast_conv_take take_zip)
  have swap: "zip ps backends = map (\<lambda>(b, p). (p, b)) ?pairs" by (simp add: zip_commute [of ps])
  have finish: "rev gr = [] \<longleftrightarrow> gr = []" for gr :: "'a list list" by simp
  let ?bwd = "\<lambda>is. bindR (foldR (backward_block ad) (rev (zip is (map (\<lambda>(b, p). (p, b)) ?pairs))) (g, []))
    (\<lambda>(grad, gr). Inr (grad, if gr = [] then None else Some (rev gr)))"
  have "run_rpc_backward backends ad None [Hidden n x, Hidden n g, prompts] =
      bindR (bindR (foldR (collect_input ad) (butlast ?pairs) (x, [])) (\<lambda>(x', inter).
        bindR (with_prompt (last ps) x') (\<lambda>l. Inr (inter @ [l]))))
        (\<lambda>is. guardR (length is = length ps \<and> length ps = length backends) AssertionError (?bwd is))"
    using assms ne by (simp add: run_rpc_backward_def unpack_flat_def but swap Let_def bindR_assoc split_def cong: if_cong)
  also have "\<dots> = bindR (gather_inputs ad ?pairs x) (\<lambda>is. guardR (length is = length ps \<and> length ps = length backends) AssertionError (?bwd is))"
    using collect_gather [OF ne(1), of ad x "[]"] by (simp add: last bindR_assoc)
  also have "\<dots> = bindR (gather_inputs ad ?pairs x) ?bwd"
    using gather_length assms(1) by (intro bindR_cong_Inr) (auto dest!: gather_length)
  also have "\<dots> = bindR (backprop ad ?pairs x g) (\<lambda>(grad, gps). Inr (grad, if gps = [] then None else Some gps))"
    unfolding backprop_gather by (simp add: bindR_assoc split_def cong: if_cong)
  finally show ?thesis .
qed

text \<open>A forward request with fewer prompts than blocks silently runs only as many blocks as there are prompts.\<close>

theorem forward_skips_blocks:
  assumes "length ps < length backends" and "\<exists>p \<in> set ps. p \<noteq> []"
  shows "run_rpc_forward backends ad None [Hidden n hs, Prompts ps] =
    run_rpc_forward (take (length ps) backends) ad None [Hidden n hs, Prompts ps]"
proof -
  have "zip (take (length ps) backends) ps = zip backends ps" by (metis take_zip take_all length_zip min.cobounded2 order_refl)
  moreover have "ps \<noteq> []" using assms(2) by auto
  ultimately show ?thesis using assms by (auto simp: run_rpc_forward_def unpack_flat_def split_prompts_def)
qed

subsection \<open>Merged and separate pools\<close>

lemma run_pools_merge:
  "length infos = length prompts \<Longrightarrow>
   run_pools all_backends m batch_size hypo_ids infos prompts hs store =
   foldR (merged_block all_backends batch_size hypo_ids) (zip infos prompts) (hs, store)"
proof -
  have "(\<lambda>(info, prompt) (hs, st). merged_inference_step all_backends batch_size hs hypo_ids [info] [prompt] st) =
      merged_block all_backends batch_size hypo_ids"
    by (auto simp: merged_inference_step_def fun_eq_iff bindR_def split: sum.splits)
  moreover assume "length infos = length prompts"
  ultimately show ?thesis by (simp add: run_pools_def merged_inference_step_def)
qed

text \<open>Merging pools never changes a result: for every request the server returns the same outputs and caches,
  or the same exception, whether its blocks run as one task or as one task per block; so the quantization
  of the blocks and the lengths of requests only decide how fast it is.\<close>

theorem pools_agree:
  assumes "length cache_handles = length requested_uids"
  shows "inference_request all_backends requested_uids ad cache_handles max_length quant args_structure prefix_length tensors store =
    inference_request all_backends requested_uids ad cache_handles max_length quant' args_structure prefix_length tensors store"
proof -
  have infos: "run_pools all_backends m batch_size ids (map f (zip requested_uids cache_handles)) ps hs store =
      run_pools all_backends m' batch_size ids (map f (zip requested_uids cache_handles)) ps hs store"
    if "length requested_uids = length ps" for m m' batch_size ids ps hs f
    using that assms by (simp add: run_pools_merge)
  show ?thesis
    unfolding inference_request_def
    by (intro bindR_cong_Inr)
      (auto split: list.splits tensor.splits prod.splits simp: guardR_def Let_def
        intro!: bindR_cong_Inr arg_cong2 [where f = bindR] infos)
qed

theorem pools_agree_witness:
  "inference_request [(''m.0'', demo_backend)] [''m.0''] None [[0, 1]] 4 NF4 None 1 [Hidden 1 [1, 2], Dummy, Ids []] demo_store =
   inference_request [(''m.0'', demo_backend)] [''m.0''] None [[0, 1]] 4 INT8 None 1 [Hidden 1 [1, 2], Dummy, Ids []] demo_store"
  by (rule pools_agree) simp

subsection \<open>A chain of blocks\<close>

text \<open>The outputs of a chain of blocks on all tokens, and caches that hold the keys and values of all tokens.\<close>

type_synonym ('x, 'v) link = "module_uid \<times> ('x, 'v) backend \<times> nat list \<times> int list"

fun chain_out :: "string option \<Rightarrow> ('x, 'v) link list \<Rightarrow> 'x list \<Rightarrow> 'x list" where
  "chain_out ad [] X = X"
| "chain_out ad ((_, b, shape, _) # links) X = chain_out ad links (full_out (bk_forward b ad) shape X)"

fun chain_holds :: "string option \<Rightarrow> nat \<Rightarrow> (int, 'v cache_tensor) dict \<Rightarrow> ('x, 'v) link list \<Rightarrow> 'x list \<Rightarrow> bool" where
  "chain_holds ad M store [] X = True"
| "chain_holds ad M store ((_, b, shape, handles) # links) X =
     ((\<exists>ts. mapR (dict_item store) handles = Inr ts \<and> holds_past (bk_forward b ad) shape M X ts) \<and>
      chain_holds ad M store links (full_out (bk_forward b ad) shape X))"

text \<open>A block that is registered, whose sizes are sane and whose forward pass is causal on the tokens \<open>tok\<close>.\<close>

definition good_link :: "('x \<Rightarrow> bool) \<Rightarrow> string option \<Rightarrow> int \<Rightarrow> (module_uid, ('x, 'v) backend) dict \<Rightarrow> ('x, 'v) link \<Rightarrow> bool" where
  "good_link tok ad batch_size all_backends l \<longleftrightarrow>
     (case l of (uid, b, shape, _) \<Rightarrow>
        dict_get all_backends uid = Some b \<and> sane_backend b batch_size \<and> row_shape shape \<and>
        (\<exists>vec. causal_module tok vec shape (bk_forward b ad)))"

fun link_handles :: "('x, 'v) link list \<Rightarrow> int list list" where
  "link_handles [] = []"
| "link_handles ((_, _, _, handles) # links) = handles # link_handles links"

lemma mapR_dict_cong:
  "\<forall>h \<in> set hs. dict_get d' h = dict_get d h \<Longrightarrow> mapR (dict_item d') hs = mapR (dict_item d) hs"
  by (induction hs) (auto simp: dict_item_def)

definition link_info :: "string option \<Rightarrow> int \<Rightarrow> ('x, 'v) link \<Rightarrow> inference_metadata" where
  "link_info ad prefix l = (case l of (uid, _, _, handles) \<Rightarrow>
     \<lparr>im_uid = uid, im_prefix_length = prefix, im_cache_handles = handles, im_active_adapter = ad\<rparr>)"

lemma full_out_append:
  "causal_module tok vec shape fw \<Longrightarrow> row_shape shape \<Longrightarrow> list_all tok X \<Longrightarrow> list_all tok Y \<Longrightarrow>
   \<exists>out. full_out fw shape (X @ Y) = full_out fw shape X @ out \<and> length out = length Y \<and> list_all tok out"
  by (cases "Y = []") (auto elim: continue_pass)

lemma chain_out_append:
  "\<forall>l \<in> set links. good_link tok ad batch_size bs l \<Longrightarrow> list_all tok X \<Longrightarrow> list_all tok Y \<Longrightarrow>
   \<exists>out. chain_out ad links (X @ Y) = chain_out ad links X @ out \<and> length out = length Y"
proof (induction links arbitrary: X Y)
  case (Cons l links)
  obtain uid b shape hs where l: "l = (uid, b, shape, hs)" by (cases l)
  then obtain vec where c: "causal_module tok vec shape (bk_forward b ad)" "row_shape shape" using Cons.prems(1) by (auto simp: good_link_def)
  from full_out_append [OF c Cons.prems(2,3)] obtain out where
    out: "full_out (bk_forward b ad) shape (X @ Y) = full_out (bk_forward b ad) shape X @ out" "length out = length Y" "list_all tok out" by blast
  from Cons.IH [OF _ full_kv_facts(3) [OF c Cons.prems(2)] out(3)] Cons.prems(1) show ?case by (simp add: l out(1,2))
qed simp

lemma chain_out_length:
  assumes "\<forall>l \<in> set links. good_link tok ad batch_size bs l" and "list_all tok X"
  shows "length (chain_out ad links X) = length X"
  using assms
proof (induction links arbitrary: X)
  case (Cons l links)
  obtain uid b shape hs where l: "l = (uid, b, shape, hs)" by (cases l)
  then obtain vec where c: "causal_module tok vec shape (bk_forward b ad)" "row_shape shape" using Cons.prems(1) by (auto simp: good_link_def)
  from full_kv_facts(2,3) [OF c Cons.prems(2)] Cons show ?case by (simp add: l)
qed simp

lemma chain_holds_frame:
  assumes "\<forall>h \<in> set (concat (link_handles links)). dict_get store' h = dict_get store h" and "chain_holds ad M store links X"
  shows "chain_holds ad M store' links X"
  using assms
proof (induction links arbitrary: X)
  case (Cons l links)
  obtain uid b shape hs where l: "l = (uid, b, shape, hs)" by (cases l)
  have "mapR (dict_item store') hs = mapR (dict_item store) hs"
    using Cons.prems(1) by (intro mapR_dict_cong) (simp add: l)
  with Cons show ?case by (auto simp: l)
qed simp

lemma chain_step:
  assumes "\<forall>l \<in> set links. good_link tok ad batch_size bs l" and "distinct (concat (link_handles links))"
    and "chain_holds ad M store links X" and "Y \<noteq> []" and "length X + length Y \<le> M"
    and "list_all tok X" and "list_all tok Y"
  shows "\<exists>store'. foldR (merged_block bs batch_size None) (zip (map (link_info ad (int (length X))) links) (replicate (length links) None)) (Y, store) =
      Inr (drop (length X) (chain_out ad links (X @ Y)), store') \<and>
    chain_holds ad M store' links (X @ Y) \<and> (\<forall>h. h \<notin> set (concat (link_handles links)) \<longrightarrow> dict_get store' h = dict_get store h)"
  using assms
proof (induction links arbitrary: X Y store)
  case (Cons l links)
  obtain uid b shape hs where l: "l = (uid, b, shape, hs)" by (cases l)
  let ?fw = "bk_forward b ad" and ?info = "link_info ad (int (length X)) l"
  obtain vec where good: "dict_get bs uid = Some b" "sane_backend b batch_size" "causal_module tok vec shape ?fw" "row_shape shape"
    using Cons.prems(1) by (auto simp: l good_link_def)
  have info: "im_uid ?info = uid" "im_prefix_length ?info = int (length X)" "im_cache_handles ?info = hs" "im_active_adapter ?info = ad"
    by (simp_all add: link_info_def l)
  obtain ts where ts: "mapR (dict_item store) hs = Inr ts" "holds_past ?fw shape M X ts" using Cons.prems(3) by (auto simp: l)
  have dist: "distinct hs" "distinct (concat (link_handles links))" "set hs \<inter> set (concat (link_handles links)) = {}"
    using Cons.prems(2) by (auto simp: l)
  from inference_step_ok [of b batch_size tok vec shape ?info store ts M X Y] good ts dist(1) info Cons.prems(4-7)
  obtain store1 ts1 where step: "inference_step b batch_size Y None ?info store = Inr (drop (length X) (full_out ?fw shape (X @ Y)), store1)"
    "mapR (dict_item store1) hs = Inr ts1" "holds_past ?fw shape M (X @ Y) ts1" "\<forall>h. h \<notin> set hs \<longrightarrow> dict_get store1 h = dict_get store h"
    by auto
  obtain out where out: "full_out ?fw shape (X @ Y) = full_out ?fw shape X @ out" "length out = length Y" "list_all tok out"
    using full_out_append [OF good(3,4) Cons.prems(6,7)] by blast
  let ?X = "full_out ?fw shape X"
  have lX: "length ?X = length X" "list_all tok ?X" by (rule full_kv_facts(2,3) [OF good(3,4) Cons.prems(6)])+
  have "chain_holds ad M store1 links ?X"
  proof (rule chain_holds_frame)
    show "\<forall>h \<in> set (concat (link_handles links)). dict_get store1 h = dict_get store h" using step(4) dist(3) by blast
    show "chain_holds ad M store links ?X" using Cons.prems(3) by (simp add: l)
  qed
  moreover have "out \<noteq> []" using out(2) Cons.prems(4) by auto
  ultimately obtain store2 where
    IH: "foldR (merged_block bs batch_size None) (zip (map (link_info ad (int (length X))) links) (replicate (length links) None)) (out, store1) =
      Inr (drop (length X) (chain_out ad links (?X @ out)), store2)" "chain_holds ad M store2 links (?X @ out)"
    "\<forall>h. h \<notin> set (concat (link_handles links)) \<longrightarrow> dict_get store2 h = dict_get store1 h"
    using Cons.IH [OF _ dist(2), of store1 ?X out] Cons.prems(1,5) out(2,3) lX by auto
  have first: "merged_block bs batch_size None (?info, None) (Y, store) = Inr (out, store1)"
    using step(1) good(1) out(1) lX info(1) by (simp add: merged_block_def dict_item_def)
  have "mapR (dict_item store2) hs = mapR (dict_item store1) hs"
    using IH(3) dist(3) by (intro mapR_dict_cong) blast
  then have holds: "chain_holds ad M store2 (l # links) (X @ Y)" using step(2,3) IH(2) out(1) by (auto simp: l)
  have frame: "\<forall>h. h \<notin> set (concat (link_handles (l # links))) \<longrightarrow> dict_get store2 h = dict_get store h"
    using IH(3) step(4) by (simp add: l)
  have "foldR (merged_block bs batch_size None) (zip (map (link_info ad (int (length X))) (l # links)) (replicate (length (l # links)) None)) (Y, store) =
      Inr (drop (length X) (chain_out ad (l # links) (X @ Y)), store2)"
    using first IH(1) out(1) by (simp add: l)
  with holds frame show ?case by blast
qed simp

lemma plain_request:
  assumes good: "\<forall>l \<in> set links. good_link tok ad batch_size bs l" and dist: "distinct (concat (link_handles links))"
    and hold: "chain_holds ad M store links X" and fits: "int (length X + length Y) \<le> mx" "mx \<le> int M" and batch: "batch_size \<noteq> 0"
    and tok: "list_all tok X" "list_all tok Y"
  shows "\<exists>store'. inference_request bs (map fst links) ad (link_handles links) mx quant None (int (length X)) [Hidden batch_size Y, Dummy, Ids []] store =
      Inr (Hidden batch_size (drop (length X) (chain_out ad links (X @ Y))), True, length Y, store') \<and>
    chain_holds ad M store' links (X @ Y)"
proof -
  have len: "length (link_handles links) = length links" by (induction links rule: link_handles.induct) auto
  have infos: "map (\<lambda>(uid, handles). \<lparr>im_uid = uid, im_prefix_length = p, im_cache_handles = handles, im_active_adapter = ad\<rparr>)
      (zip (map fst links) (link_handles links)) = map (link_info ad p) links" for p
    by (induction links rule: link_handles.induct) (auto simp: link_info_def)
  show ?thesis
  proof (cases "Y = []")
    case True
    then show ?thesis
      using hold fits batch chain_out_length [OF good tok(1)]
      by (simp add: inference_request_def unpack_flat_def optional_prompts_def)
  next
    case False
    from chain_step [OF good dist hold False _ tok] fits obtain store' where
      s: "foldR (merged_block bs batch_size None) (zip (map (link_info ad (int (length X))) links) (replicate (length links) None)) (Y, store) =
        Inr (drop (length X) (chain_out ad links (X @ Y)), store')" "chain_holds ad M store' links (X @ Y)" by auto
    then show ?thesis
      using False fits batch
      by (simp add: inference_request_def unpack_flat_def optional_prompts_def infos run_pools_merge)
  qed
qed

definition plain_requests :: "int \<Rightarrow> ('x list \<times> 'm) list \<Rightarrow> ('x tensor list \<times> 'm) list" where
  "plain_requests batch_size chunks = map (\<lambda>(Y, m). ([Hidden batch_size Y, Dummy, Ids []], m)) chunks"

fun tokens_of :: "'x tensor \<Rightarrow> 'x list" where
  "tokens_of (Hidden _ ts) = ts"
| "tokens_of _ = []"

lemma iterate_plain:
  assumes good: "\<forall>l \<in> set links. good_link tok ad batch_size bs l" and dist: "distinct (concat (link_handles links))"
    and hold: "chain_holds ad M store links X" and "mx \<le> int M" "batch_size \<noteq> 0"
    and "int (length X + length (concat (map fst chunks))) \<le> mx" and "list_all tok X" and "list_all tok (concat (map fst chunks))"
  shows "\<exists>ys store'. iterate_requests bs (map fst links) ad (link_handles links) mx quant None (int (length X)) (plain_requests batch_size chunks) store = (ys, Inr store') \<and>
    concat (map (tokens_of \<circ> fst) ys) = drop (length X) (chain_out ad links (X @ concat (map fst chunks))) \<and>
    map snd ys = map (\<lambda>(_, m). (True, m)) chunks \<and> map (length \<circ> tokens_of \<circ> fst) ys = map (length \<circ> fst) chunks \<and>
    chain_holds ad M store' links (X @ concat (map fst chunks))"
  using assms(3,6-8)
proof (induction chunks arbitrary: X store)
  case Nil
  then show ?case using chain_out_length [OF good, of X] by (simp add: plain_requests_def)
next
  case (Cons c chunks)
  obtain Y m where c: "c = (Y, m)" by (cases c)
  let ?rest = "concat (map fst chunks)"
  have tk: "list_all tok Y" "list_all tok (X @ Y)" "list_all tok ?rest" using Cons.prems(3,4) by (simp_all add: c)
  from plain_request [OF good dist Cons.prems(1), of Y mx] Cons.prems(2,3) tk(1) assms(4,5) c obtain store1 where
    s1: "inference_request bs (map fst links) ad (link_handles links) mx quant None (int (length X)) [Hidden batch_size Y, Dummy, Ids []] store =
      Inr (Hidden batch_size (drop (length X) (chain_out ad links (X @ Y))), True, length Y, store1)" "chain_holds ad M store1 links (X @ Y)" by force
  from Cons.IH [OF s1(2) _ tk(2,3)] Cons.prems(2) c obtain ys store' where
    IH: "iterate_requests bs (map fst links) ad (link_handles links) mx quant None (int (length (X @ Y))) (plain_requests batch_size chunks) store1 = (ys, Inr store')"
    "concat (map (tokens_of \<circ> fst) ys) = drop (length (X @ Y)) (chain_out ad links ((X @ Y) @ ?rest))"
    "map snd ys = map (\<lambda>(_, m). (True, m)) chunks" "map (length \<circ> tokens_of \<circ> fst) ys = map (length \<circ> fst) chunks"
    "chain_holds ad M store' links ((X @ Y) @ ?rest)" by (auto simp: comp_def)
  obtain o1 o2 where o: "chain_out ad links (X @ Y) = chain_out ad links X @ o1" "length o1 = length Y"
    "chain_out ad links ((X @ Y) @ ?rest) = chain_out ad links (X @ Y) @ o2"
    using chain_out_append [OF good Cons.prems(3) tk(1)] chain_out_append [OF good tk(2,3)] by metis
  note lX = chain_out_length [OF good Cons.prems(3)]
  have "iterate_requests bs (map fst links) ad (link_handles links) mx quant None (int (length X)) (plain_requests batch_size (c # chunks)) store =
      ((Hidden batch_size o1, True, m) # ys, Inr store')"
    using s1(1) IH(1) o(1) lX by (simp add: plain_requests_def c)
  moreover have "concat (map (tokens_of \<circ> fst) ys) = o2" using IH(2) o lX by simp
  ultimately show ?case
    using IH(3-5) o lX by (intro exI [of _ "(Hidden batch_size o1, True, m) # ys"] exI [of _ store']) (simp add: c comp_def)
qed

lemma server_session:
  assumes "\<forall>l \<in> set links. good_link tok ad batch_size bs l" and "distinct (concat (link_handles links))"
    and "chain_holds ad M store links []" and "batch_size \<noteq> 0" and "mx \<le> int M"
    and "int (length (concat (map fst chunks))) \<le> mx" and "list_all tok (concat (map fst chunks))"
  shows "\<exists>ys store'. iterate_rpc_inference bs (map fst links) ad (link_handles links) mx quant None (plain_requests batch_size chunks) store = (ys, Inr store') \<and>
    concat (map (tokens_of \<circ> fst) ys) = chain_out ad links (concat (map fst chunks)) \<and>
    map snd ys = map (\<lambda>(_, m). (True, m)) chunks \<and> map (length \<circ> tokens_of \<circ> fst) ys = map (length \<circ> fst) chunks"
proof -
  have "length (link_handles links) = length links" by (induction links rule: link_handles.induct) auto
  then show ?thesis
    using iterate_plain [OF assms(1-3) assms(5,4), of chunks quant] assms(6,7) by (auto simp: iterate_rpc_inference_def)
qed

text \<open>C8. A server session computes its chain of blocks: on caches of the right shape, the generator answers every
  request of any sequence of the blocks' tokens that fits the maximal length, the outputs of all requests together are the
  outputs of the blocks on all tokens in one pass, and every answer has as many tokens as its request.\<close>

theorem server_computes_chain:
  assumes "\<forall>l \<in> set links. good_link tok ad batch_size bs l" and "distinct (concat (link_handles links))"
    and "chain_holds ad M store links []" and "batch_size \<noteq> 0" and "mx \<le> int M"
    and "int (length (concat (map fst chunks))) \<le> mx" and "list_all tok (concat (map fst chunks))"
  shows "\<exists>ys store'. iterate_rpc_inference bs (map fst links) ad (link_handles links) mx quant None (plain_requests batch_size chunks) store = (ys, Inr store') \<and>
    concat (map (tokens_of \<circ> fst) ys) = chain_out ad links (concat (map fst chunks)) \<and>
    map snd ys = map (\<lambda>(_, m). (True, m)) chunks \<and> map (length \<circ> tokens_of \<circ> fst) ys = map (length \<circ> fst) chunks"
  using assms by (rule server_session)

definition empty_store :: "(int, int cache_tensor) dict" where
  "empty_store = map (\<lambda>h. (h, [[[0, 0, 0, 0]]])) [0, 1, 2, 3]"

definition two_links :: "(int, int) link list" where
  "two_links = [(''m.0'', demo_backend, [1, 1], [0, 1]), (''m.1'', demo_backend, [1, 1], [2, 3])]"

theorem server_computes_chain_witness:
  "\<exists>ys store'. iterate_rpc_inference [(''m.0'', demo_backend), (''m.1'', demo_backend)] [''m.0'', ''m.1''] None [[0, 1], [2, 3]] 4 NONE None
      [([Hidden 1 [1, 2], Dummy, Ids []], ''a''), ([Hidden 1 [3], Dummy, Ids []], ''b'')] empty_store = (ys, Inr store') \<and>
    concat (map (tokens_of \<circ> fst) ys) = [1, 4, 10] \<and> map snd ys = [(True, ''a''), (True, ''b'')]"
proof -
  let ?bs = "[(''m.0'', demo_backend), (''m.1'', demo_backend)]"
  have fw: "bk_forward demo_backend ad = demo_forward" for ad by (simp add: demo_backend_def)
  have good: "\<forall>l \<in> set two_links. good_link (\<lambda>_. True) None 1 ?bs l"
    by (auto simp: two_links_def good_link_def fw row_shape_def sane_backend_def intro!: exI [of _ "\<lambda>_. True"] demo_forward_causal) (simp_all add: demo_backend_def)
  have hold: "chain_holds None 4 empty_store two_links []"
    by (auto simp: two_links_def empty_store_def dict_item_def holds_past_def uniform_def full_kv_def full_out_def)
  have out: "chain_out None two_links [1, 2, 3] = [1, 4, 10]"
    by (simp add: two_links_def full_out_def fw demo_forward_def past_sum_def)
  have "distinct (concat (link_handles two_links))" by (simp add: two_links_def)
  from server_computes_chain [OF good this hold, of 4 "[([1, 2], ''a''), ([3], ''b'')]" NONE] out
  show ?thesis by (auto simp: plain_requests_def two_links_def)
qed

theorem backward_is_backprop_witness:
  "run_rpc_backward [demo_backend, demo_backend] None None [Hidden 1 [1, 2], Hidden 1 [5, 7], Prompts [[10], [20]]] =
     bindR (backprop None [(demo_backend, [10]), (demo_backend, [20])] [1, 2] [5, 7]) (\<lambda>(grad, gps). Inr (grad, if gps = [] then None else Some gps)) \<and>
   backprop None [(demo_backend, [10]), (demo_backend, [20])] [1, 2] [5, 7] = Inr ([19, 7], [[19], [12]])"
proof
  show "backprop None [(demo_backend, [10]), (demo_backend, [20])] [1, 2] [5, 7] = Inr ([19, 7], [[19], [12]])"
    by (simp add: with_prompt_def add_prompt_def backend_forward_def backend_backward_def demo_backend_def)
  show "run_rpc_backward [demo_backend, demo_backend] None None [Hidden 1 [1, 2], Hidden 1 [5, 7], Prompts [[10], [20]]] =
     bindR (backprop None [(demo_backend, [10]), (demo_backend, [20])] [1, 2] [5, 7]) (\<lambda>(grad, gps). Inr (grad, if gps = [] then None else Some gps))"
    using backward_is_backprop [of "[[10], [20]]" "[demo_backend, demo_backend]" "Prompts [[10], [20]]" None 1 "[1, 2]" "[5, 7]"]
    by (simp add: split_prompts_def del: backprop.simps)
qed

end
