(* ===== verification/Handler_Sessions.thy ===== *)
theory Handler_Sessions
  imports Peerz_Prelude
begin

text \<open>
  \<open>src/peerz/server/handler.py\<close>, the tables of sessions: every handler process keeps queues for its own
  sessions and, for all sessions it knows of, the index of the owner. Opening and closing a session tells
  the other handlers through their event queues; a request pushed to a handler that does not own the
  session is forwarded as an event. The step relation interleaves all handlers. Session ids are drawn by
  the clients (\<open>uuid4\<close>); the ghost field \<open>ss_owner\<close> records which handler opened an id, and a session
  is opened only with an id that was not opened before.
\<close>

datatype 'r event = NEW_SESSION string nat | END_SESSION string nat | PUSH string 'r | SHUTDOWN

record 'r handler_state =
  hs_session_queues :: "(string, 'r option list) dict"
  hs_session_handlers :: "(string, nat) dict"
  hs_events :: "'r event list"
  hs_listening :: bool

record 'r sessions_state =
  ss_handlers :: "'r handler_state list"
  ss_owner :: "string \<rightharpoonup> nat"            \<comment> \<open>ghost: who opened the id\<close>
  ss_pushed :: "(string \<times> 'r) set"       \<comment> \<open>ghost: all requests pushed so far\<close>

definition tell_others :: "nat \<Rightarrow> 'r event \<Rightarrow> 'r handler_state list \<Rightarrow> 'r handler_state list" where
  "tell_others i ev hs = map (\<lambda>(j, h). if j \<noteq> i then h\<lparr>hs_events := hs_events h @ [ev]\<rparr> else h) (enumerate 0 hs)"

text \<open>\<open>_managed_session\<close>, entering and leaving.\<close>

definition enter_session :: "nat \<Rightarrow> string \<Rightarrow> 'r handler_state list \<Rightarrow> 'r handler_state list result" where
  "enter_session i sid hs =
     (let h = hs ! i in
      if dict_get (hs_session_queues h) sid \<noteq> None then Inl AssertionError
      else Inr (tell_others i (NEW_SESSION sid i)
             (hs[i := h\<lparr>hs_session_queues := dict_set sid [] (hs_session_queues h),
                        hs_session_handlers := dict_set sid i (hs_session_handlers h)\<rparr>])))"

definition exit_session :: "nat \<Rightarrow> string \<Rightarrow> 'r handler_state list \<Rightarrow> 'r handler_state list result" where
  "exit_session i sid hs =
     (let h = hs ! i in
      if dict_get (hs_session_queues h) sid = None then Inl KeyError
      else if dict_get (hs_session_handlers h) sid = None then Inl KeyError
      else Inr (tell_others i (END_SESSION sid i)
             (hs[i := h\<lparr>hs_session_queues := dict_pop sid (hs_session_queues h),
                        hs_session_handlers := dict_pop sid (hs_session_handlers h)\<rparr>])))"

definition put_into_session_queue :: "nat \<Rightarrow> string \<Rightarrow> 'r \<Rightarrow> 'r handler_state list \<Rightarrow> 'r handler_state list result" where
  "put_into_session_queue i sid request hs =
     (let h = hs ! i in
      case dict_get (hs_session_handlers h) sid of
        None \<Rightarrow> Inr hs
      | Some j \<Rightarrow>
          if j = i
          then (case dict_get (hs_session_queues h) sid of
                  None \<Rightarrow> Inl KeyError
                | Some q \<Rightarrow> Inr (hs[i := h\<lparr>hs_session_queues := dict_set sid (q @ [Some request]) (hs_session_queues h)\<rparr>]))
          else if \<not> j < length hs then Inl IndexError
          else Inr (hs[j := (hs ! j)\<lparr>hs_events := hs_events (hs ! j) @ [PUSH sid request]\<rparr>]))"

text \<open>\<open>_get_from_session_queue\<close>: \<open>None\<close> while the queue is empty.\<close>

definition get_from_session_queue :: "nat \<Rightarrow> string \<Rightarrow> 'r handler_state list \<Rightarrow> ('r option \<times> 'r handler_state list) option result" where
  "get_from_session_queue i sid hs =
     (let h = hs ! i in
      case dict_get (hs_session_handlers h) sid of
        None \<Rightarrow> Inl KeyError
      | Some j \<Rightarrow>
          if j \<noteq> i then Inl AssertionError
          else (case dict_get (hs_session_queues h) sid of
                  None \<Rightarrow> Inl KeyError
                | Some [] \<Rightarrow> Inr None
                | Some (r # q) \<Rightarrow> Inr (Some (r, hs[i := h\<lparr>hs_session_queues := dict_set sid q (hs_session_queues h)\<rparr>]))))"

text \<open>One turn of \<open>_listen_to_event_queue\<close>.\<close>

definition handle_event :: "'r event \<Rightarrow> 'r handler_state \<Rightarrow> 'r handler_state" where
  "handle_event ev h =
     (case ev of
        SHUTDOWN \<Rightarrow> h\<lparr>hs_listening := False\<rparr>
      | NEW_SESSION sid j \<Rightarrow> h\<lparr>hs_session_handlers := dict_set sid j (hs_session_handlers h)\<rparr>
      | END_SESSION sid _ \<Rightarrow> h\<lparr>hs_session_handlers := dict_pop sid (hs_session_handlers h)\<rparr>
      | PUSH sid request \<Rightarrow>
          (case dict_get (hs_session_queues h) sid of
             None \<Rightarrow> h
           | Some q \<Rightarrow> h\<lparr>hs_session_queues := dict_set sid (q @ [Some request]) (hs_session_queues h)\<rparr>))"

definition listen_to_event_queue :: "nat \<Rightarrow> 'r handler_state list \<Rightarrow> 'r handler_state list" where
  "listen_to_event_queue i hs =
     (case hs_events (hs ! i) of
        [] \<Rightarrow> hs
      | ev # evs \<Rightarrow> if hs_listening (hs ! i) then hs[i := handle_event ev ((hs ! i)\<lparr>hs_events := evs\<rparr>)] else hs)"

definition shutdown_handler :: "nat \<Rightarrow> 'r handler_state list \<Rightarrow> 'r handler_state list" where
  "shutdown_handler i hs = hs[i := (hs ! i)\<lparr>hs_events := hs_events (hs ! i) @ [SHUTDOWN]\<rparr>]"

definition new_handler :: "'r handler_state" where
  "new_handler = \<lparr>hs_session_queues = [], hs_session_handlers = [], hs_events = [], hs_listening = True\<rparr>"

definition new_sessions :: "nat \<Rightarrow> 'r sessions_state" where
  "new_sessions n = \<lparr>ss_handlers = replicate n new_handler, ss_owner = Map.empty, ss_pushed = {}\<rparr>"

inductive sessions_step :: "'r sessions_state \<Rightarrow> 'r sessions_state \<Rightarrow> bool" where
  open_session: "i < length (ss_handlers s) \<Longrightarrow> ss_owner s sid = None \<Longrightarrow> enter_session i sid (ss_handlers s) = Inr hs \<Longrightarrow>
    sessions_step s (s\<lparr>ss_handlers := hs, ss_owner := (ss_owner s)(sid \<mapsto> i)\<rparr>)"
| close: "i < length (ss_handlers s) \<Longrightarrow> exit_session i sid (ss_handlers s) = Inr hs \<Longrightarrow> sessions_step s (s\<lparr>ss_handlers := hs\<rparr>)"
| push: "i < length (ss_handlers s) \<Longrightarrow> put_into_session_queue i sid r (ss_handlers s) = Inr hs \<Longrightarrow>
    sessions_step s (s\<lparr>ss_handlers := hs, ss_pushed := insert (sid, r) (ss_pushed s)\<rparr>)"
| take: "i < length (ss_handlers s) \<Longrightarrow> get_from_session_queue i sid (ss_handlers s) = Inr (Some (r, hs)) \<Longrightarrow>
    sessions_step s (s\<lparr>ss_handlers := hs\<rparr>)"
| listen: "i < length (ss_handlers s) \<Longrightarrow> sessions_step s (s\<lparr>ss_handlers := listen_to_event_queue i (ss_handlers s)\<rparr>)"
| stop: "i < length (ss_handlers s) \<Longrightarrow> sessions_step s (s\<lparr>ss_handlers := shutdown_handler i (ss_handlers s)\<rparr>)"

subsection \<open>Invariant\<close>

text \<open>An event for a handler: announcements come from the owner, which is another handler; pushed requests are
  for sessions the handler owns.\<close>

definition event_ok :: "(string \<rightharpoonup> nat) \<Rightarrow> nat \<Rightarrow> (string \<times> 'r) set \<Rightarrow> nat \<Rightarrow> 'r event \<Rightarrow> bool" where
  "event_ok owner n pushed i ev =
     (case ev of
        NEW_SESSION sid j \<Rightarrow> owner sid = Some j \<and> j \<noteq> i \<and> j < n
      | END_SESSION sid j \<Rightarrow> owner sid = Some j \<and> j \<noteq> i \<and> j < n
      | PUSH sid r \<Rightarrow> owner sid = Some i \<and> (sid, r) \<in> pushed
      | SHUTDOWN \<Rightarrow> True)"

definition handler_ok :: "(string \<rightharpoonup> nat) \<Rightarrow> nat \<Rightarrow> (string \<times> 'r) set \<Rightarrow> nat \<Rightarrow> 'r handler_state \<Rightarrow> bool" where
  "handler_ok owner n pushed i h \<longleftrightarrow>
     (\<forall>sid. dict_get (hs_session_queues h) sid \<noteq> None \<longleftrightarrow> dict_get (hs_session_handlers h) sid = Some i) \<and>
     (\<forall>sid j. dict_get (hs_session_handlers h) sid = Some j \<longrightarrow> owner sid = Some j \<and> j < n) \<and>
     (\<forall>sid q. dict_get (hs_session_queues h) sid = Some q \<longrightarrow> (\<forall>r \<in> set q. \<exists>r'. r = Some r' \<and> (sid, r') \<in> pushed)) \<and>
     (\<forall>ev \<in> set (hs_events h). event_ok owner n pushed i ev)"

definition sessions_inv :: "'r sessions_state \<Rightarrow> bool" where
  "sessions_inv s \<longleftrightarrow>
     (\<forall>i < length (ss_handlers s). handler_ok (ss_owner s) (length (ss_handlers s)) (ss_pushed s) i (ss_handlers s ! i))"

lemma length_tell_others [simp]: "length (tell_others i ev hs) = length hs"
  by (simp add: tell_others_def)

lemma nth_tell_others:
  "j < length hs \<Longrightarrow> tell_others i ev hs ! j = (if j \<noteq> i then (hs ! j)\<lparr>hs_events := hs_events (hs ! j) @ [ev]\<rparr> else hs ! j)"
  by (simp add: tell_others_def nth_enumerate_eq)

text \<open>More owners and more pushed requests keep a handler in order.\<close>

lemma event_ok_mono:
  "event_ok owner n pushed i ev \<Longrightarrow> owner \<subseteq>\<^sub>m owner' \<Longrightarrow> pushed \<subseteq> pushed' \<Longrightarrow> event_ok owner' n pushed' i ev"
  by (cases ev) (auto simp: event_ok_def map_le_def dom_def)

lemma handler_ok_mono:
  assumes h: "handler_ok owner n pushed i h" and le: "owner \<subseteq>\<^sub>m owner'" "pushed \<subseteq> pushed'"
  shows "handler_ok owner' n pushed' i h"
proof -
  have "owner' sid = Some j" if "owner sid = Some j" for sid j using le(1) that by (metis domI map_le_def)
  then show ?thesis
    using h le event_ok_mono [OF _ le] unfolding handler_ok_def by blast
qed

lemma handler_ok_event:
  "handler_ok owner n pushed i h \<Longrightarrow> event_ok owner n pushed i ev \<Longrightarrow> handler_ok owner n pushed i (h\<lparr>hs_events := hs_events h @ [ev]\<rparr>)"
  by (auto simp: handler_ok_def)

lemma handler_ok_queue:
  assumes "handler_ok owner n pushed i h" "dict_get (hs_session_queues h) sid = Some q"
    and "\<forall>r \<in> set q'. \<exists>r'. r = Some r' \<and> (sid, r') \<in> pushed"
  shows "handler_ok owner n pushed i (h\<lparr>hs_session_queues := dict_set sid q' (hs_session_queues h)\<rparr>)"
proof -
  have "dict_get (hs_session_handlers h) sid = Some i" using assms(1,2) unfolding handler_ok_def by blast
  with assms show ?thesis by (auto simp: handler_ok_def)
qed

lemma handler_ok_open:
  "handler_ok owner n pushed i h \<Longrightarrow> owner sid = Some i \<Longrightarrow> i < n \<Longrightarrow>
   handler_ok owner n pushed i (h\<lparr>hs_session_queues := dict_set sid [] (hs_session_queues h),
     hs_session_handlers := dict_set sid i (hs_session_handlers h)\<rparr>)"
  by (auto simp: handler_ok_def)

lemma handle_event_ok:
  assumes h: "handler_ok owner n pushed i h" and ev: "event_ok owner n pushed i ev"
  shows "handler_ok owner n pushed i (handle_event ev h)"
proof (cases ev)
  case (NEW_SESSION sid j)
  with ev have "owner sid = Some j" "j \<noteq> i" "j < n" by (auto simp: event_ok_def)
  with h NEW_SESSION show ?thesis by (auto simp: handle_event_def handler_ok_def)
next
  case (END_SESSION sid j)
  with ev have "owner sid = Some j" "j \<noteq> i" by (auto simp: event_ok_def)
  with h END_SESSION show ?thesis by (auto simp: handle_event_def handler_ok_def)
next
  case (PUSH sid r)
  show ?thesis
  proof (cases "dict_get (hs_session_queues h) sid")
    case None
    with h PUSH show ?thesis by (simp add: handle_event_def)
  next
    case (Some q)
    with h have "\<forall>r \<in> set q. \<exists>r'. r = Some r' \<and> (sid, r') \<in> pushed" unfolding handler_ok_def by blast
    with handler_ok_queue [OF h Some, of "q @ [Some r]"] PUSH Some ev show ?thesis
      by (simp add: handle_event_def event_ok_def)
  qed
qed (use h in \<open>simp add: handle_event_def handler_ok_def\<close>)

lemma sessions_update:
  assumes "sessions_inv s" "length hs = length (ss_handlers s)" "ss_owner s \<subseteq>\<^sub>m owner" "ss_pushed s \<subseteq> pushed"
    and "\<And>j. j < length hs \<Longrightarrow> handler_ok owner (length hs) pushed j (ss_handlers s ! j) \<Longrightarrow> handler_ok owner (length hs) pushed j (hs ! j)"
  shows "sessions_inv (s\<lparr>ss_handlers := hs, ss_owner := owner, ss_pushed := pushed\<rparr>)"
  using assms handler_ok_mono unfolding sessions_inv_def by (auto simp: handler_ok_mono)

lemma open_session_inv:
  assumes inv: "sessions_inv s" and "i < length (ss_handlers s)" and "ss_owner s sid = None" and "enter_session i sid (ss_handlers s) = Inr hs"
  shows "sessions_inv (s\<lparr>ss_handlers := hs, ss_owner := (ss_owner s)(sid \<mapsto> i)\<rparr>)"
proof -
  let ?owner = "(ss_owner s)(sid \<mapsto> i)" and ?h = "ss_handlers s ! i" and ?n = "length (ss_handlers s)"
  have no: "dict_get (hs_session_handlers (ss_handlers s ! j)) sid = None" if "j < ?n" for j
    using inv assms(3) that unfolding sessions_inv_def handler_ok_def by (metis option.distinct(1) option.exhaust)
  let ?h' = "?h\<lparr>hs_session_queues := dict_set sid [] (hs_session_queues ?h), hs_session_handlers := dict_set sid i (hs_session_handlers ?h)\<rparr>"
  have hs: "hs = tell_others i (NEW_SESSION sid i) ((ss_handlers s)[i := ?h'])"
    using assms(4) by (auto simp: enter_session_def Let_def split: if_splits)
  have "sessions_inv (s\<lparr>ss_handlers := hs, ss_owner := ?owner, ss_pushed := ss_pushed s\<rparr>)"
  proof (rule sessions_update [OF inv])
    show "ss_owner s \<subseteq>\<^sub>m ?owner" using assms(3) by (auto simp: map_le_def)
    fix j
    assume j: "j < length hs" and ok: "handler_ok ?owner (length hs) (ss_pushed s) j (ss_handlers s ! j)"
    show "handler_ok ?owner (length hs) (ss_pushed s) j (hs ! j)"
    proof (cases "j = i")
      case True
      then have "hs ! j = ?h'" using j hs by (simp add: nth_tell_others)
      moreover have "handler_ok ?owner (length hs) (ss_pushed s) i ?h'"
        using handler_ok_open [of ?owner "length hs" "ss_pushed s" i ?h sid] ok True assms(2) hs by simp
      ultimately show ?thesis using True by simp
    next
      case False
      moreover have "event_ok ?owner (length hs) (ss_pushed s) j (NEW_SESSION sid i)"
        using False assms(2) hs by (simp add: event_ok_def)
      ultimately show ?thesis using j hs handler_ok_event [OF ok] by (simp add: nth_tell_others)
    qed
  qed (simp_all add: hs)
  then show ?thesis by simp
qed

lemma close_inv:
  assumes inv: "sessions_inv s" and "i < length (ss_handlers s)" and "exit_session i sid (ss_handlers s) = Inr hs"
  shows "sessions_inv (s\<lparr>ss_handlers := hs\<rparr>)"
proof -
  let ?h = "ss_handlers s ! i"
  let ?h' = "?h\<lparr>hs_session_queues := dict_pop sid (hs_session_queues ?h), hs_session_handlers := dict_pop sid (hs_session_handlers ?h)\<rparr>"
  have hs: "hs = tell_others i (END_SESSION sid i) ((ss_handlers s)[i := ?h'])" and q: "dict_get (hs_session_queues ?h) sid \<noteq> None"
    using assms(3) by (auto simp: exit_session_def Let_def split: if_splits)
  have own: "ss_owner s sid = Some i" using inv assms(2) q unfolding sessions_inv_def handler_ok_def by blast
  have "sessions_inv (s\<lparr>ss_handlers := hs, ss_owner := ss_owner s, ss_pushed := ss_pushed s\<rparr>)"
  proof (rule sessions_update [OF inv])
    fix j
    assume j: "j < length hs" and ok: "handler_ok (ss_owner s) (length hs) (ss_pushed s) j (ss_handlers s ! j)"
    show "handler_ok (ss_owner s) (length hs) (ss_pushed s) j (hs ! j)"
    proof (cases "j = i")
      case True
      then show ?thesis using j hs ok by (auto simp: nth_tell_others handler_ok_def)
    next
      case False
      moreover have "event_ok (ss_owner s) (length hs) (ss_pushed s) j (END_SESSION sid i)"
        using False assms(2) hs own by (simp add: event_ok_def)
      ultimately show ?thesis using j hs handler_ok_event [OF ok] by (simp add: nth_tell_others)
    qed
  qed (simp_all add: hs)
  then show ?thesis by simp
qed

lemma push_inv:
  assumes inv: "sessions_inv s" and "i < length (ss_handlers s)" and "put_into_session_queue i sid r (ss_handlers s) = Inr hs"
  shows "sessions_inv (s\<lparr>ss_handlers := hs, ss_pushed := insert (sid, r) (ss_pushed s)\<rparr>)"
proof -
  let ?p = "insert (sid, r) (ss_pushed s)" and ?h = "ss_handlers s ! i"
  have "sessions_inv (s\<lparr>ss_handlers := hs, ss_owner := ss_owner s, ss_pushed := ?p\<rparr>)"
  proof (cases "dict_get (hs_session_handlers ?h) sid")
    case None
    with assms(3) have "hs = ss_handlers s" by (simp add: put_into_session_queue_def Let_def)
    then show ?thesis by (intro sessions_update [OF inv]) auto
  next
    case (Some k)
    have own: "ss_owner s sid = Some k" "k < length (ss_handlers s)" using inv assms(2) Some unfolding sessions_inv_def handler_ok_def by blast+
    show ?thesis
    proof (cases "k = i")
      case True
      then obtain q where q: "dict_get (hs_session_queues ?h) sid = Some q"
        "hs = (ss_handlers s)[i := ?h\<lparr>hs_session_queues := dict_set sid (q @ [Some r]) (hs_session_queues ?h)\<rparr>]"
        using assms(3) Some by (auto simp: put_into_session_queue_def Let_def split: option.splits)
      show ?thesis
      proof (rule sessions_update [OF inv])
        fix j
        assume j: "j < length hs" and ok: "handler_ok (ss_owner s) (length hs) ?p j (ss_handlers s ! j)"
        show "handler_ok (ss_owner s) (length hs) ?p j (hs ! j)"
        proof (cases "j = i")
          case True
          have "\<forall>r \<in> set q. \<exists>r'. r = Some r' \<and> (sid, r') \<in> ?p" using ok q(1) unfolding True handler_ok_def by blast
          with handler_ok_queue [OF ok, of sid q "q @ [Some r]"] True q j show ?thesis by simp
        qed (use j q(2) ok in simp)
      qed (auto simp: q(2))
    next
      case False
      then have hs: "hs = (ss_handlers s)[k := (ss_handlers s ! k)\<lparr>hs_events := hs_events (ss_handlers s ! k) @ [PUSH sid r]\<rparr>]"
        using assms(3) Some own(2) by (simp add: put_into_session_queue_def Let_def)
      show ?thesis
      proof (rule sessions_update [OF inv])
        fix j
        assume j: "j < length hs" and ok: "handler_ok (ss_owner s) (length hs) ?p j (ss_handlers s ! j)"
        have "event_ok (ss_owner s) (length hs) ?p k (PUSH sid r)" using own(1) by (simp add: event_ok_def)
        with j ok hs show "handler_ok (ss_owner s) (length hs) ?p j (hs ! j)" by (cases "j = k") (auto intro: handler_ok_event)
      qed (auto simp: hs)
    qed
  qed
  then show ?thesis by simp
qed

lemma take_inv:
  assumes inv: "sessions_inv s" and "i < length (ss_handlers s)" and "get_from_session_queue i sid (ss_handlers s) = Inr (Some (r, hs))"
  shows "sessions_inv (s\<lparr>ss_handlers := hs\<rparr>)"
proof -
  let ?h = "ss_handlers s ! i"
  obtain q where q: "dict_get (hs_session_queues ?h) sid = Some (r # q)"
    "hs = (ss_handlers s)[i := ?h\<lparr>hs_session_queues := dict_set sid q (hs_session_queues ?h)\<rparr>]"
    using assms(3) by (auto simp: get_from_session_queue_def Let_def split: option.splits if_splits list.splits)
  have "sessions_inv (s\<lparr>ss_handlers := hs, ss_owner := ss_owner s, ss_pushed := ss_pushed s\<rparr>)"
  proof (rule sessions_update [OF inv])
    fix j
    assume j: "j < length hs" and ok: "handler_ok (ss_owner s) (length hs) (ss_pushed s) j (ss_handlers s ! j)"
    show "handler_ok (ss_owner s) (length hs) (ss_pushed s) j (hs ! j)"
    proof (cases "j = i")
      case True
      have "\<forall>r \<in> set (r # q). \<exists>r'. r = Some r' \<and> (sid, r') \<in> ss_pushed s" using ok q(1) unfolding True handler_ok_def by blast
      with handler_ok_queue [OF ok, of sid "r # q" q] True q j show ?thesis by simp
    qed (use j q(2) ok in simp)
  qed (auto simp: q(2))
  then show ?thesis by simp
qed

lemma listen_inv:
  assumes inv: "sessions_inv s" and "i < length (ss_handlers s)"
  shows "sessions_inv (s\<lparr>ss_handlers := listen_to_event_queue i (ss_handlers s)\<rparr>)"
proof -
  let ?hs = "listen_to_event_queue i (ss_handlers s)"
  have len: "length ?hs = length (ss_handlers s)" by (simp add: listen_to_event_queue_def split: list.splits)
  have "sessions_inv (s\<lparr>ss_handlers := ?hs, ss_owner := ss_owner s, ss_pushed := ss_pushed s\<rparr>)"
  proof (rule sessions_update [OF inv len])
    fix j
    assume j: "j < length ?hs" and ok: "handler_ok (ss_owner s) (length ?hs) (ss_pushed s) j (ss_handlers s ! j)"
    show "handler_ok (ss_owner s) (length ?hs) (ss_pushed s) j (?hs ! j)"
    proof (cases "j = i \<and> hs_events (ss_handlers s ! i) \<noteq> [] \<and> hs_listening (ss_handlers s ! i)")
      case True
      then obtain ev evs where ev: "hs_events (ss_handlers s ! i) = ev # evs" by (cases "hs_events (ss_handlers s ! i)") auto
      with ok True have "handler_ok (ss_owner s) (length ?hs) (ss_pushed s) i ((ss_handlers s ! i)\<lparr>hs_events := evs\<rparr>)"
        "event_ok (ss_owner s) (length ?hs) (ss_pushed s) i ev" by (auto simp: handler_ok_def)
      then have "handler_ok (ss_owner s) (length ?hs) (ss_pushed s) i (handle_event ev ((ss_handlers s ! i)\<lparr>hs_events := evs\<rparr>))"
        by (rule handle_event_ok)
      moreover have "?hs ! i = handle_event ev ((ss_handlers s ! i)\<lparr>hs_events := evs\<rparr>)"
        using ev True assms(2) by (simp add: listen_to_event_queue_def)
      ultimately show ?thesis using True by simp
    next
      case False
      then have "?hs ! j = ss_handlers s ! j"
        by (cases "hs_events (ss_handlers s ! i)") (auto simp: listen_to_event_queue_def)
      with ok show ?thesis by simp
    qed
  qed auto
  then show ?thesis by simp
qed

lemma stop_inv:
  assumes inv: "sessions_inv s" and "i < length (ss_handlers s)"
  shows "sessions_inv (s\<lparr>ss_handlers := shutdown_handler i (ss_handlers s)\<rparr>)"
proof -
  have "sessions_inv (s\<lparr>ss_handlers := shutdown_handler i (ss_handlers s), ss_owner := ss_owner s, ss_pushed := ss_pushed s\<rparr>)"
  proof (rule sessions_update [OF inv])
    fix j
    assume "j < length (shutdown_handler i (ss_handlers s))"
      and "handler_ok (ss_owner s) (length (shutdown_handler i (ss_handlers s))) (ss_pushed s) j (ss_handlers s ! j)"
    then show "handler_ok (ss_owner s) (length (shutdown_handler i (ss_handlers s))) (ss_pushed s) j (shutdown_handler i (ss_handlers s) ! j)"
      by (cases "j = i") (auto simp: shutdown_handler_def event_ok_def intro: handler_ok_event)
  qed (auto simp: shutdown_handler_def)
  then show ?thesis by simp
qed

lemma sessions_step_inv: "sessions_step s t \<Longrightarrow> sessions_inv s \<Longrightarrow> sessions_inv t"
  by (induction rule: sessions_step.induct) (simp_all add: open_session_inv close_inv push_inv take_inv listen_inv stop_inv)

interpretation sessions: invariant_system "\<lambda>s. \<exists>n. s = new_sessions n" sessions_step sessions_inv
proof
  show "\<And>s. \<exists>n. s = new_sessions n \<Longrightarrow> sessions_inv s"
    by (auto simp: new_sessions_def new_handler_def sessions_inv_def handler_ok_def)
qed (rule sessions_step_inv)

text \<open>C27. Sessions of different clients never mix: in every reachable state of any number of handlers, at most one
  handler has a queue for a session, it is the handler that opened it, taking from the queue and closing
  the session never fail, and every request waiting in the queue was pushed for exactly this session.\<close>

theorem sessions_isolated:
  assumes "sessions_step\<^sup>*\<^sup>* (new_sessions n) s" and "i < length (ss_handlers s)"
    and "dict_get (hs_session_queues (ss_handlers s ! i)) sid = Some q"
  shows "ss_owner s sid = Some i \<and>
    (\<forall>j < length (ss_handlers s). j \<noteq> i \<longrightarrow> dict_get (hs_session_queues (ss_handlers s ! j)) sid = None) \<and>
    (\<forall>r \<in> set q. \<exists>r'. r = Some r' \<and> (sid, r') \<in> ss_pushed s) \<and>
    \<not> isl (exit_session i sid (ss_handlers s)) \<and> \<not> isl (get_from_session_queue i sid (ss_handlers s))"
proof -
  have inv: "sessions_inv s" using sessions.reachable_inv [OF _ assms(1)] by blast
  then have ok: "handler_ok (ss_owner s) (length (ss_handlers s)) (ss_pushed s) j (ss_handlers s ! j)" if "j < length (ss_handlers s)" for j
    using that by (simp add: sessions_inv_def)
  have own: "dict_get (hs_session_handlers (ss_handlers s ! i)) sid = Some i" "ss_owner s sid = Some i"
    using ok [OF assms(2)] assms(3) unfolding handler_ok_def by blast+
  have "dict_get (hs_session_queues (ss_handlers s ! j)) sid = None" if "j < length (ss_handlers s)" "j \<noteq> i" for j
  proof (rule ccontr)
    assume "dict_get (hs_session_queues (ss_handlers s ! j)) sid \<noteq> None"
    then have "ss_owner s sid = Some j" using ok [OF that(1)] unfolding handler_ok_def by blast
    with own(2) that(2) show False by simp
  qed
  moreover have "\<forall>r \<in> set q. \<exists>r'. r = Some r' \<and> (sid, r') \<in> ss_pushed s"
    using ok [OF assms(2)] assms(3) unfolding handler_ok_def by blast
  moreover have "\<not> isl (exit_session i sid (ss_handlers s))" "\<not> isl (get_from_session_queue i sid (ss_handlers s))"
    using own(1) assms(3) by (simp_all add: exit_session_def get_from_session_queue_def Let_def split: list.splits)
  ultimately show ?thesis using own(2) by blast
qed

definition opened_session :: "nat sessions_state" where
  "opened_session = \<lparr>ss_handlers = [new_handler\<lparr>hs_session_queues := [(''x'', [])], hs_session_handlers := [(''x'', 0)]\<rparr>,
     new_handler\<lparr>hs_events := [NEW_SESSION ''x'' 0]\<rparr>], ss_owner = [''x'' \<mapsto> 0], ss_pushed = {}\<rparr>"

definition pushed_session :: "nat sessions_state" where
  "pushed_session = opened_session\<lparr>ss_handlers := (ss_handlers opened_session)[0 := (ss_handlers opened_session ! 0)\<lparr>hs_session_queues := [(''x'', [Some 5])]\<rparr>],
     ss_pushed := {(''x'', 5)}\<rparr>"

lemma pushed_reachable: "sessions_step\<^sup>*\<^sup>* (new_sessions 2) pushed_session"
proof -
  have "sessions_step (new_sessions 2) opened_session"
    using sessions_step.open_session [of 0 "new_sessions 2 :: nat sessions_state" "''x''" "ss_handlers opened_session"]
    by (simp add: new_sessions_def opened_session_def enter_session_def tell_others_def new_handler_def numeral_2_eq_2)
  moreover have "sessions_step opened_session pushed_session"
    using sessions_step.push [of 0 opened_session "''x''" 5 "ss_handlers pushed_session"]
    by (simp add: pushed_session_def opened_session_def put_into_session_queue_def new_handler_def)
  ultimately show ?thesis by (meson rtranclp.rtrancl_into_rtrancl rtranclp.rtrancl_refl)
qed

theorem sessions_isolated_witness:
  "sessions_step\<^sup>*\<^sup>* (new_sessions 2) pushed_session \<and> ss_owner pushed_session ''x'' = Some 0 \<and> (''x'', 5) \<in> ss_pushed pushed_session"
proof -
  have "0 < length (ss_handlers pushed_session)" "dict_get (hs_session_queues (ss_handlers pushed_session ! 0)) ''x'' = Some [Some 5]"
    by (simp_all add: pushed_session_def opened_session_def)
  with sessions_isolated [OF pushed_reachable this] pushed_reachable show ?thesis by auto
qed

end
