(* ===== verification/Handler.thy ===== *)
theory Handler
  imports Block_Functions Handler_Sessions "HOL-Library.Sublist"
begin

text \<open>
  \<open>src/peerz/server/handler.py\<close>: the connection handlers of a server. Several handlers share the blocks; a
  session belongs to the handler that opened it, the others learn of it through event queues and forward
  pushed activations to it (the theory of handler sessions). This theory models the requests of one handler.

  Wire tensors are pairs of a compression code and a tensor; hivemind's stream splitting, the
  deserialization of streams, the allocation of caches and the arrival of messages are arguments.
\<close>

subsection \<open>Requests\<close>

record 'x step_metadata =
  md_session_id :: "string option"
  md_step_id :: "string option"
  md_max_length :: "int option"             \<comment> \<open>None when missing or not an int\<close>
  md_points :: "rat option"                 \<comment> \<open>None when not a number; 0 by default\<close>
  md_alloc_timeout :: rat
  md_args_structure :: "'x args_structure"
  md_active_adapter :: string               \<comment> \<open>empty by default\<close>
  md_next_servers :: "(peer_id \<times> string \<times> int \<times> int) list"
  md_pushed :: bool
  md_output_compression :: "int list option"

type_synonym 'x wire = "int \<times> 'x tensor"

record 'x expert_request =
  er_uid :: string
  er_tensors :: "'x wire list"
  er_metadata :: "'x step_metadata"

record ('x, 'v) server_handler =
  sh_module_backends :: "(module_uid, ('x, 'v) backend) dict"
  sh_adapters :: "string list"
  sh_dht_prefix :: string
  sh_inference_max_length :: int
  sh_quant_type :: quant_type
  sh_outputs_compression :: "int list"      \<comment> \<open>of the outputs schema\<close>
  sh_grads_compression :: int               \<comment> \<open>of the single entry of the args schema\<close>

definition check_uids :: "('x, 'v) server_handler \<Rightarrow> string \<Rightarrow> module_uid list result" where
  "check_uids sh uids =
     (let us = py_split CHAIN_DELIMITER uids in
      if us = [] then Inl RuntimeError
      else if \<forall>u \<in> set us. dict_get (sh_module_backends sh) u \<noteq> None then Inr us else Inl RuntimeError)"

definition get_active_adapter :: "('x, 'v) server_handler \<Rightarrow> 'x step_metadata \<Rightarrow> string result" where
  "get_active_adapter sh md =
     (if md_active_adapter md \<noteq> [] \<and> md_active_adapter md \<notin> set (sh_adapters sh) then Inl KeyError else Inr (md_active_adapter md))"

definition requested_backends :: "('x, 'v) server_handler \<Rightarrow> module_uid list \<Rightarrow> ('x, 'v) backend list result" where
  "requested_backends sh uids = mapR (dict_item (sh_module_backends sh)) uids"

definition serialize_outputs :: "('x, 'v) server_handler \<Rightarrow> 'x list \<Rightarrow> int \<Rightarrow> 'x step_metadata \<Rightarrow> 'x wire list result" where
  "serialize_outputs sh hidden_states batch md =
     (case md_output_compression md of
        Some cs \<Rightarrow> guardR (length cs = 1) AssertionError (Inr (map (\<lambda>(t, _, c). (c, t)) (zip [Hidden batch hidden_states] (zip (sh_outputs_compression sh) cs))))
      | None \<Rightarrow> Inr (map (\<lambda>(t, c). (c, t)) (zip [Hidden batch hidden_states] (sh_outputs_compression sh))))"

definition serialize_grads :: "('x, 'v) server_handler \<Rightarrow> int \<Rightarrow> 'x list \<times> 'x list list option \<Rightarrow> 'x step_metadata \<Rightarrow> 'x wire list result" where
  "serialize_grads sh batch grads md =
     (let ts = Hidden batch (fst grads) # (case snd grads of None \<Rightarrow> [] | Some ps \<Rightarrow> [Prompts ps]);
          schema = replicate (length ts) (sh_grads_compression sh)
      in case md_output_compression md of
           Some cs \<Rightarrow> guardR (length cs = length ts) AssertionError (Inr (map (\<lambda>(t, _, c). (c, t)) (zip ts (zip schema cs))))
         | None \<Rightarrow> Inr (map (\<lambda>(t, c). (c, t)) (zip ts schema)))"

text \<open>The batch size of a list of tensors: that of its first tensor.\<close>

fun batch_of :: "'x tensor list \<Rightarrow> int" where
  "batch_of (Hidden b _ # _) = b"
| "batch_of _ = 1"

text \<open>What \<open>rpc_forward\<close> and \<open>rpc_forward_stream\<close> do once they have the uids, the tensors and the metadata.\<close>

definition serve_forward :: "('x::plus, 'v) server_handler \<Rightarrow> string \<Rightarrow> 'x tensor list \<Rightarrow> 'x step_metadata \<Rightarrow> 'x wire list result" where
  "serve_forward sh uid flat_inputs md =
     bindR (check_uids sh uid) (\<lambda>uids.
     bindR (requested_backends sh uids) (\<lambda>bs.
     bindR (get_active_adapter sh md) (\<lambda>ad.
     guardR (md_points md \<noteq> None) AssertionError
     (bindR (run_rpc_forward bs (Some ad) (md_args_structure md) flat_inputs) (\<lambda>hs.
       serialize_outputs sh hs (batch_of flat_inputs) md)))))"

definition rpc_forward :: "('x::plus, 'v) server_handler \<Rightarrow> 'x expert_request \<Rightarrow> 'x wire list result" where
  "rpc_forward sh request = serve_forward sh (er_uid request) (map snd (er_tensors request)) (er_metadata request)"

definition serve_backward :: "('x::plus, 'v) server_handler \<Rightarrow> string \<Rightarrow> 'x tensor list \<Rightarrow> 'x step_metadata \<Rightarrow> 'x wire list result" where
  "serve_backward sh uid flat_tensors md =
     bindR (check_uids sh uid) (\<lambda>uids.
     bindR (requested_backends sh uids) (\<lambda>bs.
     bindR (get_active_adapter sh md) (\<lambda>ad.
     guardR (md_points md \<noteq> None) AssertionError
     (bindR (run_rpc_backward bs (Some ad) (md_args_structure md) flat_tensors) (\<lambda>grads.
       serialize_grads sh (batch_of flat_tensors) grads md)))))"

definition rpc_backward :: "('x::plus, 'v) server_handler \<Rightarrow> 'x expert_request \<Rightarrow> 'x wire list result" where
  "rpc_backward sh request = serve_backward sh (er_uid request) (map snd (er_tensors request)) (er_metadata request)"

subsection \<open>Streams\<close>

text \<open>A streamed request is a list of messages, each with a part of the tensors. \<open>gather_inputs\<close> keeps the uid
  and the metadata of the first message and rejects a later message with another uid.\<close>

record ('x, 'p) stream_message =
  sm_uid :: string
  sm_parts :: "'p list"
  sm_metadata :: "'x step_metadata"

definition unpack_message ::
    "('x, 'p) stream_message \<Rightarrow> (string \<times> 'x step_metadata) option \<times> 'p list \<Rightarrow> ((string \<times> 'x step_metadata) option \<times> 'p list) result" where
  "unpack_message req st =
     (case st of
        (None, parts) \<Rightarrow> Inr (Some (sm_uid req, sm_metadata req), parts @ sm_parts req)
      | (Some (uid, md), parts) \<Rightarrow> if uid \<noteq> sm_uid req then Inl ValueError else Inr (Some (uid, md), parts @ sm_parts req))"

definition gather_inputs_of ::
    "('p list \<Rightarrow> 'x tensor list result) \<Rightarrow> ('x, 'p) stream_message list \<Rightarrow> (string \<times> 'x tensor list \<times> 'x step_metadata) result" where
  "gather_inputs_of deserialize_tensor_stream requests =
     bindR (foldR unpack_message requests (None, [])) (\<lambda>(header, parts).
     bindR (deserialize_tensor_stream parts) (\<lambda>inputs.
     case header of None \<Rightarrow> Inl AssertionError | Some (uid, md) \<Rightarrow> Inr (uid, inputs, md)))"

definition rpc_forward_stream ::
    "('p list \<Rightarrow> 'x tensor list result) \<Rightarrow> ('x wire \<Rightarrow> 'p list) \<Rightarrow> ('x::plus, 'v) server_handler \<Rightarrow> ('x, 'p) stream_message list \<Rightarrow> 'p list result" where
  "rpc_forward_stream deserialize_tensor_stream split_for_streaming sh requests =
     bindR (gather_inputs_of deserialize_tensor_stream requests) (\<lambda>(uid, inputs, md).
     bindR (serve_forward sh uid inputs md) (\<lambda>outs. Inr (concat (map split_for_streaming outs))))"

definition rpc_backward_stream ::
    "('p list \<Rightarrow> 'x tensor list result) \<Rightarrow> ('x wire \<Rightarrow> 'p list) \<Rightarrow> ('x::plus, 'v) server_handler \<Rightarrow> ('x, 'p) stream_message list \<Rightarrow> 'p list result" where
  "rpc_backward_stream deserialize_tensor_stream split_for_streaming sh requests =
     bindR (gather_inputs_of deserialize_tensor_stream requests) (\<lambda>(uid, inputs, md).
     bindR (serve_backward sh uid inputs md) (\<lambda>outs. Inr (concat (map split_for_streaming outs))))"

subsection \<open>Inference sessions\<close>

text \<open>What \<open>_iterate_inference_steps\<close> waits for: the next message of the client, a pushed request, the timeout of
  a step, or the end of the client's stream.\<close>

datatype 'x arrival = FromClient "'x expert_request" | FromPush "'x expert_request" | TimedOut | StreamError py_error

datatype steps_end = SessionEnded | StillWaiting | StepsRaised py_error

fun iterate_inference_steps ::
    "string list \<Rightarrow> 'x expert_request \<Rightarrow> 'x arrival list \<Rightarrow> 'x expert_request list \<times> steps_end" where
  "iterate_inference_steps processed request arrivals =
     (if er_tensors request = [] then ([], SessionEnded)
      else let step_id = md_step_id (er_metadata request);
               new = (case step_id of None \<Rightarrow> True | Some i \<Rightarrow> i \<notin> set processed);
               yielded = (if new then [request] else []);
               processed' = (case step_id of None \<Rightarrow> processed | Some i \<Rightarrow> if new then processed @ [i] else processed)
           in case arrivals of
                [] \<Rightarrow> (yielded, StillWaiting)
              | TimedOut # _ \<Rightarrow> (yielded, SessionEnded)
              | StreamError e # _ \<Rightarrow> (yielded, StepsRaised e)
              | FromClient r # rest \<Rightarrow> (case iterate_inference_steps processed' r rest of (ys, e) \<Rightarrow> (yielded @ ys, e))
              | FromPush r # rest \<Rightarrow> (case iterate_inference_steps processed' r rest of (ys, e) \<Rightarrow> (yielded @ ys, e)))"

declare iterate_inference_steps.simps [simp del]

text \<open>\<open>_push_outputs\<close>: the request sent to the next server, if there is one. An exception of the call is logged.\<close>

definition push_outputs ::
    "('x, 'v) server_handler \<Rightarrow> 'x expert_request \<Rightarrow> 'x wire \<Rightarrow> 'x step_metadata \<Rightarrow> (peer_id \<times> 'x expert_request) option" where
  "push_outputs sh request serialized_outputs md =
     (case md_next_servers md of
        [] \<Rightarrow> None
      | (next_peer_id, next_session_id, next_start, next_end) # rest_servers \<Rightarrow>
          Some (next_peer_id,
            \<lparr>er_uid = py_join CHAIN_DELIMITER (map (\<lambda>i. sh_dht_prefix sh @ UID_DELIMITER # py_str i) (py_range next_start next_end)),
             er_tensors = serialized_outputs # drop 1 (er_tensors request),
             er_metadata = md\<lparr>md_session_id := Some next_session_id, md_next_servers := rest_servers, md_pushed := True\<rparr>\<rparr>))"

text \<open>The responses of a session, and the pushes: both go through the outputs schema.\<close>

definition step_response :: "('x, 'v) server_handler \<Rightarrow> 'x tensor \<Rightarrow> 'x wire list" where
  "step_response sh out = map (\<lambda>(t, c). (c, t)) (zip [out] (sh_outputs_compression sh))"

definition step_pushes ::
    "('x, 'v) server_handler \<Rightarrow> 'x expert_request \<Rightarrow> 'x tensor \<times> bool \<times> 'x step_metadata \<Rightarrow> (peer_id \<times> 'x expert_request) list" where
  "step_pushes sh request y =
     (case y of (out, can_push, md) \<Rightarrow>
        if can_push
        then (case step_response sh out of
                [] \<Rightarrow> []
              | w # _ \<Rightarrow> (case push_outputs sh request w md of None \<Rightarrow> [] | Some p \<Rightarrow> [p]))
        else [])"

text \<open>\<open>_allocate_cache\<close>: the descriptors of all blocks are allocated at once and the handles grouped by block.\<close>

definition allocate_cache_of ::
    "(tensor_descr list \<Rightarrow> int list result) \<Rightarrow> ('x, 'v) backend list \<Rightarrow> int \<Rightarrow> int \<Rightarrow> int list list result" where
  "allocate_cache_of allocate backends batch_size max_length =
     (let descriptors = map (\<lambda>b. get_inference_cache_descriptors b batch_size max_length) backends in
      bindR (allocate (concat descriptors)) (\<lambda>handles. Inr (regroup (map length descriptors) handles)))"

text \<open>A session: the responses, the pushes in order, and how it ends. \<open>first\<close> is the first message or \<open>None\<close> when the
  client does not send one in time; \<open>store\<close> holds the tensors of the freshly allocated caches.\<close>

definition rpc_inference ::
    "(tensor_descr list \<Rightarrow> int list result) \<Rightarrow> ('x::plus, 'v) server_handler \<Rightarrow> 'x expert_request option \<Rightarrow> 'x arrival list
     \<Rightarrow> (int list list \<Rightarrow> (int, 'v cache_tensor) dict)
     \<Rightarrow> 'x wire list list \<times> (peer_id \<times> 'x expert_request) list \<times> unit result" where
  "rpc_inference allocate sh first arrivals store =
     (case first of
        None \<Rightarrow> ([], [], Inr ())
      | Some request \<Rightarrow>
          (case bindR (check_uids sh (er_uid request)) (\<lambda>uids.
                bindR (requested_backends sh uids) (\<lambda>bs.
                (case md_max_length (er_metadata request) of
                   None \<Rightarrow> Inl AssertionError
                 | Some max_length \<Rightarrow>
                     guardR (md_points (er_metadata request) \<noteq> None) AssertionError
                     (guardR (0 \<le> max_length \<and> max_length \<le> sh_inference_max_length sh) ValueError
                     (bindR (allocate_cache_of allocate bs (batch_of (map snd (er_tensors request))) max_length) (\<lambda>handles.
                      bindR (get_active_adapter sh (er_metadata request)) (\<lambda>ad. Inr (uids, max_length, handles, ad)))))))) of
             Inl e \<Rightarrow> ([], [], Inl e)
           | Inr (uids, max_length, handles, ad) \<Rightarrow>
               (case iterate_inference_steps [] request arrivals of
                  (steps, steps_end) \<Rightarrow>
                    (case iterate_rpc_inference (sh_module_backends sh) uids (Some ad) handles max_length (sh_quant_type sh)
                            (md_args_structure (er_metadata request))
                            (map (\<lambda>r. (map snd (er_tensors r), er_metadata r)) steps) (store handles) of
                       (ys, outcome) \<Rightarrow>
                         (map (\<lambda>(out, _, _). step_response sh out) ys, concat (map (step_pushes sh request) ys),
                          (case outcome of Inl e \<Rightarrow> Inl e
                           | Inr _ \<Rightarrow> (case steps_end of StepsRaised e \<Rightarrow> Inl e | _ \<Rightarrow> Inr ())))))))"

text \<open>\<open>rpc_push\<close> at handler \<open>i\<close>: the request goes to the queue of its session.\<close>

definition rpc_push ::
    "('x, 'v) server_handler \<Rightarrow> nat \<Rightarrow> 'x expert_request \<Rightarrow> 'x expert_request handler_state list \<Rightarrow> 'x expert_request handler_state list result" where
  "rpc_push sh i request handlers =
     bindR (check_uids sh (er_uid request)) (\<lambda>_.
       case md_session_id (er_metadata request) of
         None \<Rightarrow> Inl KeyError
       | Some session_id \<Rightarrow> put_into_session_queue i session_id request handlers)"

subsection \<open>Information\<close>

record 'b info_response =
  ir_version :: string
  ir_client_mode :: bool
  ir_cache_tokens_available :: int
  ir_block_info :: "(string, 'b) dict"

definition rpc_info ::
    "string \<Rightarrow> bool \<Rightarrow> int \<Rightarrow> (('x, 'v) backend \<Rightarrow> (string, 'b) dict) \<Rightarrow> ('x, 'v) server_handler \<Rightarrow> string \<Rightarrow> 'b info_response result" where
  "rpc_info ver client_mode bytes_avail get_info sh uid =
     bindR (if uid \<noteq> [] then dict_item (sh_module_backends sh) uid
            else (case sh_module_backends sh of [] \<Rightarrow> Inl RuntimeError | (_, b) # _ \<Rightarrow> Inr b)) (\<lambda>b.
       let per_token = map snd (bk_cache_bytes_per_token b) in
       if per_token = [] then Inl ValueError
       else if Max (set per_token) = 0 then Inl ZeroDivisionError
       else let info = (if uid \<noteq> [] then get_info b else []) in
         guardR ({''version'', ''dht_client_mode'', ''cache_tokens_available''} \<inter> fst ` set info = {}) RuntimeError
         (Inr \<lparr>ir_version = ver, ir_client_mode = client_mode,
               ir_cache_tokens_available = bytes_avail div Max (set per_token), ir_block_info = info\<rparr>))"

subsection \<open>Checks of the uids\<close>

lemma check_uids_Inr:
  "check_uids sh uids = Inr us \<longleftrightarrow> us = py_split CHAIN_DELIMITER uids \<and> (\<forall>u \<in> set us. dict_get (sh_module_backends sh) u \<noteq> None)"
  by (auto simp: check_uids_def Let_def)

lemma check_uids_Inl:
  "(\<exists>u \<in> set (py_split CHAIN_DELIMITER uids). dict_get (sh_module_backends sh) u = None) \<Longrightarrow> check_uids sh uids = Inl RuntimeError"
  by (auto simp: check_uids_def Let_def)

lemma requested_backends_served:
  "\<forall>u \<in> set us. dict_get (sh_module_backends sh) u \<noteq> None \<Longrightarrow> \<exists>bs. requested_backends sh us = Inr bs"
proof -
  assume served: "\<forall>u \<in> set us. dict_get (sh_module_backends sh) u \<noteq> None"
  have "dict_item (sh_module_backends sh) u = Inr (the (dict_get (sh_module_backends sh) u))" if "u \<in> set us" for u
    using served that by (auto simp: dict_item_def)
  from mapR_total [of us "dict_item (sh_module_backends sh)", OF this] show ?thesis unfolding requested_backends_def by blast
qed

text \<open>Bad requests for an inference session are refused before anything is computed: the session ends with the
  error the code documents for it, without a response and without a push, and whatever the allocation of
  caches would do: unknown blocks, a missing maximal length or number of points, and a maximal length
  outside the range that the server allows.\<close>

theorem rpc_inference_rejects:
  fixes sh :: "('x::plus, 'v) server_handler" and request :: "'x expert_request"
  defines "served \<equiv> \<forall>u \<in> set (py_split CHAIN_DELIMITER (er_uid request)). dict_get (sh_module_backends sh) u \<noteq> None"
  shows "(\<not> served \<longrightarrow> rpc_inference allocate sh (Some request) arrivals store = ([], [], Inl RuntimeError)) \<and>
    (served \<and> md_max_length (er_metadata request) = None \<longrightarrow> rpc_inference allocate sh (Some request) arrivals store = ([], [], Inl AssertionError)) \<and>
    (served \<and> md_max_length (er_metadata request) \<noteq> None \<and> md_points (er_metadata request) = None \<longrightarrow>
       rpc_inference allocate sh (Some request) arrivals store = ([], [], Inl AssertionError)) \<and>
    (served \<and> md_max_length (er_metadata request) = Some m \<and> md_points (er_metadata request) \<noteq> None \<and>
       \<not> (0 \<le> m \<and> m \<le> sh_inference_max_length sh) \<longrightarrow>
       rpc_inference allocate sh (Some request) arrivals store = ([], [], Inl ValueError))"
proof -
  let ?us = "py_split CHAIN_DELIMITER (er_uid request)"
  have "rpc_inference allocate sh (Some request) arrivals store = ([], [], Inl RuntimeError)" if "\<not> served"
  proof -
    have "check_uids sh (er_uid request) = Inl RuntimeError" by (rule check_uids_Inl) (use that in \<open>auto simp: served_def\<close>)
    then show ?thesis by (simp add: rpc_inference_def)
  qed
  moreover have "rpc_inference allocate sh (Some request) arrivals store = ([], [], Inl e)"
    if sv: served and bad: "case md_max_length (er_metadata request) of None \<Rightarrow> e = AssertionError
      | Some m \<Rightarrow> if md_points (er_metadata request) = None then e = AssertionError
                  else \<not> (0 \<le> m \<and> m \<le> sh_inference_max_length sh) \<and> e = ValueError" for e
  proof -
    obtain bs where "check_uids sh (er_uid request) = Inr ?us" "requested_backends sh ?us = Inr bs"
      using requested_backends_served [of ?us sh] check_uids_Inr [of sh "er_uid request" ?us] sv unfolding served_def by blast
    with bad show ?thesis
      by (cases "md_max_length (er_metadata request)") (simp_all add: rpc_inference_def guardR_def split: if_splits)
  qed
  ultimately show ?thesis by (cases "md_max_length (er_metadata request)") simp_all
qed

subsection \<open>Steps of a session\<close>

text \<open>All requests with tensors that reach a session before it ends, in order of arrival.\<close>

fun arrived :: "'x expert_request \<Rightarrow> 'x arrival list \<Rightarrow> 'x expert_request list" where
  "arrived request arrivals =
     (if er_tensors request = [] then []
      else request # (case arrivals of FromClient r # rest \<Rightarrow> arrived r rest | FromPush r # rest \<Rightarrow> arrived r rest | _ \<Rightarrow> []))"

declare arrived.simps [simp del]

abbreviation step_of :: "'x expert_request \<Rightarrow> string option" where
  "step_of r \<equiv> md_step_id (er_metadata r)"

text \<open>The requests of a list whose step id is missing or not seen before.\<close>

fun first_steps :: "string list \<Rightarrow> 'x expert_request list \<Rightarrow> 'x expert_request list" where
  "first_steps seen [] = []"
| "first_steps seen (r # rs) =
     (case step_of r of
        None \<Rightarrow> r # first_steps seen rs
      | Some i \<Rightarrow> if i \<in> set seen then first_steps seen rs else r # first_steps (seen @ [i]) rs)"

lemma iterate_first_steps:
  "fst (iterate_inference_steps processed request arrivals) = first_steps processed (arrived request arrivals)"
proof (induction processed request arrivals rule: iterate_inference_steps.induct)
  case (1 processed request arrivals)
  show ?case
  proof (cases "er_tensors request = []")
    case True
    then show ?thesis by (simp add: iterate_inference_steps.simps arrived.simps)
  next
    case False
    let ?new = "case step_of request of None \<Rightarrow> True | Some i \<Rightarrow> i \<notin> set processed"
    let ?p = "case step_of request of None \<Rightarrow> processed | Some i \<Rightarrow> if ?new then processed @ [i] else processed"
    have cons: "first_steps processed (request # rs) = (if ?new then [request] else []) @ first_steps ?p rs" for rs
      by (auto split: option.splits)
    have run: "fst (iterate_inference_steps processed request (ar # rest)) =
        (if ?new then [request] else []) @ (case ar of FromClient r \<Rightarrow> fst (iterate_inference_steps ?p r rest)
           | FromPush r \<Rightarrow> fst (iterate_inference_steps ?p r rest) | _ \<Rightarrow> [])" for ar rest
      using False by (subst iterate_inference_steps.simps) (simp add: Let_def split_beta split: arrival.splits)
    have arr: "arrived request (ar # rest) = request # (case ar of FromClient r \<Rightarrow> arrived r rest | FromPush r \<Rightarrow> arrived r rest | _ \<Rightarrow> [])" for ar rest
      using False by (subst arrived.simps) (simp split: arrival.splits)
    note IH = 1 [OF False refl refl refl refl]
    show ?thesis
    proof (cases arrivals)
      case Nil
      with False cons [of "[]"] show ?thesis
        by (subst iterate_inference_steps.simps, subst arrived.simps) (simp add: Let_def)
    next
      case (Cons ar rest)
      then show ?thesis
        using IH unfolding Cons run arr cons by (cases ar) simp_all
    qed
  qed
qed

lemma first_steps_facts:
  "distinct (filter (\<lambda>i. i \<noteq> None) (map step_of (first_steps seen rs))) \<and>
   (\<forall>r \<in> set (first_steps seen rs). \<forall>i. step_of r = Some i \<longrightarrow> i \<notin> set seen) \<and>
   subseq (first_steps seen rs) rs \<and>
   (\<forall>r \<in> set rs. r \<in> set (first_steps seen rs) \<or>
      (\<exists>i. step_of r = Some i \<and> (i \<in> set seen \<or> i \<in> {i. \<exists>r' \<in> set (first_steps seen rs). step_of r' = Some i})))"
proof (induction seen rs rule: first_steps.induct)
  case (2 seen r rs)
  show ?case
  proof (cases "step_of r")
    case None
    with 2(1) show ?thesis by auto
  next
    case (Some i)
    show ?thesis
    proof (cases "i \<in> set seen")
      case True
      with 2(2) [OF Some True] Some show ?thesis by (auto intro: list_emb_Cons)
    next
      case False
      note IH = 2(3) [OF Some False]
      have no: "Some i \<notin> set (map step_of (first_steps (seen @ [i]) rs))"
      proof
        assume "Some i \<in> set (map step_of (first_steps (seen @ [i]) rs))"
        then obtain r' where "r' \<in> set (first_steps (seen @ [i]) rs)" "step_of r' = Some i" by (metis (no_types, lifting) imageE list.set_map)
        then show False using IH by auto
      qed
      have eq: "first_steps seen (r # rs) = r # first_steps (seen @ [i]) rs" using Some False by simp
      have "distinct (filter (\<lambda>i. i \<noteq> None) (map step_of (r # first_steps (seen @ [i]) rs)))" using IH no Some by simp
      moreover have "\<forall>r' \<in> set (r # first_steps (seen @ [i]) rs). \<forall>i. step_of r' = Some i \<longrightarrow> i \<notin> set seen" using IH Some False by simp
      moreover have "subseq (r # first_steps (seen @ [i]) rs) (r # rs)" using IH by simp
      ultimately show ?thesis using IH Some unfolding eq by auto
    qed
  qed
qed simp

text \<open>Every step of a session is computed once: of all requests that reach the session, from the client or
  pushed by the previous server, in whatever order, the first of every step id is computed, in order of
  arrival, and no step id twice.\<close>

theorem steps_once:
  "let ys = fst (iterate_inference_steps [] request arrivals) in
    subseq ys (arrived request arrivals) \<and> distinct (filter (\<lambda>i. i \<noteq> None) (map step_of ys)) \<and>
    (\<forall>r \<in> set (arrived request arrivals). r \<in> set ys \<or> (\<exists>r' \<in> set ys. step_of r' = step_of r \<and> step_of r \<noteq> None))"
proof -
  note facts = first_steps_facts [of "[]" "arrived request arrivals"]
  have "r \<in> set (first_steps [] (arrived request arrivals)) \<or>
      (\<exists>r' \<in> set (first_steps [] (arrived request arrivals)). step_of r' = step_of r \<and> step_of r \<noteq> None)"
    if "r \<in> set (arrived request arrivals)" for r
    using facts that by fastforce
  with facts show ?thesis unfolding Let_def iterate_first_steps by blast
qed

subsection \<open>Pushes\<close>

text \<open>Every push of a session carries, after the new activations, the tensors of the \<^emph>\<open>first\<close> request of the session:
  not the hypothesis ids of the step it belongs to.\<close>

theorem push_uses_first_request:
  assumes "rpc_inference allocate sh (Some request) arrivals store = (responses, pushes, outcome)" and "(peer, rq) \<in> set pushes"
  shows "drop 1 (er_tensors rq) = drop 1 (er_tensors request)"
proof -
  have push: "drop 1 (er_tensors rq') = drop 1 (er_tensors request)" if "push_outputs sh request w md = Some (peer', rq')" for w md peer' rq'
    using that by (cases "md_next_servers md"; cases "hd (md_next_servers md)") (auto simp: push_outputs_def)
  have one: "drop 1 (er_tensors rq') = drop 1 (er_tensors request)" if mem: "(peer', rq') \<in> set (step_pushes sh request y)" for y peer' rq'
  proof -
    obtain out can_push md where y: "y = (out, can_push, md)" by (cases y)
    show ?thesis
    proof (cases "step_response sh out")
      case Nil
      with mem y show ?thesis by (cases can_push) (simp_all add: step_pushes_def)
    next
      case (Cons w ws)
      then have "push_outputs sh request w md = Some (peer', rq')"
        using mem y by (cases can_push; cases "push_outputs sh request w md") (simp_all add: step_pushes_def)
      then show ?thesis by (rule push)
    qed
  qed
  have "pushes = [] \<or> (\<exists>ys. pushes = concat (map (step_pushes sh request) ys))"
    using assms(1) unfolding rpc_inference_def by (auto split: sum.splits prod.splits)
  with assms(2) one show ?thesis by auto
qed

subsection \<open>Streams and single messages\<close>

lemma gather_same_uid:
  assumes "\<forall>m \<in> set ms. sm_uid m = sm_uid first"
  shows "foldR unpack_message ms (Some (sm_uid first, sm_metadata first), parts) =
    Inr (Some (sm_uid first, sm_metadata first), parts @ concat (map sm_parts ms))"
  using assms by (induction ms arbitrary: parts) (simp_all add: unpack_message_def)

text \<open>A streamed forward request is answered like the request in one message whose tensors it carries.\<close>

theorem forward_stream_agrees:
  assumes "\<forall>m \<in> set ms. sm_uid m = sm_uid first"
    and "deserialize_tensor_stream (sm_parts first @ concat (map sm_parts ms)) = Inr (map snd (er_tensors request))"
    and "er_uid request = sm_uid first" and "er_metadata request = sm_metadata first"
  shows "rpc_forward_stream deserialize_tensor_stream split_for_streaming sh (first # ms) =
      bindR (rpc_forward sh request) (\<lambda>outs. Inr (concat (map split_for_streaming outs)))"
    and "rpc_backward_stream deserialize_tensor_stream split_for_streaming sh (first # ms) =
      bindR (rpc_backward sh request) (\<lambda>outs. Inr (concat (map split_for_streaming outs)))"
proof -
  have "gather_inputs_of deserialize_tensor_stream (first # ms) = Inr (er_uid request, map snd (er_tensors request), er_metadata request)"
    using assms gather_same_uid [OF assms(1), of "sm_parts first"]
    by (simp add: gather_inputs_of_def unpack_message_def [of first])
  then show "rpc_forward_stream deserialize_tensor_stream split_for_streaming sh (first # ms) =
      bindR (rpc_forward sh request) (\<lambda>outs. Inr (concat (map split_for_streaming outs)))"
    and "rpc_backward_stream deserialize_tensor_stream split_for_streaming sh (first # ms) =
      bindR (rpc_backward sh request) (\<lambda>outs. Inr (concat (map split_for_streaming outs)))"
    by (simp_all add: rpc_forward_stream_def rpc_forward_def rpc_backward_stream_def rpc_backward_def)
qed

subsection \<open>An example\<close>

definition demo_metadata :: "int step_metadata" where
  "demo_metadata = \<lparr>md_session_id = Some ''s'', md_step_id = Some ''a'', md_max_length = Some 99, md_points = Some 0, md_alloc_timeout = 0,
     md_args_structure = None, md_active_adapter = [], md_next_servers = [], md_pushed = False, md_output_compression = None\<rparr>"

definition demo_handler :: "(int, int) server_handler" where
  "demo_handler = \<lparr>sh_module_backends = [(''m.0'', demo_backend)], sh_adapters = [], sh_dht_prefix = ''m'', sh_inference_max_length = 10,
     sh_quant_type = NONE, sh_outputs_compression = [0], sh_grads_compression = 0\<rparr>"

definition demo_request :: "int expert_request" where
  "demo_request = \<lparr>er_uid = ''m.0'', er_tensors = [(0, Hidden 1 [1]), (0, Dummy), (0, Ids [])], er_metadata = demo_metadata\<rparr>"

theorem rpc_inference_rejects_witness:
  "rpc_inference (\<lambda>_. Inr [0, 1]) demo_handler (Some demo_request) [] (\<lambda>_. []) = ([], [], Inl ValueError) \<and>
   rpc_inference (\<lambda>_. Inr [0, 1]) demo_handler (Some (demo_request\<lparr>er_uid := ''m.7''\<rparr>)) [] (\<lambda>_. []) = ([], [], Inl RuntimeError)"
proof -
  have "\<forall>u \<in> set (py_split CHAIN_DELIMITER (er_uid demo_request)). dict_get (sh_module_backends demo_handler) u \<noteq> None"
    "\<not> (\<forall>u \<in> set (py_split CHAIN_DELIMITER (er_uid (demo_request\<lparr>er_uid := ''m.7''\<rparr>))). dict_get (sh_module_backends demo_handler) u \<noteq> None)"
    by (simp_all add: demo_request_def demo_handler_def CHAIN_DELIMITER_def)
  moreover have "md_max_length (er_metadata demo_request) = Some 99" "md_points (er_metadata demo_request) \<noteq> None" "sh_inference_max_length demo_handler = 10"
    by (simp_all add: demo_request_def demo_metadata_def demo_handler_def)
  ultimately show ?thesis
    using rpc_inference_rejects [of demo_request demo_handler "\<lambda>_. Inr [0, 1]" "[]" "\<lambda>_. []" 99]
      rpc_inference_rejects [of "demo_request\<lparr>er_uid := ''m.7''\<rparr>" demo_handler "\<lambda>_. Inr [0, 1]" "[]" "\<lambda>_. []" 99] by simp
qed

theorem steps_once_witness:
  "fst (iterate_inference_steps [] demo_request [FromPush demo_request, TimedOut]) = [demo_request] \<and>
   distinct (filter (\<lambda>i. i \<noteq> None) (map step_of (fst (iterate_inference_steps [] demo_request [FromPush demo_request, TimedOut]))))"
proof
  show "fst (iterate_inference_steps [] demo_request [FromPush demo_request, TimedOut]) = [demo_request]"
    by (simp add: iterate_inference_steps.simps demo_request_def demo_metadata_def)
  show "distinct (filter (\<lambda>i. i \<noteq> None) (map step_of (fst (iterate_inference_steps [] demo_request [FromPush demo_request, TimedOut]))))"
    using steps_once [of demo_request "[FromPush demo_request, TimedOut]"] by (simp only: Let_def)
qed

end
