(* ===== verification/Remote_Calls.thy ===== *)
theory Remote_Calls
  imports Handler
begin

text \<open>
  \<open>src/peerz/client/remote_forward_backward.py\<close>: the client side of forward and backward calls. A request goes in one
  message when it is small and as a stream of parts otherwise. The remote procedures, the splitting and
  joining of tensor streams and the sizes of tensors are parameters; the tensors of a call are serialized
  with the compression of the server's first argument.
\<close>

record rpc_schema =
  ri_keyword_names :: "string list"
  ri_args_schema :: "int list"          \<comment> \<open>compression of each argument\<close>
  ri_outputs_schema :: "int list"

definition forward_unary ::
    "('x expert_request \<Rightarrow> 'x wire list result) \<Rightarrow> string \<Rightarrow> 'x wire list \<Rightarrow> 'x step_metadata \<Rightarrow> 'x tensor list result" where
  "forward_unary rpc uid serialized_tensors metadata =
     bindR (rpc \<lparr>er_uid = uid, er_tensors = serialized_tensors, er_metadata = metadata\<rparr>) (\<lambda>outputs. Inr (map snd outputs))"

definition backward_unary ::
    "('x expert_request \<Rightarrow> 'x wire list result) \<Rightarrow> string \<Rightarrow> 'x wire list \<Rightarrow> 'x step_metadata \<Rightarrow> 'x tensor list result" where
  "backward_unary rpc uid serialized_tensors metadata =
     bindR (rpc \<lparr>er_uid = uid, er_tensors = serialized_tensors, er_metadata = metadata\<rparr>) (\<lambda>grad_inputs. Inr (map snd grad_inputs))"

definition stream_parts :: "('x wire \<Rightarrow> 'p list) \<Rightarrow> string \<Rightarrow> 'x wire list \<Rightarrow> 'x step_metadata \<Rightarrow> ('x, 'p) stream_message list" where
  "stream_parts split_for_streaming uid serialized_tensors metadata =
     concat (map (\<lambda>t. map (\<lambda>part. \<lparr>sm_uid = uid, sm_parts = [part], sm_metadata = metadata\<rparr>) (split_for_streaming t)) serialized_tensors)"

definition forward_stream ::
    "('p list \<Rightarrow> 'x tensor list result) \<Rightarrow> ('x wire \<Rightarrow> 'p list) \<Rightarrow> (('x, 'p) stream_message list \<Rightarrow> 'p list result)
     \<Rightarrow> string \<Rightarrow> 'x wire list \<Rightarrow> 'x step_metadata \<Rightarrow> 'x tensor list result" where
  "forward_stream deserialize_tensor_stream split_for_streaming rpc uid serialized_tensors metadata =
     bindR (rpc (stream_parts split_for_streaming uid serialized_tensors metadata)) deserialize_tensor_stream"

definition backward_stream ::
    "('p list \<Rightarrow> 'x tensor list result) \<Rightarrow> ('x wire \<Rightarrow> 'p list) \<Rightarrow> (('x, 'p) stream_message list \<Rightarrow> 'p list result)
     \<Rightarrow> string \<Rightarrow> 'x wire list \<Rightarrow> 'x step_metadata \<Rightarrow> 'x tensor list result" where
  "backward_stream deserialize_tensor_stream split_for_streaming rpc uid serialized_tensors metadata =
     bindR (rpc (stream_parts split_for_streaming uid serialized_tensors metadata)) deserialize_tensor_stream"

record ('x, 'p) remote_stub =
  st_unary :: "'x expert_request \<Rightarrow> 'x wire list result"
  st_stream :: "('x, 'p) stream_message list \<Rightarrow> 'p list result"
  st_split :: "'x wire \<Rightarrow> 'p list"
  st_join :: "'p list \<Rightarrow> 'x tensor list result"

definition run_remote_forward ::
    "('x tensor \<Rightarrow> int) \<Rightarrow> int \<Rightarrow> ('x, 'p) remote_stub \<Rightarrow> rpc_schema \<Rightarrow> string \<Rightarrow> 'x step_metadata \<Rightarrow> 'x tensor list \<Rightarrow> 'x tensor list result" where
  "run_remote_forward bytes_of max_unary_payload_size stub schema uid metadata inputs =
     guardR (ri_keyword_names schema = []) AssertionError
     (bindR (py_index (ri_args_schema schema) 0) (\<lambda>compression.
      guardR (length inputs \<ge> length (ri_args_schema schema) + 1) AssertionError
      (let serialized_tensors = map (\<lambda>t. (compression, t)) inputs; sz = sum_list (map bytes_of inputs) in
       if sz > max_unary_payload_size div 2
       then forward_stream (st_join stub) (st_split stub) (st_stream stub) uid serialized_tensors metadata
       else forward_unary (st_unary stub) uid serialized_tensors metadata)))"

definition run_remote_backward ::
    "('x tensor \<Rightarrow> int) \<Rightarrow> int \<Rightarrow> ('x, 'p) remote_stub \<Rightarrow> rpc_schema \<Rightarrow> string \<Rightarrow> 'x step_metadata \<Rightarrow> 'x tensor list \<Rightarrow> 'x tensor list result" where
  "run_remote_backward bytes_of max_unary_payload_size stub schema uid metadata inputs_and_grad_outputs =
     bindR (py_index (ri_args_schema schema) 0) (\<lambda>compression.
      guardR (length inputs_and_grad_outputs \<ge> length (ri_args_schema schema) + length (ri_outputs_schema schema) + 1) AssertionError
      (let serialized_tensors = map (\<lambda>t. (compression, t)) inputs_and_grad_outputs; sz = sum_list (map bytes_of inputs_and_grad_outputs) in
       if sz > max_unary_payload_size div 2
       then backward_stream (st_join stub) (st_split stub) (st_stream stub) uid serialized_tensors metadata
       else backward_unary (st_unary stub) uid serialized_tensors metadata))"

subsection \<open>Streams and single messages give the same result\<close>

text \<open>hivemind's stream functions: joining the parts of any tensors gives the tensors back, and a tensor has at
  least one part.\<close>

definition stream_laws :: "('p list \<Rightarrow> 'x tensor list result) \<Rightarrow> ('x wire \<Rightarrow> 'p list) \<Rightarrow> bool" where
  "stream_laws join split \<longleftrightarrow> (\<forall>ws. join (concat (map split ws)) = Inr (map snd ws)) \<and> (\<forall>w. split w \<noteq> [])"

lemma stream_parts_facts:
  "concat (map sm_parts (stream_parts split uid ws md)) = concat (map split ws)"
  "m \<in> set (stream_parts split uid ws md) \<Longrightarrow> sm_uid m = uid \<and> sm_metadata m = md"
  by (induction ws) (auto simp: stream_parts_def comp_def)

lemma streamed_call:
  assumes laws: "stream_laws join split" and ws: "ws \<noteq> []"
    and agrees: "\<And>first ms request. \<forall>m \<in> set ms. sm_uid m = sm_uid first \<Longrightarrow>
      join (sm_parts first @ concat (map sm_parts ms)) = Inr (map snd (er_tensors request)) \<Longrightarrow>
      er_uid request = sm_uid first \<Longrightarrow> er_metadata request = sm_metadata first \<Longrightarrow>
      stream (first # ms) = bindR (unary request) (\<lambda>outs. Inr (concat (map split outs)))"
  shows "bindR (stream (stream_parts split uid ws md)) join =
    bindR (unary \<lparr>er_uid = uid, er_tensors = ws, er_metadata = md\<rparr>) (\<lambda>outs. Inr (map snd outs))"
proof -
  have "stream_parts split uid ws md \<noteq> []"
    using laws ws by (cases ws) (auto simp: stream_parts_def stream_laws_def)
  then obtain first ms where parts: "stream_parts split uid ws md = first # ms" by (cases "stream_parts split uid ws md") auto
  note all = stream_parts_facts(2) [of _ split uid ws md, unfolded parts]
  have "stream (first # ms) = bindR (unary \<lparr>er_uid = uid, er_tensors = ws, er_metadata = md\<rparr>) (\<lambda>outs. Inr (concat (map split outs)))"
  proof (rule agrees)
    show "join (sm_parts first @ concat (map sm_parts ms)) = Inr (map snd (er_tensors \<lparr>er_uid = uid, er_tensors = ws, er_metadata = md\<rparr>))"
      using stream_parts_facts(1) [of split uid ws md] laws by (simp add: parts stream_laws_def)
  qed (use all in auto)
  with laws show ?thesis by (simp add: parts bindR_assoc stream_laws_def)
qed

text \<open>The size of a call does not matter: for every limit on the size of a single message, a forward and a
  backward call to a server give the same tensors or the same exception, whether the request and the
  response travel in one message or as streams of parts.\<close>

theorem transport_irrelevant:
  fixes sh :: "('x::plus, 'v) server_handler"
  assumes "stream_laws join split"
  defines "fstub \<equiv> \<lparr>st_unary = rpc_forward sh, st_stream = rpc_forward_stream join split sh, st_split = split, st_join = join\<rparr>"
    and "bstub \<equiv> \<lparr>st_unary = rpc_backward sh, st_stream = rpc_backward_stream join split sh, st_split = split, st_join = join\<rparr>"
  shows "run_remote_forward bytes_of limit fstub schema uid md inputs = run_remote_forward bytes_of limit' fstub schema uid md inputs \<and>
    run_remote_backward bytes_of limit bstub schema uid md inputs = run_remote_backward bytes_of limit' bstub schema uid md inputs"
proof -
  have fwd: "forward_stream join split (rpc_forward_stream join split sh) uid ws md = forward_unary (rpc_forward sh) uid ws md" if "ws \<noteq> []" for ws
    unfolding forward_stream_def forward_unary_def by (rule streamed_call [OF assms(1) that]) (rule forward_stream_agrees(1))
  have bwd: "backward_stream join split (rpc_backward_stream join split sh) uid ws md = backward_unary (rpc_backward sh) uid ws md" if "ws \<noteq> []" for ws
    unfolding backward_stream_def backward_unary_def by (rule streamed_call [OF assms(1) that]) (rule forward_stream_agrees(2))
  have "run_remote_forward bytes_of limit fstub schema uid md inputs = run_remote_forward bytes_of limit' fstub schema uid md inputs"
    unfolding run_remote_forward_def fstub_def by (cases inputs) (simp_all add: fwd Let_def guardR_def cong: if_cong)
  moreover have "run_remote_backward bytes_of limit bstub schema uid md inputs = run_remote_backward bytes_of limit' bstub schema uid md inputs"
    unfolding run_remote_backward_def bstub_def by (cases inputs) (simp_all add: bwd Let_def guardR_def cong: if_cong)
  ultimately show ?thesis ..
qed

definition demo_schema :: rpc_schema where
  "demo_schema = \<lparr>ri_keyword_names = [], ri_args_schema = [0], ri_outputs_schema = [0]\<rparr>"

definition whole_split :: "int wire \<Rightarrow> int wire list" where
  "whole_split w = [w]"

definition whole_join :: "int wire list \<Rightarrow> int tensor list result" where
  "whole_join ws = Inr (map snd ws)"

theorem transport_irrelevant_witness:
  "run_remote_forward (\<lambda>_. 100) 10 \<lparr>st_unary = rpc_forward demo_handler, st_stream = rpc_forward_stream whole_join whole_split demo_handler,
      st_split = whole_split, st_join = whole_join\<rparr> demo_schema ''m.0'' demo_metadata [Hidden 1 [1, 2], Dummy] =
   run_remote_forward (\<lambda>_. 100) 1000 \<lparr>st_unary = rpc_forward demo_handler, st_stream = rpc_forward_stream whole_join whole_split demo_handler,
      st_split = whole_split, st_join = whole_join\<rparr> demo_schema ''m.0'' demo_metadata [Hidden 1 [1, 2], Dummy]"
proof -
  have "concat (map whole_split ws) = ws" for ws by (induction ws) (simp_all add: whole_split_def)
  then have "stream_laws whole_join whole_split" by (simp add: stream_laws_def whole_join_def whole_split_def)
  from transport_irrelevant [OF this] show ?thesis by blast
qed

end
