(* ===== verification/Sequential_Autograd.thy ===== *)
theory Sequential_Autograd
  imports Sequence_Manager
begin

text \<open>
  \<open>src/peerz/client/sequential_autograd.py\<close>: forward and backward passes through a chain of remote servers,
  with retries. Routing and remote calls are parameters that act on a world state, as in the inference
  session; they may fail at any call. Both loops over attempts are \<open>partial_function (option)\<close>. The gradients
  of the prompts of a span are lists with one entry per block. The lemmas show that the loops end when the
  number of retries is bounded, and that failures, retries and new routes in the middle of a pass never
  change the value that is returned.
\<close>

subsection \<open>State\<close>

record ('w, 'x, 'p) autograd_env =
  ae_make_sequence :: "int \<Rightarrow> int \<Rightarrow> 'w \<Rightarrow> remote_span_info list result \<times> 'w"
  ae_forward :: "remote_span_info \<Rightarrow> string \<Rightarrow> 'x \<Rightarrow> 'w \<Rightarrow> 'x result \<times> 'w"
  ae_backward :: "remote_span_info \<Rightarrow> string \<Rightarrow> 'x \<Rightarrow> 'x \<Rightarrow> 'w \<Rightarrow> ('x \<times> 'p list option) result \<times> 'w"
  ae_on_success :: "peer_id \<Rightarrow> 'w \<Rightarrow> 'w"
  ae_on_failure :: "peer_id option \<Rightarrow> 'w \<Rightarrow> 'w"
  ae_same_shape :: "'x \<Rightarrow> 'x \<Rightarrow> bool"
  ae_block_uids :: "module_uid list"
  ae_max_retries :: "int option"

definition span_uids :: "('w, 'x, 'p) autograd_env \<Rightarrow> remote_span_info \<Rightarrow> string" where
  "span_uids env sp = chain_uids (py_slice (ae_block_uids env) (rs_start sp) (rs_end sp))"

text \<open>The route found by \<open>make_sequence\<close>, its last span cut at the end of the range.\<close>

definition cut_route :: "int \<Rightarrow> remote_span_info list \<Rightarrow> remote_span_info list" where
  "cut_route end_index route = butlast route @ [(last route)\<lparr>rs_end := min (rs_end (last route)) end_index\<rparr>]"

subsection \<open>Forward\<close>

text \<open>One attempt: the span that was tried (if any) with the result, the rest of the route, and the world.\<close>

definition forward_attempt ::
    "('w, 'x, 'p) autograd_env \<Rightarrow> int \<Rightarrow> int \<Rightarrow> nat \<Rightarrow> 'x \<Rightarrow> remote_span_info list \<Rightarrow> 'w
     \<Rightarrow> ((remote_span_info option \<times> py_error) + remote_span_info \<times> 'x) \<times> remote_span_info list \<times> 'w" where
  "forward_attempt env block_idx end_index attempt_no inputs sequences w =
     (case (if sequences = [] \<or> attempt_no \<ge> 1
            then (case ae_make_sequence env block_idx end_index w of
                    (Inl e, w') \<Rightarrow> (Inl e, w')
                  | (Inr route, w') \<Rightarrow> (if route = [] then Inl IndexError else Inr (cut_route end_index route), w'))
            else (Inr sequences, w)) of
        (Inl e, w1) \<Rightarrow> (Inl (None, e), sequences, w1)
      | (Inr route, w1) \<Rightarrow>
          (case route of
             [] \<Rightarrow> (Inl (None, IndexError), [], w1)
           | sp # rest \<Rightarrow>
               (case ae_forward env sp (span_uids env sp) inputs w1 of
                  (Inl e, w2) \<Rightarrow> (Inl (Some sp, e), rest, w2)
                | (Inr outputs, w2) \<Rightarrow>
                    if ae_same_shape env outputs inputs then (Inr (sp, outputs), rest, w2)
                    else (Inl (Some sp, AssertionError), rest, w2))))"

text \<open>The two loops; the accumulators are the inputs of the spans passed so far, and these spans.\<close>

partial_function (option) forward_loop ::
    "('w, 'x, 'p) autograd_env \<Rightarrow> int \<Rightarrow> int \<Rightarrow> nat \<Rightarrow> 'x \<Rightarrow> remote_span_info list \<Rightarrow> 'x list \<Rightarrow> remote_span_info list \<Rightarrow> 'w
     \<Rightarrow> (('x \<times> 'x list \<times> remote_span_info list) result \<times> 'w) option" where
  "forward_loop env block_idx end_index attempt_no inputs sequences intermediate_inputs done_sequences w =
     (if block_idx \<ge> end_index then Some (Inr (inputs, intermediate_inputs, done_sequences), w)
      else case forward_attempt env block_idx end_index attempt_no inputs sequences w of
             (Inr (sp, outputs), rest, w') \<Rightarrow>
               forward_loop env (rs_end sp) end_index 0 outputs rest (intermediate_inputs @ [inputs]) (done_sequences @ [sp])
                 (ae_on_success env (rs_peer sp) w')
           | (Inl (sp, e), rest, w') \<Rightarrow>
               (let w'' = ae_on_failure env (map_option rs_peer sp) w' in
                if ae_max_retries env = Some (int attempt_no + 1) then Some (Inl e, w'')
                else forward_loop env block_idx end_index (Suc attempt_no) inputs rest intermediate_inputs done_sequences w''))"

text \<open>\<open>prompts_ok\<close>: the prompts are a dummy or there is one per block.\<close>

definition sequential_forward ::
    "('w, 'x, 'p) autograd_env \<Rightarrow> bool \<Rightarrow> int \<Rightarrow> int option \<Rightarrow> 'x \<Rightarrow> 'w
     \<Rightarrow> (('x \<times> 'x list \<times> remote_span_info list) result \<times> 'w) option" where
  "sequential_forward env prompts_ok start_index end_index inputs w =
     (let n = int (length (ae_block_uids env)); e = (case end_index of None \<Rightarrow> n | Some e \<Rightarrow> e) in
      if \<not> (start_index \<ge> 0 \<and> e \<le> n) \<or> \<not> prompts_ok then Some (Inl AssertionError, w)
      else forward_loop env start_index e 0 inputs [] [] [] w)"

subsection \<open>Backward\<close>

text \<open>One attempt at a span: after a failure the span is passed forward again, on a new route, and the last
  of the new spans is tried. The result carries the inputs and spans that are left on the stacks.\<close>

definition backward_attempt ::
    "('w, 'x, 'p) autograd_env \<Rightarrow> nat \<Rightarrow> 'x \<Rightarrow> remote_span_info \<Rightarrow> 'x \<Rightarrow> 'x list \<Rightarrow> remote_span_info list \<Rightarrow> 'w
     \<Rightarrow> ((py_error + 'x \<times> 'p list option) \<times> 'x \<times> remote_span_info \<times> 'x list \<times> remote_span_info list \<times> 'w) option" where
  "backward_attempt env attempt_no inputs sp grad_outputs intermediate_inputs forward_sequences w =
     (case (if attempt_no \<ge> 1
            then (case sequential_forward env True (rs_start sp) (Some (rs_end sp)) inputs w of
                    None \<Rightarrow> None
                  | Some (Inl e, w') \<Rightarrow> Some (Inl e, w')
                  | Some (Inr (_, backup_inputs, backup_sequences), w') \<Rightarrow>
                      Some (if length backup_inputs \<noteq> length backup_sequences then Inl AssertionError
                            else if backup_sequences = [] then Inl IndexError
                            else if rs_start (hd backup_sequences) \<noteq> rs_start sp then Inl AssertionError
                            else if rs_end (last backup_sequences) \<noteq> rs_end sp then Inl AssertionError
                            else Inr (intermediate_inputs @ backup_inputs, forward_sequences @ backup_sequences), w'))
            else Some (Inr (intermediate_inputs @ [inputs], forward_sequences @ [sp]), w)) of
        None \<Rightarrow> None
      | Some (Inl e, w1) \<Rightarrow> Some (Inl e, inputs, sp, intermediate_inputs, forward_sequences, w1)
      | Some (Inr (ins, spans), w1) \<Rightarrow>
          (let inputs' = last ins; sp' = last spans in
           case ae_backward env sp' (span_uids env sp') inputs' grad_outputs w1 of
             (r, w2) \<Rightarrow> Some (r, inputs', sp', butlast ins, butlast spans, w2)))"

partial_function (option) backward_span ::
    "('w, 'x, 'p) autograd_env \<Rightarrow> nat \<Rightarrow> 'x \<Rightarrow> remote_span_info \<Rightarrow> 'x \<Rightarrow> 'x list \<Rightarrow> remote_span_info list \<Rightarrow> 'w
     \<Rightarrow> (('x \<times> 'p list option) result \<times> 'x list \<times> remote_span_info list \<times> 'w) option" where
  "backward_span env attempt_no inputs sp grad_outputs intermediate_inputs forward_sequences w =
     (case backward_attempt env attempt_no inputs sp grad_outputs intermediate_inputs forward_sequences w of
        None \<Rightarrow> None
      | Some (Inr g, inputs', sp', ins, spans, w') \<Rightarrow> Some (Inr g, ins, spans, ae_on_success env (rs_peer sp') w')
      | Some (Inl e, inputs', sp', ins, spans, w') \<Rightarrow>
          (let w'' = ae_on_failure env (Some (rs_peer sp')) w' in
           if ae_max_retries env = Some (int attempt_no + 1) then Some (Inl e, ins, spans, w'')
           else backward_span env (Suc attempt_no) inputs' sp' grad_outputs ins spans w''))"

partial_function (option) backward_loop ::
    "('w, 'x, 'p) autograd_env \<Rightarrow> 'x \<Rightarrow> 'p list list \<Rightarrow> 'x list \<Rightarrow> remote_span_info list \<Rightarrow> 'w
     \<Rightarrow> (('x \<times> 'p list option) result \<times> 'w) option" where
  "backward_loop env grad_outputs grad_prompts_reversed intermediate_inputs forward_sequences w =
     (if forward_sequences = [] \<or> intermediate_inputs = []
      then Some (Inr (grad_outputs, if grad_prompts_reversed = [] then None else Some (concat (rev grad_prompts_reversed))), w)
      else case backward_span env 0 (last intermediate_inputs) (last forward_sequences) grad_outputs
                  (butlast intermediate_inputs) (butlast forward_sequences) w of
             None \<Rightarrow> None
           | Some (Inl e, _, _, w') \<Rightarrow> Some (Inl e, w')
           | Some (Inr (grad, span_grad_prompts), ins, spans, w') \<Rightarrow>
               backward_loop env grad (grad_prompts_reversed @ (case span_grad_prompts of None \<Rightarrow> [] | Some p \<Rightarrow> [p])) ins spans w')"

definition sequential_backward ::
    "('w, 'x, 'p) autograd_env \<Rightarrow> 'x \<Rightarrow> 'x list \<Rightarrow> remote_span_info list \<Rightarrow> 'w \<Rightarrow> (('x \<times> 'p list option) result \<times> 'w) option" where
  "sequential_backward env grad_outputs intermediate_inputs forward_sequences w =
     (if length intermediate_inputs \<noteq> length forward_sequences then Some (Inl AssertionError, w)
      else backward_loop env grad_outputs [] intermediate_inputs forward_sequences w)"

subsection \<open>Servers that may fail but do not lie\<close>

text \<open>Blocks \<open>a\<close> to \<open>b\<close> as a function, with the gradients of their inputs and of their prompts; the chain rule.\<close>

definition chain_rule ::
    "(int \<Rightarrow> int \<Rightarrow> 'x \<Rightarrow> 'x) \<Rightarrow> (int \<Rightarrow> int \<Rightarrow> 'x \<Rightarrow> 'x \<Rightarrow> 'x) \<Rightarrow> (int \<Rightarrow> int \<Rightarrow> 'x \<Rightarrow> 'x \<Rightarrow> 'p list) \<Rightarrow> bool" where
  "chain_rule blocks grads pgrads \<longleftrightarrow>
     (\<forall>a x g. blocks a a x = x \<and> grads a a x g = g \<and> pgrads a a x g = []) \<and>
     (\<forall>a b c x g. a \<le> b \<and> b \<le> c \<longrightarrow>
        blocks b c (blocks a b x) = blocks a c x \<and>
        grads a b x (grads b c (blocks a b x) g) = grads a c x g \<and>
        pgrads a b x (grads b c (blocks a b x) g) @ pgrads b c (blocks a b x) g = pgrads a c x g)"

text \<open>A route that covers the blocks from \<open>b\<close> to \<open>e\<close> and may run over the end with its last span.\<close>

definition covering :: "int \<Rightarrow> int \<Rightarrow> remote_span_info list \<Rightarrow> bool" where
  "covering b e route \<longleftrightarrow> route \<noteq> [] \<and>
     (\<exists>e'. contiguous b route e' \<and> e \<le> e') \<and> (\<forall>sp \<in> set (butlast route). rs_end sp < e)"

definition honest ::
    "('w, 'x, 'p) autograd_env \<Rightarrow> bool \<Rightarrow> (int \<Rightarrow> int \<Rightarrow> 'x \<Rightarrow> 'x) \<Rightarrow> (int \<Rightarrow> int \<Rightarrow> 'x \<Rightarrow> 'x \<Rightarrow> 'x) \<Rightarrow> (int \<Rightarrow> int \<Rightarrow> 'x \<Rightarrow> 'x \<Rightarrow> 'p list) \<Rightarrow> bool" where
  "honest env has_prompts blocks grads pgrads \<longleftrightarrow>
     (\<forall>b e w route w'. b < e \<and> ae_make_sequence env b e w = (Inr route, w') \<longrightarrow> covering b e route) \<and>
     (\<forall>sp uid x w y w'. ae_forward env sp uid x w = (Inr y, w') \<longrightarrow> y = blocks (rs_start sp) (rs_end sp) x) \<and>
     (\<forall>sp uid x g w g' pg w'. ae_backward env sp uid x g w = (Inr (g', pg), w') \<longrightarrow>
        g' = grads (rs_start sp) (rs_end sp) x g \<and>
        pg = (if has_prompts then Some (pgrads (rs_start sp) (rs_end sp) x g) else None))"

text \<open>Servers that always answer.\<close>

definition reliable :: "('w, 'x, 'p) autograd_env \<Rightarrow> bool" where
  "reliable env \<longleftrightarrow>
     (\<forall>b e w. b < e \<longrightarrow> \<not> isl (fst (ae_make_sequence env b e w))) \<and>
     (\<forall>sp uid x w. \<exists>y w'. ae_forward env sp uid x w = (Inr y, w') \<and> ae_same_shape env y x) \<and>
     (\<forall>sp uid x g w. \<not> isl (fst (ae_backward env sp uid x g w)))"

lemma contiguous_snoc: "contiguous a (route @ [sp]) b \<longleftrightarrow> contiguous a route (rs_start sp) \<and> rs_start sp < rs_end sp \<and> rs_end sp = b"
  by (induction a route b rule: contiguous.induct) auto

lemma contiguous_append: "contiguous a r1 b \<Longrightarrow> contiguous b r2 c \<Longrightarrow> contiguous a (r1 @ r2) c"
  by (induction a r1 b rule: contiguous.induct) auto

lemma cut_covering:
  assumes "covering b e route" "b < e"
  shows "contiguous b (cut_route e route) e"
proof -
  from assms(1) obtain e' where e': "contiguous b route e'" "e \<le> e'" and ne: "route \<noteq> []" and cut: "\<forall>sp \<in> set (butlast route). rs_end sp < e"
    by (auto simp: covering_def)
  have route: "route = butlast route @ [last route]" using ne by simp
  then have parts: "contiguous b (butlast route) (rs_start (last route))" "rs_end (last route) = e'" using e'(1) by (metis contiguous_snoc)+
  have "rs_start (last route) < e"
  proof (cases "butlast route = []")
    case True
    with parts(1) assms(2) show ?thesis by simp
  next
    case False
    then have "rs_start (last route) = rs_end (last (butlast route))" using parts(1) by (metis append_butlast_last_id contiguous_snoc)
    with cut False show ?thesis by simp
  qed
  with parts e'(2) show ?thesis by (simp add: cut_route_def contiguous_snoc)
qed

text \<open>The state of the route between attempts: a new one is made after a failure.\<close>

abbreviation route_ok :: "int \<Rightarrow> int \<Rightarrow> nat \<Rightarrow> remote_span_info list \<Rightarrow> bool" where
  "route_ok b e att route \<equiv> route = [] \<or> 1 \<le> att \<or> contiguous b route e"

lemma forward_attempt_cases:
  assumes h: "honest env hp blocks grads pgrads" and b: "b < e" and route: "route_ok b e att sequences"
  shows "(\<exists>sp y rest w'. forward_attempt env b e att x sequences w = (Inr (sp, y), rest, w') \<and> rs_start sp = b \<and> b < rs_end sp \<and>
      rs_end sp \<le> e \<and> y = blocks b (rs_end sp) x \<and> contiguous (rs_end sp) rest e) \<or>
    (\<exists>sp er rest w'. forward_attempt env b e att x sequences w = (Inl (sp, er), rest, w') \<and> \<not> reliable env)"
proof -
  let ?choice = "if sequences = [] \<or> att \<ge> 1
    then (case ae_make_sequence env b e w of (Inl er, w') \<Rightarrow> (Inl er, w')
          | (Inr route, w') \<Rightarrow> (if route = [] then Inl IndexError else Inr (cut_route e route), w'))
    else (Inr sequences, w)"
  obtain c w1 where cw: "?choice = (c, w1)" by (cases ?choice)
  have choice: "(\<exists>route. c = Inr route \<and> contiguous b route e) \<or> (\<exists>er. c = Inl er \<and> \<not> reliable env)"
  proof (cases "sequences = [] \<or> att \<ge> 1")
    case True
    obtain r w' where mk: "ae_make_sequence env b e w = (r, w')" by (cases "ae_make_sequence env b e w")
    show ?thesis
    proof (cases r)
      case (Inl er)
      with mk b have "\<not> reliable env" unfolding reliable_def by (metis fst_conv sum.disc(1))
      with cw True mk Inl show ?thesis by auto
    next
      case (Inr route)
      then have "covering b e route" using h b mk unfolding honest_def by blast
      then have "contiguous b (cut_route e route) e" "route \<noteq> []" using cut_covering [OF _ b] by (auto simp: covering_def)
      with cw True mk Inr show ?thesis by auto
    qed
  next
    case False
    with cw route show ?thesis by auto
  qed
  show ?thesis
  proof (cases c)
    case (Inl er)
    with choice have "\<not> reliable env" by blast
    then show ?thesis unfolding forward_attempt_def cw Inl by simp
  next
    case (Inr route)
    with choice have cont: "contiguous b route e" by blast
    then obtain sp rest where r: "route = sp # rest" "rs_start sp = b" "b < rs_end sp" "contiguous (rs_end sp) rest e"
      using b by (cases route) auto
    obtain f w2 where f: "ae_forward env sp (span_uids env sp) x w1 = (f, w2)" by (cases "ae_forward env sp (span_uids env sp) x w1")
    show ?thesis
    proof (cases f)
      case Inl2: (Inl er)
      with f have "\<not> reliable env" unfolding reliable_def by (metis Inl_Inr_False prod.inject)
      with f Inl2 show ?thesis unfolding forward_attempt_def cw Inr r(1) by simp
    next
      case Inr2: (Inr y)
      show ?thesis
      proof (cases "ae_same_shape env y x")
        case True
        have "y = blocks b (rs_end sp) x" using h f Inr2 r(2) unfolding honest_def by blast
        with True f Inr2 r contiguous_le [OF r(4)] show ?thesis unfolding forward_attempt_def cw Inr r(1) by simp
      next
        case False
        with f Inr2 have "\<not> reliable env" unfolding reliable_def by (metis prod.inject sum.inject(2))
        with False f Inr2 show ?thesis unfolding forward_attempt_def cw Inr r(1) by simp
      qed
    qed
  qed
qed

text \<open>What a forward pass from \<open>s\<close> with inputs \<open>x\<close> has saved when it is at block \<open>b\<close>.\<close>

definition saved :: "(int \<Rightarrow> int \<Rightarrow> 'x \<Rightarrow> 'x) \<Rightarrow> int \<Rightarrow> 'x \<Rightarrow> int \<Rightarrow> 'x list \<Rightarrow> remote_span_info list \<Rightarrow> bool" where
  "saved blocks s x b ints dones \<longleftrightarrow> contiguous s dones b \<and> ints = map (\<lambda>sp. blocks s (rs_start sp) x) dones"

lemma forward_loop_total:
  assumes h: "honest env hp blocks grads pgrads" and laws: "chain_rule blocks grads pgrads"
    and bound: "ae_max_retries env = Some (int m) \<and> att < m \<or> reliable env"
    and b: "s \<le> b" "b \<le> e" and route: "route_ok b e att sequences" and saved: "saved blocks s x b ints dones"
  shows "\<exists>r w'. forward_loop env b e att (blocks s b x) sequences ints dones w = Some (r, w') \<and> (reliable env \<longrightarrow> \<not> isl r) \<and>
    (\<forall>out ints' dones'. r = Inr (out, ints', dones') \<longrightarrow> out = blocks s e x \<and> saved blocks s x e ints' dones')"
  using bound b route saved
proof (induction "nat (e - b)" arbitrary: b att sequences ints dones w rule: less_induct)
  case outer: less
  from outer.prems show ?case
  proof (induction "m - att" arbitrary: att sequences w rule: less_induct)
    case inner: less
    show ?case
    proof (cases "b < e")
      case False
      with inner.prems(3) have "b = e" by simp
      with inner.prems(5) show ?thesis by (subst forward_loop.simps) auto
    next
      case True
      from forward_attempt_cases [OF h True inner.prems(4), of "blocks s b x" w]
      consider (ok) sp y rest w' where "forward_attempt env b e att (blocks s b x) sequences w = (Inr (sp, y), rest, w')" "rs_start sp = b"
          "b < rs_end sp" "rs_end sp \<le> e" "y = blocks b (rs_end sp) (blocks s b x)" "contiguous (rs_end sp) rest e"
        | (err) sp er rest w' where "forward_attempt env b e att (blocks s b x) sequences w = (Inl (sp, er), rest, w')" "\<not> reliable env" by blast
      then show ?thesis
      proof cases
        case ok
        have y: "y = blocks s (rs_end sp) x" using laws ok(3,5) inner.prems(2) by (simp add: chain_rule_def)
        have sv: "saved blocks s x (rs_end sp) (ints @ [blocks s b x]) (dones @ [sp])"
          using inner.prems(5) ok(2,3) by (simp add: saved_def contiguous_snoc)
        have bnd: "ae_max_retries env = Some (int m) \<and> 0 < m \<or> reliable env" using inner.prems(1) by auto
        have "nat (e - rs_end sp) < nat (e - b)" using ok(3,4) by simp
        from outer.hyps [OF this bnd _ ok(4) _ sv, of rest "ae_on_success env (rs_peer sp) w'"] inner.prems(2) ok(3,6)
        show ?thesis using True ok(1) y by (subst forward_loop.simps) simp
      next
        case err
        show ?thesis
        proof (cases "ae_max_retries env = Some (int att + 1)")
          case True2: True
          then show ?thesis using True err by (subst forward_loop.simps) (simp add: Let_def)
        next
          case False
          with inner.prems(1) err(2) have "ae_max_retries env = Some (int m)" "Suc att < m" by auto
          then show ?thesis
            using inner.hyps [of "Suc att" rest "ae_on_failure env (map_option rs_peer sp) w'"] inner.prems True err(1) False
            by (subst forward_loop.simps) (simp add: Let_def)
        qed
      qed
    qed
  qed
qed

lemma sequential_forward_total:
  assumes "honest env hp blocks grads pgrads" "chain_rule blocks grads pgrads" "(\<exists>m > 0. ae_max_retries env = Some (int m)) \<or> reliable env"
    and "0 \<le> s" "s \<le> e" "e \<le> int (length (ae_block_uids env))"
  shows "\<exists>r w'. sequential_forward env True s (Some e) x w = Some (r, w') \<and> (reliable env \<longrightarrow> \<not> isl r) \<and>
    (\<forall>out ints dones. r = Inr (out, ints, dones) \<longrightarrow> out = blocks s e x \<and> saved blocks s x e ints dones)"
proof -
  obtain m where "ae_max_retries env = Some (int m) \<and> 0 < m \<or> reliable env" using assms(3) by blast
  moreover have "blocks s s x = x" using assms(2) by (simp add: chain_rule_def)
  ultimately show ?thesis
    using forward_loop_total [OF assms(1,2), of m 0 s s e "[]" x "[]" "[]" w] assms(4-6)
    by (simp add: sequential_forward_def Let_def saved_def)
qed

subsubsection \<open>The stacks of the backward pass\<close>

text \<open>The stacks hold the saved spans of the pass up to block \<open>c\<close>, in reverse; a span is split when it is passed
  forward again.\<close>

lemma saved_snoc:
  "saved blocks s x c (ints @ [i]) (dones @ [sp]) \<longleftrightarrow>
     saved blocks s x (rs_start sp) ints dones \<and> i = blocks s (rs_start sp) x \<and> rs_start sp < rs_end sp \<and> rs_end sp = c"
  by (auto simp: saved_def contiguous_snoc)

lemma saved_append:
  assumes laws: "chain_rule blocks grads pgrads" and "saved blocks s x b ints dones" and "saved blocks b (blocks s b x) c ints' dones'"
  shows "saved blocks s x c (ints @ ints') (dones @ dones')"
proof -
  have sb: "s \<le> b" using assms(2) contiguous_le by (auto simp: saved_def)
  have "blocks b (rs_start sp) (blocks s b x) = blocks s (rs_start sp) x" if "sp \<in> set dones'" for sp
  proof -
    have "b \<le> rs_start sp" if "contiguous b ds c'" "sp \<in> set ds" for ds c'
      using that by (induction b ds c' rule: contiguous.induct) auto
    then have "b \<le> rs_start sp" using assms(3) that by (auto simp: saved_def)
    with laws sb show ?thesis by (simp add: chain_rule_def)
  qed
  with assms(2,3) contiguous_append show ?thesis by (auto simp: saved_def)
qed

text \<open>One attempt at the top of the stacks: it either fails and leaves stacks for the same blocks, or gives the
  gradient at the start of a span and leaves the stacks for the blocks before it.\<close>

lemma backward_attempt_cases:
  assumes h: "honest env hp blocks grads pgrads" and laws: "chain_rule blocks grads pgrads"
    and bound: "(\<exists>m > 0. ae_max_retries env = Some (int m)) \<or> reliable env"
    and s0: "0 \<le> s" "c \<le> int (length (ae_block_uids env))" and sv: "saved blocks s x c (ints @ [i]) (dones @ [sp])"
  shows "\<exists>r i' sp' ints' dones' w'. backward_attempt env att i sp g ints dones w = Some (r, i', sp', ints', dones', w') \<and>
    saved blocks s x c (ints' @ [i']) (dones' @ [sp']) \<and> (reliable env \<longrightarrow> \<not> isl r) \<and>
    (\<forall>g' pg. r = Inr (g', pg) \<longrightarrow> g' = grads (rs_start sp') c i' g \<and> pg = (if hp then Some (pgrads (rs_start sp') c i' g) else None))"
proof -
  note top = sv [unfolded saved_snoc]
  have s: "s \<le> rs_start sp" using top contiguous_le by (auto simp: saved_def)
  have call: "\<exists>r i' sp' ints' dones' w'. (case ae_backward env (last spans) (span_uids env (last spans)) (last ins) g w1 of
        (r, w2) \<Rightarrow> Some (r, last ins, last spans, butlast ins, butlast spans, w2)) = Some (r, i', sp', ints', dones', w') \<and>
    saved blocks s x c (ints' @ [i']) (dones' @ [sp']) \<and> (reliable env \<longrightarrow> \<not> isl r) \<and>
    (\<forall>g' pg. r = Inr (g', pg) \<longrightarrow> g' = grads (rs_start sp') c i' g \<and> pg = (if hp then Some (pgrads (rs_start sp') c i' g) else None))"
    if stack: "saved blocks s x c ins spans" "spans \<noteq> []" for ins spans w1
  proof -
    obtain r w2 where r: "ae_backward env (last spans) (span_uids env (last spans)) (last ins) g w1 = (r, w2)"
      by (cases "ae_backward env (last spans) (span_uids env (last spans)) (last ins) g w1")
    have ne: "ins \<noteq> []" using stack by (auto simp: saved_def)
    have full: "saved blocks s x c (butlast ins @ [last ins]) (butlast spans @ [last spans])" using stack ne by simp
    then have "rs_end (last spans) = c" by (simp add: saved_snoc)
    moreover have "\<not> isl r" if "reliable env" using that r unfolding reliable_def by (metis fst_conv)
    moreover have "g' = grads (rs_start (last spans)) (rs_end (last spans)) (last ins) g \<and>
        pg = (if hp then Some (pgrads (rs_start (last spans)) (rs_end (last spans)) (last ins) g) else None)" if "r = Inr (g', pg)" for g' pg
      using h r that unfolding honest_def by blast
    ultimately show ?thesis using r full by auto
  qed
  show ?thesis
  proof (cases "att \<ge> 1")
    case False
    with call [OF sv, of w] show ?thesis by (simp add: backward_attempt_def Let_def)
  next
    case True
    from sequential_forward_total [OF h laws bound, of "rs_start sp" "rs_end sp" i w] s0 s top obtain r w' where
      f: "sequential_forward env True (rs_start sp) (Some (rs_end sp)) i w = Some (r, w')" "reliable env \<longrightarrow> \<not> isl r"
      "\<forall>out ints dones. r = Inr (out, ints, dones) \<longrightarrow> saved blocks (rs_start sp) i (rs_end sp) ints dones" by auto
    show ?thesis
    proof (cases r)
      case (Inl er)
      with f True sv show ?thesis by (simp add: backward_attempt_def)
    next
      case (Inr res)
      then obtain out bi bs where r: "r = Inr (out, bi, bs)" by (cases res) auto
      then have again: "saved blocks (rs_start sp) i (rs_end sp) bi bs" using f(3) by blast
      have "rs_start sp < rs_end sp" using top by simp
      then have ne: "bs \<noteq> []" "rs_start (hd bs) = rs_start sp" using again by (cases bs; auto simp: saved_def)+
      have "bs = butlast bs @ [last bs]" using ne(1) by simp
      then have last: "rs_end (last bs) = rs_end sp" using again unfolding saved_def by (metis contiguous_snoc)
      have stack: "saved blocks s x c (ints @ bi) (dones @ bs)" using saved_append [OF laws] top again by auto
      from call [OF stack, of w'] ne(1) show ?thesis
        using f(1) True r ne last again by (simp add: backward_attempt_def Let_def saved_def)
    qed
  qed
qed

lemma backward_span_total:
  assumes h: "honest env hp blocks grads pgrads" and laws: "chain_rule blocks grads pgrads"
    and bound: "ae_max_retries env = Some (int m) \<and> att < m \<or> reliable env"
    and s0: "0 \<le> s" "c \<le> int (length (ae_block_uids env))" and sv: "saved blocks s x c (ints @ [i]) (dones @ [sp])"
  shows "\<exists>r ints' dones' w'. backward_span env att i sp g ints dones w = Some (r, ints', dones', w') \<and> (reliable env \<longrightarrow> \<not> isl r) \<and>
    (\<forall>g' pg. r = Inr (g', pg) \<longrightarrow> (\<exists>b. s \<le> b \<and> b < c \<and> saved blocks s x b ints' dones' \<and> g' = grads b c (blocks s b x) g \<and>
       pg = (if hp then Some (pgrads b c (blocks s b x) g) else None)))"
  using bound sv
proof (induction "m - att" arbitrary: att i sp ints dones w rule: less_induct)
  case less
  have "(\<exists>m > 0. ae_max_retries env = Some (int m)) \<or> reliable env" using less.prems(1) by (metis gr0I less_zeroE)
  from backward_attempt_cases [OF h laws this s0 less.prems(2), of att g w] obtain r i' sp' ints' dones' w' where
    at: "backward_attempt env att i sp g ints dones w = Some (r, i', sp', ints', dones', w')"
    "saved blocks s x c (ints' @ [i']) (dones' @ [sp'])" "reliable env \<longrightarrow> \<not> isl r"
    "\<forall>g' pg. r = Inr (g', pg) \<longrightarrow> g' = grads (rs_start sp') c i' g \<and> pg = (if hp then Some (pgrads (rs_start sp') c i' g) else None)" by blast
  note top = at(2) [unfolded saved_snoc]
  have sb: "s \<le> rs_start sp'" using top contiguous_le by (auto simp: saved_def)
  show ?case
  proof (cases r)
    case (Inr gp)
    then show ?thesis using at top sb by (subst backward_span.simps) (cases gp; auto)
  next
    case (Inl er)
    show ?thesis
    proof (cases "ae_max_retries env = Some (int att + 1)")
      case True
      then show ?thesis using at Inl by (subst backward_span.simps) (simp add: Let_def)
    next
      case False
      with less.prems(1) at(3) Inl have "ae_max_retries env = Some (int m) \<and> Suc att < m" by auto
      then have dec: "m - Suc att < m - att" and bnd: "ae_max_retries env = Some (int m) \<and> Suc att < m \<or> reliable env" by auto
      have again: "backward_span env att i sp g ints dones w =
          backward_span env (Suc att) i' sp' g ints' dones' (ae_on_failure env (Some (rs_peer sp')) w')"
        using at(1) Inl False by (subst backward_span.simps) (simp add: Let_def)
      show ?thesis unfolding again by (rule less.hyps [OF dec bnd at(2)])
    qed
  qed
qed

lemma saved_stacks: "saved blocks s x c ints dones \<Longrightarrow> (dones = [] \<longleftrightarrow> c = s) \<and> (ints = [] \<longleftrightarrow> dones = [])"
  using contiguous_le by (cases dones) (fastforce simp: saved_def)+

lemma backward_loop_total:
  assumes h: "honest env hp blocks grads pgrads" and laws: "chain_rule blocks grads pgrads"
    and bound: "ae_max_retries env = Some (int m) \<and> 0 < m \<or> reliable env"
    and e: "0 \<le> s" "c \<le> e" "e \<le> int (length (ae_block_uids env))" and sv: "saved blocks s x c ints dones"
    and g: "g = grads c e (blocks s c x) G" "if hp then concat (rev gpr) = pgrads c e (blocks s c x) G \<and> (c < e \<longrightarrow> gpr \<noteq> []) else gpr = []" and se: "s < e"
  shows "\<exists>r w'. backward_loop env g gpr ints dones w = Some (r, w') \<and> (reliable env \<longrightarrow> \<not> isl r) \<and>
    (\<forall>g' pg. r = Inr (g', pg) \<longrightarrow> g' = grads s e x G \<and> pg = (if hp then Some (pgrads s e x G) else None))"
  using e(2) sv g
proof (induction "nat (c - s)" arbitrary: c g gpr ints dones w rule: less_induct)
  case less
  show ?case
  proof (cases "dones = []")
    case True
    with saved_stacks [OF less.prems(2)] have "c = s" by simp
    moreover have "blocks s s x = x" using laws by (simp add: chain_rule_def)
    ultimately show ?thesis using True less.prems se by (subst backward_loop.simps) (auto split: if_splits)
  next
    case False
    with saved_stacks [OF less.prems(2)] have ne: "ints \<noteq> []" by simp
    have "saved blocks s x c (butlast ints @ [last ints]) (butlast dones @ [last dones])" using less.prems(2) False ne by simp
    moreover have "c \<le> int (length (ae_block_uids env))" using less.prems(1) e(3) by simp
    ultimately obtain r ints' dones' w' where
      r: "backward_span env 0 (last ints) (last dones) g (butlast ints) (butlast dones) w = Some (r, ints', dones', w')" "reliable env \<longrightarrow> \<not> isl r"
      "\<forall>g' pg. r = Inr (g', pg) \<longrightarrow> (\<exists>b. s \<le> b \<and> b < c \<and> saved blocks s x b ints' dones' \<and> g' = grads b c (blocks s b x) g \<and>
         pg = (if hp then Some (pgrads b c (blocks s b x) g) else None))"
      using backward_span_total [OF h laws bound e(1)] by blast
    show ?thesis
    proof (cases r)
      case (Inl er)
      with r False ne show ?thesis by (subst backward_loop.simps) simp
    next
      case (Inr res)
      then obtain g' pg where res: "r = Inr (g', pg)" by (cases res) auto
      then obtain b where b: "s \<le> b" "b < c" "saved blocks s x b ints' dones'" "g' = grads b c (blocks s b x) g"
        "pg = (if hp then Some (pgrads b c (blocks s b x) g) else None)" using r(3) by blast
      let ?gpr = "gpr @ (case pg of None \<Rightarrow> [] | Some p \<Rightarrow> [p])"
      have mid: "blocks b c (blocks s b x) = blocks s c x" using laws b(1,2) by (simp add: chain_rule_def)
      have rule: "grads b c (blocks s b x) (grads c e (blocks b c (blocks s b x)) G) = grads b e (blocks s b x) G"
        "pgrads b c (blocks s b x) (grads c e (blocks b c (blocks s b x)) G) @ pgrads c e (blocks b c (blocks s b x)) G = pgrads b e (blocks s b x) G"
        using laws b(2) less.prems(1) by (simp_all add: chain_rule_def)
      have g': "g' = grads b e (blocks s b x) G" using b(4) less.prems(3) rule(1) mid by simp
      have pg: "if hp then concat (rev ?gpr) = pgrads b e (blocks s b x) G \<and> (b < e \<longrightarrow> ?gpr \<noteq> []) else ?gpr = []"
        using b(5) less.prems(3,4) rule(2) mid by auto
      have "nat (b - s) < nat (c - s)" "b \<le> e" using b(1,2) less.prems(1) by auto
      from less.hyps [OF this b(3) g' pg, of w'] show ?thesis using r(1) res False ne by (subst backward_loop.simps) simp
    qed
  qed
qed

subsection \<open>Batches\<close>

definition MAX_TOKENS_IN_BATCH :: int where
  "MAX_TOKENS_IN_BATCH = 1024"

text \<open>\<open>torch.split\<close> along the first dimension.\<close>

function split_rows :: "nat \<Rightarrow> 'a list \<Rightarrow> 'a list list" where
  "split_rows n xs = (if n = 0 \<or> xs = [] then [] else take n xs # split_rows n (drop n xs))"
  by pat_completeness auto
termination by (relation "measure (length \<circ> snd)") auto

declare split_rows.simps [simp del]

definition rows_per_batch :: "int \<Rightarrow> nat result" where
  "rows_per_batch tokens = (if tokens = 0 then Inl ZeroDivisionError else Inr (nat (max (MAX_TOKENS_IN_BATCH div tokens) 1)))"

text \<open>\<open>forward\<close> and \<open>backward\<close> of the autograd function: every batch goes through its own sequential pass, the results
  are concatenated. The context keeps the prompts and what the forward passes saved.\<close>

record ('x, 'q) autograd_context =
  ac_prompt_batches :: "'q list"
  ac_saved_batches :: "('x list \<times> remote_span_info list) list"

definition autograd_forward ::
    "('r list \<Rightarrow> 'q \<Rightarrow> ('r list \<times> 'x list \<times> remote_span_info list) result) \<Rightarrow> (nat \<Rightarrow> 'q list) \<Rightarrow> int \<Rightarrow> 'r list
     \<Rightarrow> ('r list \<times> ('x, 'q) autograd_context) result" where
  "autograd_forward run split_prompts_of tokens rows =
     bindR (rows_per_batch tokens) (\<lambda>n.
       let input_batches = split_rows n rows; prompt_batches = split_prompts_of n in
       bindR (mapR (\<lambda>(b, p). run b p) (zip input_batches prompt_batches)) (\<lambda>outputs.
       guardR (length outputs = length input_batches) AssertionError
         (Inr (concat (map fst outputs), \<lparr>ac_prompt_batches = prompt_batches, ac_saved_batches = map snd outputs\<rparr>))))"

definition autograd_backward ::
    "('r list \<Rightarrow> 'q \<Rightarrow> 'x list \<times> remote_span_info list \<Rightarrow> ('r list \<times> 'p option) result) \<Rightarrow> ('x, 'q) autograd_context \<Rightarrow> int \<Rightarrow> 'r list
     \<Rightarrow> ('r list \<times> 'p list option) result" where
  "autograd_backward run ctx tokens grad_rows =
     bindR (rows_per_batch tokens) (\<lambda>n.
       let grad_batches = split_rows n grad_rows in
       guardR (length (ac_saved_batches ctx) = length grad_batches) AssertionError
       (bindR (mapR (\<lambda>(g, p, s). run g p s) (zip grad_batches (zip (ac_prompt_batches ctx) (ac_saved_batches ctx)))) (\<lambda>outputs.
         Inr (concat (map fst outputs), if None \<in> set (map snd outputs) then None else Some (map (the \<circ> snd) outputs)))))"

lemma split_rows_facts:
  assumes "0 < n"
  shows "concat (split_rows n xs) = xs \<and> (\<forall>b \<in> set (split_rows n xs). b \<noteq> [] \<and> length b \<le> n)"
  using assms
proof (induction n xs rule: split_rows.induct)
  case (1 n xs)
  then show ?case by (subst (1 2) split_rows.simps) auto
qed

text \<open>Splitting into batches does not change a function that treats rows alone.\<close>

lemma batched_forward:
  assumes "0 < tokens" and run: "\<And>b p. \<exists>ints spans. run b p = Inr (map f b, ints, spans)"
    and prompts: "\<And>n. length (split_prompts_of n) = length (split_rows n rows)"
  shows "\<exists>ctx. autograd_forward run split_prompts_of tokens rows = Inr (map f rows, ctx)"
proof -
  obtain n where n: "rows_per_batch tokens = Inr n" "0 < n" using assms(1) by (auto simp: rows_per_batch_def)
  have "\<exists>s. run b p = Inr (map f b, s)" for b p using run [of b p] by auto
  then obtain sv where sv: "\<And>b p. run b p = Inr (map f b, sv b p)" by metis
  let ?pairs = "zip (split_rows n rows) (split_prompts_of n)"
  have outs: "mapR (\<lambda>(b, p). run b p) ?pairs = Inr (map (\<lambda>(b, p). (map f b, sv b p)) ?pairs)" by (rule mapR_total) (auto simp: sv)
  have "map fst (map (\<lambda>(b, p). (map f b, sv b p)) ?pairs) = map (map f) (map fst ?pairs)" by (simp add: split_beta comp_def)
  also have "map fst ?pairs = split_rows n rows" using prompts [of n] by simp
  finally have "map fst (map (\<lambda>(b, p). (map f b, sv b p)) ?pairs) = map (map f) (split_rows n rows)" .
  then have "concat (map fst (map (\<lambda>(b, p). (map f b, sv b p)) ?pairs)) = map f rows"
    using split_rows_facts [OF n(2), of rows] by (metis map_concat)
  with outs n(1) prompts [of n] show ?thesis by (simp add: autograd_forward_def Let_def)
qed

subsection \<open>Property\<close>

text \<open>C9. Forward and backward passes survive failures: when servers may fail at any time but never answer wrongly,
  and retries are bounded or the servers always answer, a pass over all blocks ends, and with a value when
  the servers always answer; the value of a forward pass is that of the blocks in order, and the value of a
  backward pass over what the forward pass saved is the gradient by the chain rule, with the gradients of
  the prompts of all blocks in order, however many spans failed and were routed again.\<close>

theorem autograd_exact:
  assumes "honest env hp blocks grads pgrads" and "chain_rule blocks grads pgrads"
    and "(\<exists>m > 0. ae_max_retries env = Some (int m)) \<or> reliable env" and "ae_block_uids env \<noteq> []"
  shows "\<exists>r w1. sequential_forward env True 0 None x w = Some (r, w1) \<and> (reliable env \<longrightarrow> \<not> isl r) \<and>
    (\<forall>out ints spans. r = Inr (out, ints, spans) \<longrightarrow>
       out = blocks 0 (int (length (ae_block_uids env))) x \<and>
       (\<exists>r2 w2. sequential_backward env g ints spans w1 = Some (r2, w2) \<and> (reliable env \<longrightarrow> \<not> isl r2) \<and>
         (\<forall>gx gp. r2 = Inr (gx, gp) \<longrightarrow> gx = grads 0 (int (length (ae_block_uids env))) x g \<and>
            gp = (if hp then Some (pgrads 0 (int (length (ae_block_uids env))) x g) else None))))"
proof -
  let ?n = "int (length (ae_block_uids env))"
  have n: "0 < ?n" using assms(4) by simp
  have none: "sequential_forward env True 0 None x w = sequential_forward env True 0 (Some ?n) x w" by (simp add: sequential_forward_def)
  from sequential_forward_total [OF assms(1-3), of 0 ?n x w] obtain r w1 where
    r: "sequential_forward env True 0 None x w = Some (r, w1)" "reliable env \<longrightarrow> \<not> isl r"
    "\<forall>out ints dones. r = Inr (out, ints, dones) \<longrightarrow> out = blocks 0 ?n x \<and> saved blocks 0 x ?n ints dones" unfolding none by auto
  obtain m where m: "ae_max_retries env = Some (int m) \<and> 0 < m \<or> reliable env" using assms(3) by blast
  have ident: "grads ?n ?n y g = g" "pgrads ?n ?n y g = []" for y using assms(2) by (simp_all add: chain_rule_def)
  have "\<exists>r2 w2. sequential_backward env g ints spans w1 = Some (r2, w2) \<and> (reliable env \<longrightarrow> \<not> isl r2) \<and>
      (\<forall>gx gp. r2 = Inr (gx, gp) \<longrightarrow> gx = grads 0 ?n x g \<and> gp = (if hp then Some (pgrads 0 ?n x g) else None))"
    if "r = Inr (out, ints, spans)" for out ints spans
  proof -
    have sv: "saved blocks 0 x ?n ints spans" using r(3) that by blast
    then have len: "length ints = length spans" by (simp add: saved_def)
    from backward_loop_total [OF assms(1,2) m _ order_refl order_refl sv, of g g "[]" w1] n ident
    show ?thesis using len by (simp add: sequential_backward_def)
  qed
  with r show ?thesis by blast
qed

text \<open>A swarm of one flaky server for two blocks that each double their input: the first call of every kind fails.\<close>

definition double_span :: remote_span_info where
  "double_span = \<lparr>rs_peer = ''p'', rs_start = 0, rs_end = 2, rs_info = sample_info\<rparr>"

definition double_env :: "(nat, int, int) autograd_env" where
  "double_env = \<lparr>ae_make_sequence = \<lambda>b e w. (Inr [double_span\<lparr>rs_start := b, rs_end := e\<rparr>], w),
     ae_forward = \<lambda>sp uid x w. (if w = 0 then Inl RemoteError else Inr (x * 2 ^ nat (rs_end sp - rs_start sp)), w + 1),
     ae_backward = \<lambda>sp uid x g w. (if w = 2 then Inl RemoteError else Inr (g * 2 ^ nat (rs_end sp - rs_start sp), None), w + 1),
     ae_on_success = \<lambda>p w. w, ae_on_failure = \<lambda>p w. w, ae_same_shape = \<lambda>x y. True, ae_block_uids = [''m.0'', ''m.1''],
     ae_max_retries = Some 5\<rparr>"

theorem autograd_exact_witness:
  "\<exists>r w1. sequential_forward double_env True 0 None 3 0 = Some (r, w1) \<and>
    (\<forall>out ints spans. r = Inr (out, ints, spans) \<longrightarrow> out = 12 \<and>
       (\<exists>r2 w2. sequential_backward double_env 1 ints spans w1 = Some (r2, w2) \<and> (\<forall>gx gp. r2 = Inr (gx, gp) \<longrightarrow> gx = 4 \<and> gp = None)))"
proof -
  let ?blocks = "\<lambda>a b (x::int). x * 2 ^ nat (b - a)" and ?grads = "\<lambda>a b (x::int) (g::int). g * 2 ^ nat (b - a)"
  have pow: "2 ^ nat (c - b) * 2 ^ nat (b - a) = (2::int) ^ nat (c - a)" if "a \<le> b" "b \<le> c" for a b c :: int
  proof -
    have "nat (c - a) = nat (c - b) + nat (b - a)" using that by simp
    then show ?thesis by (simp only: power_add)
  qed
  have rule: "chain_rule ?blocks ?grads (\<lambda>_ _ _ _. [] :: int list)"
    using pow by (auto simp: chain_rule_def mult.assoc mult.commute)
  have honest: "honest double_env False ?blocks ?grads (\<lambda>_ _ _ _. [])"
    by (auto simp: honest_def double_env_def covering_def double_span_def split: if_splits)
  have "ae_max_retries double_env = Some (int 5)" "ae_block_uids double_env \<noteq> []" "length (ae_block_uids double_env) = 2"
    by (simp_all add: double_env_def)
  then show ?thesis using autograd_exact [OF honest rule, of 3 0 1] by (auto intro: exI [of _ 5])
qed

end
