(* ===== verification/Server.thy ===== *)
theory Server
  imports Block_Selection Backend
begin

text \<open>
  \<open>src/peerz/server/server.py\<close> with the size estimates of \<open>server/block_utils.py\<close>: how a server derives its
  settings from its arguments, how many blocks it takes, which ones, and the loop that serves them and
  moves to other blocks. The GPU memory, \<open>torch.device\<close>, the number of parameters of a block, the extra
  memory of adapters, the reachability check and the measured throughput come from the host and are the
  fields of a record; sizes are integers and the quotients of Python floats are rationals.

  The lemmas show that the chosen number of blocks fills the memory and no more, that the cache budget is
  what the blocks allocate for the promised number of tokens, and that the loop never has two containers
  at once and always serves blocks inside the model.
\<close>

subsection \<open>Types of weights\<close>

datatype quantization = QUANT_NONE | INT8 | NF4

datatype dtype_arg = AutoDtype | NoneDtype | Dtype torch_dtype_info

definition float_dtype :: "string \<Rightarrow> torch_dtype_info" where
  "float_dtype n = \<lparr>dt_name = n, dt_floating = True, dt_complex = False\<rparr>"

definition DTYPE_MAP :: "(string, dtype_arg) dict" where
  "DTYPE_MAP = [(''bfloat16'', Dtype (float_dtype ''bfloat16'')), (''float16'', Dtype (float_dtype ''float16'')),
     (''float32'', Dtype (float_dtype ''float32'')), (''auto'', AutoDtype)]"

definition resolve_block_dtype :: "dtype_arg \<Rightarrow> dtype_arg \<Rightarrow> torch_dtype_info" where
  "resolve_block_dtype config_dtype dtype =
     (case dtype of
        Dtype d \<Rightarrow> d
      | _ \<Rightarrow> (case config_dtype of
                 Dtype d \<Rightarrow> if d = float_dtype ''float32'' then float_dtype ''bfloat16'' else d
               | _ \<Rightarrow> float_dtype ''bfloat16''))"

text \<open>Python's \<open>round\<close>: to the nearest integer, halves to the even one.\<close>

definition py_round :: "rat \<Rightarrow> int" where
  "py_round q =
     (let f = \<lfloor>q\<rfloor>; d = q - of_int f in
      if d < 1 / 2 then f else if 1 / 2 < d then f + 1 else if even f then f else f + 1)"

record model_config =
  mc_block :: block_config
  mc_num_hidden_layers :: int
  mc_dht_prefix :: "string option"
  mc_torch_dtype :: dtype_arg
  mc_n_params :: int                  \<comment> \<open>the parameters of \<open>get_model_block(config)\<close>\<close>

text \<open>\<open>get_block_size\<close>; for a location that is neither memory nor disk the variable \<open>bytes_per_value\<close> is
  never bound.\<close>

definition get_block_size ::
    "(torch_dtype_info \<Rightarrow> int result) \<Rightarrow> model_config \<Rightarrow> string \<Rightarrow> dtype_arg \<Rightarrow> quantization option \<Rightarrow> rat \<Rightarrow> int result" where
  "get_block_size size_of config location dtype quant overhead =
     guardR (location = ''memory'' \<longrightarrow> dtype \<noteq> NoneDtype \<and> quant \<noteq> None) AssertionError
     (bindR
       (if location = ''memory'' then
          (case quant of
             Some QUANT_NONE \<Rightarrow> bindR (size_of (resolve_block_dtype (mc_torch_dtype config) dtype)) (\<lambda>n. Inr (of_int n))
           | Some INT8 \<Rightarrow> Inr 1
           | Some NF4 \<Rightarrow> Inr (17 / 32)
           | None \<Rightarrow> Inl ValueError)
        else if location = ''disk'' then
          bindR (size_of (resolve_block_dtype (mc_torch_dtype config) AutoDtype)) (\<lambda>n. Inr (of_int n))
        else Inl NameError)
       (\<lambda>bytes_per_value. Inr (py_round (of_int (mc_n_params config) * bytes_per_value * (1 + overhead)))))"

subsection \<open>The host and the arguments\<close>

record torch_device =
  dev_type :: string
  dev_index :: "int option"

datatype throughput_arg = Rate rat | Mode string

record host =
  ho_size_of :: "torch_dtype_info \<Rightarrow> int result"
  ho_cuda_available :: bool
  ho_mps_available :: bool
  ho_torch_device :: "string \<Rightarrow> torch_device result"
  ho_device_memory :: "torch_device \<Rightarrow> int"
  ho_virtual_memory :: int
  ho_adapter_memory :: "torch_dtype_info \<Rightarrow> string list \<Rightarrow> int result"
  ho_is_reachable :: "bool option"
  ho_throughput :: "torch_device \<Rightarrow> torch_dtype_info \<Rightarrow> int \<Rightarrow> quantization \<Rightarrow> torch_device list \<Rightarrow> bool \<Rightarrow> bool \<Rightarrow> (string, rat) dict result"
  ho_pydantic :: pydantic_lax
  ho_version :: string
  ho_max_time_discrepancy :: rat      \<comment> \<open>hivemind's \<open>MAX_DHT_TIME_DISCREPANCY_SECONDS\<close>\<close>
  ho_public_peers :: "string list"    \<comment> \<open>\<open>PUBLIC_INITIAL_PEERS\<close>\<close>

record server_args =
  ar_initial_peers :: "string list"
  ar_dht_prefix :: "string option"
  ar_public_name :: "string option"
  ar_throughput :: throughput_arg
  ar_num_blocks :: "int option"
  ar_block_indices :: "string option"
  ar_inference_max_length :: "int option"
  ar_max_batch_size :: "int option"
  ar_attn_cache_tokens :: "int option"
  ar_torch_dtype :: string
  ar_device :: "string option"
  ar_update_period :: rat
  ar_expiration :: "rat option"
  ar_balance_quality :: rat
  ar_quant_type :: "quantization option"
  ar_tensor_parallel_devices :: "string list option"
  ar_skip_reachability_check :: bool
  ar_reachable_via_relay :: "bool option"
  ar_adapters :: "string list"

record server =
  sv_config :: model_config
  sv_dht_prefix :: string
  sv_expiration :: rat
  sv_module_uids :: "module_uid list"
  sv_should_validate_reachability :: bool
  sv_device :: torch_device
  sv_torch_dtype :: torch_dtype_info
  sv_tensor_parallel_devices :: "torch_device list"
  sv_quant_type :: quantization
  sv_max_batch_size :: int
  sv_inference_max_length :: int
  sv_cache_bytes_per_block :: int
  sv_adapters :: "string list"
  sv_strict_block_indices :: "int list option"
  sv_num_blocks :: int
  sv_attn_cache_bytes :: int
  sv_server_info :: server_info
  sv_balance_quality :: rat

subsection \<open>The parts of the constructor\<close>

definition default_expiration :: "host \<Rightarrow> rat \<Rightarrow> rat option \<Rightarrow> rat" where
  "default_expiration h update_period expiration =
     (case expiration of Some e \<Rightarrow> e | None \<Rightarrow> max (2 * update_period) (ho_max_time_discrepancy h))"

definition check_dht_prefix :: "model_config \<Rightarrow> string option \<Rightarrow> string result" where
  "check_dht_prefix config dht_prefix =
     (case (case dht_prefix of None \<Rightarrow> mc_dht_prefix config | Some p \<Rightarrow> Some p) of
        None \<Rightarrow> Inl TypeError
      | Some p \<Rightarrow> guardR (UID_DELIMITER \<notin> set p \<and> CHAIN_DELIMITER \<notin> set p) AssertionError (Inr p))"

definition choose_device :: "host \<Rightarrow> string option \<Rightarrow> torch_device result" where
  "choose_device h device =
     (let name = (case device of
                    Some d \<Rightarrow> d
                  | None \<Rightarrow> if ho_cuda_available h then ''cuda'' else if ho_mps_available h then ''mps'' else ''cpu'')
      in bindR (ho_torch_device h name) (\<lambda>d.
           Inr (if dev_type d = ''cuda'' \<and> dev_index d = None then d\<lparr>dev_index := Some 0\<rparr> else d)))"

definition choose_dtype :: "model_config \<Rightarrow> torch_device \<Rightarrow> string \<Rightarrow> torch_dtype_info result" where
  "choose_dtype config device name =
     bindR (dict_item DTYPE_MAP name) (\<lambda>arg.
     (let d = resolve_block_dtype (mc_torch_dtype config) arg in
      if dev_type device = ''cpu'' \<and> d = float_dtype ''float16'' then Inl ValueError
      else if dev_type device = ''mps'' \<and> d = float_dtype ''bfloat16'' then Inr (float_dtype ''float16'')
      else Inr d))"

definition is_multiquery_attn :: "model_config \<Rightarrow> bool" where
  "is_multiquery_attn config \<longleftrightarrow> cfg_num_key_value_groups (mc_block config) > 1"

definition default_to :: "int option \<Rightarrow> model_config \<Rightarrow> int \<Rightarrow> int \<Rightarrow> int" where
  "default_to given config multi single =
     (case given of Some n \<Rightarrow> n | None \<Rightarrow> if is_multiquery_attn config then multi else single)"

definition cache_bytes_per_block :: "(torch_dtype_info \<Rightarrow> int result) \<Rightarrow> model_config \<Rightarrow> torch_dtype_info \<Rightarrow> int \<Rightarrow> int result" where
  "cache_bytes_per_block size_of config dtype attn_cache_tokens =
     (let cache_values_per_block = 2 * cfg_hidden_size (mc_block config) * attn_cache_tokens in
      guardR (cfg_num_key_value_groups (mc_block config) \<noteq> 0) ZeroDivisionError
      (bindR (size_of dtype) (\<lambda>n.
        Inr (cache_values_per_block div cfg_num_key_value_groups (mc_block config) * n))))"

text \<open>The parts of \<open>_choose_num_blocks\<close>: the memory of the devices, the memory that backward passes take, and
  the memory of one block with its cache and adapters.\<close>

definition total_device_memory :: "host \<Rightarrow> torch_device \<Rightarrow> torch_device list \<Rightarrow> int result" where
  "total_device_memory h device tp_devices =
     (let memory_per_device = map (ho_device_memory h) tp_devices in
      if length tp_devices > 1 then
        guardR (dev_type device = ''cuda'') AssertionError
        (guardR (Min (set memory_per_device) \<noteq> 0) ZeroDivisionError
         (if 3 / 2 < (of_int (Max (set memory_per_device)) / of_int (Min (set memory_per_device)) :: rat) then Inl ValueError
          else Inr (Min (set memory_per_device) * int (length tp_devices))))
      else if dev_type device = ''cuda'' then Inr (ho_device_memory h device)
      else Inr (ho_virtual_memory h))"

definition autograd_memory :: "model_config \<Rightarrow> torch_device list \<Rightarrow> rat" where
  "autograd_memory config tp_devices =
     (let gib = 1024 ^ 3; num_devices = (if tp_devices \<noteq> [] then int (length tp_devices) else 1) in
      2 * gib * of_int num_devices / 14336 * of_int (cfg_hidden_size (mc_block config)))"

definition memory_per_block ::
    "host \<Rightarrow> model_config \<Rightarrow> torch_dtype_info \<Rightarrow> quantization \<Rightarrow> string list \<Rightarrow> int \<Rightarrow> int result" where
  "memory_per_block h config dtype quant adapter_names cache_bytes =
     bindR (get_block_size (ho_size_of h) config ''memory'' (Dtype dtype) (Some quant) (1 / 100)) (\<lambda>block_size.
     bindR (if adapter_names \<noteq> [] then ho_adapter_memory h dtype adapter_names else Inr 0) (\<lambda>adapter_size.
       Inr (block_size + cache_bytes + adapter_size)))"

definition choose_num_blocks :: "host \<Rightarrow> model_config \<Rightarrow> torch_device \<Rightarrow> torch_device list \<Rightarrow> torch_dtype_info
    \<Rightarrow> quantization \<Rightarrow> string list \<Rightarrow> int \<Rightarrow> int result" where
  "choose_num_blocks h config device tp_devices dtype quant adapter_names cache_bytes =
     guardR (dev_type device \<in> {''cuda'', ''mps''}) AssertionError
     (bindR (total_device_memory h device tp_devices) (\<lambda>total_memory.
      bindR (memory_per_block h config dtype quant adapter_names cache_bytes) (\<lambda>total_memory_per_block.
      guardR (total_memory_per_block \<noteq> 0) ZeroDivisionError
      (let n = \<lfloor>(of_int total_memory - autograd_memory config tp_devices) / of_int total_memory_per_block\<rfloor> in
       guardR (n \<ge> 1) AssertionError (Inr (min n (mc_num_hidden_layers config)))))))"

definition parse_block_indices :: "string \<Rightarrow> int list result" where
  "parse_block_indices s =
     (case mapR (\<lambda>index. py_int (py_strip index)) (py_split CHR '':'' s) of
        Inr [start, stop] \<Rightarrow> Inr (py_range start stop)
      | _ \<Rightarrow> Inl ValueError)"

text \<open>The block of lines that settles \<open>num_blocks\<close> and \<open>strict_block_indices\<close>; the last argument is
  \<open>_choose_num_blocks\<close>.\<close>

definition settle_blocks :: "model_config \<Rightarrow> int option \<Rightarrow> string option \<Rightarrow> int result \<Rightarrow> (int list option \<times> int) result" where
  "settle_blocks config num block_indices chosen =
     guardR (num = None \<or> block_indices = None) AssertionError
     (case block_indices of
        Some s \<Rightarrow> bindR (parse_block_indices s) (\<lambda>is. Inr (Some is, int (length is)))
      | None \<Rightarrow> bindR (case num of Some n \<Rightarrow> Inr n | None \<Rightarrow> chosen)
          (\<lambda>n. Inr (None, min n (mc_num_hidden_layers config))))"

definition quant_name :: "quantization \<Rightarrow> string" where
  "quant_name q = (case q of QUANT_NONE \<Rightarrow> ''none'' | INT8 \<Rightarrow> ''int8'' | NF4 \<Rightarrow> ''nf4'')"

text \<open>\<open>throughput_info\<close>: the given rate, or what the host measures for this number of blocks; a dry run exits.\<close>

definition find_throughput :: "throughput_arg \<Rightarrow> (bool \<Rightarrow> (string, rat) dict result) \<Rightarrow> (string, rat) dict result" where
  "find_throughput arg measured =
     (case arg of
        Rate r \<Rightarrow> Inr [(''throughput'', r)]
      | Mode m \<Rightarrow>
          guardR (m \<in> {''auto'', ''eval'', ''dry_run''}) AssertionError
          (bindR (measured (m \<in> {''eval'', ''dry_run''})) (\<lambda>info.
             if m = ''dry_run'' then Inl SystemExit else Inr info)))"

definition make_server_info :: "host \<Rightarrow> server_args \<Rightarrow> torch_dtype_info \<Rightarrow> quantization \<Rightarrow> bool \<Rightarrow> (string, rat) dict \<Rightarrow> server_info result" where
  "make_server_info h args dtype quant via_relay info =
     (let given = [(''public_name'', wire_opt WStr (ar_public_name args)), (''version'', WStr (ho_version h)),
           (''adapters'', WList (map WStr (ar_adapters args))), (''torch_dtype'', WStr (dt_name dtype)),
           (''quant_type'', WStr (quant_name quant)), (''using_relay'', WBool via_relay)] in
      guardR (''state'' \<notin> set (map fst info) \<and> set (map fst given) \<inter> set (map fst info) = {}) TypeError
      (case dict_get info ''throughput'' of
         None \<Rightarrow> Inl ValueError
       | Some rate \<Rightarrow> validate_server_info (ho_pydantic h) JOINING (WFloat (Fin rate))
           (given @ map (\<lambda>(k, v). (k, WFloat (Fin v))) info)))"

definition init_server :: "host \<Rightarrow> model_config \<Rightarrow> server_args \<Rightarrow> server result" where
  "init_server h config args =
     bindR (check_dht_prefix config (ar_dht_prefix args)) (\<lambda>prefix.
     (let uids = map (block_uid prefix) (py_range 0 (mc_num_hidden_layers config));
          via_relay = (case ar_reachable_via_relay args of Some r \<Rightarrow> r | None \<Rightarrow> ho_is_reachable h = Some False) in
     bindR (choose_device h (ar_device args)) (\<lambda>device.
     bindR (choose_dtype config device (ar_torch_dtype args)) (\<lambda>dtype.
     bindR (case ar_tensor_parallel_devices args of None \<Rightarrow> Inr [device] | Some ds \<Rightarrow> mapR (ho_torch_device h) ds) (\<lambda>tp_devices.
     (let quant = (case ar_quant_type args of Some q \<Rightarrow> q | None \<Rightarrow> if dev_type device = ''cuda'' then NF4 else QUANT_NONE) in
     bindR (cache_bytes_per_block (ho_size_of h) config dtype (default_to (ar_attn_cache_tokens args) config 16384 4096)) (\<lambda>cache_bytes.
     bindR (settle_blocks config (ar_num_blocks args) (ar_block_indices args)
              (choose_num_blocks h config device tp_devices dtype quant (ar_adapters args) cache_bytes)) (\<lambda>(strict, n).
     bindR (find_throughput (ar_throughput args) (ho_throughput h device dtype n quant tp_devices via_relay)) (\<lambda>info.
     bindR (make_server_info h args dtype quant via_relay info) (\<lambda>si.
       Inr \<lparr>sv_config = config, sv_dht_prefix = prefix,
            sv_expiration = default_expiration h (ar_update_period args) (ar_expiration args),
            sv_module_uids = uids,
            sv_should_validate_reachability = (\<not> ar_skip_reachability_check args \<and> ar_initial_peers args = ho_public_peers h),
            sv_device = device, sv_torch_dtype = dtype, sv_tensor_parallel_devices = tp_devices, sv_quant_type = quant,
            sv_max_batch_size = default_to (ar_max_batch_size args) config 8192 2048,
            sv_inference_max_length = default_to (ar_inference_max_length args) config 8192 2048,
            sv_cache_bytes_per_block = cache_bytes, sv_adapters = ar_adapters args,
            sv_strict_block_indices = strict, sv_num_blocks = n, sv_attn_cache_bytes = cache_bytes * n,
            sv_server_info = si, sv_balance_quality = ar_balance_quality args\<rparr>))))))))))"

subsection \<open>The serving loop\<close>

text \<open>What the swarm offers a server: the lookups of the DHT, base58 decoding, its own peer id and the
  shuffles of the rebalancing.\<close>

record 'd swarm =
  sw_get_many :: "'d get_many"
  sw_pydantic :: pydantic_lax
  sw_from_base58 :: "string \<Rightarrow> peer_id result"
  sw_peer_id :: peer_id
  sw_shuffle :: "nat \<Rightarrow> peer_id list \<Rightarrow> peer_id list"

definition lookup_modules :: "'d swarm \<Rightarrow> 'd \<Rightarrow> server \<Rightarrow> remote_module_info list result" where
  "lookup_modules W dht s =
     get_remote_module_infos (sw_get_many W) (sw_pydantic W) (sw_from_base58 W) 0 dht (sv_module_uids s) None None True"

definition choose_blocks :: "'d swarm \<Rightarrow> 'd \<Rightarrow> server \<Rightarrow> int list result" where
  "choose_blocks W dht s =
     (case sv_strict_block_indices s of
        Some is \<Rightarrow> Inr is
      | None \<Rightarrow> bindR (lookup_modules W dht s) (choose_best_blocks (sv_num_blocks s)))"

definition server_should_move :: "'d swarm \<Rightarrow> 'd \<Rightarrow> server \<Rightarrow> bool result option" where
  "server_should_move W dht s =
     (if sv_strict_block_indices s \<noteq> None then Some (Inr False)
      else case lookup_modules W dht s of
        Inl e \<Rightarrow> Some (Inl e)
      | Inr infos \<Rightarrow> should_choose_other_blocks (sw_shuffle W) (sw_peer_id W) infos (sv_balance_quality s))"

text \<open>One iteration of the inner loop: whether the stop event is set when the wait ends, whether every
  subprocess is alive, and the DHT at that moment.\<close>

record 'd wake_up =
  wk_stop :: bool
  wk_healthy :: bool
  wk_dht :: 'd

datatype serving = Keep_serving | Restart | Stopped | Failed py_error | Undecided

fun serve :: "'d swarm \<Rightarrow> server \<Rightarrow> 'd wake_up list \<Rightarrow> serving" where
  "serve W s [] = Keep_serving"
| "serve W s (k # ks) =
     (if wk_stop k then Stopped
      else if \<not> wk_healthy k then Restart
      else (case server_should_move W (wk_dht k) s of
              None \<Rightarrow> Undecided
            | Some (Inl e) \<Rightarrow> Failed e
            | Some (Inr True) \<Rightarrow> Restart
            | Some (Inr False) \<Rightarrow> serve W s ks))"

text \<open>What the outside sees of the outer loop. A round is the DHT when the blocks are chosen, what
  \<open>ModuleContainer.create\<close> does with them, and the wake-ups until the container is shut down.\<close>

datatype server_event = Created "int list" | Shut_down | Cleaned

record 'd round =
  ro_dht :: 'd
  ro_create :: "int list \<Rightarrow> unit result"
  ro_wake_ups :: "'d wake_up list"

fun run_server :: "'d swarm \<Rightarrow> server \<Rightarrow> 'd round list \<Rightarrow> server_event list \<times> serving" where
  "run_server W s [] = ([], Keep_serving)"
| "run_server W s (r # rs) =
     (case bindR (choose_blocks W (ro_dht r) s) (\<lambda>is. bindR (ro_create r is) (\<lambda>_. Inr is)) of
        Inl e \<Rightarrow> ([], Failed e)
      | Inr is \<Rightarrow>
          (case serve W s (ro_wake_ups r) of
             Restart \<Rightarrow> (let (tr, out) = run_server W s rs in (Created is # Shut_down # Cleaned # tr, out))
           | Keep_serving \<Rightarrow> ([Created is], Keep_serving)
           | Undecided \<Rightarrow> ([Created is], Undecided)
           | out \<Rightarrow> ([Created is, Shut_down], out)))"

text \<open>\<open>shutdown\<close>: the stop event, a bounded wait for a live container, the reachability protocol, the DHT.\<close>

datatype shutdown_action = Set_stop | Join_container rat | Stop_reachability | Stop_dht | Join_dht

definition shutdown_server :: "rat \<Rightarrow> bool \<Rightarrow> bool \<Rightarrow> shutdown_action list" where
  "shutdown_server timeout container_alive has_reachability =
     [Set_stop] @ (if container_alive then [Join_container timeout] else []) @
     (if has_reachability then [Stop_reachability] else []) @ [Stop_dht, Join_dht]"

subsection \<open>Memory\<close>

lemma floor_fits:
  fixes a :: rat and m :: int
  assumes "0 < m"
  shows "of_int (\<lfloor>a / of_int m\<rfloor> * m) \<le> a" "a < of_int ((\<lfloor>a / of_int m\<rfloor> + 1) * m)"
proof -
  have m: "(0 :: rat) < of_int m" using assms by simp
  have "of_int \<lfloor>a / of_int m\<rfloor> \<le> a / of_int m" by (rule of_int_floor_le)
  then show "of_int (\<lfloor>a / of_int m\<rfloor> * m) \<le> a" by (simp only: pos_le_divide_eq [OF m] of_int_mult)
  have "a / of_int m < of_int \<lfloor>a / of_int m\<rfloor> + 1" by (rule floor_less_cancel) simp
  then show "a < of_int ((\<lfloor>a / of_int m\<rfloor> + 1) * m)" by (simp only: pos_divide_less_eq [OF m] of_int_mult of_int_add of_int_1)
qed

text \<open>C33. The number of blocks a server chooses for itself fills its memory: when the choice succeeds the
  server takes at least one block and at most those of the model, the blocks with their caches and
  adapters fit in the memory that backward passes leave, and one more block of the model would not.\<close>

theorem blocks_fill_memory:
  assumes "choose_num_blocks h config device tps dtype quant names cache = Inr n"
    and "total_device_memory h device tps = Inr memory" and "memory_per_block h config dtype quant names cache = Inr m"
    and "0 < m" and "1 \<le> mc_num_hidden_layers config"
  shows "1 \<le> n \<and> n \<le> mc_num_hidden_layers config \<and>
    of_int (n * m) + autograd_memory config tps \<le> of_int memory \<and>
    (n = mc_num_hidden_layers config \<or> of_int memory < of_int ((n + 1) * m) + autograd_memory config tps)"
proof -
  let ?a = "of_int memory - autograd_memory config tps"
  let ?k = "\<lfloor>?a / of_int m\<rfloor>"
  have n: "n = min ?k (mc_num_hidden_layers config)" "1 \<le> ?k"
    using assms(1-4) by (auto simp: choose_num_blocks_def Let_def resultD)
  have "of_int (n * m) \<le> (of_int (?k * m) :: rat)" using n assms(4) unfolding of_int_le_iff by (intro mult_right_mono) auto
  then have "of_int (n * m) + autograd_memory config tps \<le> of_int memory" using floor_fits(1) [OF assms(4), of ?a] by linarith
  moreover have "of_int memory < of_int ((n + 1) * m) + autograd_memory config tps" if "n \<noteq> mc_num_hidden_layers config"
    using floor_fits(2) [OF assms(4), of ?a] n(1) that by (simp add: min_def split: if_splits)
  moreover have "1 \<le> n" "n \<le> mc_num_hidden_layers config" using n assms(5) by linarith+
  ultimately show ?thesis by blast
qed

definition gpu :: torch_device where "gpu = \<lparr>dev_type = ''cuda'', dev_index = Some 0\<rparr>"

definition gpu_host :: host where
  "gpu_host = \<lparr>ho_size_of = get_size_in_bytes (\<lambda>_. Inr 16) (\<lambda>_. Inr 64), ho_cuda_available = True, ho_mps_available = False,
     ho_torch_device = \<lambda>t. Inr \<lparr>dev_type = t, dev_index = None\<rparr>, ho_device_memory = \<lambda>_. 4 * 1024 ^ 3, ho_virtual_memory = 1024 ^ 3,
     ho_adapter_memory = \<lambda>_ _. Inr 0, ho_is_reachable = Some True, ho_throughput = \<lambda>_ _ _ _ _ _ _. Inr [(''throughput'', 2)],
     ho_pydantic = strict_pydantic, ho_version = ''1.0.0'', ho_max_time_discrepancy = 3, ho_public_peers = [''p'']\<rparr>"

definition small_config :: model_config where
  "small_config = \<lparr>mc_block = \<lparr>cfg_hidden_size = 4096, cfg_num_attention_heads = 32, cfg_num_key_value_groups = 1, cfg_num_key_value_heads = None\<rparr>,
     mc_num_hidden_layers = 32, mc_dht_prefix = Some ''m'', mc_torch_dtype = AutoDtype, mc_n_params = 200000000\<rparr>"

definition auto_args :: server_args where
  "auto_args = \<lparr>ar_initial_peers = [''p''], ar_dht_prefix = None, ar_public_name = None, ar_throughput = Mode ''auto'', ar_num_blocks = None,
     ar_block_indices = None, ar_inference_max_length = None, ar_max_batch_size = None, ar_attn_cache_tokens = None,
     ar_torch_dtype = ''auto'', ar_device = None, ar_update_period = 60, ar_expiration = None, ar_balance_quality = 3 / 4,
     ar_quant_type = None, ar_tensor_parallel_devices = None, ar_skip_reachability_check = False, ar_reachable_via_relay = None,
     ar_adapters = []\<rparr>"

lemma gpu_host_chooses:
  "choose_num_blocks gpu_host small_config gpu [gpu] (float_dtype ''bfloat16'') NF4 [] 67108864 = Inr 21"
  "total_device_memory gpu_host gpu [gpu] = Inr 4294967296"
  "memory_per_block gpu_host small_config (float_dtype ''bfloat16'') NF4 [] 67108864 = Inr 174421364"
  by code_simp+

theorem blocks_fill_memory_witness:
  "of_int (21 * 174421364) + autograd_memory small_config [gpu] \<le> 4294967296 \<and>
   4294967296 < of_int (22 * 174421364) + autograd_memory small_config [gpu]"
  using blocks_fill_memory [OF gpu_host_chooses] by (simp add: small_config_def)

text \<open>The constructor settles everything before the server starts.\<close>

lemma init_server_Inr:
  assumes "init_server h config args = Inr s"
  shows "sv_config s = config" "sv_module_uids s = map (block_uid (sv_dht_prefix s)) (py_range 0 (mc_num_hidden_layers config))"
    "check_dht_prefix config (ar_dht_prefix args) = Inr (sv_dht_prefix s)"
    "settle_blocks config (ar_num_blocks args) (ar_block_indices args)
       (choose_num_blocks h config (sv_device s) (sv_tensor_parallel_devices s) (sv_torch_dtype s) (sv_quant_type s) (sv_adapters s)
          (sv_cache_bytes_per_block s)) = Inr (sv_strict_block_indices s, sv_num_blocks s)"
    "cache_bytes_per_block (ho_size_of h) config (sv_torch_dtype s) (default_to (ar_attn_cache_tokens args) config 16384 4096) =
      Inr (sv_cache_bytes_per_block s)"
    "sv_attn_cache_bytes s = sv_cache_bytes_per_block s * sv_num_blocks s"
  using assms unfolding init_server_def Let_def bindR_Inr by (auto simp: bindR_Inr)

lemma check_dht_prefix_Inr:
  assumes "check_dht_prefix config p = Inr prefix"
  shows "CHR ''.'' \<notin> set prefix" "CHR '' '' \<notin> set prefix"
  using assms by (auto simp: check_dht_prefix_def UID_DELIMITER_def CHAIN_DELIMITER_def guardR_Inr split: option.splits)

lemma settle_blocks_Inr:
  assumes "settle_blocks config num indices chosen = Inr (None, n)"
  shows "n \<le> mc_num_hidden_layers config"
  using assms by (cases indices) (auto simp: settle_blocks_def resultD)

text \<open>What a block on one device allocates, with the shapes of the attention of the models: the key-value heads
  divide the attention heads, which divide the hidden size.\<close>

definition one_device_block :: "block_config \<Rightarrow> torch_dtype_info \<Rightarrow> ('x, 'v) backend \<Rightarrow> bool" where
  "one_device_block cfg dtype b \<longleftrightarrow>
     bk_config b = cfg \<and> bk_dtype b = dtype \<and> (\<exists>dv. bk_devices b = [dv]) \<and> bk_shard_num_heads b = [cfg_num_attention_heads cfg] \<and>
     cfg_num_attention_heads cfg \<noteq> 0 \<and> cfg_num_attention_heads cfg dvd cfg_hidden_size cfg \<and>
     (case cfg_num_key_value_heads cfg of
        None \<Rightarrow> cfg_num_key_value_groups cfg dvd cfg_num_attention_heads cfg
      | Some k \<Rightarrow> cfg_num_attention_heads cfg = k * cfg_num_key_value_groups cfg)"

lemma one_device_allocation:
  assumes "one_device_block cfg dtype b" "size_of dtype = Inr n" "cfg_num_key_value_groups cfg \<noteq> 0"
  obtains w where "cfg_hidden_size cfg = w * cfg_num_key_value_groups cfg"
    "\<And>tokens. get_allocation_size size_of (get_inference_cache_descriptors b 1 tokens) = Inr (2 * w * tokens * n)"
proof -
  let ?g = "cfg_num_key_value_groups cfg" and ?h = "cfg_num_attention_heads cfg"
  note b = assms(1) [unfolded one_device_block_def]
  obtain hd where hd: "cfg_hidden_size cfg = ?h * hd" using b by blast
  define kv where "kv = (case cfg_num_key_value_heads cfg of None \<Rightarrow> ?h div ?g | Some k \<Rightarrow> k)"
  have kv: "?h = kv * ?g" using b by (auto simp: kv_def split: option.splits)
  have dim: "cfg_hidden_size cfg div ?h = hd" using hd b by simp
  obtain dv where dv: "bk_devices b = [dv]" using b by blast
  have "get_allocation_size size_of (get_inference_cache_descriptors b 1 tokens) = Inr (2 * (kv * hd) * tokens * n)" for tokens
    using b assms(2) dv by (simp add: get_allocation_size_def get_inference_cache_descriptors_def Let_def add_to_device_def
      numel_def dim kv_def [symmetric] algebra_simps)
  with hd kv that [of "kv * hd"] show ?thesis by (simp add: algebra_simps)
qed

text \<open>The attention cache of a server holds the promised tokens: when its blocks run on one device, with
  the key-value heads dividing the attention heads and the heads dividing the hidden size, the budget
  given to the cache is exactly what all its blocks allocate for a sequence of \<open>attn_cache_tokens\<close> tokens.\<close>

theorem cache_budget_exact:
  assumes "init_server h config args = Inr s" and "tokens = default_to (ar_attn_cache_tokens args) config 16384 4096"
    and "one_device_block (mc_block config) (sv_torch_dtype s) b"
  shows "\<exists>bytes. get_allocation_size (ho_size_of h) (get_inference_cache_descriptors b 1 tokens) = Inr bytes \<and>
    sv_attn_cache_bytes s = sv_num_blocks s * bytes"
proof -
  let ?c = "mc_block config"
  from init_server_Inr(5) [OF assms(1)] obtain n where n: "ho_size_of h (sv_torch_dtype s) = Inr n"
      "sv_cache_bytes_per_block s = 2 * cfg_hidden_size ?c * tokens div cfg_num_key_value_groups ?c * n"
      "cfg_num_key_value_groups ?c \<noteq> 0"
    unfolding assms(2) by (auto simp: cache_bytes_per_block_def resultD)
  obtain w where w: "cfg_hidden_size ?c = w * cfg_num_key_value_groups ?c"
      "get_allocation_size (ho_size_of h) (get_inference_cache_descriptors b 1 tokens) = Inr (2 * w * tokens * n)"
    using one_device_allocation [OF assms(3), where size_of = "ho_size_of h", OF n(1,3)] by metis
  have scale: "2 * cfg_hidden_size ?c * tokens = cfg_num_key_value_groups ?c * (2 * w * tokens)" using w(1) by (simp add: algebra_simps)
  have "sv_cache_bytes_per_block s = 2 * w * tokens * n" unfolding n(2) scale using n(3) by simp
  then show ?thesis using w(2) init_server_Inr(6) [OF assms(1)] by simp
qed

lemma auto_server_starts:
  "\<exists>s. init_server gpu_host small_config auto_args = Inr s \<and> sv_num_blocks s = 21 \<and> sv_torch_dtype s = float_dtype ''bfloat16'' \<and>
     sv_attn_cache_bytes s = 21 * 67108864 \<and> sv_strict_block_indices s = None"
proof -
  have "(case init_server gpu_host small_config auto_args of Inl _ \<Rightarrow> False | Inr s \<Rightarrow>
      sv_num_blocks s = 21 \<and> sv_torch_dtype s = float_dtype ''bfloat16'' \<and> sv_attn_cache_bytes s = 21 * 67108864 \<and> sv_strict_block_indices s = None)"
    by code_simp
  then show ?thesis by (cases "init_server gpu_host small_config auto_args") auto
qed

definition gpu_backend :: "(int, int) backend" where
  "gpu_backend = demo_backend\<lparr>bk_config := mc_block small_config, bk_dtype := float_dtype ''bfloat16'', bk_devices := [Some ''cuda''],
     bk_shard_num_heads := [32]\<rparr>"

theorem cache_budget_exact_witness:
  "\<exists>s bytes. init_server gpu_host small_config auto_args = Inr s \<and>
     get_allocation_size (ho_size_of gpu_host) (get_inference_cache_descriptors gpu_backend 1 4096) = Inr bytes \<and>
     sv_attn_cache_bytes s = 21 * bytes"
proof -
  from auto_server_starts obtain s where s: "init_server gpu_host small_config auto_args = Inr s" "sv_num_blocks s = 21"
    "sv_torch_dtype s = float_dtype ''bfloat16''" by blast
  have "\<exists>bytes. get_allocation_size (ho_size_of gpu_host) (get_inference_cache_descriptors gpu_backend 1 4096) = Inr bytes \<and>
      sv_attn_cache_bytes s = sv_num_blocks s * bytes"
  proof (rule cache_budget_exact [OF s(1)])
    show "4096 = default_to (ar_attn_cache_tokens auto_args) small_config 16384 4096"
      by (simp add: default_to_def auto_args_def is_multiquery_attn_def small_config_def)
    show "one_device_block (mc_block small_config) (sv_torch_dtype s) gpu_backend"
      by (simp add: one_device_block_def gpu_backend_def s(3) small_config_def)
  qed
  then show ?thesis using s(1,2) by metis
qed

subsection \<open>The loop\<close>

text \<open>Whether a container is alive after the events; None when one is created beside another, or shut down or
  cleaned up without one.\<close>

fun containers :: "bool \<Rightarrow> server_event list \<Rightarrow> bool option" where
  "containers alive [] = Some alive"
| "containers alive (Created is # tr) = (if alive then None else containers True tr)"
| "containers alive (Shut_down # tr) = (if alive then containers False tr else None)"
| "containers alive (Cleaned # tr) = (if alive then None else containers False tr)"

text \<open>The blocks a server may serve: those it was told to, or as many consecutive ones of the model as it chose.\<close>

definition own_blocks :: "server \<Rightarrow> int list \<Rightarrow> bool" where
  "own_blocks s is \<longleftrightarrow> (case sv_strict_block_indices s of
      Some strict \<Rightarrow> is = strict
    | None \<Rightarrow> \<exists>a. is = py_range a (a + sv_num_blocks s) \<and> 0 \<le> a \<and> a + sv_num_blocks s \<le> mc_num_hidden_layers (sv_config s))"

lemma lookup_latest_total:
  assumes "pydantic_ok P" "base58_ok b58"
  shows "\<exists>infos. get_remote_module_infos get_many P b58 now dht uids None aa True = Inr infos \<and> map rm_uid infos = uids"
proof -
  let ?read = "read_module P b58 aa (get_many dht uids PInf)"
  obtain f where f: "\<And>uid. ?read uid = Inr (f uid) \<and> rm_uid (f uid) = uid" using read_module_total [OF assms] by metis
  then have "mapR ?read uids = Inr (map f uids)" by (auto intro: mapR_total)
  with f show ?thesis by (intro exI [of _ "map f uids"]) (auto simp: get_remote_module_infos_def Let_def intro: map_idI)
qed

lemma lookup_modules_total:
  assumes "pydantic_ok (sw_pydantic W)" "base58_ok (sw_from_base58 W)"
  shows "\<exists>infos. lookup_modules W dht s = Inr infos \<and> map rm_uid infos = sv_module_uids s"
  unfolding lookup_modules_def using assms by (rule lookup_latest_total)

lemma choose_best_blocks_inside:
  assumes "compute_spans infos JOINING = Inr spans" "1 \<le> k" "k \<le> int (length infos)"
  shows "\<exists>a. choose_best_blocks k infos = Inr (py_range a (a + k)) \<and> 0 \<le> a \<and> a + k \<le> int (length infos)"
proof -
  let ?T = "compute_throughputs spans (length infos)"
  have T: "map ((!) ?T) [0..<length infos] = ?T" using map_nth [of ?T] by simp
  obtain a where "choose_best_start ?T k = Inr a" "0 \<le> a" "a + k \<le> int (length infos)"
    using choose_best_start_spec [OF assms(2,3), of "(!) ?T"] unfolding T by metis
  then show ?thesis using assms(1) by (intro exI [of _ a]) (simp add: choose_best_blocks_def)
qed

lemma choose_blocks_own:
  assumes "pydantic_ok (sw_pydantic W)" "base58_ok (sw_from_base58 W)" "init_server h config args = Inr s" "1 \<le> sv_num_blocks s"
  shows "\<exists>is. choose_blocks W dht s = Inr is \<and> own_blocks s is"
proof (cases "sv_strict_block_indices s")
  case None
  note i = init_server_Inr [OF assms(3)]
  have le: "sv_num_blocks s \<le> mc_num_hidden_layers config" using i(4) None settle_blocks_Inr by simp
  obtain infos where infos: "lookup_modules W dht s = Inr infos" "map rm_uid infos = sv_module_uids s"
    using lookup_modules_total [OF assms(1,2)] by blast
  have len: "int (length infos) = mc_num_hidden_layers config"
    using arg_cong [OF infos(2), of length] i(2) le assms(4) by simp
  have "\<exists>spans. compute_spans infos JOINING = Inr spans"
  proof (cases infos)
    case (Cons m ms)
    then have "rm_uid m \<in> set (sv_module_uids s)" using infos(2) by (metis list.set_intros(1) list.simps(9))
    then obtain j where "rm_uid m = block_uid (sv_dht_prefix s) j" unfolding i(2) by auto
    then show ?thesis using Cons parse_block_uid [OF check_dht_prefix_Inr [OF i(3)]] by (simp add: compute_spans_def)
  qed (simp add: compute_spans_def)
  then obtain spans where "compute_spans infos JOINING = Inr spans" by blast
  from choose_best_blocks_inside [OF this assms(4)] i(1) le None len show ?thesis
    by (auto simp: choose_blocks_def infos(1) own_blocks_def)
qed (simp add: choose_blocks_def own_blocks_def)

text \<open>C24. The serving loop keeps one container at a time: whatever happens in the swarm, to the subprocesses and
  to the creation of containers, a container is created only after the one before was shut down and
  cleaned up, none is left when the loop returns or raises, and every container serves either exactly the
  blocks the server was told to or the chosen number of consecutive blocks inside the model.\<close>

theorem one_container_at_a_time:
  assumes "pydantic_ok (sw_pydantic W)" and "base58_ok (sw_from_base58 W)"
    and "init_server h config args = Inr s" and "1 \<le> sv_num_blocks s"
    and "run_server W s rounds = (tr, out)"
  shows "(\<exists>alive. containers False tr = Some alive \<and> (alive \<longrightarrow> out = Keep_serving \<or> out = Undecided)) \<and>
    (\<forall>is. Created is \<in> set tr \<longrightarrow> own_blocks s is)"
  using assms(5)
proof (induction rounds arbitrary: tr out)
  case (Cons r rs)
  obtain bs where bs: "choose_blocks W (ro_dht r) s = Inr bs" "own_blocks s bs"
    using choose_blocks_own [OF assms(1-4)] by blast
  show ?case
  proof (cases "ro_create r bs")
    case (Inr u)
    obtain tr' out' where rest: "run_server W s rs = (tr', out')" by fastforce
    from Cons.IH [OF rest] Cons.prems bs show ?thesis
      by (cases "serve W s (ro_wake_ups r)") (auto simp: Inr rest)
  qed (use Cons.prems bs in auto)
qed auto

definition quiet_swarm :: "unit swarm" where
  "quiet_swarm = \<lparr>sw_get_many = \<lambda>_ _ _ _. None, sw_pydantic = strict_pydantic, sw_from_base58 = Inr, sw_peer_id = ''QmA'', sw_shuffle = \<lambda>_. id\<rparr>"

definition crash_rounds :: "unit round list" where
  "crash_rounds = [\<lparr>ro_dht = (), ro_create = \<lambda>_. Inr (), ro_wake_ups = [\<lparr>wk_stop = False, wk_healthy = False, wk_dht = ()\<rparr>]\<rparr>,
     \<lparr>ro_dht = (), ro_create = \<lambda>_. Inr (), ro_wake_ups = [\<lparr>wk_stop = True, wk_healthy = True, wk_dht = ()\<rparr>]\<rparr>]"

theorem one_container_at_a_time_witness:
  "\<exists>s tr out. init_server gpu_host small_config auto_args = Inr s \<and> run_server quiet_swarm s crash_rounds = (tr, out) \<and>
     (\<exists>alive. containers False tr = Some alive \<and> (alive \<longrightarrow> out = Keep_serving \<or> out = Undecided)) \<and>
     (\<forall>is. Created is \<in> set tr \<longrightarrow> own_blocks s is)"
proof -
  from auto_server_starts obtain s where s: "init_server gpu_host small_config auto_args = Inr s" "sv_num_blocks s = 21" by blast
  obtain tr out where run: "run_server quiet_swarm s crash_rounds = (tr, out)" by fastforce
  from one_container_at_a_time [OF _ _ s(1) _ run] s run show ?thesis
    by (auto simp: quiet_swarm_def strict_pydantic_ok base58_ok_def)
qed

end
