(* ===== verification/Announcer.thy ===== *)
theory Announcer
  imports Server Ping
begin

text \<open>
  \<open>src/peerz/server/announcer.py\<close>: the thread that keeps the server's record in the DHT up to date. The thread
  and the owner that calls \<open>announce\<close> share the record and an event; their steps interleave. One step of
  the thread is one line that reads or writes what they share. The DHT, base58, \<open>random.sample\<close>, the storage
  of round-trip times, the clock and the pings are parameters; so is the number of free cache bytes, read
  from the memory cache at the top of every turn.

  The lemmas show that no announcement is lost as long as the server does not go offline, that the thread
  ends when it does, and that its last record may nevertheless still say that the server is online.
\<close>

subsection \<open>State\<close>

record announcer =
  an_module_uids :: "module_uid list"
  an_model_info :: model_info
  an_bytes_per_token :: int
  an_expiration :: rat
  an_dht_prefix :: string
  an_max_pinged :: int
  an_next_uids :: "module_uid list"

text \<open>\<open>__init__\<close>: also writes the range of blocks into the shared record.\<close>

definition init_announcer ::
    "(torch_dtype_info \<Rightarrow> int result) \<Rightarrow> block_config \<Rightarrow> module_uid list \<Rightarrow> server_info \<Rightarrow> model_info \<Rightarrow> rat \<Rightarrow> int
     \<Rightarrow> (announcer \<times> server_info) result" where
  "init_announcer size_of cfg uids info model expiration max_pinged =
     bindR (case torch_dtype info of None \<Rightarrow> Inl KeyError | Some n \<Rightarrow> dict_item DTYPE_MAP n) (\<lambda>arg.
     bindR (case arg of Dtype d \<Rightarrow> size_of d | _ \<Rightarrow> Inl AttributeError) (\<lambda>bytes.
     guardR (cfg_num_key_value_groups cfg \<noteq> 0) ZeroDivisionError
     (bindR (py_index uids 0) (\<lambda>uid.
      bindR (parse_uid uid) (\<lambda>(prefix, _).
      bindR (mapR (\<lambda>u. bindR (parse_uid u) (\<lambda>(_, i). Inr i)) uids) (\<lambda>is.
      (let first = Min (set is); stop = Max (set is) + 1 in
       Inr (\<lparr>an_module_uids = uids, an_model_info = model,
              an_bytes_per_token = cfg_hidden_size cfg * bytes div cfg_num_key_value_groups cfg,
              an_expiration = expiration, an_dht_prefix = prefix, an_max_pinged = max_pinged,
              an_next_uids = map (block_uid prefix) (py_range (first + 1) (stop + 1))\<rparr>,
            info\<lparr>start_block := Some first, end_block := Some stop\<rparr>))))))))"

datatype announcer_pc = At_top | At_ping | At_declare | At_check | At_wait | At_clear | Ended | Crashed py_error

datatype owner_pc = Idle | Set_trigger server_state | Joining | Joined

record ('d, 's) announcing =
  as_pc :: announcer_pc
  as_owner :: owner_pc
  as_info :: server_info
  as_trigger :: bool
  as_dht :: 'd
  as_emas :: 's
  as_declared :: "server_info list"     \<comment> \<open>the records stored so far, newest first\<close>

record ('d, 's) announcer_env =
  av_store :: "'d store_many"
  av_get :: "'d get_many"
  av_store_model :: "'d \<Rightarrow> string \<Rightarrow> wire \<Rightarrow> rat \<Rightarrow> 'd"     \<comment> \<open>under the key \<open>_peerz.models\<close>\<close>
  av_pydantic :: pydantic_lax
  av_from_base58 :: "string \<Rightarrow> peer_id result"
  av_peer_id :: peer_id
  av_storage :: "'s timed_storage"

text \<open>What a step of the thread finds: free bytes, the clock, pings, samples, and whether a wait timed out.\<close>

record turn =
  tu_bytes_left :: int
  tu_now :: rat
  tu_rpc :: "peer_id \<Rightarrow> rpc_ping"
  tu_sample :: "peer_id list \<Rightarrow> int \<Rightarrow> peer_id list"
  tu_timeout :: bool

subsection \<open>The thread\<close>

definition ping_next_servers :: "('d, 's) announcer_env \<Rightarrow> announcer \<Rightarrow> turn \<Rightarrow> 'd \<Rightarrow> 's \<Rightarrow> 's result" where
  "ping_next_servers E a t dht emas =
     bindR (get_remote_module_infos (av_get E) (av_pydantic E) (av_from_base58 E) (tu_now t) dht (an_next_uids a) None None True) (\<lambda>infos.
     (let middle_servers = remdups (concat (map (\<lambda>m. map fst (rm_servers m)) (py_slice infos 0 (-1))));
          pinged = remdups (sample_up_to (tu_sample t) middle_servers (an_max_pinged a));
          pinged = filter (\<lambda>p. p \<noteq> av_peer_id E) pinged in
      bindR (py_index infos (-1)) (\<lambda>m.
        Inr (aggregate_ping (av_storage E) (1 / 5) 300 (tu_now t) (tu_rpc t)
               (remdups (pinged @ sample_up_to (tu_sample t) (map fst (rm_servers m)) (an_max_pinged a))) emas))))"

definition is_private :: "string \<Rightarrow> bool" where
  "is_private prefix \<longleftrightarrow> take 1 prefix = ''_''"

definition announcer_thread :: "('d, 's) announcer_env \<Rightarrow> announcer \<Rightarrow> turn \<Rightarrow> ('d, 's) announcing \<Rightarrow> ('d, 's) announcing" where
  "announcer_thread E a t s =
     (case as_pc s of
        At_top \<Rightarrow>
          if an_bytes_per_token a = 0 then s\<lparr>as_pc := Crashed ZeroDivisionError\<rparr>
          else s\<lparr>as_info := (as_info s)\<lparr>cache_tokens_left := Some (tu_bytes_left t div an_bytes_per_token a)\<rparr>, as_pc := At_ping\<rparr>
      | At_ping \<Rightarrow>
          if si_state (as_info s) \<noteq> OFFLINE then
            (case ping_next_servers E a t (as_dht s) (as_emas s) of
               Inl e \<Rightarrow> s\<lparr>as_pc := Crashed e\<rparr>
             | Inr emas \<Rightarrow> s\<lparr>as_emas := emas, as_pc := At_declare,
                 as_info := (as_info s)\<lparr>next_pings := Some (ping_to_dict (av_storage E) (tu_now t) emas)\<rparr>\<rparr>)
          else s\<lparr>as_info := (as_info s)\<lparr>next_pings := None\<rparr>, as_pc := At_declare\<rparr>
      | At_declare \<Rightarrow>
          (case declare_active_modules (av_store E) (as_dht s) (av_peer_id E) (an_module_uids a) (as_info s)
                  (Fin (tu_now t + an_expiration a)) of
             Inl e \<Rightarrow> s\<lparr>as_pc := Crashed e\<rparr>
           | Inr dht \<Rightarrow> s\<lparr>as_dht := dht, as_declared := as_info s # as_declared s, as_pc := At_check\<rparr>)
      | At_check \<Rightarrow>
          if si_state (as_info s) = OFFLINE then s\<lparr>as_pc := Ended\<rparr>
          else s\<lparr>as_pc := At_wait,
                 as_dht := (if is_private (an_dht_prefix a) then as_dht s
                            else av_store_model E (as_dht s) (an_dht_prefix a)
                              (WDict (model_info_to_dict (an_model_info a))) (tu_now t + an_expiration a))\<rparr>
      | At_wait \<Rightarrow> if as_trigger s \<or> tu_timeout t then s\<lparr>as_pc := At_clear\<rparr> else s
      | At_clear \<Rightarrow> s\<lparr>as_trigger := False, as_pc := At_top\<rparr>
      | _ \<Rightarrow> s)"

subsection \<open>Interleaving with \<open>announce\<close>\<close>

text \<open>\<open>announce(state)\<close> in three steps: write the state, set the event, and when going offline wait for the thread.\<close>

definition announce_begin :: "server_state \<Rightarrow> ('d, 's) announcing \<Rightarrow> ('d, 's) announcing" where
  "announce_begin st s = s\<lparr>as_info := (as_info s)\<lparr>si_state := st\<rparr>, as_owner := Set_trigger st\<rparr>"

definition announce_trigger :: "server_state \<Rightarrow> ('d, 's) announcing \<Rightarrow> ('d, 's) announcing" where
  "announce_trigger st s = s\<lparr>as_trigger := True, as_owner := (if st = OFFLINE then Joining else Idle)\<rparr>"

inductive announcer_step :: "('d, 's) announcer_env \<Rightarrow> announcer \<Rightarrow> ('d, 's) announcing \<Rightarrow> ('d, 's) announcing \<Rightarrow> bool"
  for E a where
  thread_step: "announcer_step E a s (announcer_thread E a t s)"
| state_written: "as_owner s = Idle \<Longrightarrow> announcer_step E a s (announce_begin st s)"
| triggered: "as_owner s = Set_trigger st \<Longrightarrow> announcer_step E a s (announce_trigger st s)"
| joined: "as_owner s = Joining \<Longrightarrow> as_pc s = Ended \<or> (\<exists>e. as_pc s = Crashed e) \<Longrightarrow> announcer_step E a s (s\<lparr>as_owner := Joined\<rparr>)"

definition announcer_start :: "('d, 's) announcing \<Rightarrow> bool" where
  "announcer_start s \<longleftrightarrow> as_pc s = At_top \<and> as_owner s = Idle \<and> \<not> as_trigger s \<and> as_declared s = [] \<and>
     si_state (as_info s) = JOINING"

text \<open>The thread alone, once for every turn it is given.\<close>

fun run_thread :: "('d, 's) announcer_env \<Rightarrow> announcer \<Rightarrow> turn list \<Rightarrow> ('d, 's) announcing \<Rightarrow> ('d, 's) announcing" where
  "run_thread E a [] s = s"
| "run_thread E a (t # ts) s = run_thread E a ts (announcer_thread E a t s)"

subsection \<open>No announcement is lost\<close>

text \<open>Nothing that the thread does in a turn can fail: the blocks have proper uids and the bytes per token are
  not zero.\<close>

definition announcer_ok :: "('d, 's) announcer_env \<Rightarrow> announcer \<Rightarrow> bool" where
  "announcer_ok E a \<longleftrightarrow> pydantic_ok (av_pydantic E) \<and> base58_ok (av_from_base58 E) \<and> an_bytes_per_token a \<noteq> 0 \<and> an_next_uids a \<noteq> [] \<and>
     (\<forall>uid \<in> set (an_module_uids a). UID_DELIMITER \<in> set uid \<and> CHAIN_DELIMITER \<notin> set uid)"

lemma ping_next_servers_total:
  assumes "announcer_ok E a"
  shows "\<exists>emas'. ping_next_servers E a t dht emas = Inr emas'"
proof -
  obtain infos where infos: "get_remote_module_infos (av_get E) (av_pydantic E) (av_from_base58 E) (tu_now t) dht (an_next_uids a) None None True = Inr infos"
      "map rm_uid infos = an_next_uids a"
    using lookup_latest_total [of "av_pydantic E" "av_from_base58 E"] assms unfolding announcer_ok_def by metis
  then have "infos \<noteq> []" using assms by (auto simp: announcer_ok_def)
  then show ?thesis by (simp add: ping_next_servers_def infos(1) Let_def py_index_last)
qed

text \<open>What one step of the thread does when nothing fails, and which part of the state it leaves alone.\<close>

lemma thread_keeps [simp]:
  "as_owner (announcer_thread E a t s) = as_owner s" "si_state (as_info (announcer_thread E a t s)) = si_state (as_info s)"
  by (auto simp: announcer_thread_def split: announcer_pc.splits sum.splits)

lemma thread_pc:
  assumes "announcer_ok E a"
  shows "as_pc (announcer_thread E a t s) =
    (case as_pc s of At_top \<Rightarrow> At_ping | At_ping \<Rightarrow> At_declare | At_declare \<Rightarrow> At_check
     | At_check \<Rightarrow> if si_state (as_info s) = OFFLINE then Ended else At_wait
     | At_wait \<Rightarrow> if as_trigger s \<or> tu_timeout t then At_clear else At_wait | At_clear \<Rightarrow> At_top | p \<Rightarrow> p)"
  using assms ping_next_servers_total [OF assms, of t "as_dht s" "as_emas s"]
  by (cases "as_pc s") (auto simp: announcer_thread_def announcer_ok_def declare_active_modules_def split: sum.splits)

lemma thread_trigger: "as_trigger (announcer_thread E a t s) = (as_pc s \<noteq> At_clear \<and> as_trigger s)"
  by (cases "as_pc s") (auto simp: announcer_thread_def split: sum.splits)

lemma thread_declared:
  assumes "announcer_ok E a"
  shows "as_declared (announcer_thread E a t s) = (if as_pc s = At_declare then as_info s # as_declared s else as_declared s)"
  using assms
  by (cases "as_pc s") (auto simp: announcer_thread_def announcer_ok_def declare_active_modules_def split: sum.splits)

text \<open>After the record is stored and until the event is cleared, either the newest record has the current
  state or the event is, or is about to be, set. Only the last call of the owner goes offline; the thread
  waits offline only if it will be woken, and ends only offline.\<close>

definition announcer_inv :: "('d, 's) announcer_env \<Rightarrow> announcer \<Rightarrow> ('d, 's) announcing \<Rightarrow> bool" where
  "announcer_inv E a s \<longleftrightarrow> announcer_ok E a \<longrightarrow>
     (as_pc s = At_check \<or> as_pc s = At_wait \<longrightarrow>
        as_trigger s \<or> (\<exists>st. as_owner s = Set_trigger st) \<or>
        (as_declared s \<noteq> [] \<and> si_state (hd (as_declared s)) = si_state (as_info s))) \<and>
     (si_state (as_info s) = OFFLINE \<longleftrightarrow> as_owner s \<in> {Joining, Joined, Set_trigger OFFLINE}) \<and>
     (as_pc s = At_wait \<and> si_state (as_info s) = OFFLINE \<longrightarrow> as_trigger s \<or> as_owner s = Set_trigger OFFLINE) \<and>
     (as_pc s = Ended \<longrightarrow> si_state (as_info s) = OFFLINE) \<and> (\<forall>e. as_pc s \<noteq> Crashed e)"

interpretation announcing: invariant_system announcer_start "announcer_step E a" "announcer_inv E a" for E a
proof
  fix s t
  assume inv: "announcer_inv E a s" and step: "announcer_step E a s t"
  from step inv show "announcer_inv E a t"
  proof cases
    case (thread_step u)
    with inv show ?thesis
      by (cases "as_pc s") (auto simp: announcer_inv_def thread_pc thread_trigger thread_declared)
  qed (auto simp: announcer_inv_def announce_begin_def announce_trigger_def)
qed (simp add: announcer_inv_def announcer_start_def)

lemma run_thread_keeps [simp]: "si_state (as_info (run_thread E a ts s)) = si_state (as_info s)"
  by (induction ts arbitrary: s) simp_all

text \<open>Six steps of the thread lead from any place before the wait, or from a wait that the event ends, through
  the next declaration: to the end of the thread when offline, to a fresh record otherwise.\<close>

lemma six_turns:
  assumes "announcer_ok E a" "length ts = 6" "announcer_inv E a s" "\<forall>st. as_owner s \<noteq> Set_trigger st"
  shows "if si_state (as_info s) = OFFLINE then as_pc (run_thread E a ts s) = Ended
    else \<exists>k \<le> 6. as_declared (run_thread E a (take k ts) s) \<noteq> [] \<and>
      si_state (hd (as_declared (run_thread E a (take k ts) s))) = si_state (as_info s)"
proof -
  obtain t1 t2 t3 t4 t5 t6 where ts: "ts = [t1, t2, t3, t4, t5, t6]"
    using assms(2) by (auto simp: numeral_eq_Suc length_Suc_conv)
  note steps = thread_pc [OF assms(1)] thread_trigger thread_declared [OF assms(1)]
  show ?thesis
  proof (cases "si_state (as_info s) = OFFLINE")
    case True
    with assms(1,3,4) show ?thesis unfolding ts by (cases "as_pc s") (auto simp: announcer_inv_def steps)
  next
    case False
    have "\<exists>k \<le> 6. as_declared (run_thread E a (take k ts) s) \<noteq> [] \<and>
      si_state (hd (as_declared (run_thread E a (take k ts) s))) = si_state (as_info s)"
      if "k \<le> 6" "as_declared (run_thread E a (take k ts) s) \<noteq> []"
        "si_state (hd (as_declared (run_thread E a (take k ts) s))) = si_state (as_info s)" for k using that by blast
    note at = this
    show ?thesis
    proof (cases "as_declared s \<noteq> [] \<and> si_state (hd (as_declared s)) = si_state (as_info s)")
      case False
      with \<open>si_state (as_info s) \<noteq> OFFLINE\<close> assms(1,3,4) show ?thesis unfolding ts
        using at [of 1, unfolded ts] at [of 2, unfolded ts] at [of 3, unfolded ts] at [of 4, unfolded ts] at [of 5, unfolded ts] at [of 6, unfolded ts]
        by (cases "as_pc s") (simp_all add: announcer_inv_def steps)
    qed (use at [of 0] False in simp)
  qed
qed


definition list_storage :: "(peer_id, xfloat) dict timed_storage" where
  "list_storage = \<lparr>ts_store = \<lambda>p v _ _ s. dict_set p v s, ts_get = \<lambda>_ s p. dict_get s p, ts_items = \<lambda>_ s. s\<rparr>"

definition local_env :: "(module_uid \<Rightarrow> (string, wire) dict, (peer_id, xfloat) dict) announcer_env" where
  "local_env = \<lparr>av_store = map_store, av_get = map_get, av_store_model = \<lambda>d _ _ _. d, av_pydantic = strict_pydantic,
     av_from_base58 = Inr, av_peer_id = ''QmA'', av_storage = list_storage\<rparr>"

definition local_announcer :: announcer where
  "local_announcer = \<lparr>an_module_uids = [''m.3''], an_model_info = \<lparr>mi_num_blocks = 8, mi_repository = None\<rparr>, an_bytes_per_token = 16,
     an_expiration = 120, an_dht_prefix = ''m'', an_max_pinged = 5, an_next_uids = [''m.4'']\<rparr>"

definition first_state :: "(module_uid \<Rightarrow> (string, wire) dict, (peer_id, xfloat) dict) announcing" where
  "first_state = \<lparr>as_pc = At_top, as_owner = Idle, as_info = sample_info\<lparr>si_state := JOINING\<rparr>, as_trigger = False, as_dht = \<lambda>_. [],
     as_emas = [], as_declared = []\<rparr>"

definition plain_turn :: turn where
  "plain_turn = \<lparr>tu_bytes_left = 64, tu_now = 0, tu_rpc = \<lambda>_. Pong 1, tu_sample = \<lambda>xs k. take (nat k) xs, tu_timeout = True\<rparr>"

lemma local_announcer_ok: "announcer_ok local_env local_announcer"
  by (simp add: announcer_ok_def local_env_def local_announcer_def strict_pydantic_ok base58_ok_def UID_DELIMITER_def CHAIN_DELIMITER_def)


text \<open>Going offline may not be announced: when the owner writes the state between the declaration and the
  check that follows it, the thread ends at once, the call returns, and the newest record in the DHT
  still says that the server is online.\<close>

definition offline_race :: "(module_uid \<Rightarrow> (string, wire) dict, (peer_id, xfloat) dict) announcing" where
  "offline_race = (let T = announcer_thread local_env local_announcer plain_turn;
       online = T (T (T (announce_trigger ONLINE (announce_begin ONLINE first_state))))
     in (T (announce_trigger OFFLINE (announce_begin OFFLINE online)))\<lparr>as_owner := Joined\<rparr>)"

theorem offline_not_announced:
  "(announcer_step local_env local_announcer)\<^sup>*\<^sup>* first_state offline_race \<and>
   as_pc offline_race = Ended \<and> as_owner offline_race = Joined \<and>
   si_state (as_info offline_race) = OFFLINE \<and> map si_state (as_declared offline_race) = [ONLINE]"
proof -
  let ?R = "announcer_step local_env local_announcer" and ?T = "announcer_thread local_env local_announcer plain_turn"
  let ?s2 = "announce_trigger ONLINE (announce_begin ONLINE first_state)"
  let ?s5 = "?T (?T (?T ?s2))"
  let ?s7 = "announce_trigger OFFLINE (announce_begin OFFLINE ?s5)"
  note pcs = thread_pc [OF local_announcer_ok] thread_declared [OF local_announcer_ok] announce_begin_def announce_trigger_def first_state_def
  have "?R\<^sup>*\<^sup>* first_state ?s2"
    by (rule converse_rtranclp_into_rtranclp, rule state_written, simp add: first_state_def)
      (rule r_into_rtranclp, rule triggered, simp add: announce_begin_def)
  also have "?R\<^sup>*\<^sup>* ?s2 ?s5"
    by (rule rtranclp_trans, rule r_into_rtranclp, rule thread_step, rule rtranclp_trans, rule r_into_rtranclp, rule thread_step,
        rule r_into_rtranclp, rule thread_step)
  also have "?R\<^sup>*\<^sup>* ?s5 ?s7"
    by (rule converse_rtranclp_into_rtranclp, rule state_written, simp add: first_state_def announce_begin_def announce_trigger_def)
      (rule r_into_rtranclp, rule triggered, simp add: announce_begin_def)
  also have "?R ?s7 (?T ?s7)" by (rule thread_step)
  also have "?R (?T ?s7) offline_race" unfolding offline_race_def Let_def
    by (rule joined) (simp_all add: pcs)
  finally show ?thesis by (simp add: offline_race_def Let_def pcs)
qed

end
