(* ===== verification/Throughput.thy ===== *)
theory Throughput
  imports Server
begin

text \<open>
  \<open>src/peerz/server/throughput.py\<close>: how fast a server says it is. Measurements are kept in a file under a key
  that names the model, the devices and the type of the weights; the file is the dictionary that was last
  saved, or absent when it does not exist or cannot be read. The names of CUDA devices, the result of the
  speed test and the time that a run of the block takes are parameters.

  The lemmas show what is reported, and that a second server on the same devices reuses the measurements.
\<close>

subsection \<open>Names\<close>

definition upper_char :: "char \<Rightarrow> char" where
  "upper_char c = (if 97 \<le> (of_char c :: nat) \<and> (of_char c :: nat) \<le> 122 then char_of ((of_char c :: nat) - 32) else c)"

definition get_device_name :: "(torch_device \<Rightarrow> string) \<Rightarrow> torch_device \<Rightarrow> string" where
  "get_device_name cuda_name device =
     (if dev_type device = ''cuda'' then cuda_name device @ '' GPU'' else map upper_char (dev_type device))"

definition get_dtype_name :: "torch_dtype_info \<Rightarrow> quantization \<Rightarrow> string" where
  "get_dtype_name dtype quant =
     dt_name dtype @ (if quant \<noteq> QUANT_NONE then '', quantized to '' @ quant_name quant else [])"

definition underscored :: "string \<Rightarrow> string" where
  "underscored = map (\<lambda>c. if c = CHR '' '' then CHR ''_'' else c)"

definition throughput_key ::
    "(torch_device \<Rightarrow> string) \<Rightarrow> string \<Rightarrow> torch_device \<Rightarrow> torch_dtype_info \<Rightarrow> quantization \<Rightarrow> torch_device list \<Rightarrow> string" where
  "throughput_key cuda_name model_name device dtype quant tp_devices =
     ''model_'' @ model_name @ ''_device_'' @ underscored (get_device_name cuda_name device) @ ''_dtype_'' @ get_dtype_name dtype quant @
     (if length tp_devices > 1
      then concat (map (\<lambda>(i, d). ''_tp'' @ py_str (int i) @ ''_'' @ underscored (get_device_name cuda_name d)) (enumerate 0 tp_devices))
      else [])"

subsection \<open>Measurements\<close>

text \<open>How the speed test ended: no answer in time, an exception, or the speeds in bits per second.\<close>

datatype speed_test = No_answer | Speed_exception | Speeds rat rat

definition measure_network_rps :: "block_config \<Rightarrow> rat \<Rightarrow> speed_test \<Rightarrow> rat result" where
  "measure_network_rps cfg default_speed outcome =
     (let bits_per_request = of_int (cfg_hidden_size cfg * 16);
          fallback = guardR (bits_per_request \<noteq> 0) ZeroDivisionError (Inr (default_speed / bits_per_request)) in
      case outcome of
        Speeds download upload \<Rightarrow>
          guardR (bits_per_request \<noteq> 0) ZeroDivisionError
          (let rps = min download upload / bits_per_request in if rps = 0 then fallback else Inr rps)
      | _ \<Rightarrow> fallback)"

text \<open>\<open>elapsed\<close> is the time that \<open>n_steps\<close> runs of the block on \<open>n_tokens\<close> tokens take.\<close>

definition measure_compute_rps :: "(int \<Rightarrow> int \<Rightarrow> bool \<Rightarrow> rat) \<Rightarrow> int \<Rightarrow> int \<Rightarrow> bool \<Rightarrow> rat result" where
  "measure_compute_rps elapsed n_tokens n_steps inference =
     guardR (elapsed n_tokens n_steps inference \<noteq> 0) ZeroDivisionError
       (Inr (of_int (n_steps * n_tokens) / elapsed n_tokens n_steps inference))"

definition measure_throughput_info :: "(int \<Rightarrow> int \<Rightarrow> bool \<Rightarrow> rat) \<Rightarrow> block_config \<Rightarrow> speed_test \<Rightarrow> (string, rat) dict result" where
  "measure_throughput_info elapsed cfg outcome =
     bindR (measure_compute_rps elapsed 1 100 True) (\<lambda>inference.
     bindR (measure_compute_rps elapsed 1024 10 False) (\<lambda>forward.
     bindR (measure_network_rps cfg 100000000 outcome) (\<lambda>network.
       Inr [(''inference_rps'', inference), (''forward_rps'', forward), (''network_rps'', network)])))"

subsection \<open>The report\<close>

type_synonym throughput_file = "(string, (string, rat) dict) dict option"

text \<open>The lines after the lock is released: the throughput is limited by the blocks and by the network.\<close>

definition report_throughput :: "rat \<Rightarrow> int \<Rightarrow> bool \<Rightarrow> (string, rat) dict \<Rightarrow> (string, rat) dict result" where
  "report_throughput relay_penalty n via_relay info =
     (let average_blocks_used = (of_int n + 1) / 2 in
      bindR (dict_item info ''forward_rps'') (\<lambda>forward.
      guardR (average_blocks_used \<noteq> 0) ZeroDivisionError
      (bindR (dict_item info ''network_rps'') (\<lambda>network.
        Inr (dict_set ''throughput''
               (min (forward / average_blocks_used) (network * (if via_relay then relay_penalty else 1))) info)))))"

text \<open>\<open>get_server_throughput\<close>: the file before and after, whether it can be written, and the report. The throughput
  itself is added to the dictionary after the file is saved.\<close>

definition get_server_throughput ::
    "string \<Rightarrow> (string, rat) dict result \<Rightarrow> rat \<Rightarrow> int \<Rightarrow> bool \<Rightarrow> bool \<Rightarrow> bool \<Rightarrow> throughput_file
     \<Rightarrow> ((string, rat) dict \<times> throughput_file) result" where
  "get_server_throughput cache_key measured relay_penalty n via_relay force_eval writable disk =
     (let cache = (if force_eval then [] else case disk of None \<Rightarrow> [] | Some c \<Rightarrow> c) in
      case dict_get cache cache_key of
        Some info \<Rightarrow> bindR (report_throughput relay_penalty n via_relay info) (\<lambda>r. Inr (r, disk))
      | None \<Rightarrow>
          bindR measured (\<lambda>info.
          bindR (report_throughput relay_penalty n via_relay info) (\<lambda>r.
            Inr (r, if writable then Some (dict_set cache_key info cache) else disk))))"

subsection \<open>Properties\<close>

lemma measured_info:
  assumes "measure_throughput_info elapsed cfg outcome = Inr info"
  obtains i f w where "info = [(''inference_rps'', i), (''forward_rps'', f), (''network_rps'', w)]"
  using assms by (auto simp: measure_throughput_info_def resultD)

lemma report_measured:
  assumes "measure_throughput_info elapsed cfg outcome = Inr info" "0 \<le> n"
  shows "report_throughput pen n relay info = Inr (info @ [(''throughput'',
    min (2 * the (dict_get info ''forward_rps'') / of_int (n + 1)) (the (dict_get info ''network_rps'') * (if relay then pen else 1)))])"
proof -
  have "(0 :: rat) < of_int (n + 1)" using assms(2) unfolding of_int_0_less_iff by simp
  then have n: "(of_int n + 1 :: rat) \<noteq> 0" by simp
  obtain i f w where "info = [(''inference_rps'', i), (''forward_rps'', f), (''network_rps'', w)]" using measured_info [OF assms(1)] .
  with n show ?thesis by (simp add: report_throughput_def dict_item_def mult.commute)
qed

text \<open>Measured once, reported for any number of blocks: after one server has measured its devices and saved the
  file, every later server with the same key reports, without measuring again and leaving the file as it is,
  the smaller of its compute throughput for the average number of blocks of a request and its network
  throughput, the latter cut by the penalty when it is reached through a relay; both computed from the
  measurements of the first server.\<close>

theorem throughput_measured_once:
  assumes "measure_throughput_info elapsed cfg outcome = Inr info" and "0 \<le> n" "0 \<le> n'"
    and "get_server_throughput key (measure_throughput_info elapsed cfg outcome) pen n relay True True disk = Inr (r, disk')"
  shows "get_server_throughput key measured' pen n' relay' False writable' disk' =
    Inr (info @ [(''throughput'', min (2 * the (dict_get info ''forward_rps'') / of_int (n' + 1))
                   (the (dict_get info ''network_rps'') * (if relay' then pen else 1)))], disk') \<and>
    dict_get r ''forward_rps'' = dict_get info ''forward_rps''"
proof -
  obtain i f w where info: "info = [(''inference_rps'', i), (''forward_rps'', f), (''network_rps'', w)]" using measured_info [OF assms(1)] .
  have "disk' = Some [(key, info)]" "r = info @ [(''throughput'', min (2 * the (dict_get info ''forward_rps'') / of_int (n + 1))
      (the (dict_get info ''network_rps'') * (if relay then pen else 1)))]"
    using assms(4) report_measured [OF assms(1,2), of pen relay] by (auto simp: get_server_throughput_def assms(1))
  then show ?thesis using report_measured [OF assms(1,3), of pen relay'] info
    by (simp add: get_server_throughput_def)
qed

definition flat_time :: "int \<Rightarrow> int \<Rightarrow> bool \<Rightarrow> rat" where "flat_time n_tokens n_steps inference = 2"

theorem throughput_measured_once_witness:
  "\<exists>r disk'. get_server_throughput ''k'' (measure_throughput_info flat_time (mc_block small_config) (Speeds 65536000 131072000)) (1 / 5) 3 False True True None = Inr (r, disk') \<and>
     get_server_throughput ''k'' (Inl RuntimeError) (1 / 5) 9 True False False disk' =
       Inr ([(''inference_rps'', 50), (''forward_rps'', 5120), (''network_rps'', 1000), (''throughput'', 200)], disk')"
proof -
  have m: "measure_throughput_info flat_time (mc_block small_config) (Speeds 65536000 131072000) =
      Inr [(''inference_rps'', 50), (''forward_rps'', 5120), (''network_rps'', 1000)]" by code_simp
  then obtain r disk' where r: "get_server_throughput ''k'' (measure_throughput_info flat_time (mc_block small_config) (Speeds 65536000 131072000)) (1 / 5) 3 False True True None = Inr (r, disk')"
    by (simp add: get_server_throughput_def report_throughput_def dict_item_def)
  from throughput_measured_once [OF m _ _ r, of 9 "Inl RuntimeError" True False] r show ?thesis by (intro exI [of _ r] exI [of _ disk']) simp
qed

end
