(* ===== verification/Swarm.thy ===== *)
theory Swarm
  imports Inference_Session Block_Functions
begin

text \<open>
  The client's sessions and the servers' blocks together. The blocks of a model are links of one chain; a
  server session covers a slice of it and keeps the caches of its blocks; a request of the client is
  answered by \<open>inference_request\<close> of the block functions. The world of the client's session is the list of
  the server sessions opened so far. A session of a server has its own store: that sessions on one server do
  not touch each other's caches is shown with the handler.

  The servers are shown to keep the contract \<open>healthy\<close> that the client's lemmas rest on: the caches refine the
  tokens received so far. So a client's session computes the whole chain.
\<close>

definition slice :: "'a list \<Rightarrow> int \<Rightarrow> int \<Rightarrow> 'a list" where
  "slice xs a b = drop (nat a) (take (nat b) xs)"

lemma slice_compose: "a \<le> b \<Longrightarrow> b \<le> c \<Longrightarrow> slice xs a b @ slice xs b c = slice xs a c"
proof -
  assume le: "a \<le> b" "b \<le> c"
  have "take (nat c) xs = take (nat b) xs @ drop (nat b) (take (nat c) xs)"
    using le by (metis append_take_drop_id min.absorb1 nat_mono take_take)
  then have "slice xs a c = drop (nat a) (take (nat b) xs @ drop (nat b) (take (nat c) xs))" by (simp add: slice_def)
  also have "\<dots> = slice xs a b @ slice xs b c"
    using le by (cases "nat a \<le> length xs") (auto simp: slice_def)
  finally show ?thesis by simp
qed

lemma set_slice: "x \<in> set (slice xs a b) \<Longrightarrow> x \<in> set xs"
  unfolding slice_def by (meson in_set_dropD in_set_takeD)

lemma slice_all: "slice xs 0 (int (length xs)) = xs"
  by (simp add: slice_def)

subsection \<open>Server sessions\<close>

record ('x, 'v) chain_session =
  cs_start :: int
  cs_end :: int
  cs_tokens :: "'x list"
  cs_store :: "(int, 'v cache_tensor) dict"

type_synonym ('x, 'v) world = "('x, 'v) chain_session list"

text \<open>What a swarm is made of: the model's blocks with their cache handles, the adapter, the batch, the maximal
  length, the caches as they are allocated, and the route the client gets.\<close>

record ('x, 'v) deployment =
  dp_backends :: "(module_uid, ('x, 'v) backend) dict"
  dp_links :: "('x, 'v) link list"
  dp_adapter :: "string option"
  dp_batch :: int
  dp_max_length :: int
  dp_quant :: quant_type
  dp_fresh :: "(int, 'v cache_tensor) dict"
  dp_route :: "remote_span_info list"

definition chain_sid :: "nat \<Rightarrow> string" where
  "chain_sid n = replicate n CHR ''s''"

definition find_session :: "('x, 'v) world \<Rightarrow> string \<Rightarrow> ('x, 'v) chain_session option" where
  "find_session w sid = (if sid = chain_sid (length sid) \<and> length sid < length w then Some (w ! length sid) else None)"

definition chain_call ::
    "('x::plus, 'v) deployment \<Rightarrow> ('x, unit) request \<Rightarrow> ('x, 'v) world \<Rightarrow> 'x list result \<times> ('x, 'v) world" where
  "chain_call D rq w =
     (case find_session w (rq_session_id rq) of
        None \<Rightarrow> (Inl KeyError, w)
      | Some s \<Rightarrow>
          (let links = slice (dp_links D) (cs_start s) (cs_end s) in
           case inference_request (dp_backends D) (map fst links) (dp_adapter D) (link_handles links) (dp_max_length D) (dp_quant D) None
                  (int (length (cs_tokens s))) [Hidden (dp_batch D) (rq_tokens rq), Dummy, Ids []] (cs_store s) of
             Inl e \<Rightarrow> (Inl e, w)
           | Inr (out, _, _, store) \<Rightarrow>
               (Inr (tokens_of out),
                w[length (rq_session_id rq) := s\<lparr>cs_tokens := cs_tokens s @ rq_tokens rq, cs_store := store\<rparr>])))"

definition swarm_env :: "('x::plus, 'v) deployment \<Rightarrow> (('x, 'v) world, 'x, unit) session_env" where
  "swarm_env D = \<lparr>se_make_sequence = \<lambda>a b w. (Inr (dp_route D), w),
     se_create = \<lambda>sp uid w. (Inr (chain_sid (length w)),
       w @ [\<lparr>cs_start = rs_start sp, cs_end = rs_end sp, cs_tokens = [], cs_store = dp_fresh D\<rparr>]),
     se_call = chain_call D, se_aclose = \<lambda>sid w. (Inr (), w), se_on_success = \<lambda>p w. w, se_on_failure = \<lambda>p w. w,
     se_block_uids = map fst (dp_links D), se_max_retries = None, se_server_to_server = False, se_schema_length = 3\<rparr>"

subsection \<open>The servers keep the contract\<close>

text \<open>The abstraction: the tokens of a session, when its caches hold what its blocks made of them.\<close>

definition chain_view :: "('x::plus, 'v) deployment \<Rightarrow> ('x, 'v) world \<Rightarrow> string \<Rightarrow> (int \<times> int \<times> 'x list) option" where
  "chain_view D w sid =
     (case find_session w sid of
        None \<Rightarrow> None
      | Some s \<Rightarrow>
          if chain_holds (dp_adapter D) (nat (dp_max_length D)) (cs_store s) (slice (dp_links D) (cs_start s) (cs_end s)) (cs_tokens s)
          then Some (cs_start s, cs_end s, cs_tokens s) else None)"

definition chain_blocks :: "('x::plus, 'v) deployment \<Rightarrow> int \<Rightarrow> int \<Rightarrow> 'x list \<Rightarrow> 'x list" where
  "chain_blocks D a b = chain_out (dp_adapter D) (slice (dp_links D) a b)"

text \<open>What the deployment of a model has to satisfy.\<close>

locale deployed =
  fixes D :: "('x::plus, 'v) deployment"
  assumes good: "\<forall>l \<in> set (dp_links D). good_link (\<lambda>_. True) (dp_adapter D) (dp_batch D) (dp_backends D) l"
    and handles: "distinct (concat (link_handles (dp_links D)))"
    and fresh: "chain_holds (dp_adapter D) (nat (dp_max_length D)) (dp_fresh D) (dp_links D) []"
    and batch: "dp_batch D \<noteq> 0"
    and max_length: "0 \<le> dp_max_length D"
    and covers: "contiguous 0 (dp_route D) (int (length (dp_links D)))"

lemma link_handles_map: "link_handles links = map (\<lambda>(_, _, _, hs). hs) links"
  by (induction links rule: link_handles.induct) auto

lemma chain_out_app: "chain_out ad (xs @ ys) X = chain_out ad ys (chain_out ad xs X)"
  by (induction ad xs X rule: chain_out.induct) auto

lemma chain_holds_empty:
  assumes "\<forall>l \<in> set links. good_link tok ad batch_size bs l"
  shows "chain_holds ad M store links [] \<longleftrightarrow> (\<forall>l \<in> set links. chain_holds ad M store [l] [])"
  using assms
proof (induction links)
  case (Cons l links)
  obtain uid b shape hs where l: "l = (uid, b, shape, hs)" by (cases l)
  have "full_out (bk_forward b ad) shape [] = []"
    by (simp add: full_out_def)
  with Cons show ?case by (simp add: l)
qed simp

lemma find_session_new: "find_session (w @ [s]) = (find_session w)(chain_sid (length w) \<mapsto> s)" "find_session w (chain_sid (length w)) = None"
proof -
  have sid: "length (chain_sid n) = n" for n by (simp add: chain_sid_def)
  show "find_session (w @ [s]) = (find_session w)(chain_sid (length w) \<mapsto> s)"
  proof
    fix i
    show "find_session (w @ [s]) i = ((find_session w)(chain_sid (length w) \<mapsto> s)) i"
      by (cases "i = chain_sid (length i)") (auto simp: find_session_def sid nth_append less_Suc_eq)
  qed
  show "find_session w (chain_sid (length w)) = None" by (simp add: find_session_def sid)
qed

lemma find_session_update: "find_session w i \<noteq> None \<Longrightarrow> find_session (w[length i := s]) = (find_session w)(i \<mapsto> s)"
proof
  fix j
  assume "find_session w i \<noteq> None"
  then show "find_session (w[length i := s]) j = ((find_session w)(i \<mapsto> s)) j"
    by (cases "length j = length i") (auto simp: find_session_def chain_sid_def split: if_splits)
qed

context deployed
begin

lemma all_tokens: "list_all (\<lambda>_. True) xs"
  by (simp add: list_all_iff)

lemma slice_facts:
  shows "\<forall>l \<in> set (slice (dp_links D) a b). good_link (\<lambda>_. True) (dp_adapter D) (dp_batch D) (dp_backends D) l"
    and "distinct (concat (link_handles (slice (dp_links D) a b)))"
    and "chain_holds (dp_adapter D) (nat (dp_max_length D)) (dp_fresh D) (slice (dp_links D) a b) []"
proof -
  show g: "\<forall>l \<in> set (slice (dp_links D) a b). good_link (\<lambda>_. True) (dp_adapter D) (dp_batch D) (dp_backends D) l"
    using good by (auto dest: set_slice)
  have "dp_links D = take (nat a) (take (nat b) (dp_links D)) @ slice (dp_links D) a b @ drop (nat b) (dp_links D)" (is "_ = ?xs @ _ @ ?ys")
    by (simp only: slice_def append_assoc [symmetric] append_take_drop_id)
  then have "link_handles (dp_links D) = link_handles ?xs @ link_handles (slice (dp_links D) a b) @ link_handles ?ys"
    unfolding link_handles_map by (metis map_append)
  then show "distinct (concat (link_handles (slice (dp_links D) a b)))"
    using handles by simp
  show "chain_holds (dp_adapter D) (nat (dp_max_length D)) (dp_fresh D) (slice (dp_links D) a b) []"
    using fresh unfolding chain_holds_empty [OF good] chain_holds_empty [OF g] by (auto dest: set_slice)
qed

lemma blocks_causal: "causal_blocks (chain_blocks D)"
proof -
  have "take k (chain_out (dp_adapter D) (slice (dp_links D) a b) xs) = chain_out (dp_adapter D) (slice (dp_links D) a b) (take k xs)" for a b k xs
  proof -
    obtain out where "chain_out (dp_adapter D) (slice (dp_links D) a b) (take k xs @ drop k xs) =
        chain_out (dp_adapter D) (slice (dp_links D) a b) (take k xs) @ out"
      using chain_out_append [OF slice_facts(1) all_tokens all_tokens] by blast
    moreover have "length (chain_out (dp_adapter D) (slice (dp_links D) a b) xs) = length xs"
      "length (chain_out (dp_adapter D) (slice (dp_links D) a b) (take k xs)) = length (take k xs)"
      by (rule chain_out_length [OF slice_facts(1) all_tokens])+
    ultimately show ?thesis by (cases "k \<le> length xs") auto
  qed
  then show ?thesis
    unfolding causal_blocks_def chain_blocks_def
    by (auto simp: chain_out_length [OF slice_facts(1) all_tokens] chain_out_app [symmetric] slice_compose) (simp add: slice_def)
qed

lemma swarm_call_ok:
  assumes "chain_view D w (rq_session_id rq) = Some (a, b, h)" "int (length h + length (rq_tokens rq)) \<le> dp_max_length D"
  shows "\<exists>w'. chain_call D rq w = (Inr (drop (length h) (chain_blocks D a b (h @ rq_tokens rq))), w') \<and>
    chain_view D w' = (chain_view D w)(rq_session_id rq \<mapsto> (a, b, h @ rq_tokens rq))"
proof -
  let ?i = "rq_session_id rq" and ?M = "nat (dp_max_length D)"
  obtain s where s: "find_session w ?i = Some s" "cs_start s = a" "cs_end s = b" "cs_tokens s = h"
    "chain_holds (dp_adapter D) ?M (cs_store s) (slice (dp_links D) a b) h"
    using assms(1) by (auto simp: chain_view_def split: option.splits if_splits)
  let ?links = "slice (dp_links D) a b"
  obtain store where r: "inference_request (dp_backends D) (map fst ?links) (dp_adapter D) (link_handles ?links) (dp_max_length D) (dp_quant D) None
      (int (length h)) [Hidden (dp_batch D) (rq_tokens rq), Dummy, Ids []] (cs_store s) =
      Inr (Hidden (dp_batch D) (drop (length h) (chain_out (dp_adapter D) ?links (h @ rq_tokens rq))), True, length (rq_tokens rq), store)"
    "chain_holds (dp_adapter D) ?M store ?links (h @ rq_tokens rq)"
    using plain_request [OF slice_facts(1,2) s(5) assms(2) _ batch all_tokens all_tokens, of "dp_quant D"] max_length by auto
  let ?s = "s\<lparr>cs_tokens := h @ rq_tokens rq, cs_store := store\<rparr>"
  have "chain_call D rq w = (Inr (drop (length h) (chain_blocks D a b (h @ rq_tokens rq))), w[length ?i := ?s])"
    using s r(1) by (simp add: chain_call_def chain_blocks_def)
  moreover have "chain_view D (w[length ?i := ?s]) = (chain_view D w)(?i \<mapsto> (a, b, h @ rq_tokens rq))"
    using s(1-3) r(2) find_session_update [of w ?i ?s] by (auto simp: chain_view_def fun_eq_iff)
  ultimately show ?thesis by blast
qed

end

sublocale deployed \<subseteq> served: healthy "swarm_env D" "chain_blocks D" "chain_view D" "dp_max_length D"
proof
  have n: "num_blocks (swarm_env D) = int (length (dp_links D))" by (simp add: num_blocks_def swarm_env_def)
  show "\<exists>route w'. se_make_sequence (swarm_env D) 0 (num_blocks (swarm_env D)) w = (Inr route, w') \<and>
      contiguous 0 route (num_blocks (swarm_env D)) \<and> chain_view D w' = chain_view D w" for w
    using covers unfolding n by (simp add: swarm_env_def)
  show "\<exists>sid w'. se_create (swarm_env D) sp uid w = (Inr sid, w') \<and> chain_view D w sid = None \<and>
      chain_view D w' = (chain_view D w)(sid \<mapsto> (rs_start sp, rs_end sp, []))" for sp uid w
    using slice_facts(3) by (auto simp: swarm_env_def chain_view_def find_session_new fun_eq_iff)
  show "\<exists>w'. se_call (swarm_env D) rq w = (Inr (drop (length h) (chain_blocks D a b (h @ rq_tokens rq))), w') \<and>
      chain_view D w' = (chain_view D w)(rq_session_id rq \<mapsto> (a, b, h @ rq_tokens rq))"
    if "chain_view D w (rq_session_id rq) = Some (a, b, h)" "int (length h + length (rq_tokens rq)) \<le> dp_max_length D" for w rq a b h
    using swarm_call_ok [OF that] by (simp add: swarm_env_def)
qed (simp_all add: swarm_env_def blocks_causal)

subsection \<open>The whole model\<close>

context deployed
begin

lemma session_computes_chain:
  assumes "dp_links D \<noteq> []" "max_length \<le> dp_max_length D" "int (length (concat (map snd chunks))) \<le> max_length"
  shows "\<exists>outs s'. session_run (swarm_env D) prompts chunks (new_inference_session max_length []) = Some (Inr outs, s') \<and>
    concat outs = chain_out (dp_adapter D) (dp_links D) (concat (map snd chunks)) \<and>
    map length outs = map (length \<circ> snd) chunks"
proof -
  have n: "num_blocks (swarm_env D) = int (length (dp_links D))" by (simp add: num_blocks_def swarm_env_def)
  then have "0 < num_blocks (swarm_env D)" using assms(1) by simp
  from served.session_run_ok [OF this assms(2,3), of prompts "[]"] show ?thesis
    unfolding n chain_blocks_def slice_all by blast
qed

end

text \<open>C1. A client's session over real servers computes the model: on a deployment with causal blocks, proper
  caches and a route that covers the blocks, a new session that is fed any tokens in any chunks, and whose
  servers answer from their caches, returns chunk by chunk the outputs of all blocks of the model on the
  whole token sequence in one pass.\<close>

theorem swarm_refines_model:
  assumes "deployed D" and "dp_links D \<noteq> []" and "max_length \<le> dp_max_length D"
    and "int (length (concat (map snd chunks))) \<le> max_length"
  shows "\<exists>outs s'. session_run (swarm_env D) prompts chunks (new_inference_session max_length []) = Some (Inr outs, s') \<and>
    concat outs = chain_out (dp_adapter D) (dp_links D) (concat (map snd chunks)) \<and>
    map length outs = map (length \<circ> snd) chunks"
  using assms by (rule deployed.session_computes_chain)

definition two_blocks :: "(int, int) deployment" where
  "two_blocks = \<lparr>dp_backends = [(''m.0'', demo_backend), (''m.1'', demo_backend)], dp_links = two_links, dp_adapter = None, dp_batch = 1,
     dp_max_length = 4, dp_quant = NONE, dp_fresh = empty_store, dp_route = [demo_span ''p'' 0, demo_span ''q'' 1]\<rparr>"

interpretation two_servers: deployed two_blocks
proof
  have fw: "bk_forward demo_backend ad = demo_forward" for ad by (simp add: demo_backend_def)
  show "\<forall>l \<in> set (dp_links two_blocks). good_link (\<lambda>_. True) (dp_adapter two_blocks) (dp_batch two_blocks) (dp_backends two_blocks) l"
    by (auto simp: two_blocks_def two_links_def good_link_def fw row_shape_def sane_backend_def intro!: exI [of _ "\<lambda>_. True"] demo_forward_causal) (simp_all add: demo_backend_def)
  show "chain_holds (dp_adapter two_blocks) (nat (dp_max_length two_blocks)) (dp_fresh two_blocks) (dp_links two_blocks) []"
    by (auto simp: two_blocks_def two_links_def empty_store_def dict_item_def holds_past_def uniform_def full_kv_def full_out_def)
qed (simp_all add: two_blocks_def two_links_def demo_span_def)

theorem swarm_refines_model_witness:
  "\<exists>outs s'. session_run (swarm_env two_blocks) (\<lambda>_. ()) [(''a'', [1, 2]), (''b'', [3])] (new_inference_session 4 []) = Some (Inr outs, s') \<and>
     concat outs = [1, 4, 10] \<and> map length outs = [2, 1]"
proof -
  have fw: "bk_forward demo_backend ad = demo_forward" for ad by (simp add: demo_backend_def)
  have out: "chain_out (dp_adapter two_blocks) (dp_links two_blocks) [1, 2, 3] = [1, 4, 10]"
    by (simp add: two_blocks_def two_links_def full_out_def fw demo_forward_def past_sum_def)
  have "dp_links two_blocks \<noteq> []" "dp_max_length two_blocks = 4" by (simp_all add: two_blocks_def two_links_def)
  with swarm_refines_model [OF two_servers.deployed_axioms, of 4 "[(''a'', [1, 2]), (''b'', [3])]" "\<lambda>_. ()"] out
  show ?thesis by (simp add: numeral_2_eq_2 del: session_run.simps)
qed

end
