(* ===== verification/Loading.thy ===== *)
theory Loading
  imports Server
begin

text \<open>
  \<open>src/peerz/server/from_pretrained.py\<close>: fetching the weights of one block from the files of a repository. The
  cache directory and the hub are a world \<open>'w\<close> with operations that may fail; \<open>free_disk_space_for\<close> is modelled
  with the disk cache. A weight file is the dictionary of its tensors; a set of file names is a list without
  repetitions, in the order in which the loop happens to visit it. The download loop retries forever, so it
  is a partial function.

  The lemmas show that a block gets exactly the weights that the repository holds for it, whatever is in the
  local cache and however often downloads fail before they succeed.
\<close>

subsection \<open>Files\<close>

record 't tensor_data =
  tn_dtype :: string
  tn_value :: 't

type_synonym 't state_dict = "(string, 't tensor_data) dict"

datatype probe = Entry_found | Entry_missing | Probe_failed py_error

record ('w, 't) hub =
  hb_local :: "string \<Rightarrow> 'w \<Rightarrow> string option result"                     \<comment> \<open>\<open>local_files_only=True\<close>: the path, if cached\<close>
  hb_probe :: "string \<Rightarrow> probe"                                        \<comment> \<open>\<open>get_hf_file_metadata\<close> for the index files\<close>
  hb_size :: "string \<Rightarrow> 'w \<Rightarrow> int option result"
  hb_free_space :: "int \<Rightarrow> 'w \<Rightarrow> unit result \<times> 'w"
  hb_download :: "string \<Rightarrow> 'w \<Rightarrow> string option result \<times> 'w"
  hb_index :: "string \<Rightarrow> 'w \<Rightarrow> string option result \<times> 'w"                \<comment> \<open>the index file, fetched without the revision\<close>
  hb_torch_load :: "string \<Rightarrow> 'w \<Rightarrow> 't state_dict result"
  hb_safe_open :: "string \<Rightarrow> 'w \<Rightarrow> 't state_dict result"
  hb_json :: "string \<Rightarrow> 'w \<Rightarrow> (string, string) dict result"            \<comment> \<open>the \<open>weight_map\<close> of an index file\<close>

definition load_local_file :: "('w, 't) hub \<Rightarrow> string option \<Rightarrow> string \<Rightarrow> 'w \<Rightarrow> 't state_dict result" where
  "load_local_file H block_prefix path w =
     (if ends_with path ''.bin'' then hb_torch_load H path w
      else if ends_with path ''.safetensors'' then
        bindR (hb_safe_open H path w) (\<lambda>f.
          Inr (filter (\<lambda>(key, _). case block_prefix of None \<Rightarrow> True | Some p \<Rightarrow> starts_with key p) f))
      else Inl ValueError)"

definition INDEX_FILES :: "string list" where
  "INDEX_FILES = [''model.safetensors.index.json'', ''model.safetensors'', ''pytorch_model.bin.index.json'', ''pytorch_model.bin'']"

text \<open>\<open>_find_index_file\<close>: the first file that is cached, else the first that exists; only a missing entry is
  suppressed.\<close>

fun find_cached :: "('w, 't) hub \<Rightarrow> 'w \<Rightarrow> string list \<Rightarrow> string option result" where
  "find_cached H w [] = Inr None"
| "find_cached H w (f # fs) = bindR (hb_local H f w) (\<lambda>p. case p of Some _ \<Rightarrow> Inr (Some f) | None \<Rightarrow> find_cached H w fs)"

fun find_remote :: "('w, 't) hub \<Rightarrow> string list \<Rightarrow> string result" where
  "find_remote H [] = Inl ValueError"
| "find_remote H (f # fs) =
     (case hb_probe H f of Entry_found \<Rightarrow> Inr f | Entry_missing \<Rightarrow> find_remote H fs | Probe_failed e \<Rightarrow> Inl e)"

definition find_index_file :: "('w, 't) hub \<Rightarrow> 'w \<Rightarrow> string result" where
  "find_index_file H w = bindR (find_cached H w INDEX_FILES) (\<lambda>c. case c of Some f \<Rightarrow> Inr f | None \<Rightarrow> find_remote H INDEX_FILES)"

text \<open>One turn of the download loop of \<open>_load_state_dict_from_repo_file\<close>, inside \<open>allow_cache_writes\<close>.\<close>

definition download_attempt :: "('w, 't) hub \<Rightarrow> string option \<Rightarrow> string \<Rightarrow> 'w \<Rightarrow> 't state_dict result \<times> 'w" where
  "download_attempt H block_prefix filename w =
     (case hb_size H filename w of
        Inl e \<Rightarrow> (Inl e, w)
      | Inr file_size \<Rightarrow>
          (case (case file_size of Some n \<Rightarrow> hb_free_space H n w | None \<Rightarrow> (Inr (), w)) of
             (Inl e, w1) \<Rightarrow> (Inl e, w1)
           | (Inr _, w1) \<Rightarrow>
               (case hb_download H filename w1 of
                  (Inl e, w2) \<Rightarrow> (Inl e, w2)
                | (Inr None, w2) \<Rightarrow> (Inl RuntimeError, w2)
                | (Inr (Some path), w2) \<Rightarrow> (load_local_file H block_prefix path w2, w2))))"

partial_function (option) download_loop :: "('w, 't) hub \<Rightarrow> string option \<Rightarrow> string \<Rightarrow> 'w \<Rightarrow> ('t state_dict \<times> 'w) option" where
  "download_loop H block_prefix filename w =
     (case download_attempt H block_prefix filename w of
        (Inr d, w') \<Rightarrow> Some (d, w')
      | (Inl _, w') \<Rightarrow> download_loop H block_prefix filename w')"

text \<open>The local file first; an exception there only means that the file is downloaded again.\<close>

definition load_repo_file :: "('w, 't) hub \<Rightarrow> string option \<Rightarrow> string \<Rightarrow> 'w \<Rightarrow> ('t state_dict \<times> 'w) option" where
  "load_repo_file H block_prefix filename w =
     (case bindR (hb_local H filename w) (\<lambda>p. case p of
             None \<Rightarrow> Inr None | Some path \<Rightarrow> bindR (load_local_file H block_prefix path w) (\<lambda>d. Inr (Some d))) of
        Inr (Some d) \<Rightarrow> Some (d, w)
      | _ \<Rightarrow> download_loop H block_prefix filename w)"

fun load_files ::
    "('w, 't) hub \<Rightarrow> string \<Rightarrow> string list \<Rightarrow> 't state_dict \<Rightarrow> 'w \<Rightarrow> ('t state_dict \<times> 'w) option" where
  "load_files H prefix [] state_dict w = Some (state_dict, w)"
| "load_files H prefix (f # fs) state_dict w =
     (case load_repo_file H (Some prefix) f w of
        None \<Rightarrow> None
      | Some (shard, w') \<Rightarrow>
          (let part = map (\<lambda>(n, t). (drop (length prefix) n, t)) (filter (\<lambda>(n, _). starts_with n prefix) shard) in
           load_files H prefix fs (fold (\<lambda>(n, t). dict_set n t) part state_dict) w'))"

text \<open>\<open>_load_state_dict_from_repo\<close>; \<open>shuffle\<close> is the order of the set of file names.\<close>

definition shard_names :: "string \<Rightarrow> (string, string) dict \<Rightarrow> string list" where
  "shard_names prefix weight_map = remdups (map snd (filter (\<lambda>(n, _). starts_with n prefix) weight_map))"

definition repo_files :: "('w, 't) hub \<Rightarrow> string \<Rightarrow> 'w \<Rightarrow> (string list \<times> 'w) result" where
  "repo_files H prefix w =
     bindR (find_index_file H w) (\<lambda>index_file.
       if ends_with index_file ''.index.json'' then
         (case hb_index H index_file w of
            (Inl e, w1) \<Rightarrow> Inl e
          | (Inr None, w1) \<Rightarrow> Inl ValueError
          | (Inr (Some path), w1) \<Rightarrow>
              bindR (hb_json H path w1) (\<lambda>weight_map.
                let names = shard_names prefix weight_map in
                if names = [] then Inl RuntimeError else Inr (names, w1)))
       else Inr ([index_file], w))"

definition load_state_dict ::
    "('w, 't) hub \<Rightarrow> (string list \<Rightarrow> string list) \<Rightarrow> string \<Rightarrow> 'w \<Rightarrow> ('t state_dict \<times> 'w) result option" where
  "load_state_dict H shuffle prefix w =
     (case repo_files H prefix w of
        Inl e \<Rightarrow> Some (Inl e)
      | Inr (names, w1) \<Rightarrow>
          (case load_files H prefix (shuffle names) [] w1 of
             None \<Rightarrow> None
           | Some r \<Rightarrow> Some (Inr r)))"

text \<open>\<open>load_pretrained_block\<close>: every parameter of the block must be there; floating ones are cast.\<close>

definition is_integral :: "string \<Rightarrow> bool" where
  "is_integral dtype \<longleftrightarrow> starts_with dtype ''uint'' \<or> starts_with dtype ''int'' \<or> starts_with dtype ''bool''"

definition set_param ::
    "(string \<Rightarrow> 't tensor_data \<Rightarrow> 't tensor_data) \<Rightarrow> string \<Rightarrow> 't state_dict \<Rightarrow> string \<Rightarrow> (string \<times> 't tensor_data) result" where
  "set_param cast dtype state_dict name =
     (case dict_get state_dict name of
        None \<Rightarrow> Inl AssertionError
      | Some t \<Rightarrow> Inr (name, if is_integral (tn_dtype t) then t else cast dtype t))"

definition load_pretrained_block ::
    "('w, 't) hub \<Rightarrow> (string list \<Rightarrow> string list) \<Rightarrow> (string \<Rightarrow> 't tensor_data \<Rightarrow> 't tensor_data) \<Rightarrow> model_config \<Rightarrow> string
     \<Rightarrow> dtype_arg \<Rightarrow> string list \<Rightarrow> string list \<Rightarrow> int \<Rightarrow> 'w \<Rightarrow> 't state_dict result option" where
  "load_pretrained_block H shuffle cast config block_prefix dtype_arg keys params block_index w =
     (if dtype_arg \<notin> set (map snd DTYPE_MAP) then Some (Inl AssertionError)
      else let dtype = resolve_block_dtype (mc_torch_dtype config) dtype_arg in
        case load_state_dict H shuffle (block_prefix @ ''.'' @ py_str block_index @ ''.'') w of
          None \<Rightarrow> None
        | Some (Inl e) \<Rightarrow> Some (Inl e)
        | Some (Inr (state_dict, w')) \<Rightarrow>
            if \<exists>k \<in> set keys. dict_get state_dict k = None then Some (Inl AssertionError)
            else Some (mapR (set_param cast (dt_name dtype) state_dict) params))"

subsection \<open>A block gets its weights\<close>

text \<open>What is used of the hub: a path that it returns has the suffix of the file, and reading it either fails or
  gives the tensors of that file of the repository.\<close>

definition path_ok :: "('w, 't) hub \<Rightarrow> (string \<Rightarrow> 't state_dict) \<Rightarrow> string \<Rightarrow> string \<Rightarrow> bool" where
  "path_ok H repo f path \<longleftrightarrow>
     (\<forall>w d. hb_torch_load H path w = Inr d \<or> hb_safe_open H path w = Inr d \<longrightarrow> d = repo f)"

definition hub_ok :: "('w, 't) hub \<Rightarrow> (string \<Rightarrow> 't state_dict) \<Rightarrow> bool" where
  "hub_ok H repo \<longleftrightarrow>
     (\<forall>f w path. hb_local H f w = Inr (Some path) \<longrightarrow> path_ok H repo f path) \<and>
     (\<forall>f w path w'. hb_download H f w = (Inr (Some path), w') \<longrightarrow> path_ok H repo f path) \<and>
     (\<forall>f. wf_dict (repo f))"

text \<open>The download of a file succeeds after finitely many failures.\<close>

inductive downloads :: "('w, 't) hub \<Rightarrow> string option \<Rightarrow> string \<Rightarrow> 'w \<Rightarrow> bool" for H prefix f where
  now: "download_attempt H prefix f w = (Inr d, w') \<Longrightarrow> downloads H prefix f w"
| later: "download_attempt H prefix f w = (Inl e, w') \<Longrightarrow> downloads H prefix f w' \<Longrightarrow> downloads H prefix f w"

text \<open>A shard as it is read: all of it, or the part with the prefix.\<close>

definition shard_of :: "string \<Rightarrow> 't state_dict \<Rightarrow> 't state_dict \<Rightarrow> bool" where
  "shard_of prefix contents d \<longleftrightarrow> wf_dict d \<and> (\<forall>n. starts_with n prefix \<longrightarrow> dict_get d n = dict_get contents n)"

lemma filter_shard: "wf_dict c \<Longrightarrow> shard_of prefix c (filter (\<lambda>(k, _). starts_with k prefix) c)"
proof (induction c)
  case (Cons e c)
  then show ?case by (cases e) (auto simp: shard_of_def)
qed (simp add: shard_of_def)

lemma load_local_shard:
  assumes "path_ok H repo f path" "wf_dict (repo f)" "load_local_file H (Some prefix) path w = Inr d"
  shows "shard_of prefix (repo f) d"
proof (cases "ends_with path ''.bin''")
  case True
  with assms(1,3) have "d = repo f" by (auto simp: load_local_file_def path_ok_def)
  with assms(2) show ?thesis by (simp add: shard_of_def)
next
  case False
  with assms(1,3) have "d = filter (\<lambda>(k, _). starts_with k prefix) (repo f)"
    by (auto simp: load_local_file_def path_ok_def resultD split: if_splits)
  with filter_shard [OF assms(2)] show ?thesis by simp
qed

lemma download_loop_shard:
  assumes "hub_ok H repo" "downloads H (Some prefix) f w"
  shows "\<exists>d w'. download_loop H (Some prefix) f w = Some (d, w') \<and> shard_of prefix (repo f) d"
  using assms(2)
proof induction
  case (now w d w')
  then have "shard_of prefix (repo f) d"
    using assms(1) unfolding download_attempt_def hub_ok_def
    by (auto split: sum.splits prod.splits option.splits) (blast intro: load_local_shard)+
  with now show ?case by (subst download_loop.simps) simp
next
  case (later w e w')
  then show ?case by (subst download_loop.simps) simp
qed

lemma load_repo_file_shard:
  assumes "hub_ok H repo" "downloads H (Some prefix) f w"
  shows "\<exists>d w'. load_repo_file H (Some prefix) f w = Some (d, w') \<and> shard_of prefix (repo f) d"
proof (cases "bindR (hb_local H f w) (\<lambda>p. case p of None \<Rightarrow> Inr None | Some path \<Rightarrow> bindR (load_local_file H (Some prefix) path w) (\<lambda>d. Inr (Some d)))")
  case (Inr r)
  then show ?thesis
  proof (cases r)
    case (Some d)
    with Inr obtain path where "hb_local H f w = Inr (Some path)" "load_local_file H (Some prefix) path w = Inr d"
      by (auto simp: resultD split: option.splits)
    moreover from this(1) have "path_ok H repo f path" "wf_dict (repo f)" using assms(1) by (auto simp: hub_ok_def)
    ultimately have "shard_of prefix (repo f) d" by (auto intro: load_local_shard)
    with Inr Some show ?thesis by (simp add: load_repo_file_def)
  qed (use Inr download_loop_shard [OF assms] in \<open>simp add: load_repo_file_def\<close>)
qed (use download_loop_shard [OF assms] in \<open>simp add: load_repo_file_def\<close>)

lemma merge_shard:
  assumes "wf_dict d"
  shows "dict_get (fold (\<lambda>(n, t). dict_set n t) (map (\<lambda>(n, t). (drop (length prefix) n, t)) (filter (\<lambda>(n, _). starts_with n prefix) d)) acc) name =
    (case dict_get d (prefix @ name) of Some t \<Rightarrow> Some t | None \<Rightarrow> dict_get acc name)"
  using assms
proof (induction d arbitrary: acc)
  case (Cons e d)
  obtain n t where e: "e = (n, t)" by (cases e)
  show ?case
  proof (cases "starts_with n prefix")
    case True
    then obtain m where n: "n = prefix @ m" using starts_with_cut by metis
    have "dict_get d (prefix @ m) = None" using Cons.prems by (force simp: e n map_of_eq_None_iff)
    with Cons show ?thesis by (auto simp: e n split: option.splits)
  next
    case False
    then have "prefix @ name \<noteq> n" by (metis starts_with_append)
    with Cons False show ?thesis by (simp add: e)
  qed
qed simp

text \<open>The loop over the files: what was there stays unless a file has it, and every file adds its tensors; the
  files agree on the tensors they share.\<close>

lemma load_files_weights:
  assumes "hub_ok H repo" "\<forall>f \<in> set fs. \<forall>w. downloads H (Some prefix) f w"
    and "\<forall>f n t. dict_get (repo f) n = Some t \<longrightarrow> weights n = Some t"
    and "\<forall>m t. dict_get acc m = Some t \<longrightarrow> weights (prefix @ m) = Some t"
  shows "\<exists>d w'. load_files H prefix fs acc w = Some (d, w') \<and> (\<forall>m t. dict_get d m = Some t \<longrightarrow> weights (prefix @ m) = Some t) \<and>
    (\<forall>m. dict_get acc m \<noteq> None \<or> (\<exists>f \<in> set fs. dict_get (repo f) (prefix @ m) \<noteq> None) \<longrightarrow> dict_get d m \<noteq> None)"
  using assms(2,4)
proof (induction fs arbitrary: acc w)
  case (Cons f fs)
  obtain shard w1 where l: "load_repo_file H (Some prefix) f w = Some (shard, w1)" "shard_of prefix (repo f) shard"
    using load_repo_file_shard [OF assms(1)] Cons.prems(1) by (meson list.set_intros(1))
  let ?acc = "fold (\<lambda>(n, t). dict_set n t) (map (\<lambda>(n, t). (drop (length prefix) n, t)) (filter (\<lambda>(n, _). starts_with n prefix) shard)) acc"
  have get: "dict_get ?acc m = (case dict_get (repo f) (prefix @ m) of Some t \<Rightarrow> Some t | None \<Rightarrow> dict_get acc m)" for m
    using l(2) merge_shard [of shard prefix acc m] by (simp add: shard_of_def)
  have acc: "\<forall>m t. dict_get ?acc m = Some t \<longrightarrow> weights (prefix @ m) = Some t"
    using Cons.prems(2) assms(3) unfolding get by (auto split: option.splits)
  have rest: "\<forall>f \<in> set fs. \<forall>w. downloads H (Some prefix) f w" using Cons.prems(1) by simp
  obtain d w' where IH: "load_files H prefix fs ?acc w1 = Some (d, w')"
    "\<forall>m t. dict_get d m = Some t \<longrightarrow> weights (prefix @ m) = Some t"
    "\<forall>m. dict_get ?acc m \<noteq> None \<or> (\<exists>f \<in> set fs. dict_get (repo f) (prefix @ m) \<noteq> None) \<longrightarrow> dict_get d m \<noteq> None"
    using Cons.IH [OF rest acc, of w1] by blast
  have "dict_get d m \<noteq> None" if "dict_get acc m \<noteq> None \<or> (\<exists>f' \<in> set (f # fs). dict_get (repo f') (prefix @ m) \<noteq> None)" for m
  proof -
    have "dict_get ?acc m \<noteq> None \<or> (\<exists>f \<in> set fs. dict_get (repo f) (prefix @ m) \<noteq> None)"
      using that get [of m] by (auto split: option.splits)
    then show ?thesis by (rule IH(3) [rule_format])
  qed
  with l(1) IH(1,2) show ?case by (simp add: Let_def)
qed auto


text \<open>A repository with two shards; the first is cached but unreadable and the first download fails.\<close>

definition demo_repo :: "string \<Rightarrow> int state_dict" where
  "demo_repo f = (if f = ''a.safetensors'' then [(''h.3.w'', \<lparr>tn_dtype = ''float32'', tn_value = 1\<rparr>), (''h.4.w'', \<lparr>tn_dtype = ''float32'', tn_value = 2\<rparr>)]
     else if f = ''b.bin'' then [(''h.3.i'', \<lparr>tn_dtype = ''int64'', tn_value = 7\<rparr>)] else [])"

definition demo_hub :: "(nat, int) hub" where
  "demo_hub = \<lparr>hb_local = \<lambda>f w. Inr (if f = ''model.safetensors.index.json'' \<or> f = ''a.safetensors'' \<and> w = 0 then Some f else None),
     hb_probe = \<lambda>_. Entry_found, hb_size = \<lambda>_ _. Inr (Some 5), hb_free_space = \<lambda>_ w. (Inr (), w),
     hb_download = \<lambda>f w. if w = 0 then (Inl RuntimeError, 1) else (Inr (Some f), w), hb_index = \<lambda>f w. (Inr (Some f), w),
     hb_torch_load = \<lambda>f w. Inr (demo_repo f), hb_safe_open = \<lambda>f w. if w = 0 then Inl ValueError else Inr (demo_repo f),
     hb_json = \<lambda>_ _. Inr [(''h.3.w'', ''a.safetensors''), (''h.3.i'', ''b.bin''), (''h.4.w'', ''a.safetensors'')]\<rparr>"


end
