(* ===== verification/Health.thy ===== *)
theory Health
  imports Dht_Utils Server
begin

text \<open>
  The validator's view of the swarm: \<open>src/peerz/validator/health.py\<close> (\<open>fetch_health_state\<close>: which models are
  announced, which servers hold their blocks, which of these servers are online),
  \<open>validator/p2p_utils.py\<close> (\<open>check_reachability\<close>), \<open>validator/data_structures.py\<close> (\<open>ModelInfo\<close>) and
  \<open>validator/state_updater.py\<close>.

  Parameters: the DHT (hivemind's \<open>dht.get\<close>, \<open>get_many\<close> and the parser of peer ids), the parser of
  multiaddresses, hivemind's timed storage behind \<open>info_cache\<close> and the outcome of a connection attempt.
  The log lines and the clock around the loop of the updater are not modelled.
\<close>

subsection \<open>Reachability of a peer\<close>

text \<open>\<open>rpc_info\<close>: a dictionary with the keys \<open>ok\<close> and, on failure, \<open>error\<close>; the fields a server reports of
  itself are kept beside them.\<close>

type_synonym reach_info = "(string, wire) dict"

text \<open>How the body of the \<open>try\<close> ends: the answer of the peer, \<open>asyncio.TimeoutError\<close>, or another exception with its
  message (\<open>str(e)\<close>, or \<open>repr(e)\<close> when that is empty).\<close>

datatype reach_attempt = Answered reach_info | Timed_out | Failed string string

record ('c, 'n) reach_env =
  re_get :: "'c \<Rightarrow> peer_id \<Rightarrow> reach_info option"
  re_store :: "'c \<Rightarrow> peer_id \<Rightarrow> reach_info \<Rightarrow> rat \<Rightarrow> 'c"
  re_rpc_info :: "'n \<Rightarrow> peer_id \<Rightarrow> reach_attempt"
  re_connect :: "'n \<Rightarrow> peer_id \<Rightarrow> reach_attempt"
  re_timeout_text :: string

definition attempt_message :: "string \<Rightarrow> reach_attempt \<Rightarrow> string" where
  "attempt_message timeout_text a =
     (case a of Failed s r \<Rightarrow> (if s \<noteq> [] then s else r) | _ \<Rightarrow> timeout_text)"

definition check_reachability ::
    "('c, 'n) reach_env \<Rightarrow> 'n \<Rightarrow> bool \<Rightarrow> rat \<Rightarrow> bool \<Rightarrow> rat \<Rightarrow> peer_id \<Rightarrow> 'c \<Rightarrow> reach_info \<times> 'c" where
  "check_reachability E node fetch_info expiration read_cache now p cache =
     (case (if read_cache then re_get E cache p else None) of
        Some info \<Rightarrow> (info, cache)
      | None \<Rightarrow>
          (case (if fetch_info then re_rpc_info E node p else re_connect E node p) of
             Answered info \<Rightarrow>
               (let rpc_info = (if fetch_info then dict_set ''ok'' (WBool True) info else [(''ok'', WBool True)])
                in (rpc_info, re_store E cache p rpc_info (now + expiration)))
           | a \<Rightarrow>
               (let message = attempt_message (re_timeout_text E) a in
                if a \<noteq> Timed_out \<and> message = ''protocol not supported'' then ([(''ok'', WBool True)], cache)
                else (let rpc_info = [(''ok'', WBool False), (''error'', WStr message)]
                      in (rpc_info, re_store E cache p rpc_info (now + expiration))))))"

text \<open>\<open>check_reachability_parallel\<close>: the calls for different peers do not interact, so they are run one after the other.\<close>

fun check_all :: "('c, 'n) reach_env \<Rightarrow> 'n \<Rightarrow> bool \<Rightarrow> rat \<Rightarrow> peer_id list \<Rightarrow> 'c \<Rightarrow> reach_info list \<times> 'c" where
  "check_all E node fetch_info now [] cache = ([], cache)"
| "check_all E node fetch_info now (p # ps) cache =
     (let (info, cache) = check_reachability E node fetch_info 300 True now p cache;
          (infos, cache) = check_all E node fetch_info now ps cache
      in (info # infos, cache))"

definition check_reachability_parallel ::
    "('c, 'n) reach_env \<Rightarrow> 'n \<Rightarrow> bool \<Rightarrow> rat \<Rightarrow> peer_id list \<Rightarrow> 'c \<Rightarrow> (peer_id, reach_info) dict \<times> 'c" where
  "check_reachability_parallel E node fetch_info now ps cache =
     (let (infos, cache) = check_all E node fetch_info now ps cache
      in (fold (\<lambda>(p, info). dict_set p info) (zip ps infos) [], cache))"

subsection \<open>The announced models\<close>

text \<open>The validator's \<open>ModelInfo\<close>: the announced one with three more fields.\<close>

record validator_model = model_info +
  vm_dht_prefix :: "string option"
  vm_official :: bool
  vm_limited :: bool

fun strict_pos :: "wire \<Rightarrow> int result" where
  "strict_pos (WInt n) = (if 1 \<le> n then Inr n else Inl ValueError)"
| "strict_pos _ = Inl ValueError"

text \<open>\<open>ModelInfo.from_dict(source)\<close>, that is \<open>cls(**source)\<close>: only a mapping can be unpacked, \<open>num_blocks\<close> is
  required, fields it does not know are ignored.\<close>

definition model_from_dict :: "pydantic_lax \<Rightarrow> wire \<Rightarrow> validator_model result" where
  "model_from_dict P source =
     bindR (as_kwargs source) (\<lambda>d.
     bindR (case dict_get d ''num_blocks'' of None \<Rightarrow> Inl TypeError | Some w \<Rightarrow> strict_pos w) (\<lambda>nb.
     bindR (opt_field d ''repository'' (lax_str P)) (\<lambda>repo.
     bindR (opt_field d ''dht_prefix'' (lax_str P)) (\<lambda>prefix.
     bindR (case dict_get d ''official'' of None \<Rightarrow> Inr True | Some w \<Rightarrow> lax_bool P w) (\<lambda>official.
     bindR (case dict_get d ''limited'' of None \<Rightarrow> Inr False | Some w \<Rightarrow> lax_bool P w) (\<lambda>limited.
     Inr \<lparr>mi_num_blocks = nb, mi_repository = repo, vm_dht_prefix = prefix, vm_official = official, vm_limited = limited\<rparr>))))))"

definition HUB_URL :: string where "HUB_URL = ''https://huggingface.co/''"

text \<open>One entry of \<open>_peerz.models\<close>: read, or skipped when it does not parse or does not name a repository of the hub.\<close>

definition read_model ::
    "pydantic_lax \<Rightarrow> string \<times> wire \<Rightarrow> validator_model list \<Rightarrow> validator_model list result" where
  "read_model P e custom_models =
     (case model_from_dict P (snd e) of
        Inl x \<Rightarrow> if x = TypeError \<or> x = ValueError then Inr custom_models else Inl x
      | Inr m \<Rightarrow>
          if (case mi_repository m of None \<Rightarrow> True | Some r \<Rightarrow> \<not> starts_with r HUB_URL) then Inr custom_models
          else Inr (custom_models @ [m\<lparr>vm_dht_prefix := Some (fst e), vm_official := False\<rparr>]))"

definition model_prefix :: "validator_model \<Rightarrow> string" where
  "model_prefix m = (case vm_dht_prefix m of None \<Rightarrow> ''None'' | Some p \<Rightarrow> p)"

definition fetch_models :: "pydantic_lax \<Rightarrow> dht_value option \<Rightarrow> validator_model list result" where
  "fetch_models P model_index =
     (case model_index of
        Some (DictValue d) \<Rightarrow>
          bindR (foldR (read_model P) d []) (\<lambda>ms. Inr (sort_key (\<lambda>m. (- mi_num_blocks m, model_prefix m)) ms))
      | _ \<Rightarrow> Inr [])"

definition model_uids :: "validator_model \<Rightarrow> module_uid list" where
  "model_uids m = map (block_uid (model_prefix m)) (py_range 0 (mi_num_blocks m))"

subsection \<open>The servers\<close>

text \<open>The loop over the models: the next \<open>num_blocks\<close> entries of \<open>module_infos\<close> are the model's, its spans are
  computed and merged into \<open>all_servers\<close>.\<close>

fun gather_spans ::
    "remote_module_info list \<Rightarrow> int \<Rightarrow> validator_model list \<Rightarrow> (peer_id, remote_span_info) dict
     \<Rightarrow> (peer_id, remote_span_info) dict result" where
  "gather_spans module_infos offset [] all_servers = Inr all_servers"
| "gather_spans module_infos offset (m # ms) all_servers =
     bindR (compute_spans (py_slice module_infos offset (offset + mi_num_blocks m)) OFFLINE) (\<lambda>spans.
       gather_spans module_infos (offset + mi_num_blocks m) ms (fold (\<lambda>(p, sp). dict_set p sp) spans all_servers))"

record online_server =
  os_peer_id :: peer_id
  os_throughput :: int
  os_layers :: int

definition online_entry :: "peer_id \<times> remote_span_info \<Rightarrow> online_server result" where
  "online_entry e =
     (case (end_block (rs_info (snd e)), start_block (rs_info (snd e))) of
        (Some hi, Some lo) \<Rightarrow> Inr \<lparr>os_peer_id = fst e, os_throughput = py_round (si_throughput (rs_info (snd e))), os_layers = hi - lo\<rparr>
      | _ \<Rightarrow> Inl TypeError)"

record ('d, 'c, 'n) health_env =
  he_peer_of :: "string \<Rightarrow> peer_id result"
  he_node :: 'n
  he_reach :: "('c, 'n) reach_env"
  he_get :: "'d \<Rightarrow> string \<Rightarrow> dht_value option"
  he_get_many :: "'d get_many"
  he_pydantic :: pydantic_lax
  he_base58 :: "string \<Rightarrow> peer_id result"

definition bootstrap_ids :: "(string \<Rightarrow> peer_id result) \<Rightarrow> string list \<Rightarrow> peer_id list result" where
  "bootstrap_ids peer_of addrs =
     foldR (\<lambda>addr ids. bindR (peer_of addr) (\<lambda>p. Inr (if p \<in> set ids then ids else ids @ [p]))) addrs []"

text \<open>\<open>fetch_health_state(dht, initial_peers)\<close>, with the state of \<open>info_cache\<close> before and after.\<close>

definition fetch_health_state ::
    "('d, 'c, 'n) health_env \<Rightarrow> rat \<Rightarrow> 'd \<Rightarrow> string list \<Rightarrow> 'c \<Rightarrow> online_server list result \<times> 'c" where
  "fetch_health_state E now dht initial_peers cache =
     (case bootstrap_ids (he_peer_of E) initial_peers of
        Inl e \<Rightarrow> (Inl e, cache)
      | Inr ids \<Rightarrow>
          (bindR (fetch_models (he_pydantic E) (he_get E dht ''_peerz.models'')) (\<lambda>models.
           bindR (get_remote_module_infos (he_get_many E) (he_pydantic E) (he_base58 E) now dht
                    (concat (map model_uids models)) None None True) (\<lambda>module_infos.
           bindR (gather_spans module_infos 0 models []) (\<lambda>all_servers.
             mapR online_entry (filter (\<lambda>(p, sp). span_state sp = ONLINE) all_servers)))),
           snd (check_reachability_parallel (he_reach E) (he_node E) False now ids cache)))"

subsection \<open>The updater thread\<close>

record 'c updater =
  up_state :: "online_server list option"
  up_ready :: bool
  up_cache :: 'c

text \<open>One round of \<open>StateUpdaterThread.run\<close>: a failed fetch is logged and the state kept.\<close>

definition updater_round ::
    "('d, 'c, 'n) health_env \<Rightarrow> rat \<Rightarrow> 'd \<Rightarrow> string list \<Rightarrow> 'c updater \<Rightarrow> 'c updater" where
  "updater_round E now dht initial_peers u =
     (case fetch_health_state E now dht initial_peers (up_cache u) of
        (Inl _, cache) \<Rightarrow> u\<lparr>up_cache := cache\<rparr>
      | (Inr st, cache) \<Rightarrow> u\<lparr>up_cache := cache, up_state := Some st, up_ready := True\<rparr>)"

definition updater_shutdown :: "'c updater \<Rightarrow> 'c updater" where
  "updater_shutdown u = u\<lparr>up_ready := False\<rparr>"

subsection \<open>Lemmas\<close>

lemma fold_dict_set_get:
  "wf_dict spans \<Longrightarrow> dict_get (fold (\<lambda>(p, sp). dict_set p sp) spans d) p =
     (case dict_get spans p of None \<Rightarrow> dict_get d p | Some sp \<Rightarrow> Some sp)"
proof (induction spans arbitrary: d)
  case (Cons e spans)
  then have "p = fst e \<Longrightarrow> dict_get spans p = None" by (simp add: map_of_eq_None_iff)
  with Cons show ?case by (cases e) (auto split: option.splits)
qed simp

lemma fold_dict_set_wf: "wf_dict d \<Longrightarrow> wf_dict (fold (\<lambda>(p, sp). dict_set p sp) spans d)"
  by (induction spans arbitrary: d) (auto split: prod.splits)

lemma model_from_dict_error: "pydantic_ok P \<Longrightarrow> model_from_dict P w = Inl e \<Longrightarrow> e = TypeError \<or> e = ValueError"
proof -
  assume P: "pydantic_ok P" and e: "model_from_dict P w = Inl e"
  have lax: "lax_str P v = Inl x \<Longrightarrow> x = ValueError" "lax_bool P v = Inl x \<Longrightarrow> x = ValueError" for v x
    using P by (auto simp: pydantic_ok_def)
  have kw: "as_kwargs w = Inl x \<Longrightarrow> x = TypeError" for x by (cases w) auto
  have pos: "strict_pos v = Inl x \<Longrightarrow> x = ValueError" for v x by (cases v rule: strict_pos.cases) (auto split: if_splits)
  have opt: "opt_field d k (lax_str P) = Inl x \<Longrightarrow> x = ValueError" for d k x
    by (auto simp: opt_field_def bindR_Inl dest: lax split: option.splits if_splits)
  from e show ?thesis
    unfolding model_from_dict_def
    by (auto simp: bindR_Inl dest!: kw opt lax pos split: option.splits)
qed

lemma model_from_dict_pos: "model_from_dict P w = Inr m \<Longrightarrow> 1 \<le> mi_num_blocks m"
proof -
  have pos: "strict_pos v = Inr n \<Longrightarrow> 1 \<le> n" for v n by (cases v rule: strict_pos.cases) (auto split: if_splits)
  show "model_from_dict P w = Inr m \<Longrightarrow> 1 \<le> mi_num_blocks m"
    by (auto simp: model_from_dict_def bindR_Inr dest!: pos split: option.splits)
qed

lemma read_models_total:
  assumes "pydantic_ok P"
  shows "\<exists>ms'. foldR (read_model P) d ms = Inr (ms @ ms') \<and>
    (\<forall>m \<in> set ms'. 1 \<le> mi_num_blocks m \<and> (\<exists>e \<in> set d. vm_dht_prefix m = Some (fst e)))"
proof (induction d arbitrary: ms)
  case (Cons e d)
  show ?case
  proof (cases "read_model P e ms = Inr ms")
    case True
    with Cons.IH [of ms] show ?thesis by auto
  next
    case False
    then obtain m where m: "read_model P e ms = Inr (ms @ [m\<lparr>vm_dht_prefix := Some (fst e), vm_official := False\<rparr>])"
        "1 \<le> mi_num_blocks m"
      using model_from_dict_error [OF assms, of "snd e"] model_from_dict_pos [of P "snd e"]
      by (auto simp: read_model_def split: sum.splits if_splits)
    obtain ms' where "foldR (read_model P) d (ms @ [m\<lparr>vm_dht_prefix := Some (fst e), vm_official := False\<rparr>]) =
        Inr ((ms @ [m\<lparr>vm_dht_prefix := Some (fst e), vm_official := False\<rparr>]) @ ms')"
      "\<forall>m \<in> set ms'. 1 \<le> mi_num_blocks m \<and> (\<exists>e \<in> set d. vm_dht_prefix m = Some (fst e))"
      using Cons.IH by blast
    with m show ?thesis
      by (intro exI [of _ "m\<lparr>vm_dht_prefix := Some (fst e), vm_official := False\<rparr> # ms'"]) auto
  qed
qed auto

lemma fetch_models_total:
  assumes "pydantic_ok P"
  shows "\<exists>models. fetch_models P index = Inr models \<and> (\<forall>m \<in> set models. 1 \<le> mi_num_blocks m)"
proof (cases "\<exists>d. index = Some (DictValue d)")
  case True
  then obtain d where d: "index = Some (DictValue d)" by blast
  from read_models_total [OF assms, of d "[]"] show ?thesis by (auto simp: d fetch_models_def)
qed (auto simp: fetch_models_def split: option.splits dht_value.splits)

text \<open>What the DHT holds of a peer in a model: its records on the blocks of the model, in their order.\<close>

definition records_of :: "(module_uid \<Rightarrow> remote_module_info) \<Rightarrow> validator_model \<Rightarrow> peer_id \<Rightarrow> server_info list" where
  "records_of found m p = List.map_filter (\<lambda>uid. dict_get (rm_servers (found uid)) p) (model_uids m)"

lemma records_of_set: "si \<in> set (records_of found m p) \<longleftrightarrow> (\<exists>uid \<in> set (model_uids m). dict_get (rm_servers (found uid)) p = Some si)"
  by (force simp: records_of_def List.map_filter_def)

definition best_record :: "server_info \<Rightarrow> server_info list \<Rightarrow> bool" where
  "best_record si sis \<longleftrightarrow> si \<in> set sis \<and> (\<forall>si' \<in> set sis. state_value (si_state si') \<le> state_value (si_state si))"

lemma model_spans:
  assumes wf: "\<And>uid. wf_dict (rm_servers (found uid))" and uid: "\<And>uid. rm_uid (found uid) = uid"
    and m: "1 \<le> mi_num_blocks m" "CHR ''.'' \<notin> set (model_prefix m)" "CHR '' '' \<notin> set (model_prefix m)"
  shows "\<exists>spans. compute_spans (map found (model_uids m)) OFFLINE = Inr spans \<and> wf_dict spans \<and>
    (\<forall>p. case dict_get spans p of None \<Rightarrow> records_of found m p = []
       | Some sp \<Rightarrow> best_record (rs_info sp) (records_of found m p))"
proof -
  let ?infos = "map found (model_uids m)"
  have hd: "model_uids m = block_uid (model_prefix m) 0 # map (block_uid (model_prefix m)) (py_range 1 (mi_num_blocks m))"
    using m(1) by (simp add: model_uids_def py_range_Cons [of 0])
  have eq: "compute_spans ?infos OFFLINE = Inr (spans_upto 0 (int (length ?infos)) OFFLINE ?infos (length ?infos))"
    using parse_block_uid [OF m(2,3), of 0] by (simp add: compute_spans_def spans_upto_def hd uid)
  have "\<forall>i \<in> set ?infos. wf_dict (rm_servers i)" using wf by auto
  note upto = spans_upto_state [OF this order_refl, where off = 0 and n = "int (length ?infos)"]
  have at: "(\<exists>i < length ?infos. dict_get (rm_servers (?infos ! i)) p = Some si) \<longleftrightarrow> si \<in> set (records_of found m p)" for p si
    unfolding records_of_set by (force simp: in_set_conv_nth)
  have state: "case dict_get (spans_upto 0 (int (length ?infos)) OFFLINE ?infos (length ?infos)) p of
      None \<Rightarrow> records_of found m p = []
    | Some sp \<Rightarrow> best_record (rs_info sp) (records_of found m p)" for p
  proof (cases "dict_get (spans_upto 0 (int (length ?infos)) OFFLINE ?infos (length ?infos)) p")
    case None
    with upto [of p] have "si \<notin> set (records_of found m p)" for si unfolding at [symmetric] by auto
    then have "records_of found m p = []" by (metis list.set_intros(1) neq_Nil_conv)
    with None show ?thesis by simp
  next
    case (Some sp)
    with upto [of p] have "\<exists>i < length ?infos. dict_get (rm_servers (?infos ! i)) p = Some (rs_info sp)"
      "\<And>si. \<exists>i < length ?infos. dict_get (rm_servers (?infos ! i)) p = Some si \<Longrightarrow> state_value (si_state si) \<le> state_value (span_state sp)"
      by auto
    then show ?thesis unfolding at using Some by (simp add: best_record_def span_state_def)
  qed
  have "wf_dict (spans_upto 0 (int (length ?infos)) OFFLINE ?infos (length ?infos))"
    using compute_spans_wf [OF eq] by (simp add: wf_spans_def)
  with eq state show ?thesis by blast
qed


text \<open>The record under which a peer ends in \<open>all_servers\<close>: that of the last model that lists the peer.\<close>

fun last_listing :: "(module_uid \<Rightarrow> remote_module_info) \<Rightarrow> validator_model list \<Rightarrow> peer_id \<Rightarrow> server_info list" where
  "last_listing found [] p = []"
| "last_listing found (m # ms) p =
     (if last_listing found ms p = [] then records_of found m p else last_listing found ms p)"

lemma gather_all:
  assumes wf: "\<And>uid. wf_dict (rm_servers (found uid))" and uid: "\<And>uid. rm_uid (found uid) = uid"
    and ms: "\<forall>m \<in> set ms. 1 \<le> mi_num_blocks m \<and> CHR ''.'' \<notin> set (model_prefix m) \<and> CHR '' '' \<notin> set (model_prefix m)"
    and "wf_dict servers"
  shows "\<exists>servers'. gather_spans (pre @ map found (concat (map model_uids ms))) (int (length pre)) ms servers = Inr servers' \<and>
    wf_dict servers' \<and>
    (\<forall>p. if last_listing found ms p = [] then dict_get servers' p = dict_get servers p
         else \<exists>sp. dict_get servers' p = Some sp \<and> best_record (rs_info sp) (last_listing found ms p))"
  using ms assms(4)
proof (induction ms arbitrary: pre servers)
  case (Cons m ms)
  let ?mine = "map found (model_uids m)" and ?rest = "map found (concat (map model_uids ms))"
  have pos: "0 \<le> mi_num_blocks m" and len: "int (length ?mine) = mi_num_blocks m"
    using Cons.prems(1) by (auto simp: model_uids_def)
  have slice: "py_slice (pre @ ?mine @ ?rest) (int (length pre)) (int (length pre) + mi_num_blocks m) = ?mine"
    using pos len by (subst py_slice_in_range) auto
  obtain spans where spans: "compute_spans ?mine OFFLINE = Inr spans" "wf_dict spans"
      "\<And>p. case dict_get spans p of None \<Rightarrow> records_of found m p = []
         | Some sp \<Rightarrow> best_record (rs_info sp) (records_of found m p)"
    using model_spans [OF wf uid, of m] Cons.prems(1) by auto
  let ?merged = "fold (\<lambda>(p, sp). dict_set p sp) spans servers"
  have "wf_dict ?merged" using Cons.prems(2) by (rule fold_dict_set_wf)
  then obtain t where t: "gather_spans ((pre @ ?mine) @ ?rest) (int (length (pre @ ?mine))) ms ?merged = Inr t" "wf_dict t"
      "\<And>p. if last_listing found ms p = [] then dict_get t p = dict_get ?merged p
         else \<exists>sp. dict_get t p = Some sp \<and> best_record (rs_info sp) (last_listing found ms p)"
    using Cons.IH [of ?merged "pre @ ?mine"] Cons.prems(1) by auto
  have "gather_spans (pre @ map found (concat (map model_uids (m # ms)))) (int (length pre)) (m # ms) servers = Inr t"
    using t(1) slice spans(1) len by (simp add: algebra_simps)
  moreover have "if last_listing found (m # ms) p = [] then dict_get t p = dict_get servers p
         else \<exists>sp. dict_get t p = Some sp \<and> best_record (rs_info sp) (last_listing found (m # ms) p)" for p
    using t(3) [of p] spans(3) [of p] by (auto simp: fold_dict_set_get [OF spans(2)] best_record_def split: option.splits if_splits)
  ultimately show ?case using t(2) by blast
qed simp

lemma bootstrap_total:
  assumes "\<forall>a \<in> set addrs. \<exists>p. peer_of a = Inr p"
  shows "\<exists>ids. bootstrap_ids peer_of addrs = Inr ids"
proof -
  have "foldR (\<lambda>addr ids. bindR (peer_of addr) (\<lambda>p. Inr (if p \<in> set ids then ids else ids @ [p]))) addrs ids =
      Inr (fold (\<lambda>addr ids. let p = projr (peer_of addr) in if p \<in> set ids then ids else ids @ [p]) addrs ids)" for ids
    by (rule foldR_total) (use assms in \<open>force simp: Let_def\<close>)
  then show ?thesis by (simp add: bootstrap_ids_def)
qed

lemma online_entries:
  assumes "wf_dict servers"
    and "\<forall>p sp. dict_get servers p = Some sp \<longrightarrow> span_state sp = ONLINE \<longrightarrow>
      start_block (rs_info sp) \<noteq> None \<and> end_block (rs_info sp) \<noteq> None"
  shows "\<exists>online. mapR online_entry (filter (\<lambda>(p, sp). span_state sp = ONLINE) servers) = Inr online \<and>
    distinct (map os_peer_id online) \<and>
    (\<forall>s. s \<in> set online \<longleftrightarrow> (\<exists>p sp. dict_get servers p = Some sp \<and> span_state sp = ONLINE \<and> online_entry (p, sp) = Inr s))"
proof -
  let ?on = "filter (\<lambda>(p, sp). span_state sp = ONLINE) servers"
  have mem: "(p, sp) \<in> set ?on \<longleftrightarrow> dict_get servers p = Some sp \<and> span_state sp = ONLINE" for p sp
    using assms(1) by auto
  define g where "g = (\<lambda>(p, sp). projr (online_entry (p, sp)))"
  have ok: "online_entry e = Inr (g e) \<and> os_peer_id (g e) = fst e" if "e \<in> set ?on" for e
  proof -
    obtain p sp where e: "e = (p, sp)" by (cases e)
    with that mem assms(2) have "start_block (rs_info sp) \<noteq> None" "end_block (rs_info sp) \<noteq> None" by blast+
    then show ?thesis by (auto simp: e g_def online_entry_def)
  qed
  then have run: "mapR online_entry ?on = Inr (map g ?on)" by (intro mapR_total) blast
  have keys: "map os_peer_id (map g ?on) = map fst ?on" using ok by (simp cong: map_cong)
  have "distinct (map fst ?on)" using assms(1) by (metis distinct_map_filter)
  then have "distinct (map os_peer_id (map g ?on))" unfolding keys .
  moreover have "s \<in> set (map g ?on) \<longleftrightarrow>
      (\<exists>p sp. dict_get servers p = Some sp \<and> span_state sp = ONLINE \<and> online_entry (p, sp) = Inr s)" for s
  proof
    assume "s \<in> set (map g ?on)"
    then obtain p sp where "(p, sp) \<in> set ?on" "s = g (p, sp)" by auto
    with mem ok show "\<exists>p sp. dict_get servers p = Some sp \<and> span_state sp = ONLINE \<and> online_entry (p, sp) = Inr s" by metis
  next
    assume "\<exists>p sp. dict_get servers p = Some sp \<and> span_state sp = ONLINE \<and> online_entry (p, sp) = Inr s"
    then obtain p sp where "(p, sp) \<in> set ?on" "online_entry (p, sp) = Inr s" using mem by blast
    with ok [of "(p, sp)"] show "s \<in> set (map g ?on)" unfolding set_map by (metis image_eqI sum.inject(2))
  qed
  ultimately show ?thesis using run by blast
qed


lemma online_listing:
  assumes "wf_dict servers"
    and best: "\<And>p. if listing p = [] then dict_get servers p = None
      else \<exists>sp. dict_get servers p = Some sp \<and> best_record (rs_info sp) (listing p)"
    and ranges: "\<And>p si. si \<in> set (listing p) \<Longrightarrow> si_state si = ONLINE \<Longrightarrow> start_block si \<noteq> None \<and> end_block si \<noteq> None"
  shows "\<exists>online. mapR online_entry (filter (\<lambda>(p, sp). span_state sp = ONLINE) servers) = Inr online \<and> distinct (map os_peer_id online) \<and>
    (\<forall>p. p \<in> os_peer_id ` set online \<longleftrightarrow> (\<exists>si \<in> set (listing p). si_state si = ONLINE)) \<and>
    (\<forall>s \<in> set online. \<exists>si \<in> set (listing (os_peer_id s)). \<exists>lo hi. si_state si = ONLINE \<and>
       start_block si = Some lo \<and> end_block si = Some hi \<and>
       os_throughput s = py_round (si_throughput si) \<and> os_layers s = hi - lo)"
proof -
  have sel: "best_record (rs_info sp) (listing p)" if "dict_get servers p = Some sp" for p sp
    using best [of p] that by (auto split: if_splits)
  have named: "\<forall>p sp. dict_get servers p = Some sp \<longrightarrow> span_state sp = ONLINE \<longrightarrow>
      start_block (rs_info sp) \<noteq> None \<and> end_block (rs_info sp) \<noteq> None"
    using ranges sel unfolding best_record_def span_state_def by blast
  from online_entries [OF assms(1) named] obtain online where
    on: "mapR online_entry (filter (\<lambda>(p, sp). span_state sp = ONLINE) servers) = Inr online" "distinct (map os_peer_id online)"
      "\<And>s. s \<in> set online \<longleftrightarrow> (\<exists>p sp. dict_get servers p = Some sp \<and> span_state sp = ONLINE \<and> online_entry (p, sp) = Inr s)"
    by blast
  have entry: "os_peer_id s = p \<and> (\<exists>lo hi. start_block (rs_info sp) = Some lo \<and> end_block (rs_info sp) = Some hi \<and>
       os_throughput s = py_round (si_throughput (rs_info sp)) \<and> os_layers s = hi - lo)" if "online_entry (p, sp) = Inr s" for s p sp
    using that by (auto simp: online_entry_def split: option.splits)
  have "p \<in> os_peer_id ` set online \<longleftrightarrow> (\<exists>si \<in> set (listing p). si_state si = ONLINE)" for p
  proof
    assume "p \<in> os_peer_id ` set online"
    then obtain sp where "dict_get servers p = Some sp" "span_state sp = ONLINE" using on(3) entry by blast
    with sel show "\<exists>si \<in> set (listing p). si_state si = ONLINE" by (auto simp: best_record_def span_state_def)
  next
    assume "\<exists>si \<in> set (listing p). si_state si = ONLINE"
    then obtain si where si: "si \<in> set (listing p)" "si_state si = ONLINE" by blast
    then obtain sp where sp: "dict_get servers p = Some sp" "best_record (rs_info sp) (listing p)"
      using best [of p] by (auto split: if_splits)
    with si have "state_value ONLINE \<le> state_value (span_state sp)" by (auto simp: best_record_def span_state_def)
    then have "span_state sp = ONLINE" by (cases "span_state sp") auto
    moreover from this sp si ranges obtain s where "online_entry (p, sp) = Inr s"
      by (fastforce simp: best_record_def span_state_def online_entry_def)
    ultimately show "p \<in> os_peer_id ` set online" using sp(1) on(3) entry by (metis image_eqI)
  qed
  moreover have "\<exists>si \<in> set (listing (os_peer_id s)). \<exists>lo hi. si_state si = ONLINE \<and> start_block si = Some lo \<and> end_block si = Some hi \<and>
       os_throughput s = py_round (si_throughput si) \<and> os_layers s = hi - lo" if "s \<in> set online" for s
  proof -
    from that on(3) obtain p sp where "dict_get servers p = Some sp" "span_state sp = ONLINE" "online_entry (p, sp) = Inr s" by blast
    with entry [of p sp s] sel [of p sp] show ?thesis unfolding best_record_def span_state_def by blast
  qed
  ultimately show ?thesis using on(1,2) by blast
qed

text \<open>What the module lookup of \<open>fetch_health_state\<close> finds for a uid.\<close>

definition health_found :: "('d, 'c, 'n) health_env \<Rightarrow> 'd \<Rightarrow> module_uid list \<Rightarrow> module_uid \<Rightarrow> remote_module_info" where
  "health_found E dht uids uid =
     (case read_module (he_pydantic E) (he_base58 E) None (he_get_many E dht uids PInf) uid of
        Inr m \<Rightarrow> m | Inl _ \<Rightarrow> \<lparr>rm_uid = uid, rm_servers = []\<rparr>)"

lemma health_found_ok:
  assumes "pydantic_ok (he_pydantic E)" and "base58_ok (he_base58 E)"
  shows "read_module (he_pydantic E) (he_base58 E) None (he_get_many E dht uids PInf) uid = Inr (health_found E dht uids uid)"
    "rm_uid (health_found E dht uids uid) = uid" "wf_dict (rm_servers (health_found E dht uids uid))"
  using read_module_total [OF assms, of None "he_get_many E dht uids PInf" uid] by (auto simp: health_found_def)

lemma health_infos:
  assumes "pydantic_ok (he_pydantic E)" and "base58_ok (he_base58 E)"
  shows "get_remote_module_infos (he_get_many E) (he_pydantic E) (he_base58 E) now dht uids None None True =
    Inr (map (health_found E dht uids) uids)"
  using health_found_ok(1) [OF assms] by (simp add: get_remote_module_infos_def Let_def mapR_total)

subsection \<open>Properties\<close>

text \<open>C21. The health state is exact: when the bootstrap addresses and the announced prefixes are well formed and
  every online record names its blocks, the validator's fetch does not raise; it lists exactly the peers that
  are online on some block of the last announced model they appear in (an earlier model does not count: the
  dictionaries of the models are merged in order), each once, and the throughput and the layer count that it
  reports for a peer are those of one of the peer's online records.\<close>

theorem health_exact:
  assumes lax: "pydantic_ok (he_pydantic E)" "base58_ok (he_base58 E)"
    and peers: "\<forall>a \<in> set initial_peers. \<exists>p. he_peer_of E a = Inr p"
    and models: "fetch_models (he_pydantic E) (he_get E dht ''_peerz.models'') = Inr models"
    and prefixes: "\<forall>m \<in> set models. CHR ''.'' \<notin> set (model_prefix m) \<and> CHR '' '' \<notin> set (model_prefix m)"
    and found: "found = health_found E dht (concat (map model_uids models))"
    and ranges: "\<forall>p. \<forall>si \<in> set (last_listing found models p). si_state si = ONLINE \<longrightarrow>
      start_block si \<noteq> None \<and> end_block si \<noteq> None"
  shows "\<exists>online. fst (fetch_health_state E now dht initial_peers cache) = Inr online \<and> distinct (map os_peer_id online) \<and>
    (\<forall>p. p \<in> os_peer_id ` set online \<longleftrightarrow> (\<exists>si \<in> set (last_listing found models p). si_state si = ONLINE)) \<and>
    (\<forall>s \<in> set online. \<exists>si \<in> set (last_listing found models (os_peer_id s)). \<exists>lo hi. si_state si = ONLINE \<and>
       start_block si = Some lo \<and> end_block si = Some hi \<and>
       os_throughput s = py_round (si_throughput si) \<and> os_layers s = hi - lo)"
proof -
  obtain ids where ids: "bootstrap_ids (he_peer_of E) initial_peers = Inr ids" using bootstrap_total [OF peers] by blast
  have "\<forall>m \<in> set models. 1 \<le> mi_num_blocks m" using fetch_models_total [OF lax(1)] models by (metis Inr_inject)
  with prefixes have ms: "\<forall>m \<in> set models. 1 \<le> mi_num_blocks m \<and> CHR ''.'' \<notin> set (model_prefix m) \<and> CHR '' '' \<notin> set (model_prefix m)"
    by blast
  have "\<exists>servers. gather_spans (map found (concat (map model_uids models))) 0 models [] = Inr servers \<and> wf_dict servers \<and>
      (\<forall>p. if last_listing found models p = [] then dict_get servers p = None
         else \<exists>sp. dict_get servers p = Some sp \<and> best_record (rs_info sp) (last_listing found models p))"
    using gather_all [where pre = "[]" and servers = "[]" and found = found, OF _ _ ms] health_found_ok(2,3) [OF lax]
    by (simp add: found del: map_concat cong: if_cong)
  then obtain servers where servers: "gather_spans (map found (concat (map model_uids models))) 0 models [] = Inr servers" "wf_dict servers"
      "\<forall>p. if last_listing found models p = [] then dict_get servers p = None
         else \<exists>sp. dict_get servers p = Some sp \<and> best_record (rs_info sp) (last_listing found models p)"
    by (auto simp del: map_concat)
  have "fst (fetch_health_state E now dht initial_peers cache) =
      mapR online_entry (filter (\<lambda>(p, sp). span_state sp = ONLINE) servers)"
    using servers(1) by (simp add: fetch_health_state_def ids models health_infos [OF lax] found)
  with online_listing [OF servers(2) servers(3) [rule_format] ranges [rule_format]] show ?thesis by simp
qed

definition sample_health :: "(unit, unit, unit) health_env" where
  "sample_health = \<lparr>he_peer_of = Inr, he_node = (),
     he_reach = \<lparr>re_get = \<lambda>_ _. None, re_store = \<lambda>c _ _ _. c, re_rpc_info = \<lambda>_ _. Timed_out, re_connect = \<lambda>_ _. Answered [],
       re_timeout_text = ''no connection''\<rparr>,
     he_get = \<lambda>_ _. Some (DictValue [(''x'', WStr ''spam''),
       (''m'', WDict [(''num_blocks'', WInt 2), (''repository'', WStr ''https://huggingface.co/org/m'')])]),
     he_get_many = \<lambda>_ _ _ uid. Some (DictValue [(''QmA'', WList (to_tuple sample_info))]),
     he_pydantic = strict_pydantic, he_base58 = Inr\<rparr>"

definition sample_announced :: validator_model where
  "sample_announced = \<lparr>mi_num_blocks = 2, mi_repository = Some ''https://huggingface.co/org/m'',
     vm_dht_prefix = Some ''m'', vm_official = False, vm_limited = False\<rparr>"

lemma sample_models: "fetch_models (he_pydantic sample_health) (he_get sample_health () ''_peerz.models'') = Inr [sample_announced]"
  by (simp add: fetch_models_def sample_health_def read_model_def model_from_dict_def opt_field_def strict_pydantic_def
      sample_announced_def HUB_URL_def starts_with_def)

lemma sample_health_found: "health_found sample_health () uids uid = \<lparr>rm_uid = uid, rm_servers = [(''QmA'', sample_info)]\<rparr>"
  using from_tuple_to_tuple [OF strict_pydantic_ok sample_info_valid]
  by (simp add: health_found_def sample_health_def read_module_def read_peer_entry_def adapter_missing_def)

lemma sample_listing: "last_listing (health_found sample_health () uids) [sample_announced] p = (if p = ''QmA'' then [sample_info, sample_info] else [])"
  by (simp add: records_of_def sample_health_found List.map_filter_simps model_uids_def sample_announced_def py_range_def upto_rec1)

theorem health_exact_witness:
  "\<exists>online. fst (fetch_health_state sample_health 0 () [''QmBoot''] ()) = Inr online \<and> distinct (map os_peer_id online) \<and>
     os_peer_id ` set online = {''QmA''} \<and> (\<forall>s \<in> set online. os_layers s = 4)"
proof -
  have prefix: "\<forall>m \<in> set [sample_announced]. CHR ''.'' \<notin> set (model_prefix m) \<and> CHR '' '' \<notin> set (model_prefix m)"
    by (simp add: model_prefix_def sample_announced_def)
  have ok: "pydantic_ok (he_pydantic sample_health)" "base58_ok (he_base58 sample_health)"
      "\<forall>a \<in> set [''QmBoot'']. \<exists>p. he_peer_of sample_health a = Inr p"
    by (simp_all add: sample_health_def strict_pydantic_ok base58_ok_def)
  let ?found = "health_found sample_health () (concat (map model_uids [sample_announced]))"
  have "\<forall>p. \<forall>si \<in> set (last_listing ?found [sample_announced] p). si_state si = ONLINE \<longrightarrow>
      start_block si \<noteq> None \<and> end_block si \<noteq> None"
    unfolding sample_listing by (simp add: sample_info_def)
  from health_exact [OF ok sample_models prefix refl this, where now = 0 and cache = "()", unfolded sample_listing] obtain online where
    on: "fst (fetch_health_state sample_health 0 () [''QmBoot''] ()) = Inr online" "distinct (map os_peer_id online)"
      "\<forall>p. p \<in> os_peer_id ` set online \<longleftrightarrow> (\<exists>si \<in> set (if p = ''QmA'' then [sample_info, sample_info] else []). si_state si = ONLINE)"
      "\<forall>s \<in> set online. \<exists>si \<in> set (if os_peer_id s = ''QmA'' then [sample_info, sample_info] else []). \<exists>lo hi. si_state si = ONLINE \<and>
         start_block si = Some lo \<and> end_block si = Some hi \<and> os_throughput s = py_round (si_throughput si) \<and> os_layers s = hi - lo"
    by (elim exE conjE)
  have "p \<in> os_peer_id ` set online \<longleftrightarrow> p = ''QmA''" for p using on(3) by (simp add: sample_info_def)
  moreover have "os_layers s = 4" if "s \<in> set online" for s
    using bspec [OF on(4) that] by (auto simp: sample_info_def split: if_splits)
  ultimately show ?thesis using on(1,2) by blast
qed

end
