(* ===== verification/Consensus.thy ===== *)
theory Consensus
  imports Health
begin

text \<open>
  What the validator and the sequencer do with the health state: \<open>src/peerz/utils/signature.py\<close>,
  \<open>validator/validator.py\<close> (one round of \<open>Validator.run\<close>) and \<open>sequencer/sequencer.py\<close> (one round of
  \<open>Sequencer.run\<close>). Both rounds are bodies of a \<open>try\<close> inside \<open>while True\<close>: the exception is logged and the loop
  goes on after a pause, so a round is modelled by the exception it ends with and the store it leaves.

  Names are looked up the way Python does at run time, in the locals and the globals of the module: a name that
  is bound nowhere raises \<open>NameError\<close> when, and only when, the expression is reached.

  Parameters: the contract (its calls and the ABI encoder), the chain client, the hash, the signature scheme and
  the DHT.
\<close>

subsection \<open>Signing\<close>

text \<open>\<open>prepare_data_for_signing(state)\<close>: the hashed peer ids, one contribution per server, and their sum.\<close>

definition prepare_data_for_signing :: "(string \<Rightarrow> string) \<Rightarrow> online_server list \<Rightarrow> string list \<times> int list \<times> int" where
  "prepare_data_for_signing keccak_hex st =
     (let peerIds = map (\<lambda>item. keccak_hex (os_peer_id item)) st;
          contributions = map (\<lambda>item. os_throughput item * os_layers item) st
      in (peerIds, contributions, sum_list contributions))"

record 'k eth_crypto =
  ec_unhexlify :: "string \<Rightarrow> string result"
  ec_keccak_bytes :: "string \<Rightarrow> string result"
  ec_encode_defunct :: "string \<Rightarrow> 'k"
  ec_sign :: "'k \<Rightarrow> string \<Rightarrow> string result"

definition sign_data :: "'k eth_crypto \<Rightarrow> string \<Rightarrow> string \<Rightarrow> string result" where
  "sign_data C private_key peerId =
     bindR (ec_unhexlify C private_key) (\<lambda>key.
     bindR (ec_keccak_bytes C peerId) (\<lambda>hashed. ec_sign C (ec_encode_defunct C hashed) key))"

subsection \<open>Names\<close>

definition read_name :: "(string, 'v) dict \<Rightarrow> string \<Rightarrow> 'v result" where
  "read_name scope x = (case dict_get scope x of None \<Rightarrow> Inl NameError | Some v \<Rightarrow> Inr v)"

subsection \<open>The validator\<close>

record ('d, 'k) validator_env =
  ve_crypto :: "'k eth_crypto"
  ve_keccak_hex :: "string \<Rightarrow> string"
  ve_active_peers :: "(int \<times> int list) result"
  ve_active_range :: "int \<Rightarrow> int \<Rightarrow> string list result"
  ve_store :: "'d \<Rightarrow> string \<Rightarrow> string \<Rightarrow> wire \<Rightarrow> rat \<Rightarrow> 'd"
  ve_call :: "wire \<Rightarrow> rat result"

text \<open>The values that the names of \<open>run\<close> hold when a report is made. The module binds no \<open>throughputs\<close>,
  \<open>layers\<close>, \<open>signature\<close> or \<open>get_dht_time\<close>, and \<open>run\<close> assigns none of them.\<close>

definition run_scope :: "string list \<Rightarrow> int list \<Rightarrow> int \<Rightarrow> string \<Rightarrow> (string, wire) dict" where
  "run_scope peerIds contributions amount signature_hex =
     [(''peerIds'', WList (map WStr peerIds)), (''contributions'', WList (map WInt contributions)),
      (''total'', WInt amount), (''signature_hex'', WStr signature_hex)]"

text \<open>\<open>self.dht.store(key="_peerz.validators", subkey=..., value=dict(...), expiration_time=get_dht_time() + 20)\<close>: the
  arguments are evaluated from the left, \<open>signature\<close> being the name passed for the last entry of the dictionary.\<close>

definition store_report :: "('d, 'k) validator_env \<Rightarrow> (string, wire) dict \<Rightarrow> string \<Rightarrow> string \<Rightarrow> 'd \<Rightarrow> 'd result" where
  "store_report E scope subkey signature_name dht =
     bindR (read_name scope ''peerIds'') (\<lambda>p.
     bindR (read_name scope ''throughputs'') (\<lambda>t.
     bindR (read_name scope ''layers'') (\<lambda>l.
     bindR (read_name scope signature_name) (\<lambda>s.
     bindR (read_name scope ''get_dht_time'') (\<lambda>f.
     bindR (ve_call E f) (\<lambda>now.
       Inr (ve_store E dht ''_peerz.validators'' subkey
         (WDict [(''peerIds'', p), (''throughputs'', t), (''layers'', l), (''signature'', s)]) (now + 20))))))))"

fun list_index :: "'a \<Rightarrow> 'a list \<Rightarrow> int result" where
  "list_index x [] = Inl ValueError"
| "list_index x (y # ys) = (if x = y then Inr 0 else bindR (list_index x ys) (\<lambda>i. Inr (i + 1)))"

text \<open>One active peer of the contract: reported when the health state does not list it, or when the contributions at
  the two positions differ.\<close>

definition should_get_reported :: "string list \<Rightarrow> int list \<Rightarrow> string \<Rightarrow> int \<Rightarrow> bool result" where
  "should_get_reported peerIds contributions peer i =
     (if peer \<in> set peerIds then
        bindR (list_index peer peerIds) (\<lambda>index.
        bindR (py_index contributions index) (\<lambda>a.
        bindR (py_index contributions i) (\<lambda>b. Inr (a \<noteq> b))))
      else Inr True)"

definition report_peer ::
    "('d, 'k) validator_env \<Rightarrow> string \<Rightarrow> string list \<Rightarrow> int list \<Rightarrow> int \<Rightarrow> string list \<Rightarrow> int \<Rightarrow> 'd \<Rightarrow> 'd result" where
  "report_peer E private_key peerIds contributions amount active_peers i dht =
     bindR (py_index active_peers i) (\<lambda>peerId.
     bindR (should_get_reported peerIds contributions peerId i) (\<lambda>report.
       if \<not> report then Inr dht
       else bindR (sign_data (ve_crypto E) private_key peerId) (\<lambda>signature_hex.
         store_report E (run_scope peerIds contributions amount signature_hex) peerId ''signature'' dht)))"

text \<open>A loop whose body changes the DHT and may raise: what was stored before the exception stays.\<close>

fun for_each :: "('a \<Rightarrow> 'd \<Rightarrow> 'd result) \<Rightarrow> 'a list \<Rightarrow> 'd \<Rightarrow> py_error option \<times> 'd" where
  "for_each f [] dht = (None, dht)"
| "for_each f (x # xs) dht = (case f x dht of Inl e \<Rightarrow> (Some e, dht) | Inr dht' \<Rightarrow> for_each f xs dht')"

text \<open>The report after the loop: \<open>sign_data\<close>, a function of two arguments, is called with five.\<close>

definition final_report ::
    "('d, 'k) validator_env \<Rightarrow> string \<Rightarrow> string list \<Rightarrow> int list \<Rightarrow> int \<Rightarrow> 'd \<Rightarrow> 'd result" where
  "final_report E address peerIds contributions amount dht =
     (let scope = run_scope peerIds contributions amount [] in
      bindR (read_name scope ''throughputs'') (\<lambda>t. bindR (read_name scope ''layers'') (\<lambda>l.
        guardR ((5 :: nat) = 2) TypeError (store_report E scope address ''signature_hex'' dht))))"

text \<open>One round of \<open>Validator.run\<close>. \<open>contributions\<close> is bound twice: the list computed from the health state is
  replaced by the one that the contract returns before it is read.\<close>

definition validator_round ::
    "('d, 'k) validator_env \<Rightarrow> string \<Rightarrow> string \<Rightarrow> online_server list option \<Rightarrow> 'd \<Rightarrow> py_error option \<times> 'd" where
  "validator_round E address private_key updater_state dht =
     (case bindR (case updater_state of None \<Rightarrow> Inl AttributeError | Some st \<Rightarrow> Inr (prepare_data_for_signing (ve_keccak_hex E) st))
             (\<lambda>(peerIds, _, amount). bindR (ve_active_peers E) (\<lambda>(n, contributions).
              bindR (ve_active_range E 0 (n - 1)) (\<lambda>active_peers.
              bindR (py_index active_peers 0) (\<lambda>_. Inr (peerIds, amount, n, contributions, active_peers))))) of
        Inl e \<Rightarrow> (Some e, dht)
      | Inr (peerIds, amount, n, contributions, active_peers) \<Rightarrow>
          (case for_each (report_peer E private_key peerIds contributions amount active_peers) (py_range 0 n) dht of
             (Some e, dht) \<Rightarrow> (Some e, dht)
           | (None, dht) \<Rightarrow>
               (case final_report E address peerIds contributions amount dht of
                  Inl e \<Rightarrow> (Some e, dht) | Inr dht' \<Rightarrow> (None, dht'))))"

subsection \<open>The sequencer\<close>

text \<open>\<open>w[k]\<close> for a value read from the DHT and a string \<open>k\<close>.\<close>

fun wire_item :: "wire \<Rightarrow> string \<Rightarrow> wire result" where
  "wire_item (WDict d) k = dict_item d k"
| "wire_item _ k = Inl TypeError"

record 'c sequencer_env =
  sq_total :: "wire \<Rightarrow> wire \<Rightarrow> wire result"
  sq_encode_abi :: "wire list \<Rightarrow> string result"
  sq_count :: "wire \<Rightarrow> string \<Rightarrow> wire result"
  sq_chain_id :: "wire \<Rightarrow> wire result"
  sq_submit :: "'c \<Rightarrow> (string, wire) dict \<Rightarrow> 'c result"

text \<open>The names that \<open>sequencer.py\<close> binds and \<open>run\<close> reads beside its locals; \<open>w3\<close> and \<open>contract_address\<close> are not
  among them (they are locals of \<open>utils/consensus.py\<close>).\<close>

definition sequencer_scope :: "(string, wire) dict" where
  "sequencer_scope = [(''contract'', WNone), (''logger'', WNone), (''hivemind'', WNone), (''time'', WNone), (''Web3'', WNone)]"

definition read_votes :: "'c sequencer_env \<Rightarrow> dht_value option \<Rightarrow> wire list result" where
  "read_votes E data =
     (case data of
        Some (DictValue d) \<Rightarrow>
          bindR (case d of [] \<Rightarrow> Inl StopIteration | e # _ \<Rightarrow> Inr (snd e)) (\<lambda>first.
          bindR (wire_item first ''peerIds'') (\<lambda>peers.
          bindR (wire_item first ''throughputs'') (\<lambda>throughputs.
          bindR (wire_item first ''layers'') (\<lambda>layers.
          bindR (mapR (\<lambda>(_, v). wire_item v ''signature'') d) (\<lambda>signatures.
          bindR (sq_total E layers throughputs) (\<lambda>amount.
            Inr [peers, throughputs, layers, amount, WList signatures, WList (map (WStr \<circ> fst) d)]))))))
      | _ \<Rightarrow> Inl AttributeError)"

definition sequencer_round :: "'c sequencer_env \<Rightarrow> string \<Rightarrow> dht_value option \<Rightarrow> 'c \<Rightarrow> 'c result" where
  "sequencer_round E address data chain =
     bindR (read_votes E data) (\<lambda>args.
     bindR (read_name sequencer_scope ''w3'') (\<lambda>w3.
     bindR (sq_count E w3 address) (\<lambda>nonce.
     bindR (sq_chain_id E w3) (\<lambda>chain_id.
     bindR (sq_encode_abi E args) (\<lambda>payload.
     bindR (read_name sequencer_scope ''contract_address'') (\<lambda>target.
       sq_submit E chain [(''to'', target), (''value'', WInt 0), (''chainId'', chain_id), (''maxFeePerGas'', WInt 2000000000),
         (''maxPriorityFeePerGas'', WInt 1000000000), (''gas'', WInt 10000000), (''nonce'', nonce), (''data'', WStr payload),
         (''from'', WStr address)]))))))"

subsection \<open>Lemmas\<close>

lemma store_report_fails: "store_report E (run_scope p c t s) subkey name dht = Inl NameError"
  by (simp add: store_report_def run_scope_def read_name_def)

lemma report_peer_keeps: "report_peer E key p c t active i dht = Inr dht' \<Longrightarrow> dht' = dht"
  by (auto simp: report_peer_def bindR_Inr store_report_fails split: if_splits)

lemma for_each_keeps:
  assumes "\<And>x d d'. f x d = Inr d' \<Longrightarrow> d' = d"
  shows "snd (for_each f xs dht) = dht"
proof (induction xs)
  case (Cons x xs)
  show ?case
  proof (cases "f x dht")
    case (Inr d)
    with assms have "d = dht" .
    with Inr Cons show ?thesis by simp
  qed simp
qed simp

lemma final_report_fails: "final_report E address p c t dht = Inl NameError"
  by (simp add: final_report_def run_scope_def read_name_def)

lemma reports_keep: "snd (for_each (report_peer E key p c t active) xs dht) = dht"
  by (rule for_each_keeps) (rule report_peer_keeps)

subsection \<open>Properties\<close>

text \<open>No consensus is ever reached: whatever the contract answers, whatever the health state and the keys are,
  every round of the validator ends with an exception and leaves the DHT as it was, and whatever the DHT holds of
  the validators, every round of the sequencer ends with an exception before a transaction is submitted.\<close>

theorem consensus_never_reported:
  "(\<exists>e. validator_round E address key st dht = (Some e, dht)) \<and> (\<exists>e. sequencer_round S address' votes chain = Inl e)"
proof
  have loop: "\<exists>e. (case for_each (report_peer E key p c t active) xs dht of (Some e, dht) \<Rightarrow> (Some e, dht)
      | (None, dht) \<Rightarrow> case final_report E address p c t dht of Inl e \<Rightarrow> (Some e, dht) | Inr dht' \<Rightarrow> (None, dht')) = (Some e, dht)"
    for p c t active xs
    using reports_keep [of E key p c t active xs dht]
    by (cases "for_each (report_peer E key p c t active) xs dht"; cases "fst (for_each (report_peer E key p c t active) xs dht)")
      (simp_all add: final_report_fails)
  show "\<exists>e. validator_round E address key st dht = (Some e, dht)"
    unfolding validator_round_def by (simp add: loop split: sum.split prod.split)
  show "\<exists>e. sequencer_round S address' votes chain = Inl e"
    by (cases "read_votes S votes") (simp_all add: sequencer_round_def read_name_def sequencer_scope_def)
qed

end
