(* ===== verification/Lm_Head.thy ===== *)
theory Lm_Head
  imports Peerz_Prelude
begin

text \<open>
  \<open>src/peerz/client/lm_head.py\<close>: the output layer of a client, computed at once or chunk by chunk of the vocabulary.
  A vector is a list of rationals; the casts between element types are parameters that act on single elements
  (the dtype is named by its string). \<open>torch.empty\<close> gives a vector with any contents.
\<close>

record lm_head =
  lh_weight :: "rat list list"
  lh_weight_dtype :: string
  lh_weight_device :: string
  lh_out_features :: int
  lh_use_chunked_forward :: bool
  lh_chunked_forward_step :: int

datatype chunked_arg = Auto | Chunked bool

text \<open>\<open>__init__\<close>: what \<open>"auto"\<close> is resolved to, by the machine and its two CPU features.\<close>

definition resolve_chunked :: "string \<Rightarrow> bool \<Rightarrow> bool \<Rightarrow> chunked_arg \<Rightarrow> bool" where
  "resolve_chunked machine avx512f os_avx512 arg =
     (case arg of
        Chunked b \<Rightarrow> b
      | Auto \<Rightarrow> (if machine = ''x86_64'' then \<not> (avx512f \<and> os_avx512) else True))"

text \<open>\<open>F.linear(x, weight)\<close>: one inner product per row of the weight.\<close>

definition lm_dot :: "rat list \<Rightarrow> rat list \<Rightarrow> rat" where
  "lm_dot x y = (\<Sum>(a, b) \<leftarrow> zip x y. a * b)"

definition lm_linear :: "rat list \<Rightarrow> rat list list \<Rightarrow> rat list" where
  "lm_linear x weight = map (lm_dot x) weight"

text \<open>\<open>range(0, n, step)\<close> for a positive step.\<close>

function int_range_step :: "int \<Rightarrow> int \<Rightarrow> int \<Rightarrow> int list" where
  "int_range_step i n step = (if step \<le> 0 \<or> n \<le> i then [] else i # int_range_step (i + step) n step)"
  by pat_completeness auto
termination by (relation "measure (\<lambda>(i, n, step). nat (n - i))") auto

declare int_range_step.simps [simp del]

text \<open>\<open>output[..., a : b] = values\<close>: the number of values must be that of the slice (or one, which is repeated).\<close>

definition assign_slice :: "'a list \<Rightarrow> int \<Rightarrow> int \<Rightarrow> 'a list \<Rightarrow> 'a list result" where
  "assign_slice buf a b vals =
     (let lo = slice_bound (length buf) a; hi = slice_bound (length buf) b; k = hi - lo in
      if length vals = k then Inr (take lo buf @ vals @ drop (max lo hi) buf)
      else if length vals = 1 then Inr (take lo buf @ replicate k (hd vals) @ drop (max lo hi) buf)
      else Inl RuntimeError)"

definition chunked_forward :: "(string \<Rightarrow> rat \<Rightarrow> rat) \<Rightarrow> rat list \<Rightarrow> lm_head \<Rightarrow> rat list \<Rightarrow> rat list result" where
  "chunked_forward cast empty_output h hidden_states =
     guardR (lh_chunked_forward_step h > 0) AssertionError
       (let x = map (cast ''float32'') hidden_states; step = lh_chunked_forward_step h in
        foldR (\<lambda>i buf.
            let chunk = map (map (cast ''float32'')) (py_slice (lh_weight h) i (i + step))
            in assign_slice buf i (i + step) (lm_linear x chunk))
          (int_range_step 0 (lh_out_features h) step) empty_output)"

definition lm_head_forward :: "(string \<Rightarrow> rat \<Rightarrow> rat) \<Rightarrow> rat list \<Rightarrow> lm_head \<Rightarrow> rat list \<Rightarrow> rat list result" where
  "lm_head_forward cast empty_output h hidden_states =
     (if lh_weight_dtype h \<in> {''float16'', ''bfloat16''} \<and> lh_weight_device h = ''cpu'' \<and> lh_use_chunked_forward h
      then chunked_forward cast empty_output h hidden_states
      else Inr (lm_linear (map (cast (lh_weight_dtype h)) hidden_states) (lh_weight h)))"

subsection \<open>Chunks\<close>

lemma assign_next:
  assumes "length buf = n" "k \<le> n" "0 < step" "length vals = min n (k + step) - k"
  shows "assign_slice buf (int k) (int k + int step) vals = Inr (take k buf @ vals @ drop (min n (k + step)) buf)"
proof -
  have b: "slice_bound n (int k) = k" "slice_bound n (int k + int step) = min n (k + step)"
    using assms(2) by (auto simp: slice_bound_def nat_add_distrib)
  then show ?thesis using assms by (simp add: assign_slice_def Let_def)
qed

lemma chunk_loop:
  assumes "length buf = length rows" "k \<le> length rows" "0 < step"
    and "\<And>i. chunk i = py_slice rows i (i + int step)"
  shows "foldR (\<lambda>i out. assign_slice out i (i + int step) (map g (chunk i))) (int_range_step (int k) (int (length rows)) (int step)) buf =
    Inr (take k buf @ map g (drop k rows))"
  using assms(1,2)
proof (induction "length rows - k" arbitrary: k buf rule: less_induct)
  case less
  show ?case
  proof (cases "k < length rows")
    case False
    with less.prems show ?thesis by (subst int_range_step.simps) simp
  next
    case True
    let ?n = "length rows" and ?m = "min (length rows) (k + step)"
    have slice: "chunk (int k) = take (?m - k) (drop k rows)"
    proof -
      have "slice_bound ?n (int k + int step) = ?m" "slice_bound ?n (int k) = k"
        using True by (auto simp: slice_bound_def nat_add_distrib)
      then show ?thesis using assms(4) by (simp add: py_slice_def Let_def)
    qed
    have "length (map g (chunk (int k))) = ?m - k" using True by (simp add: slice)
    from assign_next [OF less.prems(1) _ assms(3) this] True
    have one: "assign_slice buf (int k) (int k + int step) (map g (chunk (int k))) =
        Inr (take k buf @ map g (chunk (int k)) @ drop ?m buf)" by simp
    let ?out = "take k buf @ map g (chunk (int k)) @ drop ?m buf"
    have rest: "foldR (\<lambda>i out. assign_slice out i (i + int step) (map g (chunk i))) (int_range_step (int k + int step) (int ?n) (int step)) ?out =
        Inr (take k buf @ map g (drop k rows))"
    proof (cases "k + step < ?n")
      case True
      have "length ?out = ?n" using less.prems True by (simp add: slice)
      from less.hyps [OF _ this, of "k + step"] True assms(3)
      have IH: "foldR (\<lambda>i out. assign_slice out i (i + int step) (map g (chunk i))) (int_range_step (int k + int step) (int ?n) (int step)) ?out =
          Inr (take (k + step) ?out @ map g (drop (k + step) rows))" by simp
      have chunk: "chunk (int k) = take step (drop k rows)" using True by (simp add: slice)
      have "take (k + step) ?out = take k buf @ map g (take step (drop k rows))"
        using True less.prems by (simp add: chunk)
      moreover have "map g (take step (drop k rows)) @ map g (drop (k + step) rows) = map g (drop k rows)"
        by (metis add.commute append_take_drop_id drop_drop map_append)
      ultimately have "take (k + step) ?out @ map g (drop (k + step) rows) = take k buf @ map g (drop k rows)"
        by (metis append.assoc)
      with IH show ?thesis by metis
    next
      case False
      then have "?m = ?n" "int ?n \<le> int k + int step" by auto
      with less.prems slice show ?thesis by (subst int_range_step.simps) simp
    qed
    have "int_range_step (int k) (int ?n) (int step) = int k # int_range_step (int k + int step) (int ?n) (int step)"
      using True assms(3) by (subst int_range_step.simps) simp
    with one rest show ?thesis by simp
  qed
qed

subsection \<open>Property\<close>

text \<open>The output layer is one linear map: for every element type, device, chunk size and contents of the fresh output
  tensor, computing the logits chunk by chunk gives the same as computing them at once, when the casts do not change
  the weights and the hidden states; the last chunk may be shorter.\<close>

theorem lm_head_linear:
  assumes "lh_out_features h = int (length (lh_weight h))" and "0 < lh_chunked_forward_step h"
    and "length empty_output = length (lh_weight h)"
    and "\<forall>x \<in> set hidden_states. cast ''float32'' x = x \<and> cast (lh_weight_dtype h) x = x"
    and "\<forall>row \<in> set (lh_weight h). \<forall>x \<in> set row. cast ''float32'' x = x"
  shows "lm_head_forward cast empty_output h hidden_states = Inr (lm_linear hidden_states (lh_weight h))"
proof -
  obtain step where step: "lh_chunked_forward_step h = int step" "0 < step" using assms(2) zero_less_imp_eq_int by blast
  have hidden: "map (cast ''float32'') hidden_states = hidden_states" "map (cast (lh_weight_dtype h)) hidden_states = hidden_states"
    using assms(4) by (simp_all add: map_idI)
  have weight: "map (map (cast ''float32'')) (py_slice (lh_weight h) i j) = py_slice (lh_weight h) i j" for i j
  proof (rule map_idI)
    fix row assume "row \<in> set (py_slice (lh_weight h) i j)"
    then have "row \<in> set (lh_weight h)" using set_py_slice_subset by (rule subsetD [rotated])
    with assms(5) show "map (cast ''float32'') row = row" by (simp add: map_idI)
  qed
  have "chunked_forward cast empty_output h hidden_states = Inr (lm_linear hidden_states (lh_weight h))"
    using chunk_loop [OF assms(3) _ step(2) refl, of 0 "lm_dot hidden_states"] step assms(1)
    by (simp add: chunked_forward_def Let_def hidden weight lm_linear_def)
  then show ?thesis by (simp add: lm_head_forward_def hidden)
qed

definition small_head :: lm_head where
  "small_head = \<lparr>lh_weight = [[1, 0], [0, 1], [1, 1]], lh_weight_dtype = ''bfloat16'', lh_weight_device = ''cpu'', lh_out_features = 3,
     lh_use_chunked_forward = resolve_chunked ''x86_64'' True False Auto, lh_chunked_forward_step = 2\<rparr>"

theorem lm_head_linear_witness: "lm_head_forward (\<lambda>_ x. x) [7, 7, 7] small_head [2, 3] = Inr [2, 3, 5]"
  using lm_head_linear [of small_head "[7, 7, 7]" "[2, 3]" "\<lambda>_ x. x"] by (simp add: small_head_def lm_linear_def lm_dot_def)

end
