(* ===== verification/Client_Model.thy ===== *)
theory Client_Model
  imports Inference_Session Sequential_Autograd
begin

text \<open>
  The models a client runs: embeddings, prompt tuning and the final norm are local, all transformer layers are
  remote. \<open>src/peerz/client/remote_sequential.py\<close> (\<open>RemoteSequential\<close>), \<open>client/ptune.py\<close> (\<open>PTuneMixin\<close>),
  \<open>client/lm_head.py\<close> (\<open>LMHead\<close>) and the \<open>forward\<close> methods of \<open>models/{bloom,falcon,llama,mixtral}/model.py\<close>.

  Tensors are modelled for a batch of one sequence: \<open>input_ids\<close> is the list of its token ids, hidden states are the
  list of its token vectors, of any type. The weights (embedding tables, layer norms) are fields of the
  model; the remote layers are the session of \<open>Inference_Session\<close> or, without a session, the forward pass of
  \<open>Sequential_Autograd\<close>.
\<close>

subsection \<open>The remote layers\<close>

text \<open>\<open>prompts\<close>: the shape of the tensor and what \<open>prompts[span.start : span.end]\<close> gives.\<close>

type_synonym 'p prompts = "int list \<times> (remote_span_info \<Rightarrow> 'p)"

record ('w, 'h, 'p) layers_env =
  le_session :: "('w, 'h, 'p) session_env"
  le_autograd :: "(remote_span_info \<Rightarrow> 'p) \<Rightarrow> ('w, 'h list, 'p) autograd_env"
  le_dummy :: 'p

text \<open>The client: the world outside sessions, the active session (a context variable) with its \<open>output_ids\<close>, and the
  context variable \<open>_skipped_tokens\<close>.\<close>

record ('w, 'h) client =
  cl_world :: 'w
  cl_active :: "('w, 'h) inference_session option"
  cl_output_ids :: "int list option"
  cl_skipped :: int

text \<open>\<open>RemoteSequential.__init__\<close>: the uids of the blocks when no sequence manager is given.\<close>

definition remote_block_uids :: "string \<Rightarrow> int \<Rightarrow> int option \<Rightarrow> int option \<Rightarrow> module_uid list" where
  "remote_block_uids dht_prefix num_hidden_layers first_block last_block =
     (let s = (case first_block of None \<Rightarrow> 0 | Some s \<Rightarrow> s);
          e = (case last_block of None \<Rightarrow> num_hidden_layers | Some e \<Rightarrow> e)
      in map (block_uid dht_prefix) (py_range s e))"

text \<open>\<open>__getitem__\<close> with an index or a slice, \<open>__iter__\<close> and \<open>__len__\<close>, on the uids of the sequence manager.\<close>

definition remote_slice :: "module_uid list \<Rightarrow> int + int \<times> int \<Rightarrow> module_uid list" where
  "remote_slice uids ix = (case ix of Inl i \<Rightarrow> py_slice uids i (i + 1) | Inr (a, b) \<Rightarrow> py_slice uids a b)"

definition remote_iter :: "module_uid list \<Rightarrow> module_uid list list" where
  "remote_iter uids = map (\<lambda>i. remote_slice uids (Inl i)) (py_range 0 (int (length uids)))"

definition remote_position :: "('w, 'h) client \<Rightarrow> int" where
  "remote_position st = (case cl_active st of None \<Rightarrow> 0 | Some s \<Rightarrow> is_position s)"

text \<open>\<open>RemoteSequential.forward\<close> on one sequence: the autograd function outside a session (one batch; it divides by the
  number of tokens), a step of the session inside.\<close>

definition remote_forward ::
    "('w, 'h, 'p) layers_env \<Rightarrow> int \<Rightarrow> string \<Rightarrow> 'h list \<Rightarrow> 'p prompts option \<Rightarrow> int list option \<Rightarrow> ('w, 'h) client
     \<Rightarrow> ('h list result \<times> ('w, 'h) client) option" where
  "remote_forward E hidden_size step_id inputs prompts hypo_ids st =
     (let slices = (case prompts of None \<Rightarrow> \<lambda>_. le_dummy E | Some p \<Rightarrow> snd p) in
      case cl_active st of
        None \<Rightarrow>
          if hypo_ids \<noteq> None then Some (Inl AssertionError, st)
          else if inputs = [] then Some (Inl ZeroDivisionError, st)
          else (let ae = le_autograd E slices;
                    prompts_ok = (case prompts of None \<Rightarrow> True
                       | Some (shape, _) \<Rightarrow> prod_list shape = 0 \<or> hd shape = int (length (ae_block_uids ae)))
                in case sequential_forward ae prompts_ok 0 None inputs (cl_world st) of
                     None \<Rightarrow> None
                   | Some (Inl e, w) \<Rightarrow> Some (Inl e, st\<lparr>cl_world := w\<rparr>)
                   | Some (Inr (out, _, _), w) \<Rightarrow> Some (Inr out, st\<lparr>cl_world := w\<rparr>))
      | Some s \<Rightarrow>
          (case checked_step (le_session E) step_id (1, hidden_size) (map_option fst prompts)
                  (map_option (\<lambda>ids. (int (length ids), True)) hypo_ids) slices inputs s of
             None \<Rightarrow> None
           | Some (r, s') \<Rightarrow> Some (r, st\<lparr>cl_active := Some s'\<rparr>)))"

text \<open>\<open>use_session\<close>: the body runs with another active session (and its \<open>output_ids\<close>); afterwards the variable is reset,
  whether the body raised or not. The session shares the world.\<close>

definition use_session ::
    "('w, 'h) inference_session \<times> int list option \<Rightarrow> (('w, 'h) client \<Rightarrow> ('a result \<times> ('w, 'h) client) option) \<Rightarrow> ('w, 'h) client
     \<Rightarrow> ('a result \<times> (('w, 'h) inference_session \<times> int list option) \<times> ('w, 'h) client) option" where
  "use_session session body st =
     (case body (st\<lparr>cl_active := Some ((fst session)\<lparr>is_world := cl_world st\<rparr>), cl_output_ids := snd session\<rparr>) of
        None \<Rightarrow> None
      | Some (r, st') \<Rightarrow>
          (let s' = (case cl_active st' of None \<Rightarrow> fst session | Some s \<Rightarrow> s) in
           Some (r, (s', cl_output_ids st'),
             st'\<lparr>cl_world := is_world s', cl_active := cl_active st, cl_output_ids := cl_output_ids st\<rparr>)))"

text \<open>\<open>inference_session(max_length=...)\<close>: the session is new, and closed at the end.\<close>

definition in_new_session ::
    "('w, 'h, 'p) layers_env \<Rightarrow> int \<Rightarrow> (('w, 'h) client \<Rightarrow> ('a result \<times> ('w, 'h) client) option) \<Rightarrow> ('w, 'h) client
     \<Rightarrow> ('a result \<times> ('w, 'h) client) option" where
  "in_new_session E max_length body st =
     (case use_session (new_inference_session max_length (cl_world st), None) body st of
        None \<Rightarrow> None
      | Some (r, (s, _), st') \<Rightarrow> Some (r, st'\<lparr>cl_world := is_world (close_session (le_session E) s)\<rparr>))"

subsection \<open>Prompt tuning\<close>

record ('h, 'p) client_model =
  cm_tuning_mode :: "string option"
  cm_pre_seq_len :: int
  cm_num_hidden_layers :: int
  cm_hidden_size :: int
  cm_vocab_size :: int
  cm_word_embeddings :: "int \<Rightarrow> 'h"
  cm_layernorm :: "'h \<Rightarrow> 'h"
  cm_norm :: "'h \<Rightarrow> 'h"
  cm_prompt_embeddings :: "nat \<Rightarrow> 'h"
  cm_intermediate_prompts :: "remote_span_info \<Rightarrow> 'p"

definition contains :: "string \<Rightarrow> string \<Rightarrow> bool" where
  "contains s sub \<longleftrightarrow> (\<exists>i \<in> set [0..<Suc (length s)]. starts_with (drop i s) sub)"

definition tuned :: "('h, 'p) client_model \<Rightarrow> bool" where
  "tuned M = (case cm_tuning_mode M of None \<Rightarrow> False | Some m \<Rightarrow> m \<noteq> [] \<and> contains m ''ptune'')"

text \<open>\<open>init_prompts\<close>: the last branch formats \<open>self.tuning_mode\<close>, an attribute that no class defines.\<close>

definition init_prompts :: "('h, 'p) client_model \<Rightarrow> unit result" where
  "init_prompts M =
     (if tuned M then guardR (cm_pre_seq_len M > 0) AssertionError (Inr ())
      else if cm_tuning_mode M \<noteq> None \<and> cm_tuning_mode M \<noteq> Some [] then Inl AttributeError
      else Inr ())"

definition get_prompt :: "'p \<Rightarrow> ('h, 'p) client_model \<Rightarrow> 'h list \<times> 'p prompts" where
  "get_prompt dummy M =
     (map (cm_prompt_embeddings M) [0..<nat (cm_pre_seq_len M)],
      if cm_tuning_mode M = Some ''deep_ptune''
      then ([cm_num_hidden_layers M, 1, cm_pre_seq_len M, cm_hidden_size M], cm_intermediate_prompts M)
      else ([0], \<lambda>_. dummy))"

subsection \<open>The arguments of \<open>forward\<close>\<close>

record past_key_values =
  pk_seen_tokens :: int
  pk_hypo_ids :: "int list option"

definition new_past :: past_key_values where
  "new_past = \<lparr>pk_seen_tokens = 0, pk_hypo_ids = None\<rparr>"

definition update_seen :: "int \<Rightarrow> past_key_values \<Rightarrow> past_key_values" where
  "update_seen new_seen p = p\<lparr>pk_seen_tokens := pk_seen_tokens p + new_seen\<rparr>"

record 'h forward_args =
  fa_input_ids :: "int list option"
  fa_past :: "past_key_values option"
  fa_attention_mask :: "int list option"
  fa_position_ids :: "int list option"
  fa_has_head_mask :: bool
  fa_inputs_embeds :: "'h list option"
  fa_use_cache :: "bool option"
  fa_output_attentions :: bool
  fa_output_hidden_states :: bool
  fa_output_router_logits :: bool
  fa_return_dict :: "bool option"
  fa_cache_position :: "int list option"

definition check_inputs :: "'h forward_args \<Rightarrow> unit result" where
  "check_inputs a =
     (case (fa_input_ids a, fa_inputs_embeds a) of
        (Some _, Some _) \<Rightarrow> Inl ValueError | (None, None) \<Rightarrow> Inl ValueError | _ \<Rightarrow> Inr ())"

definition check_mask :: "'h forward_args \<Rightarrow> unit result" where
  "check_mask a = guardR (case fa_attention_mask a of None \<Rightarrow> True | Some m \<Rightarrow> \<forall>x \<in> set m. x = 1) AssertionError (Inr ())"

definition check_positions :: "'h forward_args \<Rightarrow> unit result" where
  "check_positions a =
     guardR (case fa_position_ids a of None \<Rightarrow> True
       | Some ps \<Rightarrow> \<forall>i \<in> set [0..<length ps - 1]. ps ! Suc i - ps ! i = 1) AssertionError (Inr ())"

definition check_head_mask :: "'h forward_args \<Rightarrow> unit result" where
  "check_head_mask a = guardR (\<not> fa_has_head_mask a) AssertionError (Inr ())"

text \<open>\<open>torch.eq\<close> broadcasts a single element; other lengths raise.\<close>

definition check_cache_position :: "'h forward_args \<Rightarrow> unit result" where
  "check_cache_position a =
     (case fa_cache_position a of
        None \<Rightarrow> Inr ()
      | Some cs \<Rightarrow>
          (case fa_position_ids a of
             None \<Rightarrow> Inl AssertionError
           | Some ps \<Rightarrow>
               if length cs \<noteq> length ps \<and> length cs \<noteq> 1 \<and> length ps \<noteq> 1 then Inl RuntimeError
               else guardR (if length cs = length ps then cs = ps
                            else if length cs = 1 then (\<forall>p \<in> set ps. p = hd cs) else (\<forall>c \<in> set cs. c = hd ps)) AssertionError (Inr ())))"

definition check_flags :: "'h forward_args \<Rightarrow> unit result" where
  "check_flags a =
     guardR (fa_use_cache a = None \<or> fa_use_cache a = Some True) AssertionError
       (guardR (\<not> fa_output_attentions a) AssertionError
         (guardR (\<not> fa_output_hidden_states a) AssertionError (Inr ())))"

definition check_return_dict :: "'h forward_args \<Rightarrow> unit result" where
  "check_return_dict a = guardR (fa_return_dict a = None \<or> fa_return_dict a = Some True) AssertionError (Inr ())"

definition check_router_logits :: "'h forward_args \<Rightarrow> unit result" where
  "check_router_logits a = guardR (\<not> fa_output_router_logits a) AssertionError (Inr ())"

fun run_checks :: "('h forward_args \<Rightarrow> unit result) list \<Rightarrow> 'h forward_args \<Rightarrow> unit result" where
  "run_checks [] a = Inr ()"
| "run_checks (c # cs) a = bindR (c a) (\<lambda>_. run_checks cs a)"

subsection \<open>\<open>forward\<close>\<close>

definition embed_inputs :: "('h, 'p) client_model \<Rightarrow> 'h forward_args \<Rightarrow> 'h list result" where
  "embed_inputs M a =
     (case fa_inputs_embeds a of
        Some es \<Rightarrow> Inr es
      | None \<Rightarrow> mapR (\<lambda>t. guardR (0 \<le> t \<and> t < cm_vocab_size M) IndexError (Inr (cm_word_embeddings M t)))
                  (case fa_input_ids a of None \<Rightarrow> [] | Some ids \<Rightarrow> ids))"

text \<open>The part that the four models share, from the embeddings to the final norm. The argument \<open>seen\<close> says how the
  returned \<open>past_key_values\<close> count tokens, from the hidden states before and after the prompts are cut off.\<close>

definition forward_layers ::
    "('w, 'h, 'p) layers_env \<Rightarrow> ('h, 'p) client_model \<Rightarrow> ('h list \<Rightarrow> 'h list \<Rightarrow> past_key_values option \<Rightarrow> past_key_values)
     \<Rightarrow> string \<Rightarrow> 'h forward_args \<Rightarrow> ('w, 'h) client \<Rightarrow> (('h list \<times> past_key_values) result \<times> ('w, 'h) client) option" where
  "forward_layers E M seen step_id a st =
     (case embed_inputs M a of
        Inl e \<Rightarrow> Some (Inl e, st)
      | Inr inputs_embeds \<Rightarrow>
          (let use_prompts = (tuned M \<and> remote_position st = 0);
               prompts = get_prompt (le_dummy E) M;
               embeds = (if use_prompts then fst prompts @ inputs_embeds else inputs_embeds)
           in case remote_forward E (cm_hidden_size M) step_id (map (cm_layernorm M) embeds)
                     (if use_prompts then Some (snd prompts) else None)
                     (case fa_past a of None \<Rightarrow> None | Some p \<Rightarrow> pk_hypo_ids p) st of
                None \<Rightarrow> None
              | Some (Inl e, st') \<Rightarrow> Some (Inl e, st')
              | Some (Inr hidden_states, st') \<Rightarrow>
                  (let kept = (if use_prompts then drop (nat (cm_pre_seq_len M)) hidden_states else hidden_states) in
                   if length kept \<noteq> length inputs_embeds then Some (Inl RuntimeError, st')
                   else Some (Inr (map (cm_norm M) kept, seen hidden_states kept (fa_past a)), st'))))"

definition checked_forward ::
    "('h forward_args \<Rightarrow> unit result) list
     \<Rightarrow> ('h forward_args \<Rightarrow> ('w, 'h) client \<Rightarrow> (('h list \<times> past_key_values) result \<times> ('w, 'h) client) option)
     \<Rightarrow> 'h forward_args \<Rightarrow> ('w, 'h) client \<Rightarrow> (('h list \<times> past_key_values) result \<times> ('w, 'h) client) option" where
  "checked_forward checks run a st = (case run_checks checks a of Inl e \<Rightarrow> Some (Inl e, st) | Inr _ \<Rightarrow> run a st)"

text \<open>\<open>DistributedBloomModel.forward\<close>: the tokens are counted after the prompts are cut off.\<close>

definition bloom_forward ::
    "('w, 'h, 'p) layers_env \<Rightarrow> ('h, 'p) client_model \<Rightarrow> string \<Rightarrow> 'h forward_args \<Rightarrow> ('w, 'h) client
     \<Rightarrow> (('h list \<times> past_key_values) result \<times> ('w, 'h) client) option" where
  "bloom_forward E M step_id =
     checked_forward [check_inputs, check_mask, check_head_mask, check_flags, check_return_dict]
       (forward_layers E M (\<lambda>whole kept past. update_seen (int (length kept)) (case past of None \<Rightarrow> new_past | Some p \<Rightarrow> p)) step_id)"

text \<open>\<open>DistributedFalconModel.forward\<close>: a new \<open>RemotePastKeyValues\<close> is returned, whatever was passed.\<close>

definition falcon_forward ::
    "('w, 'h, 'p) layers_env \<Rightarrow> ('h, 'p) client_model \<Rightarrow> string \<Rightarrow> 'h forward_args \<Rightarrow> ('w, 'h) client
     \<Rightarrow> (('h list \<times> past_key_values) result \<times> ('w, 'h) client) option" where
  "falcon_forward E M step_id =
     checked_forward [check_inputs, check_mask, check_positions, check_head_mask, check_flags, check_return_dict]
       (forward_layers E M (\<lambda>whole kept past. new_past) step_id)"

text \<open>\<open>update_seen\<close> changes the object that was passed; after an exception nobody reads it, so only the returned object is
  modelled.

  \<open>DistributedLlamaModel.forward\<close>: no layer norm after the embeddings, the prompts are counted too.\<close>

definition llama_forward ::
    "('w, 'h, 'p) layers_env \<Rightarrow> ('h, 'p) client_model \<Rightarrow> string \<Rightarrow> 'h forward_args \<Rightarrow> ('w, 'h) client
     \<Rightarrow> (('h list \<times> past_key_values) result \<times> ('w, 'h) client) option" where
  "llama_forward E M step_id =
     checked_forward [check_inputs, check_mask, check_cache_position, check_positions, check_flags, check_return_dict]
       (forward_layers E (M\<lparr>cm_layernorm := \<lambda>x. x\<rparr>)
         (\<lambda>whole kept past. update_seen (int (length whole)) (case past of None \<Rightarrow> new_past | Some p \<Rightarrow> p)) step_id)"

definition mixtral_forward ::
    "('w, 'h, 'p) layers_env \<Rightarrow> ('h, 'p) client_model \<Rightarrow> string \<Rightarrow> 'h forward_args \<Rightarrow> ('w, 'h) client
     \<Rightarrow> (('h list \<times> past_key_values) result \<times> ('w, 'h) client) option" where
  "mixtral_forward E M step_id =
     checked_forward [check_inputs, check_mask, check_positions, check_head_mask, check_flags, check_return_dict, check_router_logits]
       (forward_layers E (M\<lparr>cm_layernorm := \<lambda>x. x\<rparr>)
         (\<lambda>whole kept past. update_seen (int (length whole)) (case past of None \<Rightarrow> new_past | Some p \<Rightarrow> p)) step_id)"

subsection \<open>One model for the four families\<close>

datatype family = Bloom | Falcon | Llama | Mixtral

fun model_forward ::
    "family \<Rightarrow> ('w, 'h, 'p) layers_env \<Rightarrow> ('h, 'p) client_model \<Rightarrow> string \<Rightarrow> 'h forward_args \<Rightarrow> ('w, 'h) client
     \<Rightarrow> (('h list \<times> past_key_values) result \<times> ('w, 'h) client) option" where
  "model_forward Bloom E M = bloom_forward E M"
| "model_forward Falcon E M = falcon_forward E M"
| "model_forward Llama E M = llama_forward E M"
| "model_forward Mixtral E M = mixtral_forward E M"

fun embed_norm :: "family \<Rightarrow> ('h, 'p) client_model \<Rightarrow> 'h \<Rightarrow> 'h" where
  "embed_norm Bloom M = cm_layernorm M"
| "embed_norm Falcon M = cm_layernorm M"
| "embed_norm _ M = (\<lambda>x. x)"

text \<open>The arguments of a call \<open>model(input_ids)\<close>, with a \<open>past_key_values\<close> or none.\<close>

definition plain_args :: "int list \<Rightarrow> past_key_values option \<Rightarrow> 'h forward_args" where
  "plain_args ids past = \<lparr>fa_input_ids = Some ids, fa_past = past, fa_attention_mask = None, fa_position_ids = None, fa_has_head_mask = False,
     fa_inputs_embeds = None, fa_use_cache = None, fa_output_attentions = False, fa_output_hidden_states = False,
     fa_output_router_logits = False, fa_return_dict = None, fa_cache_position = None\<rparr>"

definition valid_ids :: "('h, 'p) client_model \<Rightarrow> int list \<Rightarrow> bool" where
  "valid_ids M ids \<longleftrightarrow> (\<forall>t \<in> set ids. 0 \<le> t \<and> t < cm_vocab_size M)"

text \<open>The prompts of a tuned model, in front of the first tokens of a sequence.\<close>

definition prompt_prefix :: "('h, 'p) client_model \<Rightarrow> 'h list" where
  "prompt_prefix M = (if tuned M then map (cm_prompt_embeddings M) [0..<nat (cm_pre_seq_len M)] else [])"

text \<open>A model whose prompts \<open>init_prompts\<close> accepted, with one set of deep prompts per block.\<close>

definition prompts_ok :: "('h, 'p) client_model \<Rightarrow> int \<Rightarrow> bool" where
  "prompts_ok M n \<longleftrightarrow> init_prompts M = Inr () \<and> cm_num_hidden_layers M = n"

lemma embed_plain: "valid_ids M ids \<Longrightarrow> embed_inputs M (plain_args ids past) = Inr (map (cm_word_embeddings M) ids)"
  by (auto simp: embed_inputs_def plain_args_def valid_ids_def intro!: mapR_total)

lemma plain_checks:
  "run_checks [check_inputs, check_mask, check_head_mask, check_flags, check_return_dict] (plain_args ids past) = Inr ()"
  "run_checks [check_inputs, check_mask, check_positions, check_head_mask, check_flags, check_return_dict] (plain_args ids past) = Inr ()"
  "run_checks [check_inputs, check_mask, check_cache_position, check_positions, check_flags, check_return_dict] (plain_args ids past) = Inr ()"
  "run_checks [check_inputs, check_mask, check_positions, check_head_mask, check_flags, check_return_dict, check_router_logits]
     (plain_args ids past) = Inr ()"
  by (simp_all add: plain_args_def check_inputs_def check_mask_def check_positions_def check_head_mask_def check_flags_def
      check_return_dict_def check_router_logits_def check_cache_position_def)

lemma prompt_arguments:
  assumes "prompts_ok M n" and "tuned M" and "cm_pre_seq_len M \<le> k"
  shows "check_arguments n (1, k, cm_hidden_size M) (Some (fst (snd (get_prompt d M)))) None = Inr ()"
  using assms by (auto simp: check_arguments_def get_prompt_def prompts_ok_def)

lemma prompt_prefix_length: "prompts_ok M n \<Longrightarrow> int (length (prompt_prefix M)) = (if tuned M then cm_pre_seq_len M else 0)"
  by (auto simp: prompt_prefix_def prompts_ok_def init_prompts_def guardR_def split: if_splits)

lemma get_prompt_prefix: "tuned M \<Longrightarrow> fst (get_prompt d M) = prompt_prefix M"
  by (simp add: get_prompt_def prompt_prefix_def)

lemma forward_layers_run:
  assumes "embed_inputs M a = Inr es" and "\<And>p. fa_past a = Some p \<Longrightarrow> pk_hypo_ids p = None"
    and "use \<longleftrightarrow> tuned M \<and> remote_position st = 0" and "P = (if use then prompt_prefix M else [])"
    and rf: "remote_forward E (cm_hidden_size M) step_id (map (cm_layernorm M) (P @ es))
      (if use then Some (snd (get_prompt (le_dummy E) M)) else None) None st = Some (Inr out, st')"
    and "length out = length P + length es"
  shows "forward_layers E M seen step_id a st =
    Some (Inr (map (cm_norm M) (drop (length P) out), seen out (drop (length P) out) (fa_past a)), st')"
proof -
  have hypo: "(case fa_past a of None \<Rightarrow> None | Some p \<Rightarrow> pk_hypo_ids p) = None" using assms(2) by (cases "fa_past a") auto
  show ?thesis
  proof (cases use)
    case True
    then have "P = fst (get_prompt (le_dummy E) M)" "length P = nat (cm_pre_seq_len M)"
      using assms(3,4) by (simp_all add: prompt_prefix_def get_prompt_def)
    with True assms(1,3,6) rf hypo show ?thesis by (simp add: forward_layers_def Let_def)
  next
    case False
    then have "\<not> (tuned M \<and> remote_position st = 0)" using assms(3) by blast
    moreover have "P = []" using False assms(4) by simp
    ultimately show ?thesis using False assms(1,6) rf hypo by (simp add: forward_layers_def Let_def del: de_Morgan_conj)
  qed
qed

context healthy
begin

lemma layers_in_session:
  assumes E: "le_session E = env" "0 < num_blocks env" and M: "prompts_ok M (num_blocks env)"
    and st: "cl_active st = Some s" "session_inv env blocks view X s"
    and a: "embed_inputs M a = Inr es" "\<And>p. fa_past a = Some p \<Longrightarrow> pk_hypo_ids p = None"
    and P: "P = (if X = [] then prompt_prefix M else [])"
    and Y: "Y = map (cm_layernorm M) (P @ es)"
    and fits: "int (length X + length Y) \<le> is_max_length s" "is_max_length s \<le> L"
  shows "\<exists>s'. forward_layers E M seen step_id a st =
      Some (Inr (map (cm_norm M) (drop (length X + length P) (blocks 0 (num_blocks env) (X @ Y))),
                 seen (drop (length X) (blocks 0 (num_blocks env) (X @ Y)))
                      (drop (length X + length P) (blocks 0 (num_blocks env) (X @ Y))) (fa_past a)), st\<lparr>cl_active := Some s'\<rparr>) \<and>
    session_inv env blocks view (X @ Y) s' \<and> is_max_length s' = is_max_length s"
proof -
  have len: "length (blocks b c xs) = length xs" for b c xs using causal by (simp add: causal_blocks_def)
  let ?use = "tuned M \<and> remote_position st = 0" and ?prompts = "get_prompt (le_dummy E) M"
  let ?out = "drop (length X) (blocks 0 (num_blocks env) (X @ Y))"
  have pos: "?use \<longleftrightarrow> tuned M \<and> X = []" "\<not> is_closed s" using st by (auto simp: remote_position_def session_inv_def)
  have P': "P = (if ?use then prompt_prefix M else [])" using P unfolding pos(1) by (simp add: prompt_prefix_def)
  have args: "check_arguments (num_blocks env) (1, int (length Y), cm_hidden_size M)
      (map_option fst (if ?use then Some (snd ?prompts) else None)) None = Inr ()"
  proof (cases ?use)
    case True
    then have "cm_pre_seq_len M \<le> int (length Y)" using prompt_prefix_length [OF M] P' Y by simp
    with True prompt_arguments [OF M] show ?thesis by simp
  next
    case False
    then have none: "(if ?use then Some (snd ?prompts) else None) = None" by simp
    show ?thesis unfolding none by (simp add: check_arguments_def)
  qed
  obtain s' where step: "session_step env step_id (case (if ?use then Some (snd ?prompts) else None) of None \<Rightarrow> \<lambda>_. le_dummy E | Some p \<Rightarrow> snd p) Y s =
      Some (Inr ?out, s')" "session_inv env blocks view (X @ Y) s'" "is_max_length s' = is_max_length s"
    using session_step_ok [OF E(2) st(2) fits] by blast
  have rf: "remote_forward E (cm_hidden_size M) step_id (map (cm_layernorm M) (P @ es)) (if ?use then Some (snd ?prompts) else None) None st =
      Some (Inr ?out, st\<lparr>cl_active := Some s'\<rparr>)"
    unfolding remote_forward_def checked_step_def Y [symmetric] using st(1) pos(2) args step(1) E(1) by (simp add: Let_def)
  have "length ?out = length P + length es" by (simp add: len Y)
  from forward_layers_run [OF a refl P' rf this, of seen] step(2,3) show ?thesis
    by (intro exI [of _ s']) (simp add: add.commute)
qed

end

text \<open>Outside a session.\<close>

lemma layers_outside:
  assumes honest: "honest ae hp blocks grads pgrads" "chain_rule blocks grads pgrads" "reliable ae"
    and E: "\<And>slices. le_autograd E slices = ae" and M: "prompts_ok M (int (length (ae_block_uids ae)))"
    and st: "cl_active st = None"
    and a: "embed_inputs M a = Inr es" "es \<noteq> []" "\<And>p. fa_past a = Some p \<Longrightarrow> pk_hypo_ids p = None"
    and len: "\<And>b c xs. length (blocks b c xs) = length xs"
    and Y: "Y = map (cm_layernorm M) (prompt_prefix M @ es)" and n: "n = int (length (ae_block_uids ae))"
  shows "\<exists>w. forward_layers E M seen step_id a st =
      Some (Inr (map (cm_norm M) (drop (length (prompt_prefix M)) (blocks 0 n Y)),
                 seen (blocks 0 n Y) (drop (length (prompt_prefix M)) (blocks 0 n Y)) (fa_past a)), st\<lparr>cl_world := w\<rparr>)"
proof -
  let ?use = "tuned M \<and> remote_position st = 0" and ?prompts = "get_prompt (le_dummy E) M"
  have pos: "remote_position st = 0" using st by (simp add: remote_position_def)
  then have P: "prompt_prefix M = (if ?use then prompt_prefix M else [])" by (simp add: prompt_prefix_def)
  have shape: "(case (if ?use then Some (snd ?prompts) else None) of None \<Rightarrow> True
      | Some (shape, _) \<Rightarrow> prod_list shape = 0 \<or> hd shape = int (length (ae_block_uids ae)))"
    using M by (auto simp: get_prompt_def prompts_ok_def)
  have "\<exists>r w. sequential_forward ae True 0 (Some n) Y (cl_world st) = Some (r, w) \<and> (reliable ae \<longrightarrow> \<not> isl r) \<and>
      (\<forall>out ints dones. r = Inr (out, ints, dones) \<longrightarrow> out = blocks 0 n Y \<and> saved blocks 0 Y n ints dones)"
    using honest(3) n by (intro sequential_forward_total [OF honest(1,2)]) auto
  then obtain r w where r: "sequential_forward ae True 0 (Some n) Y (cl_world st) = Some (r, w)" "\<not> isl r"
      "\<forall>out ints dones. r = Inr (out, ints, dones) \<longrightarrow> out = blocks 0 n Y \<and> saved blocks 0 Y n ints dones"
    using honest(3) by blast
  obtain ints dones where "r = Inr (blocks 0 n Y, ints, dones)" using r(2,3) by (cases r) auto
  with r(1) have seq: "sequential_forward ae True 0 None Y (cl_world st) = Some (Inr (blocks 0 n Y, ints, dones), w)"
    by (simp add: sequential_forward_def n)
  have "Y \<noteq> []" using Y a(2) by simp
  with seq shape have rf: "remote_forward E (cm_hidden_size M) step_id (map (cm_layernorm M) (prompt_prefix M @ es))
      (if ?use then Some (snd ?prompts) else None) None st = Some (Inr (blocks 0 n Y), st\<lparr>cl_world := w\<rparr>)"
    unfolding remote_forward_def Y [symmetric] by (simp add: st E Let_def del: prod_list.Cons)
  have "length (blocks 0 n Y) = length (prompt_prefix M) + length es" by (simp add: len Y)
  from forward_layers_run [OF a(1,3) refl P rf this, of seen] show ?thesis by blast
qed

text \<open>The four models are the shared part with their own layer norm after the embeddings and count of seen tokens.\<close>

fun seen_after :: "family \<Rightarrow> 'h list \<Rightarrow> 'h list \<Rightarrow> past_key_values option \<Rightarrow> past_key_values" where
  "seen_after Bloom whole kept past = update_seen (int (length kept)) (case past of None \<Rightarrow> new_past | Some p \<Rightarrow> p)"
| "seen_after Falcon whole kept past = new_past"
| "seen_after Llama whole kept past = update_seen (int (length whole)) (case past of None \<Rightarrow> new_past | Some p \<Rightarrow> p)"
| "seen_after Mixtral whole kept past = update_seen (int (length whole)) (case past of None \<Rightarrow> new_past | Some p \<Rightarrow> p)"

lemma plain_forward:
  "model_forward fam E M step_id (plain_args ids past) st =
   forward_layers E (M\<lparr>cm_layernorm := embed_norm fam M\<rparr>) (seen_after fam) step_id (plain_args ids past) st"
proof -
  have eta: "seen_after Bloom = (\<lambda>whole kept past. update_seen (int (length kept)) (case past of None \<Rightarrow> new_past | Some p \<Rightarrow> p))"
    "seen_after Falcon = (\<lambda>whole kept past. new_past)"
    "seen_after Llama = (\<lambda>whole kept past. update_seen (int (length whole)) (case past of None \<Rightarrow> new_past | Some p \<Rightarrow> p))"
    "seen_after Mixtral = (\<lambda>whole kept past. update_seen (int (length whole)) (case past of None \<Rightarrow> new_past | Some p \<Rightarrow> p))"
    by (intro ext, simp)+
  show ?thesis
    by (cases fam) (simp_all add: bloom_forward_def falcon_forward_def llama_forward_def mixtral_forward_def
        checked_forward_def plain_checks eta del: seen_after.simps run_checks.simps)
qed

lemma layernorm_irrelevant [simp]:
  "tuned (M\<lparr>cm_layernorm := f\<rparr>) = tuned M" "prompt_prefix (M\<lparr>cm_layernorm := f\<rparr>) = prompt_prefix M"
  "prompts_ok (M\<lparr>cm_layernorm := f\<rparr>) n = prompts_ok M n" "valid_ids (M\<lparr>cm_layernorm := f\<rparr>) ids = valid_ids M ids"
  by (simp_all add: tuned_def prompt_prefix_def prompts_ok_def init_prompts_def valid_ids_def)

text \<open>What the model computes when all layers are local.\<close>

definition local_inputs :: "family \<Rightarrow> ('h, 'p) client_model \<Rightarrow> int list \<Rightarrow> 'h list" where
  "local_inputs fam M ids = map (embed_norm fam M) (prompt_prefix M @ map (cm_word_embeddings M) ids)"

definition local_hidden :: "family \<Rightarrow> ('h, 'p) client_model \<Rightarrow> ('h list \<Rightarrow> 'h list) \<Rightarrow> int list \<Rightarrow> 'h list" where
  "local_hidden fam M layers ids = map (cm_norm M) (drop (length (prompt_prefix M)) (layers (local_inputs fam M ids)))"

lemma new_session_inv: "session_inv env blocks view [] (new_inference_session max_length w)"
  by (simp add: session_inv_def new_inference_session_def)

context healthy
begin

lemma forward_in_session:
  assumes E: "le_session E = env" "0 < num_blocks env" and M: "prompts_ok M (num_blocks env)" "valid_ids M ids"
    and st: "cl_active st = Some s" "session_inv env blocks view X s"
    and past: "\<And>p. past = Some p \<Longrightarrow> pk_hypo_ids p = None"
    and P: "P = (if X = [] then prompt_prefix M else [])"
    and Y: "Y = map (embed_norm fam M) (P @ map (cm_word_embeddings M) ids)"
    and fits: "int (length X + length Y) \<le> is_max_length s" "is_max_length s \<le> L"
  shows "\<exists>s'. model_forward fam E M step_id (plain_args ids past) st =
      Some (Inr (map (cm_norm M) (drop (length X + length P) (blocks 0 (num_blocks env) (X @ Y))),
                 seen_after fam (drop (length X) (blocks 0 (num_blocks env) (X @ Y)))
                      (drop (length X + length P) (blocks 0 (num_blocks env) (X @ Y))) past), st\<lparr>cl_active := Some s'\<rparr>) \<and>
    session_inv env blocks view (X @ Y) s' \<and> is_max_length s' = is_max_length s"
proof -
  let ?M = "M\<lparr>cm_layernorm := embed_norm fam M\<rparr>" and ?a = "plain_args ids past"
  have emb: "embed_inputs ?M ?a = Inr (map (cm_word_embeddings M) ids)" using embed_plain [of ?M ids past] M(2) by simp
  have hypo: "\<And>p. fa_past ?a = Some p \<Longrightarrow> pk_hypo_ids p = None" using past by (simp add: plain_args_def)
  have Y': "Y = map (cm_layernorm ?M) (P @ map (cm_word_embeddings M) ids)" using Y by simp
  have M': "prompts_ok ?M (num_blocks env)" using M(1) by simp
  have P': "P = (if X = [] then prompt_prefix ?M else [])" using P by simp
  show ?thesis using layers_in_session [OF E M' st emb hypo P' Y' fits, of "seen_after fam" step_id]
    by (simp add: plain_forward) (simp add: plain_args_def)
qed

lemma forward_new_session:
  assumes E: "le_session E = env" "0 < num_blocks env" and M: "prompts_ok M (num_blocks env)" "valid_ids M ids"
    and fits: "int (length (prompt_prefix M) + length ids) \<le> max_length" "max_length \<le> L"
  shows "\<exists>s past. model_forward fam E M step_id (plain_args ids None) (st\<lparr>cl_active := Some (new_inference_session max_length w)\<rparr>) =
      Some (Inr (local_hidden fam M (blocks 0 (num_blocks env)) ids, past), st\<lparr>cl_active := Some s\<rparr>)"
proof -
  let ?s = "new_inference_session max_length w"
  from forward_in_session [OF E M, where X = "[]" and s = ?s and st = "st\<lparr>cl_active := Some ?s\<rparr>" and past = None and fam = fam,
      OF _ new_session_inv _ refl refl, of step_id]
  show ?thesis using fits by (auto simp: local_hidden_def local_inputs_def new_inference_session_def)
qed

end

subsection \<open>Properties\<close>

text \<open>C11. A distributed model computes the model, with and without a session: for each of the four families, with or
  without tuned prompts in front of the embeddings, calling the model on token ids in a new inference session and calling it outside any session (the
  training path) both return, through servers that answer, exactly the hidden states that all layers compute on the
  embedded tokens behind the prompts, with the prompts cut off and the final norm applied. (The servers of the
  hypotheses answer alike whatever deep prompts a request carries.)\<close>

theorem forward_computes_model:
  assumes healthy: "healthy (le_session E) blocks view L" "n = num_blocks (le_session E)" "0 < n"
    and train: "honest ae hp blocks grads pgrads" "chain_rule blocks grads pgrads" "reliable ae"
      "\<forall>slices. le_autograd E slices = ae" "n = int (length (ae_block_uids ae))"
    and M: "prompts_ok M n" "valid_ids M ids" "ids \<noteq> []"
    and fits: "int (length (prompt_prefix M) + length ids) \<le> max_length" "max_length \<le> L"
    and st: "cl_active st = None"
  shows "\<exists>w s past past'.
    model_forward fam E M step_id (plain_args ids None) st =
      Some (Inr (local_hidden fam M (blocks 0 n) ids, past), st\<lparr>cl_world := w\<rparr>) \<and>
    model_forward fam E M step_id (plain_args ids None) (st\<lparr>cl_active := Some (new_inference_session max_length w0)\<rparr>) =
      Some (Inr (local_hidden fam M (blocks 0 n) ids, past'), st\<lparr>cl_active := Some s\<rparr>)"
proof -
  let ?M = "M\<lparr>cm_layernorm := embed_norm fam M\<rparr>" and ?a = "plain_args ids None"
  have emb: "embed_inputs ?M ?a = Inr (map (cm_word_embeddings M) ids)" using embed_plain [of ?M ids None] M(2) by simp
  have hypo: "\<And>p. fa_past ?a = Some p \<Longrightarrow> pk_hypo_ids p = None" by (simp add: plain_args_def)
  have inputs: "local_inputs fam M ids = map (cm_layernorm ?M) (prompt_prefix ?M @ map (cm_word_embeddings M) ids)"
    by (simp add: local_inputs_def)
  have len: "\<And>b c xs. length (blocks b c xs) = length xs" using healthy.causal [OF healthy(1)] by (simp add: causal_blocks_def)
  have eta: "\<And>slices. le_autograd E slices = ae" using train(4) by blast
  have outside: "\<exists>w. forward_layers E ?M (seen_after fam) step_id ?a st =
      Some (Inr (local_hidden fam M (blocks 0 n) ids, seen_after fam (blocks 0 n (local_inputs fam M ids))
        (drop (length (prompt_prefix M)) (blocks 0 n (local_inputs fam M ids))) None), st\<lparr>cl_world := w\<rparr>)"
    using layers_outside [OF train(1-3) eta _ st emb _ hypo len inputs train(5), of "seen_after fam" step_id] M train(5)
    by (simp add: local_hidden_def) (simp add: plain_args_def)
  let ?st = "st\<lparr>cl_active := Some (new_inference_session max_length w0)\<rparr>"
  have session: "\<exists>s past'. model_forward fam E M step_id ?a ?st =
      Some (Inr (local_hidden fam M (blocks 0 n) ids, past'), ?st\<lparr>cl_active := Some s\<rparr>)"
    using healthy.forward_new_session [OF healthy(1) refl _ _ M(2) fits] healthy(2,3) M(1) by simp
  from outside session show ?thesis by (simp add: plain_forward) blast
qed

text \<open>Two servers with one block of running sums each, and the same blocks for the training path.\<close>

definition sums_env :: "(demo_world, int list, unit) autograd_env" where
  "sums_env = \<lparr>ae_make_sequence = \<lambda>b e w. (Inr [(demo_span ''p'' b)\<lparr>rs_end := e\<rparr>], w),
     ae_forward = \<lambda>sp uid x w. (Inr (demo_blocks (rs_start sp) (rs_end sp) x), w),
     ae_backward = \<lambda>sp uid x g w. (Inr (g, None), w), ae_on_success = \<lambda>p w. w, ae_on_failure = \<lambda>p w. w,
     ae_same_shape = \<lambda>x y. length x = length y, ae_block_uids = [''m.0'', ''m.1''], ae_max_retries = None\<rparr>"

definition sums_layers :: "(demo_world, int, unit) layers_env" where
  "sums_layers = \<lparr>le_session = demo_env, le_autograd = \<lambda>_. sums_env, le_dummy = ()\<rparr>"

definition sums_model :: "string option \<Rightarrow> (int, unit) client_model" where
  "sums_model mode = \<lparr>cm_tuning_mode = mode, cm_pre_seq_len = 1, cm_num_hidden_layers = 2, cm_hidden_size = 1, cm_vocab_size = 10,
     cm_word_embeddings = \<lambda>t. t, cm_layernorm = \<lambda>x. 2 * x, cm_norm = \<lambda>x. x + 1, cm_prompt_embeddings = \<lambda>i. 5,
     cm_intermediate_prompts = \<lambda>_. ()\<rparr>"

definition idle_client :: "(demo_world, int) client" where
  "idle_client = \<lparr>cl_world = [], cl_active = None, cl_output_ids = None, cl_skipped = 0\<rparr>"

lemma sums_blocks: "demo_blocks 0 2 xs = running_sums 0 (running_sums 0 xs)"
  by (simp add: demo_blocks_def numeral_2_eq_2)

lemma sums_training:
  "honest sums_env False demo_blocks (\<lambda>_ _ _ g. g) (\<lambda>_ _ _ _. [] :: unit list)"
  "chain_rule demo_blocks (\<lambda>_ _ _ g. g) (\<lambda>_ _ _ _. [] :: unit list)" "reliable sums_env"
  using demo_causal by (auto simp: honest_def chain_rule_def reliable_def sums_env_def covering_def demo_span_def causal_blocks_def)

lemma sums_tuned: "tuned (sums_model (Some ''ptune''))"
  by (simp add: tuned_def sums_model_def contains_def starts_with_def)

lemma sums_prompts_ok: "prompts_ok (sums_model None) 2" "prompts_ok (sums_model (Some ''ptune'')) 2"
  using sums_tuned by (simp_all add: prompts_ok_def init_prompts_def tuned_def) (simp_all add: sums_model_def)

theorem forward_computes_model_witness:
  "\<exists>w s past past'.
     model_forward Bloom sums_layers (sums_model (Some ''ptune'')) ''a'' (plain_args [1, 2] None) idle_client =
       Some (Inr ([23, 39], past), idle_client\<lparr>cl_world := w\<rparr>) \<and>
     model_forward Bloom sums_layers (sums_model (Some ''ptune'')) ''a'' (plain_args [1, 2] None)
       (idle_client\<lparr>cl_active := Some (new_inference_session 8 [])\<rparr>) = Some (Inr ([23, 39], past'), idle_client\<lparr>cl_active := Some s\<rparr>)"
proof -
  have prefix: "prompt_prefix (sums_model (Some ''ptune'')) = [5]" using sums_tuned by (simp add: prompt_prefix_def) (simp add: sums_model_def)
  have "local_hidden Bloom (sums_model (Some ''ptune'')) (demo_blocks 0 2) [1, 2] = [23, 39]"
    by (simp add: local_hidden_def local_inputs_def prefix sums_blocks) (simp add: sums_model_def)
  moreover have valid: "valid_ids (sums_model (Some ''ptune'')) [1, 2]" by (simp add: valid_ids_def sums_model_def)
  moreover have healthy: "healthy (le_session sums_layers) demo_blocks demo_view 8" using demo_healthy by (simp add: sums_layers_def)
  moreover have n: "2 = num_blocks (le_session sums_layers)" "\<forall>slices. le_autograd sums_layers slices = sums_env"
      "2 = int (length (ae_block_uids sums_env))"
    by (simp_all add: sums_layers_def num_blocks_def demo_env_def sums_env_def)
  moreover have "cl_active idle_client = None" by (simp add: idle_client_def)
  moreover have "int (length (prompt_prefix (sums_model (Some ''ptune''))) + length [1::int, 2]) \<le> 8" by (simp add: prefix)
  ultimately show ?thesis
    using forward_computes_model [OF healthy n(1) _ sums_training n(2,3) sums_prompts_ok(2) valid, of 8 idle_client Bloom "''a''" "[]"] by simp
qed

end
