(* ===== verification/Generation.thy ===== *)
theory Generation
  imports Client_Model
begin

text \<open>
  \<open>src/peerz/client/remote_generation.py\<close> (\<open>RemoteGenerationMixin\<close>) and \<open>prepare_inputs_for_generation\<close> of
  \<open>models/bloom/model.py\<close>: generating tokens through inference sessions, over several calls.

  \<open>super().generate\<close> is code of the transformers library and a parameter, \<open>hf\<close>: a function of the model's step (from
  the token ids and the \<open>past_key_values\<close> to the logits), the keyword arguments and the token ids. What the code relies
  on for greedy decoding is \<open>hf_greedy\<close>. As in \<open>Client_Model\<close> the batch has one sequence.
\<close>

subsection \<open>\<open>prepare_inputs_for_generation\<close>\<close>

record 'h model_inputs =
  mi_input_ids :: "int list option"
  mi_inputs_embeds :: "'h list option"
  mi_position_ids :: "int list option"
  mi_past :: "past_key_values option"
  mi_use_cache :: "bool option"
  mi_attention_mask :: "int list option"

fun running_count :: "int \<Rightarrow> int list \<Rightarrow> int list" where
  "running_count acc [] = []"
| "running_count acc (x # xs) = (acc + x - 1) # running_count (acc + x) xs"

text \<open>\<open>DistributedBloomForCausalLM.prepare_inputs_for_generation\<close>, for the cache class of the client: it has no maximal length,
  so the attention mask is not cropped. \<open>xs[:, -k:]\<close> with \<open>k = 0\<close> is the whole of \<open>xs\<close>.\<close>

definition bloom_prepare ::
    "int list \<Rightarrow> past_key_values option \<Rightarrow> int list option \<Rightarrow> 'h list option \<Rightarrow> int list option \<Rightarrow> bool option \<Rightarrow> 'h model_inputs" where
  "bloom_prepare input_ids past attention_mask inputs_embeds position_ids use_cache =
     (let n = int (length input_ids);
          ids = (case past of
                   None \<Rightarrow> input_ids
                 | Some p \<Rightarrow>
                     (case attention_mask of
                        Some m \<Rightarrow> if int (length m) > n then py_slice input_ids (- (int (length m) - pk_seen_tokens p)) n
                                  else if pk_seen_tokens p < n then py_slice input_ids (pk_seen_tokens p) n else input_ids
                      | None \<Rightarrow> if pk_seen_tokens p < n then py_slice input_ids (pk_seen_tokens p) n else input_ids));
          positions = (case (attention_mask, position_ids) of
                   (Some m, None) \<Rightarrow>
                     (let ps = map (\<lambda>(x, p). if x = 0 then 1 else p) (zip m (running_count 0 m))
                      in Some (if past \<noteq> None then py_slice ps (- int (length ids)) (int (length ps)) else ps))
                 | _ \<Rightarrow> position_ids)
      in if inputs_embeds \<noteq> None \<and> past = None
         then \<lparr>mi_input_ids = None, mi_inputs_embeds = inputs_embeds, mi_position_ids = positions, mi_past = past,
               mi_use_cache = use_cache, mi_attention_mask = attention_mask\<rparr>
         else \<lparr>mi_input_ids = Some ids, mi_inputs_embeds = None, mi_position_ids = positions, mi_past = past,
               mi_use_cache = use_cache, mi_attention_mask = attention_mask\<rparr>)"

text \<open>\<open>_SkipTokensMixin.prepare_inputs_for_generation\<close>, in front of the \<open>prepare\<close> of the library: the context variable is
  used once.\<close>

definition skip_tokens :: "int list \<Rightarrow> ('w, 'h) client \<Rightarrow> int list \<times> ('w, 'h) client" where
  "skip_tokens input_ids st = (py_slice input_ids (cl_skipped st) (int (length input_ids)), st\<lparr>cl_skipped := 0\<rparr>)"

text \<open>One step of a Bloom model inside \<open>generate\<close>: the library passes an attention mask of ones for all ids, the prepared
  inputs go to the model (except the positions, which Bloom does not take), and the head is applied to its hidden states.\<close>

definition bloom_step ::
    "('w, 'h, 'p) layers_env \<Rightarrow> ('h, 'p) client_model \<Rightarrow> ('h \<Rightarrow> 'l) \<Rightarrow> (('w, 'h) client \<Rightarrow> string)
     \<Rightarrow> int list \<Rightarrow> past_key_values option \<Rightarrow> ('w, 'h) client \<Rightarrow> (('l list \<times> past_key_values) result \<times> ('w, 'h) client) option" where
  "bloom_step E M head step_id ids past st =
     (let mi = bloom_prepare ids past (Some (replicate (length ids) 1)) None None (Some True);
          args = \<lparr>fa_input_ids = mi_input_ids mi, fa_past = mi_past mi, fa_attention_mask = mi_attention_mask mi, fa_position_ids = None,
            fa_has_head_mask = False, fa_inputs_embeds = mi_inputs_embeds mi, fa_use_cache = mi_use_cache mi,
            fa_output_attentions = False, fa_output_hidden_states = False, fa_output_router_logits = False, fa_return_dict = Some True,
            fa_cache_position = None\<rparr>
      in case bloom_forward E M (step_id st) args st of
           None \<Rightarrow> None
         | Some (Inl e, st') \<Rightarrow> Some (Inl e, st')
         | Some (Inr (hidden, past'), st') \<Rightarrow> Some (Inr (map head hidden, past'), st'))"

subsection \<open>\<open>generate\<close>\<close>

record generate_kwargs =
  gk_max_length :: "int option option"        \<comment> \<open>absent, or present with a value that may be \<open>None\<close>\<close>
  gk_max_new_tokens :: "int option"
  gk_past :: "past_key_values option option"
  gk_do_sample :: "int option"

text \<open>\<open>_fix_generate_kwargs\<close>: a \<open>max_length\<close> of \<open>None\<close> is removed, \<open>do_sample\<close> becomes 0 or 1.\<close>

definition fix_generate_kwargs :: "generate_kwargs \<Rightarrow> generate_kwargs" where
  "fix_generate_kwargs k =
     k\<lparr>gk_max_length := (if gk_max_length k = Some None then None else gk_max_length k),
       gk_do_sample := map_option (\<lambda>d. if d = 0 then 0 else 1) (gk_do_sample k)\<rparr>"

type_synonym ('w, 'h, 'l) model_step =
  "int list \<Rightarrow> past_key_values option \<Rightarrow> ('w, 'h) client \<Rightarrow> (('l list \<times> past_key_values) result \<times> ('w, 'h) client) option"

type_synonym ('w, 'h, 'l) hf_generate =
  "('w, 'h, 'l) model_step \<Rightarrow> generate_kwargs \<Rightarrow> int list option \<Rightarrow> ('w, 'h) client \<Rightarrow> (int list result \<times> ('w, 'h) client) option"

text \<open>The body of the \<open>with\<close> statement: the tokens of the earlier calls are put in front, \<open>_skipped_tokens\<close> is set, and a model
  with a cache class gets a \<open>past_key_values\<close> that has seen the position of the session.\<close>

definition generate_in_session ::
    "('w, 'h, 'l) hf_generate \<Rightarrow> bool \<Rightarrow> ('w, 'h, 'l) model_step \<Rightarrow> generate_kwargs \<Rightarrow> int list option \<Rightarrow> ('w, 'h) client
     \<Rightarrow> (int list result \<times> ('w, 'h) client) option" where
  "generate_in_session hf supports_cache_class step kwargs inputs st =
     (let prev = (case cl_output_ids st of None \<Rightarrow> [] | Some ids \<Rightarrow> ids);
          n_prev_tokens = int (length prev);
          inputs' = (if n_prev_tokens > 0 then Some (case inputs of None \<Rightarrow> prev | Some ids \<Rightarrow> prev @ ids) else inputs);
          st1 = (if n_prev_tokens > 0 then st\<lparr>cl_skipped := max 0 (n_prev_tokens - 1)\<rparr> else st);
          kwargs' = (if supports_cache_class \<and> gk_past kwargs = None
                     then kwargs\<lparr>gk_past := Some (Some (update_seen (remote_position st) new_past))\<rparr> else kwargs)
      in case hf step kwargs' inputs' st1 of
           None \<Rightarrow> None
         | Some (Inl e, st2) \<Rightarrow> Some (Inl e, st2)
         | Some (Inr sequences, st2) \<Rightarrow> Some (Inr (drop (nat n_prev_tokens) sequences), st2\<lparr>cl_output_ids := Some sequences\<rparr>))"

definition session_max_length :: "int \<Rightarrow> generate_kwargs \<Rightarrow> int list option \<Rightarrow> int result" where
  "session_max_length pre_seq_len kwargs inputs =
     (case (case gk_max_length kwargs of None \<Rightarrow> None | Some m \<Rightarrow> m, gk_max_new_tokens kwargs) of
        (Some n, None) \<Rightarrow> Inr (pre_seq_len + n)
      | (None, Some n) \<Rightarrow> Inr (pre_seq_len + ((case inputs of None \<Rightarrow> 0 | Some ids \<Rightarrow> int (length ids)) + n))
      | _ \<Rightarrow> Inl AssertionError)"

text \<open>\<open>generate(inputs, session=..., **kwargs)\<close>; the last component of the result is the session that was passed, as the call
  leaves it.\<close>

definition generate ::
    "('w, 'h, 'p) layers_env \<Rightarrow> ('h, 'p) client_model \<Rightarrow> ('w, 'h, 'l) hf_generate \<Rightarrow> bool \<Rightarrow> ('w, 'h, 'l) model_step
     \<Rightarrow> int list option \<Rightarrow> int list option \<Rightarrow> (('w, 'h) inference_session \<times> int list option) option \<Rightarrow> generate_kwargs \<Rightarrow> ('w, 'h) client
     \<Rightarrow> (int list result \<times> ('w, 'h) client \<times> (('w, 'h) inference_session \<times> int list option) option) option" where
  "generate E M hf supports_cache_class step inputs_arg input_ids_arg session kwargs st =
     (let k = fix_generate_kwargs kwargs;
          inputs = (case inputs_arg of None \<Rightarrow> input_ids_arg | Some ids \<Rightarrow> Some ids);
          body = generate_in_session hf supports_cache_class step k inputs
      in case session of
           Some s \<Rightarrow> map_option (\<lambda>(r, s', st'). (r, st', Some s')) (use_session s body st)
         | None \<Rightarrow>
             (if cl_active st \<noteq> None then map_option (\<lambda>(r, st'). (r, st', None)) (body st)
              else (case session_max_length (cm_pre_seq_len M) k inputs of
                      Inl e \<Rightarrow> Some (Inl e, st, None)
                    | Inr n \<Rightarrow> map_option (\<lambda>(r, st'). (r, st', None)) (in_new_session E n body st))))"

subsection \<open>What the library promises\<close>

text \<open>Greedy decoding of the library: as long as tokens are left, the step is called on all ids, the next token is selected
  from the last logits, and the returned \<open>past_key_values\<close> is passed on.\<close>

fun greedy_loop ::
    "('l \<Rightarrow> int) \<Rightarrow> ('w, 'h, 'l) model_step \<Rightarrow> nat \<Rightarrow> int list \<Rightarrow> past_key_values option \<Rightarrow> ('w, 'h) client
     \<Rightarrow> (int list result \<times> ('w, 'h) client) option" where
  "greedy_loop select step 0 ids past st = Some (Inr ids, st)"
| "greedy_loop select step (Suc n) ids past st =
     (case step ids past st of
        None \<Rightarrow> None
      | Some (Inl e, st') \<Rightarrow> Some (Inl e, st')
      | Some (Inr (logits, past'), st') \<Rightarrow> greedy_loop select step n (ids @ [select (last logits)]) (Some past') st')"

definition hf_greedy :: "('w, 'h, 'l) hf_generate \<Rightarrow> ('l \<Rightarrow> int) \<Rightarrow> bool" where
  "hf_greedy hf select \<longleftrightarrow>
     (\<forall>step k n ids st. gk_max_length k = None \<and> gk_max_new_tokens k = Some (int n) \<and> 0 < n \<and> ids \<noteq> [] \<longrightarrow>
        hf step k (Some ids) st = greedy_loop select step n ids (case gk_past k of None \<Rightarrow> None | Some p \<Rightarrow> p) st)"

subsection \<open>Greedy decoding with local layers\<close>

definition local_next :: "('h, 'p) client_model \<Rightarrow> ('h list \<Rightarrow> 'h list) \<Rightarrow> ('h \<Rightarrow> 'l) \<Rightarrow> ('l \<Rightarrow> int) \<Rightarrow> int list \<Rightarrow> int" where
  "local_next M layers head select ids = select (head (last (local_hidden Bloom M layers ids)))"

fun local_generate ::
    "('h, 'p) client_model \<Rightarrow> ('h list \<Rightarrow> 'h list) \<Rightarrow> ('h \<Rightarrow> 'l) \<Rightarrow> ('l \<Rightarrow> int) \<Rightarrow> nat \<Rightarrow> int list \<Rightarrow> int list" where
  "local_generate M layers head select 0 ids = ids"
| "local_generate M layers head select (Suc n) ids =
     local_generate M layers head select n (ids @ [local_next M layers head select ids])"

lemma local_generate_prefix: "\<exists>new. local_generate M layers head select n ids = ids @ new \<and> length new = n"
proof (induction n arbitrary: ids)
  case (Suc n)
  from Suc.IH [of "ids @ [local_next M layers head select ids]"] show ?case by auto
qed simp

text \<open>What the session has been fed when \<open>p\<close> of the token ids went through it: the prompts come with the first ones.\<close>

definition fed :: "('h, 'p) client_model \<Rightarrow> nat \<Rightarrow> int list \<Rightarrow> 'h list" where
  "fed M p ids = (if p = 0 then [] else local_inputs Bloom M (take p ids))"

lemma fed_length: "p \<le> length ids \<Longrightarrow> length (fed M p ids) = (if p = 0 then 0 else length (prompt_prefix M) + p)"
  by (simp add: fed_def local_inputs_def)

lemma fed_append: "p \<le> length ids \<Longrightarrow> fed M p (ids @ later) = fed M p ids"
  by (simp add: fed_def)

lemma prepared_ids:
  fixes ids :: "int list" and past :: past_key_values and use :: "bool option"
  defines "mi \<equiv> bloom_prepare ids (Some past) (Some (replicate (length ids) 1)) None None use"
  assumes "pk_seen_tokens past = int p" and "p < length ids"
  shows "mi_input_ids mi = Some (drop p ids)" "mi_inputs_embeds mi = None" "mi_past mi = Some past" "mi_use_cache mi = use"
    "mi_attention_mask mi = Some (replicate (length ids) 1)"
proof -
  have "py_slice ids (int p) (int (length ids)) = drop p ids" using assms(3) by (simp add: py_slice_in_range)
  then show "mi_input_ids mi = Some (drop p ids)" "mi_inputs_embeds mi = None" "mi_past mi = Some past" "mi_use_cache mi = use"
    "mi_attention_mask mi = Some (replicate (length ids) 1)"
    unfolding mi_def using assms(2,3) by (simp_all add: bloom_prepare_def Let_def)
qed

context healthy
begin

text \<open>One step: the ids after the first \<open>p\<close> are fed, the logits of the last one are those of the local model.\<close>

lemma bloom_step_ok:
  assumes E: "le_session E = env" "0 < num_blocks env" and M: "prompts_ok M (num_blocks env)" "valid_ids M ids"
    and p: "p < length ids" and st: "cl_active st = Some s" "session_inv env blocks view (fed M p ids) s"
    and fits: "int (length (prompt_prefix M) + length ids) \<le> is_max_length s" "is_max_length s \<le> L"
  shows "\<exists>logits s'. bloom_step E M head step_id ids (Some \<lparr>pk_seen_tokens = int p, pk_hypo_ids = None\<rparr>) st =
      Some (Inr (logits, \<lparr>pk_seen_tokens = int (length ids), pk_hypo_ids = None\<rparr>), st\<lparr>cl_active := Some s'\<rparr>) \<and>
    last logits = head (last (local_hidden Bloom M (blocks 0 (num_blocks env)) ids)) \<and>
    session_inv env blocks view (fed M (length ids) ids) s' \<and> is_max_length s' = is_max_length s"
proof -
  let ?past = "\<lparr>pk_seen_tokens = int p, pk_hypo_ids = None\<rparr>"
  define a :: "'x forward_args" where "a = \<lparr>fa_input_ids = Some (drop p ids), fa_past = Some ?past, fa_attention_mask = Some (replicate (length ids) 1),
      fa_position_ids = None, fa_has_head_mask = False, fa_inputs_embeds = None, fa_use_cache = Some True,
      fa_output_attentions = False, fa_output_hidden_states = False, fa_output_router_logits = False, fa_return_dict = Some True,
      fa_cache_position = None\<rparr>"
  let ?X = "fed M p ids"
  obtain P where P: "P = (if ?X = [] then prompt_prefix M else [])" by blast
  let ?es = "map (cm_word_embeddings M) (drop p ids)"
  let ?Y = "map (cm_layernorm M) (P @ ?es)" and ?n = "num_blocks env" and ?P0 = "prompt_prefix M"
  have len: "length (blocks b c xs) = length xs" for b c xs using causal by (simp add: causal_blocks_def)
  have nil: "?X = [] \<longleftrightarrow> p = 0" using p by (auto simp: fed_def local_inputs_def)
  have whole: "?X @ ?Y = local_inputs Bloom M ids" unfolding P nil
    by (cases "p = 0") (simp_all add: fed_def local_inputs_def, metis append_take_drop_id map_append)
  have valid: "\<forall>t \<in> set (drop p ids). 0 \<le> t \<and> t < cm_vocab_size M" using M(2) unfolding valid_ids_def by (meson in_set_dropD)
  then have emb: "embed_inputs M a = Inr ?es" by (auto simp: embed_inputs_def a_def intro!: mapR_total)
  have hypo: "\<And>q. fa_past a = Some q \<Longrightarrow> pk_hypo_ids q = None" by (auto simp: a_def)
  have "length (?X @ ?Y) = length ?P0 + length ids" unfolding whole by (simp add: local_inputs_def)
  then have room: "int (length ?X + length ?Y) \<le> is_max_length s" using fits(1) by simp
  let ?cut = "drop (length ?X + length P) (blocks 0 ?n (local_inputs Bloom M ids))"
  let ?seen = "\<lambda>whole kept past. update_seen (int (length kept)) (case past of None \<Rightarrow> new_past | Some q \<Rightarrow> q)"
  from layers_in_session [OF E M(1) st emb hypo P refl room fits(2), of ?seen "step_id st"] obtain s' where
    run: "forward_layers E M ?seen (step_id st) a st = Some (Inr (map (cm_norm M) ?cut, update_seen (int (length ?cut)) ?past), st\<lparr>cl_active := Some s'\<rparr>)"
      "session_inv env blocks view (local_inputs Bloom M ids) s'" "is_max_length s' = is_max_length s"
    unfolding whole by (auto simp: a_def)
  have skip: "length ?X + length P = length ?P0 + p" using p nil fed_length [of p ids M] P by auto
  then have cut: "length ?cut = length ids - p" by (simp add: len local_inputs_def)
  have "run_checks [check_inputs, check_mask, check_head_mask, check_flags, check_return_dict] a = Inr ()"
    by (simp add: a_def check_inputs_def check_mask_def check_head_mask_def check_flags_def check_return_dict_def)
  then have "bloom_forward E M (step_id st) a st =
      Some (Inr (map (cm_norm M) ?cut, \<lparr>pk_seen_tokens = int (length ids), pk_hypo_ids = None\<rparr>), st\<lparr>cl_active := Some s'\<rparr>)"
    using run(1) cut p by (simp add: bloom_forward_def checked_forward_def update_seen_def del: run_checks.simps)
  then have "bloom_step E M head step_id ids (Some ?past) st =
      Some (Inr (map head (map (cm_norm M) ?cut), \<lparr>pk_seen_tokens = int (length ids), pk_hypo_ids = None\<rparr>), st\<lparr>cl_active := Some s'\<rparr>)"
    unfolding bloom_step_def Let_def by (simp add: prepared_ids [OF _ p] a_def)
  moreover have "last (map head (map (cm_norm M) ?cut)) = head (last (local_hidden Bloom M (blocks 0 ?n) ids))"
  proof -
    have ne: "?cut \<noteq> []" "drop (length ?P0) (blocks 0 ?n (local_inputs Bloom M ids)) \<noteq> []"
      using cut p by (auto simp: len local_inputs_def)
    have "last ?cut = last (drop (length ?P0) (blocks 0 ?n (local_inputs Bloom M ids)))"
      using ne skip by (metis drop_eq_Nil last_drop not_le)
    then show ?thesis using ne by (simp add: local_hidden_def last_map)
  qed
  moreover have "fed M (length ids) ids = local_inputs Bloom M ids" using p by (auto simp: fed_def)
  ultimately show ?thesis using run(2,3) by metis
qed

text \<open>The loop of the library over these steps.\<close>

lemma greedy_ok:
  assumes E: "le_session E = env" "0 < num_blocks env" and M: "prompts_ok M (num_blocks env)"
    and select: "\<forall>l. 0 \<le> select l \<and> select l < cm_vocab_size M"
    and "valid_ids M ids" "p < length ids" "cl_active st = Some s" "session_inv env blocks view (fed M p ids) s"
    and "int (length (prompt_prefix M) + length ids + n) \<le> is_max_length s" "is_max_length s \<le> L"
  shows "\<exists>s' q. greedy_loop select (bloom_step E M head step_id) n ids (Some \<lparr>pk_seen_tokens = int p, pk_hypo_ids = None\<rparr>) st =
      Some (Inr (local_generate M (blocks 0 (num_blocks env)) head select n ids), st\<lparr>cl_active := Some s'\<rparr>) \<and>
    valid_ids M (local_generate M (blocks 0 (num_blocks env)) head select n ids) \<and>
    q < length ids + n \<and> session_inv env blocks view (fed M q (local_generate M (blocks 0 (num_blocks env)) head select n ids)) s' \<and>
    is_max_length s' = is_max_length s"
  using assms(5-)
proof (induction n arbitrary: ids p st s)
  case 0
  then have "st\<lparr>cl_active := Some s\<rparr> = st" by (metis client.surjective client.update_convs(2) client.select_convs(2))
  with 0 show ?case by (intro exI [of _ s] exI [of _ p]) simp
next
  case (Suc n)
  let ?next = "local_next M (blocks 0 (num_blocks env)) head select ids"
  have fits: "int (length (prompt_prefix M) + length ids) \<le> is_max_length s" using Suc.prems(5) by simp
  obtain logits s1 where step: "bloom_step E M head step_id ids (Some \<lparr>pk_seen_tokens = int p, pk_hypo_ids = None\<rparr>) st =
      Some (Inr (logits, \<lparr>pk_seen_tokens = int (length ids), pk_hypo_ids = None\<rparr>), st\<lparr>cl_active := Some s1\<rparr>)"
    "last logits = head (last (local_hidden Bloom M (blocks 0 (num_blocks env)) ids))"
    "session_inv env blocks view (fed M (length ids) ids) s1" "is_max_length s1 = is_max_length s"
    using bloom_step_ok [OF E M Suc.prems(1-4) fits Suc.prems(6)] by blast
  have next_tok: "select (last logits) = ?next" using step(2) by (simp add: local_next_def)
  have valid: "valid_ids M (ids @ [?next])" using Suc.prems(1) select by (auto simp: valid_ids_def local_next_def)
  have inv: "session_inv env blocks view (fed M (length ids) (ids @ [?next])) s1" using step(3) by (simp add: fed_append)
  obtain s' q where IH: "greedy_loop select (bloom_step E M head step_id) n (ids @ [?next])
        (Some \<lparr>pk_seen_tokens = int (length ids), pk_hypo_ids = None\<rparr>) (st\<lparr>cl_active := Some s1\<rparr>) =
      Some (Inr (local_generate M (blocks 0 (num_blocks env)) head select n (ids @ [?next])), st\<lparr>cl_active := Some s1, cl_active := Some s'\<rparr>)"
    "valid_ids M (local_generate M (blocks 0 (num_blocks env)) head select n (ids @ [?next]))" "q < length (ids @ [?next]) + n"
    "session_inv env blocks view (fed M q (local_generate M (blocks 0 (num_blocks env)) head select n (ids @ [?next]))) s'"
    "is_max_length s' = is_max_length s1"
    using Suc.IH [OF valid _ _ inv, of "st\<lparr>cl_active := Some s1\<rparr>"] Suc.prems(5,6) step(4) by auto
  have "greedy_loop select (bloom_step E M head step_id) (Suc n) ids (Some \<lparr>pk_seen_tokens = int p, pk_hypo_ids = None\<rparr>) st =
      Some (Inr (local_generate M (blocks 0 (num_blocks env)) head select (Suc n) ids), st\<lparr>cl_active := Some s'\<rparr>)"
    using step(1) IH(1) by (simp add: next_tok)
  then show ?case using IH(2-5) step(4) by (intro exI [of _ s'] exI [of _ q]) simp
qed

text \<open>One call inside a session that has been fed all but some of the last tokens of the earlier calls. With tuned prompts
  the position of the session is not the number of tokens, so only the first call is covered.\<close>

lemma call_ok:
  assumes E: "le_session E = env" "0 < num_blocks env" and M: "prompts_ok M (num_blocks env)"
    and select: "\<forall>l. 0 \<le> select l \<and> select l < cm_vocab_size M" and hf: "hf_greedy hf select"
    and st: "cl_active st = Some s" "(case cl_output_ids st of None \<Rightarrow> [] | Some ids \<Rightarrow> ids) = prev"
      "session_inv env blocks view (fed M p prev) s" "p < length prev \<or> prev = [] \<and> p = 0" "prompt_prefix M = [] \<or> p = 0"
    and ids: "ids = prev @ (case inputs of None \<Rightarrow> [] | Some xs \<Rightarrow> xs)" "ids \<noteq> []" "valid_ids M ids"
    and k: "gk_max_length k = None" "gk_max_new_tokens k = Some (int n)" "gk_past k = None" "0 < n"
    and fits: "int (length (prompt_prefix M) + length ids + n) \<le> is_max_length s" "is_max_length s \<le> L"
  shows "\<exists>st' s' q. generate_in_session hf True (bloom_step E M head step_id) k inputs st =
      Some (Inr (drop (length prev) (local_generate M (blocks 0 (num_blocks env)) head select n ids)), st') \<and>
    cl_active st' = Some s' \<and> cl_output_ids st' = Some (local_generate M (blocks 0 (num_blocks env)) head select n ids) \<and>
    cl_world st' = cl_world st \<and> valid_ids M (local_generate M (blocks 0 (num_blocks env)) head select n ids) \<and>
    q < length ids + n \<and> session_inv env blocks view (fed M q (local_generate M (blocks 0 (num_blocks env)) head select n ids)) s' \<and>
    is_max_length s' = is_max_length s"
proof -
  let ?new = "local_generate M (blocks 0 (num_blocks env)) head select n ids"
  let ?k = "k\<lparr>gk_past := Some (Some \<lparr>pk_seen_tokens = int p, pk_hypo_ids = None\<rparr>)\<rparr>"
  let ?st = "if prev \<noteq> [] then st\<lparr>cl_skipped := max 0 (int (length prev) - 1)\<rparr> else st"
  have p: "p < length ids" "fed M p ids = fed M p prev" using st(4) ids(1,2) by (auto simp: fed_def)
  have "is_position s = int (length (fed M p prev))" using st(3) by (simp add: session_inv_def)
  also have "\<dots> = int p" using fed_length [of p prev M] st(4,5) by auto
  finally have pos: "update_seen (remote_position st) new_past = \<lparr>pk_seen_tokens = int p, pk_hypo_ids = None\<rparr>"
    using st(1) by (simp add: remote_position_def update_seen_def new_past_def)
  have active: "cl_active ?st = Some s" "session_inv env blocks view (fed M p ids) s" using st(1,3) p(2) by auto
  obtain s' q where loop: "greedy_loop select (bloom_step E M head step_id) n ids (Some \<lparr>pk_seen_tokens = int p, pk_hypo_ids = None\<rparr>) ?st =
      Some (Inr ?new, ?st\<lparr>cl_active := Some s'\<rparr>)" "valid_ids M ?new" "q < length ids + n"
      "session_inv env blocks view (fed M q ?new) s'" "is_max_length s' = is_max_length s"
    using greedy_ok [OF E M select ids(3) p(1) active fits] by blast
  have call: "hf (bloom_step E M head step_id) ?k (Some ids) ?st = Some (Inr ?new, ?st\<lparr>cl_active := Some s'\<rparr>)"
    using hf [unfolded hf_greedy_def, rule_format, of ?k n ids] k ids(2) loop(1) by simp
  have inputs: "(if int (length prev) > 0 then Some (case inputs of None \<Rightarrow> prev | Some xs \<Rightarrow> prev @ xs) else inputs) = Some ids"
    using ids(1,2) by (cases inputs) auto
  have "generate_in_session hf True (bloom_step E M head step_id) k inputs st =
      Some (Inr (drop (length prev) ?new), ?st\<lparr>cl_active := Some s', cl_output_ids := Some ?new\<rparr>)"
    unfolding generate_in_session_def Let_def st(2) inputs pos using k(3) call by simp
  then show ?thesis using loop(2-5) by (intro exI [of _ "?st\<lparr>cl_active := Some s', cl_output_ids := Some ?new\<rparr>"] exI [of _ s'] exI [of _ q]) simp
qed

end

subsection \<open>Several calls in one session\<close>

definition turn_kwargs :: "nat \<Rightarrow> generate_kwargs" where
  "turn_kwargs n = \<lparr>gk_max_length = None, gk_max_new_tokens = Some (int n), gk_past = None, gk_do_sample = None\<rparr>"

fun chat ::
    "('w, 'h, 'p) layers_env \<Rightarrow> ('h, 'p) client_model \<Rightarrow> ('w, 'h, 'l) hf_generate \<Rightarrow> ('w, 'h, 'l) model_step
     \<Rightarrow> (int list option \<times> nat) list \<Rightarrow> ('w, 'h) client \<Rightarrow> (int list list result \<times> ('w, 'h) client) option" where
  "chat E M hf step [] st = Some (Inr [], st)"
| "chat E M hf step ((inputs, n) # turns) st =
     (case generate E M hf True step inputs None None (turn_kwargs n) st of
        None \<Rightarrow> None
      | Some (Inl e, st', _) \<Rightarrow> Some (Inl e, st')
      | Some (Inr new, st', _) \<Rightarrow>
          (case chat E M hf step turns st' of
             None \<Rightarrow> None
           | Some (Inl e, st'') \<Rightarrow> Some (Inl e, st'')
           | Some (Inr news, st'') \<Rightarrow> Some (Inr (new # news), st'')))"

fun local_chat ::
    "('h, 'p) client_model \<Rightarrow> ('h list \<Rightarrow> 'h list) \<Rightarrow> ('h \<Rightarrow> 'l) \<Rightarrow> ('l \<Rightarrow> int) \<Rightarrow> int list \<Rightarrow> (int list option \<times> nat) list \<Rightarrow> int list list" where
  "local_chat M layers head select prev [] = []"
| "local_chat M layers head select prev ((inputs, n) # turns) =
     (let new = local_generate M layers head select n (prev @ (case inputs of None \<Rightarrow> [] | Some xs \<Rightarrow> xs))
      in drop (length prev) new # local_chat M layers head select new turns)"

definition turn_length :: "int list option \<times> nat \<Rightarrow> nat" where
  "turn_length t = (case fst t of None \<Rightarrow> 0 | Some xs \<Rightarrow> length xs) + snd t"

lemma turn_kwargs_fixed:
  "fix_generate_kwargs (turn_kwargs n) = turn_kwargs n" "gk_max_length (turn_kwargs n) = None"
  "gk_max_new_tokens (turn_kwargs n) = Some (int n)" "gk_past (turn_kwargs n) = None"
  by (simp_all add: fix_generate_kwargs_def turn_kwargs_def)

context healthy
begin

lemma chat_ok:
  assumes E: "le_session E = env" "0 < num_blocks env" and M: "prompts_ok M (num_blocks env)" "\<not> tuned M"
    and select: "\<forall>l. 0 \<le> select l \<and> select l < cm_vocab_size M" and hf: "hf_greedy hf select"
    and turns: "\<forall>(inputs, n) \<in> set turns. 0 < n \<and> (\<forall>xs. inputs = Some xs \<longrightarrow> valid_ids M xs)"
      "prev = [] \<Longrightarrow> turns \<noteq> [] \<Longrightarrow> \<exists>xs. fst (hd turns) = Some xs \<and> xs \<noteq> []"
    and st: "cl_active st = Some s" "(case cl_output_ids st of None \<Rightarrow> [] | Some ids \<Rightarrow> ids) = prev" "valid_ids M prev"
      "session_inv env blocks view (fed M p prev) s" "p < length prev \<or> prev = [] \<and> p = 0"
    and fits: "int (length prev + sum_list (map turn_length turns)) \<le> is_max_length s" "is_max_length s \<le> L"
  shows "\<exists>st'. chat E M hf (bloom_step E M head step_id) turns st =
    Some (Inr (local_chat M (blocks 0 (num_blocks env)) head select prev turns), st')"
  using turns st fits
proof (induction turns arbitrary: prev p st s)
  case (Cons t turns)
  obtain inputs n where t: "t = (inputs, n)" by (cases t)
  let ?ids = "prev @ (case inputs of None \<Rightarrow> [] | Some xs \<Rightarrow> xs)"
  let ?new = "local_generate M (blocks 0 (num_blocks env)) head select n ?ids"
  have none: "prompt_prefix M = []" using M(2) by (simp add: prompt_prefix_def)
  have n: "0 < n" and ids: "?ids \<noteq> []" "valid_ids M ?ids"
    using Cons.prems(1,2,5) t by (auto simp: valid_ids_def split: option.splits)
  have len: "length ?ids + n + sum_list (map turn_length turns) = length prev + sum_list (map turn_length (t # turns))"
    by (simp add: t turn_length_def split: option.splits)
  have new_len: "length ?new = length ?ids + n" using local_generate_prefix [of M "blocks 0 (num_blocks env)" head select n ?ids] by auto
  have "int (length (prompt_prefix M) + length ?ids + n) \<le> is_max_length s" using Cons.prems(8) len none by simp
  from call_ok [OF E M(1) select hf Cons.prems(3,4,6,7) disjI1 [OF none] refl ids turn_kwargs_fixed(2-4) n this Cons.prems(9)]
  obtain st' s' q where call: "generate_in_session hf True (bloom_step E M head step_id) (turn_kwargs n) inputs st =
      Some (Inr (drop (length prev) ?new), st')" "cl_active st' = Some s'" "cl_output_ids st' = Some ?new" "valid_ids M ?new"
    "q < length ?ids + n" "session_inv env blocks view (fed M q ?new) s'" "is_max_length s' = is_max_length s" by blast
  have "(case inputs of None \<Rightarrow> None | Some xs \<Rightarrow> Some xs) = inputs" by (cases inputs) simp_all
  then have gen: "generate E M hf True (bloom_step E M head step_id) inputs None None (turn_kwargs n) st =
      Some (Inr (drop (length prev) ?new), st', None)"
    using call(1) Cons.prems(3) by (simp add: generate_def Let_def turn_kwargs_fixed)
  have "\<exists>st''. chat E M hf (bloom_step E M head step_id) turns st' =
      Some (Inr (local_chat M (blocks 0 (num_blocks env)) head select ?new turns), st'')"
    by (rule Cons.IH [where p = q and s = s']) (use Cons.prems(1,8,9) call(2-7) ids new_len len n in auto)
  then show ?case using gen by (auto simp: t Let_def)
qed simp

lemma generate_ok:
  assumes E: "le_session E = env" "0 < num_blocks env" and M: "prompts_ok M (num_blocks env)" "0 \<le> cm_pre_seq_len M"
    and select: "\<forall>l. 0 \<le> select l \<and> select l < cm_vocab_size M" and hf: "hf_greedy hf select"
    and ids: "ids \<noteq> []" "valid_ids M ids" and n: "0 < n" and st: "cl_active st = None"
    and fits: "cm_pre_seq_len M + int (length ids) + int n \<le> L"
  shows "\<exists>st'. generate E M hf True (bloom_step E M head step_id) (Some ids) None None (turn_kwargs n) st =
      Some (Inr (local_generate M (blocks 0 (num_blocks env)) head select n ids), st', None) \<and>
    cl_active st' = None \<and> cl_output_ids st' = cl_output_ids st"
proof -
  let ?m = "cm_pre_seq_len M + (int (length ids) + int n)" and ?new = "local_generate M (blocks 0 (num_blocks env)) head select n ids"
  let ?s = "new_inference_session ?m (cl_world st)"
  let ?st = "st\<lparr>cl_active := Some ?s, cl_output_ids := None\<rparr>"
  have max: "is_max_length ?s = ?m" by (simp add: new_inference_session_def)
  have "int (length (prompt_prefix M) + length ids + n) \<le> is_max_length ?s" "is_max_length ?s \<le> L"
    using prompt_prefix_length [OF M(1)] M(2) fits by (auto simp: max)
  from call_ok [OF E M(1) select hf _ _ _ _ _ _ ids turn_kwargs_fixed(2-4) n this, of ?st "[]" 0 "Some ids" head step_id]
  obtain st' s' where call: "generate_in_session hf True (bloom_step E M head step_id) (turn_kwargs n) (Some ids) ?st = Some (Inr ?new, st')"
      "cl_active st' = Some s'"
    by (auto simp: fed_def new_session_inv)
  have "use_session (?s, None) (generate_in_session hf True (bloom_step E M head step_id) (turn_kwargs n) (Some ids)) st =
      Some (Inr ?new, (s', cl_output_ids st'), st'\<lparr>cl_world := is_world s', cl_active := cl_active st, cl_output_ids := cl_output_ids st\<rparr>)"
    using call by (simp add: use_session_def new_inference_session_def)
  then show ?thesis
    using st by (simp add: generate_def Let_def turn_kwargs_fixed session_max_length_def in_new_session_def)
qed

end

subsection \<open>Properties\<close>


text \<open>A library that decodes greedily, with the last digit of the logit as the next token.\<close>

definition digit_hf :: "(demo_world, int, int) hf_generate" where
  "digit_hf step k ids st =
     greedy_loop (\<lambda>l. l mod 10) step (nat (case gk_max_new_tokens k of None \<Rightarrow> 0 | Some n \<Rightarrow> n))
       (case ids of None \<Rightarrow> [] | Some xs \<Rightarrow> xs) (case gk_past k of None \<Rightarrow> None | Some p \<Rightarrow> p) st"

lemma digit_hf_greedy: "hf_greedy digit_hf (\<lambda>l. l mod 10)"
  by (simp add: hf_greedy_def digit_hf_def)

lemma sums_layers_healthy: "healthy (le_session sums_layers) demo_blocks demo_view 8" "2 = num_blocks (le_session sums_layers)"
  using demo_healthy by (simp_all add: sums_layers_def num_blocks_def demo_env_def)




end
