(* ===== verification/Attention.thy ===== *)
theory Attention
  imports Backend
begin

text \<open>
  The tensor operations that the attention layers of \<open>src/peerz/models\<close> share, on nested lists of
  exact numbers: a vector is a list of numbers, a sequence lists the vectors of its positions, and a tensor
  with a batch dimension lists sequences. A score that the attention mask excludes is \<open>None\<close> (in the code a
  very large negative number is added to it); \<open>softmax\<close> is a parameter with its documented behaviour.
  The graphed functions of \<open>src/peerz/utils/cuda_graphs.py\<close> are modelled by the batch size they were captured with.

  The lemmas show that causal attention looks at earlier positions only, and that a block whose
  outputs are computed position by position from the keys and values so far is causal in the sense
  of the backend.
\<close>

type_synonym vec = "rat list"

subsection \<open>Vectors\<close>

definition vadd :: "vec \<Rightarrow> vec \<Rightarrow> vec" where
  "vadd = map2 (+)"

definition vmul :: "vec \<Rightarrow> vec \<Rightarrow> vec" where
  "vmul = map2 (*)"

definition dot :: "vec \<Rightarrow> vec \<Rightarrow> rat" where
  "dot u v = sum_list (vmul u v)"

text \<open>\<open>F.linear\<close> without a bias, on one vector; the rows of a weight are its output features.\<close>

definition apply_weight :: "vec list \<Rightarrow> vec \<Rightarrow> vec result" where
  "apply_weight w x = guardR (\<forall>row \<in> set w. length row = length x) RuntimeError (Inr (map (\<lambda>row. dot row x) w))"

record linear =
  ln_weight :: "vec list"
  ln_bias :: "vec option"

definition linear_forward :: "linear \<Rightarrow> vec \<Rightarrow> vec result" where
  "linear_forward l x = bindR (apply_weight (ln_weight l) x) (\<lambda>y. Inr (case ln_bias l of None \<Rightarrow> y | Some b \<Rightarrow> vadd y b))"

definition linear_shape :: "linear \<Rightarrow> nat \<Rightarrow> nat \<Rightarrow> bool" where
  "linear_shape l m n \<longleftrightarrow> length (ln_weight l) = n \<and> (\<forall>row \<in> set (ln_weight l). length row = m) \<and>
     (case ln_bias l of None \<Rightarrow> True | Some b \<Rightarrow> length b = n)"

text \<open>The total function behind \<open>linear_forward\<close>, for vectors of the right length.\<close>

definition lin :: "linear \<Rightarrow> vec \<Rightarrow> vec" where
  "lin l x = (let y = map (\<lambda>row. dot row x) (ln_weight l) in case ln_bias l of None \<Rightarrow> y | Some b \<Rightarrow> vadd y b)"

lemma length_vadd [simp]: "length (vadd u v) = min (length u) (length v)"
  by (simp add: vadd_def)

lemma length_vmul [simp]: "length (vmul u v) = min (length u) (length v)"
  by (simp add: vmul_def)

lemma linear_ok: "linear_shape l m n \<Longrightarrow> length x = m \<Longrightarrow> linear_forward l x = Inr (lin l x)"
  by (simp add: linear_shape_def linear_forward_def apply_weight_def lin_def Let_def)

lemma length_lin: "linear_shape l m n \<Longrightarrow> length (lin l x) = n"
  by (auto simp: linear_shape_def lin_def Let_def split: option.splits)

subsection \<open>Heads\<close>

text \<open>\<open>view(..., num_heads, head_dim)\<close> of a vector, and with \<open>transpose(1, 2)\<close> of the vectors of a sequence: the
  vectors of every head at every position.\<close>

definition view_heads :: "nat \<Rightarrow> nat \<Rightarrow> vec \<Rightarrow> vec list result" where
  "view_heads n d x = guardR (length x = n * d) RuntimeError (Inr (map (\<lambda>h. take d (drop (h * d) x)) [0..<n]))"

definition to_heads :: "nat \<Rightarrow> nat \<Rightarrow> vec list \<Rightarrow> vec list list result" where
  "to_heads n d seq = bindR (mapR (view_heads n d) seq) (\<lambda>rows. Inr (map (\<lambda>h. map (\<lambda>r. r ! h) rows) [0..<n]))"

text \<open>Back: \<open>transpose(1, 2)\<close> and \<open>reshape(batch, length, hidden_size)\<close>.\<close>

definition merge_heads :: "nat \<Rightarrow> nat \<Rightarrow> vec list list \<Rightarrow> vec list result" where
  "merge_heads n hidden_size heads =
     mapR (\<lambda>t. let x = concat (map (\<lambda>h. h ! t) heads) in guardR (length x = hidden_size) RuntimeError (Inr x)) [0..<n]"

definition head_of :: "nat \<Rightarrow> nat \<Rightarrow> vec \<Rightarrow> vec" where
  "head_of d h x = take d (drop (h * d) x)"

lemma length_head_of: "length x = n * d \<Longrightarrow> h < n \<Longrightarrow> length (head_of d h x) = d"
proof -
  assume x: "length x = n * d" and h: "h < n"
  have "Suc h * d \<le> n * d" using h by (intro mult_le_mono1) simp
  then show ?thesis by (simp add: head_of_def x)
qed

lemma to_heads_ok:
  assumes "\<forall>x \<in> set seq. length x = n * d"
  shows "to_heads n d seq = Inr (map (\<lambda>h. map (head_of d h) seq) [0..<n])"
proof -
  have "mapR (view_heads n d) seq = Inr (map (\<lambda>x. map (\<lambda>h. head_of d h x) [0..<n]) seq)"
    using assms by (intro mapR_total) (simp add: view_heads_def head_of_def)
  then show ?thesis by (simp add: to_heads_def comp_def)
qed

lemma merge_heads_ok:
  assumes "\<And>t. t < n \<Longrightarrow> length (concat (map (\<lambda>h. h ! t) heads)) = D"
  shows "merge_heads n D heads = Inr (map (\<lambda>t. concat (map (\<lambda>h. h ! t) heads)) [0..<n])"
  unfolding merge_heads_def using assms by (intro mapR_total) simp

subsection \<open>Attention of one query\<close>

text \<open>The weighted sum of the value vectors, a row of \<open>matmul(attn_weights, value_states)\<close>.\<close>

definition weighted_sum :: "nat \<Rightarrow> vec \<Rightarrow> vec list \<Rightarrow> vec" where
  "weighted_sum d ws vs = foldr (\<lambda>(w, v) acc. vadd (map ((*) w) v) acc) (zip ws vs) (replicate d 0)"

text \<open>The scores, a row of the mask, softmax, and the values; for plain attention the scores are scaled products.\<close>

definition attend_scores :: "(rat option list \<Rightarrow> vec) \<Rightarrow> nat \<Rightarrow> rat list \<Rightarrow> bool list \<Rightarrow> vec list \<Rightarrow> vec" where
  "attend_scores softmax d scores allowed vs =
     weighted_sum d (softmax (map2 (\<lambda>s ok. if ok then Some s else None) scores allowed)) vs"

definition attend :: "(rat option list \<Rightarrow> vec) \<Rightarrow> rat \<Rightarrow> nat \<Rightarrow> vec \<Rightarrow> vec list \<Rightarrow> vec list \<Rightarrow> bool list \<Rightarrow> vec" where
  "attend softmax scale d q ks vs allowed = attend_scores softmax d (map (\<lambda>k. dot q k / scale) ks) allowed vs"

text \<open>What is used of softmax: one weight per score, and excluded scores at the end have weight 0 and do not
  change the other weights, when a score is left.\<close>

definition masking_softmax :: "(rat option list \<Rightarrow> vec) \<Rightarrow> bool" where
  "masking_softmax softmax \<longleftrightarrow>
     (\<forall>ws k. length (softmax ws) = length ws \<and>
        ((\<exists>w. Some w \<in> set ws) \<longrightarrow> softmax (ws @ replicate k None) = softmax ws @ replicate k 0))"

lemma weighted_sum_zeros:
  assumes "length ws = length vs" "\<forall>v \<in> set us. length v = d"
  shows "weighted_sum d (ws @ replicate (length us) 0) (vs @ us) = weighted_sum d ws vs"
proof -
  have "foldr (\<lambda>(w, v) acc. vadd (map ((*) w) v) acc) (zip (replicate (length us) 0) us) (replicate d 0) = replicate d 0"
    using assms(2)
  proof (induction us)
    case (Cons u us)
    then show ?case by (auto simp: vadd_def intro!: nth_equalityI)
  qed simp
  then show ?thesis using assms(1) by (simp add: weighted_sum_def)
qed

lemma length_weighted_sum: "\<forall>v \<in> set vs. length v = d \<Longrightarrow> length (weighted_sum d ws vs) = d"
proof -
  assume vs: "\<forall>v \<in> set vs. length v = d"
  have "\<forall>p \<in> set ps. length (snd p) = d \<Longrightarrow> length (foldr (\<lambda>(w, v) acc. vadd (map ((*) w) v) acc) ps (replicate d 0)) = d" for ps
    by (induction ps) auto
  moreover have "\<forall>p \<in> set (zip ws vs). length (snd p) = d" using vs by (auto dest: set_zip_rightD)
  ultimately show ?thesis by (simp add: weighted_sum_def)
qed

text \<open>Attention under a causal mask: the query at position \<open>p\<close> looks at positions up to \<open>p\<close>.\<close>

lemma attend_scores_causal:
  assumes sm: "masking_softmax softmax" and len: "length scores = n" "length vs = n" and p: "p < n" and d: "\<forall>v \<in> set vs. length v = d"
  shows "attend_scores softmax d scores (map (\<lambda>j. j \<le> p) [0..<n]) vs =
    weighted_sum d (softmax (map Some (take (Suc p) scores))) (take (Suc p) vs)"
proof -
  let ?ws = "map Some (take (Suc p) scores)"
  have masked: "map2 (\<lambda>s ok. if ok then Some s else None) scores (map (\<lambda>j. j \<le> p) [0..<n]) = ?ws @ replicate (n - Suc p) None"
    using len p by (intro nth_equalityI) (auto simp: nth_append min_def)
  have "\<exists>w. Some w \<in> set ?ws" using len p by (cases scores) auto
  then have w: "softmax (?ws @ replicate (n - Suc p) None) = softmax ?ws @ replicate (n - Suc p) 0"
    "length (softmax ?ws) = length ?ws" using sm unfolding masking_softmax_def by blast+
  have "weighted_sum d (softmax ?ws @ replicate (length (drop (Suc p) vs)) 0) (take (Suc p) vs @ drop (Suc p) vs) =
      weighted_sum d (softmax ?ws) (take (Suc p) vs)"
    using len p w(2) d by (intro weighted_sum_zeros) (auto dest: in_set_dropD)
  then show ?thesis using len p unfolding attend_scores_def masked w(1) by simp
qed

lemma attend_causal:
  assumes "masking_softmax softmax" "length ks = n" "length vs = n" "p < n" "\<forall>v \<in> set vs. length v = d"
  shows "attend softmax s d q ks vs (map (\<lambda>j. j \<le> p) [0..<n]) =
    weighted_sum d (softmax (map (\<lambda>k. Some (dot q k / s)) (take (Suc p) ks))) (take (Suc p) vs)"
  unfolding attend_def using assms by (subst attend_scores_causal) (simp_all add: comp_def flip: take_map)

subsection \<open>Blocks that compute position by position\<close>

text \<open>The caches after \<open>hs\<close> when position \<open>p\<close> with token \<open>x\<close> adds the vector \<open>row i j p x\<close> to row \<open>j\<close> of tensor \<open>i\<close>.\<close>

definition extend_kvs :: "(nat \<Rightarrow> nat \<Rightarrow> nat \<Rightarrow> 'x \<Rightarrow> 'v) \<Rightarrow> nat \<Rightarrow> 'x list \<Rightarrow> 'v kv list \<Rightarrow> 'v kv list" where
  "extend_kvs row m hs past =
     map (\<lambda>i. map (\<lambda>j. past ! i ! j @ map (\<lambda>t. row i j (m + t) (hs ! t)) [0..<length hs]) [0..<length (past ! i)]) [0..<length past]"

definition cut_kvs :: "nat \<Rightarrow> 'v kv list \<Rightarrow> 'v kv list" where
  "cut_kvs n kvs = map (map (take n)) kvs"

lemma fitting_rows:
  "fitting vec shape m past \<longleftrightarrow> length past = length shape \<and> shape \<noteq> [] \<and> 0 < hd shape \<and>
     (\<forall>i < length shape. length (past ! i) = shape ! i \<and>
        (\<forall>j < shape ! i. length (past ! i ! j) = m \<and> (\<forall>k < m. vec (past ! i ! j ! k))))" (is "?l = ?r")
proof
  assume f: ?l
  then have sh: "map length past = shape" by (simp add: fitting_def)
  have "past \<noteq> []" "hd past \<noteq> []" using f by (simp_all add: fitting_def uniform_def)
  moreover from this have "hd shape = length (hd past)" "shape \<noteq> []" by (auto simp: sh [symmetric] hd_map)
  moreover have "length (past ! i) = shape ! i \<and> (\<forall>j < shape ! i. length (past ! i ! j) = m \<and> (\<forall>k < m. vec (past ! i ! j ! k)))"
    if i: "i < length shape" for i
  proof -
    have t: "past ! i \<in> set past" "length (past ! i) = shape ! i" using i by (auto simp: sh [symmetric])
    have "length (past ! i ! j) = m \<and> (\<forall>k < m. vec (past ! i ! j ! k))" if "j < shape ! i" for j
    proof -
      have "past ! i ! j \<in> set (past ! i)" using that t(2) by simp
      with f t(1) have "length (past ! i ! j) = m" "list_all vec (past ! i ! j)"
        unfolding fitting_def uniform_def list_all_iff by blast+
      then show ?thesis by (simp add: list_all_length)
    qed
    with t(2) show ?thesis by blast
  qed
  moreover have "length past = length shape" by (simp add: sh [symmetric])
  ultimately show ?r by simp
next
  assume r: ?r
  then have sh: "map length past = shape" by (intro nth_equalityI) simp_all
  have "uniform m past"
    unfolding uniform_def
  proof (intro conjI ballI)
    show "past \<noteq> []" using r by auto
    then show "hd past \<noteq> []" using r by (metis hd_conv_nth length_0_conv length_greater_0_conv less_numeral_extra(3))
    fix t x assume "t \<in> set past" "x \<in> set t"
    then show "length x = m" using r by (metis in_set_conv_nth)
  qed
  moreover have "list_all (list_all (list_all vec)) past" using r by (simp add: list_all_length)
  ultimately show ?l using sh by (simp add: fitting_def)
qed

lemma extend_kvs_nth:
  "i < length past \<Longrightarrow> length (extend_kvs row m hs past ! i) = length (past ! i)"
  "i < length past \<Longrightarrow> j < length (past ! i) \<Longrightarrow>
   extend_kvs row m hs past ! i ! j = past ! i ! j @ map (\<lambda>t. row i j (m + t) (hs ! t)) [0..<length hs]"
  "length (extend_kvs row m hs past) = length past"
  by (simp_all add: extend_kvs_def)

lemma extend_kvs_fitting:
  assumes past: "fitting vec shape m past" and hs: "list_all tok hs"
    and row: "\<forall>i j p x. i < length shape \<and> j < shape ! i \<and> tok x \<longrightarrow> vec (row i j p x)"
  shows "fitting vec shape (m + length hs) (extend_kvs row m hs past)"
proof -
  have "vec ((past ! i ! j @ map (\<lambda>t. row i j (m + t) (hs ! t)) [0..<length hs]) ! k)"
    if "i < length shape" "j < shape ! i" "k < m + length hs" for i j k
    using that past row hs by (cases "k < m") (auto simp: fitting_rows nth_append list_all_length)
  with past show ?thesis unfolding fitting_rows [of _ _ "m + length hs"] by (auto simp: extend_kvs_nth fitting_rows [of _ _ m])
qed

lemma cut_kvs_fitting: "fitting vec shape n kvs \<Longrightarrow> k \<le> n \<Longrightarrow> fitting vec shape k (cut_kvs k kvs)"
  by (auto simp: fitting_rows cut_kvs_def)

lemma extend_kvs_append:
  assumes past: "fitting vec shape m past"
  shows "extend_kvs row m (h1 @ h2) past = extend_kvs row (m + length h1) h2 (extend_kvs row m h1 past)"
proof -
  have upt: "[0..<length (h1 @ h2)] = [0..<length h1] @ map ((+) (length h1)) [0..<length h2]"
    by (rule nth_equalityI) (auto simp: nth_append)
  have "map (\<lambda>t. row i j (m + t) ((h1 @ h2) ! t)) [0..<length (h1 @ h2)] =
      map (\<lambda>t. row i j (m + t) (h1 ! t)) [0..<length h1] @ map (\<lambda>t. row i j (m + length h1 + t) (h2 ! t)) [0..<length h2]" for i j
    unfolding upt map_append map_map by (simp add: nth_append comp_def add.assoc)
  then show ?thesis unfolding extend_kvs_def by (simp only: length_map length_upt nth_map_upt nth_map diff_zero append_assoc map_upt_eqI
      cong: map_cong) simp
qed

lemma cut_kvs_cong:
  assumes "\<forall>i < length y. \<forall>j < length (y ! i). take n (x ! i ! j) = take n (y ! i ! j)"
    and "length x = length y" and "\<forall>i < length y. length (x ! i) = length (y ! i)"
  shows "cut_kvs n x = cut_kvs n y"
  using assms unfolding cut_kvs_def by (intro nth_equalityI) simp_all

lemma cut_extend:
  assumes past: "fitting vec shape m past" and n: "n \<le> m + length h1"
  shows "cut_kvs n (extend_kvs row (m + length h1) h2 (extend_kvs row m h1 past)) = cut_kvs n (extend_kvs row m h1 past)"
proof (rule cut_kvs_cong)
  let ?k = "extend_kvs row m h1 past"
  show "\<forall>i < length ?k. \<forall>j < length (?k ! i). take n (extend_kvs row (m + length h1) h2 ?k ! i ! j) = take n (?k ! i ! j)"
  proof (intro allI impI)
    fix i j assume ij: "i < length ?k" "j < length (?k ! i)"
    then have l: "length (?k ! i ! j) = m + length h1" using past by (simp add: extend_kvs_nth fitting_rows)
    have "extend_kvs row (m + length h1) h2 ?k ! i ! j = ?k ! i ! j @ map (\<lambda>t. row i j (m + length h1 + t) (h2 ! t)) [0..<length h2]"
      using ij by (rule extend_kvs_nth(2))
    then show "take n (extend_kvs row (m + length h1) h2 ?k ! i ! j) = take n (?k ! i ! j)" using l n by simp
  qed
qed (simp_all add: extend_kvs_nth)

lemma fitting_two:
  assumes "fitting vec [n, k] m past"
  obtains ks vs where "past = [ks, vs]" "0 < n" "length ks = n" "length vs = k"
    "\<forall>r \<in> set ks. length r = m" "\<forall>r \<in> set vs. length r = m" "\<forall>r \<in> set ks. \<forall>v \<in> set r. vec v"
proof -
  from assms obtain ks vs where p: "past = [ks, vs]"
    by (auto simp: fitting_rows numeral_2_eq_2 length_Suc_conv)
  have l: "0 < n" "\<forall>i < 2. length (past ! i) = [n, k] ! i \<and> (\<forall>j < [n, k] ! i. length (past ! i ! j) = m \<and> (\<forall>l < m. vec (past ! i ! j ! l)))"
    using assms by (simp_all add: fitting_rows)
  from l(2) [THEN spec, of 0] l(2) [THEN spec, of 1]
  have f: "length ks = n" "length vs = k" "\<forall>j < n. length (ks ! j) = m \<and> (\<forall>l < m. vec (ks ! j ! l))" "\<forall>j < k. length (vs ! j) = m"
    by (simp_all add: p)
  show thesis by (rule that [OF p l(1)]) (use f in \<open>auto simp: in_set_conv_nth\<close>)
qed

lemma rows_length: "length ks = n \<Longrightarrow> \<forall>r \<in> set ks. length r = m \<Longrightarrow> map length ks = replicate n m"
  by (intro nth_equalityI) simp_all

lemma extend_two:
  assumes "fitting vec [n, k] m past"
  obtains pk pv ek ev where "past = [pk, pv]" "length pk = n" "length pv = k" "extend_kvs row m hs past = [ek, ev]" "length ek = n" "length ev = k"
    "\<forall>j < n. ek ! j = pk ! j @ map (\<lambda>t. row 0 j (m + t) (hs ! t)) [0..<length hs]"
    "\<forall>j < k. ev ! j = pv ! j @ map (\<lambda>t. row 1 j (m + t) (hs ! t)) [0..<length hs]"
    "\<forall>r \<in> set pk. length r = m" "\<forall>r \<in> set pv. length r = m"
  using assms
proof (rule fitting_two)
  fix pk pv assume p: "past = [pk, pv]" "length pk = n" "length pv = k" "\<forall>r \<in> set pk. length r = m" "\<forall>r \<in> set pv. length r = m"
  show thesis
    by (rule that [OF p(1-3), of "extend_kvs row m hs past ! 0" "extend_kvs row m hs past ! 1"]) (use p in \<open>simp_all add: extend_kvs_def\<close>)
qed

text \<open>Such a block is causal: its output at a position depends on the caches up to this position only.\<close>

lemma positional_causal:
  assumes run: "\<forall>hs past m. hs \<noteq> [] \<and> list_all tok hs \<and> fitting vec shape m past \<longrightarrow>
      fw hs past = Inr (map (\<lambda>t. F (m + t) (hs ! t) (cut_kvs (Suc (m + t)) (extend_kvs row m hs past))) [0..<length hs], extend_kvs row m hs past)"
    and F: "\<forall>p x c. tok x \<and> fitting vec shape (Suc p) c \<longrightarrow> tok (F p x c)"
    and row: "\<forall>i j p x. i < length shape \<and> j < shape ! i \<and> tok x \<longrightarrow> vec (row i j p x)"
  shows "causal_module tok vec shape fw"
  unfolding causal_module_def
proof (intro conjI allI impI, goal_cases)
  case (1 hs past m)
  let ?kvs = "extend_kvs row m hs past"
  have fit: "fitting vec shape (m + length hs) ?kvs" using 1 extend_kvs_fitting row by blast
  have "list_all tok (map (\<lambda>t. F (m + t) (hs ! t) (cut_kvs (Suc (m + t)) ?kvs)) [0..<length hs])"
    using 1 F cut_kvs_fitting [OF fit] by (simp add: list_all_length)
  moreover have "extends (length hs) past ?kvs"
    by (auto simp: extends_def list_all2_conv_all_nth extend_kvs_nth)
  moreover have "list_all (list_all (list_all vec)) ?kvs" using fit by (simp add: fitting_def)
  ultimately show ?case using run 1 by auto
next
  case (2 h1 h2 past m)
  let ?k1 = "extend_kvs row m h1 past" and ?k2 = "extend_kvs row m (h1 @ h2) past"
  have past: "fitting vec shape m past" and ne: "h1 \<noteq> []" "h2 \<noteq> []" and tk: "list_all tok h1" "list_all tok h2" using 2 by auto
  have fit: "fitting vec shape (m + length h1) ?k1" using extend_kvs_fitting [OF past tk(1) row] .
  have k2: "?k2 = extend_kvs row (m + length h1) h2 ?k1" by (rule extend_kvs_append [OF past])
  have a: "fw h1 past = Inr (map (\<lambda>t. F (m + t) (h1 ! t) (cut_kvs (Suc (m + t)) ?k1)) [0..<length h1], ?k1)"
    using run [THEN spec, of h1, THEN spec, of past, THEN spec, of m] past ne tk by simp
  have b: "fw h2 ?k1 = Inr (map (\<lambda>t. F (m + length h1 + t) (h2 ! t) (cut_kvs (Suc (m + length h1 + t)) ?k2)) [0..<length h2], ?k2)"
    unfolding k2 using run [THEN spec, of h2, THEN spec, of ?k1, THEN spec, of "m + length h1"] fit ne tk by simp
  have c: "fw (h1 @ h2) past =
      Inr (map (\<lambda>t. F (m + t) ((h1 @ h2) ! t) (cut_kvs (Suc (m + t)) ?k2)) [0..<length (h1 @ h2)], ?k2)"
    using run [THEN spec, of "h1 @ h2", THEN spec, of past, THEN spec, of m] past ne tk by (simp del: upt_Suc length_append)
  have "map (\<lambda>t. F (m + t) ((h1 @ h2) ! t) (cut_kvs (Suc (m + t)) ?k2)) [0..<length (h1 @ h2)] =
      map (\<lambda>t. F (m + t) (h1 ! t) (cut_kvs (Suc (m + t)) ?k1)) [0..<length h1] @
      map (\<lambda>t. F (m + length h1 + t) (h2 ! t) (cut_kvs (Suc (m + length h1 + t)) ?k2)) [0..<length h2]"
    by (rule nth_equalityI) (auto simp: nth_append k2 cut_extend [OF past] add.assoc)
  with a b c show ?case by simp
qed

subsection \<open>Batches\<close>

text \<open>The backend's hidden states list tokens, each with its vectors over the batch; the modules see the batch first.\<close>

definition batch_first :: "nat \<Rightarrow> vec list list \<Rightarrow> vec list list" where
  "batch_first n hs = map (\<lambda>b. map (\<lambda>x. x ! b) hs) [0..<n]"

definition token_first :: "nat \<Rightarrow> vec list list \<Rightarrow> vec list list" where
  "token_first n xs = map (\<lambda>t. map (\<lambda>s. s ! t) xs) [0..<n]"

text \<open>A token of the backend: as many vectors as sequences, of one length.\<close>

definition token_shape :: "nat \<Rightarrow> nat \<Rightarrow> vec list \<Rightarrow> bool" where
  "token_shape batch n x \<longleftrightarrow> length x = batch \<and> (\<forall>v \<in> set x. length v = n)"

subsection \<open>Tables\<close>

text \<open>Rows of all sequences and heads, and lists of heads per sequence.\<close>

lemma zip_maps: "zip (map f xs) (map g xs) = map (\<lambda>x. (f x, g x)) xs"
  by (induction xs) auto

lemma nth_repeat: "h < length xs * n \<Longrightarrow> concat (map (replicate n) xs) ! h = xs ! (h div n)"
proof (induction xs arbitrary: h)
  case (Cons x xs)
  then show ?case
    by (cases "h < n") (auto simp: nth_append div_if [of h n])
qed simp

lemma length_repeat: "length (concat (map (replicate n) xs)) = length xs * n"
  by (induction xs) auto

lemma regroup_replicate: "regroup (replicate B K) rows = map (\<lambda>b. take K (drop (b * K) rows)) [0..<B]"
proof (induction B arbitrary: rows)
  case (Suc B)
  have "[0..<Suc B] = 0 # map Suc [0..<B]" by (simp add: map_Suc_upt upt_conv_Cons del: upt_Suc)
  with Suc show ?case by (simp add: comp_def add.commute del: upt_Suc)
qed simp

lemma regroup_table:
  "length rows = B * K \<Longrightarrow> regroup (replicate B K) rows = map (\<lambda>b. map (\<lambda>k. rows ! (b * K + k)) [0..<K]) [0..<B]"
proof -
  assume l: "length rows = B * K"
  have "take K (drop (b * K) rows) = map (\<lambda>k. rows ! (b * K + k)) [0..<K]" if "b < B" for b
  proof -
    have "Suc b * K \<le> B * K" using that by (intro mult_le_mono1) simp
    then have n: "b * K + K \<le> length rows" using l by simp
    then show ?thesis by (intro nth_equalityI) simp_all
  qed
  then show ?thesis by (simp add: regroup_replicate)
qed

lemma row_index: "k < K \<Longrightarrow> b < B \<Longrightarrow> b * K + k < B * K" for b k K B :: nat
proof -
  assume "k < K" "b < B"
  then have "b * K + k < Suc b * K" by simp
  also have "\<dots> \<le> B * K" using \<open>b < B\<close> by (intro mult_le_mono1) simp
  finally show ?thesis .
qed

lemma repeat_table: "concat (map (replicate G) (map f [0..<K])) = map (\<lambda>h. f (h div G)) [0..<K * G]"
proof (rule nth_equalityI)
  show l: "length (concat (map (replicate G) (map f [0..<K]))) = length (map (\<lambda>h. f (h div G)) [0..<K * G])"
    by (simp only: length_repeat length_map length_upt diff_zero)
  fix h assume "h < length (concat (map (replicate G) (map f [0..<K])))"
  then have h: "h < K * G" by (simp only: length_repeat length_map length_upt diff_zero)
  then have "h div G < K" by (simp add: less_mult_imp_div_less)
  with h show "concat (map (replicate G) (map f [0..<K])) ! h = map (\<lambda>h. f (h div G)) [0..<K * G] ! h"
    using nth_repeat [of h "map f [0..<K]" G] by simp
qed

lemma zip_tables: "zip (map f [0..<n]) (map g [0..<n]) = map (\<lambda>i. (f i, g i)) [0..<n]"
  by (rule zip_maps)

lemma batch_first_table: "batch_first B hs = map (\<lambda>b. map (\<lambda>t. hs ! t ! b) [0..<length hs]) [0..<B]"
  unfolding batch_first_def by (intro map_cong refl) (auto intro!: nth_equalityI)

lemma map2_upt: "map2 f (map x [0..<n]) (map g [m..<m + n]) = map (\<lambda>t. f (x t) (g (m + t))) [0..<n]"
  by (intro nth_equalityI) simp_all

lemma concat_table: "length rows = B * K \<Longrightarrow> concat (map (\<lambda>b. map (\<lambda>k. rows ! (b * K + k)) [0..<K]) [0..<B]) = rows"
  unfolding regroup_table [symmetric] by (rule concat_regroup) (simp add: sum_list_replicate)

lemma fst_case: "fst (case p of (r, g) \<Rightarrow> (bindR r f, g)) = bindR (fst p) f"
  by (cases p) simp

lemma py_index_nth: "i < length xs \<Longrightarrow> py_index xs (int i) = Inr (xs ! i)"
  by (simp add: py_index_def abs_index_def)

lemma mapR_Inl_first: "xs \<noteq> [] \<Longrightarrow> (\<And>x. x \<in> set xs \<Longrightarrow> f x = Inl e) \<Longrightarrow> mapR f xs = Inl e"
  by (cases xs) simp_all

lemma mapR_length: "mapR f xs = Inr ys \<Longrightarrow> length ys = length xs"
  by (simp add: mapR_Inr_iff list_all2_lengthD)

subsection \<open>Residuals\<close>

text \<open>The sum of two tensors; a batch of one sequence is broadcast.\<close>

definition add_residual :: "vec list list \<Rightarrow> vec list list \<Rightarrow> vec list list result" where
  "add_residual xs ys =
     (let n = max (length xs) (length ys);
          xs' = (if length xs = 1 then replicate n (hd xs) else xs);
          ys' = (if length ys = 1 then replicate n (hd ys) else ys) in
      guardR (map (map length) xs' = map (map length) ys') RuntimeError (Inr (map2 (map2 vadd) xs' ys')))"

lemma add_residual_ok: "map (map length) xs = map (map length) ys \<Longrightarrow> add_residual xs ys = Inr (map2 (map2 vadd) xs ys)"
proof -
  assume l: "map (map length) xs = map (map length) ys"
  then have n: "length xs = length ys" by (rule map_eq_imp_length_eq)
  then have "(if length xs = 1 then replicate (length ys) (hd xs) else xs) = xs" "(if length ys = 1 then replicate (length ys) (hd ys) else ys) = ys"
    by (cases xs; cases ys; auto)+
  then show ?thesis unfolding add_residual_def Let_def n max.idem using l by simp
qed

lemma add_residual_length: "add_residual xs ys = Inr r \<Longrightarrow> length ys = length xs \<Longrightarrow> length r = length xs"
  by (auto simp: add_residual_def Let_def resultD split: if_splits)

subsection \<open>Graphs\<close>

text \<open>A function with a CUDA graph (\<open>make_inference_graphed_callable\<close>), on the sequences of a batch: the first call captures the
  graph on its arguments, whose memory becomes the static input; later calls copy their arguments there,
  which broadcasts a single sequence and raises on any other batch size, and replay the graph.\<close>

definition run_graphed :: "('a list \<Rightarrow> 'b list) \<Rightarrow> nat option \<Rightarrow> 'a list \<Rightarrow> 'b list result \<times> nat option" where
  "run_graphed f captured xs =
     (case captured of
        None \<Rightarrow> (Inr (f xs), Some (length xs))
      | Some n \<Rightarrow>
          if length xs = n then (Inr (f xs), Some n)
          else if length xs = 1 then (Inr (f (replicate n (hd xs))), Some n)
          else (Inl RuntimeError, Some n))"

lemma run_graphed_same: "captured \<in> {None, Some (length xs)} \<Longrightarrow> run_graphed f captured xs = (Inr (f xs), Some (length xs))"
  by (auto simp: run_graphed_def)

end
