(* ===== verification/Falcon_Block.thy ===== *)
theory Falcon_Block
  imports Attention
begin

text \<open>
  \<open>src/peerz/models/falcon/block.py\<close>: the Falcon layer that a server runs. The tables of the rotary embedding,
  \<open>rotate_half\<close>, softmax, the split of the fused projection of older checkpoints (\<open>FalconAttention._split_heads\<close>),
  the mask and the ALiBi biases that \<open>transformers\<close> builds, the norms and the feed-forward network are
  parameters; dropout does nothing outside training. The layer keeps the cached rotary table and three CUDA graphs.

  The lemmas show that the cached table is always the table of the positions, that expanding the
  caches of grouped heads and collapsing them again loses nothing, and that the wrapped block is causal.
\<close>

subsection \<open>State\<close>

record falcon_config =
  fc_hidden_size :: nat
  fc_num_attention_heads :: nat
  fc_num_kv_heads :: nat
  fc_new_decoder_architecture :: bool
  fc_multi_query :: bool
  fc_parallel_attn :: bool
  fc_alibi :: bool
  fc_rotary :: bool

record falcon_lib =
  fl_rotate_half :: "vec \<Rightarrow> vec"
  fl_angles :: "nat \<Rightarrow> vec \<times> vec"                               \<comment> \<open>cosines and sines of a position\<close>
  fl_softmax :: "rat option list \<Rightarrow> vec"
  fl_sqrt :: "nat \<Rightarrow> rat"
  fl_split_heads :: "vec \<Rightarrow> (vec list \<times> vec list \<times> vec list) result"
  fl_attn_mask :: "nat \<times> nat \<Rightarrow> nat \<Rightarrow> bool list list list"         \<comment> \<open>True where attention is excluded\<close>
  fl_alibi :: "nat \<Rightarrow> nat \<Rightarrow> nat \<Rightarrow> rat list list"                  \<comment> \<open>batch size, positions, heads\<close>

record falcon_layer =
  fy_config :: falcon_config
  fy_query_key_value :: linear
  fy_dense :: linear
  fy_mlp :: "vec \<Rightarrow> vec"
  fy_ln_attn :: "vec \<Rightarrow> vec"
  fy_ln_mlp :: "vec \<Rightarrow> vec"
  fy_input_layernorm :: "vec \<Rightarrow> vec"
  fy_post_attention_layernorm :: "vec \<Rightarrow> vec"

record falcon_state =
  fs_seq_len_cached :: int
  fs_cached :: "(vec \<times> vec) list"
  fs_rotary_graph :: "nat option"
  fs_split_graph :: "nat option"
  fs_ln_graph :: "nat option"

definition new_falcon_state :: falcon_state where
  "new_falcon_state = \<lparr>fs_seq_len_cached = -1, fs_cached = [], fs_rotary_graph = None, fs_split_graph = None, fs_ln_graph = None\<rparr>"

text \<open>The property of the configuration (\<open>src/peerz/models/falcon/config.py\<close>), and \<open>__init__\<close> of the attention.\<close>

definition fc_num_key_value_groups :: "falcon_config \<Rightarrow> nat" where
  "fc_num_key_value_groups c =
     (if fc_new_decoder_architecture c then fc_num_attention_heads c div fc_num_kv_heads c
      else if fc_multi_query c then fc_num_attention_heads c else 1)"

definition falcon_head_dim :: "falcon_config \<Rightarrow> nat" where
  "falcon_head_dim c = fc_hidden_size c div fc_num_attention_heads c"

definition init_falcon_attention :: "falcon_config \<Rightarrow> nat result" where
  "init_falcon_attention c =
     guardR (fc_num_attention_heads c \<noteq> 0) ZeroDivisionError
     (guardR (falcon_head_dim c * fc_num_attention_heads c = fc_hidden_size c) ValueError (Inr (falcon_head_dim c)))"

subsection \<open>Rotary embedding\<close>

definition apply_rotary_vec :: "(vec \<Rightarrow> vec) \<Rightarrow> vec \<Rightarrow> vec \<times> vec \<Rightarrow> vec" where
  "apply_rotary_vec rotate_half x = (\<lambda>(cos, sin). vadd (vmul x cos) (vmul (rotate_half x) sin))"

definition apply_rotary :: "(vec \<Rightarrow> vec) \<Rightarrow> (vec \<times> vec) list \<Rightarrow> vec list \<times> vec list \<Rightarrow> vec list \<times> vec list" where
  "apply_rotary rotate_half cs = (\<lambda>(query, key). (map2 (apply_rotary_vec rotate_half) query cs, map2 (apply_rotary_vec rotate_half) key cs))"

definition inference_max_length :: nat where
  "inference_max_length = 8192"

definition cos_sin :: "falcon_lib \<Rightarrow> nat \<Rightarrow> nat \<Rightarrow> falcon_state \<Rightarrow> (vec \<times> vec) list \<times> falcon_state" where
  "cos_sin lib seq_len past_key_values_length st =
     (let total_length = (if fs_seq_len_cached st = -1 then max inference_max_length (seq_len + past_key_values_length)
                          else seq_len + past_key_values_length);
          st' = (if int total_length > fs_seq_len_cached st
                 then st\<lparr>fs_seq_len_cached := int total_length, fs_cached := map (fl_angles lib) [0..<total_length]\<rparr> else st) in
      (take seq_len (drop past_key_values_length (fs_cached st')), st'))"

text \<open>On the rows of queries and keys (batch times heads); \<open>fast\<close>: inference mode on a CUDA device.\<close>

definition rotary_forward ::
    "falcon_lib \<Rightarrow> bool \<Rightarrow> falcon_state \<Rightarrow> vec list list \<times> vec list list \<Rightarrow> nat \<Rightarrow> nat
     \<Rightarrow> (vec list list \<times> vec list list) result \<times> falcon_state" where
  "rotary_forward lib fast st qk seq_len past_key_values_length =
     (case cos_sin lib seq_len past_key_values_length st of
        (cs, st') \<Rightarrow>
          (let rotate = map (apply_rotary (fl_rotate_half lib) cs); rows = zip (fst qk) (snd qk) in
           if seq_len = 1 \<and> fast
           then (case run_graphed rotate (fs_rotary_graph st') rows of
                   (r, captured) \<Rightarrow> (bindR r (\<lambda>x. Inr (map fst x, map snd x)), st'\<lparr>fs_rotary_graph := captured\<rparr>))
           else (Inr (map fst (rotate rows), map snd (rotate rows)), st')))"

subsection \<open>Heads\<close>

text \<open>\<open>split_heads\<close> on one fused vector: each group has \<open>num_heads // num_kv_heads\<close> queries, a key and a value; the
  key and the value are repeated for every query of the group.\<close>

definition split_heads :: "nat \<Rightarrow> nat \<Rightarrow> nat \<Rightarrow> vec \<Rightarrow> (vec list \<times> vec list \<times> vec list) result" where
  "split_heads num_heads num_kv_heads head_dim x =
     guardR (num_kv_heads \<noteq> 0) ZeroDivisionError
     (let g = num_heads div num_kv_heads; size = (g + 2) * head_dim in
      guardR (size \<noteq> 0 \<and> length x mod size = 0) RuntimeError
      (let groups = map (\<lambda>i. map (\<lambda>r. head_of head_dim r (take size (drop (i * size) x))) [0..<g + 2]) [0..<length x div size] in
       Inr (concat (map (take g) groups), concat (map (\<lambda>vs. replicate g (vs ! g)) groups), concat (map (\<lambda>vs. replicate g (vs ! (g + 1))) groups))))"

text \<open>\<open>transpose(1, 2).reshape(batch_size * num_heads, length, head_dim)\<close>.\<close>

definition to_rows :: "nat \<Rightarrow> vec list list list \<Rightarrow> vec list list result" where
  "to_rows n xs =
     guardR (\<forall>seq \<in> set xs. \<forall>hs \<in> set seq. length hs = n) RuntimeError
       (Inr (concat (map (\<lambda>seq. map (\<lambda>h. map (\<lambda>hs. hs ! h) seq) [0..<n]) xs)))"

subsection \<open>Attention\<close>

definition falcon_split :: "falcon_lib \<Rightarrow> falcon_config \<Rightarrow> vec \<Rightarrow> (vec list \<times> vec list \<times> vec list) result" where
  "falcon_split lib c =
     (if fc_new_decoder_architecture c then split_heads (fc_num_attention_heads c) (fc_num_kv_heads c) (falcon_head_dim c)
      else fl_split_heads lib)"

text \<open>The scores of a query: scaled products, or with ALiBi the scaled sums of products and biases.\<close>

definition falcon_scores :: "falcon_lib \<Rightarrow> nat \<Rightarrow> vec \<Rightarrow> vec list \<Rightarrow> rat list option \<Rightarrow> rat list" where
  "falcon_scores lib d q ks alibi =
     (case alibi of
        None \<Rightarrow> map (\<lambda>k. dot q k / fl_sqrt lib d) ks
      | Some al \<Rightarrow> map2 (\<lambda>k b. (dot q k + b) * (1 / fl_sqrt lib d)) ks al)"

definition falcon_attend ::
    "falcon_lib \<Rightarrow> falcon_layer \<Rightarrow> nat \<Rightarrow> nat \<Rightarrow> rat list list option \<Rightarrow> bool list list list \<Rightarrow> vec list list \<Rightarrow> vec list list \<Rightarrow> vec list list
     \<Rightarrow> vec list list result" where
  "falcon_attend lib layer batch_size query_length alibi attention_mask query key value =
     (let c = fy_config layer; n = fc_num_attention_heads c; d = falcon_head_dim c; heads = replicate batch_size n;
          biases = (case alibi of None \<Rightarrow> map (\<lambda>_. None) query | Some al \<Rightarrow> map Some al);
          outs = map2 (\<lambda>(q, k) (v, b, m). map2 (\<lambda>(q1, k1) (v1, b1).
                   map2 (\<lambda>x r. attend_scores (fl_softmax lib) d (falcon_scores lib d x k1 b1) (map Not r) v1) q1 m) (zip q k) (zip v b))
                 (zip (regroup heads query) (regroup heads key))
                 (zip (regroup heads value) (zip (regroup heads biases) attention_mask)) in
      bindR (mapR (merge_heads query_length (n * d)) outs) (\<lambda>attn_output. mapR (mapR (linear_forward (fy_dense layer))) attn_output))"

definition falcon_attention ::
    "falcon_lib \<Rightarrow> falcon_layer \<Rightarrow> bool \<Rightarrow> falcon_state \<Rightarrow> vec list list \<Rightarrow> rat list list option \<Rightarrow> bool list list list
     \<Rightarrow> (vec list list \<times> vec list list) option \<Rightarrow> bool
     \<Rightarrow> (vec list list \<times> (vec list list \<times> vec list list) option) result \<times> falcon_state" where
  "falcon_attention lib layer fast st hidden_states alibi attention_mask layer_past caching =
     (let c = fy_config layer; n = fc_num_attention_heads c; batch_size = length hidden_states; query_length = length (hd hidden_states) in
      case mapR (mapR (linear_forward (fy_query_key_value layer))) hidden_states of
        Inl e \<Rightarrow> (Inl e, st)
      | Inr fused \<Rightarrow>
          (case (if fc_new_decoder_architecture c \<and> query_length = 1 \<and> fast
                 then run_graphed (map (map (falcon_split lib c))) (fs_split_graph st) fused
                 else (Inr (map (map (falcon_split lib c)) fused), fs_split_graph st)) of
             (splits, captured) \<Rightarrow>
               (let st1 = st\<lparr>fs_split_graph := captured\<rparr> in
                case bindR splits (\<lambda>s. bindR (mapR (mapR (\<lambda>x. x)) s) (\<lambda>qkv.
                     bindR (to_rows n (map (map fst) qkv)) (\<lambda>q. bindR (to_rows n (map (map (fst \<circ> snd)) qkv)) (\<lambda>k.
                     bindR (to_rows n (map (map (snd \<circ> snd)) qkv)) (\<lambda>v. Inr (q, k, v)))))) of
                  Inl e \<Rightarrow> (Inl e, st1)
                | Inr (q, k, v) \<Rightarrow>
                    (let past_kv_length = (case layer_past of None \<Rightarrow> 0 | Some (pk, _) \<Rightarrow> length (hd pk)) in
                     case (if fc_rotary c then rotary_forward lib fast st1 (q, k) query_length past_kv_length else (Inr (q, k), st1)) of
                       (Inl e, st2) \<Rightarrow> (Inl e, st2)
                     | (Inr (query, key), st2) \<Rightarrow>
                         (bindR (case layer_past of
                                   None \<Rightarrow> Inr (key, v)
                                 | Some (pk, pv) \<Rightarrow>
                                     guardR (length pk = length key \<and> length pv = length v) RuntimeError (Inr (map2 (@) pk key, map2 (@) pv v)))
                            (\<lambda>(keys, values).
                              bindR (falcon_attend lib layer batch_size query_length alibi attention_mask query keys values)
                                (\<lambda>output. Inr (output, if caching then Some (keys, values) else None))), st2)))))"

subsection \<open>The decoder layer\<close>

text \<open>The norms before attention and the feed-forward network; the graph of both norms is set up by the constructor only
  for the new architecture without ALiBi.\<close>

definition falcon_norms ::
    "falcon_layer \<Rightarrow> bool \<Rightarrow> falcon_state \<Rightarrow> vec list list \<Rightarrow> (vec list list \<times> vec list list) result \<times> falcon_state" where
  "falcon_norms layer fast st hidden_states =
     (let c = fy_config layer in
      if fc_new_decoder_architecture c
      then if length (hd hidden_states) = 1 \<and> fast
           then if fc_alibi c then (Inl AttributeError, st)
                else (case run_graphed (map (\<lambda>seq. (map (fy_ln_attn layer) seq, map (fy_ln_mlp layer) seq))) (fs_ln_graph st) hidden_states of
                        (r, captured) \<Rightarrow> (bindR r (\<lambda>x. Inr (map fst x, map snd x)), st\<lparr>fs_ln_graph := captured\<rparr>))
           else (Inr (map (map (fy_ln_attn layer)) hidden_states, map (map (fy_ln_mlp layer)) hidden_states), st)
      else (Inr (map (map (fy_input_layernorm layer)) hidden_states, map (map (fy_input_layernorm layer)) hidden_states), st))"

definition falcon_layer_forward ::
    "falcon_lib \<Rightarrow> falcon_layer \<Rightarrow> bool \<Rightarrow> falcon_state \<Rightarrow> vec list list \<Rightarrow> rat list list option \<Rightarrow> bool list list list
     \<Rightarrow> (vec list list \<times> vec list list) option \<Rightarrow> bool
     \<Rightarrow> (vec list list \<times> (vec list list \<times> vec list list) option) result \<times> falcon_state" where
  "falcon_layer_forward lib layer fast st hidden_states alibi attention_mask layer_past caching =
     (let c = fy_config layer in
      case falcon_norms layer fast st hidden_states of
        (Inl e, st1) \<Rightarrow> (Inl e, st1)
      | (Inr (attention_layernorm_out, mlp_layernorm_out), st1) \<Rightarrow>
          (case falcon_attention lib layer fast st1 attention_layernorm_out alibi attention_mask layer_past caching of
             (r, st2) \<Rightarrow>
               (bindR r (\<lambda>(attention_output, present).
                bindR (if \<not> fc_new_decoder_architecture c \<and> \<not> fc_parallel_attn c
                       then bindR (add_residual attention_output hidden_states) (\<lambda>residual.
                            Inr (residual, map (map (fy_post_attention_layernorm layer)) residual))
                       else Inr (hidden_states, mlp_layernorm_out)) (\<lambda>(residual, mlp_in).
                let mlp_output = map (map (fy_mlp layer)) mlp_in in
                bindR (if fc_new_decoder_architecture c \<or> fc_parallel_attn c then add_residual mlp_output attention_output else Inr mlp_output) (\<lambda>sum.
                bindR (add_residual sum residual) (\<lambda>output. Inr (output, present))))), st2)))"

subsection \<open>The wrapped block\<close>

definition expand_states :: "falcon_config \<Rightarrow> vec list list \<Rightarrow> vec list list result" where
  "expand_states c state =
     guardR (fc_num_kv_heads c \<noteq> 0) ZeroDivisionError
     (let batch_size = length state div fc_num_kv_heads c in
      guardR (length state = batch_size * fc_num_kv_heads c \<and>
          length state * fc_num_key_value_groups c = batch_size * fc_num_attention_heads c) RuntimeError
        (Inr (concat (map (replicate (fc_num_key_value_groups c)) state))))"

definition collapse_states :: "falcon_config \<Rightarrow> vec list list \<Rightarrow> vec list list result" where
  "collapse_states c state =
     guardR (fc_num_attention_heads c \<noteq> 0) ZeroDivisionError
     (let batch_size = length state div fc_num_attention_heads c; g = fc_num_key_value_groups c in
      guardR (length state = batch_size * fc_num_kv_heads c * g) RuntimeError
      (guardR (g \<noteq> 0) IndexError (Inr (map (\<lambda>j. state ! (j * g)) [0..<batch_size * fc_num_kv_heads c]))))"

definition reorder_cache_from_bloom_to_falcon :: "falcon_config \<Rightarrow> vec kv list \<Rightarrow> (vec list list \<times> vec list list) result" where
  "reorder_cache_from_bloom_to_falcon c key_value =
     (case key_value of
        [key_states, value_states] \<Rightarrow>
          guardR (map length key_states = map length value_states) AssertionError
          (if fc_new_decoder_architecture c
           then bindR (expand_states c key_states) (\<lambda>k. bindR (expand_states c value_states) (\<lambda>v. Inr (k, v)))
           else Inr (key_states, value_states))
      | _ \<Rightarrow> Inl ValueError)"

definition reorder_cache_from_falcon_to_bloom :: "falcon_config \<Rightarrow> vec list list \<times> vec list list \<Rightarrow> vec kv list result" where
  "reorder_cache_from_falcon_to_bloom c key_value =
     bindR (if fc_new_decoder_architecture c
            then bindR (collapse_states c (fst key_value)) (\<lambda>k. bindR (collapse_states c (snd key_value)) (\<lambda>v. Inr (k, v)))
            else Inr key_value) (\<lambda>(key_states, value_states).
     guardR (map length key_states = map length value_states) AssertionError (Inr [key_states, value_states]))"

definition wrapped_falcon_forward ::
    "falcon_lib \<Rightarrow> falcon_layer \<Rightarrow> bool \<Rightarrow> falcon_state \<Rightarrow> vec list list \<Rightarrow> bool list list option \<Rightarrow> rat list list option \<Rightarrow> vec kv list option \<Rightarrow> bool
     \<Rightarrow> (vec list list \<times> vec kv list option) result \<times> falcon_state" where
  "wrapped_falcon_forward lib layer fast st hidden_states attention_mask alibi layer_past caching =
     (if attention_mask \<noteq> None then (Inl AssertionError, st)
      else let c = fy_config layer; batch_size = length hidden_states; seq_length = length (hd hidden_states) in
        case (case layer_past of
                None \<Rightarrow> Inr None
              | Some kvs \<Rightarrow> bindR (reorder_cache_from_bloom_to_falcon c kvs) (\<lambda>kv. Inr (Some kv))) of
          Inl e \<Rightarrow> (Inl e, st)
        | Inr past \<Rightarrow>
            (let past_length = (case past of None \<Rightarrow> 0 | Some (pk, _) \<Rightarrow> length (hd pk));
                 biases = (if alibi = None \<and> fc_alibi c
                           then Some (fl_alibi lib batch_size (seq_length + past_length) (fc_num_attention_heads c)) else alibi);
                 masked = fl_attn_mask lib (batch_size, seq_length) past_length in
             case falcon_layer_forward lib layer fast st hidden_states biases masked past caching of
               (r, st') \<Rightarrow>
                 (bindR r (\<lambda>(output, present). case present of
                     None \<Rightarrow> Inr (output, None)
                   | Some kv \<Rightarrow> bindR (reorder_cache_from_falcon_to_bloom c kv) (\<lambda>kvs. Inr (output, Some kvs))), st')))"

subsection \<open>The rotary cache\<close>

definition rotary_cache_ok :: "falcon_lib \<Rightarrow> falcon_state \<Rightarrow> bool" where
  "rotary_cache_ok lib st \<longleftrightarrow> -1 \<le> fs_seq_len_cached st \<and> fs_cached st = map (fl_angles lib) [0..<nat (fs_seq_len_cached st)]"

lemma take_drop_upt: "a + n \<le> m \<Longrightarrow> take n (drop a (map f [0..<m])) = map (\<lambda>t. f (a + t)) [0..<n]"
  by (rule nth_equalityI) auto

lemma drop_upt_map: "drop m (map f [0..<n + m]) = map (\<lambda>t. f (m + t)) [0..<n]"
  by (rule nth_equalityI) (auto simp: add.commute)

lemma cos_sin_ok:
  assumes "rotary_cache_ok lib st"
  shows "fst (cos_sin lib n m st) = map (\<lambda>t. fl_angles lib (m + t)) [0..<n]" "rotary_cache_ok lib (snd (cos_sin lib n m st))"
    "int (n + m) \<le> fs_seq_len_cached (snd (cos_sin lib n m st))" "fs_seq_len_cached st \<le> fs_seq_len_cached (snd (cos_sin lib n m st))"
  using assms unfolding cos_sin_def rotary_cache_ok_def Let_def by (auto simp: take_drop_upt drop_upt_map)

subsection \<open>Grouped heads\<close>

lemma expand_table: "length rows = n \<Longrightarrow> concat (map (replicate g) rows) = map (\<lambda>r. rows ! (r div g)) [0..<n * g]"
  using repeat_table [of g "(!) rows" n] by (metis map_nth)

lemma expand_collapse:
  assumes "length rows = B * K" "fc_num_kv_heads c = K" "fc_num_attention_heads c = K * fc_num_key_value_groups c" "0 < K" "0 < fc_num_key_value_groups c"
  shows "expand_states c rows = Inr (concat (map (replicate (fc_num_key_value_groups c)) rows))"
    and "collapse_states c (concat (map (replicate (fc_num_key_value_groups c)) rows)) = Inr rows"
proof -
  let ?g = "fc_num_key_value_groups c"
  show "expand_states c rows = Inr (concat (map (replicate ?g) rows))"
    using assms by (simp add: expand_states_def Let_def)
  have l: "length (concat (map (replicate ?g) rows)) = B * (K * ?g)" by (simp only: length_repeat assms(1) mult.assoc)
  have b: "B * (K * ?g) div (K * ?g) = B" using assms(4,5) by simp
  have "j * ?g < length rows * ?g" if "j < length rows" for j using that assms(5) by simp
  then have "map (\<lambda>j. concat (map (replicate ?g) rows) ! (j * ?g)) [0..<B * K] = rows"
    using assms(1,5) nth_repeat [of "_ * ?g" rows ?g] by (intro nth_equalityI) simp_all
  then show "collapse_states c (concat (map (replicate ?g) rows)) = Inr rows"
    unfolding collapse_states_def Let_def l assms(2,3) b using assms(4,5) by simp
qed

text \<open>Splitting a fused vector of the new architecture: every head of a group has the group's key and value.\<close>

lemma concat_equal_blocks:
  assumes "\<forall>i < n. length (f i) = g" "h < n * g"
  shows "concat (map f [0..<n]) ! h = f (h div g) ! (h mod g)" "length (concat (map f [0..<n])) = n * g"
proof -
  show "length (concat (map f [0..<n])) = n * g" using assms(1) by (induction n) auto
  show "concat (map f [0..<n]) ! h = f (h div g) ! (h mod g)"
    using assms
  proof (induction n)
    case (Suc n)
    have l: "length (concat (map f [0..<n])) = n * g" using Suc.prems(1) by (induction n) auto
    show ?case
    proof (cases "h < n * g")
      case True
      then show ?thesis using Suc l by (simp add: nth_append)
    next
      case False
      then have "h div g = n" using Suc.prems(2) by (intro div_nat_eqI) (simp_all add: algebra_simps)
      moreover from this have "h mod g = h - n * g" by (simp add: minus_div_mult_eq_mod [symmetric])
      ultimately show ?thesis using False l by (simp add: nth_append)
    qed
  qed simp
qed

subsection \<open>The block as the backend sees it\<close>

definition falcon_block_forward :: "falcon_lib \<Rightarrow> falcon_layer \<Rightarrow> falcon_state \<Rightarrow> vec list list \<Rightarrow> vec kv list \<Rightarrow> (vec list list \<times> vec kv list) result" where
  "falcon_block_forward lib layer st hs past =
     bindR (fst (wrapped_falcon_forward lib layer False st (batch_first (length (hd hs)) hs) None None (Some past) True))
       (\<lambda>(output, kvs). Inr (token_first (length hs) output, case kvs of None \<Rightarrow> [] | Some k \<Rightarrow> k))"

text \<open>Rows of the caches per sequence, and how many query heads share one.\<close>

definition kv_heads :: "falcon_config \<Rightarrow> nat" where
  "kv_heads c = (if fc_new_decoder_architecture c then fc_num_kv_heads c else fc_num_attention_heads c)"

definition kv_repeat :: "falcon_config \<Rightarrow> nat" where
  "kv_repeat c = (if fc_new_decoder_architecture c then fc_num_key_value_groups c else 1)"

text \<open>What is used of the library: \<open>al\<close> are the ALiBi biases of a head at a position.\<close>

definition falcon_lib_ok :: "falcon_lib \<Rightarrow> falcon_config \<Rightarrow> (nat \<Rightarrow> nat \<Rightarrow> rat) \<Rightarrow> bool" where
  "falcon_lib_ok lib c al \<longleftrightarrow> masking_softmax (fl_softmax lib) \<and>
     (\<forall>x. length (fl_rotate_half lib x) = length x) \<and>
     (\<forall>p. length (fst (fl_angles lib p)) = falcon_head_dim c \<and> length (snd (fl_angles lib p)) = falcon_head_dim c) \<and>
     (\<forall>B T m. fl_attn_mask lib (B, T) m = replicate B (map (\<lambda>t. map (\<lambda>j. \<not> j \<le> m + t) [0..<m + T]) [0..<T])) \<and>
     (\<forall>B n H. fl_alibi lib B n H = map (\<lambda>r. map (al (r mod H)) [0..<n]) [0..<B * H])"

text \<open>The fused projection splits into one query, key and value per head: by its size in the new architecture, by the library otherwise.\<close>

definition split_ok :: "falcon_lib \<Rightarrow> falcon_config \<Rightarrow> nat \<Rightarrow> bool" where
  "split_ok lib c w \<longleftrightarrow>
     (let n = fc_num_attention_heads c; d = falcon_head_dim c in
      if fc_new_decoder_architecture c then w = fc_num_kv_heads c * ((fc_num_key_value_groups c + 2) * d)
      else (\<forall>x. length x = w \<longrightarrow> (\<exists>q k v. fl_split_heads lib x = Inr (q, k, v) \<and> length q = n \<and> length k = n \<and> length v = n \<and>
             (\<forall>h < n. length (q ! h) = d \<and> length (k ! h) = d \<and> length (v ! h) = d))))"

definition falcon_sizes :: "falcon_lib \<Rightarrow> falcon_layer \<Rightarrow> bool" where
  "falcon_sizes lib layer \<longleftrightarrow>
     (let c = fy_config layer; h = fc_hidden_size c in
      0 < kv_heads c \<and> 0 < kv_repeat c \<and> fc_num_attention_heads c = kv_heads c * kv_repeat c \<and>
      0 < falcon_head_dim c \<and> h = fc_num_attention_heads c * falcon_head_dim c \<and>
      linear_shape (fy_dense layer) h h \<and>
      (\<exists>w. linear_shape (fy_query_key_value layer) h w \<and> split_ok lib c w) \<and>
      (\<forall>x. length x = h \<longrightarrow> length (fy_ln_attn layer x) = h \<and> length (fy_ln_mlp layer x) = h \<and> length (fy_input_layernorm layer x) = h \<and>
         length (fy_post_attention_layernorm layer x) = h \<and> length (fy_mlp layer x) = h))"

subsection \<open>One position\<close>

definition falcon_qkv :: "falcon_lib \<Rightarrow> falcon_layer \<Rightarrow> vec \<Rightarrow> vec list \<times> vec list \<times> vec list" where
  "falcon_qkv lib layer x =
     (let c = fy_config layer; v = (if fc_new_decoder_architecture c then fy_ln_attn layer x else fy_input_layernorm layer x) in
      case falcon_split lib c (lin (fy_query_key_value layer) v) of Inr r \<Rightarrow> r | Inl _ \<Rightarrow> ([], [], []))"

definition falcon_rotate :: "falcon_lib \<Rightarrow> falcon_config \<Rightarrow> nat \<Rightarrow> vec \<Rightarrow> vec" where
  "falcon_rotate lib c p x = (if fc_rotary c then apply_rotary_vec (fl_rotate_half lib) x (fl_angles lib p) else x)"

definition falcon_row :: "falcon_lib \<Rightarrow> falcon_layer \<Rightarrow> nat \<Rightarrow> nat \<Rightarrow> nat \<Rightarrow> vec list \<Rightarrow> vec" where
  "falcon_row lib layer i j p x =
     (let c = fy_config layer; (q, k, v) = falcon_qkv lib layer (x ! (j div kv_heads c)); h = j mod kv_heads c * kv_repeat c in
      if i = 0 then falcon_rotate lib c p (k ! h) else v ! h)"

definition falcon_head :: "falcon_lib \<Rightarrow> falcon_layer \<Rightarrow> (nat \<Rightarrow> nat \<Rightarrow> rat) \<Rightarrow> nat \<Rightarrow> vec \<Rightarrow> vec kv list \<Rightarrow> nat \<Rightarrow> nat \<Rightarrow> vec" where
  "falcon_head lib layer al p x c b h =
     (let cfg = fy_config layer; d = falcon_head_dim cfg; j = b * kv_heads cfg + h div kv_repeat cfg;
          q = falcon_rotate lib cfg p (fst (falcon_qkv lib layer x) ! h) in
      weighted_sum d (fl_softmax lib (map Some (falcon_scores lib d q (c ! 0 ! j) (if fc_alibi cfg then Some (map (al h) [0..<Suc p]) else None)))) (c ! 1 ! j))"

definition falcon_position :: "falcon_lib \<Rightarrow> falcon_layer \<Rightarrow> (nat \<Rightarrow> nat \<Rightarrow> rat) \<Rightarrow> nat \<Rightarrow> vec list \<Rightarrow> vec kv list \<Rightarrow> vec list" where
  "falcon_position lib layer al p x c =
     map (\<lambda>b. let cfg = fy_config layer; y = x ! b;
               attn = lin (fy_dense layer) (concat (map (falcon_head lib layer al p y c b) [0..<fc_num_attention_heads cfg])) in
             if fc_new_decoder_architecture cfg then vadd (vadd (fy_mlp layer (fy_ln_mlp layer y)) attn) y
             else if fc_parallel_attn cfg then vadd (vadd (fy_mlp layer (fy_input_layernorm layer y)) attn) y
             else vadd (fy_mlp layer (fy_post_attention_layernorm layer (vadd attn y))) (vadd attn y)) [0..<length x]"

lemma split_heads_ok:
  assumes x: "length x = K * ((g + 2) * d)" and n: "n = K * g" and pos: "0 < K" "0 < d" "0 < g"
  shows "\<exists>q k v. split_heads n K d x = Inr (q, k, v) \<and> length q = n \<and> length k = n \<and> length v = n \<and>
    (\<forall>h < n. length (q ! h) = d \<and> length (k ! h) = d \<and> length (v ! h) = d \<and> k ! h = k ! (h div g * g) \<and> v ! h = v ! (h div g * g))"
proof -
  let ?size = "(g + 2) * d"
  define G where "G = (\<lambda>i. map (\<lambda>r. head_of d r (take ?size (drop (i * ?size) x))) [0..<g + 2])"
  have sz: "n div K = g" "length x div ?size = K" "length x mod ?size = 0" using assms by simp_all
  have lG: "length (G i ! r) = d" if "i < K" "r < g + 2" for i r
  proof -
    have "Suc i * ?size \<le> K * ?size" using that(1) by (intro mult_le_mono1) simp
    then have "length (take ?size (drop (i * ?size) x)) = (g + 2) * d" by (simp add: x)
    moreover have "G i ! r = head_of d r (take ?size (drop (i * ?size) x))"
      unfolding G_def using that(2) by (simp only: nth_map length_upt nth_upt diff_zero add_0)
    ultimately show ?thesis using that(2) by (simp only: length_head_of)
  qed
  let ?q = "concat (map (\<lambda>i. take g (G i)) [0..<K])" and ?r = "\<lambda>c. concat (map (\<lambda>i. replicate g (G i ! c)) [0..<K])"
  have run: "split_heads n K d x = Inr (?q, ?r g, ?r (g + 1))"
    unfolding split_heads_def Let_def sz G_def [symmetric] using pos by (simp add: comp_def)
  have gl: "length (G i) = g + 2" for i unfolding G_def by (simp only: length_map length_upt diff_zero)
  have q: "?q ! h = G (h div g) ! (h mod g)" "length ?q = n" and r: "?r c ! h = G (h div g) ! c" "length (?r c) = n" if "h < n" for h c
  proof -
    have h: "h < K * g" "h mod g < g" "h div g < K" using that pos by (simp_all add: n less_mult_imp_div_less)
    have "\<forall>i < K. length (take g (G i)) = g" "\<forall>i < K. length (replicate g (G i ! c)) = g" by (simp_all add: gl)
    note concat_equal_blocks [OF this(1) h(1)] concat_equal_blocks [OF this(2) h(1)]
    then show "?q ! h = G (h div g) ! (h mod g)" "length ?q = n" "?r c ! h = G (h div g) ! c" "length (?r c) = n" using h(2) by (simp_all add: n)
  qed
  have nz: "0 < n" using n pos by simp
  have "h div g < K" "h mod g < g + 2" if "h < n" for h
    using that mod_less_divisor [OF pos(3), of h] by (simp_all only: n less_mult_imp_div_less trans_less_add1)
  moreover have "h div g * g < n" if "h < n" for h using that div_times_less_eq_dividend [of h g] by (rule le_less_trans [rotated])
  ultimately show ?thesis using run q r lG nz pos by (intro exI conjI allI impI) (auto simp: div_mult_self_is_m)
qed

subsection \<open>The parts on well-shaped inputs\<close>

lemma qkv_ok:
  assumes sizes: "falcon_sizes lib layer" and y: "length y = fc_hidden_size (fy_config layer)"
  defines "c \<equiv> fy_config layer"
  defines "u \<equiv> lin (fy_query_key_value layer) (if fc_new_decoder_architecture c then fy_ln_attn layer y else fy_input_layernorm layer y)"
  shows "\<exists>q k v. falcon_split lib c u = Inr (q, k, v) \<and> falcon_qkv lib layer y = (q, k, v) \<and>
    length q = fc_num_attention_heads c \<and> length k = fc_num_attention_heads c \<and> length v = fc_num_attention_heads c \<and>
    (\<forall>h < fc_num_attention_heads c. length (q ! h) = falcon_head_dim c \<and> length (k ! h) = falcon_head_dim c \<and> length (v ! h) = falcon_head_dim c \<and>
       k ! h = k ! (h div kv_repeat c * kv_repeat c) \<and> v ! h = v ! (h div kv_repeat c * kv_repeat c))"
proof -
  obtain w where w: "linear_shape (fy_query_key_value layer) (fc_hidden_size c) w" "split_ok lib c w"
    and pos: "0 < kv_heads c" "0 < kv_repeat c" "fc_num_attention_heads c = kv_heads c * kv_repeat c" "0 < falcon_head_dim c"
    using sizes unfolding falcon_sizes_def Let_def c_def by blast
  have lu: "length u = w" unfolding u_def by (rule length_lin [OF w(1)])
  have "falcon_qkv lib layer y = (case falcon_split lib c u of Inr r \<Rightarrow> r | Inl _ \<Rightarrow> ([], [], []))"
    unfolding falcon_qkv_def Let_def c_def u_def by (rule refl)
  moreover have "\<exists>q k v. falcon_split lib c u = Inr (q, k, v) \<and> length q = fc_num_attention_heads c \<and> length k = fc_num_attention_heads c \<and>
      length v = fc_num_attention_heads c \<and>
      (\<forall>h < fc_num_attention_heads c. length (q ! h) = falcon_head_dim c \<and> length (k ! h) = falcon_head_dim c \<and> length (v ! h) = falcon_head_dim c \<and>
         k ! h = k ! (h div kv_repeat c * kv_repeat c) \<and> v ! h = v ! (h div kv_repeat c * kv_repeat c))"
  proof (cases "fc_new_decoder_architecture c")
    case True
    then have "length u = fc_num_kv_heads c * ((kv_repeat c + 2) * falcon_head_dim c)" using w(2) lu by (simp add: split_ok_def kv_repeat_def Let_def)
    from split_heads_ok [OF this, of "fc_num_attention_heads c"] pos True show ?thesis
      by (simp add: falcon_split_def kv_heads_def)
  next
    case False
    with w(2) lu obtain q k v where "fl_split_heads lib u = Inr (q, k, v)" "length q = fc_num_attention_heads c" "length k = fc_num_attention_heads c"
      "length v = fc_num_attention_heads c"
      "\<forall>h < fc_num_attention_heads c. length (q ! h) = falcon_head_dim c \<and> length (k ! h) = falcon_head_dim c \<and> length (v ! h) = falcon_head_dim c"
      unfolding split_ok_def Let_def by auto
    then show ?thesis using False by (simp add: falcon_split_def kv_repeat_def)
  qed
  ultimately show ?thesis by (elim exE conjE, intro exI conjI) (assumption | simp only: sum.case)+
qed

lemma concat_rows:
  assumes "0 < K"
  shows "concat (map (\<lambda>b. map (f b) [0..<K]) [0..<B]) = map (\<lambda>j. f (j div K) (j mod K)) [0..<B * K]"
proof (rule nth_equalityI)
  have l: "\<forall>i < B. length (map (f i) [0..<K]) = K" by simp
  show len: "length (concat (map (\<lambda>b. map (f b) [0..<K]) [0..<B])) = length (map (\<lambda>j. f (j div K) (j mod K)) [0..<B * K])"
    by (simp add: length_concat comp_def sum_list_replicate map_replicate_const)
  fix j assume "j < length (concat (map (\<lambda>b. map (f b) [0..<K]) [0..<B]))"
  then have j: "j < B * K" using len by simp
  then show "concat (map (\<lambda>b. map (f b) [0..<K]) [0..<B]) ! j = map (\<lambda>j. f (j div K) (j mod K)) [0..<B * K] ! j"
    using concat_equal_blocks(1) [OF l j] assms by simp
qed

lemma regroup_rows: "regroup (replicate B H) (map f [0..<B * H]) = map (\<lambda>b. map (\<lambda>h. f (b * H + h)) [0..<H]) [0..<B]"
  by (subst regroup_table) (auto simp: row_index)

lemma falcon_scores_causal:
  assumes "length ks = n" "p < n"
  shows "length (falcon_scores lib d q ks (if ab then Some (map al [0..<n]) else None)) = n"
    "take (Suc p) (falcon_scores lib d q ks (if ab then Some (map al [0..<n]) else None)) =
     falcon_scores lib d q (take (Suc p) ks) (if ab then Some (map al [0..<Suc p]) else None)"
proof -
  have "take (Suc p) (map al [0..<n]) = map al [0..<Suc p]" using assms(2) by (simp add: take_map del: upt_Suc)
  then show "take (Suc p) (falcon_scores lib d q ks (if ab then Some (map al [0..<n]) else None)) =
     falcon_scores lib d q (take (Suc p) ks) (if ab then Some (map al [0..<Suc p]) else None)"
    by (simp add: falcon_scores_def take_map take_zip del: upt_Suc)
qed (simp add: falcon_scores_def assms(1))

lemma nth_table: "t \<in> set [0..<n] \<Longrightarrow> map f [0..<n] ! t = f t"
  by simp

lemma falcon_attend_ok:
  fixes lib layer B T m and Q :: "nat \<Rightarrow> nat \<Rightarrow> vec" and Kt Vt :: "nat \<Rightarrow> vec list"
  defines "H \<equiv> fc_num_attention_heads (fy_config layer)" and "d \<equiv> falcon_head_dim (fy_config layer)"
  assumes sm: "masking_softmax (fl_softmax lib)" and dense: "linear_shape (fy_dense layer) (H * d) D'"
    and len: "\<forall>r < B * H. length (Kt r) = m + T \<and> length (Vt r) = m + T \<and> (\<forall>x \<in> set (Vt r). length x = d)"
  shows "falcon_attend lib layer B T (if ab then Some (map (\<lambda>r. map (al (r mod H)) [0..<m + T]) [0..<B * H]) else None)
      (replicate B (map (\<lambda>t. map (\<lambda>j. \<not> j \<le> m + t) [0..<m + T]) [0..<T])) (map (\<lambda>r. map (Q r) [0..<T]) [0..<B * H]) (map Kt [0..<B * H]) (map Vt [0..<B * H]) =
    Inr (map (\<lambda>b. map (\<lambda>t. lin (fy_dense layer) (concat (map (\<lambda>h. weighted_sum d (fl_softmax lib (map Some
        (falcon_scores lib d (Q (b * H + h) t) (take (Suc (m + t)) (Kt (b * H + h))) (if ab then Some (map (al h) [0..<Suc (m + t)]) else None))))
        (take (Suc (m + t)) (Vt (b * H + h)))) [0..<H]))) [0..<T]) [0..<B])"
proof -
  let ?row = "\<lambda>t. map (\<lambda>j. \<not> j \<le> m + t) [0..<m + T]"
  let ?A = "\<lambda>b h t. weighted_sum d (fl_softmax lib (map Some
        (falcon_scores lib d (Q (b * H + h) t) (take (Suc (m + t)) (Kt (b * H + h))) (if ab then Some (map (al h) [0..<Suc (m + t)]) else None))))
        (take (Suc (m + t)) (Vt (b * H + h)))"
  have mask: "replicate B (map ?row [0..<T]) = map (\<lambda>b. map ?row [0..<T]) [0..<B]" by (simp add: map_replicate_const)
  have biases: "(case if ab then Some (map (\<lambda>r. map (al (r mod H)) [0..<m + T]) [0..<B * H]) else None of
        None \<Rightarrow> map (\<lambda>_. None) (map (\<lambda>r. map (Q r) [0..<T]) [0..<B * H]) | Some al \<Rightarrow> map Some al) =
      map (\<lambda>r. if ab then Some (map (al (r mod H)) [0..<m + T]) else None) [0..<B * H]" by simp
  have att: "attend_scores (fl_softmax lib) d (falcon_scores lib d (Q (b * H + h) t) (Kt (b * H + h)) (if ab then Some (map (al ((b * H + h) mod H)) [0..<m + T]) else None))
      (map Not (?row t)) (Vt (b * H + h)) = ?A b h t"
    if "b < B" "h < H" "t < T" for b h t
  proof -
    have r: "b * H + h < B * H" using that(2,1) by (rule row_index)
    then have l: "length (Kt (b * H + h)) = m + T" "length (Vt (b * H + h)) = m + T" "\<forall>x \<in> set (Vt (b * H + h)). length x = d" using len by blast+
    have h: "(b * H + h) mod H = h" "map Not (?row t) = map (\<lambda>j. j \<le> m + t) [0..<m + T]" using that(2) by simp_all
    have p: "m + t < m + T" using that(3) by simp
    show ?thesis
      unfolding h attend_scores_causal [OF sm falcon_scores_causal(1) [OF l(1) p] l(2) p l(3)] falcon_scores_causal(2) [OF l(1) p] by (rule refl)
  qed
  have outs: "map2 (\<lambda>(q, k) (v, b, mm). map2 (\<lambda>(q1, k1) (v1, b1).
                   map2 (\<lambda>x r. attend_scores (fl_softmax lib) d (falcon_scores lib d x k1 b1) (map Not r) v1) q1 mm) (zip q k) (zip v b))
                 (zip (map (\<lambda>b. map (\<lambda>h. map (Q (b * H + h)) [0..<T]) [0..<H]) [0..<B]) (map (\<lambda>b. map (\<lambda>h. Kt (b * H + h)) [0..<H]) [0..<B]))
                 (zip (map (\<lambda>b. map (\<lambda>h. Vt (b * H + h)) [0..<H]) [0..<B])
                    (zip (map (\<lambda>b. map (\<lambda>h. if ab then Some (map (al ((b * H + h) mod H)) [0..<m + T]) else None) [0..<H]) [0..<B]) (map (\<lambda>b. map ?row [0..<T]) [0..<B]))) =
      map (\<lambda>b. map (\<lambda>h. map (?A b h) [0..<T]) [0..<H]) [0..<B]"
    unfolding zip_tables map_map comp_def prod.case by (intro map_cong refl) (rule att [unfolded map_map comp_def], simp_all)
  have wlen: "length (?A b h t) = d" if "b < B" "h < H" for b h t
    using len row_index [OF that(2,1)] by (intro length_weighted_sum) (auto dest: in_set_takeD)
  have cat: "length (concat (map (\<lambda>h. ?A b h t) [0..<H])) = H * d" if "b < B" for b t
  proof -
    have "map length (map (\<lambda>h. ?A b h t) [0..<H]) = map (\<lambda>_. d) [0..<H]" by (auto simp: wlen [OF that])
    then show ?thesis unfolding length_concat by (simp add: sum_list_replicate map_replicate_const)
  qed
  have merged: "mapR (merge_heads T (H * d)) (map (\<lambda>b. map (\<lambda>h. map (?A b h) [0..<T]) [0..<H]) [0..<B]) =
      Inr (map (\<lambda>heads. map (\<lambda>t. concat (map (\<lambda>h. h ! t) heads)) [0..<T]) (map (\<lambda>b. map (\<lambda>h. map (?A b h) [0..<T]) [0..<H]) [0..<B]))"
  proof (rule mapR_total, rule merge_heads_ok)
    fix heads t assume "heads \<in> set (map (\<lambda>b. map (\<lambda>h. map (?A b h) [0..<T]) [0..<H]) [0..<B])" "t < T"
    then obtain b where "b < B" "heads = map (\<lambda>h. map (?A b h) [0..<T]) [0..<H]" by auto
    with \<open>t < T\<close> have "map (\<lambda>h. h ! t) heads = map (\<lambda>h. ?A b h t) [0..<H]" by simp
    then show "length (concat (map (\<lambda>h. h ! t) heads)) = H * d" using cat [OF \<open>b < B\<close>] by presburger
  qed
  have merged': "map (\<lambda>heads. map (\<lambda>t. concat (map (\<lambda>h. h ! t) heads)) [0..<T]) (map (\<lambda>b. map (\<lambda>h. map (?A b h) [0..<T]) [0..<H]) [0..<B]) =
      map (\<lambda>b. map (\<lambda>t. concat (map (\<lambda>h. ?A b h t) [0..<H])) [0..<T]) [0..<B]"
    unfolding map_map comp_def by (intro map_cong refl arg_cong [where f = concat] nth_table)
  have proj: "mapR (mapR (linear_forward (fy_dense layer))) (map (\<lambda>b. map (\<lambda>t. concat (map (\<lambda>h. ?A b h t) [0..<H])) [0..<T]) [0..<B]) =
      Inr (map (map (lin (fy_dense layer))) (map (\<lambda>b. map (\<lambda>t. concat (map (\<lambda>h. ?A b h t) [0..<H])) [0..<T]) [0..<B]))"
    using cat by (intro mapR_total) (auto intro!: linear_ok [OF dense] simp del: upt_Suc length_concat)
  show ?thesis
    unfolding falcon_attend_def Let_def H_def [symmetric] d_def [symmetric] biases regroup_rows mask outs merged merged' bindR_simps proj
    by (simp add: comp_def del: upt_Suc)
qed

text \<open>The first part of the attention: the rows of queries, keys and values before the rotary embedding.\<close>

lemma to_rows_ok:
  assumes "0 < H" and "\<And>b t. b < B \<Longrightarrow> t < T \<Longrightarrow> length (f b t) = H"
  shows "to_rows H (map (\<lambda>b. map (f b) [0..<T]) [0..<B]) = Inr (map (\<lambda>r. map (\<lambda>t. f (r div H) t ! (r mod H)) [0..<T]) [0..<B * H])"
proof -
  have "map (\<lambda>seq. map (\<lambda>h. map (\<lambda>hs. hs ! h) seq) [0..<H]) (map (\<lambda>b. map (f b) [0..<T]) [0..<B]) =
      map (\<lambda>b. map (\<lambda>h. map (\<lambda>t. f b t ! h) [0..<T]) [0..<H]) [0..<B]" by (simp add: comp_def)
  then show ?thesis using assms unfolding to_rows_def by (simp del: map_map add: concat_rows [OF assms(1), of "\<lambda>b h. map (\<lambda>t. f b t ! h) [0..<T]"])
qed

lemma rotary_rows:
  assumes st: "rotary_cache_ok lib st" and c: "fc_rotary c"
  shows "\<exists>st'. rotary_forward lib False st (map (\<lambda>r. map (q r) [0..<T]) [0..<n], map (\<lambda>r. map (k r) [0..<T]) [0..<n]) T m =
    (Inr (map (\<lambda>r. map (\<lambda>t. falcon_rotate lib c (m + t) (q r t)) [0..<T]) [0..<n], map (\<lambda>r. map (\<lambda>t. falcon_rotate lib c (m + t) (k r t)) [0..<T]) [0..<n]), st') \<and>
    rotary_cache_ok lib st'"
proof -
  obtain cs st' where cs: "cos_sin lib T m st = (cs, st')" by (cases "cos_sin lib T m st")
  then have cs': "cs = map (\<lambda>t. fl_angles lib (m + t)) [0..<T]" "rotary_cache_ok lib st'" using cos_sin_ok [OF st, of T m] by simp_all
  have rot: "map2 (apply_rotary_vec (fl_rotate_half lib)) (map x [0..<T]) cs = map (\<lambda>t. falcon_rotate lib c (m + t) (x t)) [0..<T]" for x
    unfolding cs'(1) zip_tables map_map comp_def prod.case falcon_rotate_def using c by simp
  have "rotary_forward lib False st (map (\<lambda>r. map (q r) [0..<T]) [0..<n], map (\<lambda>r. map (k r) [0..<T]) [0..<n]) T m =
    (Inr (map (\<lambda>r. map (\<lambda>t. falcon_rotate lib c (m + t) (q r t)) [0..<T]) [0..<n], map (\<lambda>r. map (\<lambda>t. falcon_rotate lib c (m + t) (k r t)) [0..<T]) [0..<n]), st')"
    unfolding rotary_forward_def cs prod.case Let_def fst_conv snd_conv zip_tables map_map comp_def apply_rotary_def rot by simp
  with cs'(2) show ?thesis by blast
qed

lemma falcon_rotated:
  assumes "rotary_cache_ok lib st"
  obtains st' where "(if fc_rotary c then rotary_forward lib False st (map (\<lambda>r. map (q r) [0..<T]) [0..<n], map (\<lambda>r. map (k r) [0..<T]) [0..<n]) T m
      else (Inr (map (\<lambda>r. map (q r) [0..<T]) [0..<n], map (\<lambda>r. map (k r) [0..<T]) [0..<n]), st)) =
    (Inr (map (\<lambda>r. map (\<lambda>t. falcon_rotate lib c (m + t) (q r t)) [0..<T]) [0..<n], map (\<lambda>r. map (\<lambda>t. falcon_rotate lib c (m + t) (k r t)) [0..<T]) [0..<n]), st')"
    "rotary_cache_ok lib st'"
proof (cases "fc_rotary c")
  case True
  with rotary_rows [OF assms True, of q T n k m] that show thesis by auto
next
  case False
  with that [of st] assms show thesis by (simp add: falcon_rotate_def)
qed

text \<open>Row \<open>r\<close> of the queries, keys or values, of all sequences and heads, at token \<open>t\<close>.\<close>

definition falcon_part ::
    "falcon_lib \<Rightarrow> falcon_layer \<Rightarrow> vec list list \<Rightarrow> (vec list \<times> vec list \<times> vec list \<Rightarrow> vec list) \<Rightarrow> nat \<Rightarrow> nat \<Rightarrow> vec" where
  "falcon_part lib layer hs part r t =
     (let H = fc_num_attention_heads (fy_config layer) in part (falcon_qkv lib layer (hs ! t ! (r div H))) ! (r mod H))"

lemma falcon_projected:
  fixes lib layer hs B
  defines "c \<equiv> fy_config layer"
  defines "H \<equiv> fc_num_attention_heads c" and "T \<equiv> length hs"
  defines "nf \<equiv> (if fc_new_decoder_architecture c then fy_ln_attn layer else fy_input_layernorm layer)"
    and "rows \<equiv> \<lambda>part. map (\<lambda>r. map (falcon_part lib layer hs part r) [0..<T]) [0..<B * H]"
  assumes sizes: "falcon_sizes lib layer" and tok: "\<forall>t < T. token_shape B (fc_hidden_size c) (hs ! t)"
  obtains fused where "mapR (mapR (linear_forward (fy_query_key_value layer))) (map (\<lambda>b. map (\<lambda>t. nf (hs ! t ! b)) [0..<T]) [0..<B]) = Inr fused"
    "bindR (mapR (mapR (\<lambda>x. x)) (map (map (falcon_split lib c)) fused)) (\<lambda>qkv.
       bindR (to_rows H (map (map fst) qkv)) (\<lambda>q. bindR (to_rows H (map (map (fst \<circ> snd)) qkv)) (\<lambda>k.
       bindR (to_rows H (map (map (snd \<circ> snd)) qkv)) (\<lambda>v. Inr (q, k, v))))) =
     Inr (rows fst, rows (fst \<circ> snd), rows (snd \<circ> snd))"
proof -
  have H: "0 < H" using sizes unfolding falcon_sizes_def Let_def c_def H_def by auto
  obtain w where w: "linear_shape (fy_query_key_value layer) (fc_hidden_size c) w"
    and nf: "\<forall>x. length x = fc_hidden_size c \<longrightarrow> length (nf x) = fc_hidden_size c"
    using sizes unfolding falcon_sizes_def Let_def c_def [symmetric] nf_def by auto
  have y: "length (hs ! t ! b) = fc_hidden_size c" if "t < T" "b < B" for t b using tok that by (simp add: token_shape_def)
  define u where "u = (\<lambda>b t. lin (fy_query_key_value layer) (nf (hs ! t ! b)))"
  define p where "p = (\<lambda>b t. falcon_qkv lib layer (hs ! t ! b))"
  have s: "falcon_split lib c (u b t) = Inr (p b t)" "length (fst (p b t)) = H" "length (fst (snd (p b t))) = H" "length (snd (snd (p b t))) = H"
    if "b < B" "t < T" for b t
  proof -
    have "(if fc_new_decoder_architecture c then fy_ln_attn layer x else fy_input_layernorm layer x) = nf x" for x by (simp add: nf_def)
    from qkv_ok [OF sizes, unfolded c_def [symmetric], OF y [OF that(2,1)], unfolded this] obtain q k v
      where "falcon_split lib c (u b t) = Inr (q, k, v)" "p b t = (q, k, v)" "length q = H" "length k = H" "length v = H"
      unfolding u_def p_def H_def by blast
    then show "falcon_split lib c (u b t) = Inr (p b t)" "length (fst (p b t)) = H" "length (fst (snd (p b t))) = H" "length (snd (snd (p b t))) = H"
      by simp_all
  qed
  have fused: "mapR (mapR (linear_forward (fy_query_key_value layer))) (map (\<lambda>b. map (\<lambda>t. nf (hs ! t ! b)) [0..<T]) [0..<B]) = Inr (map (\<lambda>b. map (u b) [0..<T]) [0..<B])"
  proof -
    have "mapR (mapR (linear_forward (fy_query_key_value layer))) (map (\<lambda>b. map (\<lambda>t. nf (hs ! t ! b)) [0..<T]) [0..<B]) =
        Inr (map (map (lin (fy_query_key_value layer))) (map (\<lambda>b. map (\<lambda>t. nf (hs ! t ! b)) [0..<T]) [0..<B]))"
      using y nf by (intro mapR_total) (auto intro!: linear_ok [OF w])
    then show ?thesis by (simp add: comp_def u_def)
  qed
  have splits: "mapR (mapR (\<lambda>x. x)) (map (map (falcon_split lib c)) (map (\<lambda>b. map (u b) [0..<T]) [0..<B])) = Inr (map (\<lambda>b. map (p b) [0..<T]) [0..<B])"
  proof -
    have e: "map (map (falcon_split lib c)) (map (\<lambda>b. map (u b) [0..<T]) [0..<B]) = map (map Inr) (map (\<lambda>b. map (p b) [0..<T]) [0..<B])"
      unfolding map_map comp_def by (intro map_cong refl) (simp add: s(1))
    have "mapR (\<lambda>x. x) (map Inr xs) = Inr xs" for xs :: "(vec list \<times> vec list \<times> vec list) list" by (induction xs) simp_all
    then have "mapR (mapR (\<lambda>x. x)) (map (map Inr) xss) = Inr xss" for xss :: "(vec list \<times> vec list \<times> vec list) list list" by (induction xss) simp_all
    then show ?thesis unfolding e .
  qed
  have rows: "to_rows H (map (map part) (map (\<lambda>b. map (p b) [0..<T]) [0..<B])) = Inr (rows part)"
    if "part = fst \<or> part = fst \<circ> snd \<or> part = snd \<circ> snd" for part
  proof -
    have "length (part (p b t)) = H" if "b < B" "t < T" for b t using s(2-4) [OF that] \<open>part = fst \<or> _\<close> by auto
    then show ?thesis
      using to_rows_ok [OF H, of B T "\<lambda>b t. part (p b t)"]
      unfolding rows_def falcon_part_def Let_def H_def c_def p_def by (simp add: comp_def)
  qed
  show thesis by (rule that [OF fused]) (simp add: splits rows del: map_map)
qed

lemma falcon_expand:
  "length rows = B * K \<Longrightarrow> concat (map (replicate R) rows) = map (\<lambda>r. rows ! (r div R)) [0..<B * (K * R)]" for rows :: "vec list list"
  using expand_table [of rows "B * K" R] by (simp add: mult.assoc)

text \<open>The keys and values of all heads, after the new ones are appended, are the extended caches, expanded.\<close>

lemma falcon_extended:
  fixes lib layer hs pk pv m B
  defines "c \<equiv> fy_config layer"
  defines "H \<equiv> fc_num_attention_heads c" and "T \<equiv> length hs" and "R \<equiv> kv_repeat c" and "K \<equiv> kv_heads c"
  defines "E \<equiv> extend_kvs (falcon_row lib layer) m hs [pk, pv]"
  assumes sizes: "falcon_sizes lib layer" and tok: "\<forall>t < T. token_shape B (fc_hidden_size c) (hs ! t)"
    and len: "length pk = B * K" "length pv = B * K"
  shows "map2 (@) (concat (map (replicate R) pk)) (map (\<lambda>r. map (\<lambda>t. falcon_rotate lib c (m + t) (falcon_part lib layer hs (fst \<circ> snd) r t)) [0..<T]) [0..<B * H]) =
      concat (map (replicate R) (E ! 0))"
    and "map2 (@) (concat (map (replicate R) pv)) (map (\<lambda>r. map (falcon_part lib layer hs (snd \<circ> snd) r) [0..<T]) [0..<B * H]) = concat (map (replicate R) (E ! 1))"
proof -
  have HK: "H = K * R" "0 < K" "0 < R" "0 < H" using sizes unfolding falcon_sizes_def Let_def c_def H_def K_def R_def by auto
  have lE: "length (E ! 0) = B * K" "length (E ! 1) = B * K" using len by (simp_all add: E_def extend_kvs_nth)
  have r: "r div R < B * K" "r div H < B" "r mod H < H" "r div R div K = r div H" "r div R mod K * R = r mod H div R * R" if "r < B * H" for r
  proof -
    show "r div R < B * K" using that by (simp add: HK(1) less_mult_imp_div_less mult.assoc [symmetric])
    show "r div H < B" "r mod H < H" using that HK(4) by (simp_all add: less_mult_imp_div_less)
    show "r div R div K = r div H" by (simp only: HK(1) mult.commute [of K R] div_mult2_eq)
    have "r div R mod K = r mod H div R" using HK(3) by (simp add: HK(1) mult.commute [of K R] mod_mult2_eq)
    then show "r div R mod K * R = r mod H div R * R" by simp
  qed
  have row: "falcon_row lib layer 0 (r div R) (m + t) (hs ! t) = falcon_rotate lib c (m + t) (falcon_part lib layer hs (fst \<circ> snd) r t)"
    "falcon_row lib layer 1 (r div R) (m + t) (hs ! t) = falcon_part lib layer hs (snd \<circ> snd) r t" if "r < B * H" "t < T" for r t
  proof -
    have "length (hs ! t ! (r div H)) = fc_hidden_size c" using tok r(2) [OF that(1)] that(2) by (simp add: token_shape_def)
    from qkv_ok [OF sizes this [unfolded c_def]] obtain q k v where p: "falcon_qkv lib layer (hs ! t ! (r div H)) = (q, k, v)"
      "\<forall>h < H. k ! h = k ! (h div R * R) \<and> v ! h = v ! (h div R * R)" unfolding H_def c_def R_def by blast
    have kv: "k ! (r mod H) = k ! (r mod H div R * R)" "v ! (r mod H) = v ! (r mod H div R * R)" using p(2) r(3) [OF that(1)] by blast+
    have "falcon_part lib layer hs (fst \<circ> snd) r t = k ! (r mod H)" "falcon_part lib layer hs (snd \<circ> snd) r t = v ! (r mod H)"
      using p(1) by (simp_all add: falcon_part_def Let_def H_def c_def)
    then show "falcon_row lib layer 0 (r div R) (m + t) (hs ! t) = falcon_rotate lib c (m + t) (falcon_part lib layer hs (fst \<circ> snd) r t)"
      "falcon_row lib layer 1 (r div R) (m + t) (hs ! t) = falcon_part lib layer hs (snd \<circ> snd) r t"
      unfolding falcon_row_def Let_def c_def [symmetric] K_def [symmetric] R_def [symmetric] r(4,5) [OF that(1)] p(1) prod.case by (simp_all add: kv)
  qed
  have E: "E ! i ! j = [pk, pv] ! i ! j @ map (\<lambda>t. falcon_row lib layer i j (m + t) (hs ! t)) [0..<T]" if "i < 2" "j < B * K" for i j
    using that len extend_kvs_nth(2) [of i "[pk, pv]" j "falcon_row lib layer" m hs] by (auto simp: E_def T_def less_2_cases_iff)
  have "pk ! (r div R) @ map (\<lambda>t. falcon_rotate lib c (m + t) (falcon_part lib layer hs (fst \<circ> snd) r t)) [0..<T] = E ! 0 ! (r div R)"
    "pv ! (r div R) @ map (falcon_part lib layer hs (snd \<circ> snd) r) [0..<T] = E ! 1 ! (r div R)" if "r < B * H" for r
    using E [of 0 "r div R"] E [of 1 "r div R"] r(1) [OF that] row [OF that] by (simp_all cong: map_cong)
  then show "map2 (@) (concat (map (replicate R) pk)) (map (\<lambda>r. map (\<lambda>t. falcon_rotate lib c (m + t) (falcon_part lib layer hs (fst \<circ> snd) r t)) [0..<T]) [0..<B * H]) =
      concat (map (replicate R) (E ! 0))"
    "map2 (@) (concat (map (replicate R) pv)) (map (\<lambda>r. map (falcon_part lib layer hs (snd \<circ> snd) r) [0..<T]) [0..<B * H]) = concat (map (replicate R) (E ! 1))"
    unfolding falcon_expand [OF len(1)] falcon_expand [OF len(2)] falcon_expand [OF lE(1)] falcon_expand [OF lE(2)] HK(1) [symmetric]
      zip_tables map_map comp_def prod.case by simp_all
qed

lemma falcon_attended:
  fixes lib layer hs m B and E :: "vec kv list"
  defines "c \<equiv> fy_config layer"
  defines "H \<equiv> fc_num_attention_heads c" and "d \<equiv> falcon_head_dim c" and "T \<equiv> length hs" and "R \<equiv> kv_repeat c" and "K \<equiv> kv_heads c"
  assumes lib: "falcon_lib_ok lib c al" and sizes: "falcon_sizes lib layer" and E: "fitting (\<lambda>v. length v = d) [B * K, B * K] (m + T) E"
  shows "falcon_attend lib layer B T (if fc_alibi c then Some (map (\<lambda>r. map (al (r mod H)) [0..<m + T]) [0..<B * H]) else None)
      (replicate B (map (\<lambda>t. map (\<lambda>j. \<not> j \<le> m + t) [0..<m + T]) [0..<T]))
      (map (\<lambda>r. map (\<lambda>t. falcon_rotate lib c (m + t) (falcon_part lib layer hs fst r t)) [0..<T]) [0..<B * H])
      (concat (map (replicate R) (E ! 0))) (concat (map (replicate R) (E ! 1))) =
    Inr (map (\<lambda>b. map (\<lambda>t. lin (fy_dense layer) (concat (map (falcon_head lib layer al (m + t) (hs ! t ! b) (cut_kvs (Suc (m + t)) E) b) [0..<H]))) [0..<T]) [0..<B])"
proof -
  have HK: "H = K * R" "0 < K" "0 < R" "0 < H" "linear_shape (fy_dense layer) (H * d) (H * d)"
    using sizes unfolding falcon_sizes_def Let_def c_def H_def K_def R_def d_def by auto
  have sm: "masking_softmax (fl_softmax lib)" using lib by (simp add: falcon_lib_ok_def)
  have lE: "length E = 2" "length (E ! 0) = B * K" "length (E ! 1) = B * K"
    and rows: "\<forall>i < 2. \<forall>j < B * K. length (E ! i ! j) = m + T \<and> (\<forall>x \<in> set (E ! i ! j). length x = d)"
    using E unfolding fitting_rows by (auto simp: in_set_conv_nth less_2_cases_iff)
  let ?Q = "\<lambda>r t. falcon_rotate lib c (m + t) (falcon_part lib layer hs fst r t)" and ?K = "\<lambda>r. E ! 0 ! (r div R)" and ?V = "\<lambda>r. E ! 1 ! (r div R)"
  have len: "\<forall>r < B * H. length (?K r) = m + T \<and> length (?V r) = m + T \<and> (\<forall>x \<in> set (?V r). length x = d)"
  proof (intro allI impI)
    fix r assume "r < B * H"
    then have "r div R < B * K" by (simp add: HK(1) less_mult_imp_div_less mult.assoc [symmetric])
    then show "length (?K r) = m + T \<and> length (?V r) = m + T \<and> (\<forall>x \<in> set (?V r). length x = d)"
      using rows [THEN spec, of 0] rows [THEN spec, of 1] by simp
  qed
  have head: "weighted_sum d (fl_softmax lib (map Some (falcon_scores lib d (?Q (b * H + h) t) (take (Suc (m + t)) (?K (b * H + h)))
        (if fc_alibi c then Some (map (al h) [0..<Suc (m + t)]) else None)))) (take (Suc (m + t)) (?V (b * H + h))) =
      falcon_head lib layer al (m + t) (hs ! t ! b) (cut_kvs (Suc (m + t)) E) b h" if "b < B" "h < H" "t < T" for b h t
  proof -
    have "(b * H + h) div R = b * K + h div R"
    proof -
      have "(b * K * R + h) div R = b * K + h div R" using HK(3) by simp
      moreover have "b * H = b * K * R" by (simp only: HK(1) mult.assoc)
      ultimately show ?thesis by (simp only:)
    qed
    moreover have "b * K + h div R < B * K" using that(1,2) by (intro row_index) (simp_all add: HK(1) less_mult_imp_div_less)
    moreover have "(b * H + h) div H = b" "(b * H + h) mod H = h" using that(2) by simp_all
    ultimately show ?thesis
      unfolding falcon_head_def falcon_part_def Let_def c_def [symmetric] H_def [symmetric] d_def [symmetric] K_def [symmetric] R_def [symmetric]
      using lE by (simp add: cut_kvs_def)
  qed
  note falcon_attend_ok [OF sm HK(5) [unfolded H_def d_def c_def] len [unfolded H_def d_def c_def], folded c_def, folded H_def d_def, of "fc_alibi c" al ?Q]
  moreover have "map (\<lambda>b. map (\<lambda>t. lin (fy_dense layer) (concat (map (\<lambda>h. weighted_sum d (fl_softmax lib (map Some (falcon_scores lib d (?Q (b * H + h) t) (take (Suc (m + t)) (?K (b * H + h)))
      (if fc_alibi c then Some (map (al h) [0..<Suc (m + t)]) else None)))) (take (Suc (m + t)) (?V (b * H + h)))) [0..<H]))) [0..<T]) [0..<B] =
      map (\<lambda>b. map (\<lambda>t. lin (fy_dense layer) (concat (map (falcon_head lib layer al (m + t) (hs ! t ! b) (cut_kvs (Suc (m + t)) E) b) [0..<H]))) [0..<T]) [0..<B]"
    by (intro map_cong refl arg_cong [where f = "lin _"] arg_cong [where f = concat]) (rule head, simp_all)
  ultimately show ?thesis unfolding falcon_expand [OF lE(2)] falcon_expand [OF lE(3)] HK(1) [symmetric] by simp
qed

lemma falcon_attention_ok:
  fixes lib layer hs pk pv m B
  defines "c \<equiv> fy_config layer"
  defines "H \<equiv> fc_num_attention_heads c" and "d \<equiv> falcon_head_dim c" and "T \<equiv> length hs" and "R \<equiv> kv_repeat c" and "K \<equiv> kv_heads c"
  defines "nf \<equiv> (if fc_new_decoder_architecture c then fy_ln_attn layer else fy_input_layernorm layer)"
    and "E \<equiv> extend_kvs (falcon_row lib layer) m hs [pk, pv]"
  assumes lib: "falcon_lib_ok lib c al" and sizes: "falcon_sizes lib layer" and B: "0 < B" and T: "0 < T"
    and tok: "\<forall>t < T. token_shape B (fc_hidden_size c) (hs ! t)"
    and past: "fitting (\<lambda>v. length v = d) [B * K, B * K] m [pk, pv]" and E: "fitting (\<lambda>v. length v = d) [B * K, B * K] (m + T) E"
    and st: "rotary_cache_ok lib st"
  shows "\<exists>st'. falcon_attention lib layer False st (map (\<lambda>b. map (\<lambda>t. nf (hs ! t ! b)) [0..<T]) [0..<B])
        (if fc_alibi c then Some (map (\<lambda>r. map (al (r mod H)) [0..<m + T]) [0..<B * H]) else None)
        (replicate B (map (\<lambda>t. map (\<lambda>j. \<not> j \<le> m + t) [0..<m + T]) [0..<T]))
        (Some (concat (map (replicate R) pk), concat (map (replicate R) pv))) True =
      (Inr (map (\<lambda>b. map (\<lambda>t. lin (fy_dense layer) (concat (map (falcon_head lib layer al (m + t) (hs ! t ! b) (cut_kvs (Suc (m + t)) E) b) [0..<H]))) [0..<T]) [0..<B],
            Some (concat (map (replicate R) (E ! 0)), concat (map (replicate R) (E ! 1)))), st') \<and> rotary_cache_ok lib st'"
proof -
  have HK: "H = K * R" "0 < K" "0 < R" using sizes unfolding falcon_sizes_def Let_def c_def H_def K_def R_def by auto
  have lp: "length pk = B * K" "length pv = B * K" "\<forall>r \<in> set pk. length r = m" using past by (auto elim: fitting_two)
  let ?rows = "\<lambda>part. map (\<lambda>r. map (falcon_part lib layer hs part r) [0..<T]) [0..<B * H]"
  let ?rot = "\<lambda>part. map (\<lambda>r. map (\<lambda>t. falcon_rotate lib c (m + t) (falcon_part lib layer hs part r t)) [0..<T]) [0..<B * H]"
  obtain fused where fused: "mapR (mapR (linear_forward (fy_query_key_value layer))) (map (\<lambda>b. map (\<lambda>t. nf (hs ! t ! b)) [0..<T]) [0..<B]) = Inr fused"
    "bindR (mapR (mapR (\<lambda>x. x)) (map (map (falcon_split lib c)) fused)) (\<lambda>qkv.
       bindR (to_rows H (map (map fst) qkv)) (\<lambda>q. bindR (to_rows H (map (map (fst \<circ> snd)) qkv)) (\<lambda>k.
       bindR (to_rows H (map (map (snd \<circ> snd)) qkv)) (\<lambda>v. Inr (q, k, v))))) = Inr (?rows fst, ?rows (fst \<circ> snd), ?rows (snd \<circ> snd))"
    unfolding nf_def H_def c_def T_def by (rule falcon_projected [OF sizes tok [unfolded T_def c_def]])
  obtain st' where rotated: "(if fc_rotary c then rotary_forward lib False st (?rows fst, ?rows (fst \<circ> snd)) T m else (Inr (?rows fst, ?rows (fst \<circ> snd)), st)) =
      (Inr (?rot fst, ?rot (fst \<circ> snd)), st')" "rotary_cache_ok lib st'"
    by (rule falcon_rotated [OF st])
  note ext = falcon_extended [OF sizes tok [unfolded T_def c_def] lp(1,2) [unfolded K_def c_def], of m, folded c_def, folded H_def R_def T_def E_def]
  note attended = falcon_attended [OF lib [unfolded c_def] sizes E [unfolded d_def K_def c_def T_def], folded c_def, folded H_def R_def T_def]
  have dims: "length (map (\<lambda>b. map (\<lambda>t. nf (hs ! t ! b)) [0..<T]) [0..<B]) = B" "length (hd (map (\<lambda>b. map (\<lambda>t. nf (hs ! t ! b)) [0..<T]) [0..<B])) = T"
    using B by (simp_all add: hd_map)
  have plen: "length (hd (concat (map (replicate R) pk))) = m"
  proof -
    have "0 < B * (K * R)" "0 < B * K" using B HK by simp_all
    then show ?thesis unfolding falcon_expand [OF lp(1)] using lp(1,3) by (simp add: hd_map del: mult_is_0)
  qed
  have lens: "length (concat (map (replicate R) pk)) = length (?rot (fst \<circ> snd))" "length (concat (map (replicate R) pv)) = length (?rows (snd \<circ> snd))"
    unfolding falcon_expand [OF lp(1)] falcon_expand [OF lp(2)] HK(1) [symmetric] by simp_all
  have st1: "st\<lparr>fs_split_graph := fs_split_graph st\<rparr> = st" by simp
  show ?thesis
    unfolding falcon_attention_def Let_def dims c_def [symmetric] H_def [symmetric] fused sum.case if_False simp_thms prod.case bindR_simps st1
      option.case plen rotated(1) lens ext guardR_simps attended if_True
    using rotated(2) by blast
qed

subsection \<open>The block is causal\<close>

lemma residual_tables:
  assumes "\<And>b t. b < B \<Longrightarrow> t < T \<Longrightarrow> length (f b t :: vec) = length (g b t :: vec)"
  shows "add_residual (map (\<lambda>b. map (f b) [0..<T]) [0..<B]) (map (\<lambda>b. map (g b) [0..<T]) [0..<B]) = Inr (map (\<lambda>b. map (\<lambda>t. vadd (f b t) (g b t)) [0..<T]) [0..<B])"
proof -
  have "add_residual (map (\<lambda>b. map (f b) [0..<T]) [0..<B]) (map (\<lambda>b. map (g b) [0..<T]) [0..<B]) =
      Inr (map2 (map2 vadd) (map (\<lambda>b. map (f b) [0..<T]) [0..<B]) (map (\<lambda>b. map (g b) [0..<T]) [0..<B]))"
    using assms by (intro add_residual_ok) simp
  then show ?thesis unfolding zip_tables map_map comp_def prod.case .
qed

lemma falcon_layer_ok:
  fixes lib layer hs B m
  defines "c \<equiv> fy_config layer"
  defines "H \<equiv> fc_num_attention_heads c" and "T \<equiv> length hs" and "D \<equiv> fc_hidden_size c"
  defines "nf \<equiv> (if fc_new_decoder_architecture c then fy_ln_attn layer else fy_input_layernorm layer)"
  assumes sizes: "falcon_sizes lib layer"
    and tok: "\<forall>t < T. token_shape B D (hs ! t)"
    and attn: "falcon_attention lib layer False st (map (\<lambda>b. map (\<lambda>t. nf (hs ! t ! b)) [0..<T]) [0..<B]) al mk past True = (Inr (map (\<lambda>b. map (A b) [0..<T]) [0..<B], present), st')"
    and A: "\<And>b t. b < B \<Longrightarrow> t < T \<Longrightarrow> length (A b t) = D"
  shows "falcon_layer_forward lib layer False st (map (\<lambda>b. map (\<lambda>t. hs ! t ! b) [0..<T]) [0..<B]) al mk past True =
    (Inr (map (\<lambda>b. map (\<lambda>t. let y = hs ! t ! b in
        if fc_new_decoder_architecture c then vadd (vadd (fy_mlp layer (fy_ln_mlp layer y)) (A b t)) y
        else if fc_parallel_attn c then vadd (vadd (fy_mlp layer (fy_input_layernorm layer y)) (A b t)) y
        else vadd (fy_mlp layer (fy_post_attention_layernorm layer (vadd (A b t) y))) (vadd (A b t) y)) [0..<T]) [0..<B], present), st')"
proof -
  have y: "length (hs ! t ! b) = D" if "b < B" "t < T" for t b using tok that by (simp add: token_shape_def)
  have sz: "length (fy_ln_mlp layer x) = D" "length (fy_input_layernorm layer x) = D" "length (fy_post_attention_layernorm layer x) = D" "length (fy_mlp layer x) = D"
    if "length x = D" for x using sizes that unfolding falcon_sizes_def Let_def D_def c_def by blast+
  note res = residual_tables [where B = B and T = T]
  show ?thesis
  proof (cases "fc_new_decoder_architecture c")
    case True
    then have nf: "nf = fy_ln_attn layer" by (simp add: nf_def)
    show ?thesis
      using True unfolding falcon_layer_forward_def falcon_norms_def Let_def c_def [symmetric]
      by (simp add: attn [unfolded nf] comp_def res y sz A)
  next
    case False
    then have nf: "nf = fy_input_layernorm layer" by (simp add: nf_def)
    show ?thesis
      using False unfolding falcon_layer_forward_def falcon_norms_def Let_def c_def [symmetric]
      by (cases "fc_parallel_attn c") (simp_all add: attn [unfolded nf] comp_def res y sz A)
  qed
qed

lemma falcon_row_length:
  assumes lib: "falcon_lib_ok lib (fy_config layer) al" and sizes: "falcon_sizes lib layer" and j: "j < B * kv_heads (fy_config layer)"
    and x: "token_shape B (fc_hidden_size (fy_config layer)) x"
  shows "length (falcon_row lib layer i j p x) = falcon_head_dim (fy_config layer)"
proof -
  let ?c = "fy_config layer"
  have HK: "fc_num_attention_heads ?c = kv_heads ?c * kv_repeat ?c" "0 < kv_heads ?c" "0 < kv_repeat ?c"
    using sizes unfolding falcon_sizes_def Let_def by blast+
  have "j div kv_heads ?c < B" using j by (simp add: less_mult_imp_div_less)
  then have y: "length (x ! (j div kv_heads ?c)) = fc_hidden_size ?c" using x by (simp add: token_shape_def)
  have h: "j mod kv_heads ?c * kv_repeat ?c < fc_num_attention_heads ?c" using HK by simp
  obtain q k v where f: "falcon_qkv lib layer (x ! (j div kv_heads ?c)) = (q, k, v)"
    "length (k ! (j mod kv_heads ?c * kv_repeat ?c)) = falcon_head_dim ?c" "length (v ! (j mod kv_heads ?c * kv_repeat ?c)) = falcon_head_dim ?c"
    using qkv_ok [OF sizes y] h by blast
  have "length (falcon_rotate lib ?c p z) = falcon_head_dim ?c" if "length z = falcon_head_dim ?c" for z
    using lib that unfolding falcon_lib_ok_def falcon_rotate_def apply_rotary_vec_def by (cases "fl_angles lib p") (auto, metis fst_conv min.idem snd_conv)
  then show ?thesis unfolding falcon_row_def Let_def f(1) prod.case using f(2,3) by simp
qed

lemma replicate_one: "concat (map (replicate (Suc 0)) xs) = xs"
  by (induction xs) auto

lemma falcon_reorder:
  fixes layer ks vs B
  defines "c \<equiv> fy_config layer"
  defines "K \<equiv> kv_heads c" and "R \<equiv> kv_repeat c"
  assumes sizes: "falcon_sizes lib layer" and len: "length ks = B * K" "length vs = B * K" "map length ks = map length vs"
  shows "reorder_cache_from_bloom_to_falcon c [ks, vs] = Inr (concat (map (replicate R) ks), concat (map (replicate R) vs))"
    and "reorder_cache_from_falcon_to_bloom c (concat (map (replicate R) ks), concat (map (replicate R) vs)) = Inr [ks, vs]"
proof -
  have HK: "fc_num_attention_heads c = K * R" "0 < K" "0 < R"
    using sizes unfolding falcon_sizes_def Let_def c_def [symmetric] K_def [symmetric] R_def [symmetric] by auto
  have "reorder_cache_from_bloom_to_falcon c [ks, vs] = Inr (concat (map (replicate R) ks), concat (map (replicate R) vs)) \<and>
      reorder_cache_from_falcon_to_bloom c (concat (map (replicate R) ks), concat (map (replicate R) vs)) = Inr [ks, vs]"
  proof (cases "fc_new_decoder_architecture c")
    case True
    then have k: "fc_num_kv_heads c = K" "R = fc_num_key_value_groups c" by (simp_all add: K_def R_def kv_heads_def kv_repeat_def)
    note both = expand_collapse [OF len(1) k(1) HK(1) [unfolded k(2)] HK(2) HK(3) [unfolded k(2)]]
      expand_collapse [OF len(2) k(1) HK(1) [unfolded k(2)] HK(2) HK(3) [unfolded k(2)]]
    show ?thesis
      using True both len(3) unfolding k(2) by (simp add: reorder_cache_from_bloom_to_falcon_def reorder_cache_from_falcon_to_bloom_def)
  next
    case False
    then show ?thesis
      using len(3) by (simp add: reorder_cache_from_bloom_to_falcon_def reorder_cache_from_falcon_to_bloom_def R_def kv_repeat_def replicate_one)
  qed
  then show "reorder_cache_from_bloom_to_falcon c [ks, vs] = Inr (concat (map (replicate R) ks), concat (map (replicate R) vs))"
    "reorder_cache_from_falcon_to_bloom c (concat (map (replicate R) ks), concat (map (replicate R) vs)) = Inr [ks, vs]" by simp_all
qed

lemma falcon_run:
  fixes lib layer hs past m B
  defines "c \<equiv> fy_config layer"
  defines "d \<equiv> falcon_head_dim c" and "K \<equiv> kv_heads c" and "E \<equiv> extend_kvs (falcon_row lib layer) m hs past"
  assumes lib: "falcon_lib_ok lib c al" and sizes: "falcon_sizes lib layer" and B: "0 < B" and st: "rotary_cache_ok lib st"
    and hs: "hs \<noteq> []" "list_all (token_shape B (fc_hidden_size c)) hs" and past: "fitting (\<lambda>v. length v = d) [B * K, B * K] m past"
  shows "falcon_block_forward lib layer st hs past = Inr (map (\<lambda>t. falcon_position lib layer al (m + t) (hs ! t) (cut_kvs (Suc (m + t)) E)) [0..<length hs], E)"
    and "rotary_cache_ok lib (snd (wrapped_falcon_forward lib layer False st (batch_first B hs) None None (Some past) True))"
proof -
  let ?T = "length hs" and ?R = "kv_repeat c" and ?H = "fc_num_attention_heads c"
  have HK: "?H = K * ?R" "0 < K" "0 < ?R" "0 < ?H" "linear_shape (fy_dense layer) (fc_hidden_size c) (fc_hidden_size c)"
    using sizes unfolding falcon_sizes_def Let_def c_def [symmetric] K_def [symmetric] by auto
  have T: "0 < ?T" and tok: "\<forall>t < ?T. token_shape B (fc_hidden_size c) (hs ! t)" using hs by (simp_all add: list_all_length)
  have l: "length past = 2" "\<And>i. i < 2 \<Longrightarrow> length (past ! i) = B * K \<and> (\<forall>j < B * K. length (past ! i ! j) = m)"
    using past unfolding fitting_rows by (auto simp: less_2_cases_iff)
  obtain pk pv where p: "past = [pk, pv]" using l(1) by (auto simp: numeral_2_eq_2 length_Suc_conv)
  have lp: "length pk = B * K" "length pv = B * K" "\<forall>j < B * K. length (pk ! j) = m" "\<forall>j < B * K. length (pv ! j) = m" using l(2) [of 0] l(2) [of 1] p by simp_all
  have fit: "fitting (\<lambda>v. length v = d) [B * K, B * K] (m + ?T) E"
    unfolding E_def using past hs(2)
  proof (rule extend_kvs_fitting)
    show "\<forall>i j p x. i < length [B * K, B * K] \<and> j < [B * K, B * K] ! i \<and> token_shape B (fc_hidden_size c) x \<longrightarrow> length (falcon_row lib layer i j p x) = d"
      using falcon_row_length [OF lib [unfolded c_def] sizes] by (auto simp: K_def c_def d_def less_Suc_eq)
  qed
  have E: "length E = 2" "length (E ! 0) = B * K" "length (E ! 1) = B * K" "map length (E ! 0) = map length (E ! 1)"
    using fit unfolding fitting_rows by (auto simp: list_eq_iff_nth_eq)
  then have E2: "E = [E ! 0, E ! 1]" by (auto simp: numeral_2_eq_2 length_Suc_conv)
  have "map length pk = map length pv" using lp by (simp add: list_eq_iff_nth_eq)
  then have reorder: "reorder_cache_from_bloom_to_falcon c past = Inr (concat (map (replicate ?R) pk), concat (map (replicate ?R) pv))"
    using falcon_reorder(1) [OF sizes lp(1,2) [unfolded K_def c_def], folded c_def] by (simp add: p)
  have collapse: "reorder_cache_from_falcon_to_bloom c (concat (map (replicate ?R) (E ! 0)), concat (map (replicate ?R) (E ! 1))) = Inr E"
    using falcon_reorder(2) [OF sizes E(2,3) [unfolded K_def c_def] E(4), folded c_def] E2 by simp
  have plen: "length (hd (concat (map (replicate ?R) pk))) = m"
  proof -
    have "0 < B * K * ?R" "0 < B * K" using B HK by simp_all
    then show ?thesis unfolding expand_table [OF lp(1)] using lp(3) by (simp add: hd_map del: mult_is_0)
  qed
  let ?A = "\<lambda>b t. lin (fy_dense layer) (concat (map (falcon_head lib layer al (m + t) (hs ! t ! b) (cut_kvs (Suc (m + t)) E) b) [0..<?H]))"
  let ?f = "\<lambda>b t. let y = hs ! t ! b in
        if fc_new_decoder_architecture c then vadd (vadd (fy_mlp layer (fy_ln_mlp layer y)) (?A b t)) y
        else if fc_parallel_attn c then vadd (vadd (fy_mlp layer (fy_input_layernorm layer y)) (?A b t)) y
        else vadd (fy_mlp layer (fy_post_attention_layernorm layer (vadd (?A b t) y))) (vadd (?A b t) y)"
  let ?al = "if fc_alibi c then Some (map (\<lambda>r. map (al (r mod ?H)) [0..<m + ?T]) [0..<B * ?H]) else None"
  let ?mk = "replicate B (map (\<lambda>t. map (\<lambda>j. \<not> j \<le> m + t) [0..<m + ?T]) [0..<?T])"
  obtain st' where att: "falcon_attention lib layer False st (map (\<lambda>b. map (\<lambda>t. (if fc_new_decoder_architecture c then fy_ln_attn layer else fy_input_layernorm layer) (hs ! t ! b)) [0..<?T]) [0..<B])
        ?al ?mk (Some (concat (map (replicate ?R) pk), concat (map (replicate ?R) pv))) True =
      (Inr (map (\<lambda>b. map (?A b) [0..<?T]) [0..<B], Some (concat (map (replicate ?R) (E ! 0)), concat (map (replicate ?R) (E ! 1)))), st')" "rotary_cache_ok lib st'"
    using falcon_attention_ok [OF lib [unfolded c_def] sizes B T tok [unfolded c_def] past [unfolded p K_def d_def c_def] fit [unfolded K_def d_def c_def E_def p] st]
    unfolding c_def E_def p by blast
  have "length (?A b t) = fc_hidden_size c" for b t by (rule length_lin [OF HK(5)])
  note layer = falcon_layer_ok [OF sizes tok [unfolded c_def] att(1) [unfolded c_def] this [unfolded c_def], folded c_def]
  have alibi: "(if None = None \<and> fc_alibi c then Some (fl_alibi lib B (?T + m) ?H) else None) = ?al"
    using lib by (simp add: falcon_lib_ok_def add.commute)
  have mk: "fl_attn_mask lib (B, ?T) m = ?mk" using lib by (simp add: falcon_lib_ok_def)
  have X: "length (batch_first B hs) = B" "length (hd (batch_first B hs)) = ?T" using B by (simp_all add: batch_first_table hd_map)
  have run: "wrapped_falcon_forward lib layer False st (batch_first B hs) None None (Some past) True =
      (Inr (map (\<lambda>b. map (?f b) [0..<?T]) [0..<B], Some E), st')"
    unfolding wrapped_falcon_forward_def Let_def X c_def [symmetric] option.case reorder bindR_simps sum.case prod.case plen alibi mk
    unfolding batch_first_table layer [unfolded Let_def] by (simp add: collapse [unfolded One_nat_def] Let_def)
  show "rotary_cache_ok lib (snd (wrapped_falcon_forward lib layer False st (batch_first B hs) None None (Some past) True))" unfolding run using att(2) by simp
  have hd: "length (hd hs) = B" using tok T by (simp add: hd_conv_nth token_shape_def)
  have final: "token_first ?T (map (\<lambda>b. map (?f b) [0..<?T]) [0..<B]) = map (\<lambda>t. falcon_position lib layer al (m + t) (hs ! t) (cut_kvs (Suc (m + t)) E)) [0..<?T]"
    unfolding token_first_def falcon_position_def Let_def c_def [symmetric] using tok by (auto simp: token_shape_def)
  show "falcon_block_forward lib layer st hs past = Inr (map (\<lambda>t. falcon_position lib layer al (m + t) (hs ! t) (cut_kvs (Suc (m + t)) E)) [0..<?T], E)"
    unfolding falcon_block_forward_def hd run fst_conv bindR_simps prod.case option.case final by (rule refl)
qed


text \<open>Expanding and collapsing grouped caches loses nothing: when the number of attention heads is the number of key and value
  heads times the size of a group, \<open>_expand_states\<close> followed by \<open>_collapse_states\<close> returns the caches of any
  whole number of sequences unchanged, and row \<open>r\<close> of the expanded caches is row \<open>r // group size\<close> of the given ones.\<close>

theorem expand_collapse_roundtrip:
  assumes "length rows = batch_size * fc_num_kv_heads c" and "0 < fc_num_kv_heads c" and "0 < fc_num_key_value_groups c"
    and "fc_num_attention_heads c = fc_num_kv_heads c * fc_num_key_value_groups c"
  shows "\<exists>expanded. expand_states c rows = Inr expanded \<and> collapse_states c expanded = Inr rows \<and>
    length expanded = batch_size * fc_num_attention_heads c \<and>
    (\<forall>r < length expanded. expanded ! r = rows ! (r div fc_num_key_value_groups c))"
proof (intro exI conjI)
  show "expand_states c rows = Inr (concat (map (replicate (fc_num_key_value_groups c)) rows))"
    "collapse_states c (concat (map (replicate (fc_num_key_value_groups c)) rows)) = Inr rows"
    using expand_collapse [OF assms(1) refl assms(4,2,3)] by blast+
  show len: "length (concat (map (replicate (fc_num_key_value_groups c)) rows)) = batch_size * fc_num_attention_heads c"
    by (simp only: length_repeat assms(1,4) mult.assoc)
  show "\<forall>r < length (concat (map (replicate (fc_num_key_value_groups c)) rows)). concat (map (replicate (fc_num_key_value_groups c)) rows) ! r = rows ! (r div fc_num_key_value_groups c)"
    using nth_repeat [of _ rows "fc_num_key_value_groups c"] by (simp only: length_repeat) simp
qed

subsection \<open>Configurations that fail\<close>

text \<open>The old architecture with multi-query attention, as far as the library splits the fused projection into one key head: the
  layer reshapes the keys to all query heads and raises.\<close>

lemma multi_query_fails:
  assumes "\<not> fc_new_decoder_architecture (fy_config layer)" "1 < fc_num_attention_heads (fy_config layer)"
    and "\<forall>x. \<exists>q k v. fl_split_heads lib x = Inr (q, k, v) \<and> length q = fc_num_attention_heads (fy_config layer) \<and> length k = 1"
    and "hidden \<noteq> []" "hd hidden \<noteq> []" "\<forall>seq \<in> set hidden. \<forall>x \<in> set seq. length x = m" "linear_shape (fy_query_key_value layer) m n"
  shows "fst (falcon_attention lib layer fast st hidden al mk past caching) = Inl RuntimeError"
proof -
  let ?c = "fy_config layer"
  have fused: "mapR (mapR (linear_forward (fy_query_key_value layer))) hidden = Inr (map (map (lin (fy_query_key_value layer))) hidden)"
    using assms(6) linear_ok [OF assms(7)] by (intro mapR_total) auto
  define s where "s = (\<lambda>x. case fl_split_heads lib x of Inr r \<Rightarrow> r | Inl _ \<Rightarrow> ([], [], []))"
  have s: "fl_split_heads lib x = Inr (s x)" "length (fst (s x)) = fc_num_attention_heads ?c" "length (fst (snd (s x))) = 1" for x
    using assms(3) [THEN spec, of x] by (auto simp: s_def)
  have split: "falcon_split lib ?c = (\<lambda>x. Inr (s x))" using assms(1) s(1) by (simp add: falcon_split_def fun_eq_iff)
  have "mapR (\<lambda>x. x) (map (\<lambda>x. Inr (s x)) xs) = Inr (map s xs)" for xs by (induction xs) simp_all
  then have splits: "mapR (mapR (\<lambda>x. x)) (map (map (\<lambda>x. Inr (s x))) xss) = Inr (map (map s) xss)" for xss by (induction xss) simp_all
  let ?qkv = "map (map s) (map (map (lin (fy_query_key_value layer))) hidden)"
  have q: "\<exists>q. to_rows (fc_num_attention_heads ?c) (map (map fst) ?qkv) = Inr q" using s(2) by (auto simp: to_rows_def)
  have k: "to_rows (fc_num_attention_heads ?c) (map (map (fst \<circ> snd)) ?qkv) = Inl RuntimeError"
  proof -
    have "\<exists>seq \<in> set (map (map (fst \<circ> snd)) ?qkv). \<exists>hs \<in> set seq. length hs \<noteq> fc_num_attention_heads ?c"
      using assms(2,4,5) s(3) by (cases hidden; cases "hd hidden") auto
    then have "\<not> (\<forall>seq \<in> set (map (map (fst \<circ> snd)) ?qkv). \<forall>hs \<in> set seq. length hs = fc_num_attention_heads ?c)" by blast
    then show ?thesis by (simp only: to_rows_def guardR_simps)
  qed
  show ?thesis
    using q unfolding falcon_attention_def Let_def fused sum.case split using assms(1) by (auto simp: splits k simp del: map_map)
qed

text \<open>The new architecture with ALiBi has no graph for its norms, so a single-token call on a GPU raises.\<close>

lemma alibi_norms_fail:
  assumes "fc_new_decoder_architecture (fy_config layer)" "fc_alibi (fy_config layer)" "length (hd hidden) = 1"
  shows "falcon_layer_forward lib layer True st hidden al mk past caching = (Inl AttributeError, st)"
  using assms by (simp add: falcon_layer_forward_def falcon_norms_def Let_def)

subsection \<open>A small layer\<close>

text \<open>The new architecture with two query heads on one key and value head.\<close>

definition small_softmax :: "rat option list \<Rightarrow> vec" where
  "small_softmax ws = (let n = length (filter (\<lambda>w. w \<noteq> None) ws) in map (\<lambda>w. if w = None then 0 else 1 / of_nat n) ws)"

definition small_lib :: falcon_lib where
  "small_lib = \<lparr>fl_rotate_half = map uminus, fl_angles = \<lambda>p. ([1], [of_nat p]), fl_softmax = small_softmax, fl_sqrt = of_nat,
     fl_split_heads = \<lambda>x. Inl RuntimeError,
     fl_attn_mask = \<lambda>(b, t) m. replicate b (map (\<lambda>i. map (\<lambda>j. \<not> j \<le> m + i) [0..<m + t]) [0..<t]),
     fl_alibi = \<lambda>b n h. map (\<lambda>r. map (\<lambda>j. of_nat ((r mod h) * j)) [0..<n]) [0..<b * h]\<rparr>"

definition small_falcon :: falcon_config where
  "small_falcon = \<lparr>fc_hidden_size = 2, fc_num_attention_heads = 2, fc_num_kv_heads = 1, fc_new_decoder_architecture = True, fc_multi_query = False,
     fc_parallel_attn = True, fc_alibi = False, fc_rotary = True\<rparr>"

definition small_layer :: falcon_layer where
  "small_layer = \<lparr>fy_config = small_falcon, fy_query_key_value = \<lparr>ln_weight = [[1, 0], [0, 1], [1, 1], [1, -1]], ln_bias = None\<rparr>,
     fy_dense = \<lparr>ln_weight = [[1, 0], [0, 1]], ln_bias = Some [1, 1]\<rparr>, fy_mlp = map ((*) 2), fy_ln_attn = id, fy_ln_mlp = id,
     fy_input_layernorm = id, fy_post_attention_layernorm = id\<rparr>"

lemma small_sizes: "kv_heads small_falcon = 1" "kv_repeat small_falcon = 2" "falcon_head_dim small_falcon = 1" "fc_num_key_value_groups small_falcon = 2"
  "fc_hidden_size small_falcon = 2" "fy_config small_layer = small_falcon" "fc_num_attention_heads small_falcon = 2"
  by (simp_all add: small_falcon_def small_layer_def kv_heads_def kv_repeat_def falcon_head_dim_def fc_num_key_value_groups_def)

lemma small_lib_ok: "falcon_lib_ok small_lib small_falcon (\<lambda>h j. of_nat (h * j))"
  by (auto simp: falcon_lib_ok_def small_lib_def small_sizes masking_softmax_def small_softmax_def Let_def map_replicate_const)

lemma small_layer_ok: "falcon_sizes small_lib small_layer"
  by (simp add: falcon_sizes_def small_sizes Let_def) (simp add: small_layer_def small_falcon_def linear_shape_def split_ok_def fc_num_key_value_groups_def falcon_head_dim_def)


theorem expand_collapse_roundtrip_witness:
  "expand_states small_falcon [[[1], [2]], [[3], [4]]] = Inr [[[1], [2]], [[1], [2]], [[3], [4]], [[3], [4]]] \<and>
   collapse_states small_falcon [[[1], [2]], [[1], [2]], [[3], [4]], [[3], [4]]] = Inr [[[1], [2]], [[3], [4]]]"
proof -
  have e: "expand_states small_falcon [[[1], [2]], [[3], [4]]] = Inr [[[1], [2]], [[1], [2]], [[3], [4]], [[3], [4]]]"
    by (simp add: expand_states_def small_falcon_def fc_num_key_value_groups_def numeral_2_eq_2)
  with expand_collapse_roundtrip [of "[[[1], [2]], [[3], [4]]]" 2 small_falcon] show ?thesis
    by (auto simp: small_sizes) (simp_all add: small_falcon_def)
qed

end
