(* ===== verification/Llama_Block.thy ===== *)
theory Llama_Block
  imports Attention
begin

text \<open>
  \<open>src/peerz/models/llama/block.py\<close>: the Llama layer that a server runs, on tensors with the batch first. From
  \<open>transformers\<close> and \<open>torch\<close>, the rotary embedding of a position, \<open>rotate_half\<close>, \<open>repeat_kv\<close>, softmax, the mask that
  \<open>_prepare_4d_causal_attention_mask\<close> builds, the norms and the feed-forward network are parameters.
  The functions with CUDA graphs keep the batch size they were captured with.

  The lemmas show that the wrapped block is a causal module in the sense of the backend: cutting a
  sequence into steps that pass the caches on gives what one pass over the sequence gives.
\<close>

subsection \<open>The layer\<close>

record llama_lib =
  lb_rotate_half :: "vec \<Rightarrow> vec"
  lb_rotary :: "nat \<Rightarrow> vec \<times> vec"                     \<comment> \<open>cosines and sines of a position\<close>
  lb_softmax :: "rat option list \<Rightarrow> vec"
  lb_sqrt :: "nat \<Rightarrow> rat"
  lb_repeat_kv :: "vec list list \<Rightarrow> nat \<Rightarrow> vec list list"
  lb_causal_mask :: "bool list list \<Rightarrow> nat \<times> nat \<Rightarrow> nat \<Rightarrow> bool list list list"

record llama_attn =
  la_num_heads :: nat
  la_num_key_value_heads :: nat
  la_num_key_value_groups :: nat
  la_head_dim :: nat
  la_hidden_size :: nat
  la_pretraining_tp :: nat
  la_q_proj :: linear
  la_k_proj :: linear
  la_v_proj :: linear
  la_o_proj :: linear

record llama_layer =
  ll_self_attn :: llama_attn
  ll_mlp :: "vec \<Rightarrow> vec"
  ll_input_layernorm :: "vec \<Rightarrow> vec"
  ll_post_attention_layernorm :: "vec \<Rightarrow> vec"

record llama_graphs =
  lg_rotary :: "nat option"
  lg_pre_attn :: "nat option"
  lg_post_attn :: "nat option"

type_synonym heads4 = "vec list list list"     \<comment> \<open>batch, heads, positions\<close>

subsection \<open>Attention\<close>

definition rotate_vec :: "(vec \<Rightarrow> vec) \<Rightarrow> vec \<Rightarrow> vec \<times> vec \<Rightarrow> vec" where
  "rotate_vec rotate_half x = (\<lambda>(cos, sin). vadd (vmul x cos) (vmul (rotate_half x) sin))"

text \<open>On the heads of one sequence; \<open>cs\<close> lists the cosines and sines of its positions.\<close>

definition apply_rotary_pos_emb ::
    "(vec \<Rightarrow> vec) \<Rightarrow> (vec \<times> vec) list \<Rightarrow> vec list list \<times> vec list list \<Rightarrow> vec list list \<times> vec list list" where
  "apply_rotary_pos_emb rotate_half cs =
     (\<lambda>(q, k). (map (\<lambda>xs. map2 (rotate_vec rotate_half) xs cs) q, map (\<lambda>xs. map2 (rotate_vec rotate_half) xs cs) k))"

text \<open>\<open>torch.split\<close> into parts of a size.\<close>

definition split_list :: "nat \<Rightarrow> 'a list \<Rightarrow> 'a list list result" where
  "split_list c xs =
     (if xs = [] then Inr [[]]
      else guardR (c \<noteq> 0) RuntimeError (Inr (map (\<lambda>i. take c (drop i xs)) (range_step (length xs) c))))"

text \<open>A projection, whole or in \<open>pretraining_tp\<close> slices of \<open>c\<close> output features; the slices drop a bias.\<close>

definition project :: "nat \<Rightarrow> nat \<Rightarrow> linear \<Rightarrow> vec \<Rightarrow> vec result" where
  "project tp c l x =
     (if 1 < tp
      then bindR (split_list c (ln_weight l)) (\<lambda>slices.
           bindR (mapR (\<lambda>i. bindR (py_index slices (int i)) (\<lambda>w. apply_weight w x)) [0..<tp]) (\<lambda>ys. Inr (concat ys)))
      else linear_forward l x)"

text \<open>The output projection; its slices cut the input features, and their results are added up.\<close>

definition project_out :: "nat \<Rightarrow> nat \<Rightarrow> linear \<Rightarrow> vec \<Rightarrow> vec result" where
  "project_out tp c l x =
     (if 1 < tp
      then bindR (split_list c x) (\<lambda>xs.
           bindR (mapR (split_list c) (ln_weight l)) (\<lambda>rows.
           bindR (mapR (\<lambda>i. bindR (py_index xs (int i)) (\<lambda>xi. bindR (mapR (\<lambda>r. py_index r (int i)) rows) (\<lambda>w. apply_weight w xi))) [0..<tp])
             (\<lambda>ys. Inr (foldl vadd (hd ys) (tl ys)))))
      else linear_forward l x)"

definition cat_past :: "heads4 \<Rightarrow> heads4 \<Rightarrow> heads4 result" where
  "cat_past past new = guardR (map length past = map length new) RuntimeError (Inr (map2 (map2 (@)) past new))"

definition kv_length :: "heads4 \<Rightarrow> nat" where
  "kv_length kv = (case kv of (r # _) # _ \<Rightarrow> length r | _ \<Rightarrow> 0)"

text \<open>From the rotated queries and keys on: the cache, the repeated heads, the weights and the output.\<close>

definition llama_attend ::
    "llama_lib \<Rightarrow> llama_attn \<Rightarrow> bool list list list option \<Rightarrow> (heads4 \<times> heads4) option \<Rightarrow> bool \<Rightarrow> heads4 \<Rightarrow> heads4 \<Rightarrow> heads4 \<Rightarrow> nat
     \<Rightarrow> (vec list list \<times> (heads4 \<times> heads4) option) result" where
  "llama_attend lib a attention_mask past_key_value caching q k v q_len =
     bindR (case past_key_value of
              None \<Rightarrow> Inr (k, v)
            | Some (pk, pv) \<Rightarrow> bindR (cat_past pk k) (\<lambda>k'. bindR (cat_past pv v) (\<lambda>v'. Inr (k', v')))) (\<lambda>(keys, values).
     let present = (if caching then Some (keys, values) else None);
         rk = map (\<lambda>h. lb_repeat_kv lib h (la_num_key_value_groups a)) keys;
         rv = map (\<lambda>h. lb_repeat_kv lib h (la_num_key_value_groups a)) values;
         mask = (case attention_mask of None \<Rightarrow> map (\<lambda>_. replicate q_len (replicate (kv_length keys) True)) q | Some m \<Rightarrow> m) in
     guardR (map length rk = map length q) RuntimeError
     (guardR (length mask = length q \<and> (\<forall>m \<in> set mask. length m = q_len \<and> (\<forall>r \<in> set m. length r = kv_length keys))) RuntimeError
     (let outs = map2 (\<lambda>(qh, kh) (vh, m). map2 (\<lambda>q1 (k1, v1). map2 (\<lambda>x r.
                   attend (lb_softmax lib) (lb_sqrt lib (la_head_dim a)) (la_head_dim a) x k1 v1 r) q1 m) qh (zip kh vh))
                 (zip q rk) (zip rv mask) in
      bindR (mapR (merge_heads q_len (la_hidden_size a)) outs) (\<lambda>merged.
      bindR (mapR (mapR (project_out (la_pretraining_tp a) (la_hidden_size a div la_pretraining_tp a) (la_o_proj a))) merged) (\<lambda>attn_output.
      Inr (attn_output, present))))))"

text \<open>\<open>fast\<close>: inference mode on a CUDA device.\<close>

definition llama_attention ::
    "llama_lib \<Rightarrow> llama_attn \<Rightarrow> bool \<Rightarrow> llama_graphs \<Rightarrow> vec list list \<Rightarrow> bool list list list option \<Rightarrow> nat list option
     \<Rightarrow> (heads4 \<times> heads4) option \<Rightarrow> bool \<Rightarrow> bool \<Rightarrow> (vec list list \<times> (heads4 \<times> heads4) option) result \<times> llama_graphs" where
  "llama_attention lib a fast g hidden_states attention_mask position_ids past_key_value output_attentions caching =
     (if output_attentions then (Inl AssertionError, g)
      else let q_len = length (hd hidden_states);
          past_seen_tokens = (case past_key_value of None \<Rightarrow> 0 | Some (pk, _) \<Rightarrow> kv_length pk);
          positions = (case position_ids of None \<Rightarrow> [past_seen_tokens..<past_seen_tokens + q_len] | Some p \<Rightarrow> p);
          tp = la_pretraining_tp a; d = la_head_dim a; n = la_num_heads a; n_kv = la_num_key_value_heads a in
        case bindR (mapR (mapR (project tp (n * d div tp) (la_q_proj a))) hidden_states) (\<lambda>qs.
             bindR (mapR (mapR (project tp (n_kv * d div tp) (la_k_proj a))) hidden_states) (\<lambda>ks.
             bindR (mapR (mapR (project tp (n_kv * d div tp) (la_v_proj a))) hidden_states) (\<lambda>vs.
             bindR (mapR (to_heads n d) qs) (\<lambda>q. bindR (mapR (to_heads n_kv d) ks) (\<lambda>k. bindR (mapR (to_heads n_kv d) vs) (\<lambda>v.
             Inr (q, k, v))))))) of
          Inl e \<Rightarrow> (Inl e, g)
        | Inr (q, k, v) \<Rightarrow>
            (let rotate = map (apply_rotary_pos_emb (lb_rotate_half lib) (map (lb_rotary lib) positions)) in
             case (if q_len = 1 \<and> fast then run_graphed rotate (lg_rotary g) (zip q k) else (Inr (rotate (zip q k)), lg_rotary g)) of
               (r, captured) \<Rightarrow>
                 (bindR r (\<lambda>qk. llama_attend lib a attention_mask past_key_value caching (map fst qk) (map snd qk) v q_len),
                  g\<lparr>lg_rotary := captured\<rparr>)))"

subsection \<open>The decoder layer\<close>

definition run_norm :: "bool \<Rightarrow> (vec \<Rightarrow> vec) \<Rightarrow> nat option \<Rightarrow> vec list list \<Rightarrow> vec list list result \<times> nat option" where
  "run_norm fast layernorm captured hidden_states =
     (if length (hd hidden_states) = 1 \<and> fast then run_graphed (map (map layernorm)) captured hidden_states
      else (Inr (map (map layernorm) hidden_states), captured))"

definition llama_layer_forward ::
    "llama_lib \<Rightarrow> llama_layer \<Rightarrow> bool \<Rightarrow> llama_graphs \<Rightarrow> vec list list \<Rightarrow> bool list list list option \<Rightarrow> nat list option
     \<Rightarrow> (heads4 \<times> heads4) option \<Rightarrow> bool \<Rightarrow> bool \<Rightarrow> (vec list list \<times> (heads4 \<times> heads4) option) result \<times> llama_graphs" where
  "llama_layer_forward lib layer fast g hidden_states attention_mask position_ids past_key_value output_attentions caching =
     (case run_norm fast (ll_input_layernorm layer) (lg_pre_attn g) hidden_states of
        (normed, pre) \<Rightarrow>
          (let g1 = g\<lparr>lg_pre_attn := pre\<rparr> in
           case normed of
             Inl e \<Rightarrow> (Inl e, g1)
           | Inr hs \<Rightarrow>
               (case llama_attention lib (ll_self_attn layer) fast g1 hs attention_mask position_ids past_key_value output_attentions caching of
                  (Inl e, g2) \<Rightarrow> (Inl e, g2)
                | (Inr (attn_output, present), g2) \<Rightarrow>
                    (case add_residual hidden_states attn_output of
                       Inl e \<Rightarrow> (Inl e, g2)
                     | Inr residual \<Rightarrow>
                         (case run_norm fast (ll_post_attention_layernorm layer) (lg_post_attn g2) residual of
                            (normed2, post) \<Rightarrow>
                              (bindR normed2 (\<lambda>hs2. bindR (add_residual residual (map (map (ll_mlp layer)) hs2)) (\<lambda>output. Inr (output, present))),
                               g2\<lparr>lg_post_attn := post\<rparr>))))))"

subsection \<open>The wrapped block\<close>

text \<open>The caches: rows of all sequences and heads in the backend's layout, one list of heads per sequence in the layer's.\<close>

definition reorder_cache_from_bloom_to_llama :: "nat \<Rightarrow> vec kv list \<Rightarrow> nat \<Rightarrow> (heads4 \<times> heads4) result" where
  "reorder_cache_from_bloom_to_llama num_kv_heads key_value batch_size =
     (case key_value of
        [key_states, value_states] \<Rightarrow>
          guardR (length key_states = batch_size * num_kv_heads) RuntimeError
          (guardR (map length value_states = map length key_states) RuntimeError
             (Inr (regroup (replicate batch_size num_kv_heads) key_states, regroup (replicate batch_size num_kv_heads) value_states)))
      | _ \<Rightarrow> Inl ValueError)"

definition reorder_cache_from_llama_to_bloom :: "nat \<Rightarrow> heads4 \<times> heads4 \<Rightarrow> nat \<Rightarrow> vec kv list result" where
  "reorder_cache_from_llama_to_bloom num_kv_heads key_value batch_size =
     (case key_value of
        (key_states, value_states) \<Rightarrow>
          guardR (length (concat value_states) = batch_size * num_kv_heads) RuntimeError
          (guardR (map length (concat key_states) = map length (concat value_states)) RuntimeError
             (Inr [concat key_states, concat value_states])))"

definition past_length :: "vec kv list \<Rightarrow> nat" where
  "past_length kvs = (case kvs of (r # _) # _ \<Rightarrow> length r | _ \<Rightarrow> 0)"

lemma past_length_fitting: "fitting vec [n, k] m past \<Longrightarrow> past_length past = m"
  by (erule fitting_two) (auto simp: past_length_def split: list.splits)

definition wrapped_llama_forward ::
    "llama_lib \<Rightarrow> llama_layer \<Rightarrow> bool \<Rightarrow> llama_graphs \<Rightarrow> vec list list \<Rightarrow> bool list list option \<Rightarrow> nat list option
     \<Rightarrow> vec kv list option \<Rightarrow> bool \<Rightarrow> (vec list list \<times> vec kv list option) result \<times> llama_graphs" where
  "wrapped_llama_forward lib layer fast g hidden_states attention_mask position_ids layer_past caching =
     (let batch_size = length hidden_states; seq_length = length (hd hidden_states);
          past_key_values_length = (case layer_past of None \<Rightarrow> 0 | Some kvs \<Rightarrow> past_length kvs);
          n_kv = la_num_key_value_heads (ll_self_attn layer) in
      case (case layer_past of
              None \<Rightarrow> Inr None
            | Some kvs \<Rightarrow> bindR (reorder_cache_from_bloom_to_llama n_kv kvs batch_size) (\<lambda>kv. Inr (Some kv))) of
        Inl e \<Rightarrow> (Inl e, g)
      | Inr past_key_value \<Rightarrow>
          if position_ids \<noteq> None then (Inl AssertionError, g)
          else (let mask = (case attention_mask of
                      None \<Rightarrow> replicate batch_size (replicate (seq_length + past_key_values_length) True) | Some m \<Rightarrow> m);
                    mask4 = lb_causal_mask lib mask (batch_size, seq_length) past_key_values_length in
                case llama_layer_forward lib layer fast g hidden_states (Some mask4) position_ids past_key_value False caching of
                  (r, g') \<Rightarrow>
                    (bindR r (\<lambda>(output, present). case present of
                        None \<Rightarrow> Inr (output, None)
                      | Some kv \<Rightarrow> bindR (reorder_cache_from_llama_to_bloom n_kv kv batch_size) (\<lambda>kvs. Inr (output, Some kvs))), g')))"

subsection \<open>The block as the backend sees it\<close>

text \<open>The forward pass outside inference mode on a CUDA device, with the backend's hidden states.\<close>

definition no_graphs :: llama_graphs where
  "no_graphs = \<lparr>lg_rotary = None, lg_pre_attn = None, lg_post_attn = None\<rparr>"

definition llama_block_forward :: "llama_lib \<Rightarrow> llama_layer \<Rightarrow> vec list list \<Rightarrow> vec kv list \<Rightarrow> (vec list list \<times> vec kv list) result" where
  "llama_block_forward lib layer hs past =
     bindR (fst (wrapped_llama_forward lib layer False no_graphs (batch_first (length (hd hs)) hs) None None (Some past) True))
       (\<lambda>(output, kvs). Inr (token_first (length hs) output, case kvs of None \<Rightarrow> [] | Some k \<Rightarrow> k))"

text \<open>What is used of the library, and the sizes of a layer for batches of \<open>B\<close> sequences.\<close>

definition llama_lib_ok :: "llama_lib \<Rightarrow> nat \<Rightarrow> bool" where
  "llama_lib_ok lib d \<longleftrightarrow> masking_softmax (lb_softmax lib) \<and>
     (\<forall>x. length (lb_rotate_half lib x) = length x) \<and>
     (\<forall>p. length (fst (lb_rotary lib p)) = d \<and> length (snd (lb_rotary lib p)) = d) \<and>
     (\<forall>h n. lb_repeat_kv lib h n = concat (map (replicate n) h)) \<and>
     (\<forall>B T p. lb_causal_mask lib (replicate B (replicate (T + p) True)) (B, T) p =
        replicate B (map (\<lambda>t. map (\<lambda>j. j \<le> p + t) [0..<p + T]) [0..<T]))"

definition llama_sizes :: "llama_layer \<Rightarrow> bool" where
  "llama_sizes layer \<longleftrightarrow>
     (let a = ll_self_attn layer; d = la_head_dim a; h = la_hidden_size a in
      0 < la_num_key_value_heads a \<and> la_num_heads a = la_num_key_value_heads a * la_num_key_value_groups a \<and>
      0 < la_num_key_value_groups a \<and> h = la_num_heads a * d \<and> la_pretraining_tp a \<le> 1 \<and>
      linear_shape (la_q_proj a) h h \<and> linear_shape (la_o_proj a) h h \<and>
      linear_shape (la_k_proj a) h (la_num_key_value_heads a * d) \<and> linear_shape (la_v_proj a) h (la_num_key_value_heads a * d) \<and>
      (\<forall>x. length x = h \<longrightarrow> length (ll_input_layernorm layer x) = h \<and> length (ll_post_attention_layernorm layer x) = h \<and>
         length (ll_mlp layer x) = h))"

text \<open>The layer at one position: what a token adds to the caches, and its output from the caches up to it.\<close>

definition llama_row :: "llama_lib \<Rightarrow> llama_layer \<Rightarrow> nat \<Rightarrow> nat \<Rightarrow> nat \<Rightarrow> vec list \<Rightarrow> vec" where
  "llama_row lib layer i j p x =
     (let a = ll_self_attn layer; K = la_num_key_value_heads a; d = la_head_dim a;
          v = ll_input_layernorm layer (x ! (j div K)) in
      if i = 0 then rotate_vec (lb_rotate_half lib) (head_of d (j mod K) (lin (la_k_proj a) v)) (lb_rotary lib p)
      else head_of d (j mod K) (lin (la_v_proj a) v))"

definition llama_query :: "llama_lib \<Rightarrow> llama_layer \<Rightarrow> nat \<Rightarrow> nat \<Rightarrow> vec \<Rightarrow> vec" where
  "llama_query lib layer p h x =
     (let a = ll_self_attn layer in
      rotate_vec (lb_rotate_half lib) (head_of (la_head_dim a) h (lin (la_q_proj a) (ll_input_layernorm layer x))) (lb_rotary lib p))"

definition llama_head :: "llama_lib \<Rightarrow> llama_layer \<Rightarrow> nat \<Rightarrow> vec \<Rightarrow> vec kv list \<Rightarrow> nat \<Rightarrow> nat \<Rightarrow> vec" where
  "llama_head lib layer p x c b h =
     (let a = ll_self_attn layer; K = la_num_key_value_heads a; d = la_head_dim a; j = b * K + h div la_num_key_value_groups a;
          q = llama_query lib layer p h x in
      weighted_sum d (lb_softmax lib (map (\<lambda>k. Some (dot q k / lb_sqrt lib d)) (c ! 0 ! j))) (c ! 1 ! j))"

definition llama_position :: "llama_lib \<Rightarrow> llama_layer \<Rightarrow> nat \<Rightarrow> vec list \<Rightarrow> vec kv list \<Rightarrow> vec list" where
  "llama_position lib layer p x c =
     map (\<lambda>b. let a = ll_self_attn layer;
               attn = lin (la_o_proj a) (concat (map (llama_head lib layer p (x ! b) c b) [0..<la_num_heads a]));
               residual = vadd (x ! b) attn in
             vadd residual (ll_mlp layer (ll_post_attention_layernorm layer residual))) [0..<length x]"

subsection \<open>The parts on well-shaped inputs\<close>

lemma project_ok: "tp \<le> 1 \<Longrightarrow> linear_shape l m n \<Longrightarrow> length x = m \<Longrightarrow> project tp c l x = Inr (lin l x)"
  by (simp add: project_def linear_ok)

lemma project_out_ok: "tp \<le> 1 \<Longrightarrow> linear_shape l m n \<Longrightarrow> length x = m \<Longrightarrow> project_out tp c l x = Inr (lin l x)"
  by (simp add: project_out_def linear_ok)

lemma heads_stage:
  assumes "tp \<le> 1" "linear_shape l m (n * d)" "\<forall>seq \<in> set X. \<forall>x \<in> set seq. length x = m"
  shows "mapR (mapR (project tp c l)) X = Inr (map (map (lin l)) X)"
    and "mapR (to_heads n d) (map (map (lin l)) X) = Inr (map (\<lambda>seq. map (\<lambda>h. map (\<lambda>x. head_of d h (lin l x)) seq) [0..<n]) X)"
proof -
  show "mapR (mapR (project tp c l)) X = Inr (map (map (lin l)) X)"
    using assms by (intro mapR_total) (simp add: project_ok)
  have "mapR (to_heads n d) (map (map (lin l)) X) = Inr (map (\<lambda>rows. map (\<lambda>h. map (head_of d h) rows) [0..<n]) (map (map (lin l)) X))"
    using length_lin [OF assms(2)] by (intro mapR_total to_heads_ok) auto
  then show "mapR (to_heads n d) (map (map (lin l)) X) = Inr (map (\<lambda>seq. map (\<lambda>h. map (\<lambda>x. head_of d h (lin l x)) seq) [0..<n]) X)"
    by (simp add: comp_def)
qed

lemma llama_attention_ok:
  fixes lib a X
  defines "rot \<equiv> \<lambda>l h m seq. map2 (rotate_vec (lb_rotate_half lib)) (map (\<lambda>x. head_of (la_head_dim a) h (lin l x)) seq)
      (map (lb_rotary lib) [m..<m + length (hd X)])"
  assumes sizes: "la_pretraining_tp a \<le> 1" "linear_shape (la_q_proj a) D (la_num_heads a * la_head_dim a)"
      "linear_shape (la_k_proj a) D (la_num_key_value_heads a * la_head_dim a)" "linear_shape (la_v_proj a) D (la_num_key_value_heads a * la_head_dim a)"
    and X: "\<forall>seq \<in> set X. \<forall>x \<in> set seq. length x = D" and past: "kv_length pk = m"
  shows "llama_attention lib a False g X mk None (Some (pk, pv)) False caching =
    (llama_attend lib a mk (Some (pk, pv)) caching
       (map (\<lambda>seq. map (\<lambda>h. rot (la_q_proj a) h m seq) [0..<la_num_heads a]) X)
       (map (\<lambda>seq. map (\<lambda>h. rot (la_k_proj a) h m seq) [0..<la_num_key_value_heads a]) X)
       (map (\<lambda>seq. map (\<lambda>h. map (\<lambda>x. head_of (la_head_dim a) h (lin (la_v_proj a) x)) seq) [0..<la_num_key_value_heads a]) X)
       (length (hd X)), g)"
  unfolding llama_attention_def Let_def
  by (simp add: heads_stage [OF sizes(1,2) X] heads_stage [OF sizes(1,3) X] heads_stage [OF sizes(1,4) X] past rot_def
      zip_maps apply_rotary_pos_emb_def comp_def)

text \<open>The caches of the layer after the new keys and values.\<close>

lemma cat_past_ok:
  assumes len: "length rows = B * K" and new: "\<And>b k. b < B \<Longrightarrow> k < K \<Longrightarrow> rows' ! (b * K + k) = rows ! (b * K + k) @ new b k"
    and len': "length rows' = B * K"
  shows "cat_past (regroup (replicate B K) rows) (map (\<lambda>b. map (\<lambda>k. new b k) [0..<K]) [0..<B]) = Inr (regroup (replicate B K) rows')"
  unfolding cat_past_def regroup_table [OF len] regroup_table [OF len'] by (auto simp: zip_maps comp_def new)

lemma llama_attend_ok:
  assumes sm: "masking_softmax (lb_softmax lib)" and rep: "\<forall>h n. lb_repeat_kv lib h n = concat (map (replicate n) h)"
    and size: "0 < B" "0 < K" "K = la_num_key_value_heads a" "G = la_num_key_value_groups a" "d = la_head_dim a" "la_hidden_size a = K * G * d"
    and keys: "cat_past pk k = Inr (map (\<lambda>b. map (Kt b) [0..<K]) [0..<B])" and vals: "cat_past pv v = Inr (map (\<lambda>b. map (Vt b) [0..<K]) [0..<B])"
    and len: "\<forall>b < B. \<forall>j < K. length (Kt b j) = m + T \<and> length (Vt b j) = m + T \<and> (\<forall>x \<in> set (Vt b j). length x = d)"
  shows "llama_attend lib a (Some (replicate B (map (\<lambda>t. map (\<lambda>j. j \<le> m + t) [0..<m + T]) [0..<T]))) (Some (pk, pv)) caching
      (map (\<lambda>b. map (\<lambda>h. map (Q b h) [0..<T]) [0..<K * G]) [0..<B]) k v T =
    bindR (mapR (mapR (project_out (la_pretraining_tp a) (la_hidden_size a div la_pretraining_tp a) (la_o_proj a)))
        (map (\<lambda>b. map (\<lambda>t. concat (map (\<lambda>h. weighted_sum d
             (lb_softmax lib (map (\<lambda>k. Some (dot (Q b h t) k / lb_sqrt lib d)) (take (Suc (m + t)) (Kt b (h div G)))))
             (take (Suc (m + t)) (Vt b (h div G)))) [0..<K * G])) [0..<T]) [0..<B]))
      (\<lambda>attn_output. Inr (attn_output, if caching then Some (map (\<lambda>b. map (Kt b) [0..<K]) [0..<B], map (\<lambda>b. map (Vt b) [0..<K]) [0..<B]) else None))"
proof -
  let ?keys = "map (\<lambda>b. map (Kt b) [0..<K]) [0..<B]" and ?vals = "map (\<lambda>b. map (Vt b) [0..<K]) [0..<B]"
  let ?A = "\<lambda>b h t. weighted_sum d (lb_softmax lib (map (\<lambda>k. Some (dot (Q b h t) k / lb_sqrt lib d)) (take (Suc (m + t)) (Kt b (h div G)))))
      (take (Suc (m + t)) (Vt b (h div G)))"
  let ?row = "\<lambda>t. map (\<lambda>j. j \<le> m + t) [0..<m + T]"
  have mask: "replicate B (map ?row [0..<T]) = map (\<lambda>b. map ?row [0..<T]) [0..<B]" by (simp add: map_replicate_const)
  have kvl: "kv_length ?keys = m + T"
    using size(1,2) len by (simp add: kv_length_def upt_conv_Cons)
  have rk: "map (\<lambda>h. lb_repeat_kv lib h G) (map (\<lambda>b. map (X b) [0..<K]) [0..<B]) = map (\<lambda>b. map (\<lambda>h. X b (h div G)) [0..<K * G]) [0..<B]"
    for X :: "nat \<Rightarrow> nat \<Rightarrow> vec list" unfolding rep [THEN spec, THEN spec]
    by (rule nth_equalityI) (simp_all only: length_map nth_map repeat_table length_upt diff_zero nth_upt add_0)
  have att: "attend (lb_softmax lib) (lb_sqrt lib d) d x (Kt b (h div G)) (Vt b (h div G)) (?row t) =
      weighted_sum d (lb_softmax lib (map (\<lambda>k. Some (dot x k / lb_sqrt lib d)) (take (Suc (m + t)) (Kt b (h div G)))))
        (take (Suc (m + t)) (Vt b (h div G)))"
    if "b < B" "h < K * G" "t < T" for b h t x
  proof -
    have "h div G < K" using that(2) by (simp add: less_mult_imp_div_less)
    then have "length (Kt b (h div G)) = m + T" "length (Vt b (h div G)) = m + T" "\<forall>x \<in> set (Vt b (h div G)). length x = d"
      using len that(1) by auto
    then show ?thesis using attend_causal [OF sm] that(3) by simp
  qed
  have outs: "map2 (\<lambda>(qh, kh) (vh, mm). map2 (\<lambda>q1 (k1, v1). map2 (\<lambda>x r. attend (lb_softmax lib) (lb_sqrt lib d) d x k1 v1 r) q1 mm) qh (zip kh vh))
      (zip (map (\<lambda>b. map (\<lambda>h. map (Q b h) [0..<T]) [0..<K * G]) [0..<B]) (map (\<lambda>b. map (\<lambda>h. Kt b (h div G)) [0..<K * G]) [0..<B]))
      (zip (map (\<lambda>b. map (\<lambda>h. Vt b (h div G)) [0..<K * G]) [0..<B]) (map (\<lambda>b. map ?row [0..<T]) [0..<B])) =
      map (\<lambda>b. map (\<lambda>h. map (?A b h) [0..<T]) [0..<K * G]) [0..<B]"
    by (auto simp: zip_tables att simp del: upt_Suc)
  have wlen: "length (?A b h t) = d" if "b < B" "h < K * G" for b h t
  proof -
    have "h div G < K" using that(2) by (simp add: less_mult_imp_div_less)
    then show ?thesis using len that(1) by (intro length_weighted_sum) (auto dest: in_set_takeD)
  qed
  have merged: "mapR (merge_heads T (la_hidden_size a)) (map (\<lambda>b. map (\<lambda>h. map (?A b h) [0..<T]) [0..<K * G]) [0..<B]) =
      Inr (map (\<lambda>heads. map (\<lambda>t. concat (map (\<lambda>h. h ! t) heads)) [0..<T]) (map (\<lambda>b. map (\<lambda>h. map (?A b h) [0..<T]) [0..<K * G]) [0..<B]))"
  proof (rule mapR_total, rule merge_heads_ok)
    fix heads t assume "heads \<in> set (map (\<lambda>b. map (\<lambda>h. map (?A b h) [0..<T]) [0..<K * G]) [0..<B])" "t < T"
    then obtain b where "b < B" "heads = map (\<lambda>h. map (?A b h) [0..<T]) [0..<K * G]" by auto
    with \<open>t < T\<close> have "map length (map (\<lambda>h. h ! t) heads) = map (\<lambda>_. d) [0..<K * G]" by (simp add: wlen)
    then show "length (concat (map (\<lambda>h. h ! t) heads)) = la_hidden_size a"
      unfolding length_concat by (simp add: size(6) sum_list_replicate map_replicate_const)
  qed
  have merged': "map (\<lambda>heads. map (\<lambda>t. concat (map (\<lambda>h. h ! t) heads)) [0..<T]) (map (\<lambda>b. map (\<lambda>h. map (?A b h) [0..<T]) [0..<K * G]) [0..<B]) =
      map (\<lambda>b. map (\<lambda>t. concat (map (\<lambda>h. ?A b h t) [0..<K * G])) [0..<T]) [0..<B]"
    by (simp add: comp_def)
  show ?thesis
    unfolding llama_attend_def Let_def option.case prod.case keys vals bindR_simps mask
    unfolding size(4) [symmetric] size(5) [symmetric] rk kvl outs merged merged' bindR_simps
    by simp
qed

subsection \<open>The block is causal\<close>

lemma wrapped_norms: "run_norm False f c X = (Inr (map (map f) X), c)"
  by (simp add: run_norm_def)

text \<open>A layer whose attention output is known, outside inference mode.\<close>

lemma layer_forward_ok:
  assumes "llama_attention lib (ll_self_attn layer) False (g\<lparr>lg_pre_attn := lg_pre_attn g\<rparr>) (map (map (ll_input_layernorm layer)) X) mk ps past False caching = (Inr (attn, present), g2)"
    and "map (map length) X = map (map length) attn"
    and "\<forall>seq \<in> set (map2 (map2 vadd) X attn). \<forall>x \<in> set seq. length (ll_mlp layer (ll_post_attention_layernorm layer x)) = length x"
  shows "fst (llama_layer_forward lib layer False g X mk ps past False caching) =
    Inr (map (map (\<lambda>r. vadd r (ll_mlp layer (ll_post_attention_layernorm layer r)))) (map2 (map2 vadd) X attn), present)"
proof -
  let ?f = "\<lambda>r. ll_mlp layer (ll_post_attention_layernorm layer r)"
  define R where "R = map2 (map2 vadd) X attn"
  have "map (map length) (map (map ?f) R) = map (map length) R" using assms(3) unfolding R_def [symmetric] by (auto simp: map_eq_conv)
  then have "add_residual R (map (map ?f) R) = Inr (map2 (map2 vadd) R (map (map ?f) R))" by (intro add_residual_ok) simp
  moreover have "map2 vadd xs (map ?f xs) = map (\<lambda>r. vadd r (?f r)) xs" for xs by (induction xs) auto
  then have "map2 (map2 vadd) xss (map (map ?f) xss) = map (map (\<lambda>r. vadd r (?f r))) xss" for xss by (induction xss) auto
  moreover have "add_residual X attn = Inr R" unfolding R_def by (rule add_residual_ok [OF assms(2)])
  ultimately show ?thesis
    using assms(1) unfolding R_def [symmetric] llama_layer_forward_def wrapped_norms by (simp add: comp_def)
qed

text \<open>The sizes of what a position adds and returns.\<close>

lemma llama_sizes_D:
  assumes "llama_sizes layer"
  shows "linear_shape (la_k_proj (ll_self_attn layer)) (la_hidden_size (ll_self_attn layer)) (la_num_key_value_heads (ll_self_attn layer) * la_head_dim (ll_self_attn layer))"
    "linear_shape (la_v_proj (ll_self_attn layer)) (la_hidden_size (ll_self_attn layer)) (la_num_key_value_heads (ll_self_attn layer) * la_head_dim (ll_self_attn layer))"
    "linear_shape (la_o_proj (ll_self_attn layer)) (la_hidden_size (ll_self_attn layer)) (la_hidden_size (ll_self_attn layer))"
    "0 < la_num_key_value_heads (ll_self_attn layer)" "0 < la_num_key_value_groups (ll_self_attn layer)"
    "la_num_heads (ll_self_attn layer) = la_num_key_value_heads (ll_self_attn layer) * la_num_key_value_groups (ll_self_attn layer)"
    "la_hidden_size (ll_self_attn layer) = la_num_heads (ll_self_attn layer) * la_head_dim (ll_self_attn layer)"
    "length x = la_hidden_size (ll_self_attn layer) \<Longrightarrow> length (ll_mlp layer (ll_post_attention_layernorm layer x)) = la_hidden_size (ll_self_attn layer)"
  using assms unfolding llama_sizes_def Let_def by blast+

lemma llama_row_length:
  assumes "llama_lib_ok lib (la_head_dim (ll_self_attn layer))" "llama_sizes layer" "j < B * la_num_key_value_heads (ll_self_attn layer)"
  shows "length (llama_row lib layer i j p x) = la_head_dim (ll_self_attn layer)"
proof -
  let ?a = "ll_self_attn layer"
  have m: "j mod la_num_key_value_heads ?a < la_num_key_value_heads ?a" using llama_sizes_D(4) [OF assms(2)] by simp
  have h: "length (head_of (la_head_dim ?a) (j mod la_num_key_value_heads ?a) (lin l y)) = la_head_dim ?a"
    if "linear_shape l (la_hidden_size ?a) (la_num_key_value_heads ?a * la_head_dim ?a)" for l y
    using length_lin [OF that] m by (intro length_head_of)
  show ?thesis
    using assms(1) h [OF llama_sizes_D(1) [OF assms(2)]] h [OF llama_sizes_D(2) [OF assms(2)]]
    unfolding llama_row_def Let_def llama_lib_ok_def rotate_vec_def by (cases "lb_rotary lib p") (auto, metis fst_conv min.idem snd_conv)
qed

lemma llama_head_length:
  assumes sizes: "llama_sizes layer"
    and c: "fitting (\<lambda>v. length v = la_head_dim (ll_self_attn layer)) [B * la_num_key_value_heads (ll_self_attn layer), B * la_num_key_value_heads (ll_self_attn layer)] n c"
    and b: "b < B" and h: "h < la_num_heads (ll_self_attn layer)"
  shows "length (llama_head lib layer p x c b h) = la_head_dim (ll_self_attn layer)"
proof -
  let ?a = "ll_self_attn layer"
  let ?j = "b * la_num_key_value_heads ?a + h div la_num_key_value_groups ?a"
  have "h div la_num_key_value_groups ?a < la_num_key_value_heads ?a" using h llama_sizes_D(6) [OF sizes] by (simp add: less_mult_imp_div_less)
  then have "?j < B * la_num_key_value_heads ?a" using b by (rule row_index)
  then have "\<forall>v \<in> set (c ! 1 ! ?j). length v = la_head_dim ?a" using c unfolding fitting_rows by (auto simp: in_set_conv_nth)
  then show ?thesis by (simp add: llama_head_def Let_def length_weighted_sum)
qed

lemma heads_length:
  assumes "llama_sizes layer"
    and "fitting (\<lambda>v. length v = la_head_dim (ll_self_attn layer)) [B * la_num_key_value_heads (ll_self_attn layer), B * la_num_key_value_heads (ll_self_attn layer)] n c"
    and "b < B"
  shows "length (concat (map (llama_head lib layer p x c b) [0..<la_num_heads (ll_self_attn layer)])) = la_hidden_size (ll_self_attn layer)"
proof -
  have "map length (map (llama_head lib layer p x c b) [0..<la_num_heads (ll_self_attn layer)]) = map (\<lambda>_. la_head_dim (ll_self_attn layer)) [0..<la_num_heads (ll_self_attn layer)]"
    by (auto simp: llama_head_length [OF assms])
  then show ?thesis unfolding length_concat llama_sizes_D(7) [OF assms(1)] by (simp add: sum_list_replicate map_replicate_const)
qed

lemma llama_position_shape:
  assumes "llama_sizes layer" "token_shape B (la_hidden_size (ll_self_attn layer)) x"
  shows "token_shape B (la_hidden_size (ll_self_attn layer)) (llama_position lib layer p x c)"
proof -
  have "length (lin (la_o_proj (ll_self_attn layer)) y) = la_hidden_size (ll_self_attn layer)" for y
    by (rule length_lin [OF llama_sizes_D(3) [OF assms(1)]])
  then show ?thesis using assms(2) by (auto simp: llama_position_def token_shape_def Let_def llama_sizes_D(8) [OF assms(1)])
qed

text \<open>The projections of the new tokens: queries, and the rows that they add to the caches.\<close>

definition llama_queries :: "llama_lib \<Rightarrow> llama_layer \<Rightarrow> nat \<Rightarrow> nat \<Rightarrow> vec list list \<Rightarrow> heads4" where
  "llama_queries lib layer B m hs =
     map (\<lambda>b. map (\<lambda>h. map (\<lambda>t. llama_query lib layer (m + t) h (hs ! t ! b)) [0..<length hs]) [0..<la_num_heads (ll_self_attn layer)]) [0..<B]"

definition llama_news :: "llama_lib \<Rightarrow> llama_layer \<Rightarrow> nat \<Rightarrow> nat \<Rightarrow> vec list list \<Rightarrow> nat \<Rightarrow> heads4" where
  "llama_news lib layer B m hs i =
     (let K = la_num_key_value_heads (ll_self_attn layer) in
      map (\<lambda>b. map (\<lambda>k. map (\<lambda>t. llama_row lib layer i (b * K + k) (m + t) (hs ! t)) [0..<length hs]) [0..<K]) [0..<B])"

lemma llama_projected:
  assumes sizes: "llama_sizes layer" and B: "0 < B" and hs: "list_all (token_shape B (la_hidden_size (ll_self_attn layer))) hs"
    and past: "kv_length pk = m"
  shows "llama_attention lib (ll_self_attn layer) False g (map (map (ll_input_layernorm layer)) (batch_first B hs)) mk None (Some (pk, pv)) False True =
    (llama_attend lib (ll_self_attn layer) mk (Some (pk, pv)) True (llama_queries lib layer B m hs)
       (llama_news lib layer B m hs 0) (llama_news lib layer B m hs 1) (length hs), g)"
proof -
  let ?a = "ll_self_attn layer" and ?T = "length hs" and ?nf = "ll_input_layernorm layer"
  define K d D where "K = la_num_key_value_heads ?a" and "d = la_head_dim ?a" and "D = la_hidden_size ?a"
  have sz: "la_pretraining_tp ?a \<le> 1" "linear_shape (la_k_proj ?a) D (K * d)" "linear_shape (la_v_proj ?a) D (K * d)"
      "\<forall>x. length x = D \<longrightarrow> length (?nf x) = D" and q: "D = la_num_heads ?a * d" "linear_shape (la_q_proj ?a) D D"
    using sizes unfolding llama_sizes_def Let_def K_def d_def D_def by blast+
  define N where "N = map (map ?nf) (batch_first B hs)"
  have Nt: "N = map (\<lambda>b. map (\<lambda>t. ?nf (hs ! t ! b)) [0..<?T]) [0..<B]" by (simp add: N_def batch_first_table comp_def)
  have "length (hs ! t ! b) = D" if "t < ?T" "b < B" for t b using hs that by (auto simp: list_all_length token_shape_def D_def)
  then have N: "length (hd N) = ?T" "\<forall>seq \<in> set N. \<forall>x \<in> set seq. length x = D" using B sz by (auto simp: Nt hd_map)
  have idx: "(b * K + k) div K = b" "(b * K + k) mod K = k" if "k < K" for b k using that by simp_all
  let ?rot = "\<lambda>l h. \<lambda>seq. map2 (rotate_vec (lb_rotate_half lib)) (map (\<lambda>x. head_of d h (lin l x)) seq) (map (lb_rotary lib) [m..<m + ?T])"
  have qs: "map (\<lambda>seq. map (\<lambda>h. ?rot (la_q_proj ?a) h seq) [0..<la_num_heads ?a]) N = llama_queries lib layer B m hs"
    unfolding Nt map_map comp_def map2_upt llama_queries_def llama_query_def Let_def d_def by (rule refl)
  have k: "map (\<lambda>seq. map (\<lambda>h. ?rot (la_k_proj ?a) h seq) [0..<K]) N = llama_news lib layer B m hs 0"
    unfolding Nt map_map comp_def map2_upt llama_news_def llama_row_def Let_def K_def [symmetric] d_def [symmetric]
    by (intro map_cong refl) (simp add: idx)
  have v: "map (\<lambda>seq. map (\<lambda>h. map (\<lambda>x. head_of d h (lin (la_v_proj ?a) x)) seq) [0..<K]) N = llama_news lib layer B m hs 1"
    unfolding Nt map_map comp_def llama_news_def llama_row_def Let_def K_def [symmetric] d_def [symmetric]
    by (intro map_cong refl) (simp add: idx)
  have "linear_shape (la_q_proj ?a) D (la_num_heads ?a * la_head_dim ?a)" "linear_shape (la_k_proj ?a) D (la_num_key_value_heads ?a * la_head_dim ?a)"
    "linear_shape (la_v_proj ?a) D (la_num_key_value_heads ?a * la_head_dim ?a)" "la_pretraining_tp ?a \<le> 1"
    using sz(1-3) q(2) unfolding K_def d_def q(1) [unfolded d_def, symmetric] by simp_all
  from llama_attention_ok [OF this(4,1-3) N(2) past, where lib = lib and g = g and mk = mk and pv = pv and caching = True]
  show ?thesis unfolding N(1) K_def [symmetric] d_def [symmetric] qs k v N_def [symmetric] .
qed

lemma llama_head_cut:
  assumes "length E = 2" "length (E ! 0) = B * K" "length (E ! 1) = B * K" "K = la_num_key_value_heads (ll_self_attn layer)"
    and "G = la_num_key_value_groups (ll_self_attn layer)" "b < B" "h < K * G"
  shows "weighted_sum (la_head_dim (ll_self_attn layer)) (lb_softmax lib (map (\<lambda>k. Some (dot (llama_query lib layer p h x) k / lb_sqrt lib (la_head_dim (ll_self_attn layer))))
        (take n (E ! 0 ! (b * K + h div G))))) (take n (E ! 1 ! (b * K + h div G))) = llama_head lib layer p x (cut_kvs n E) b h"
proof -
  have "h div G < K" using assms(7) by (simp add: less_mult_imp_div_less)
  then have "b * K + h div G < B * K" using assms(6) by (rule row_index)
  then have "cut_kvs n E ! 0 ! (b * K + h div G) = take n (E ! 0 ! (b * K + h div G))" "cut_kvs n E ! 1 ! (b * K + h div G) = take n (E ! 1 ! (b * K + h div G))"
    using assms(1-3) by (simp_all add: cut_kvs_def)
  then show ?thesis unfolding llama_head_def Let_def assms(4,5) by simp
qed

text \<open>Attention over the caches: the output projection of the heads at every position, and the extended caches.\<close>

definition llama_attn_out :: "llama_lib \<Rightarrow> llama_layer \<Rightarrow> nat \<Rightarrow> vec list list \<Rightarrow> vec kv list \<Rightarrow> nat \<Rightarrow> nat \<Rightarrow> vec" where
  "llama_attn_out lib layer m hs E b t =
     lin (la_o_proj (ll_self_attn layer))
       (concat (map (llama_head lib layer (m + t) (hs ! t ! b) (cut_kvs (Suc (m + t)) E) b) [0..<la_num_heads (ll_self_attn layer)]))"

lemma llama_attended:
  fixes lib layer hs past B m
  defines "K \<equiv> la_num_key_value_heads (ll_self_attn layer)" and "d \<equiv> la_head_dim (ll_self_attn layer)"
    and "D \<equiv> la_hidden_size (ll_self_attn layer)"
  assumes lib: "llama_lib_ok lib d" and sizes: "llama_sizes layer" and B: "0 < B" and hs: "list_all (token_shape B D) hs"
    and past: "fitting (\<lambda>v. length v = d) [B * K, B * K] m past" and E: "E = extend_kvs (llama_row lib layer) m hs past"
  shows "llama_attention lib (ll_self_attn layer) False g (map (map (ll_input_layernorm layer)) (batch_first B hs))
      (Some (lb_causal_mask lib (replicate B (replicate (length hs + m) True)) (B, length hs) m)) None
      (Some (regroup (replicate B K) (past ! 0), regroup (replicate B K) (past ! 1))) False True =
    (Inr (map (\<lambda>b. map (llama_attn_out lib layer m hs E b) [0..<length hs]) [0..<B],
          Some (regroup (replicate B K) (E ! 0), regroup (replicate B K) (E ! 1))), g)"
proof -
  let ?a = "ll_self_attn layer" and ?T = "length hs" and ?g = "regroup (replicate B K)"
  define G where "G = la_num_key_value_groups ?a"
  have H: "0 < K" "la_num_heads ?a = K * G" "D = K * G * d" "la_pretraining_tp ?a \<le> 1" "linear_shape (la_o_proj ?a) D D"
    using sizes unfolding llama_sizes_def Let_def K_def d_def D_def G_def by auto
  obtain pk pv ek ev where p: "past = [pk, pv]" "length pk = B * K" "length pv = B * K" "E = [ek, ev]" "length ek = B * K" "length ev = B * K"
    and e: "\<forall>j < B * K. ek ! j = pk ! j @ map (\<lambda>t. llama_row lib layer 0 j (m + t) (hs ! t)) [0..<?T]"
      "\<forall>j < B * K. ev ! j = pv ! j @ map (\<lambda>t. llama_row lib layer 1 j (m + t) (hs ! t)) [0..<?T]" "\<forall>r \<in> set pk. length r = m" "\<forall>r \<in> set pv. length r = m"
    by (rule extend_two [OF past, of "llama_row lib layer" hs, unfolded E [symmetric]])
  have fit: "fitting (\<lambda>v. length v = d) [B * K, B * K] (m + ?T) E"
    unfolding E using past hs
  proof (rule extend_kvs_fitting)
    show "\<forall>i j p x. i < length [B * K, B * K] \<and> j < [B * K, B * K] ! i \<and> token_shape B D x \<longrightarrow> length (llama_row lib layer i j p x) = d"
      using llama_row_length [OF lib [unfolded d_def] sizes] by (auto simp: K_def D_def d_def less_Suc_eq)
  qed
  have kvl: "kv_length (?g pk) = m" using p(2) e(3) B H(1) by (simp add: regroup_table kv_length_def upt_conv_Cons)
  have keys: "cat_past (?g pk) (llama_news lib layer B m hs 0) = Inr (map (\<lambda>b. map (\<lambda>k. ek ! (b * K + k)) [0..<K]) [0..<B])"
    and vals: "cat_past (?g pv) (llama_news lib layer B m hs 1) = Inr (map (\<lambda>b. map (\<lambda>k. ev ! (b * K + k)) [0..<K]) [0..<B])"
    unfolding llama_news_def Let_def K_def [symmetric] regroup_table [OF p(5), symmetric] regroup_table [OF p(6), symmetric]
    using e(1,2) row_index by (auto intro!: cat_past_ok p)
  have len: "\<forall>b < B. \<forall>j < K. length (ek ! (b * K + j)) = m + ?T \<and> length (ev ! (b * K + j)) = m + ?T \<and> (\<forall>x \<in> set (ev ! (b * K + j)). length x = d)"
  proof -
    have "\<forall>i < 2. \<forall>j < [B * K, B * K] ! i. length (E ! i ! j) = m + ?T \<and> (\<forall>n < m + ?T. length (E ! i ! j ! n) = d)"
      using fit unfolding fitting_rows by simp
    from this [THEN spec, of 0] this [THEN spec, of 1]
    have "\<forall>j < B * K. length (ek ! j) = m + ?T" "\<forall>j < B * K. length (ev ! j) = m + ?T \<and> (\<forall>n < m + ?T. length (ev ! j ! n) = d)"
      by (simp_all add: p(4))
    then show ?thesis using row_index by (simp add: all_set_conv_all_nth)
  qed
  have lib': "masking_softmax (lb_softmax lib)" "\<forall>h n. lb_repeat_kv lib h n = concat (map (replicate n) h)"
    "lb_causal_mask lib (replicate B (replicate (?T + m) True)) (B, ?T) m = replicate B (map (\<lambda>t. map (\<lambda>j. j \<le> m + t) [0..<m + ?T]) [0..<?T])"
    using lib by (simp_all add: llama_lib_ok_def)
  let ?A = "\<lambda>b t. concat (map (llama_head lib layer (m + t) (hs ! t ! b) (cut_kvs (Suc (m + t)) E) b) [0..<K * G])"
  have heads: "map (\<lambda>b. map (\<lambda>t. concat (map (\<lambda>h. weighted_sum d (lb_softmax lib (map (\<lambda>k. Some (dot (llama_query lib layer (m + t) h (hs ! t ! b)) k / lb_sqrt lib d))
        (take (Suc (m + t)) (ek ! (b * K + h div G))))) (take (Suc (m + t)) (ev ! (b * K + h div G)))) [0..<K * G])) [0..<?T]) [0..<B] =
      map (\<lambda>b. map (?A b) [0..<?T]) [0..<B]"
    using llama_head_cut [of E B K layer G] p(4-6) unfolding d_def K_def G_def
    by (intro map_cong refl arg_cong [where f = concat]) simp
  have proj: "mapR (mapR (project_out (la_pretraining_tp ?a) (la_hidden_size ?a div la_pretraining_tp ?a) (la_o_proj ?a))) (map (\<lambda>b. map (?A b) [0..<?T]) [0..<B]) =
      Inr (map (\<lambda>b. map (llama_attn_out lib layer m hs E b) [0..<?T]) [0..<B])"
  proof -
    have "length (?A b t) = D" if "b < B" "t < ?T" for b t
      using heads_length [OF sizes, of B "Suc (m + t)" "cut_kvs (Suc (m + t)) E" b] cut_kvs_fitting [OF fit, of "Suc (m + t)"] that
      unfolding K_def d_def D_def H(2) [unfolded K_def] by simp
    then have "mapR (mapR (project_out (la_pretraining_tp ?a) (la_hidden_size ?a div la_pretraining_tp ?a) (la_o_proj ?a))) (map (\<lambda>b. map (?A b) [0..<?T]) [0..<B]) =
        Inr (map (map (lin (la_o_proj ?a))) (map (\<lambda>b. map (?A b) [0..<?T]) [0..<B]))"
      by (intro mapR_total) (auto intro!: project_out_ok [OF H(4,5)])
    then show ?thesis by (simp add: llama_attn_out_def H(2) comp_def)
  qed
  have "llama_attend lib ?a (Some (replicate B (map (\<lambda>t. map (\<lambda>j. j \<le> m + t) [0..<m + ?T]) [0..<?T]))) (Some (?g pk, ?g pv)) True
      (llama_queries lib layer B m hs) (llama_news lib layer B m hs 0) (llama_news lib layer B m hs 1) ?T =
    Inr (map (\<lambda>b. map (llama_attn_out lib layer m hs E b) [0..<?T]) [0..<B], Some (?g ek, ?g ev))"
    unfolding llama_queries_def H(2)
    using llama_attend_ok [OF lib'(1,2) B H(1) K_def [THEN meta_eq_to_obj_eq] G_def d_def [THEN meta_eq_to_obj_eq] _ keys vals len, of True
        "\<lambda>b h t. llama_query lib layer (m + t) h (hs ! t ! b)"] H(3)
    unfolding heads proj D_def regroup_table [OF p(5)] regroup_table [OF p(6)] by simp
  then show ?thesis
    using llama_projected [OF sizes B hs [unfolded D_def] kvl] unfolding lib'(3) by (simp add: p(1,4))
qed

lemma llama_run:
  fixes lib layer hs past B m
  defines "K \<equiv> la_num_key_value_heads (ll_self_attn layer)" and "d \<equiv> la_head_dim (ll_self_attn layer)"
    and "D \<equiv> la_hidden_size (ll_self_attn layer)" and "E \<equiv> extend_kvs (llama_row lib layer) m hs past"
  assumes lib: "llama_lib_ok lib d" and sizes: "llama_sizes layer" and B: "0 < B" and hs: "hs \<noteq> []" "list_all (token_shape B D) hs"
    and past: "fitting (\<lambda>v. length v = d) [B * K, B * K] m past"
  shows "llama_block_forward lib layer hs past = Inr (map (\<lambda>t. llama_position lib layer (m + t) (hs ! t) (cut_kvs (Suc (m + t)) E)) [0..<length hs], E)"
proof -
  let ?a = "ll_self_attn layer" and ?T = "length hs" and ?X = "batch_first B hs" and ?g = "regroup (replicate B K)"
  let ?mk = "lb_causal_mask lib (replicate B (replicate (?T + m) True)) (B, ?T) m" and ?O = "map (\<lambda>b. map (llama_attn_out lib layer m hs E b) [0..<?T]) [0..<B]"
  let ?f = "\<lambda>r. vadd r (ll_mlp layer (ll_post_attention_layernorm layer r))"
  have o: "linear_shape (la_o_proj ?a) D D" and nf: "\<And>x. length x = D \<Longrightarrow> length (ll_mlp layer (ll_post_attention_layernorm layer x)) = D"
    using sizes unfolding llama_sizes_def Let_def D_def by blast+
  have lo: "length (llama_attn_out lib layer m hs E b t) = D" for b t unfolding llama_attn_out_def by (rule length_lin [OF o])
  have tok: "length (hs ! t) = B" "b < B \<Longrightarrow> length (hs ! t ! b) = D" if "t < ?T" for t b
    using hs(2) that by (auto simp: list_all_length token_shape_def)
  have X: "length ?X = B" "length (hd ?X) = ?T" "length (hd hs) = B" using B tok(1) [of 0] hs(1) by (simp_all add: batch_first_table hd_map hd_conv_nth)
  have res: "map2 (map2 vadd) ?X ?O = map (\<lambda>b. map (\<lambda>t. vadd (hs ! t ! b) (llama_attn_out lib layer m hs E b t)) [0..<?T]) [0..<B]"
    unfolding batch_first_table zip_tables map_map comp_def prod.case by (rule refl)
  have layer: "fst (llama_layer_forward lib layer False g ?X (Some ?mk) None (Some (?g (past ! 0), ?g (past ! 1))) False True) =
      Inr (map (map ?f) (map2 (map2 vadd) ?X ?O), Some (?g (E ! 0), ?g (E ! 1)))" for g
  proof (rule layer_forward_ok)
    show "llama_attention lib ?a False (g\<lparr>lg_pre_attn := lg_pre_attn g\<rparr>) (map (map (ll_input_layernorm layer)) ?X) (Some ?mk) None
        (Some (?g (past ! 0), ?g (past ! 1))) False True = (Inr (?O, Some (?g (E ! 0), ?g (E ! 1))), g\<lparr>lg_pre_attn := lg_pre_attn g\<rparr>)"
      unfolding K_def by (rule llama_attended [OF lib [unfolded d_def] sizes B hs(2) [unfolded D_def] past [unfolded K_def d_def] E_def [THEN meta_eq_to_obj_eq]])
    show "map (map length) ?X = map (map length) ?O" using tok by (auto simp: batch_first_table lo)
    show "\<forall>seq \<in> set (map2 (map2 vadd) ?X ?O). \<forall>x \<in> set seq. length (ll_mlp layer (ll_post_attention_layernorm layer x)) = length x"
      unfolding res using tok lo nf by auto
  qed
  obtain pk pv ek ev where p: "past = [pk, pv]" "length pk = B * K" "length pv = B * K" "E = [ek, ev]" "length ek = B * K" "length ev = B * K"
    and e: "\<forall>j < B * K. ek ! j = pk ! j @ map (\<lambda>t. llama_row lib layer 0 j (m + t) (hs ! t)) [0..<?T]"
      "\<forall>j < B * K. ev ! j = pv ! j @ map (\<lambda>t. llama_row lib layer 1 j (m + t) (hs ! t)) [0..<?T]" "\<forall>r \<in> set pk. length r = m" "\<forall>r \<in> set pv. length r = m"
    by (rule extend_two [OF past, of "llama_row lib layer" hs, unfolded E_def [symmetric]])
  have reorder: "reorder_cache_from_bloom_to_llama K past B = Inr (?g (past ! 0), ?g (past ! 1))"
    by (simp add: reorder_cache_from_bloom_to_llama_def p(1-3) rows_length [OF p(2) e(3)] rows_length [OF p(3) e(4)])
  have bloom: "reorder_cache_from_llama_to_bloom K (?g (E ! 0), ?g (E ! 1)) B = Inr E"
  proof -
    have "map length ek = map length ev" using e p by (intro nth_equalityI) simp_all
    then show ?thesis
      by (simp add: reorder_cache_from_llama_to_bloom_def p(4) regroup_table [OF p(5)] regroup_table [OF p(6)] concat_table [OF p(5)] concat_table [OF p(6)] p(6))
  qed
  have final: "token_first ?T (map (map ?f) (map2 (map2 vadd) ?X ?O)) = map (\<lambda>t. llama_position lib layer (m + t) (hs ! t) (cut_kvs (Suc (m + t)) E)) [0..<?T]"
    unfolding res token_first_def llama_position_def Let_def llama_attn_out_def by (auto simp: tok comp_def)
  show ?thesis
    unfolding llama_block_forward_def wrapped_llama_forward_def Let_def X K_def [symmetric] option.case past_length_fitting [OF past] reorder
    by (simp add: fst_case layer [unfolded One_nat_def] bloom [unfolded One_nat_def] final [unfolded One_nat_def] del: map_map)
qed

lemma llama_causal:
  assumes "llama_lib_ok lib (la_head_dim (ll_self_attn layer))" and "llama_sizes layer" and "0 < batch_size"
  shows "causal_module (token_shape batch_size (la_hidden_size (ll_self_attn layer))) (\<lambda>v. length v = la_head_dim (ll_self_attn layer))
    [batch_size * la_num_key_value_heads (ll_self_attn layer), batch_size * la_num_key_value_heads (ll_self_attn layer)] (llama_block_forward lib layer)"
proof (rule positional_causal [where F = "llama_position lib layer" and row = "llama_row lib layer"])
  let ?B = batch_size and ?K = "la_num_key_value_heads (ll_self_attn layer)"
  let ?vec = "\<lambda>v. length v = la_head_dim (ll_self_attn layer)" and ?tok = "token_shape batch_size (la_hidden_size (ll_self_attn layer))"
  show "\<forall>hs past m. hs \<noteq> [] \<and> list_all ?tok hs \<and> fitting ?vec [?B * ?K, ?B * ?K] m past \<longrightarrow>
      llama_block_forward lib layer hs past = Inr (map (\<lambda>t. llama_position lib layer (m + t) (hs ! t) (cut_kvs (Suc (m + t)) (extend_kvs (llama_row lib layer) m hs past))) [0..<length hs],
        extend_kvs (llama_row lib layer) m hs past)"
    using llama_run [OF assms] by blast
  show "\<forall>p x c. ?tok x \<and> fitting ?vec [?B * ?K, ?B * ?K] (Suc p) c \<longrightarrow> ?tok (llama_position lib layer p x c)"
    using llama_position_shape [OF assms(2)] by blast
  show "\<forall>i j p x. i < length [?B * ?K, ?B * ?K] \<and> j < [?B * ?K, ?B * ?K] ! i \<and> ?tok x \<longrightarrow> ?vec (llama_row lib layer i j p x)"
    using llama_row_length [OF assms(1,2)] by (auto simp: less_Suc_eq)
qed

text \<open>C5. A Llama block is causal: on batches of any size and caches of the right shape, its forward pass returns as many tokens
  as it is given and extends the caches by their keys and values, and passing two parts of a sequence one
  after the other, the caches of the first going into the second, returns the outputs and the caches of one pass
  over the whole sequence. So the steps of the backend, and its chunks, compute what the layer computes.\<close>

theorem llama_block_causal:
  assumes "llama_lib_ok lib (la_head_dim (ll_self_attn layer))" and "llama_sizes layer" and "0 < batch_size"
  shows "causal_module (token_shape batch_size (la_hidden_size (ll_self_attn layer))) (\<lambda>v. length v = la_head_dim (ll_self_attn layer))
    [batch_size * la_num_key_value_heads (ll_self_attn layer), batch_size * la_num_key_value_heads (ll_self_attn layer)] (llama_block_forward lib layer)"
  using assms by (rule llama_causal)

subsection \<open>Sliced projections\<close>

lemma split_even:
  assumes "length xs = n * c" "0 < c" "0 < n"
  shows "split_list c xs = Inr (map (\<lambda>i. take c (drop (i * c) xs)) [0..<n])"
proof -
  have "(n * c + c - 1) div c = n" using assms(2) by (intro div_nat_eqI) (simp_all add: algebra_simps)
  then have "range_step (length xs) c = map (\<lambda>i. i * c) [0..<n]" by (simp add: range_step_def assms(1))
  then show ?thesis using assms by (auto simp: split_list_def comp_def)
qed

lemma concat_slices: "length xs = n * c \<Longrightarrow> concat (map (\<lambda>i. take c (drop (i * c) xs)) [0..<n]) = xs"
  unfolding regroup_replicate [symmetric] by (rule concat_regroup) (simp add: sum_list_replicate)

lemma project_sliced:
  assumes "1 < tp" "linear_shape l m (tp * c)" "ln_bias l = None" "0 < c"
  shows "project tp c l x = linear_forward l x"
proof -
  let ?W = "ln_weight l"
  let ?s = "\<lambda>i. take c (drop (i * c) ?W)"
  have W: "length ?W = tp * c" "\<forall>row \<in> set ?W. length row = m" using assms(2) by (simp_all add: linear_shape_def)
  have sp: "split_list c ?W = Inr (map ?s [0..<tp])" using split_even [OF W(1) assms(4)] assms(1) by simp
  have loop: "mapR (\<lambda>i. bindR (py_index (map ?s [0..<tp]) (int i)) (\<lambda>w. apply_weight w x)) [0..<tp] = mapR (\<lambda>i. apply_weight (?s i) x) [0..<tp]"
    by (intro mapR_cong refl) (simp add: py_index_nth)
  have proj: "project tp c l x = bindR (mapR (\<lambda>i. apply_weight (?s i) x) [0..<tp]) (\<lambda>ys. Inr (concat ys))"
    unfolding project_def sp bindR_simps loop using assms(1) by simp
  show ?thesis
  proof (cases "length x = m")
    case True
    have "mapR (\<lambda>i. apply_weight (?s i) x) [0..<tp] = Inr (map (\<lambda>i. map (\<lambda>row. dot row x) (?s i)) [0..<tp])"
    proof (rule mapR_total)
      fix i
      have "\<forall>row \<in> set (?s i). length row = length x" using True W(2) by (meson in_set_takeD in_set_dropD)
      then show "apply_weight (?s i) x = Inr (map (\<lambda>row. dot row x) (?s i))" by (simp add: apply_weight_def)
    qed
    moreover have "concat (map (\<lambda>i. map (\<lambda>row. dot row x) (?s i)) [0..<tp]) = map (\<lambda>row. dot row x) ?W"
    proof -
      have "concat (map (\<lambda>i. map (\<lambda>row. dot row x) (?s i)) [0..<tp]) = map (\<lambda>row. dot row x) (concat (map ?s [0..<tp]))"
        by (simp add: map_concat comp_def)
      then show ?thesis by (simp only: concat_slices [OF W(1)])
    qed
    ultimately show ?thesis
      unfolding proj linear_forward_def using assms(3) True W(2) by (simp add: apply_weight_def)
  next
    case False
    have "apply_weight (?s i) x = Inl RuntimeError" if "i < tp" for i
    proof -
      have "i * c < length ?W" using that assms(4) W(1) by simp
      then have "?s i \<noteq> []" using assms(4) by simp
      then obtain row where "row \<in> set (?s i)" using hd_in_set by blast
      moreover from this have "row \<in> set ?W" by (auto dest: in_set_takeD in_set_dropD)
      ultimately have "\<not> (\<forall>row \<in> set (?s i). length row = length x)" using False W(2) by metis
      then show ?thesis by (simp only: apply_weight_def guardR_simps)
    qed
    then have "mapR (\<lambda>i. apply_weight (?s i) x) [0..<tp] = Inl RuntimeError" using assms(1) by (intro mapR_Inl_first) auto
    moreover have "\<not> (\<forall>row \<in> set ?W. length row = length x)"
    proof -
      have "?W \<noteq> []" using W(1) assms(1,4) by auto
      then show ?thesis using False W(2) by (metis list.set_intros(1) neq_Nil_conv)
    qed
    then have "apply_weight ?W x = Inl RuntimeError" by (simp only: apply_weight_def guardR_simps)
    ultimately show ?thesis unfolding proj linear_forward_def by simp
  qed
qed

lemma dot_slices:
  "length r = n * c \<Longrightarrow> length x = n * c \<Longrightarrow> dot r x = sum_list (map (\<lambda>i. dot (take c (drop (i * c) r)) (take c (drop (i * c) x))) [0..<n])"
proof (induction n arbitrary: r x)
  case (Suc n)
  have d: "dot (xs @ ys) (us @ vs) = dot xs us + dot ys vs" if "length xs = length us" for xs ys us vs
    using that by (simp add: dot_def vmul_def)
  have "dot r x = dot (take c r @ drop c r) (take c x @ drop c x)" by simp
  also have "\<dots> = dot (take c r) (take c x) + dot (drop c r) (drop c x)" using Suc.prems by (intro d) simp
  also have "dot (drop c r) (drop c x) = sum_list (map (\<lambda>i. dot (take c (drop (i * c) (drop c r))) (take c (drop (i * c) (drop c x)))) [0..<n])"
    using Suc.prems by (intro Suc.IH) simp_all
  also have "[0..<Suc n] = 0 # map Suc [0..<n]" by (simp add: map_Suc_upt upt_conv_Cons del: upt_Suc)
  ultimately show ?case by (simp add: comp_def add.commute)
qed (simp add: dot_def vmul_def)

lemma sum_of_parts:
  "foldl vadd (map (\<lambda>r. f r z) W) (map (\<lambda>i. map (\<lambda>r. f r i) W) zs) = map (\<lambda>r. f r z + sum_list (map (f r) zs)) W"
proof (induction zs rule: rev_induct)
  case (snoc i zs)
  have "vadd (map g W) (map h W) = map (\<lambda>r. g r + h r) W" for g h by (induction W) (simp_all add: vadd_def)
  with snoc show ?case by (simp add: add.assoc)
qed simp

lemma project_out_sliced:
  assumes "1 < tp" "linear_shape l (tp * c) n" "ln_bias l = None" "0 < c" "length x = tp * c"
  shows "project_out tp c l x = linear_forward l x"
proof -
  let ?W = "ln_weight l" and ?s = "\<lambda>i x. take c (drop (i * c) x)"
  have W: "\<forall>row \<in> set ?W. length row = tp * c" using assms(2) by (simp add: linear_shape_def)
  have sx: "split_list c x = Inr (map (\<lambda>i. ?s i x) [0..<tp])" using split_even [OF assms(5,4)] assms(1) by simp
  have rows: "mapR (split_list c) ?W = Inr (map (\<lambda>r. map (\<lambda>i. ?s i r) [0..<tp]) ?W)"
  proof (rule mapR_total)
    fix r assume "r \<in> set ?W"
    then have "length r = tp * c" using W by blast
    then show "split_list c r = Inr (map (\<lambda>i. ?s i r) [0..<tp])" using assms(1,4) by (intro split_even) simp_all
  qed
  have slice_len: "length (?s i y) = c" if "i < tp" "length y = tp * c" for i and y :: vec
  proof -
    have "Suc i * c \<le> tp * c" using that(1) by (intro mult_le_mono1) simp
    then show ?thesis by (simp add: that(2))
  qed
  have "mapR (\<lambda>i. bindR (py_index (map (\<lambda>i. ?s i x) [0..<tp]) (int i)) (\<lambda>xi.
      bindR (mapR (\<lambda>r. py_index r (int i)) (map (\<lambda>r. map (\<lambda>i. ?s i r) [0..<tp]) ?W)) (\<lambda>w. apply_weight w xi))) [0..<tp] =
      Inr (map (\<lambda>i. map (\<lambda>r. dot (?s i r) (?s i x)) ?W) [0..<tp])"
  proof (rule mapR_total)
    fix i assume "i \<in> set [0..<tp]"
    then have i: "i < tp" by simp
    then have "mapR (\<lambda>r. py_index r (int i)) (map (\<lambda>r. map (\<lambda>i. ?s i r) [0..<tp]) ?W) = Inr (map (\<lambda>r. r ! i) (map (\<lambda>r. map (\<lambda>i. ?s i r) [0..<tp]) ?W))"
      by (intro mapR_total) (auto simp: py_index_nth)
    moreover have "apply_weight (map (\<lambda>r. ?s i r) ?W) (?s i x) = Inr (map (\<lambda>r. dot (?s i r) (?s i x)) ?W)"
      using slice_len [OF i] W assms(5) by (simp add: apply_weight_def comp_def)
    ultimately show "bindR (py_index (map (\<lambda>i. ?s i x) [0..<tp]) (int i)) (\<lambda>xi.
        bindR (mapR (\<lambda>r. py_index r (int i)) (map (\<lambda>r. map (\<lambda>i. ?s i r) [0..<tp]) ?W)) (\<lambda>w. apply_weight w xi)) =
        Inr (map (\<lambda>r. dot (?s i r) (?s i x)) ?W)"
      using i by (simp add: py_index_nth comp_def)
  qed
  moreover have "[0..<tp] = 0 # [1..<tp]" using assms(1) by (simp add: upt_conv_Cons)
  then have "foldl vadd (hd (map (\<lambda>i. map (\<lambda>r. dot (?s i r) (?s i x)) ?W) [0..<tp])) (tl (map (\<lambda>i. map (\<lambda>r. dot (?s i r) (?s i x)) ?W) [0..<tp])) =
      map (\<lambda>r. sum_list (map (\<lambda>i. dot (?s i r) (?s i x)) [0..<tp])) ?W"
    using sum_of_parts [of "\<lambda>r i. dot (?s i r) (?s i x)" 0 ?W "[1..<tp]"] by simp
  moreover have "map (\<lambda>r. sum_list (map (\<lambda>i. dot (?s i r) (?s i x)) [0..<tp])) ?W = map (\<lambda>r. dot r x) ?W"
    using W assms(5) by (intro map_cong refl) (simp add: dot_slices)
  ultimately show ?thesis
    using assms(1,3,5) W by (simp add: project_out_def sx rows linear_forward_def apply_weight_def)
qed

text \<open>Tensor-parallel pretraining does not matter: when the slices divide the projections and these have no bias, the
  attention that projects in \<open>pretraining_tp\<close> slices returns exactly what the attention with whole projections
  returns, caches and exceptions included (the client's configuration sets the number to 1 for this reason).\<close>

theorem pretraining_tp_irrelevant:
  assumes tp: "1 < la_pretraining_tp a" "la_hidden_size a = la_pretraining_tp a * c" "0 < c"
    and heads: "la_num_heads a * la_head_dim a = la_pretraining_tp a * cq" "0 < cq"
      "la_num_key_value_heads a * la_head_dim a = la_pretraining_tp a * ck" "0 < ck"
    and shapes: "linear_shape (la_q_proj a) D (la_pretraining_tp a * cq)" "linear_shape (la_k_proj a) D (la_pretraining_tp a * ck)"
      "linear_shape (la_v_proj a) D (la_pretraining_tp a * ck)" "linear_shape (la_o_proj a) (la_hidden_size a) D'"
    and bias: "ln_bias (la_q_proj a) = None" "ln_bias (la_k_proj a) = None" "ln_bias (la_v_proj a) = None" "ln_bias (la_o_proj a) = None"
  shows "llama_attention lib a fast g hidden_states mk ps past output_attentions caching =
    llama_attention lib (a\<lparr>la_pretraining_tp := 1\<rparr>) fast g hidden_states mk ps past output_attentions caching"
proof -
  let ?tp = "la_pretraining_tp a"
  have c: "la_hidden_size a div ?tp = c" "?tp * cq div ?tp = cq" "?tp * ck div ?tp = ck"
    using tp by simp_all
  have whole: "project 1 c' l x = linear_forward l x" "project_out 1 c' l x = linear_forward l x" for c' l x
    by (simp_all add: project_def project_out_def)
  have q: "project ?tp cq (la_q_proj a) = linear_forward (la_q_proj a)" "project ?tp ck (la_k_proj a) = linear_forward (la_k_proj a)"
    "project ?tp ck (la_v_proj a) = linear_forward (la_v_proj a)"
    using project_sliced [OF tp(1) shapes(1) bias(1) heads(2)] project_sliced [OF tp(1) shapes(2) bias(2) heads(4)]
      project_sliced [OF tp(1) shapes(3) bias(3) heads(4)] by (simp_all add: fun_eq_iff)
  have one: "project 1 c' l = linear_forward l" "project_out 1 c' l = linear_forward l" for c' l
    using whole by (simp_all add: fun_eq_iff)
  have merged: "mapR (mapR (project_out ?tp c (la_o_proj a))) ms = mapR (mapR (linear_forward (la_o_proj a))) ms"
    if ms: "mapR (merge_heads n (la_hidden_size a)) outs = Inr ms" for n outs ms
  proof (intro mapR_cong)
    fix seq x assume seq: "seq \<in> set ms" "x \<in> set seq"
    obtain h where h: "merge_heads n (la_hidden_size a) h = Inr seq" using mapR_memD [OF ms seq(1)] by blast
    from mapR_memD [OF h [unfolded merge_heads_def] seq(2)]
    have "length x = la_hidden_size a" by (auto simp: Let_def resultD)
    then have "length x = ?tp * c" using tp(2) by simp
    then show "project_out ?tp c (la_o_proj a) x = linear_forward (la_o_proj a) x"
      using shapes(4) by (intro project_out_sliced [OF tp(1) _ bias(4) tp(3)]) (simp_all add: tp(2))
  qed
  have attend: "llama_attend lib a mk past caching q k v n = llama_attend lib (a\<lparr>la_pretraining_tp := 1\<rparr>) mk past caching q k v n" for q k v n
    unfolding llama_attend_def Let_def c
    by (simp add: one [unfolded One_nat_def] cong: if_cong)
       (intro bindR_cong_Inr, auto intro!: arg_cong2 [where f = "guardR _"] bindR_cong_Inr simp: merged split: prod.splits)
  show ?thesis
    unfolding llama_attention_def Let_def heads(1,3) attend
    by (simp add: c q one [unfolded One_nat_def] heads(1,3) attend cong: if_cong)
qed

subsection \<open>CUDA graphs\<close>

text \<open>Graphs that are not captured yet or were captured with batches of \<open>n\<close> sequences.\<close>

definition graphs_for :: "nat \<Rightarrow> llama_graphs \<Rightarrow> bool" where
  "graphs_for n g \<longleftrightarrow> {lg_rotary g, lg_pre_attn g, lg_post_attn g} \<subseteq> {None, Some n}"

lemma llama_attend_length:
  assumes "llama_attend lib a mk past caching q k v n = Inr (out, present)" "length k = length q" "length v = length q"
  shows "length out = length q"
  using assms
  by (auto simp: llama_attend_def cat_past_def resultD Let_def dest!: mapR_length map_eq_imp_length_eq split: option.splits prod.splits)

lemma run_norm_graph:
  "captured \<in> {None, Some (length X)} \<Longrightarrow>
   fst (run_norm fast f captured X) = Inr (map (map f) X) \<and> snd (run_norm fast f captured X) \<in> {None, Some (length X)}"
  using run_graphed_same [of captured X "map (map f)"] by (auto simp: run_norm_def)

lemma attention_graph:
  assumes "lg_rotary g \<in> {None, Some (length X)}"
  shows "fst (llama_attention lib a fast g X mk ps past oa caching) = fst (llama_attention lib a False g' X mk ps past oa caching) \<and>
    (\<exists>c \<in> {None, Some (length X)}. snd (llama_attention lib a fast g X mk ps past oa caching) = g\<lparr>lg_rotary := c\<rparr>)"
proof -
  let ?tp = "la_pretraining_tp a" and ?d = "la_head_dim a" and ?n = "la_num_heads a" and ?k = "la_num_key_value_heads a"
  define m where "m = bindR (mapR (mapR (project ?tp (?n * ?d div ?tp) (la_q_proj a))) X) (\<lambda>qs.
             bindR (mapR (mapR (project ?tp (?k * ?d div ?tp) (la_k_proj a))) X) (\<lambda>ks.
             bindR (mapR (mapR (project ?tp (?k * ?d div ?tp) (la_v_proj a))) X) (\<lambda>vs.
             bindR (mapR (to_heads ?n ?d) qs) (\<lambda>q. bindR (mapR (to_heads ?k ?d) ks) (\<lambda>k. bindR (mapR (to_heads ?k ?d) vs) (\<lambda>v.
             Inr (q, k, v)))))))"
  have g: "g\<lparr>lg_rotary := lg_rotary g\<rparr> = g" by simp
  show ?thesis
  proof (cases m)
    case (Inl e)
    then show ?thesis using assms g unfolding llama_attention_def Let_def m_def [symmetric] by (auto simp del: insert_iff intro!: bexI [of _ "lg_rotary g"])
  next
    case (Inr qkv)
    obtain q k v where qkv: "qkv = (q, k, v)" by (cases qkv)
    have "length (zip q k) = length X" using Inr by (auto simp: m_def qkv resultD dest!: mapR_length)
    then have rg: "run_graphed R (lg_rotary g) (zip q k) = (Inr (R (zip q k)), Some (length X))" for R :: "_ \<Rightarrow> (vec list list \<times> vec list list) list"
      using assms run_graphed_same [of "lg_rotary g" "zip q k" R] by simp
    show ?thesis
      using assms g unfolding llama_attention_def Let_def m_def [symmetric] Inr qkv sum.case prod.case rg by (auto simp del: insert_iff intro!: bexI [of _ "lg_rotary g"])
  qed
qed

lemma attention_length:
  assumes "fst (llama_attention lib a False g X mk ps past oa caching) = Inr (out, present)"
  shows "length out = length X"
  using assms unfolding llama_attention_def Let_def
  by (auto simp: resultD split: if_splits sum.splits prod.splits dest!: mapR_length llama_attend_length)

lemma layer_graph:
  assumes g: "graphs_for (length X) g"
  shows "fst (llama_layer_forward lib layer fast g X mk ps past oa caching) = fst (llama_layer_forward lib layer False g' X mk ps past oa caching) \<and>
    graphs_for (length X) (snd (llama_layer_forward lib layer fast g X mk ps past oa caching))"
proof -
  let ?N = "map (map (ll_input_layernorm layer)) X"
  obtain c1 where n1: "run_norm fast (ll_input_layernorm layer) (lg_pre_attn g) X = (Inr ?N, c1)" "c1 \<in> {None, Some (length X)}"
    using run_norm_graph [of "lg_pre_attn g" X fast "ll_input_layernorm layer"] g unfolding graphs_for_def by (metis insert_subset prod.collapse)
  let ?g1 = "g\<lparr>lg_pre_attn := c1\<rparr>" and ?h1 = g'
  obtain r where r: "fst (llama_attention lib (ll_self_attn layer) False ?h1 ?N mk ps past oa caching) = r" by blast
  have "lg_rotary ?g1 \<in> {None, Some (length ?N)}" using g by (simp add: graphs_for_def)
  from attention_graph [OF this, of lib "ll_self_attn layer" fast mk ps past oa caching ?h1]
  obtain c2 where a: "llama_attention lib (ll_self_attn layer) fast ?g1 ?N mk ps past oa caching = (r, ?g1\<lparr>lg_rotary := c2\<rparr>)" "c2 \<in> {None, Some (length X)}"
    unfolding r by (metis (no_types, lifting) length_map prod.collapse)
  obtain h2 where a': "llama_attention lib (ll_self_attn layer) False ?h1 ?N mk ps past oa caching = (r, h2)" using r by (metis prod.collapse)
  have gs: "graphs_for (length X) (?g1\<lparr>lg_rotary := c2\<rparr>)" using g n1(2) a(2) by (auto simp: graphs_for_def)
  show ?thesis
  proof (cases r)
    case (Inl e)
    then show ?thesis using gs unfolding llama_layer_forward_def n1(1) wrapped_norms by (simp add: a(1) a' Let_def)
  next
    case (Inr op)
    obtain out present where op: "op = (out, present)" by (cases op)
    have lo: "length out = length X" using attention_length [of lib "ll_self_attn layer" ?h1 ?N mk ps past oa caching out present] r Inr op by simp
    show ?thesis
    proof (cases "add_residual X out")
      case (Inl e)
      then show ?thesis using gs unfolding llama_layer_forward_def n1(1) wrapped_norms by (simp add: a(1) a' Let_def Inr op \<open>r = Inr op\<close>)
    next
      case res: (Inr residual)
      have lr: "length residual = length X" by (rule add_residual_length [OF res lo])
      obtain c3 where n3: "run_norm fast (ll_post_attention_layernorm layer) (lg_post_attn g) residual = (Inr (map (map (ll_post_attention_layernorm layer)) residual), c3)"
        "c3 \<in> {None, Some (length X)}"
        using run_norm_graph [of "lg_post_attn g" residual fast "ll_post_attention_layernorm layer"] g lr unfolding graphs_for_def by (metis insert_subset prod.collapse)
      show ?thesis
        using gs n3 unfolding llama_layer_forward_def n1(1) wrapped_norms
        by (simp add: a(1) a' Let_def \<open>r = Inr op\<close> op res graphs_for_def)
    qed
  qed
qed

text \<open>A captured graph fixes the batch size: as long as all single-token calls on the device have the same batch size, a layer
  with graphs returns exactly what the layer without graphs returns, exceptions included; but once a graph has been captured with
  \<open>n\<close> sequences, a single-token call with another number of sequences (except 1) raises, so sessions with
  different batch sizes cannot share a block on a GPU.\<close>

theorem graphs_fix_batch_size:
  "(graphs_for (length X) g \<longrightarrow>
      fst (wrapped_llama_forward lib layer fast g X mk ps past caching) = fst (wrapped_llama_forward lib layer False g' X mk ps past caching) \<and>
      graphs_for (length X) (snd (wrapped_llama_forward lib layer fast g X mk ps past caching))) \<and>
   (fast \<and> length (hd X) = 1 \<and> lg_pre_attn g = Some n \<and> length X \<notin> {1, n} \<longrightarrow>
      isl (fst (wrapped_llama_forward lib layer fast g X mk ps past caching)))"
proof (intro conjI impI)
  assume g: "graphs_for (length X) g"
  have "fst (wrapped_llama_forward lib layer fast g X mk ps past caching) = fst (wrapped_llama_forward lib layer False g' X mk ps past caching) \<and>
      graphs_for (length X) (snd (wrapped_llama_forward lib layer fast g X mk ps past caching))"
    using g layer_graph [OF g, of lib layer fast] unfolding wrapped_llama_forward_def Let_def
    by (auto simp: split_beta split: sum.splits)
  then show "fst (wrapped_llama_forward lib layer fast g X mk ps past caching) = fst (wrapped_llama_forward lib layer False g' X mk ps past caching)"
    "graphs_for (length X) (snd (wrapped_llama_forward lib layer fast g X mk ps past caching))" by simp_all
next
  assume h: "fast \<and> length (hd X) = 1 \<and> lg_pre_attn g = Some n \<and> length X \<notin> {1, n}"
  then have "run_norm fast (ll_input_layernorm layer) (lg_pre_attn g) X = (Inl RuntimeError, Some n)"
    by (simp add: run_norm_def run_graphed_def)
  then have "llama_layer_forward lib layer fast g X mk' ps past' False caching = (Inl RuntimeError, g\<lparr>lg_pre_attn := Some n\<rparr>)" for mk' ps past'
    by (simp add: llama_layer_forward_def Let_def)
  then show "isl (fst (wrapped_llama_forward lib layer fast g X mk ps past caching))"
    unfolding wrapped_llama_forward_def Let_def by (auto split: sum.splits)
qed

subsection \<open>A small layer\<close>

text \<open>Four features, two query heads on one key and value head; softmax weighs the allowed positions equally.\<close>

definition demo_softmax :: "rat option list \<Rightarrow> vec" where
  "demo_softmax ws = (let n = length (filter (\<lambda>w. w \<noteq> None) ws) in map (\<lambda>w. if w = None then 0 else 1 / of_nat n) ws)"

definition demo_lib :: llama_lib where
  "demo_lib = \<lparr>lb_rotate_half = \<lambda>x. map uminus (drop (length x div 2) x) @ take (length x div 2) x,
     lb_rotary = \<lambda>p. (replicate 2 (1 / of_nat (p + 1)), replicate 2 (of_nat p)), lb_softmax = demo_softmax, lb_sqrt = of_nat,
     lb_repeat_kv = \<lambda>h n. concat (map (replicate n) h),
     lb_causal_mask = \<lambda>m (_, t) p. map (\<lambda>row. map (\<lambda>i. map (\<lambda>j. row ! j \<and> j \<le> p + i) [0..<length row]) [0..<t]) m\<rparr>"

definition unit_rows :: "nat \<Rightarrow> vec list" where
  "unit_rows n = map (\<lambda>i. map (\<lambda>j. if i = j then 1 else 0) [0..<4]) [0..<n]"

definition demo_attn :: llama_attn where
  "demo_attn = \<lparr>la_num_heads = 2, la_num_key_value_heads = 1, la_num_key_value_groups = 2, la_head_dim = 2, la_hidden_size = 4,
     la_pretraining_tp = 1, la_q_proj = \<lparr>ln_weight = unit_rows 4, ln_bias = None\<rparr>, la_k_proj = \<lparr>ln_weight = unit_rows 2, ln_bias = None\<rparr>,
     la_v_proj = \<lparr>ln_weight = unit_rows 2, ln_bias = None\<rparr>, la_o_proj = \<lparr>ln_weight = unit_rows 4, ln_bias = None\<rparr>\<rparr>"

definition demo_layer :: llama_layer where
  "demo_layer = \<lparr>ll_self_attn = demo_attn, ll_mlp = map ((*) 2), ll_input_layernorm = id, ll_post_attention_layernorm = id\<rparr>"

lemma demo_softmax_ok: "masking_softmax demo_softmax"
  by (auto simp: masking_softmax_def demo_softmax_def Let_def map_replicate_const)

lemma demo_lib_ok: "llama_lib_ok demo_lib 2"
proof -
  have "map (\<lambda>row. map (\<lambda>i. map (\<lambda>j. row ! j \<and> j \<le> p + i) [0..<length row]) [0..<T]) (replicate B (replicate (T + p) True)) =
      replicate B (map (\<lambda>t. map (\<lambda>j. j \<le> p + t) [0..<p + T]) [0..<T])" for B T p :: nat
    by (auto intro!: nth_equalityI simp: add.commute)
  then show ?thesis by (simp add: llama_lib_ok_def demo_lib_def demo_softmax_ok)
qed

lemma unit_rows_shape: "n \<le> 4 \<Longrightarrow> linear_shape \<lparr>ln_weight = unit_rows n, ln_bias = None\<rparr> 4 n"
  by (auto simp: linear_shape_def unit_rows_def)

lemma demo_layer_sizes: "llama_sizes demo_layer"
  by (simp add: llama_sizes_def demo_layer_def demo_attn_def unit_rows_shape)

text \<open>Two tokens in one pass and in two steps.\<close>

theorem llama_block_causal_witness:
  "llama_block_forward demo_lib demo_layer ([[[1, 2, 3, 4]]] @ [[[0, 1, 0, 1]]]) [[[]], [[]]] =
     bindR (llama_block_forward demo_lib demo_layer [[[1, 2, 3, 4]]] [[[]], [[]]]) (\<lambda>(o1, k1).
     bindR (llama_block_forward demo_lib demo_layer [[[0, 1, 0, 1]]] k1) (\<lambda>(o2, k2). Inr (o1 @ o2, k2)))"
proof (rule causal_append [where m = 0])
  have sz: "la_head_dim (ll_self_attn demo_layer) = 2" "la_hidden_size (ll_self_attn demo_layer) = 4" "la_num_key_value_heads (ll_self_attn demo_layer) = 1"
    by (simp_all add: demo_layer_def demo_attn_def)
  show "causal_module (token_shape 1 4) (\<lambda>v. length v = 2) [1, 1] (llama_block_forward demo_lib demo_layer)"
    using llama_block_causal [of demo_lib demo_layer 1] demo_lib_ok demo_layer_sizes unfolding sz by simp
qed (simp_all add: token_shape_def fitting_def uniform_def)

text \<open>The same pass, evaluated.\<close>

lemma demo_llama_step:
  "llama_block_forward demo_lib demo_layer [[[1, 2, 3, 4]], [[0, 1, 0, 1]]] [[[]], [[]]] =
     Inr ([[[6, 12, 12, 18]], [[3 / 2, 15 / 2, 3 / 2, 15 / 2]]], [[[[1, 2], [- 1, 1 / 2]]], [[[1, 2], [0, 1]]]])"
  by code_simp

theorem pretraining_tp_irrelevant_witness:
  "llama_attention demo_lib (demo_attn\<lparr>la_pretraining_tp := 2\<rparr>) False no_graphs [[[1, 2, 3, 4]]] None None None False False =
   llama_attention demo_lib demo_attn False no_graphs [[[1, 2, 3, 4]]] None None None False False"
proof -
  have "linear_shape \<lparr>ln_weight = unit_rows 2, ln_bias = None\<rparr> 4 2" "linear_shape \<lparr>ln_weight = unit_rows 4, ln_bias = None\<rparr> 4 4"
    by (simp_all add: unit_rows_shape)
  then show ?thesis
    using pretraining_tp_irrelevant [of "demo_attn\<lparr>la_pretraining_tp := 2\<rparr>" 2 2 1 4 4 demo_lib False no_graphs "[[[1, 2, 3, 4]]]" None None None False False]
    by (simp add: demo_attn_def)
qed

theorem graphs_fix_batch_size_witness:
  "fst (wrapped_llama_forward demo_lib demo_layer True no_graphs [[[1, 2, 3, 4]]] None None None False) =
     fst (wrapped_llama_forward demo_lib demo_layer False no_graphs [[[1, 2, 3, 4]]] None None None False) \<and>
   isl (fst (wrapped_llama_forward demo_lib demo_layer True (no_graphs\<lparr>lg_pre_attn := Some 1\<rparr>) [[[1, 2, 3, 4]], [[0, 0, 0, 0]]] None None None False))"
  using graphs_fix_batch_size [of "[[[1, 2, 3, 4]]]" no_graphs demo_lib demo_layer True None None None False no_graphs 0]
    graphs_fix_batch_size [of "[[[1, 2, 3, 4]], [[0, 0, 0, 0]]]" "no_graphs\<lparr>lg_pre_attn := Some 1\<rparr>" demo_lib demo_layer True None None None False no_graphs 1]
  by (simp add: graphs_for_def no_graphs_def)

end
