(* ===== verification/Llama_Server.thy ===== *)
theory Llama_Server
  imports Block_Functions Llama_Block
begin

text \<open>
  A server of Llama blocks: the backend, the inference generator and the handler's loop around
  \<open>WrappedLlamaBlock\<close>. The lemmas show that a pass with empty caches returns what the forward pass without
  caches returns, so a session returns what the layers compute on the whole sequence.
\<close>

text \<open>The sum of two tensors of one shape, for the prompts that a request may add to its tokens.\<close>

instantiation list :: (plus) plus
begin

definition plus_list :: "'a list \<Rightarrow> 'a list \<Rightarrow> 'a list" where
  "plus_list = map2 (+)"

instance ..

end

text \<open>The forward pass without caches, as \<open>rpc_forward\<close> runs it.\<close>

definition llama_plain :: "llama_lib \<Rightarrow> llama_layer \<Rightarrow> vec list list \<Rightarrow> vec list list result" where
  "llama_plain lib layer hs =
     bindR (fst (wrapped_llama_forward lib layer False no_graphs (batch_first (length (hd hs)) hs) None None None False))
       (\<lambda>(output, _). Inr (token_first (length hs) output))"

lemma cat_empty:
  "map length k = replicate B K \<Longrightarrow> cat_past (regroup (replicate B K) (replicate (B * K) [])) k = Inr k"
proof -
  assume k: "map length k = replicate B K"
  have e: "regroup (replicate B K) (replicate (B * K) []) = replicate B (replicate K ([] :: vec list))"
  proof (induction B)
    case (Suc B)
    then show ?case by (simp add: take_replicate)
  qed simp
  have "map2 (@) (replicate (length hs) []) hs = hs" for hs :: "vec list list" by (induction hs) simp_all
  then have "map2 (map2 (@)) (replicate B (replicate K [])) k = k" using k
  proof (induction k arbitrary: B)
    case (Cons hs k)
    then show ?case by (cases B) auto
  qed simp
  then show ?thesis unfolding e by (simp add: cat_past_def k)
qed

lemma attend_empty_past:
  assumes "map length k = replicate B K" "map length v = replicate B K"
  shows "llama_attend lib a mk (Some (regroup (replicate B K) (replicate (B * K) []), regroup (replicate B K) (replicate (B * K) []))) True q k v n =
    bindR (llama_attend lib a mk None False q k v n) (\<lambda>(out, _). Inr (out, Some (k, v)))"
  unfolding llama_attend_def Let_def option.case cat_empty [OF assms(1)] cat_empty [OF assms(2)] bindR_simps prod.case
  by (simp add: bindR_assoc guardR_def)

lemma to_heads_length: "to_heads n d seq = Inr hs \<Longrightarrow> length hs = n"
  by (auto simp: to_heads_def resultD)

lemma heads_lengths: "mapR (to_heads n d) xs = Inr ys \<Longrightarrow> map length ys = replicate (length xs) n"
  by (induction xs arbitrary: ys) (auto simp: resultD to_heads_length)

lemma attention_empty_past:
  assumes K: "K = la_num_key_value_heads a" and pos: "0 < length X" "0 < K"
  defines "P \<equiv> regroup (replicate (length X) K) (replicate (length X * K) [])"
  shows "\<exists>kv. fst (llama_attention lib a False g X mk None (Some (P, P)) False True) =
    bindR (fst (llama_attention lib a False g' X mk None None False False)) (\<lambda>(out, _). Inr (out, Some kv))"
proof -
  have kvl: "kv_length P = 0"
    using pos by (cases "length X"; cases K) (simp_all add: P_def kv_length_def)
  let ?tp = "la_pretraining_tp a" and ?d = "la_head_dim a" and ?n = "la_num_heads a" and ?k = "la_num_key_value_heads a"
  define m where "m = bindR (mapR (mapR (project ?tp (?n * ?d div ?tp) (la_q_proj a))) X) (\<lambda>qs.
             bindR (mapR (mapR (project ?tp (?k * ?d div ?tp) (la_k_proj a))) X) (\<lambda>ks.
             bindR (mapR (mapR (project ?tp (?k * ?d div ?tp) (la_v_proj a))) X) (\<lambda>vs.
             bindR (mapR (to_heads ?n ?d) qs) (\<lambda>q. bindR (mapR (to_heads ?k ?d) ks) (\<lambda>k. bindR (mapR (to_heads ?k ?d) vs) (\<lambda>v.
             Inr (q, k, v)))))))"
  show ?thesis
  proof (cases m)
    case (Inl e)
    then show ?thesis unfolding llama_attention_def Let_def m_def [symmetric] by simp
  next
    case (Inr qkv)
    obtain q k v where qkv: "qkv = (q, k, v)" by (cases qkv)
    have len: "map length q = replicate (length X) (la_num_heads a)" "map length k = replicate (length X) K" "map length v = replicate (length X) K"
      using Inr by (auto simp: m_def qkv resultD K dest!: mapR_length heads_lengths)
    let ?cs = "map (lb_rotary lib) [0..<length (hd X)]"
    let ?qk = "map (apply_rotary_pos_emb (lb_rotate_half lib) ?cs) (zip q k)"
    have lq: "length k = length X" "length q = length X" using len(1,2) by (metis length_map length_replicate)+
    then have "map length (map snd ?qk) = map length k"
      by (intro nth_equalityI) (auto simp: apply_rotary_pos_emb_def split_beta)
    then have k': "map length (map snd ?qk) = replicate (length X) K" using len(2) by simp
    show ?thesis
      using attend_empty_past [OF k' len(3), of lib a mk "map fst ?qk" "length (hd X)"]
      unfolding llama_attention_def Let_def m_def [symmetric] Inr qkv
      by (simp add: kvl P_def [symmetric] del: map_map) blast
  qed
qed

lemma layer_empty_past:
  assumes pos: "0 < length X" "0 < la_num_key_value_heads (ll_self_attn layer)"
  defines "P \<equiv> regroup (replicate (length X) (la_num_key_value_heads (ll_self_attn layer))) (replicate (length X * la_num_key_value_heads (ll_self_attn layer)) [])"
  shows "\<exists>kv. fst (llama_layer_forward lib layer False g X mk None (Some (P, P)) False True) =
    bindR (fst (llama_layer_forward lib layer False g' X mk None None False False)) (\<lambda>(out, _). Inr (out, Some kv))"
proof -
  let ?N = "map (map (ll_input_layernorm layer)) X"
  have N: "0 < length ?N" using pos(1) by simp
  obtain kv where a: "fst (llama_attention lib (ll_self_attn layer) False (g\<lparr>lg_pre_attn := lg_pre_attn g\<rparr>) ?N mk None (Some (P, P)) False True) =
      bindR (fst (llama_attention lib (ll_self_attn layer) False (g'\<lparr>lg_pre_attn := lg_pre_attn g'\<rparr>) ?N mk None None False False)) (\<lambda>(out, _). Inr (out, Some kv))"
    using attention_empty_past [OF refl N pos(2), of lib "g\<lparr>lg_pre_attn := lg_pre_attn g\<rparr>" mk "g'\<lparr>lg_pre_attn := lg_pre_attn g'\<rparr>"] unfolding P_def by auto
  obtain r1 h1 where r1: "llama_attention lib (ll_self_attn layer) False (g\<lparr>lg_pre_attn := lg_pre_attn g\<rparr>) ?N mk None (Some (P, P)) False True = (r1, h1)" by fastforce
  obtain r2 h2 where r2: "llama_attention lib (ll_self_attn layer) False (g'\<lparr>lg_pre_attn := lg_pre_attn g'\<rparr>) ?N mk None None False False = (r2, h2)" by fastforce
  have r: "r1 = bindR r2 (\<lambda>(out, _). Inr (out, Some kv))" using a by (simp only: r1 r2 fst_conv)
  have "fst (llama_layer_forward lib layer False g X mk None (Some (P, P)) False True) =
    bindR (fst (llama_layer_forward lib layer False g' X mk None None False False)) (\<lambda>(out, _). Inr (out, Some kv))"
    unfolding llama_layer_forward_def wrapped_norms prod.case Let_def sum.case r1 r2 r
    by (cases r2) (auto simp: bindR_assoc split: sum.splits)
  then show ?thesis by blast
qed

lemma plain_is_empty_past:
  assumes sizes: "llama_sizes layer" and B: "0 < B" and hs: "hs \<noteq> []" "length (hd hs) = B"
    and run: "llama_block_forward lib layer hs (replicate 2 (replicate (B * la_num_key_value_heads (ll_self_attn layer)) [])) = Inr (out, kvs)"
  shows "llama_plain lib layer hs = Inr out"
proof -
  let ?K = "la_num_key_value_heads (ll_self_attn layer)" and ?X = "batch_first B hs"
  have K: "0 < ?K" by (rule llama_sizes_D(4) [OF sizes])
  have X: "length ?X = B" "length (hd ?X) = length hs" using B by (simp_all add: batch_first_table hd_map)
  let ?P = "regroup (replicate (length ?X) ?K) (replicate (length ?X * ?K) [])"
  have reorder: "reorder_cache_from_bloom_to_llama ?K (replicate 2 (replicate (B * ?K) [])) (length ?X) = Inr (?P, ?P)"
    by (simp add: reorder_cache_from_bloom_to_llama_def numeral_2_eq_2 X(1))
  have pl: "past_length (replicate 2 (replicate (B * ?K) [])) = 0"
    using B K by (cases "B * ?K") (auto simp: past_length_def numeral_2_eq_2)
  have pos: "0 < length ?X" using X(1) B by simp
  let ?mk = "Some (lb_causal_mask lib (replicate B (replicate (length hs) True)) (B, length hs) 0)"
  obtain kv where l: "fst (llama_layer_forward lib layer False no_graphs ?X ?mk None (Some (?P, ?P)) False True) =
      bindR (fst (llama_layer_forward lib layer False no_graphs ?X ?mk None None False False)) (\<lambda>(out, _). Inr (out, Some kv))"
    using layer_empty_past [OF pos K, of lib no_graphs ?mk no_graphs] by blast
  have "bindR (bindR (fst (llama_layer_forward lib layer False no_graphs ?X ?mk None (Some (?P, ?P)) False True)) (\<lambda>(output, present). case present of
        None \<Rightarrow> Inr (output, None) | Some kv \<Rightarrow> bindR (reorder_cache_from_llama_to_bloom ?K kv B) (\<lambda>kvs. Inr (output, Some kvs))))
      (\<lambda>(output, kvs). Inr (token_first (length hs) output, case kvs of None \<Rightarrow> [] | Some k \<Rightarrow> k)) = Inr (out, kvs)"
    using run unfolding llama_block_forward_def wrapped_llama_forward_def Let_def hs(2) option.case pl reorder bindR_simps sum.case
    by (simp add: X fst_case)
  then obtain o1 p1 where "fst (llama_layer_forward lib layer False no_graphs ?X ?mk None None False False) = Inr (o1, p1)" "out = token_first (length hs) o1"
    unfolding l by (auto simp: resultD)
  moreover have "p1 = None" if "fst (llama_layer_forward lib layer False no_graphs ?X ?mk None None False False) = Inr (o1, p1)" for o1 p1
    using that unfolding llama_layer_forward_def llama_attention_def llama_attend_def Let_def wrapped_norms by (auto simp: resultD split: sum.splits prod.splits)
  ultimately show ?thesis
    unfolding llama_plain_def wrapped_llama_forward_def Let_def hs(2) by (simp add: X fst_case)
qed

subsection \<open>A session with Llama blocks\<close>

text \<open>A block of the server: its uid, its backend, its layer and the handles of its caches.\<close>

type_synonym served_block = "module_uid \<times> (vec list, vec) backend \<times> llama_layer \<times> int list"

definition block_link :: "nat \<Rightarrow> served_block \<Rightarrow> (vec list, vec) link" where
  "block_link batch_size = (\<lambda>(uid, b, layer, handles).
     (uid, b, replicate 2 (batch_size * la_num_key_value_heads (ll_self_attn layer)), handles))"

definition serves_llama ::
    "llama_lib \<Rightarrow> string option \<Rightarrow> nat \<Rightarrow> nat \<Rightarrow> (module_uid, (vec list, vec) backend) dict \<Rightarrow> served_block \<Rightarrow> bool" where
  "serves_llama lib ad batch_size hidden backends = (\<lambda>(uid, b, layer, _).
     dict_get backends uid = Some b \<and> sane_backend b (int batch_size) \<and> bk_forward b ad = llama_block_forward lib layer \<and>
     llama_lib_ok lib (la_head_dim (ll_self_attn layer)) \<and> llama_sizes layer \<and> la_hidden_size (ll_self_attn layer) = hidden)"

text \<open>Caches of the allocated shape, with any contents.\<close>

definition fresh_caches :: "nat \<Rightarrow> nat \<Rightarrow> (int, vec cache_tensor) dict \<Rightarrow> served_block \<Rightarrow> bool" where
  "fresh_caches batch_size M store = (\<lambda>(_, _, layer, handles). \<exists>ts. mapR (dict_item store) handles = Inr ts \<and> uniform M (map concat ts) \<and>
     map (length \<circ> concat) ts = replicate 2 (batch_size * la_num_key_value_heads (ll_self_attn layer)))"

lemma block_link_good:
  assumes s: "serves_llama lib ad B D bs blk" and B: "0 < B"
  shows "good_link (token_shape B D) ad (int B) bs (block_link B blk)"
proof -
  obtain uid b layer hs where blk: "blk = (uid, b, layer, hs)" by (cases blk)
  let ?K = "la_num_key_value_heads (ll_self_attn layer)"
  have sz: "llama_sizes layer" "llama_lib_ok lib (la_head_dim (ll_self_attn layer))" using s by (simp_all add: serves_llama_def blk)
  have "row_shape (replicate 2 (B * ?K))" using B llama_sizes_D(4) [OF sz(1)] by (simp add: row_shape_def numeral_2_eq_2)
  moreover have "causal_module (token_shape B D) (\<lambda>v. length v = la_head_dim (ll_self_attn layer)) (replicate 2 (B * ?K)) (bk_forward b ad)"
    using llama_causal [OF sz(2,1) B] s by (simp add: serves_llama_def blk numeral_2_eq_2)
  ultimately show ?thesis using s by (auto simp: good_link_def block_link_def serves_llama_def blk)
qed

lemma fresh_holds:
  assumes "\<forall>blk \<in> set blks. fresh_caches B M store blk"
  shows "chain_holds ad M store (map (block_link B) blks) []"
  using assms
proof (induction blks)
  case (Cons blk blks)
  obtain uid b layer hs where blk: "blk = (uid, b, layer, hs)" by (cases blk)
  let ?shape = "replicate 2 (B * la_num_key_value_heads (ll_self_attn layer))"
  obtain ts where ts: "mapR (dict_item store) hs = Inr ts" "uniform M (map concat ts)" "map (length \<circ> concat) ts = ?shape"
    using Cons.prems by (auto simp: fresh_caches_def blk)
  have "map (\<lambda>t. map (take 0) (concat t)) ts = map (\<lambda>n. replicate n []) (map (length \<circ> concat) ts)"
    by (simp add: map_replicate_const del: map_concat)
  then have "holds_past (bk_forward b ad) ?shape M [] ts" using ts by (simp add: holds_past_def full_kv_def)
  with ts(1) Cons show ?case by (auto simp: block_link_def blk full_out_def)
qed simp

text \<open>One block of a chain on a whole sequence is its forward pass without caches.\<close>

lemma chain_is_plain:
  assumes "\<forall>blk \<in> set blks. serves_llama lib ad B D bs blk" and B: "0 < B" and "X \<noteq> []" "list_all (token_shape B D) X"
  shows "foldR (llama_plain lib) (map (\<lambda>(_, _, layer, _). layer) blks) X = Inr (chain_out ad (map (block_link B) blks) X)"
  using assms(1,3,4)
proof (induction blks arbitrary: X)
  case (Cons blk blks)
  obtain uid b layer hs where blk: "blk = (uid, b, layer, hs)" by (cases blk)
  let ?K = "la_num_key_value_heads (ll_self_attn layer)"
  let ?shape = "replicate 2 (B * ?K)" and ?fw = "llama_block_forward lib layer"
  have sz: "llama_sizes layer" "llama_lib_ok lib (la_head_dim (ll_self_attn layer))" "bk_forward b ad = ?fw" "la_hidden_size (ll_self_attn layer) = D"
    using Cons.prems(1) by (simp_all add: serves_llama_def blk)
  have causal: "causal_module (token_shape B D) (\<lambda>v. length v = la_head_dim (ll_self_attn layer)) ?shape ?fw"
    using llama_causal [OF sz(2,1) B] by (simp add: sz(4) numeral_2_eq_2)
  have shape: "row_shape ?shape" using B llama_sizes_D(4) [OF sz(1)] by (simp add: row_shape_def numeral_2_eq_2)
  obtain out kvs where run: "?fw X (map (\<lambda>n. replicate n []) ?shape) = Inr (out, kvs)" "length out = length X" "list_all (token_shape B D) out"
    using causal_total [OF causal Cons.prems(2,3) fitting_no_past [OF shape]] by blast
  have "length (hd X) = B" using Cons.prems(2,3) by (cases X) (simp_all add: token_shape_def)
  moreover have "map (\<lambda>n. replicate n []) ?shape = replicate 2 (replicate (B * ?K) ([] :: vec list))" by (simp add: map_replicate_const)
  ultimately have plain: "llama_plain lib layer X = Inr out" using plain_is_empty_past [OF sz(1) B Cons.prems(2)] run(1) by simp
  have full: "full_out ?fw ?shape X = out" using Cons.prems(2) run(1) by (simp add: full_out_def)
  have "out \<noteq> []" using run(2) Cons.prems(2) by auto
  with Cons.IH [of out] Cons.prems(1) run(3) plain show ?case by (simp add: blk block_link_def sz(3) full)
qed simp

text \<open>C3. A server of Llama blocks computes the model: with backends whose forward passes are those of \<open>WrappedLlamaBlock\<close>, caches of
  the allocated shape with any contents, and any sequence of requests that fits the maximal length, the generator answers every request,
  and all answers together are exactly what the forward passes of the layers without caches, one after the
  other, return for the whole sequence of tokens.\<close>

theorem llama_server_exact:
  assumes "\<forall>blk \<in> set blks. serves_llama lib ad batch_size hidden bs blk" and "\<forall>blk \<in> set blks. fresh_caches batch_size M store blk"
    and "distinct (concat (map (\<lambda>(_, _, _, handles). handles) blks))" and "0 < batch_size" and "mx \<le> int M"
    and "concat (map fst chunks) \<noteq> []" "list_all (token_shape batch_size hidden) (concat (map fst chunks))" "int (length (concat (map fst chunks))) \<le> mx"
  shows "\<exists>ys store'. iterate_rpc_inference bs (map fst blks) ad (map (\<lambda>(_, _, _, handles). handles) blks) mx quant None
        (plain_requests (int batch_size) chunks) store = (ys, Inr store') \<and>
      foldR (llama_plain lib) (map (\<lambda>(_, _, layer, _). layer) blks) (concat (map fst chunks)) = Inr (concat (map (tokens_of \<circ> fst) ys)) \<and>
      map (length \<circ> tokens_of \<circ> fst) ys = map (length \<circ> fst) chunks"
proof -
  let ?links = "map (block_link batch_size) blks"
  have good: "\<forall>l \<in> set ?links. good_link (token_shape batch_size hidden) ad (int batch_size) bs l"
    using assms(1) block_link_good [OF _ assms(4)] by auto
  have lh: "link_handles ?links = map (\<lambda>(_, _, _, handles). handles) blks" and uids: "map fst ?links = map fst blks"
    by (induction blks) (auto simp: block_link_def)
  have "distinct (concat (link_handles ?links))" using assms(3) by (simp add: lh)
  from server_session [OF good this fresh_holds [OF assms(2)] _ assms(5,8,7), of quant] assms(4)
  obtain ys store' where "iterate_rpc_inference bs (map fst ?links) ad (link_handles ?links) mx quant None (plain_requests (int batch_size) chunks) store = (ys, Inr store')"
    "concat (map (tokens_of \<circ> fst) ys) = chain_out ad ?links (concat (map fst chunks))" "map (length \<circ> tokens_of \<circ> fst) ys = map (length \<circ> fst) chunks" by auto
  with chain_is_plain [OF assms(1,4,6,7)] show ?thesis unfolding lh uids by auto
qed

subsection \<open>A server with one small block\<close>

definition small_backend :: "(vec list, vec) backend" where
  "small_backend = \<lparr>bk_config = \<lparr>cfg_hidden_size = 4, cfg_num_attention_heads = 2, cfg_num_key_value_groups = 2, cfg_num_key_value_heads = Some 1\<rparr>,
     bk_devices = [Some ''cpu''], bk_shard_num_heads = [2], bk_dtype = \<lparr>dt_name = ''float32'', dt_floating = True, dt_complex = False\<rparr>,
     bk_dtype_bytes = 4, bk_max_chunk_size_bytes = 8, bk_cache_bytes_per_token = [(Some ''cpu'', 16)],
     bk_forward = \<lambda>_. llama_block_forward demo_lib demo_layer, bk_empty_like = map (\<lambda>_. []),
     bk_super_forward = \<lambda>_. llama_plain demo_lib demo_layer, bk_super_backward = \<lambda>_ hs g. Inr g\<rparr>"

definition small_blocks :: "served_block list" where
  "small_blocks = [(''m.0'', small_backend, demo_layer, [0, 1])]"

definition small_store :: "(int, vec cache_tensor) dict" where
  "small_store = [(0, [[[[7, 7], [7, 7]]]]), (1, [[[[7, 7], [7, 7]]]])]"

theorem llama_server_exact_witness:
  "\<exists>ys store'. iterate_rpc_inference [(''m.0'', small_backend)] [''m.0''] None [[0, 1]] 2 NONE None
        [([Hidden 1 [[[1, 2, 3, 4]]], Dummy, Ids []], ''a''), ([Hidden 1 [[[0, 1, 0, 1]]], Dummy, Ids []], ''b'')] small_store = (ys, Inr store') \<and>
      llama_plain demo_lib demo_layer [[[1, 2, 3, 4]], [[0, 1, 0, 1]]] = Inr (concat (map (tokens_of \<circ> fst) ys)) \<and>
      map (length \<circ> tokens_of \<circ> fst) ys = [1, 1]"
proof -
  have serves: "\<forall>blk \<in> set small_blocks. serves_llama demo_lib None 1 4 [(''m.0'', small_backend)] blk"
    using demo_lib_ok demo_layer_sizes
    by (auto simp: small_blocks_def serves_llama_def small_backend_def sane_backend_def demo_layer_def demo_attn_def)
  have fresh: "\<forall>blk \<in> set small_blocks. fresh_caches 1 2 small_store blk"
    by (auto simp: small_blocks_def fresh_caches_def small_store_def dict_item_def uniform_def demo_layer_def demo_attn_def numeral_2_eq_2)
  have bind: "bindR m (foldR (llama_plain demo_lib) []) = m" for m by (cases m) simp_all
  from llama_server_exact [OF serves fresh, of 2 "[([[[1, 2, 3, 4]]], ''a''), ([[[0, 1, 0, 1]]], ''b'')]" NONE] show ?thesis
    by (simp add: small_blocks_def plain_requests_def token_shape_def bind)
qed

end
