(* ===== verification/Torch_Modules.thy ===== *)
theory Torch_Modules
  imports Server
begin

text \<open>
  Transformer blocks as trees of \<open>torch.nn\<close> modules, and the conversion steps of
  \<open>src/peerz/utils/convert_block.py\<close> on them: quantization of the linear layers, the head count check of
  tensor parallelism and the warnings about uneven devices. A linear layer of any class is a leaf with its
  weight, bias and LoRA weights; every other module has its own parameters and named children, in the order
  of \<open>named_children\<close>. No module occurs twice in a tree. Numbers are exact; the tensor-parallel split and the
  values that a quantized weight stands for come from the libraries.

  The lemmas describe loops over \<open>named_modules\<close> by what they do to each named layer, and show that
  quantization replaces exactly the plain linear layers that are not output heads.
\<close>

subsection \<open>Trees of modules\<close>

type_synonym matrix = "rat list list"

record parameter =
  pr_value :: matrix
  pr_requires_grad :: bool
  pr_device :: string

definition freeze :: "parameter \<Rightarrow> parameter" where
  "freeze p = p\<lparr>pr_requires_grad := False\<rparr>"

definition param_numel :: "parameter \<Rightarrow> nat" where
  "param_numel p = length (concat (pr_value p))"

text \<open>The classes of linear layers; the last three are the LoRA layers of \<open>utils/peft.py\<close>.\<close>

datatype layer_class =
    Torch_Linear | Bnb_Linear8bitLt | Bnb_Linear4bit | LoraLinear | LoraLinear8bitLt | LoraLinear4bit

record lora_weights =
  lw_A :: parameter
  lw_B :: parameter
  lw_scaling :: rat

record layer =
  ly_class :: layer_class
  ly_in_features :: nat
  ly_out_features :: nat
  ly_weight :: parameter
  ly_bias :: "parameter option"
  ly_compute_dtype :: "string option"                 \<comment> \<open>an attribute of 4-bit layers\<close>
  ly_lora :: "(string, lora_weights) dict"            \<comment> \<open>\<open>lora_A\<close> and \<open>lora_B\<close>, which have the same keys\<close>

record module_info =
  md_classes :: "string list"                         \<comment> \<open>its class and the base classes\<close>
  md_num_heads :: int
  md_parameters :: "parameter list"

datatype nn_module = Layer layer | Module module_info "(string \<times> nn_module) list"

definition layer_parameters :: "layer \<Rightarrow> parameter list" where
  "layer_parameters l =
     ly_weight l # (case ly_bias l of None \<Rightarrow> [] | Some b \<Rightarrow> [b]) @ concat (map (\<lambda>(_, w). [lw_A w, lw_B w]) (ly_lora l))"

definition map_parameters :: "(parameter \<Rightarrow> parameter) \<Rightarrow> layer \<Rightarrow> layer" where
  "map_parameters f l = l\<lparr>ly_weight := f (ly_weight l), ly_bias := map_option f (ly_bias l),
     ly_lora := map (\<lambda>(n, w). (n, w\<lparr>lw_A := f (lw_A w), lw_B := f (lw_B w)\<rparr>)) (ly_lora l)\<rparr>"

text \<open>\<open>Module.parameters()\<close>, a change of all parameters (\<open>requires_grad_\<close>, \<open>to\<close>), and \<open>Module.modules()\<close>.\<close>

fun parameters :: "nn_module \<Rightarrow> parameter list" where
  "parameters (Layer l) = layer_parameters l"
| "parameters (Module i cs) = md_parameters i @ concat (map (\<lambda>(_, c). parameters c) cs)"

fun on_parameters :: "(parameter \<Rightarrow> parameter) \<Rightarrow> nn_module \<Rightarrow> nn_module" where
  "on_parameters f (Layer l) = Layer (map_parameters f l)"
| "on_parameters f (Module i cs) =
     Module (i\<lparr>md_parameters := map f (md_parameters i)\<rparr>) (map (\<lambda>(n, c). (n, on_parameters f c)) cs)"

fun modules :: "nn_module \<Rightarrow> nn_module list" where
  "modules (Layer l) = [Layer l]"
| "modules (Module i cs) = Module i cs # concat (map (\<lambda>(_, c). modules c) cs)"

text \<open>The layers below a module, with their paths of names.\<close>

fun named_layers :: "nn_module \<Rightarrow> (string list \<times> layer) list" where
  "named_layers (Layer l) = []"
| "named_layers (Module i cs) =
     concat (map (\<lambda>(n, c). case c of Layer l \<Rightarrow> [([n], l)] | Module _ _ \<Rightarrow> map (\<lambda>(p, l). (n # p, l)) (named_layers c)) cs)"

text \<open>The loops \<open>for _, module in block.named_modules(): for child_name, child in module.named_children()\<close> whose
  body may replace the child if it is a linear layer: all children of a module first, then the modules below,
  which are found in the changed tree.\<close>

lemma mapR_fundef_cong [fundef_cong]: "xs = ys \<Longrightarrow> (\<And>x. x \<in> set ys \<Longrightarrow> f x = g x) \<Longrightarrow> mapR f xs = mapR g ys"
  by (hypsubst, rule mapR_cong)

lemma bindR_fundef_cong [fundef_cong]: "m = m' \<Longrightarrow> (\<And>a. m' = Inr a \<Longrightarrow> f a = g a) \<Longrightarrow> bindR m f = bindR m' g"
  by (cases m') auto

definition visit_child :: "(string \<Rightarrow> layer \<Rightarrow> layer result) \<Rightarrow> string \<times> nn_module \<Rightarrow> (string \<times> nn_module) result" where
  "visit_child body = (\<lambda>(n, c). case c of Layer l \<Rightarrow> bindR (body n l) (\<lambda>l'. Inr (n, Layer l')) | Module _ _ \<Rightarrow> Inr (n, c))"

lemma child_size: "(n, c) \<in> set cs \<Longrightarrow> size c < Suc (size_list (size_prod (\<lambda>_. 0) size) cs)"
  by (induction cs) auto

lemma visited_size:
  assumes "mapR (visit_child body) cs = Inr cs'" "(n, c) \<in> set cs'"
  shows "size c < Suc (size_list (size_prod (\<lambda>_. 0) size) cs)"
proof -
  obtain m d where e: "(m, d) \<in> set cs" "visit_child body (m, d) = Inr (n, c)" using mapR_memD [OF assms] by auto
  then have "size c = size d" by (cases d) (auto simp: visit_child_def resultD)
  with child_size [OF e(1)] show ?thesis by simp
qed

function (sequential) for_layers :: "(string \<Rightarrow> layer \<Rightarrow> layer result) \<Rightarrow> nn_module \<Rightarrow> nn_module result" where
  "for_layers body (Layer l) = Inr (Layer l)"
| "for_layers body (Module i cs) =
     bindR (mapR (visit_child body) cs) (\<lambda>cs1.
     bindR (mapR (\<lambda>(n, c). bindR (for_layers body c) (\<lambda>c'. Inr (n, c'))) cs1) (\<lambda>cs2. Inr (Module i cs2)))"
  by pat_completeness auto
termination by (relation "measure (\<lambda>(_, m). size m)") (auto intro: visited_size)

subsection \<open>What such a loop does\<close>

text \<open>The parameters outside linear layers.\<close>

fun other_parameters :: "nn_module \<Rightarrow> parameter list" where
  "other_parameters (Layer l) = []"
| "other_parameters (Module i cs) = md_parameters i @ concat (map (\<lambda>(_, c). other_parameters c) cs)"

definition is_block :: "nn_module \<Rightarrow> bool" where
  "is_block m \<longleftrightarrow> (case m of Layer _ \<Rightarrow> False | Module _ _ \<Rightarrow> True)"

definition layers_of :: "nn_module \<Rightarrow> layer list" where
  "layers_of m = map snd (named_layers m)"

lemma list_all2_concatI: "list_all2 (list_all2 R) xss yss \<Longrightarrow> list_all2 R (concat xss) (concat yss)"
  by (induction rule: list_all2_induct) (auto intro: list_all2_appendI)

definition child_layers :: "string \<times> nn_module \<Rightarrow> (string list \<times> layer) list" where
  "child_layers = (\<lambda>(n, c). case c of Layer l \<Rightarrow> [([n], l)] | Module _ _ \<Rightarrow> map (\<lambda>(p, l). (n # p, l)) (named_layers c))"

lemma named_layers_Module [simp]: "named_layers (Module i cs) = concat (map child_layers cs)"
  by (simp add: child_layers_def)

lemma child_layers_simps:
  "child_layers (n, Layer l) = [([n], l)]"
  "child_layers (n, Module i cs) = map (\<lambda>(p, l). (n # p, l)) (named_layers (Module i cs))"
  by (simp_all add: child_layers_def)

declare named_layers.simps(2) [simp del]

lemma child_layers_path: "(p, l) \<in> set (child_layers e) \<Longrightarrow> p \<noteq> []"
  by (cases e; cases "snd e") (auto simp: child_layers_def)

lemma named_layers_path: "(p, l) \<in> set (named_layers m) \<Longrightarrow> p \<noteq> []"
  by (cases m) (auto dest: child_layers_path)

text \<open>A change of the layers: the same paths, and each layer related to what became of it.\<close>

definition changed :: "(string \<Rightarrow> layer \<Rightarrow> layer \<Rightarrow> bool) \<Rightarrow> nn_module \<Rightarrow> nn_module \<Rightarrow> bool" where
  "changed R m m' \<longleftrightarrow> list_all2 (\<lambda>(p, l) (p', l'). p' = p \<and> R (last p) l l') (named_layers m) (named_layers m')"

lemma changed_block:
  assumes "is_block c" "is_block c'" "changed R c c'"
  shows "list_all2 (\<lambda>(p, l) (p', l'). p' = p \<and> R (last p) l l') (child_layers (n, c)) (child_layers (n, c'))"
proof -
  have "child_layers (n, c) = map (\<lambda>(p, l). (n # p, l)) (named_layers c)" "child_layers (n, c') = map (\<lambda>(p, l). (n # p, l)) (named_layers c')"
    using assms(1,2) by (simp_all add: child_layers_def is_block_def split: nn_module.splits)
  then show ?thesis
    by (simp add: list.rel_map) (auto intro!: list.rel_mono_strong [OF assms(3) [unfolded changed_def]] dest: named_layers_path)
qed

text \<open>A changed child: a layer that is related to the old one, or a changed module with the same other parameters.\<close>

definition changed_child :: "(string \<Rightarrow> layer \<Rightarrow> layer \<Rightarrow> bool) \<Rightarrow> string \<times> nn_module \<Rightarrow> string \<times> nn_module \<Rightarrow> bool" where
  "changed_child R = (\<lambda>(n, c) (n', c'). n' = n \<and> other_parameters c' = other_parameters c \<and>
     (case c of Layer l \<Rightarrow> \<exists>l'. c' = Layer l' \<and> R n l l' | Module _ _ \<Rightarrow> is_block c' \<and> changed R c c'))"

lemma changed_child_layers:
  assumes "changed_child R e e'"
  shows "list_all2 (\<lambda>(p, l) (p', l'). p' = p \<and> R (last p) l l') (child_layers e) (child_layers e')"
proof -
  obtain n c n' c' where e: "e = (n, c)" "e' = (n', c')" by force
  show ?thesis
  proof (cases c)
    case (Layer l)
    with assms show ?thesis by (auto simp: e changed_child_def child_layers_def)
  next
    case (Module i cs)
    with assms have "n' = n" "is_block c" "is_block c'" "changed R c c'" by (auto simp: e changed_child_def is_block_def)
    with changed_block [of c c' R n] show ?thesis by (simp add: e)
  qed
qed

lemma changed_Module:
  assumes "list_all2 (changed_child R) cs cs'"
  shows "changed R (Module i cs) (Module i' cs')" "concat (map (\<lambda>(_, c). other_parameters c) cs') = concat (map (\<lambda>(_, c). other_parameters c) cs)"
proof -
  have "list_all2 (list_all2 (\<lambda>(p, l) (p', l'). p' = p \<and> R (last p) l l')) (map child_layers cs) (map child_layers cs')"
    unfolding list.rel_map by (rule list.rel_mono_strong [OF assms]) (rule changed_child_layers)
  then show "changed R (Module i cs) (Module i' cs')" by (simp add: changed_def list_all2_concatI)
  show "concat (map (\<lambda>(_, c). other_parameters c) cs') = concat (map (\<lambda>(_, c). other_parameters c) cs)"
    using assms by (induction rule: list_all2_induct) (auto simp: changed_child_def)
qed

lemma for_layers_changed:
  assumes "for_layers body m = Inr m'"
  shows "changed (\<lambda>n l l'. body n l = Inr l') m m' \<and> other_parameters m' = other_parameters m \<and> is_block m' = is_block m"
  using assms
proof (induction body m arbitrary: m' rule: for_layers.induct)
  case (2 body i cs)
  then obtain cs1 cs2 where cs: "mapR (visit_child body) cs = Inr cs1" "m' = Module i cs2"
      "mapR (\<lambda>(n, c). bindR (for_layers body c) (\<lambda>c'. Inr (n, c'))) cs1 = Inr cs2"
    by (auto simp: resultD)
  have len: "length cs1 = length cs" "length cs2 = length cs"
    using cs(1,3) by (auto simp: mapR_Inr_iff dest!: list_all2_lengthD)
  have "changed_child (\<lambda>n l l'. body n l = Inr l') (cs ! k) (cs2 ! k)" if k: "k < length cs" for k
  proof -
    obtain n c where c: "cs ! k = (n, c)" by force
    obtain n1 c1 where c1: "cs1 ! k = (n1, c1)" by force
    obtain n2 c2 where c2: "cs2 ! k = (n2, c2)" by force
    have v: "visit_child body (n, c) = Inr (n1, c1)" using cs(1) k c c1 by (auto simp: mapR_Inr_iff list_all2_conv_all_nth)
    have "(\<lambda>(n, c). bindR (for_layers body c) (\<lambda>c'. Inr (n, c'))) (n1, c1) = Inr (n2, c2)"
      using cs(3) k len unfolding mapR_Inr_iff list_all2_conv_all_nth by (metis c1 c2)
    then have r: "n2 = n1" "for_layers body c1 = Inr c2" by (auto simp: resultD)
    have mem: "(n1, c1) \<in> set cs1" using k len c1 by (metis nth_mem)
    show ?thesis
    proof (cases c)
      case (Layer l)
      with v r show ?thesis by (auto simp: c c2 visit_child_def resultD changed_child_def)
    next
      case (Module j gs)
      with v have "c1 = c" "n1 = n" by (auto simp: visit_child_def)
      then have "for_layers body c = Inr c2" using r(2) by simp
      with 2(1) [OF cs(1) mem refl] \<open>c1 = c\<close>
      have IH: "changed (\<lambda>n l l'. body n l = Inr l') c c2" "other_parameters c2 = other_parameters c" "is_block c2 = is_block c"
        by simp_all
      from Module have "is_block c" by (simp add: is_block_def)
      with IH r(1) \<open>n1 = n\<close> Module show ?thesis by (simp add: c c2 changed_child_def)
    qed
  qed
  then have "list_all2 (changed_child (\<lambda>n l l'. body n l = Inr l')) cs cs2" using len by (simp add: list_all2_conv_all_nth)
  from changed_Module(1) [OF this, of i i] changed_Module(2) [OF this] show ?case by (simp add: cs(2) is_block_def)
qed (auto simp: changed_def is_block_def)

text \<open>A body that never raises on the layers that are there.\<close>

fun map_layers :: "(string \<Rightarrow> layer \<Rightarrow> layer) \<Rightarrow> nn_module \<Rightarrow> nn_module" where
  "map_layers g (Layer l) = Layer l"
| "map_layers g (Module i cs) =
     Module i (map (\<lambda>(n, c). (n, case c of Layer l \<Rightarrow> Layer (g n l) | Module _ _ \<Rightarrow> map_layers g c)) cs)"

lemma for_layers_total:
  assumes "\<forall>(p, l) \<in> set (named_layers m). body (last p) l = Inr (g (last p) l)"
  shows "for_layers body m = Inr (map_layers g m)"
  using assms
proof (induction g m rule: map_layers.induct)
  case (2 g i cs)
  let ?v = "\<lambda>(n, c). (n, case c of Layer l \<Rightarrow> Layer (g n l) | Module _ _ \<Rightarrow> c)"
  have body: "body n l = Inr (g n l)" if "(n, Layer l) \<in> set cs" for n l
    using 2(2) that by (force simp: child_layers_def)
  have below: "\<forall>(p, l) \<in> set (named_layers c). body (last p) l = Inr (g (last p) l)" if "(n, c) \<in> set cs" for n c
  proof (cases c)
    case (Module j gs)
    have "(n # p, l) \<in> set (named_layers (Module i cs))" if "(p, l) \<in> set (named_layers c)" for p l
    proof -
      have "(n # p, l) \<in> set (child_layers (n, c))"
        using that unfolding Module by (force simp: child_layers_def simp del: named_layers_Module)
      then show ?thesis using \<open>(n, c) \<in> set cs\<close> by auto
    qed
    then show ?thesis using 2(2) named_layers_path [of _ _ c] by fastforce
  qed simp
  have rec: "for_layers body c = Inr (map_layers g c)" if "(n, c) \<in> set cs" for n c
    using 2(1) [OF that refl _ below [OF that]] by (cases c) auto
  have "mapR (visit_child body) cs = Inr (map ?v cs)"
    by (rule mapR_total) (auto simp: visit_child_def body split: nn_module.splits)
  moreover have "mapR (\<lambda>(n, c). bindR (for_layers body c) (\<lambda>c'. Inr (n, c'))) (map ?v cs) =
      Inr (map (\<lambda>(n, c). (n, map_layers g c)) (map ?v cs))"
    by (rule mapR_total) (auto simp: rec split: nn_module.splits simp del: for_layers.simps(2) map_layers.simps(2))
  ultimately show ?case by (auto split: nn_module.splits)
qed simp

text \<open>All parameters of a block: those of its layers and the others.\<close>

lemma parameters_split:
  assumes "is_block m"
  shows "mset (parameters m) = mset (other_parameters m) + mset (concat (map layer_parameters (layers_of m)))"
  using assms
proof (induction m rule: parameters.induct)
  case (2 i cs)
  have "mset (parameters c) = mset (other_parameters c) + mset (concat (map (layer_parameters \<circ> snd) (child_layers (n, c))))"
    if "(n, c) \<in> set cs" for n c
    using 2(1) [OF that refl] by (cases c) (simp_all add: child_layers_def layers_of_def is_block_def case_prod_beta comp_def)
  then have "mset (concat (map (\<lambda>(_, c). parameters c) cs)) = mset (concat (map (\<lambda>(_, c). other_parameters c) cs)) +
      mset (concat (map (layer_parameters \<circ> snd) (concat (map child_layers cs))))"
    by (induction cs) (auto simp: map_concat)
  then show ?case by (simp add: layers_of_def comp_def)
qed (simp add: is_block_def)

lemma named_layers_map: "named_layers (map_layers g m) = map (\<lambda>(p, l). (p, g (last p) l)) (named_layers m)"
  and map_layers_rest: "other_parameters (map_layers g m) = other_parameters m" "is_block (map_layers g m) = is_block m"
proof -
  have "for_layers (\<lambda>n l. Inr (g n l)) m = Inr (map_layers g m)" by (rule for_layers_total) auto
  from for_layers_changed [OF this] have c: "list_all2 (\<lambda>(p, l) (p', l'). p' = p \<and> l' = g (last p) l) (named_layers m) (named_layers (map_layers g m))"
    and rest: "other_parameters (map_layers g m) = other_parameters m" "is_block (map_layers g m) = is_block m"
    by (auto simp: changed_def elim!: list.rel_mono_strong)
  from c show "named_layers (map_layers g m) = map (\<lambda>(p, l). (p, g (last p) l)) (named_layers m)"
    by (induction rule: list_all2_induct) auto
  from rest show "other_parameters (map_layers g m) = other_parameters m" "is_block (map_layers g m) = is_block m" .
qed

lemma layers_map: "layers_of (map_layers g m) = map (\<lambda>(p, l). g (last p) l) (named_layers m)"
  by (simp add: layers_of_def named_layers_map comp_def case_prod_beta)

subsection \<open>Quantization\<close>

text \<open>What bitsandbytes contributes: the values that a quantized weight stands for, and the computation type of a new
  4-bit layer.\<close>

record bnb_library =
  bn_int8 :: "matrix \<Rightarrow> matrix"
  bn_nf4 :: "matrix \<Rightarrow> matrix"
  bn_compute_dtype :: string

definition quantized_weight :: "(matrix \<Rightarrow> matrix) \<Rightarrow> parameter \<Rightarrow> parameter" where
  "quantized_weight q p = \<lparr>pr_value = q (pr_value p), pr_requires_grad = False, pr_device = pr_device p\<rparr>"

definition quantize_layer :: "bnb_library \<Rightarrow> quantization \<Rightarrow> layer \<Rightarrow> layer result" where
  "quantize_layer B quant l =
     guardR (pr_device (ly_weight l) = ''cpu'') AssertionError
     (case quant of
        INT8 \<Rightarrow> Inr (l\<lparr>ly_class := Bnb_Linear8bitLt, ly_weight := quantized_weight (bn_int8 B) (ly_weight l),
                  ly_compute_dtype := None, ly_lora := []\<rparr>)
      | NF4 \<Rightarrow> Inr (l\<lparr>ly_class := Bnb_Linear4bit, ly_weight := quantized_weight (bn_nf4 B) (ly_weight l),
                  ly_compute_dtype := Some (bn_compute_dtype B), ly_lora := []\<rparr>)
      | QUANT_NONE \<Rightarrow> Inl ValueError)"

definition OUTPUT_HEADS :: "string list" where
  "OUTPUT_HEADS = [''lm_head'', ''score'']"

text \<open>\<open>quantize_module\<close>: the children in order, those with children of their own first inside. All classes of
  linear layers are subclasses of \<open>torch.nn.Linear\<close>.\<close>

function (sequential) quantize_module :: "bnb_library \<Rightarrow> quantization \<Rightarrow> nn_module \<Rightarrow> nn_module result" where
  "quantize_module B quant (Layer l) = Inr (Layer l)"
| "quantize_module B quant (Module i cs) =
     bindR (mapR (\<lambda>(n, c).
        case c of
          Layer l \<Rightarrow> if n \<in> set OUTPUT_HEADS then Inr (n, Layer l)
                     else bindR (quantize_layer B quant l) (\<lambda>l'. Inr (n, Layer l'))
        | Module j gs \<Rightarrow> if gs = [] then Inr (n, Module j gs) else bindR (quantize_module B quant c) (\<lambda>c'. Inr (n, c'))) cs)
     (\<lambda>cs'. Inr (Module i cs'))"
  by pat_completeness auto
termination by (relation "measure (\<lambda>(_, _, m). size m)") (auto dest: child_size)

definition quantized :: "bnb_library \<Rightarrow> quantization \<Rightarrow> string \<Rightarrow> layer \<Rightarrow> layer \<Rightarrow> bool" where
  "quantized B quant n l l' \<longleftrightarrow> (if n \<in> set OUTPUT_HEADS then l' = l else quantize_layer B quant l = Inr l')"

lemma quantize_module_changed:
  assumes "quantize_module B quant m = Inr m'"
  shows "changed (quantized B quant) m m' \<and> other_parameters m' = other_parameters m \<and> is_block m' = is_block m"
  using assms
proof (induction B quant m arbitrary: m' rule: quantize_module.induct)
  case (2 B quant i cs)
  then obtain cs' where cs: "m' = Module i cs'" and all: "list_all2 (\<lambda>(n, c) e'. (case c of
          Layer l \<Rightarrow> if n \<in> set OUTPUT_HEADS then Inr (n, Layer l)
                     else bindR (quantize_layer B quant l) (\<lambda>l'. Inr (n, Layer l'))
        | Module j gs \<Rightarrow> if gs = [] then Inr (n, Module j gs) else bindR (quantize_module B quant c) (\<lambda>c'. Inr (n, c'))) = Inr e') cs cs'"
    by (auto simp: resultD mapR_Inr_iff case_prod_beta')
  have "list_all2 (changed_child (quantized B quant)) cs cs'"
  proof (rule list.rel_mono_strong [OF all])
    fix e e'
    assume e: "e \<in> set cs" and step: "(\<lambda>(n, c) e'. (case c of
          Layer l \<Rightarrow> if n \<in> set OUTPUT_HEADS then Inr (n, Layer l)
                     else bindR (quantize_layer B quant l) (\<lambda>l'. Inr (n, Layer l'))
        | Module j gs \<Rightarrow> if gs = [] then Inr (n, Module j gs) else bindR (quantize_module B quant c) (\<lambda>c'. Inr (n, c'))) = Inr e') e e'"
    obtain n c where nc: "e = (n, c)" by force
    show "changed_child (quantized B quant) e e'"
    proof (cases c)
      case (Layer l)
      with step show ?thesis by (auto simp: nc changed_child_def quantized_def resultD split: if_splits)
    next
      case (Module j gs)
      show ?thesis
      proof (cases "gs = []")
        case True
        with step Module show ?thesis by (auto simp: nc changed_child_def is_block_def changed_def)
      next
        case False
        with step Module obtain c' where c': "quantize_module B quant c = Inr c'" "e' = (n, c')" by (auto simp: nc resultD)
        from 2(1) [OF e nc [symmetric] Module False] c'(1) Module
        have "changed (quantized B quant) c c' \<and> other_parameters c' = other_parameters c \<and> is_block c' = is_block c" by simp
        with Module c'(2) show ?thesis by (simp add: nc changed_child_def is_block_def)
      qed
    qed
  qed
  from changed_Module(1) [OF this, of i i] changed_Module(2) [OF this] show ?case by (simp add: cs is_block_def)
qed (auto simp: changed_def is_block_def)

subsection \<open>Tensor parallelism\<close>

record conversion_config =
  cv_model_type :: string
  cv_attn_class :: string
  cv_num_attention_heads :: int

text \<open>What tensor_parallel contributes: the patterns of its rules for Bloom, and the shards of a block.\<close>

record tp_library =
  tl_bloom_rules :: "torch_device list \<Rightarrow> string list"
  tl_shards :: "string list option \<Rightarrow> nn_module \<Rightarrow> torch_device list \<Rightarrow> nn_module list"

definition WORD_EMBEDDINGS_RULE :: string where
  "WORD_EMBEDDINGS_RULE = ''.*word_embeddings.weight$''"

text \<open>A \<open>TensorParallel\<close> module holds its shards in the module list \<open>module_shards\<close>.\<close>

definition plain_info :: "string \<Rightarrow> module_info" where
  "plain_info c = \<lparr>md_classes = [c], md_num_heads = 0, md_parameters = []\<rparr>"

definition tensor_parallel :: "nn_module list \<Rightarrow> nn_module" where
  "tensor_parallel shards =
     Module (plain_info ''TensorParallel'')
       [(''module_shards'', Module (plain_info ''ModuleList'') (map (\<lambda>(k, s). (nat_str k, s)) (enumerate 0 shards)))]"

definition heads_of :: "string \<Rightarrow> nn_module \<Rightarrow> int" where
  "heads_of attn_class m =
     (case m of Module i _ \<Rightarrow> if attn_class \<in> set (md_classes i) then md_num_heads i else 0 | Layer _ \<Rightarrow> 0)"

definition make_tensor_parallel :: "tp_library \<Rightarrow> conversion_config \<Rightarrow> nn_module \<Rightarrow> torch_device list \<Rightarrow> nn_module list result" where
  "make_tensor_parallel T config block devices =
     bindR (if cv_model_type config = ''bloom''
            then (let rules = tl_bloom_rules T devices in
                  guardR (WORD_EMBEDDINGS_RULE \<in> set rules) KeyError (Inr (Some (filter (\<lambda>r. r \<noteq> WORD_EMBEDDINGS_RULE) rules))))
            else Inr None) (\<lambda>tp_config.
     let shards = tl_shards T tp_config block devices;
         total_heads = (\<Sum>m \<leftarrow> concat (map modules shards). heads_of (cv_attn_class config) m)
     in guardR (total_heads = cv_num_attention_heads config) AssertionError (Inr shards))"

text \<open>\<open>shard.to(device)\<close> for each shard and its device; the shards are those of the quantized block.\<close>

definition module_shards :: "nn_module \<Rightarrow> nn_module list" where
  "module_shards m = (case m of Module _ ((_, Module _ cs) # _) \<Rightarrow> map snd cs | _ \<Rightarrow> [])"

definition to_device :: "torch_device \<Rightarrow> nn_module \<Rightarrow> nn_module" where
  "to_device d = on_parameters (\<lambda>p. p\<lparr>pr_device := dev_type d\<rparr>)"

definition move_shards :: "torch_device list \<Rightarrow> nn_module \<Rightarrow> nn_module" where
  "move_shards devices m =
     (let shards = module_shards m in
      tensor_parallel (map2 to_device devices shards @ drop (length devices) shards))"

text \<open>\<open>check_device_balance\<close> only warns.\<close>

datatype balance_warning = Not_cuda | Uneven_capabilities | Wasted_memory rat

definition wasted_memory_rate :: "int list \<Rightarrow> rat result" where
  "wasted_memory_rate memory =
     (if memory = [] then Inl ValueError
      else if sum_list memory = 0 then Inl ZeroDivisionError
      else let used = Min (set memory) * int (length memory) in Inr (of_int (sum_list memory - used) / of_int (sum_list memory)))"

definition check_device_balance ::
    "(torch_device \<Rightarrow> int \<times> int) \<Rightarrow> (torch_device \<Rightarrow> int) \<Rightarrow> torch_device list \<Rightarrow> balance_warning list result" where
  "check_device_balance capability total_memory devices =
     (if \<exists>d \<in> set devices. dev_type d \<noteq> ''cuda'' then Inr [Not_cuda]
      else bindR (wasted_memory_rate (map total_memory devices)) (\<lambda>rate.
        Inr ((if card (set (map capability devices)) > 1 then [Uneven_capabilities] else []) @
             (if rate > 1 / 20 then [Wasted_memory rate] else []))))"

text \<open>The wasted share is a share, and equal devices waste nothing.\<close>

lemma wasted_memory_share:
  assumes "wasted_memory_rate memory = Inr rate" "\<forall>m \<in> set memory. 0 \<le> m"
  shows "0 \<le> rate \<and> rate < 1 \<or> rate = 1 \<and> 0 \<in> set memory"
proof -
  have ne: "memory \<noteq> []" "sum_list memory \<noteq> 0" using assms(1) by (auto simp: wasted_memory_rate_def split: if_splits)
  let ?u = "Min (set memory) * int (length memory)"
  have rate: "rate = of_int (sum_list memory - ?u) / of_int (sum_list memory)"
    using assms(1) ne by (simp add: wasted_memory_rate_def Let_def)
  have "(\<Sum>m \<leftarrow> memory. Min (set memory)) \<le> sum_list memory"
    using sum_list_mono [of memory "\<lambda>_. Min (set memory)" "\<lambda>m. m"] by simp
  then have u: "?u \<le> sum_list memory" by (simp add: sum_list_triv mult.commute)
  have pos: "0 < sum_list memory" using ne(2) assms(2) sum_list_nonneg [of memory] by auto
  show ?thesis
  proof (cases "Min (set memory) = 0")
    case True
    have "Min (set memory) \<in> set memory" using ne(1) by (intro Min_in) auto
    with True rate pos show ?thesis by simp
  next
    case False
    have "Min (set memory) \<in> set memory" using ne(1) by (intro Min_in) auto
    with assms(2) False have "0 < Min (set memory)" by fastforce
    then have "0 < ?u" using ne(1) by (intro mult_pos_pos) auto
    then have "(of_int (sum_list memory - ?u) :: rat) < of_int (sum_list memory)" unfolding of_int_less_iff by linarith
    moreover have "0 \<le> (of_int (sum_list memory - ?u) :: rat)" "0 < (of_int (sum_list memory) :: rat)" using u pos unfolding of_int_0_le_iff of_int_0_less_iff by linarith+
    ultimately show ?thesis unfolding rate by (metis divide_less_eq_1_pos divide_nonneg_pos)
  qed
qed

end
