(* ===== verification/Adapters.thy ===== *)
theory Adapters
  imports Torch_Modules
begin

text \<open>
  \<open>src/peerz/utils/peft.py\<close> and \<open>convert_block\<close> of \<open>src/peerz/utils/convert_block.py\<close>: fetching a LoRA adapter from a
  repository, choosing the tensors of one block by their names, wrapping the linear layers of a block, loading
  an adapter into them, the memory that adapters take, the context that selects an adapter, and the whole
  conversion of a block. The hub, the readers of files, \<open>update_layer\<close> of peft and \<open>re.fullmatch\<close> are parameters.

  The lemmas show which tensors are selected and where they end up, that adapters do not disturb each other,
  that the estimate is the memory that is really used, and that a converted block has no trainable parameters;
  and what goes wrong when the name of one layer is part of the name of another.
\<close>

subsection \<open>Names of tensors\<close>

text \<open>\<open>s in t\<close> for strings.\<close>

definition is_substring :: "string \<Rightarrow> string \<Rightarrow> bool" where
  "is_substring s t \<longleftrightarrow> list_ex (\<lambda>k. starts_with (drop k t) s) [0..<Suc (length t)]"

definition NEWLINE :: char where
  "NEWLINE = CHR 0x0A"

text \<open>The strings that \<open>(a)?(b)?...\<close> matches, and \<open>re.match\<close> with
  \<open>.+\.(a)?(b)?...\.(idx)?\..+\<close>: a nonempty part, the names and the index between dots, and one more character. A dot of the
  pattern does not match a line break.\<close>

fun optional_names :: "string list \<Rightarrow> string list" where
  "optional_names [] = [[]]"
| "optional_names (c # cs) = map ((@) c) (optional_names cs) @ optional_names cs"

definition common_layer_match :: "string list \<Rightarrow> string \<Rightarrow> string \<Rightarrow> bool" where
  "common_layer_match common idx k \<longleftrightarrow>
     list_ex (\<lambda>i. NEWLINE \<notin> set (take i k) \<and>
       list_ex (\<lambda>m. list_ex (\<lambda>d.
         let mid = ''.'' @ m @ ''.'' @ d @ ''.'' in
         starts_with (drop i k) mid \<and> (case drop (i + length mid) k of [] \<Rightarrow> False | c # _ \<Rightarrow> c \<noteq> NEWLINE)) [idx, []]) (optional_names common))
       [1..<length k]"

type_synonym adapter_weights = "(string, matrix) dict"

definition load_specific_module :: "string list \<Rightarrow> int \<Rightarrow> adapter_weights \<Rightarrow> adapter_weights" where
  "load_specific_module common block_idx tensors = filter (\<lambda>(k, _). common_layer_match common (py_str block_idx) k) tensors"

subsection \<open>Fetching an adapter\<close>

datatype target_modules = Names "string list" | Pattern string | No_modules

text \<open>The dictionary of the configuration file; a field that is missing is \<open>None\<close>.\<close>

record peft_config =
  pc_peft_type :: "string option"
  pc_lora_dropout :: "rat option"
  pc_target_modules :: "target_modules option"
  pc_r :: "int option"
  pc_lora_alpha :: "rat option"
  pc_init_lora_weights :: "bool option"

definition item :: "'a option \<Rightarrow> 'a result" where
  "item o' = (case o' of None \<Rightarrow> Inl KeyError | Some x \<Rightarrow> Inr x)"

definition CONFIG_NAME :: string where "CONFIG_NAME = ''adapter_config.json''"

definition SAFETENSORS_WEIGHTS_NAME :: string where "SAFETENSORS_WEIGHTS_NAME = ''adapter_model.safetensors''"

record 'w peft_hub =
  ph_exists :: "string \<Rightarrow> string \<Rightarrow> 'w \<Rightarrow> bool result"
  ph_get_file :: "string \<Rightarrow> string \<Rightarrow> 'w \<Rightarrow> string option result \<times> 'w"
  ph_read_config :: "string \<Rightarrow> 'w \<Rightarrow> peft_config result"
  ph_read_tensors :: "string \<Rightarrow> 'w \<Rightarrow> adapter_weights result"
  ph_size :: "string \<Rightarrow> string \<Rightarrow> 'w \<Rightarrow> int option result"
  ph_free_space :: "int \<Rightarrow> 'w \<Rightarrow> unit result \<times> 'w"
  ph_common_layers :: "string list"                    \<comment> \<open>\<open>COMMON_LAYERS_PATTERN\<close> of peft\<close>

definition get_adapter_from_repo ::
    "'w peft_hub \<Rightarrow> string \<Rightarrow> int option \<Rightarrow> 'w \<Rightarrow> (peft_config \<times> adapter_weights) result \<times> 'w" where
  "get_adapter_from_repo H repo_id block_idx w =
     (case ph_get_file H repo_id CONFIG_NAME w of
        (Inl e, w1) \<Rightarrow> (Inl e, w1)
      | (Inr None, w1) \<Rightarrow> (Inl RuntimeError, w1)
      | (Inr (Some config_path), w1) \<Rightarrow>
          (case ph_read_config H config_path w1 of
             Inl e \<Rightarrow> (Inl e, w1)
           | Inr config \<Rightarrow>
               (case ph_get_file H repo_id SAFETENSORS_WEIGHTS_NAME w1 of
                  (Inl e, w2) \<Rightarrow> (Inl e, w2)
                | (Inr None, w2) \<Rightarrow> (Inl RuntimeError, w2)
                | (Inr (Some weight_path), w2) \<Rightarrow>
                    (bindR (ph_read_tensors H weight_path w2) (\<lambda>tensors.
                       Inr (config, case block_idx of None \<Rightarrow> tensors | Some i \<Rightarrow> load_specific_module (ph_common_layers H) i tensors)), w2))))"

text \<open>One turn of the endless loop; \<open>None + n\<close> raises \<open>TypeError\<close> before the test for an unknown size.\<close>

definition peft_attempt ::
    "'w peft_hub \<Rightarrow> string \<Rightarrow> int option \<Rightarrow> 'w \<Rightarrow> (peft_config \<times> adapter_weights) result \<times> 'w" where
  "peft_attempt H repo_id block_idx w =
     (case bindR (ph_size H repo_id CONFIG_NAME w) (\<lambda>c. bindR (ph_size H repo_id SAFETENSORS_WEIGHTS_NAME w) (\<lambda>t.
             case (c, t) of (Some m, Some n) \<Rightarrow> Inr (m + n) | _ \<Rightarrow> Inl TypeError)) of
        Inl e \<Rightarrow> (Inl e, w)
      | Inr file_size \<Rightarrow>
          (case ph_free_space H file_size w of
             (Inl e, w1) \<Rightarrow> (Inl e, w1)
           | (Inr _, w1) \<Rightarrow> get_adapter_from_repo H repo_id block_idx w1))"

partial_function (option) peft_loop ::
    "'w peft_hub \<Rightarrow> string \<Rightarrow> int option \<Rightarrow> 'w \<Rightarrow> ((peft_config \<times> adapter_weights) result \<times> 'w) option" where
  "peft_loop H repo_id block_idx w =
     (case peft_attempt H repo_id block_idx w of
        (Inr r, w') \<Rightarrow> Some (Inr r, w')
      | (Inl _, w') \<Rightarrow> peft_loop H repo_id block_idx w')"

definition load_peft ::
    "'w peft_hub \<Rightarrow> string \<Rightarrow> int option \<Rightarrow> 'w \<Rightarrow> ((peft_config \<times> adapter_weights) result \<times> 'w) option" where
  "load_peft H repo_id block_idx w =
     (case ph_exists H repo_id SAFETENSORS_WEIGHTS_NAME w of
        Inl e \<Rightarrow> Some (Inl e, w)
      | Inr False \<Rightarrow> Some (Inl ValueError, w)
      | Inr True \<Rightarrow>
          (case get_adapter_from_repo H repo_id block_idx w of
             (Inr r, w') \<Rightarrow> Some (Inr r, w')
           | (Inl _, w') \<Rightarrow> peft_loop H repo_id block_idx w'))"

subsection \<open>The active adapter\<close>

definition ADAPTER_NOT_SET :: string where "ADAPTER_NOT_SET = ''__ADAPTER_NOT_SET''"

text \<open>\<open>using_adapter\<close> around a body: the class attribute is put back on every exit.\<close>

definition using_adapter :: "string option \<Rightarrow> (string option \<Rightarrow> 'a result \<times> string option) \<Rightarrow> string option \<Rightarrow> 'a result \<times> string option" where
  "using_adapter active_adapter body context = (fst (body active_adapter), context)"

definition set_active_adapter :: "string option \<Rightarrow> unit result" where
  "set_active_adapter v = guardR (v = Some ADAPTER_NOT_SET) AssertionError (Inr ())"

subsection \<open>LoRA layers\<close>

text \<open>What peft contributes: the adapters that a new layer has, \<open>update_layer\<close> (new matrices for an adapter, by the
  features of the layer, the rank, the scale, the dropout and the initialization) and \<open>re.fullmatch\<close>.\<close>

record peft_library =
  pl_init :: "string \<Rightarrow> nat \<Rightarrow> nat \<Rightarrow> (string, lora_weights) dict"
  pl_update_layer :: "nat \<Rightarrow> nat \<Rightarrow> int \<Rightarrow> rat \<Rightarrow> rat \<Rightarrow> bool \<Rightarrow> lora_weights result"
  pl_fullmatch :: "string \<Rightarrow> string \<Rightarrow> bool result"

definition freeze_layer :: "layer \<Rightarrow> layer" where
  "freeze_layer = map_parameters freeze"

definition lora_class :: "quantization \<Rightarrow> layer_class" where
  "lora_class q = (case q of INT8 \<Rightarrow> LoraLinear8bitLt | NF4 \<Rightarrow> LoraLinear4bit | QUANT_NONE \<Rightarrow> LoraLinear)"

definition is_lora :: "layer \<Rightarrow> bool" where
  "is_lora l \<longleftrightarrow> ly_class l \<in> {LoraLinear, LoraLinear8bitLt, LoraLinear4bit}"

definition lora_wrap :: "peft_library \<Rightarrow> quantization \<Rightarrow> string \<Rightarrow> layer \<Rightarrow> layer result" where
  "lora_wrap P quant child_name child =
     bindR (if quant = NF4 then (case ly_compute_dtype child of None \<Rightarrow> Inl AttributeError | Some d \<Rightarrow> Inr (Some d)) else Inr None)
       (\<lambda>compute_dtype. Inr (freeze_layer \<lparr>ly_class = lora_class quant, ly_in_features = ly_in_features child,
          ly_out_features = ly_out_features child, ly_weight = ly_weight child, ly_bias = ly_bias child,
          ly_compute_dtype = compute_dtype, ly_lora = pl_init P ADAPTER_NOT_SET (ly_in_features child) (ly_out_features child)\<rparr>))"

definition create_lora_adapter :: "peft_library \<Rightarrow> quantization \<Rightarrow> nn_module \<Rightarrow> nn_module result" where
  "create_lora_adapter P quant block = for_layers (lora_wrap P quant) block"

text \<open>\<open>weight[...] = tensor\<close>: copying with broadcasting.\<close>

definition expand_row :: "nat \<Rightarrow> rat list \<Rightarrow> rat list result" where
  "expand_row n row = (if length row = n then Inr row else if length row = 1 then Inr (replicate n (hd row)) else Inl RuntimeError)"

definition copy_into :: "parameter \<Rightarrow> matrix \<Rightarrow> parameter result" where
  "copy_into p t =
     (let m = length (pr_value p); n = (case pr_value p of [] \<Rightarrow> 0 | row # _ \<Rightarrow> length row) in
      bindR (mapR (expand_row n) t) (\<lambda>t'.
        if length t' = m then Inr (p\<lparr>pr_value := t'\<rparr>)
        else if length t' = 1 then Inr (p\<lparr>pr_value := replicate m (hd t')\<rparr>)
        else Inl RuntimeError))"

definition is_target :: "peft_library \<Rightarrow> target_modules \<Rightarrow> string \<Rightarrow> bool result" where
  "is_target P tm child_name =
     (case tm of
        Names ns \<Rightarrow> Inr (child_name \<in> set ns)
      | Pattern p \<Rightarrow> if is_substring child_name p then Inr True else pl_fullmatch P p child_name
      | No_modules \<Rightarrow> Inl TypeError)"

text \<open>The body of the loop over the keys of an adapter, on the layer and the two flags.\<close>

definition ensure_adapter :: "peft_library \<Rightarrow> string \<Rightarrow> peft_config \<Rightarrow> layer \<Rightarrow> layer result" where
  "ensure_adapter P name cfg child =
     (if dict_get (ly_lora child) name \<noteq> None then Inr child
      else bindR (item (pc_r cfg)) (\<lambda>r. bindR (item (pc_lora_alpha cfg)) (\<lambda>alpha. bindR (item (pc_lora_dropout cfg)) (\<lambda>dropout.
           bindR (item (pc_init_lora_weights cfg)) (\<lambda>init.
           bindR (pl_update_layer P (ly_in_features child) (ly_out_features child) r alpha dropout init) (\<lambda>w.
             Inr (freeze_layer (child\<lparr>ly_lora := dict_set name w (ly_lora child)\<rparr>))))))))"

definition store_key :: "string \<Rightarrow> adapter_weights \<Rightarrow> string \<Rightarrow> layer \<times> bool \<times> bool \<Rightarrow> (layer \<times> bool \<times> bool) result" where
  "store_key name sd peft_key = (\<lambda>(child, a_loaded, b_loaded).
     if ends_with peft_key ''.lora_A.weight'' then
       bindR (dict_item (ly_lora child) name) (\<lambda>w. bindR (dict_item sd peft_key) (\<lambda>t. bindR (copy_into (lw_A w) t) (\<lambda>p.
         Inr (child\<lparr>ly_lora := dict_set name (w\<lparr>lw_A := p\<rparr>) (ly_lora child)\<rparr>, True, b_loaded))))
     else if ends_with peft_key ''.lora_A.bias'' then Inl NotImplementedError
     else if ends_with peft_key ''.lora_B.weight'' then
       bindR (dict_item (ly_lora child) name) (\<lambda>w. bindR (dict_item sd peft_key) (\<lambda>t. bindR (copy_into (lw_B w) t) (\<lambda>p.
         Inr (child\<lparr>ly_lora := dict_set name (w\<lparr>lw_B := p\<rparr>) (ly_lora child)\<rparr>, a_loaded, True))))
     else if ends_with peft_key ''.lora_B.bias'' then Inl NotImplementedError
     else Inr (child, a_loaded, b_loaded))"

definition load_key ::
    "peft_library \<Rightarrow> string \<Rightarrow> peft_config \<Rightarrow> adapter_weights \<Rightarrow> string \<Rightarrow> string \<Rightarrow> layer \<times> bool \<times> bool \<Rightarrow> (layer \<times> bool \<times> bool) result" where
  "load_key P name cfg sd child_name peft_key = (\<lambda>(child, a_loaded, b_loaded).
     if \<not> is_substring child_name peft_key then Inr (child, a_loaded, b_loaded)
     else bindR (ensure_adapter P name cfg child) (\<lambda>child. store_key name sd peft_key (child, a_loaded, b_loaded)))"

definition add_to_layer :: "peft_library \<Rightarrow> string \<Rightarrow> peft_config \<Rightarrow> adapter_weights \<Rightarrow> string \<Rightarrow> layer \<Rightarrow> layer result" where
  "add_to_layer P name cfg sd child_name child =
     (if \<not> is_lora child then Inr child
      else bindR (bindR (item (pc_target_modules cfg)) (\<lambda>tm. is_target P tm child_name)) (\<lambda>target.
        if \<not> target then Inr child
        else bindR (foldR (load_key P name cfg sd child_name) (map fst sd) (child, False, False)) (\<lambda>(child', a_loaded, b_loaded).
          if a_loaded = b_loaded then Inr child' else Inl ValueError)))"

definition add_adapter_to_block ::
    "peft_library \<Rightarrow> string \<Rightarrow> peft_config \<Rightarrow> adapter_weights \<Rightarrow> nn_module \<Rightarrow> nn_module result" where
  "add_adapter_to_block P name cfg sd block =
     bindR (item (pc_peft_type cfg)) (\<lambda>t. guardR (t = ''LORA'') AssertionError
       (bindR (item (pc_lora_dropout cfg)) (\<lambda>_. for_layers (add_to_layer P name cfg sd) block)))"

subsection \<open>Adapters of a block\<close>

text \<open>The loop over the adapters, in \<open>convert_block\<close> and in the estimate (whose own check of the type is implied by
  the one of \<open>add_adapter_to_block\<close>).\<close>

fun add_adapters ::
    "peft_library \<Rightarrow> 'w peft_hub \<Rightarrow> int \<Rightarrow> string list \<Rightarrow> nn_module \<Rightarrow> 'w \<Rightarrow> (nn_module result \<times> 'w) option" where
  "add_adapters P H block_index [] block w = Some (Inr block, w)"
| "add_adapters P H block_index (name # names) block w =
     (case load_peft H name (Some block_index) w of
        None \<Rightarrow> None
      | Some (Inl e, w') \<Rightarrow> Some (Inl e, w')
      | Some (Inr (cfg, sd), w') \<Rightarrow>
          (case add_adapter_to_block P name cfg sd block of
             Inl e \<Rightarrow> Some (Inl e, w')
           | Inr block' \<Rightarrow> add_adapters P H block_index names block' w'))"

definition num_parameters :: "nn_module \<Rightarrow> nat" where
  "num_parameters m = (\<Sum>p \<leftarrow> parameters m. param_numel p)"

definition estimate_adapter_memory_per_block ::
    "peft_library \<Rightarrow> 'w peft_hub \<Rightarrow> (torch_dtype_info \<Rightarrow> int result) \<Rightarrow> dtype_arg \<Rightarrow> dtype_arg \<Rightarrow> nn_module \<Rightarrow> string list \<Rightarrow> 'w
     \<Rightarrow> (int result \<times> 'w) option" where
  "estimate_adapter_memory_per_block P H size_of config_dtype dtype block names w =
     (case create_lora_adapter P QUANT_NONE block of
        Inl e \<Rightarrow> Some (Inl e, w)
      | Inr wrapped \<Rightarrow>
          map_option (\<lambda>(r, w'). (bindR r (\<lambda>loaded. bindR (size_of (resolve_block_dtype config_dtype dtype)) (\<lambda>bytes_per_parameter.
              Inr ((int (num_parameters loaded) - int (num_parameters block)) * bytes_per_parameter))), w'))
            (add_adapters P H 0 names wrapped w))"

definition convert_block ::
    "peft_library \<Rightarrow> bnb_library \<Rightarrow> tp_library \<Rightarrow> 'w peft_hub \<Rightarrow> nn_module \<Rightarrow> int \<Rightarrow> conversion_config \<Rightarrow> torch_device list \<Rightarrow> quantization
     \<Rightarrow> bool \<Rightarrow> string list option \<Rightarrow> 'w \<Rightarrow> (nn_module result \<times> 'w) option" where
  "convert_block P B T H block block_index config devices quant freeze_arg names w =
     (case bindR (make_tensor_parallel T config (if freeze_arg then on_parameters freeze block else block) devices) (\<lambda>shards.
           bindR (if quant \<noteq> QUANT_NONE then quantize_module B quant (tensor_parallel shards) else Inr (tensor_parallel shards)) (\<lambda>b.
           Inr (move_shards devices b))) of
        Inl e \<Rightarrow> Some (Inl e, w)
      | Inr moved \<Rightarrow>
          (case names of
             Some (name # more_names) \<Rightarrow>
               (case create_lora_adapter P quant moved of
                  Inl e \<Rightarrow> Some (Inl e, w)
                | Inr wrapped \<Rightarrow> add_adapters P H block_index (name # more_names) wrapped w)
           | _ \<Rightarrow> Some (Inr moved, w)))"

subsection \<open>Which tensors belong to a block\<close>

lemma py_split_cut: "py_split d (a @ d # b) = py_split d a @ py_split d b"
proof (induction a)
  case (Cons x a)
  show ?case
  proof (cases "x = d")
    case False
    obtain w ws where "py_split d a = w # ws" using py_split_nonempty [of d a] by (cases "py_split d a") auto
    with Cons False show ?thesis by simp
  qed (use Cons in simp)
qed simp

lemma py_join_append: "xs \<noteq> [] \<Longrightarrow> ys \<noteq> [] \<Longrightarrow> py_join d (xs @ ys) = py_join d xs @ d # py_join d ys"
proof (induction xs)
  case (Cons x xs)
  then show ?case by (cases xs; cases ys) auto
qed simp

lemma set_py_join: "c \<in> set (py_join d xs) \<Longrightarrow> c = d \<or> (\<exists>x \<in> set xs. c \<in> set x)"
  by (induction d xs rule: py_join.induct) auto

lemma optional_names_chars: "m \<in> set (optional_names common) \<Longrightarrow> c \<in> set m \<Longrightarrow> \<exists>n \<in> set common. c \<in> set n"
  by (induction common arbitrary: m) (auto, blast+)

lemma common_layer_match_iff:
  "common_layer_match common idx k \<longleftrightarrow>
     (\<exists>a m d c b. k = a @ ''.'' @ m @ ''.'' @ d @ ''.'' @ c # b \<and> a \<noteq> [] \<and> NEWLINE \<notin> set a \<and> c \<noteq> NEWLINE \<and>
        m \<in> set (optional_names common) \<and> d \<in> {idx, []})" (is "?L = ?R")
proof
  assume ?L
  then obtain i m d where i_range: "i \<in> set [1..<length k]" and i_line: "NEWLINE \<notin> set (take i k)"
    and m_name: "m \<in> set (optional_names common)" and d_set: "d \<in> set [idx, []]"
    and rest: "starts_with (drop i k) (''.'' @ m @ ''.'' @ d @ ''.'')"
      "case drop (i + length (''.'' @ m @ ''.'' @ d @ ''.'')) k of [] \<Rightarrow> False | c # _ \<Rightarrow> c \<noteq> NEWLINE"
    unfolding common_layer_match_def list_ex_iff Let_def by blast
  from i_range i_line have i: "1 \<le> i" "NEWLINE \<notin> set (take i k)" and i_less: "i < length k" by auto
  have m: "m \<in> set (optional_names common)" "d \<in> {idx, []}" using m_name d_set by auto
  from rest(2) obtain c b where c: "drop (i + length (''.'' @ m @ ''.'' @ d @ ''.'')) k = c # b" "c \<noteq> NEWLINE"
    by (auto split: list.splits)
  from starts_with_cut [OF rest(1)] have "drop i k = (''.'' @ m @ ''.'' @ d @ ''.'') @ c # b"
    by (metis c(1) drop_drop add.commute)
  then have "k = take i k @ ''.'' @ m @ ''.'' @ d @ ''.'' @ c # b" by (metis append.assoc append_take_drop_id)
  moreover have "take i k \<noteq> []" using i(1) i_less by (cases k) auto
  ultimately show ?R using i(2) m c(2) by blast
next
  assume ?R
  then obtain a m d c b where k: "k = a @ ''.'' @ m @ ''.'' @ d @ ''.'' @ c # b" and a: "a \<noteq> []" "NEWLINE \<notin> set a" "c \<noteq> NEWLINE"
    and m: "m \<in> set (optional_names common)" "d \<in> {idx, []}" by blast
  have drop: "drop (length a) k = (''.'' @ m @ ''.'' @ d @ ''.'') @ c # b" by (simp add: k)
  have "starts_with (drop (length a) k) (''.'' @ m @ ''.'' @ d @ ''.'')" unfolding drop by (rule starts_with_append)
  moreover have "case drop (length a + length (''.'' @ m @ ''.'' @ d @ ''.'')) k of [] \<Rightarrow> False | c # _ \<Rightarrow> c \<noteq> NEWLINE"
    using append_eq_conv_conj [of "a @ (''.'' @ m @ ''.'' @ d @ ''.'')" "c # b" k] a(3) by (simp add: k)
  moreover have "d \<in> set [idx, []]" using m(2) by simp
  ultimately have inner: "\<exists>m \<in> set (optional_names common). \<exists>d \<in> set [idx, []]. starts_with (drop (length a) k) (''.'' @ m @ ''.'' @ d @ ''.'') \<and>
      (case drop (length a + length (''.'' @ m @ ''.'' @ d @ ''.'')) k of [] \<Rightarrow> False | c # _ \<Rightarrow> c \<noteq> NEWLINE)"
    using m(1) by blast
  have "1 \<le> length a \<and> length a < length k" using a(1) by (cases a) (simp_all add: k)
  then have "length a \<in> set [1..<length k]" by simp
  moreover have "take (length a) k = a" by (simp add: k)
  ultimately show ?L unfolding common_layer_match_def list_ex_iff Let_def using a(2) inner by metis
qed

text \<open>The usual names: parts without dots, one of them the name of the list of blocks, and after it the number of the
  block.\<close>

definition block_key :: "string list \<Rightarrow> int \<Rightarrow> string \<Rightarrow> bool" where
  "block_key common n k \<longleftrightarrow>
     (\<exists>before name after. k = py_join CHR ''.'' (before @ [name, py_str n] @ after) \<and> before \<noteq> [] \<and> after \<noteq> [] \<and>
        (\<forall>s \<in> set (before @ name # after). s \<noteq> [] \<and> CHR ''.'' \<notin> set s \<and> NEWLINE \<notin> set s) \<and>
        name \<in> set (optional_names common) \<and> (\<forall>s \<in> set (py_str n # before @ after). s \<notin> set (optional_names common)))"

lemma py_str_nonempty: "py_str n \<noteq> []"
  by (simp add: py_str_def)

lemma same_position:
  assumes "xs @ m # ys = before @ name # after" "m \<in> N" "set before \<inter> N = {}" "set after \<inter> N = {}"
  shows "xs = before \<and> m = name \<and> ys = after"
  using assms
proof (induction before arbitrary: xs)
  case Nil
  then show ?case by (cases xs) auto
next
  case (Cons b before)
  then show ?case by (cases xs) auto
qed

lemma block_key_match:
  assumes "block_key common n k" "\<forall>c \<in> set common. CHR ''.'' \<notin> set c"
  shows "common_layer_match common (py_str i) k \<longleftrightarrow> i = n"
proof -
  let ?N = "set (optional_names common)"
  from assms(1) obtain before name after where k: "k = py_join CHR ''.'' (before @ [name, py_str n] @ after)"
    and ne: "before \<noteq> []" "after \<noteq> []" and parts: "\<forall>s \<in> set (before @ name # after). s \<noteq> [] \<and> CHR ''.'' \<notin> set s \<and> NEWLINE \<notin> set s"
    and name: "name \<in> ?N" and others: "\<forall>s \<in> set (py_str n # before @ after). s \<notin> ?N"
    by (auto simp: block_key_def)
  have split: "py_split CHR ''.'' k = before @ name # py_str n # after"
    unfolding k using parts py_str_clean(1) [of n] by (subst py_split_join) auto
  show ?thesis
  proof
    assume "common_layer_match common (py_str i) k"
    then obtain a m d c b where a: "k = a @ ''.'' @ m @ ''.'' @ d @ ''.'' @ c # b" "m \<in> ?N" "d \<in> {py_str i, []}"
      unfolding common_layer_match_iff by blast
    have "CHR ''.'' \<notin> set m" using optional_names_chars [OF a(2)] assms(2) by blast
    moreover have "CHR ''.'' \<notin> set d" using a(3) py_str_clean(1) [of i] by auto
    ultimately have "py_split CHR ''.'' k = py_split CHR ''.'' a @ m # d # py_split CHR ''.'' (c # b)"
      unfolding a(1) by (simp only: simp_thms append_Cons append_Nil py_split_cut py_split_no_sep)
    with split have "py_split CHR ''.'' a @ m # d # py_split CHR ''.'' (c # b) = before @ name # py_str n # after" by simp
    from same_position [OF this a(2)] others have "d = py_str n" by auto
    with a(3) py_str_nonempty [of n] show "i = n" by (auto dest: py_str_inj)
  next
    assume "i = n"
    obtain s after' where after: "after = s # after'" using ne(2) by (cases after) auto
    then obtain c s' where s: "s = c # s'" "c \<noteq> NEWLINE" using parts by (cases s) auto
    obtain b where b: "py_join CHR ''.'' after = c # b" by (cases after') (simp_all add: after s(1))
    have "k = py_join CHR ''.'' before @ ''.'' @ name @ ''.'' @ py_str n @ ''.'' @ c # b"
      unfolding k using ne by (simp add: py_join_append b [symmetric]) (simp add: after)
    moreover have "py_join CHR ''.'' before \<noteq> []" using ne(1) parts by (cases before; cases "tl before") auto
    moreover have "NEWLINE \<notin> set (py_join CHR ''.'' before)" using parts by (auto dest!: set_py_join simp: NEWLINE_def)
    ultimately show "common_layer_match common (py_str i) k"
      unfolding common_layer_match_iff using s(2) name \<open>i = n\<close> by blast
  qed
qed

subsection \<open>Loading an adapter\<close>

definition has_shape :: "nat \<Rightarrow> nat \<Rightarrow> matrix \<Rightarrow> bool" where
  "has_shape m n M \<longleftrightarrow> length M = m \<and> (\<forall>row \<in> set M. length row = n)"

lemma copy_exact:
  assumes "has_shape m n (pr_value p)" "has_shape m n t"
  shows "copy_into p t = Inr (p\<lparr>pr_value := t\<rparr>)"
proof -
  have "mapR (expand_row (case pr_value p of [] \<Rightarrow> 0 | row # _ \<Rightarrow> length row)) t = Inr (map (\<lambda>row. row) t)"
    using assms by (intro mapR_total) (auto simp: has_shape_def expand_row_def split: list.splits)
  with assms show ?thesis by (simp add: copy_into_def has_shape_def Let_def)
qed

lemma foldR_skip: "\<forall>x \<in> set xs. \<not> Q x \<longrightarrow> (\<forall>s. f x s = Inr s) \<Longrightarrow> foldR f xs s = foldR f (filter Q xs) s"
  by (induction xs arbitrary: s) (auto intro: bindR_fundef_cong)

lemma distinct_pair: "distinct xs \<Longrightarrow> set xs = {a, b} \<Longrightarrow> a \<noteq> b \<Longrightarrow> xs = [a, b] \<or> xs = [b, a]"
proof -
  assume d: "distinct xs" "set xs = {a, b}" "a \<noteq> b"
  then have "length xs = 2" using distinct_card [of xs] by simp
  then obtain x y where "xs = [x, y]" by (auto simp: numeral_2_eq_2 length_Suc_conv)
  with d show ?thesis by auto
qed

lemma dict_set_set [simp]: "dict_set k v (dict_set k w d) = dict_set k v d"
  by (induction d) auto

lemma ends_with_last: "ends_with s p \<Longrightarrow> p \<noteq> [] \<Longrightarrow> last s = last p"
  by (cases s rule: rev_cases; cases p rule: rev_cases) (auto simp: ends_with_def starts_with_def)

lemma ends_with_unique: "ends_with s p \<Longrightarrow> ends_with s q \<Longrightarrow> length p = length q \<Longrightarrow> p = q"
  by (simp add: ends_with_def starts_with_def)

lemma suffix_facts:
  "ends_with k ''.lora_A.weight'' \<Longrightarrow> \<not> ends_with k ''.lora_B.weight''"
  "ends_with k ''.lora_B.weight'' \<Longrightarrow> \<not> ends_with k ''.lora_A.weight'' \<and> \<not> ends_with k ''.lora_A.bias''"
proof -
  show "ends_with k ''.lora_A.weight'' \<Longrightarrow> \<not> ends_with k ''.lora_B.weight''"
    using ends_with_unique [of k "''.lora_A.weight''" "''.lora_B.weight''"] by auto
  show "ends_with k ''.lora_B.weight'' \<Longrightarrow> \<not> ends_with k ''.lora_A.weight'' \<and> \<not> ends_with k ''.lora_A.bias''"
    using ends_with_unique [of k "''.lora_A.weight''" "''.lora_B.weight''"] ends_with_last [of k "''.lora_A.bias''"]
      ends_with_last [of k "''.lora_B.weight''"] by auto
qed

text \<open>A complete configuration, the weights of an adapter as they are loaded, and a layer with them.\<close>

definition lora_config :: "target_modules \<Rightarrow> int \<Rightarrow> rat \<Rightarrow> rat \<Rightarrow> bool \<Rightarrow> peft_config" where
  "lora_config tm r alpha dropout init = \<lparr>pc_peft_type = Some ''LORA'', pc_lora_dropout = Some dropout, pc_target_modules = Some tm,
     pc_r = Some r, pc_lora_alpha = Some alpha, pc_init_lora_weights = Some init\<rparr>"

definition freeze_weights :: "lora_weights \<Rightarrow> lora_weights" where
  "freeze_weights w = w\<lparr>lw_A := freeze (lw_A w), lw_B := freeze (lw_B w)\<rparr>"

definition with_values :: "matrix \<Rightarrow> matrix \<Rightarrow> lora_weights \<Rightarrow> lora_weights" where
  "with_values tA tB w = w\<lparr>lw_A := (lw_A w)\<lparr>pr_value := tA\<rparr>, lw_B := (lw_B w)\<lparr>pr_value := tB\<rparr>\<rparr>"

definition loaded_layer :: "peft_library \<Rightarrow> string \<Rightarrow> int \<Rightarrow> rat \<Rightarrow> rat \<Rightarrow> bool \<Rightarrow> matrix \<Rightarrow> matrix \<Rightarrow> layer \<Rightarrow> layer" where
  "loaded_layer P name r alpha dropout init tA tB l =
     freeze_layer (l\<lparr>ly_lora := dict_set name
       (with_values tA tB (projr (pl_update_layer P (ly_in_features l) (ly_out_features l) r alpha dropout init))) (ly_lora l)\<rparr>)"

text \<open>What is used of \<open>update_layer\<close>: matrices of the documented shapes.\<close>

definition update_layer_ok :: "peft_library \<Rightarrow> bool" where
  "update_layer_ok P \<longleftrightarrow> (\<forall>i o' r alpha dropout init. 0 < r \<longrightarrow> (\<exists>w. pl_update_layer P i o' r alpha dropout init = Inr w \<and>
     has_shape (nat r) i (pr_value (lw_A w)) \<and> has_shape o' (nat r) (pr_value (lw_B w))))"

lemma weights_swap: "w\<lparr>lw_B := b, lw_A := a\<rparr> = w\<lparr>lw_A := a, lw_B := b\<rparr>"
  by (cases w) simp

lemma freeze_layer_lora: "ly_lora (freeze_layer l) = map (\<lambda>(n, w). (n, freeze_weights w)) (ly_lora l)"
  by (simp add: freeze_layer_def map_parameters_def freeze_weights_def)

lemma freeze_layer_set: "freeze_layer (l\<lparr>ly_lora := d\<rparr>) = (freeze_layer l)\<lparr>ly_lora := map (\<lambda>(n, w). (n, freeze_weights w)) d\<rparr>"
  by (simp add: freeze_layer_def map_parameters_def freeze_weights_def)

lemma freeze_with_values: "freeze_weights (with_values tA tB w) = with_values tA tB (freeze_weights w)"
  by (simp add: freeze_weights_def with_values_def freeze_def)

lemma map_values_set: "map (\<lambda>(n, w). (n, g w)) (dict_set k v d) = dict_set k (g v) (map (\<lambda>(n, w). (n, g w)) d)"
  by (induction d) auto

lemma get_map_values: "dict_get (map (\<lambda>(n, w). (n, g w)) d) k = map_option g (dict_get d k)"
  by (induction d) auto

lemma add_to_layer_loaded:
  assumes "update_layer_ok P" "0 < r" "is_lora l" "is_target P tm n = Inr True" "dict_get (ly_lora l) name = None"
    and "wf_dict sd" "set (filter (is_substring n) (map fst sd)) = {ka, kb}"
    and "ends_with ka ''.lora_A.weight''" "ends_with kb ''.lora_B.weight''" "dict_get sd ka = Some tA" "dict_get sd kb = Some tB"
    and "has_shape (nat r) (ly_in_features l) tA" "has_shape (ly_out_features l) (nat r) tB"
  shows "add_to_layer P name (lora_config tm r alpha dropout init) sd n l = Inr (loaded_layer P name r alpha dropout init tA tB l)"
proof -
  obtain w where w: "pl_update_layer P (ly_in_features l) (ly_out_features l) r alpha dropout init = Inr w"
    "has_shape (nat r) (ly_in_features l) (pr_value (lw_A w))" "has_shape (ly_out_features l) (nat r) (pr_value (lw_B w))"
    using assms(1,2) unfolding update_layer_ok_def by blast
  let ?cfg = "lora_config tm r alpha dropout init"
  let ?l1 = "freeze_layer (l\<lparr>ly_lora := dict_set name w (ly_lora l)\<rparr>)"
  let ?fw = "freeze_weights w"
  have ensure: "ensure_adapter P name ?cfg l = Inr ?l1"
    using assms(5) by (simp add: ensure_adapter_def lora_config_def item_def w(1))
  have again: "ensure_adapter P name ?cfg (?l1\<lparr>ly_lora := dict_set name v (ly_lora ?l1)\<rparr>) = Inr (?l1\<lparr>ly_lora := dict_set name v (ly_lora ?l1)\<rparr>)" for v
    by (simp add: ensure_adapter_def)
  have get: "dict_get (ly_lora ?l1) name = Some ?fw" by (simp add: freeze_layer_lora map_values_set)
  have copy: "copy_into (lw_A ?fw) tA = Inr ((lw_A ?fw)\<lparr>pr_value := tA\<rparr>)" "copy_into (lw_B ?fw) tB = Inr ((lw_B ?fw)\<lparr>pr_value := tB\<rparr>)"
    using w(2,3) assms(12,13) by (auto intro!: copy_exact simp: freeze_weights_def freeze_def)
  have sub: "is_substring n ka" "is_substring n kb" using assms(7) by auto
  have ne: "ka \<noteq> kb" using assms(8,9) suffix_facts by blast
  note keys = suffix_facts(1) [OF assms(8)] suffix_facts(2) [OF assms(9)]
  let ?final = "(?l1\<lparr>ly_lora := dict_set name (with_values tA tB ?fw) (ly_lora ?l1)\<rparr>, True, True)"
  have AB: "foldR (load_key P name ?cfg sd n) [ka, kb] (l, False, False) = Inr ?final"
    by (simp add: load_key_def store_key_def sub ensure again assms(8-11) keys get copy with_values_def dict_item_def)
  have BA: "foldR (load_key P name ?cfg sd n) [kb, ka] (l, False, False) = Inr ?final"
    by (simp add: load_key_def store_key_def sub ensure again assms(8-11) keys get copy with_values_def dict_item_def weights_swap)
  have "distinct (filter (is_substring n) (map fst sd))" using assms(6) by simp
  from distinct_pair [OF this assms(7) ne] AB BA
  have "foldR (load_key P name ?cfg sd n) (map fst sd) (l, False, False) = Inr ?final"
    by (subst foldR_skip [where Q = "is_substring n"]) (auto simp: load_key_def)
  moreover have "?l1\<lparr>ly_lora := dict_set name (with_values tA tB ?fw) (ly_lora ?l1)\<rparr> = loaded_layer P name r alpha dropout init tA tB l"
    by (simp add: loaded_layer_def w(1) freeze_layer_set map_values_set freeze_with_values)
  ultimately show ?thesis
    using assms(3,4) by (simp add: add_to_layer_def lora_config_def item_def)
qed

text \<open>An adapter fits a layer: if it is aimed at the layer, then it is not there yet, and the keys that contain the name
  of the layer are none or one pair of matrices of the right shapes.\<close>

definition owns_keys :: "adapter_weights \<Rightarrow> nat \<Rightarrow> string \<Rightarrow> layer \<Rightarrow> matrix \<Rightarrow> matrix \<Rightarrow> bool" where
  "owns_keys sd r n l tA tB \<longleftrightarrow>
     (\<exists>ka kb. set (filter (is_substring n) (map fst sd)) = {ka, kb} \<and> ends_with ka ''.lora_A.weight'' \<and> ends_with kb ''.lora_B.weight'' \<and>
        dict_get sd ka = Some tA \<and> dict_get sd kb = Some tB \<and> has_shape r (ly_in_features l) tA \<and> has_shape (ly_out_features l) r tB)"

definition takes_adapter :: "peft_library \<Rightarrow> target_modules \<Rightarrow> adapter_weights \<Rightarrow> string \<Rightarrow> bool" where
  "takes_adapter P tm sd n \<longleftrightarrow> is_target P tm n = Inr True \<and> filter (is_substring n) (map fst sd) \<noteq> []"

definition adapter_fits ::
    "peft_library \<Rightarrow> string \<Rightarrow> target_modules \<Rightarrow> nat \<Rightarrow> adapter_weights \<Rightarrow> (string \<Rightarrow> matrix) \<Rightarrow> (string \<Rightarrow> matrix) \<Rightarrow> string \<Rightarrow> layer \<Rightarrow> bool" where
  "adapter_fits P name tm r sd tA tB n l \<longleftrightarrow>
     is_target P tm n = Inr False \<or>
     is_target P tm n = Inr True \<and> dict_get (ly_lora l) name = None \<and>
       (filter (is_substring n) (map fst sd) = [] \<or> owns_keys sd r n l (tA n) (tB n))"

lemma add_to_layer_fits:
  assumes "update_layer_ok P" "0 < r" "wf_dict sd" "is_lora l \<longrightarrow> adapter_fits P name tm (nat r) sd tA tB n l"
  shows "add_to_layer P name (lora_config tm r alpha dropout init) sd n l =
    Inr (if is_lora l \<and> takes_adapter P tm sd n then loaded_layer P name r alpha dropout init (tA n) (tB n) l else l)"
proof (cases "is_lora l \<and> takes_adapter P tm sd n")
  case True
  with assms(4) obtain ka kb where "is_target P tm n = Inr True" "dict_get (ly_lora l) name = None"
      "set (filter (is_substring n) (map fst sd)) = {ka, kb}" "ends_with ka ''.lora_A.weight''" "ends_with kb ''.lora_B.weight''"
      "dict_get sd ka = Some (tA n)" "dict_get sd kb = Some (tB n)" "has_shape (nat r) (ly_in_features l) (tA n)" "has_shape (ly_out_features l) (nat r) (tB n)"
    unfolding takes_adapter_def adapter_fits_def owns_keys_def by (metis Inr_inject)
  from add_to_layer_loaded [OF assms(1,2) _ this(1,2) assms(3) this(3-9)] True show ?thesis by simp
next
  case False
  show ?thesis
  proof (cases "is_lora l \<and> is_target P tm n = Inr True")
    case True
    with False assms(4) have "filter (is_substring n) (map fst sd) = []" by (auto simp: takes_adapter_def)
    then have "foldR (load_key P name (lora_config tm r alpha dropout init) sd n) (map fst sd) (l, False, False) = Inr (l, False, False)"
      by (subst foldR_skip [where Q = "is_substring n"]) (auto simp: load_key_def)
    with True False show ?thesis by (simp add: add_to_layer_def lora_config_def item_def)
  next
    case other: False
    with assms(4) have "\<not> is_lora l \<or> is_target P tm n = Inr False" by (auto simp: adapter_fits_def)
    with False show ?thesis by (auto simp: add_to_layer_def lora_config_def item_def)
  qed
qed

lemma add_adapter_fits:
  assumes "update_layer_ok P" "0 < r" "wf_dict sd"
    and "\<forall>(p, l) \<in> set (named_layers block). is_lora l \<longrightarrow> adapter_fits P name tm (nat r) sd tA tB (last p) l"
  shows "add_adapter_to_block P name (lora_config tm r alpha dropout init) sd block =
    Inr (map_layers (\<lambda>n l. if is_lora l \<and> takes_adapter P tm sd n then loaded_layer P name r alpha dropout init (tA n) (tB n) l else l) block)"
proof -
  have "for_layers (add_to_layer P name (lora_config tm r alpha dropout init) sd) block =
    Inr (map_layers (\<lambda>n l. if is_lora l \<and> takes_adapter P tm sd n then loaded_layer P name r alpha dropout init (tA n) (tB n) l else l) block)"
    using assms(4) by (intro for_layers_total ballI) (clarify, rule add_to_layer_fits [OF assms(1-3)], fastforce)
  then show ?thesis by (simp add: add_adapter_to_block_def lora_config_def item_def)
qed

subsection \<open>Adapters do not disturb each other\<close>

definition weight_values :: "lora_weights \<Rightarrow> matrix \<times> matrix \<times> rat" where
  "weight_values w = (pr_value (lw_A w), pr_value (lw_B w), lw_scaling w)"

text \<open>Two layers that are the same to a request with the adapter \<open>a\<close>.\<close>

definition same_for :: "string \<Rightarrow> layer \<Rightarrow> layer \<Rightarrow> bool" where
  "same_for a l l' \<longleftrightarrow> ly_class l' = ly_class l \<and> ly_in_features l' = ly_in_features l \<and> ly_out_features l' = ly_out_features l \<and>
     ly_compute_dtype l' = ly_compute_dtype l \<and> pr_value (ly_weight l') = pr_value (ly_weight l) \<and>
     map_option pr_value (ly_bias l') = map_option pr_value (ly_bias l) \<and>
     map_option weight_values (dict_get (ly_lora l') a) = map_option weight_values (dict_get (ly_lora l) a)"

lemma same_for_refl: "same_for a l l"
  by (simp add: same_for_def)

lemma same_for_trans: "same_for a l l' \<Longrightarrow> same_for a l' l'' \<Longrightarrow> same_for a l l''"
  by (simp add: same_for_def)

lemma same_for_set: "a \<noteq> name \<Longrightarrow> same_for a l (l\<lparr>ly_lora := dict_set name w (ly_lora l)\<rparr>)"
  by (simp add: same_for_def)

lemma weight_values_freeze: "weight_values (freeze_weights w) = weight_values w"
  by (simp add: weight_values_def freeze_weights_def freeze_def)

lemma same_for_freeze: "same_for a l (freeze_layer l)"
proof -
  have "dict_get (ly_lora (freeze_layer l)) a = map_option freeze_weights (dict_get (ly_lora l) a)"
    by (simp add: freeze_layer_lora get_map_values)
  then have "map_option weight_values (dict_get (ly_lora (freeze_layer l)) a) = map_option weight_values (dict_get (ly_lora l) a)"
    by (simp add: option.map_comp comp_def weight_values_freeze)
  then show ?thesis
    by (simp add: same_for_def option.map_comp comp_def) (simp add: freeze_layer_def map_parameters_def freeze_def option.map_comp comp_def)
qed

lemma ensure_adapter_same: "ensure_adapter P name cfg l = Inr l' \<Longrightarrow> a \<noteq> name \<Longrightarrow> same_for a l l'"
  by (auto simp: ensure_adapter_def resultD intro: same_for_refl same_for_trans [OF same_for_set same_for_freeze] split: if_splits)

text \<open>What storing a tensor does to the layer.\<close>

lemma store_key_cases:
  assumes "store_key name sd k (l, a, b) = Inr st"
  shows "fst st = l \<or> (\<exists>w w' t. dict_get (ly_lora l) name = Some w \<and> fst st = l\<lparr>ly_lora := dict_set name w' (ly_lora l)\<rparr> \<and>
    (\<exists>p. copy_into (lw_A w) t = Inr p \<and> w' = w\<lparr>lw_A := p\<rparr> \<or> copy_into (lw_B w) t = Inr p \<and> w' = w\<lparr>lw_B := p\<rparr>))"
proof -
  consider "ends_with k ''.lora_A.weight''" | "\<not> ends_with k ''.lora_A.weight''" "ends_with k ''.lora_B.weight''"
    | "\<not> ends_with k ''.lora_A.weight''" "\<not> ends_with k ''.lora_B.weight''" by blast
  then show ?thesis
  proof cases
    case 1
    with assms obtain w t p where "dict_get (ly_lora l) name = Some w" "copy_into (lw_A w) t = Inr p"
      "fst st = l\<lparr>ly_lora := dict_set name (w\<lparr>lw_A := p\<rparr>) (ly_lora l)\<rparr>"
      by (auto simp: store_key_def resultD)
    then show ?thesis by blast
  next
    case 2
    with assms obtain w t p where "dict_get (ly_lora l) name = Some w" "copy_into (lw_B w) t = Inr p"
      "fst st = l\<lparr>ly_lora := dict_set name (w\<lparr>lw_B := p\<rparr>) (ly_lora l)\<rparr>"
      by (auto simp: store_key_def resultD split: if_splits)
    then show ?thesis by blast
  qed (use assms in \<open>auto simp: store_key_def split: if_splits\<close>)
qed

lemma load_key_cases:
  assumes "load_key P name cfg sd n k (l, a, b) = Inr st"
  shows "st = (l, a, b) \<or> (\<exists>l1. ensure_adapter P name cfg l = Inr l1 \<and> store_key name sd k (l1, a, b) = Inr st)"
  using assms by (auto simp: load_key_def resultD split: if_splits)

lemma load_key_same:
  assumes "load_key P name cfg sd n k st = Inr st'" "a \<noteq> name"
  shows "same_for a (fst st) (fst st')"
proof -
  obtain l f g where st: "st = (l, f, g)" by (cases st) auto
  from load_key_cases [OF assms(1) [unfolded st]] show ?thesis
  proof
    assume "\<exists>l1. ensure_adapter P name cfg l = Inr l1 \<and> store_key name sd k (l1, f, g) = Inr st'"
    then obtain l1 where l1: "ensure_adapter P name cfg l = Inr l1" "store_key name sd k (l1, f, g) = Inr st'" by blast
    from store_key_cases [OF l1(2)] have "same_for a l1 (fst st')" using same_for_set [OF assms(2)] same_for_refl by auto
    with ensure_adapter_same [OF l1(1) assms(2)] show ?thesis unfolding st by (auto intro: same_for_trans)
  qed (simp add: st same_for_refl)
qed

lemma add_to_layer_same:
  assumes "add_to_layer P name cfg sd n l = Inr l'" "a \<noteq> name"
  shows "same_for a l l'"
proof -
  have refl: "same_for a l l" by (simp add: same_for_def)
  have "same_for a l (fst st)" if "foldR (load_key P name cfg sd n) ks (l, False, False) = Inr st" for ks st
    using that
  proof (induction ks arbitrary: st rule: rev_induct)
    case (snoc k ks)
    then obtain st1 where "foldR (load_key P name cfg sd n) ks (l, False, False) = Inr st1" "load_key P name cfg sd n k st1 = Inr st"
      by (auto simp: foldR_snoc resultD)
    with snoc.IH [of st1] load_key_same [OF _ assms(2)] show ?case by (blast intro: same_for_trans)
  qed (use refl in auto)
  with assms(1) refl show ?thesis by (force simp: add_to_layer_def resultD split: if_splits)
qed

text \<open>C36. Loading an adapter never changes what requests with another adapter, or with none, compute: when
  \<open>add_adapter_to_block\<close> succeeds, with whatever configuration and tensors, the block has the same layers under
  the same names, and each of them gives the same results under every other adapter. The forward pass of a
  LoRA layer is any function of the base weights and of the weights of the active adapter.\<close>

theorem adapters_isolated:
  assumes "add_adapter_to_block P name cfg sd block = Inr block'" and "a \<noteq> name"
    and "\<And>l l' x. same_for a l l' \<Longrightarrow> forward a l' x = forward a l x"
  shows "list_all2 (\<lambda>(p, l) (p', l'). p' = p \<and> (\<forall>x. forward a l' x = forward a l x)) (named_layers block) (named_layers block')"
proof -
  from assms(1) have "for_layers (add_to_layer P name cfg sd) block = Inr block'" by (auto simp: add_adapter_to_block_def resultD)
  from for_layers_changed [OF this]
  have "list_all2 (\<lambda>(p, l) (p', l'). p' = p \<and> add_to_layer P name cfg sd (last p) l = Inr l') (named_layers block) (named_layers block')"
    by (simp add: changed_def)
  then show ?thesis by (rule list.rel_mono_strong) (auto intro: assms(3) add_to_layer_same [OF _ assms(2)])
qed

subsection \<open>The memory of adapters\<close>

lemma numel_freeze [simp]: "param_numel (freeze p) = param_numel p"
  by (simp add: param_numel_def freeze_def)

definition layer_numel :: "layer \<Rightarrow> nat" where
  "layer_numel l = (\<Sum>p \<leftarrow> layer_parameters l. param_numel p)"

definition weights_numel :: "lora_weights \<Rightarrow> nat" where
  "weights_numel w = param_numel (lw_A w) + param_numel (lw_B w)"

lemma layer_numel_eq:
  "layer_numel l = param_numel (ly_weight l) + (case ly_bias l of None \<Rightarrow> 0 | Some b \<Rightarrow> param_numel b) + (\<Sum>(n, w) \<leftarrow> ly_lora l. weights_numel w)"
proof -
  have "sum_list (map param_numel (concat (map (\<lambda>(_, w). [lw_A w, lw_B w]) d))) = (\<Sum>(n, w) \<leftarrow> d. weights_numel w)" for d :: "(string, lora_weights) dict"
    by (induction d) (auto simp: weights_numel_def)
  then show ?thesis by (simp add: layer_numel_def layer_parameters_def split: option.splits)
qed

lemma layer_numel_freeze [simp]: "layer_numel (freeze_layer l) = layer_numel l"
proof -
  have "(\<Sum>(n, w) \<leftarrow> map (\<lambda>(n, w). (n, freeze_weights w)) d. weights_numel w) = (\<Sum>(n, w) \<leftarrow> d. weights_numel w)" for d :: "(string, lora_weights) dict"
    by (induction d) (auto simp: weights_numel_def freeze_weights_def)
  then show ?thesis
    by (simp add: layer_numel_eq freeze_layer_lora) (simp add: freeze_layer_def map_parameters_def split: option.splits)
qed

lemma numel_shape: "has_shape m n (pr_value p) \<Longrightarrow> param_numel p = m * n"
proof -
  have "(\<forall>row \<in> set M. length row = n) \<Longrightarrow> length (concat M) = length M * n" for M :: matrix by (induction M) auto
  then show "has_shape m n (pr_value p) \<Longrightarrow> param_numel p = m * n" by (auto simp: has_shape_def param_numel_def)
qed

lemma num_parameters_split:
  "is_block m \<Longrightarrow> num_parameters m = (\<Sum>p \<leftarrow> other_parameters m. param_numel p) + (\<Sum>l \<leftarrow> layers_of m. layer_numel l)"
proof -
  assume "is_block m"
  then have "sum_mset (image_mset param_numel (mset (parameters m))) =
      sum_mset (image_mset param_numel (mset (other_parameters m) + mset (concat (map layer_parameters (layers_of m)))))"
    by (simp add: parameters_split)
  moreover have "sum_list (map param_numel (concat (map layer_parameters ls))) = (\<Sum>l \<leftarrow> ls. layer_numel l)" for ls
    by (induction ls) (auto simp: layer_numel_def)
  ultimately show ?thesis by (simp add: num_parameters_def sum_mset_sum_list [symmetric] flip: mset_map)
qed

lemma loaded_layer_numel:
  assumes "update_layer_ok P" "0 < r" "dict_get (ly_lora l) name = None"
    and "has_shape (nat r) (ly_in_features l) tA" "has_shape (ly_out_features l) (nat r) tB"
  shows "layer_numel (loaded_layer P name r alpha dropout init tA tB l) = layer_numel l + nat r * (ly_in_features l + ly_out_features l)"
proof -
  let ?w = "with_values tA tB (projr (pl_update_layer P (ly_in_features l) (ly_out_features l) r alpha dropout init))"
  have new: "dict_set name ?w (ly_lora l) = ly_lora l @ [(name, ?w)]"
    using assms(3) by (intro dict_set_new) (simp add: map_of_eq_None_iff)
  have "param_numel (lw_A ?w) = nat r * ly_in_features l" "param_numel (lw_B ?w) = ly_out_features l * nat r"
    using assms(4,5) by (auto intro!: numel_shape simp: with_values_def)
  then have w: "weights_numel ?w = nat r * (ly_in_features l + ly_out_features l)"
    by (simp add: weights_numel_def algebra_simps)
  show ?thesis by (simp add: loaded_layer_def layer_numel_eq [of "l\<lparr>ly_lora := _\<rparr>"] new w) (simp add: layer_numel_eq)
qed

lemma sum_pairs:
  "(\<Sum>(p, l) \<leftarrow> xs. h l + g p l) = (\<Sum>l \<leftarrow> map snd xs. h l) + (\<Sum>(p, l) \<leftarrow> xs. g p l)" for h :: "'l \<Rightarrow> nat"
  by (induction xs) auto

text \<open>An adapter as its repository holds it, with the pairs of matrices for the layers by their names.\<close>

record adapter =
  ad_targets :: target_modules
  ad_rank :: int
  ad_alpha :: rat
  ad_dropout :: rat
  ad_init :: bool
  ad_weights :: adapter_weights
  ad_A :: "string \<Rightarrow> matrix"
  ad_B :: "string \<Rightarrow> matrix"

definition adapter_config :: "adapter \<Rightarrow> peft_config" where
  "adapter_config ad = lora_config (ad_targets ad) (ad_rank ad) (ad_alpha ad) (ad_dropout ad) (ad_init ad)"

definition good_adapter :: "peft_library \<Rightarrow> string \<Rightarrow> adapter \<Rightarrow> nn_module \<Rightarrow> bool" where
  "good_adapter P name ad block \<longleftrightarrow> 0 < ad_rank ad \<and> wf_dict (ad_weights ad) \<and>
     (\<forall>(p, l) \<in> set (named_layers block).
        adapter_fits P name (ad_targets ad) (nat (ad_rank ad)) (ad_weights ad) (ad_A ad) (ad_B ad) (last p) l)"

definition extra_parameters :: "peft_library \<Rightarrow> adapter \<Rightarrow> nn_module \<Rightarrow> nat" where
  "extra_parameters P ad block =
     (\<Sum>(p, l) \<leftarrow> named_layers block. if takes_adapter P (ad_targets ad) (ad_weights ad) (last p)
        then nat (ad_rank ad) * (ly_in_features l + ly_out_features l) else 0)"

definition load_adapter :: "peft_library \<Rightarrow> string \<Rightarrow> adapter \<Rightarrow> string \<Rightarrow> layer \<Rightarrow> layer" where
  "load_adapter P name ad n l =
     (if is_lora l \<and> takes_adapter P (ad_targets ad) (ad_weights ad) n
      then loaded_layer P name (ad_rank ad) (ad_alpha ad) (ad_dropout ad) (ad_init ad) (ad_A ad n) (ad_B ad n) l else l)"

definition all_lora :: "nn_module \<Rightarrow> bool" where
  "all_lora block \<longleftrightarrow> is_block block \<and> (\<forall>(p, l) \<in> set (named_layers block). is_lora l)"

lemma loaded_layer_simps [simp]:
  "is_lora (loaded_layer P name r alpha dropout init tA tB l) = is_lora l"
  "ly_in_features (loaded_layer P name r alpha dropout init tA tB l) = ly_in_features l"
  "ly_out_features (loaded_layer P name r alpha dropout init tA tB l) = ly_out_features l"
  "n \<noteq> name \<Longrightarrow> dict_get (ly_lora (loaded_layer P name r alpha dropout init tA tB l)) n = None \<longleftrightarrow> dict_get (ly_lora l) n = None"
  by (simp_all add: loaded_layer_def freeze_layer_lora get_map_values)
     (simp_all add: freeze_layer_def map_parameters_def is_lora_def)

lemma good_adapter_other:
  assumes "good_adapter P n2 ad2 block" "n2 \<noteq> name"
  shows "good_adapter P n2 ad2 (map_layers (load_adapter P name ad) block)"
proof -
  have "adapter_fits P n2 tm r sd tA tB n (load_adapter P name ad m l)" if "adapter_fits P n2 tm r sd tA tB n l" for tm r sd tA tB n m l
    using that assms(2) by (auto simp: adapter_fits_def load_adapter_def owns_keys_def)
  then show ?thesis using assms(1) unfolding good_adapter_def named_layers_map by auto
qed

lemma extra_parameters_other: "extra_parameters P ad2 (map_layers (load_adapter P name ad) block) = extra_parameters P ad2 block"
  unfolding extra_parameters_def named_layers_map map_map
  by (intro arg_cong [where f = sum_list] map_cong) (auto simp: load_adapter_def)

lemma all_lora_load: "all_lora block \<Longrightarrow> all_lora (map_layers (load_adapter P name ad) block)"
  by (auto simp: all_lora_def named_layers_map map_layers_rest load_adapter_def)

lemma load_adapter_numel:
  assumes "update_layer_ok P" "good_adapter P name ad block" "all_lora block"
  shows "num_parameters (map_layers (load_adapter P name ad) block) = num_parameters block + extra_parameters P ad block"
proof -
  have "layer_numel (load_adapter P name ad (last p) l) = layer_numel l +
      (if takes_adapter P (ad_targets ad) (ad_weights ad) (last p) then nat (ad_rank ad) * (ly_in_features l + ly_out_features l) else 0)"
    if "(p, l) \<in> set (named_layers block)" for p l
  proof (cases "takes_adapter P (ad_targets ad) (ad_weights ad) (last p)")
    case True
    have fits: "adapter_fits P name (ad_targets ad) (nat (ad_rank ad)) (ad_weights ad) (ad_A ad) (ad_B ad) (last p) l" "0 < ad_rank ad" "is_lora l"
      using assms(2,3) that by (auto simp: good_adapter_def all_lora_def)
    with True have "dict_get (ly_lora l) name = None" "owns_keys (ad_weights ad) (nat (ad_rank ad)) (last p) l (ad_A ad (last p)) (ad_B ad (last p))"
      by (auto simp: adapter_fits_def takes_adapter_def)
    then show ?thesis
      using True fits(2,3) loaded_layer_numel [OF assms(1) fits(2)] by (auto simp: load_adapter_def owns_keys_def)
  qed (simp add: load_adapter_def)
  then have "(\<Sum>l \<leftarrow> layers_of (map_layers (load_adapter P name ad) block). layer_numel l) =
      (\<Sum>(p, l) \<leftarrow> named_layers block. layer_numel l +
        (if takes_adapter P (ad_targets ad) (ad_weights ad) (last p) then nat (ad_rank ad) * (ly_in_features l + ly_out_features l) else 0))"
    unfolding layers_map map_map by (intro arg_cong [where f = sum_list] map_cong) auto
  also have "\<dots> = (\<Sum>l \<leftarrow> layers_of block. layer_numel l) + extra_parameters P ad block"
    unfolding extra_parameters_def layers_of_def sum_pairs by simp
  finally show ?thesis using assms(3) by (simp add: num_parameters_split map_layers_rest all_lora_def)
qed

definition serves :: "'w peft_hub \<Rightarrow> int \<Rightarrow> (string \<Rightarrow> adapter) \<Rightarrow> string \<Rightarrow> bool" where
  "serves H block_index ads name \<longleftrightarrow>
     (\<forall>w. \<exists>w'. load_peft H name (Some block_index) w = Some (Inr (adapter_config (ads name), ad_weights (ads name)), w'))"

lemma add_adapters_numel:
  assumes "update_layer_ok P" "all_lora block" "distinct names" "\<forall>name \<in> set names. good_adapter P name (ads name) block \<and> serves H i ads name"
  shows "\<exists>block' w'. add_adapters P H i names block w = Some (Inr block', w') \<and>
    num_parameters block' = num_parameters block + (\<Sum>name \<leftarrow> names. extra_parameters P (ads name) block)"
  using assms(2-4)
proof (induction names arbitrary: block w)
  case (Cons name names)
  let ?block = "map_layers (load_adapter P name (ads name)) block"
  obtain w1 where w1: "load_peft H name (Some i) w = Some (Inr (adapter_config (ads name), ad_weights (ads name)), w1)"
    using Cons.prems(3) unfolding serves_def by (meson list.set_intros(1))
  have good: "good_adapter P name (ads name) block" using Cons.prems(3) by simp
  have "add_adapter_to_block P name (adapter_config (ads name)) (ad_weights (ads name)) block = Inr ?block"
    using good add_adapter_fits [OF assms(1)] unfolding good_adapter_def adapter_config_def load_adapter_def by fastforce
  moreover have "\<forall>n \<in> set names. good_adapter P n (ads n) ?block \<and> serves H i ads n"
    using Cons.prems(2,3) by (auto intro!: good_adapter_other)
  with Cons.IH [OF all_lora_load [OF Cons.prems(1)]] Cons.prems(2) obtain block' w' where
    "add_adapters P H i names ?block w1 = Some (Inr block', w')"
    "num_parameters block' = num_parameters ?block + (\<Sum>n \<leftarrow> names. extra_parameters P (ads n) ?block)" by fastforce
  ultimately show ?case
    using load_adapter_numel [OF assms(1) good Cons.prems(1)] by (auto simp: w1 extra_parameters_other)
qed simp

definition wrapped_layer :: "peft_library \<Rightarrow> quantization \<Rightarrow> layer \<Rightarrow> layer" where
  "wrapped_layer P quant l = projr (lora_wrap P quant [] l)"

text \<open>C35. The estimate of the memory of adapters is exact: when every adapter can be fetched and fits the block (each
  layer that it is aimed at is named by no key or by one pair of matrices of its shape), the estimate is, times
  the bytes of a parameter, the sum over the adapters and over the layers that they change of the rank times
  the input and output features of the layer.\<close>

theorem adapter_memory_exact:
  assumes "update_layer_ok P" and "\<And>n i o'. pl_init P n i o' = []" and "distinct names" and "is_block block"
    and "\<And>p l. (p, l) \<in> set (named_layers block) \<Longrightarrow> ly_lora l = []"
    and "\<And>name. name \<in> set names \<Longrightarrow> good_adapter P name (ads name) block \<and> serves H 0 ads name"
    and "size_of (resolve_block_dtype config_dtype dtype) = Inr bytes"
  shows "\<exists>w'. estimate_adapter_memory_per_block P H size_of config_dtype dtype block names w =
    Some (Inr (int (\<Sum>name \<leftarrow> names. extra_parameters P (ads name) block) * bytes), w')"
proof -
  let ?g = "\<lambda>n l. wrapped_layer P QUANT_NONE l"
  have wrap: "lora_wrap P QUANT_NONE n l = Inr (wrapped_layer P QUANT_NONE l)" for n l
    by (simp add: wrapped_layer_def lora_wrap_def)
  let ?b = "map_layers ?g block"
  have create: "create_lora_adapter P QUANT_NONE block = Inr ?b"
    unfolding create_lora_adapter_def by (rule for_layers_total) (auto simp: wrap)
  have w: "is_lora (wrapped_layer P QUANT_NONE l)" "ly_in_features (wrapped_layer P QUANT_NONE l) = ly_in_features l"
    "ly_out_features (wrapped_layer P QUANT_NONE l) = ly_out_features l" "ly_lora (wrapped_layer P QUANT_NONE l) = []" for l
    by (simp_all add: wrapped_layer_def lora_wrap_def freeze_layer_def map_parameters_def is_lora_def lora_class_def assms(2))
  have numel: "layer_numel (wrapped_layer P QUANT_NONE l) = layer_numel l" if "ly_lora l = []" for l
    using that by (simp add: wrapped_layer_def lora_wrap_def assms(2)) (simp add: layer_numel_eq)
  have "(\<Sum>l \<leftarrow> layers_of ?b. layer_numel l) = (\<Sum>l \<leftarrow> layers_of block. layer_numel l)"
    unfolding layers_map unfolding layers_of_def map_map
    by (intro arg_cong [where f = sum_list] map_cong) (use assms(5) numel in auto)
  then have "num_parameters ?b = num_parameters block"
    using assms(4) by (simp add: num_parameters_split map_layers_rest)
  moreover have "all_lora ?b" using assms(4) by (auto simp: all_lora_def map_layers_rest named_layers_map w)
  moreover have "good_adapter P name (ads name) ?b \<and> serves H 0 ads name" if "name \<in> set names" for name
  proof -
    have "adapter_fits P name tm r sd tA tB n (wrapped_layer P QUANT_NONE l)" if "adapter_fits P name tm r sd tA tB n l" for tm r sd tA tB n l
      using that by (auto simp: adapter_fits_def owns_keys_def w)
    with assms(6) [OF that] show ?thesis unfolding good_adapter_def named_layers_map by auto
  qed
  moreover have "extra_parameters P ad ?b = extra_parameters P ad block" for ad
    unfolding extra_parameters_def named_layers_map map_map
    by (intro arg_cong [where f = sum_list] map_cong) (auto simp: w)
  ultimately obtain block' w' where "add_adapters P H 0 names ?b w = Some (Inr block', w')"
    "num_parameters block' = num_parameters block + (\<Sum>name \<leftarrow> names. extra_parameters P (ads name) block)"
    using add_adapters_numel [OF assms(1), of ?b names ads H 0 w] assms(3) by auto
  then show ?thesis by (simp add: estimate_adapter_memory_per_block_def create assms(7))
qed

subsection \<open>A converted block\<close>

definition frozen_layer :: "layer \<Rightarrow> bool" where
  "frozen_layer l \<longleftrightarrow> (\<forall>p \<in> set (layer_parameters l). \<not> pr_requires_grad p)"

definition frozen :: "nn_module \<Rightarrow> bool" where
  "frozen m \<longleftrightarrow> (\<forall>p \<in> set (parameters m). \<not> pr_requires_grad p)"

lemma frozen_split:
  "is_block m \<Longrightarrow> frozen m \<longleftrightarrow> (\<forall>p \<in> set (other_parameters m). \<not> pr_requires_grad p) \<and> (\<forall>l \<in> set (layers_of m). frozen_layer l)"
proof -
  assume "is_block m"
  then have "set (parameters m) = set (other_parameters m) \<union> set (concat (map layer_parameters (layers_of m)))"
    using arg_cong [OF parameters_split, of m set_mset] by simp
  then show ?thesis by (auto simp: frozen_def frozen_layer_def)
qed

lemma changed_layers:
  assumes "changed R m m'" "l' \<in> set (layers_of m')"
  shows "\<exists>n. \<exists>l \<in> set (layers_of m). R n l l'"
proof -
  from assms(2) obtain p' where "(p', l') \<in> set (named_layers m')" by (auto simp: layers_of_def)
  with assms(1) obtain p l where "(p, l) \<in> set (named_layers m)" "R (last p) l l'"
    unfolding changed_def list_all2_conv_all_nth in_set_conv_nth by (auto split: prod.splits) (metis prod.exhaust)
  then show ?thesis by (force simp: layers_of_def)
qed

lemma changed_frozen:
  assumes "changed R m m'" "other_parameters m' = other_parameters m" "is_block m" "is_block m'" "frozen m"
    and "\<And>n l l'. R n l l' \<Longrightarrow> frozen_layer l \<Longrightarrow> frozen_layer l'"
  shows "frozen m'"
  using assms changed_layers [OF assms(1)] by (auto simp: frozen_split) blast

lemma layer_parameters_map: "layer_parameters (map_parameters f l) = map f (layer_parameters l)"
  by (simp add: layer_parameters_def map_parameters_def map_concat comp_def case_prod_beta split: option.splits)

lemma parameters_map: "parameters (on_parameters f m) = map f (parameters m)"
proof (induction m rule: parameters.induct)
  case (2 i cs)
  then have "map (\<lambda>(n, c). parameters c) (map (\<lambda>(n, c). (n, on_parameters f c)) cs) = map (\<lambda>(n, c). map f (parameters c)) cs"
    by (auto simp: comp_def)
  then have "concat (map (\<lambda>(n, c). parameters c) (map (\<lambda>(n, c). (n, on_parameters f c)) cs)) = map f (concat (map (\<lambda>(n, c). parameters c) cs))"
    by (simp only: map_concat) (simp add: comp_def case_prod_unfold)
  then show ?case by simp
qed (simp add: layer_parameters_map)

lemma frozen_freeze: "frozen (on_parameters freeze m)"
  by (auto simp: frozen_def parameters_map freeze_def)

lemma frozen_layer_freeze: "frozen_layer (freeze_layer l)"
  by (auto simp: frozen_layer_def freeze_layer_def layer_parameters_map freeze_def)

lemma frozen_layer_eq: "frozen_layer l \<longleftrightarrow> \<not> pr_requires_grad (ly_weight l) \<and> (\<forall>b. ly_bias l = Some b \<longrightarrow> \<not> pr_requires_grad b) \<and>
    (\<forall>(n, w) \<in> set (ly_lora l). \<not> pr_requires_grad (lw_A w) \<and> \<not> pr_requires_grad (lw_B w))"
  by (auto simp: frozen_layer_def layer_parameters_def split: option.splits)

lemma quantize_layer_frozen: "quantize_layer B quant l = Inr l' \<Longrightarrow> frozen_layer l \<Longrightarrow> frozen_layer l'"
  by (auto simp: quantize_layer_def resultD frozen_layer_eq quantized_weight_def split: quantization.splits)

lemma copy_into_frozen: "copy_into p t = Inr p' \<Longrightarrow> pr_requires_grad p' = pr_requires_grad p"
  by (auto simp: copy_into_def Let_def resultD split: if_splits)

lemma ensure_adapter_keeps:
  "ensure_adapter P name cfg l = Inr l' \<Longrightarrow> ly_class l' = ly_class l \<and> (frozen_layer l \<longrightarrow> frozen_layer l')"
  by (auto simp: ensure_adapter_def resultD frozen_layer_freeze split: if_splits) (simp_all add: freeze_layer_def map_parameters_def)

lemma set_weights_frozen:
  assumes "frozen_layer l" "dict_get (ly_lora l) name = Some w" "pr_requires_grad (lw_A w') = pr_requires_grad (lw_A w)"
    "pr_requires_grad (lw_B w') = pr_requires_grad (lw_B w)"
  shows "frozen_layer (l\<lparr>ly_lora := dict_set name w' (ly_lora l)\<rparr>)"
  using assms map_of_SomeD [OF assms(2)] by (auto simp: frozen_layer_eq dest!: dict_set_mem)

lemma load_key_keeps:
  assumes "load_key P name cfg sd n k st = Inr st'"
  shows "ly_class (fst st') = ly_class (fst st) \<and> (frozen_layer (fst st) \<longrightarrow> frozen_layer (fst st'))"
proof -
  obtain l f g where st: "st = (l, f, g)" by (cases st) auto
  from load_key_cases [OF assms [unfolded st]] show ?thesis
  proof
    assume "\<exists>l1. ensure_adapter P name cfg l = Inr l1 \<and> store_key name sd k (l1, f, g) = Inr st'"
    then obtain l1 where l1: "ensure_adapter P name cfg l = Inr l1" "store_key name sd k (l1, f, g) = Inr st'" by blast
    from store_key_cases [OF l1(2)] have "ly_class (fst st') = ly_class l1 \<and> (frozen_layer l1 \<longrightarrow> frozen_layer (fst st'))"
    proof (elim disjE exE conjE)
      fix w w' t p
      assume w: "dict_get (ly_lora l1) name = Some w" and st': "fst st' = l1\<lparr>ly_lora := dict_set name w' (ly_lora l1)\<rparr>"
      assume "copy_into (lw_A w) t = Inr p" "w' = w\<lparr>lw_A := p\<rparr>"
      then have "pr_requires_grad (lw_A w') = pr_requires_grad (lw_A w)" "pr_requires_grad (lw_B w') = pr_requires_grad (lw_B w)"
        using copy_into_frozen by simp_all
      with set_weights_frozen [OF _ w] st' show ?thesis by simp
    next
      fix w w' t p
      assume w: "dict_get (ly_lora l1) name = Some w" and st': "fst st' = l1\<lparr>ly_lora := dict_set name w' (ly_lora l1)\<rparr>"
      assume "copy_into (lw_B w) t = Inr p" "w' = w\<lparr>lw_B := p\<rparr>"
      then have "pr_requires_grad (lw_A w') = pr_requires_grad (lw_A w)" "pr_requires_grad (lw_B w') = pr_requires_grad (lw_B w)"
        using copy_into_frozen by simp_all
      with set_weights_frozen [OF _ w] st' show ?thesis by simp
    qed simp
    with ensure_adapter_keeps [OF l1(1)] show ?thesis by (simp add: st)
  qed (simp add: st)
qed

lemma add_to_layer_keeps:
  assumes "add_to_layer P name cfg sd n l = Inr l'"
  shows "ly_class l' = ly_class l \<and> (frozen_layer l \<longrightarrow> frozen_layer l')"
proof -
  have "ly_class (fst st') = ly_class l \<and> (frozen_layer l \<longrightarrow> frozen_layer (fst st'))"
    if "foldR (load_key P name cfg sd n) ks (l, False, False) = Inr st'" for ks st'
    by (rule foldR_invariant [OF that]) (auto dest!: load_key_keeps)
  with assms show ?thesis by (fastforce simp: add_to_layer_def resultD split: if_splits)
qed

text \<open>Blocks whose layers all have a class, output heads apart.\<close>

definition layers_have :: "(string \<Rightarrow> layer_class \<Rightarrow> bool) \<Rightarrow> nn_module \<Rightarrow> bool" where
  "layers_have C m \<longleftrightarrow> (\<forall>(p, l) \<in> set (named_layers m). C (last p) (ly_class l))"

definition quantized_class :: "quantization \<Rightarrow> string \<Rightarrow> layer_class \<Rightarrow> bool" where
  "quantized_class quant n c \<longleftrightarrow> (n \<notin> set OUTPUT_HEADS \<and> quant = INT8 \<longrightarrow> c = Bnb_Linear8bitLt) \<and>
     (n \<notin> set OUTPUT_HEADS \<and> quant = NF4 \<longrightarrow> c = Bnb_Linear4bit)"

lemma changed_have:
  assumes "changed R m m'" "\<And>n l l'. R n l l' \<Longrightarrow> C n (ly_class l')"
  shows "layers_have C m'"
proof -
  have "C (last p') (ly_class l')" if "(p', l') \<in> set (named_layers m')" for p' l'
  proof -
    from that obtain i where i: "i < length (named_layers m')" "named_layers m' ! i = (p', l')" by (auto simp: in_set_conv_nth)
    obtain p l where "named_layers m ! i = (p, l)" by force
    with assms(1) i have "p' = p" "R (last p) l l'" unfolding changed_def list_all2_conv_all_nth by auto
    with assms(2) show ?thesis by blast
  qed
  then show ?thesis by (auto simp: layers_have_def)
qed

lemma on_parameters_layers: "named_layers (on_parameters f m) = map (\<lambda>(p, l). (p, map_parameters f l)) (named_layers m)"
proof (induction f m rule: on_parameters.induct)
  case (2 f i cs)
  have "child_layers (n, on_parameters f c) = map (\<lambda>(p, l). (p, map_parameters f l)) (child_layers (n, c))" if "(n, c) \<in> set cs" for n c
    using 2 [OF that refl] by (cases c) (auto simp: child_layers_def comp_def case_prod_unfold simp del: named_layers_Module)
  then have "map child_layers (map (\<lambda>(n, c). (n, on_parameters f c)) cs) = map (map (\<lambda>(p, l). (p, map_parameters f l))) (map child_layers cs)"
    by auto
  then show ?case by (simp only: on_parameters.simps named_layers_Module) (simp add: map_concat)
qed simp

lemma is_block_on_parameters [simp]: "is_block (on_parameters f m) = is_block m"
  by (cases m) (simp_all add: is_block_def)

lemma shards_parameters: "parameters (tensor_parallel shards) = concat (map parameters shards)"
proof -
  have "map (\<lambda>(_, c). parameters c) (map (\<lambda>(k, s). (nat_str k, s)) (enumerate n shards)) = map parameters shards" for n
    by (induction shards arbitrary: n) auto
  then show ?thesis by (simp add: tensor_parallel_def plain_info_def)
qed

lemma shards_have:
  assumes "\<forall>s \<in> set shards. is_block s \<and> layers_have C s"
  shows "layers_have C (tensor_parallel shards)"
proof -
  have "C (last p) (ly_class l)" if p: "(p, l) \<in> set (named_layers (tensor_parallel shards))" for p l
  proof -
    from p obtain q k s where q: "p = ''module_shards'' # q" "(k, s) \<in> set (enumerate 0 shards)" "(q, l) \<in> set (child_layers (nat_str k, s))"
      by (auto simp: tensor_parallel_def child_layers_simps)
    then have s: "s \<in> set shards" "(q, l) \<in> set (child_layers (nat_str k, s))"
      by (auto simp: in_set_enumerate_eq)
    from assms s(1) have "is_block s" "layers_have C s" by auto
    with s(2) obtain q' where "q = nat_str k # q'" "(q', l) \<in> set (named_layers s)"
      by (cases s) (auto simp: child_layers_def is_block_def simp del: named_layers_Module)
    with named_layers_path [of q' l s] \<open>layers_have C s\<close> show ?thesis by (auto simp: q(1) layers_have_def)
  qed
  then show ?thesis by (auto simp: layers_have_def)
qed

lemma module_shards_tp [simp]: "module_shards (tensor_parallel shards) = shards"
proof -
  have "map snd (map (\<lambda>(k, s). (nat_str k, s)) (enumerate n shards)) = shards" for n
    by (induction shards arbitrary: n) auto
  then show ?thesis by (simp add: tensor_parallel_def module_shards_def del: map_map)
qed

lemma quantize_tp:
  assumes "quantize_module B quant (tensor_parallel shards) = Inr m" "\<forall>s \<in> set shards. is_block s"
  shows "\<exists>shards'. m = tensor_parallel shards' \<and> list_all2 (\<lambda>s s'. quantize_module B quant s = Inr s') shards shards'"
proof (cases "shards = []")
  case True
  with assms(1) show ?thesis by (auto simp: tensor_parallel_def)
next
  case False
  let ?step = "\<lambda>(n, c). case c of
          Layer l \<Rightarrow> if n \<in> set OUTPUT_HEADS then Inr (n, Layer l)
                     else bindR (quantize_layer B quant l) (\<lambda>l'. Inr (n, Layer l'))
        | Module j gs \<Rightarrow> if gs = [] then Inr (n, Module j gs) else bindR (quantize_module B quant c) (\<lambda>c'. Inr (n, c'))"
  have one: "?step (n, s) = bindR (quantize_module B quant s) (\<lambda>s'. Inr (n, s'))" if "is_block s" for n s
    using that by (cases s) (auto simp: is_block_def)
  have all: "mapR ?step (map (\<lambda>(k, s). (nat_str k, s)) (enumerate n ss)) = Inr cs' \<Longrightarrow> \<forall>s \<in> set ss. is_block s \<Longrightarrow>
      \<exists>ss'. cs' = map (\<lambda>(k, s). (nat_str k, s)) (enumerate n ss') \<and> list_all2 (\<lambda>s s'. quantize_module B quant s = Inr s') ss ss'" for n ss cs'
  proof (induction ss arbitrary: n cs')
    case (Cons s ss)
    from Cons.prems one [of s "nat_str n"] obtain s' cs'' where s': "quantize_module B quant s = Inr s'"
      "mapR ?step (map (\<lambda>(k, s). (nat_str k, s)) (enumerate (Suc n) ss)) = Inr cs''" "cs' = (nat_str n, s') # cs''"
      by (auto simp: resultD simp del: quantize_module.simps)
    from Cons.IH [OF s'(2)] Cons.prems(2) obtain ss' where "cs'' = map (\<lambda>(k, s). (nat_str k, s)) (enumerate (Suc n) ss')"
      "list_all2 (\<lambda>s s'. quantize_module B quant s = Inr s') ss ss'" by auto
    with s' show ?case by (intro exI [of _ "s' # ss'"]) simp
  qed simp
  let ?list = "Module (plain_info ''ModuleList'') (map (\<lambda>(k, s). (nat_str k, s)) (enumerate 0 shards))"
  have "quantize_module B quant (Module i [(n, Module j gs)]) = bindR (quantize_module B quant (Module j gs)) (\<lambda>c'. Inr (Module i [(n, c')]))"
    if "gs \<noteq> []" for i n j gs
    using that by (subst quantize_module.simps(2)) (simp add: bindR_assoc del: quantize_module.simps)
  from this [of "map (\<lambda>(k, s). (nat_str k, s)) (enumerate 0 shards)"] assms(1) False
  obtain c' where "quantize_module B quant ?list = Inr c'" "m = Module (plain_info ''TensorParallel'') [(''module_shards'', c')]"
    by (cases shards) (auto simp: tensor_parallel_def resultD simp del: quantize_module.simps)
  then obtain cs' where "mapR ?step (map (\<lambda>(k, s). (nat_str k, s)) (enumerate 0 shards)) = Inr cs'"
    "m = Module (plain_info ''TensorParallel'') [(''module_shards'', Module (plain_info ''ModuleList'') cs')]"
    by (auto simp: resultD)
  with all [of 0 shards cs'] assms(2) show ?thesis by (auto simp: tensor_parallel_def)
qed

definition converted_ok :: "quantization \<Rightarrow> nn_module \<Rightarrow> bool" where
  "converted_ok quant s \<longleftrightarrow> is_block s \<and> frozen s \<and> layers_have (quantized_class quant) s"

lemma quantized_ok:
  assumes "quantize_module B quant s = Inr s'" "is_block s" "frozen s"
  shows "converted_ok quant s'"
proof -
  from quantize_module_changed [OF assms(1)] assms(2) have c: "changed (quantized B quant) s s'" "other_parameters s' = other_parameters s" "is_block s'" by auto
  have "frozen s'"
    by (rule changed_frozen [OF c(1,2) assms(2) c(3) assms(3)]) (auto simp: quantized_def intro: quantize_layer_frozen split: if_splits)
  moreover have "layers_have (quantized_class quant) s'"
    by (rule changed_have [OF c(1)])
       (auto simp: quantized_def quantized_class_def quantize_layer_def resultD split: if_splits quantization.splits)
  ultimately show ?thesis using c(3) by (simp add: converted_ok_def)
qed

lemma to_device_ok: "converted_ok quant s \<Longrightarrow> converted_ok quant (to_device d s)"
  by (auto simp: converted_ok_def to_device_def frozen_def parameters_map layers_have_def on_parameters_layers map_parameters_def)

lemma tensor_parallel_ok:
  "\<forall>s \<in> set shards. converted_ok quant s \<Longrightarrow> converted_ok quant (tensor_parallel shards)"
  using shards_have [of shards "quantized_class quant"]
  by (auto simp: converted_ok_def frozen_def shards_parameters) (simp add: is_block_def tensor_parallel_def)

lemma move_shards_ok:
  assumes "\<forall>s \<in> set shards. converted_ok quant s"
  shows "converted_ok quant (move_shards devices (tensor_parallel shards))"
proof -
  have "s \<in> set (map2 to_device devices shards @ drop (length devices) shards) \<Longrightarrow> converted_ok quant s" for s
    using assms by (auto simp: to_device_ok dest!: set_zip_rightD in_set_dropD)
  then show ?thesis by (auto simp: move_shards_def Let_def intro!: tensor_parallel_ok)
qed

lemma layers_have_class: "layers_have (\<lambda>_ c. c = C) m \<longleftrightarrow> (\<forall>l \<in> set (layers_of m). ly_class l = C)"
  by (simp add: layers_have_def layers_of_def case_prod_unfold)

lemma add_adapters_keep:
  assumes "add_adapters P H i names m w = Some (Inr m', w')" "is_block m" "frozen m" "layers_have (\<lambda>n c. c = C) m"
  shows "frozen m' \<and> layers_have (\<lambda>n c. c = C) m'"
  using assms
proof (induction names arbitrary: m w)
  case (Cons name names)
  from Cons.prems(1) obtain cfg sd w1 m1 where step: "add_adapter_to_block P name cfg sd m = Inr m1" "add_adapters P H i names m1 w1 = Some (Inr m', w')"
    by (auto split: option.splits prod.splits sum.splits)
  from step(1) have "for_layers (add_to_layer P name cfg sd) m = Inr m1" by (auto simp: add_adapter_to_block_def resultD)
  from for_layers_changed [OF this] Cons.prems(2)
  have c: "changed (\<lambda>n l l'. add_to_layer P name cfg sd n l = Inr l') m m1" "other_parameters m1 = other_parameters m" "is_block m1" by auto
  have "frozen m1" by (rule changed_frozen [OF c(1,2) Cons.prems(2) c(3) Cons.prems(3)]) (auto dest: add_to_layer_keeps)
  moreover have "layers_have (\<lambda>n c. c = C) m1"
  proof -
    have "ly_class l' = C" if "l' \<in> set (layers_of m1)" for l'
    proof -
      from changed_layers [OF c(1) that] obtain n l where "l \<in> set (layers_of m)" "add_to_layer P name cfg sd n l = Inr l'" by blast
      with add_to_layer_keeps [of P name cfg sd n l l'] Cons.prems(4) show ?thesis by (simp add: layers_have_class)
    qed
    then show ?thesis by (simp add: layers_have_class)
  qed
  ultimately show ?case using Cons.IH [OF step(2) c(3)] by blast
qed simp


subsection \<open>What goes wrong\<close>

text \<open>The message for an unknown file size is never reached: adding the sizes raises first, inside the endless loop. If
  the first fetch fails, the call never returns.\<close>

lemma unknown_size_never_loads:
  assumes "ph_exists H repo SAFETENSORS_WEIGHTS_NAME w = Inr True" "get_adapter_from_repo H repo i w = (Inl e, w1)"
    and "ph_size H repo CONFIG_NAME w1 = Inr (Some m)" "ph_size H repo SAFETENSORS_WEIGHTS_NAME w1 = Inr None"
  shows "load_peft H repo i w = None"
proof -
  have attempt: "peft_attempt H repo i w1 = (Inl TypeError, w1)" by (simp add: peft_attempt_def assms(3,4))
  let ?P = "\<lambda>H' r' i' v (y :: (peft_config \<times> adapter_weights) result \<times> 'a). H' = H \<and> r' = repo \<and> i' = i \<and> v = w1 \<longrightarrow> False"
  have stuck: "?P H' r' i' v y" if "peft_loop H' r' i' v = Some y" for H' r' i' v y
  proof (rule peft_loop.raw_induct [where P = ?P, OF _ that], goal_cases)
    case (1 loop H' r' i' v y)
    show ?case
    proof (intro impI, elim conjE)
      assume eqs: "H' = H" "r' = repo" "i' = i" "v = w1"
      with 1(2) attempt have "loop H repo i w1 = Some y" by simp
      with 1(1) [of H repo i w1 y] show False by simp
    qed
  qed
  have "peft_loop H repo i w1 \<noteq> Some y" for y using stuck [of H repo i w1 y] by blast
  then have "peft_loop H repo i w1 = None" by (cases "peft_loop H repo i w1") auto
  then show ?thesis by (simp add: load_peft_def assms(1,2))
qed

definition demo_module_info :: "string \<Rightarrow> int \<Rightarrow> module_info" where
  "demo_module_info c n = \<lparr>md_classes = [c], md_num_heads = n, md_parameters = []\<rparr>"

definition zeros :: "nat \<Rightarrow> nat \<Rightarrow> parameter" where
  "zeros m n = \<lparr>pr_value = replicate m (replicate n 0), pr_requires_grad = True, pr_device = ''cpu''\<rparr>"

definition demo_linear :: "layer_class \<Rightarrow> nat \<Rightarrow> nat \<Rightarrow> nn_module" where
  "demo_linear c i n = Layer \<lparr>ly_class = c, ly_in_features = i, ly_out_features = n, ly_weight = zeros n i, ly_bias = None,
     ly_compute_dtype = None, ly_lora = []\<rparr>"

definition demo_peft :: peft_library where
  "demo_peft = \<lparr>pl_init = \<lambda>_ _ _. [],
     pl_update_layer = \<lambda>i n r alpha _ _. if r \<le> 0 then Inl ValueError
       else Inr \<lparr>lw_A = zeros (nat r) i, lw_B = zeros n (nat r), lw_scaling = alpha / of_int r\<rparr>,
     pl_fullmatch = \<lambda>_ _. Inr False\<rparr>"

text \<open>The names of the layers of a Bloom block: the keys of \<open>dense_h_to_4h\<close> contain \<open>dense\<close>, so they are also loaded into
  the layer \<open>dense\<close>, where the second matrix has the wrong shape.\<close>

definition bloom_like :: nn_module where
  "bloom_like = Module (demo_module_info ''Block'' 0) [(''dense'', demo_linear LoraLinear 1 1), (''dense_h_to_4h'', demo_linear LoraLinear 1 2)]"

lemma shared_name_fails:
  "add_adapter_to_block demo_peft ''a'' (lora_config (Names [''dense'', ''dense_h_to_4h'']) 1 1 0 True)
     [(''h.0.dense.lora_A.weight'', [[1]]), (''h.0.dense.lora_B.weight'', [[2]]),
      (''h.0.dense_h_to_4h.lora_A.weight'', [[3]]), (''h.0.dense_h_to_4h.lora_B.weight'', [[4], [5]])] bloom_like = Inl RuntimeError"
  by code_simp

subsection \<open>Instances\<close>

lemma demo_update_layer_ok: "update_layer_ok demo_peft"
  by (auto simp: update_layer_ok_def demo_peft_def has_shape_def zeros_def)

definition demo_block :: "layer_class \<Rightarrow> nn_module" where
  "demo_block c = Module (demo_module_info ''Block'' 0)
     [(''attn'', Module (demo_module_info ''Attn'' 1) [(''q'', demo_linear c 2 2)]), (''up'', demo_linear c 2 3)]"

definition demo_weights :: adapter_weights where
  "demo_weights = [(''m.layers.0.q.lora_A.weight'', [[1, 2]]), (''m.layers.0.q.lora_B.weight'', [[3], [4]])]"

definition demo_adapter :: adapter where
  "demo_adapter = \<lparr>ad_targets = Names [''q'', ''k''], ad_rank = 1, ad_alpha = 1, ad_dropout = 0, ad_init = True,
     ad_weights = demo_weights, ad_A = \<lambda>_. [[1, 2]], ad_B = \<lambda>_. [[3], [4]]\<rparr>"

definition demo_peft_hub :: "unit peft_hub" where
  "demo_peft_hub = \<lparr>ph_exists = \<lambda>_ _ _. Inr True, ph_get_file = \<lambda>_ f w. (Inr (Some f), w),
     ph_read_config = \<lambda>_ _. Inr (adapter_config demo_adapter),
     ph_read_tensors = \<lambda>_ _. Inr ((''m.layers.1.q.lora_A.weight'', [[7, 7]]) # demo_weights),
     ph_size = \<lambda>_ _ _. Inr (Some 1), ph_free_space = \<lambda>_ w. (Inr (), w), ph_common_layers = [''layers'', ''h'']\<rparr>"

text \<open>C38. The tensors of an adapter are sorted by blocks correctly: when the keys of the file have the usual form (parts
  without dots, among them the name of the list of blocks followed by a number), \<open>load_specific_module\<close> returns
  exactly the tensors whose number is that of the block.\<close>

theorem adapter_of_block:
  assumes "\<forall>(k, t) \<in> set tensors. block_key common (number k) k" and "\<forall>c \<in> set common. CHR ''.'' \<notin> set c"
  shows "load_specific_module common i tensors = filter (\<lambda>(k, _). number k = i) tensors"
  unfolding load_specific_module_def using assms(1) block_key_match [OF _ assms(2)] by (intro filter_cong) auto

theorem adapter_of_block_witness:
  "load_specific_module [''layers'', ''h''] 1 [(''m.layers.0.q'', [[1]]), (''m.layers.1.q'', [[2]])] = [(''m.layers.1.q'', [[2]])]"
proof -
  let ?number = "\<lambda>k. if k = ''m.layers.1.q'' then 1 else (0 :: int)"
  have str: "py_str 0 = ''0''" "py_str 1 = ''1''" by code_simp+
  have "block_key [''layers'', ''h''] 0 ''m.layers.0.q''" "block_key [''layers'', ''h''] 1 ''m.layers.1.q''"
    unfolding block_key_def
    by (rule exI [of _ "[''m'']"], rule exI [of _ "''layers''"], rule exI [of _ "[''q'']"],
        simp add: str NEWLINE_def)+
  then show ?thesis
    using adapter_of_block [of "[(''m.layers.0.q'', [[1]]), (''m.layers.1.q'', [[2]])]" "[''layers'', ''h'']" ?number 1] by simp
qed

theorem adapters_isolated_witness:
  "\<exists>block'. add_adapter_to_block demo_peft ''a'' (adapter_config demo_adapter) demo_weights (demo_block LoraLinear) = Inr block' \<and>
     list_all2 (\<lambda>(p, l) (p', l'). p' = p \<and> dict_get (ly_lora l') ''b'' = None) (named_layers (demo_block LoraLinear)) (named_layers block')"
proof -
  let ?forward = "\<lambda>a l (x :: unit). (dict_get (ly_lora l) a = None)"
  obtain block' where b: "add_adapter_to_block demo_peft ''a'' (adapter_config demo_adapter) demo_weights (demo_block LoraLinear) = Inr block'"
  proof -
    have "(case add_adapter_to_block demo_peft ''a'' (adapter_config demo_adapter) demo_weights (demo_block LoraLinear) of Inr _ \<Rightarrow> True | Inl _ \<Rightarrow> False)"
      by code_simp
    then show ?thesis using that by (auto split: sum.splits)
  qed
  have "list_all2 (\<lambda>(p, l) (p', l'). p' = p \<and> (\<forall>x. ?forward ''b'' l' x = ?forward ''b'' l x)) (named_layers (demo_block LoraLinear)) (named_layers block')"
    by (rule adapters_isolated [OF b]) (auto simp: same_for_def)
  moreover have "\<forall>(p, l) \<in> set (named_layers (demo_block LoraLinear)). dict_get (ly_lora l) ''b'' = None"
    by (simp add: demo_block_def demo_linear_def child_layers_simps)
  ultimately have "list_all2 (\<lambda>(p, l) (p', l'). p' = p \<and> dict_get (ly_lora l') ''b'' = None) (named_layers (demo_block LoraLinear)) (named_layers block')"
    by (elim list.rel_mono_strong) auto
  with b show ?thesis by blast
qed

theorem adapter_memory_exact_witness:
  "estimate_adapter_memory_per_block demo_peft demo_peft_hub (\<lambda>_. Inr 2) AutoDtype AutoDtype (demo_block Torch_Linear) [''a''] () = Some (Inr 8, ())"
proof -
  have fits: "good_adapter demo_peft ''a'' demo_adapter (demo_block Torch_Linear)"
  proof -
    have "filter (is_substring ''q'') (map fst demo_weights) = map fst demo_weights" by code_simp
    then have "owns_keys demo_weights 1 ''q'' l [[1, 2]] [[3], [4]]" if "ly_in_features l = 2" "ly_out_features l = 2" for l
      using that unfolding owns_keys_def
      by (intro exI [of _ "''m.layers.0.q.lora_A.weight''"] exI [of _ "''m.layers.0.q.lora_B.weight''"])
         (simp add: demo_weights_def ends_with_def starts_with_def has_shape_def)
    then show ?thesis
      by (simp add: good_adapter_def demo_adapter_def demo_block_def demo_linear_def child_layers_simps adapter_fits_def is_target_def)
         (simp add: demo_weights_def)
  qed
  have keys: "load_specific_module [''layers'', ''h''] 0 ((''m.layers.1.q.lora_A.weight'', [[7, 7]]) # demo_weights) = demo_weights"
    by code_simp
  have serves: "serves demo_peft_hub 0 (\<lambda>_. demo_adapter) ''a''"
    using keys by (simp add: serves_def load_peft_def get_adapter_from_repo_def demo_peft_hub_def demo_adapter_def)
  have takes: "takes_adapter demo_peft (Names [''q'', ''k'']) demo_weights ''q''" "\<not> takes_adapter demo_peft (Names [''q'', ''k'']) demo_weights ''up''"
    by code_simp+
  have extra: "extra_parameters demo_peft demo_adapter (demo_block Torch_Linear) = 4"
    using takes by (simp add: extra_parameters_def demo_adapter_def demo_block_def demo_linear_def child_layers_simps)
  have "\<exists>w'. estimate_adapter_memory_per_block demo_peft demo_peft_hub (\<lambda>_. Inr 2) AutoDtype AutoDtype (demo_block Torch_Linear) [''a''] () =
      Some (Inr (int (\<Sum>name \<leftarrow> [''a'']. extra_parameters demo_peft demo_adapter (demo_block Torch_Linear)) * 2), w')"
  proof (rule adapter_memory_exact [of demo_peft "[''a'']" "demo_block Torch_Linear" "\<lambda>_. demo_adapter" demo_peft_hub, OF demo_update_layer_ok])
    show "pl_init demo_peft n i o' = []" for n i o' by (simp add: demo_peft_def)
    show "is_block (demo_block Torch_Linear)" by (simp add: is_block_def demo_block_def)
    show "ly_lora l = []" if "(p, l) \<in> set (named_layers (demo_block Torch_Linear))" for p l
      using that by (auto simp: demo_block_def demo_linear_def child_layers_simps)
  qed (use fits serves in auto)
  then show ?thesis by (simp add: extra)
qed

definition demo_tp :: tp_library where
  "demo_tp = \<lparr>tl_bloom_rules = \<lambda>_. [WORD_EMBEDDINGS_RULE], tl_shards = \<lambda>_ b _. if is_block b then [b] else []\<rparr>"

definition demo_bnb :: bnb_library where
  "demo_bnb = \<lparr>bn_int8 = \<lambda>m. m, bn_nf4 = \<lambda>m. m, bn_compute_dtype = ''float32''\<rparr>"


end
