(* ===== verification/Reachability.thy ===== *)
theory Reachability
  imports Peerz_Prelude
begin

text \<open>
  \<open>src/peerz/server/reachability.py\<close>: waiting until the health dashboard can reach a server, the vote of the peers on
  whether a new peer accepts connections, the probe protocol between peers, and the thread that serves it. The
  answers of the dashboard and the durations of calls are arguments; a call that takes longer than its timeout
  ends with an exception. The thread is a step relation, in which \<open>shutdown\<close> may come at any time.

  The lemmas show that a server that becomes reachable in time is accepted, that the vote is a majority of the
  first peers that answer, that the doubled timeout makes the answer of a probe through a third peer exact, and
  that the handlers of the protocol never outlive its probe; and that a shutdown before the thread is set up
  is lost.
\<close>

subsection \<open>Waiting for the dashboard\<close>

text \<open>What one request gives: an exception, or the fields of the response that are read.\<close>

datatype reply = Dashboard_down | Reply "bool option" "string option" "string option"

text \<open>The result is the outcome with the number of sleeps; \<open>last\<close> is the variable \<open>response\<close>.\<close>

fun validate_loop :: "(nat \<Rightarrow> reply) \<Rightarrow> nat \<Rightarrow> nat \<Rightarrow> (string option \<times> string option) option \<Rightarrow> nat \<Rightarrow> unit result \<times> nat" where
  "validate_loop request attempt_no 0 last_response sleeps =
     (case last_response of
        None \<Rightarrow> Inl NameError
      | Some (message, your_ip) \<Rightarrow> if message = None \<or> your_ip = None then Inl KeyError else Inl RuntimeError, sleeps)"
| "validate_loop request attempt_no (Suc k) last_response sleeps =
     (case request attempt_no of
        Dashboard_down \<Rightarrow> (Inr (), sleeps)
      | Reply None _ _ \<Rightarrow> (Inr (), sleeps)
      | Reply (Some True) _ _ \<Rightarrow> (Inr (), sleeps)
      | Reply (Some False) message your_ip \<Rightarrow> validate_loop request (Suc attempt_no) k (Some (message, your_ip)) (Suc sleeps))"

definition validate_reachability :: "(nat \<Rightarrow> reply) \<Rightarrow> rat \<Rightarrow> rat \<Rightarrow> unit result \<times> nat" where
  "validate_reachability request wait_time retry_delay =
     (if retry_delay = 0 then (Inl ZeroDivisionError, 0)
      else validate_loop request 0 (nat (\<lfloor>wait_time / retry_delay\<rfloor> + 1)) None 0)"

subsection \<open>The vote of the peers\<close>

text \<open>The loop over the routing table, on the answers of the peers in its order.\<close>

fun count_probes :: "int \<Rightarrow> bool option list \<Rightarrow> int \<Rightarrow> int \<Rightarrow> int \<times> int" where
  "count_probes max_peers [] successes requests = (successes, requests)"
| "count_probes max_peers (None # answers) successes requests = count_probes max_peers answers successes requests"
| "count_probes max_peers (Some b # answers) successes requests =
     (let successes' = successes + (if b then 1 else 0); requests' = requests + 1 in
      if requests' \<ge> max_peers then (successes', requests') else count_probes max_peers answers successes' requests')"

definition check_direct_reachability :: "int \<Rightarrow> rat \<Rightarrow> bool option list \<Rightarrow> bool option" where
  "check_direct_reachability max_peers threshold answers =
     (let (successes, requests) = count_probes max_peers answers 0 0 in
      if requests > 0 then Some (of_int successes / of_int requests \<ge> threshold) else None)"

subsection \<open>The probe protocol\<close>

text \<open>\<open>call_check\<close> and \<open>rpc_check\<close> call each other. \<open>link a b\<close> is the time that a call from \<open>a\<close> to \<open>b\<close> spends on the way,
  \<open>None\<close> if it never gets through; the result carries the time until the caller goes on.\<close>

function call_check :: "('p \<Rightarrow> 'p \<Rightarrow> rat option) \<Rightarrow> rat \<Rightarrow> 'p \<Rightarrow> 'p \<Rightarrow> 'p \<Rightarrow> bool option \<times> rat"
  and rpc_check :: "('p \<Rightarrow> 'p \<Rightarrow> rat option) \<Rightarrow> rat \<Rightarrow> 'p \<Rightarrow> 'p \<Rightarrow> bool \<times> rat" where
  "call_check link wait_timeout local_id remote_peer check_peer =
     (let timeout = (if check_peer = remote_peer then wait_timeout else wait_timeout * 2) in
      case link local_id remote_peer of
        None \<Rightarrow> (None, timeout)
      | Some t \<Rightarrow>
          (let (available, work) = rpc_check link wait_timeout remote_peer check_peer in
           if t + work \<le> timeout then (Some available, t + work) else (None, timeout)))"
| "rpc_check link wait_timeout local_id check_peer =
     (if check_peer \<noteq> local_id
      then (let (answer, t) = call_check link wait_timeout local_id check_peer check_peer in (answer = Some True, t))
      else (True, 0))"
  by pat_completeness auto
termination
  by (relation "measure (\<lambda>x. case x of Inl (_, _, _, remote, check) \<Rightarrow> if remote = check then (1 :: nat) else 3
                                    | Inr (_, _, me, check) \<Rightarrow> if me = check then 0 else 2)") auto

declare call_check.simps [simp del] rpc_check.simps [simp del]

subsection \<open>The thread of the protocol\<close>

datatype reach_phase = Starting | Connecting | Entering | Serving | Leaving | Finished

record reach_thread =
  rt_phase :: reach_phase
  rt_loop :: bool                       \<comment> \<open>\<open>_event_loop\<close> and \<open>_stop\<close> are set\<close>
  rt_stop :: bool                       \<comment> \<open>the event \<open>_stop\<close>\<close>
  rt_ready :: "unit result option"      \<comment> \<open>the future \<open>ready\<close>\<close>
  rt_probe :: bool                      \<comment> \<open>the P2P instance of the probe runs\<close>
  rt_handlers :: bool                   \<comment> \<open>the handlers are registered at the DHT's P2P instance\<close>

definition attach_to_dht :: reach_thread where
  "attach_to_dht = \<lparr>rt_phase = Starting, rt_loop = False, rt_stop = False, rt_ready = None, rt_probe = False, rt_handlers = False\<rparr>"

text \<open>\<open>except Exception\<close>: the future gets the exception if it is still open; then the \<open>finally\<close> block runs.\<close>

definition service_failed :: "py_error \<Rightarrow> reach_thread \<Rightarrow> reach_thread" where
  "service_failed e s = s\<lparr>rt_phase := Leaving, rt_ready := (case rt_ready s of None \<Rightarrow> Some (Inl e) | r \<Rightarrow> r)\<rparr>"

inductive reach_step :: "reach_thread \<Rightarrow> reach_thread \<Rightarrow> bool" where
  replicated: "rt_phase s = Starting \<Longrightarrow> reach_step s (s\<lparr>rt_phase := Connecting, rt_loop := True\<rparr>)"
| not_replicated: "rt_phase s = Starting \<Longrightarrow> reach_step s (service_failed e s)"
| connected: "rt_phase s = Connecting \<Longrightarrow> reach_step s (s\<lparr>rt_phase := Entering, rt_probe := True, rt_ready := Some (Inr ())\<rparr>)"
| not_connected: "rt_phase s = Connecting \<Longrightarrow> reach_step s (service_failed e s)"
| entered: "rt_phase s = Entering \<Longrightarrow> reach_step s (s\<lparr>rt_phase := Serving, rt_handlers := True\<rparr>)"
| not_entered: "rt_phase s = Entering \<Longrightarrow> reach_step s (service_failed e s)"
| stopped: "rt_phase s = Serving \<Longrightarrow> rt_stop s \<Longrightarrow> reach_step s (s\<lparr>rt_phase := Leaving, rt_handlers := False\<rparr>)"
| left: "rt_phase s = Leaving \<Longrightarrow> reach_step s (s\<lparr>rt_phase := Finished, rt_probe := False\<rparr>)"
| shutdown: "rt_loop s \<Longrightarrow> rt_phase s \<noteq> Finished \<Longrightarrow> reach_step s (s\<lparr>rt_stop := True\<rparr>)"
| shutdown_ignored: "\<not> rt_loop s \<Longrightarrow> reach_step s s"

inductive_cases reach_stepE: "reach_step s t"

text \<open>\<open>shutdown\<close>: nothing before the thread is set up; after it has ended the event loop is closed and refuses.\<close>

definition shutdown_protocol :: "reach_thread \<Rightarrow> reach_thread result" where
  "shutdown_protocol s =
     (if \<not> rt_loop s then Inr s
      else if rt_phase s = Finished then Inl RuntimeError
      else Inr (s\<lparr>rt_stop := True\<rparr>))"

subsection \<open>A server that becomes reachable is accepted\<close>

lemma validate_loop_accepts:
  assumes "\<forall>i < n. \<exists>m ip. request (a + i) = Reply (Some False) m ip" "n < k"
    and "request (a + n) = Dashboard_down \<or> (\<exists>b m ip. request (a + n) = Reply b m ip \<and> b \<noteq> Some False)"
  shows "validate_loop request a k l s = (Inr (), s + n)"
  using assms
proof (induction n arbitrary: a k l s)
  case 0
  then show ?case by (cases k) (auto split: option.splits bool.splits)
next
  case (Suc n)
  from Suc.prems(2) obtain k' where k: "k = Suc k'" "n < k'" by (cases k) auto
  from Suc.prems(1) obtain m ip where r: "request a = Reply (Some False) m ip" by fastforce
  have "\<forall>i < n. \<exists>m ip. request (Suc a + i) = Reply (Some False) m ip" using Suc.prems(1) by fastforce
  from Suc.IH [OF this k(2)] Suc.prems(3) show ?case by (simp add: k(1) r)
qed

lemma validate_loop_rejects:
  assumes "\<forall>i < k. \<exists>m ip. request (a + i) = Reply (Some False) (Some m) (Some ip)" "k \<noteq> 0 \<or> (\<exists>m ip. l = Some (Some m, Some ip))"
  shows "validate_loop request a k l s = (Inl RuntimeError, s + k)"
  using assms
proof (induction k arbitrary: a l s)
  case (Suc k)
  from Suc.prems(1) obtain m ip where r: "request a = Reply (Some False) (Some m) (Some ip)" by fastforce
  have "\<forall>i < k. \<exists>m ip. request (Suc a + i) = Reply (Some False) (Some m) (Some ip)" using Suc.prems(1) by fastforce
  from Suc.IH [OF this] show ?case by (simp add: r)
qed auto

text \<open>C39. Waiting for the dashboard: if the server becomes reachable, or the dashboard fails, at a request that is due within
  the waiting time, then the server is accepted as soon as that request is made; if every request says no, then the
  server gives up, after sleeping longer than the waiting time.\<close>

theorem reachable_in_time:
  assumes "0 < retry_delay" and "0 \<le> wait_time"
  shows "(\<forall>n. of_nat n * retry_delay \<le> wait_time \<and> (\<forall>i < n. \<exists>m ip. request i = Reply (Some False) m ip) \<and>
            (request n = Dashboard_down \<or> (\<exists>b m ip. request n = Reply b m ip \<and> b \<noteq> Some False)) \<longrightarrow>
            validate_reachability request wait_time retry_delay = (Inr (), n)) \<and>
    ((\<forall>i. \<exists>m ip. request i = Reply (Some False) (Some m) (Some ip)) \<longrightarrow>
       (\<exists>sleeps. validate_reachability request wait_time retry_delay = (Inl RuntimeError, sleeps) \<and> wait_time < of_nat sleeps * retry_delay))"
proof (intro conjI allI impI)
  let ?k = "nat (\<lfloor>wait_time / retry_delay\<rfloor> + 1)"
  have floor: "0 \<le> \<lfloor>wait_time / retry_delay\<rfloor>" using assms by simp
  fix n
  assume n: "of_nat n * retry_delay \<le> wait_time \<and> (\<forall>i < n. \<exists>m ip. request i = Reply (Some False) m ip) \<and>
            (request n = Dashboard_down \<or> (\<exists>b m ip. request n = Reply b m ip \<and> b \<noteq> Some False))"
  then have "of_nat n \<le> wait_time / retry_delay" using assms(1) by (simp add: pos_le_divide_eq)
  then have "int n \<le> \<lfloor>wait_time / retry_delay\<rfloor>" by (simp add: le_floor_iff)
  then have "n < ?k" by linarith
  with n validate_loop_accepts [of n request 0 ?k None 0] show "validate_reachability request wait_time retry_delay = (Inr (), n)"
    using assms(1) by (simp add: validate_reachability_def)
next
  let ?k = "nat (\<lfloor>wait_time / retry_delay\<rfloor> + 1)"
  have floor: "0 \<le> \<lfloor>wait_time / retry_delay\<rfloor>" using assms by simp
  assume "\<forall>i. \<exists>m ip. request i = Reply (Some False) (Some m) (Some ip)"
  moreover have "?k \<noteq> 0" using floor by linarith
  ultimately have "validate_loop request 0 ?k None 0 = (Inl RuntimeError, ?k)"
    using validate_loop_rejects [of ?k request 0 None 0] by simp
  then have run: "validate_reachability request wait_time retry_delay = (Inl RuntimeError, ?k)"
    using assms(1) by (simp add: validate_reachability_def)
  have "wait_time / retry_delay < of_int (\<lfloor>wait_time / retry_delay\<rfloor> + 1)" by linarith
  also have "\<dots> = of_nat ?k" using floor by (simp add: of_nat_nat)
  finally have "wait_time < of_nat ?k * retry_delay" using assms(1) by (simp add: pos_divide_less_eq)
  with run show "\<exists>sleeps. validate_reachability request wait_time retry_delay = (Inl RuntimeError, sleeps) \<and> wait_time < of_nat sleeps * retry_delay"
    by blast
qed

theorem reachable_in_time_witness:
  "validate_reachability (\<lambda>n. Reply (Some (n = 2)) (Some []) (Some [])) 420 15 = (Inr (), 2)"
  using reachable_in_time [of 15 420 "\<lambda>n. Reply (Some (n = 2)) (Some []) (Some [])"] by auto

subsection \<open>The vote\<close>

definition first_answers :: "int \<Rightarrow> bool option list \<Rightarrow> bool list" where
  "first_answers max_peers answers = take (max 1 (nat max_peers)) (map the (filter (\<lambda>a. a \<noteq> None) answers))"

lemma count_probes_first:
  assumes "0 \<le> r" "r < max 1 max_peers"
  shows "count_probes max_peers answers s r =
    (let votes = take (nat (max 1 max_peers - r)) (map the (filter (\<lambda>a. a \<noteq> None) answers)) in
     (s + int (length (filter id votes)), r + int (length votes)))"
  using assms
proof (induction max_peers answers s r rule: count_probes.induct)
  case (3 max_peers b answers s r)
  show ?case
  proof (cases "r + 1 \<ge> max_peers")
    case True
    with "3.prems" have "nat (max 1 max_peers - r) = 1" by linarith
    with True show ?thesis by (simp add: Let_def)
  next
    case False
    then have n: "nat (max_peers - r) = Suc (nat (max_peers - (r + 1)))" by linarith
    from False "3.prems" have "0 \<le> r + 1" "r + 1 < max 1 max_peers" by linarith+
    with "3.IH" [OF refl refl False] False show ?thesis by (simp add: Let_def n)
  qed
qed (simp_all add: Let_def)

text \<open>The vote on direct reachability: only peers that answer count, no more of them than \<open>max_peers\<close> (but at least
  one), and the result is whether the share of those that could reach this peer is at least the threshold; there
  is no result exactly when no peer answers.\<close>

theorem reachability_vote:
  "check_direct_reachability max_peers threshold answers =
     (let votes = first_answers max_peers answers in
      if votes = [] then None else Some (of_int (int (length (filter id votes))) / of_int (int (length votes)) \<ge> threshold)) \<and>
   (check_direct_reachability max_peers threshold answers = None \<longleftrightarrow> (\<forall>a \<in> set answers. a = None))"
proof -
  let ?votes = "first_answers max_peers answers"
  have "nat (max 1 max_peers - 0) = max 1 (nat max_peers)" by linarith
  then have "count_probes max_peers answers 0 0 = (int (length (filter id ?votes)), int (length ?votes))"
    using count_probes_first [of 0 max_peers answers 0] by (simp add: first_answers_def Let_def)
  then have "check_direct_reachability max_peers threshold answers =
     (if ?votes = [] then None else Some (of_int (int (length (filter id ?votes))) / of_int (int (length ?votes)) \<ge> threshold))"
    by (simp add: check_direct_reachability_def)
  moreover have "?votes = [] \<longleftrightarrow> (\<forall>a \<in> set answers. a = None)" by (auto simp: first_answers_def filter_empty_conv)
  ultimately show ?thesis by (simp add: Let_def)
qed

theorem reachability_vote_witness:
  "check_direct_reachability 2 (1 / 2) [None, Some True, None, Some False, Some False] = Some True"
proof -
  have "first_answers 2 [None, Some True, None, Some False, Some False] = [True, False]" by code_simp
  with conjunct1 [OF reachability_vote [of 2 "1 / 2" "[None, Some True, None, Some False, Some False]"]] show ?thesis by simp
qed

subsection \<open>Probes through a third peer\<close>

lemma rpc_check_self: "rpc_check link wt p p = (True, 0)"
  by (simp add: rpc_check.simps)

lemma call_check_direct:
  "call_check link wt me p p = (case link me p of None \<Rightarrow> (None, wt) | Some t \<Rightarrow> if t \<le> wt then (Some True, t) else (None, wt))"
  by (simp add: call_check.simps [of link wt me p p] rpc_check_self Let_def split: option.splits)

text \<open>The doubled timeout of a probe through a third peer is what makes its answer exact: if the call to the third peer
  itself stays within the timeout, then the caller always gets an answer, and the answer is whether the third peer
  reaches the other one within the timeout; in no case does a probe take longer than its timeout.\<close>

theorem probe_exact:
  assumes "0 \<le> wait_timeout" and "remote \<noteq> target" and "link local_id remote = Some t" and "0 \<le> t" and "t \<le> wait_timeout"
  shows "fst (call_check link wait_timeout local_id remote target) =
      Some (\<exists>u. link remote target = Some u \<and> u \<le> wait_timeout) \<and>
    snd (call_check link wait_timeout local_id remote target) \<le> wait_timeout * 2"
  using assms
  by (simp add: call_check.simps [of _ _ _ remote target] rpc_check.simps [of _ _ remote target] call_check_direct Let_def split: option.splits)

theorem probe_exact_witness:
  "fst (call_check (\<lambda>a b. if b = (3 :: nat) then None else Some 1) 5 1 2 3) = Some False"
  using probe_exact [of 5 2 3 "\<lambda>a b. if b = (3 :: nat) then None else Some 1" 1 1] by simp

subsection \<open>Handlers and probe\<close>

definition reach_inv :: "reach_thread \<Rightarrow> bool" where
  "reach_inv s \<longleftrightarrow> (rt_handlers s \<longleftrightarrow> rt_phase s = Serving) \<and> (rt_handlers s \<longrightarrow> rt_probe s \<and> rt_ready s = Some (Inr ())) \<and>
     (rt_phase s = Finished \<longrightarrow> \<not> rt_probe s \<and> rt_ready s \<noteq> None) \<and> (rt_phase s = Leaving \<longrightarrow> rt_ready s \<noteq> None) \<and>
     (rt_phase s \<in> {Starting, Connecting} \<longrightarrow> \<not> rt_probe s) \<and> (rt_phase s \<in> {Entering, Serving} \<longrightarrow> rt_probe s \<and> rt_ready s = Some (Inr ())) \<and>
     (rt_phase s = Starting \<longrightarrow> \<not> rt_loop s \<and> rt_ready s = None) \<and> (rt_phase s = Connecting \<longrightarrow> rt_loop s) \<and>
     (rt_phase s \<in> {Starting, Connecting} \<longrightarrow> rt_ready s = None) \<and> (rt_ready s = Some (Inr ()) \<longrightarrow> rt_loop s)"

interpretation reach: invariant_system "\<lambda>s. s = attach_to_dht" reach_step reach_inv
proof
  show "reach_inv s" if "s = attach_to_dht" for s
    using that by (simp add: reach_inv_def attach_to_dht_def)
  show "reach_inv t" if "reach_inv s" "reach_step s t" for s t
    using that(2,1)
    by cases (auto simp: reach_inv_def service_failed_def split: option.splits)
qed



text \<open>A shutdown before the thread is set up changes nothing, and the service then runs on.\<close>

lemma early_shutdown_lost:
  "shutdown_protocol attach_to_dht = Inr attach_to_dht \<and>
   (\<exists>s. reach_step\<^sup>*\<^sup>* attach_to_dht s \<and> rt_phase s = Serving \<and> \<not> rt_stop s)"
proof -
  let ?s1 = "attach_to_dht\<lparr>rt_phase := Connecting, rt_loop := True\<rparr>"
  let ?s2 = "?s1\<lparr>rt_phase := Entering, rt_probe := True, rt_ready := Some (Inr ())\<rparr>"
  let ?s3 = "?s2\<lparr>rt_phase := Serving, rt_handlers := True\<rparr>"
  have "reach_step attach_to_dht ?s1" by (rule replicated) (simp add: attach_to_dht_def)
  moreover have "reach_step ?s1 ?s2" by (rule connected) simp
  moreover have "reach_step ?s2 ?s3" by (rule entered) simp
  ultimately have "reach_step\<^sup>*\<^sup>* attach_to_dht ?s3" by (meson rtranclp.rtrancl_into_rtrancl rtranclp.rtrancl_refl)
  moreover have "rt_phase ?s3 = Serving \<and> \<not> rt_stop ?s3" by (simp add: attach_to_dht_def)
  ultimately show ?thesis by (auto simp: shutdown_protocol_def attach_to_dht_def)
qed

end
