(* ===== verification/Wrapped_Blocks.thy ===== *)
theory Wrapped_Blocks
  imports Llama_Block
begin

text \<open>
  \<open>src/peerz/models/bloom/block.py\<close> and \<open>src/peerz/models/mixtral/block.py\<close>: blocks that wrap a layer of
  \<open>transformers\<close>. The layer itself, the functions that build attention masks and biases, and the access to
  the entries of a \<open>DynamicCache\<close> are parameters; the wrappers, which choose masks, positions and the layout of
  the caches, are translated. Masks are additive: 0 where a position may be attended to.

  The lemmas show that the wrappers make causal modules of layers that attend to what the mask shows.
\<close>

subsection \<open>Bloom\<close>

record bloom_layer =
  bl_num_heads :: nat
  bl_build_alibi_tensor :: "rat list list \<Rightarrow> nat \<Rightarrow> rat list list"
  bl_prepare_4d_causal_attention_mask :: "rat list list \<Rightarrow> nat \<times> nat \<Rightarrow> nat \<Rightarrow> rat list list list"
  bl_forward :: "vec list list \<Rightarrow> bool list list list \<Rightarrow> rat list list \<Rightarrow> vec kv list option \<Rightarrow> bool
    \<Rightarrow> (vec list list \<times> vec kv list option) result"          \<comment> \<open>\<open>BloomBlock.forward\<close>; the mask is true where it hides\<close>

text \<open>\<open>is_dummy\<close> on a tensor of keys: it has no elements.\<close>

definition dummy_rows :: "vec kv \<Rightarrow> bool" where
  "dummy_rows rows = (\<forall>r \<in> set rows. \<forall>v \<in> set r. v = [])"

definition wrapped_bloom_forward ::
    "bloom_layer \<Rightarrow> vec list list \<Rightarrow> rat list list option \<Rightarrow> rat list list option \<Rightarrow> vec kv list option \<Rightarrow> bool
     \<Rightarrow> (vec list list \<times> vec kv list option) result" where
  "wrapped_bloom_forward layer hidden_states attention_mask alibi layer_past caching =
     guardR (attention_mask = None) AssertionError
     (if layer_past = Some [] then Inl IndexError
      else let batch_size = length hidden_states; seq_length = length (hd hidden_states);
        past = (case layer_past of None \<Rightarrow> None | Some kvs \<Rightarrow> if dummy_rows (hd kvs) then None else Some kvs);
        past_len = (case past of None \<Rightarrow> 0 | Some kvs \<Rightarrow> past_length kvs);
        seq_length_with_past = seq_length + past_len;
        ones = replicate batch_size (replicate seq_length_with_past 1);
        bias = (case alibi of None \<Rightarrow> bl_build_alibi_tensor layer ones (bl_num_heads layer) | Some a \<Rightarrow> a);
        mask4 = bl_prepare_4d_causal_attention_mask layer ones (batch_size, seq_length) past_len in
      bl_forward layer hidden_states (map (map (map (\<lambda>w. w \<noteq> 0))) mask4) bias past caching)"

text \<open>The block as the backend calls it, with the backend's hidden states.\<close>

definition bloom_block_forward :: "bloom_layer \<Rightarrow> vec list list \<Rightarrow> vec kv list \<Rightarrow> (vec list list \<times> vec kv list) result" where
  "bloom_block_forward layer hs past =
     bindR (wrapped_bloom_forward layer (batch_first (length (hd hs)) hs) None None (Some past) True)
       (\<lambda>(output, kvs). Inr (token_first (length hs) output, case kvs of None \<Rightarrow> [] | Some k \<Rightarrow> k))"

subsection \<open>Mixtral\<close>

datatype attn_mask = Mask_2d "bool list list" | Mask_4d "rat list list list"

datatype attn_implementation = Flash_attention_2 | Sdpa | Eager

record dynamic_cache =
  dc_key_cache :: "heads4 list"                    \<comment> \<open>\<open>torch.empty(0)\<close> is the empty list\<close>
  dc_value_cache :: "heads4 list"
  dc_seen_tokens :: nat

record mixtral_layer =
  mx_attn_implementation :: attn_implementation
  mx_sliding_window :: "nat option"
  mx_layer_idx :: nat
  mx_num_key_value_heads :: nat
  mx_mask_for_sdpa :: "bool list list option \<Rightarrow> nat \<times> nat \<Rightarrow> nat \<Rightarrow> rat list list list option"
  mx_mask_4d :: "bool list list option \<Rightarrow> nat \<times> nat \<Rightarrow> nat \<Rightarrow> nat option \<Rightarrow> rat list list list option"
  mx_cache_item :: "dynamic_cache \<Rightarrow> nat \<Rightarrow> (heads4 \<times> heads4) result"     \<comment> \<open>\<open>DynamicCache.__getitem__\<close>\<close>
  mx_forward :: "vec list list \<Rightarrow> attn_mask option \<Rightarrow> nat list \<Rightarrow> dynamic_cache option \<Rightarrow> bool
    \<Rightarrow> (vec list list \<times> dynamic_cache option) result"                \<comment> \<open>\<open>MixtralDecoderLayer.forward\<close>\<close>

definition mixtral_cache_from_bloom :: "nat \<Rightarrow> vec kv list \<Rightarrow> nat \<Rightarrow> nat \<Rightarrow> (heads4 \<times> heads4) result" where
  "mixtral_cache_from_bloom num_kv_heads key_value batch_size seq_length =
     (case key_value of
        [key_states, value_states] \<Rightarrow>
          guardR (map length key_states = replicate (batch_size * num_kv_heads) seq_length) RuntimeError
          (guardR (map length value_states = map length key_states) RuntimeError
             (Inr (regroup (replicate batch_size num_kv_heads) key_states, regroup (replicate batch_size num_kv_heads) value_states)))
      | _ \<Rightarrow> Inl ValueError)"

definition mixtral_cache_to_bloom :: "nat \<Rightarrow> heads4 \<times> heads4 \<Rightarrow> nat \<Rightarrow> nat \<Rightarrow> vec kv list result" where
  "mixtral_cache_to_bloom num_kv_heads key_value batch_size seq_length =
     (case key_value of
        (key_states, value_states) \<Rightarrow>
          guardR (map length (concat value_states) = replicate (batch_size * num_kv_heads) seq_length) RuntimeError
          (guardR (map length (concat key_states) = map length (concat value_states)) RuntimeError
             (Inr [concat key_states, concat value_states])))"

definition mixtral_past :: "mixtral_layer \<Rightarrow> vec kv list option \<Rightarrow> nat \<Rightarrow> nat \<Rightarrow> dynamic_cache option result" where
  "mixtral_past layer layer_past batch_size past_key_values_length =
     (case layer_past of
        None \<Rightarrow> Inr None
      | Some kvs \<Rightarrow>
          bindR (mixtral_cache_from_bloom (mx_num_key_value_heads layer) kvs batch_size past_key_values_length) (\<lambda>(k, v).
          Inr (Some \<lparr>dc_key_cache = replicate (mx_layer_idx layer) [] @ [k], dc_value_cache = replicate (mx_layer_idx layer) [] @ [v],
            dc_seen_tokens = past_key_values_length\<rparr>)))"

definition mixtral_mask :: "mixtral_layer \<Rightarrow> bool list list option \<Rightarrow> nat \<times> nat \<Rightarrow> nat \<Rightarrow> attn_mask option" where
  "mixtral_mask layer attention_mask input_shape past_key_values_length =
     (case mx_attn_implementation layer of
        Flash_attention_2 \<Rightarrow>
          (case attention_mask of None \<Rightarrow> None | Some m \<Rightarrow> if \<exists>r \<in> set m. False \<in> set r then Some (Mask_2d m) else None)
      | Sdpa \<Rightarrow> map_option Mask_4d (mx_mask_for_sdpa layer attention_mask input_shape past_key_values_length)
      | Eager \<Rightarrow> map_option Mask_4d (mx_mask_4d layer attention_mask input_shape past_key_values_length (mx_sliding_window layer)))"

definition wrapped_mixtral_forward ::
    "mixtral_layer \<Rightarrow> vec list list \<Rightarrow> bool list list option \<Rightarrow> vec kv list option \<Rightarrow> bool
     \<Rightarrow> (vec list list \<times> vec kv list option) result" where
  "wrapped_mixtral_forward layer hidden_states attention_mask layer_past caching =
     (if layer_past = Some [] then Inl IndexError
      else let batch_size = length hidden_states; seq_length = length (hd hidden_states);
        past_key_values_length = (case layer_past of None \<Rightarrow> 0 | Some kvs \<Rightarrow> past_length kvs);
        seq_length_with_past = seq_length + past_key_values_length in
      bindR (mixtral_past layer layer_past batch_size past_key_values_length) (\<lambda>past_key_value.
      bindR (mx_forward layer hidden_states
          (mixtral_mask layer attention_mask (batch_size, seq_length) past_key_values_length)
          [past_key_values_length..<seq_length + past_key_values_length] past_key_value caching) (\<lambda>(output, present).
      if caching then
        (case present of
           None \<Rightarrow> Inl TypeError
         | Some cache \<Rightarrow>
             bindR (mx_cache_item layer cache (mx_layer_idx layer)) (\<lambda>kv.
             bindR (mixtral_cache_to_bloom (mx_num_key_value_heads layer) kv batch_size seq_length_with_past) (\<lambda>kvs.
             Inr (output, Some kvs))))
      else Inr (output, None))))"

definition mixtral_block_forward :: "mixtral_layer \<Rightarrow> vec list list \<Rightarrow> vec kv list \<Rightarrow> (vec list list \<times> vec kv list) result" where
  "mixtral_block_forward layer hs past =
     bindR (wrapped_mixtral_forward layer (batch_first (length (hd hs)) hs) None (Some past) True)
       (\<lambda>(output, kvs). Inr (token_first (length hs) output, case kvs of None \<Rightarrow> [] | Some k \<Rightarrow> k))"

subsection \<open>What is used of the layers\<close>

text \<open>The keys and values of sequence \<open>b\<close> at positions \<open>js\<close>, one pair per head.\<close>

definition seen_entries :: "nat \<Rightarrow> nat \<Rightarrow> vec kv list \<Rightarrow> nat list \<Rightarrow> (vec \<times> vec) list list" where
  "seen_entries K b c js = map (\<lambda>j. map (\<lambda>k. (c ! 0 ! (b * K + k) ! j, c ! 1 ! (b * K + k) ! j)) [0..<K]) js"

text \<open>A Bloom layer extends the caches by one row per head, and its output at a position is a function \<open>G\<close> of the token
  there and of the biases, keys and values of the positions that the mask does not hide. The bias of a
  position is linear in it, and the causal mask hides exactly the later positions.\<close>

definition alibi_ok :: "bloom_layer \<Rightarrow> nat \<Rightarrow> (nat \<Rightarrow> rat) \<Rightarrow> bool" where
  "alibi_ok layer B slope \<longleftrightarrow>
     (\<forall>n. let H = bl_num_heads layer; bias = bl_build_alibi_tensor layer (replicate B (replicate n 1)) H in
        map length bias = replicate (B * H) n \<and> (\<forall>b < B. \<forall>h < H. \<forall>j < n. bias ! (b * H + h) ! j = slope h * of_nat j))"

definition causal_mask_ok :: "bloom_layer \<Rightarrow> nat \<Rightarrow> bool" where
  "causal_mask_ok layer B \<longleftrightarrow>
     (\<forall>T m. let a = bl_prepare_4d_causal_attention_mask layer (replicate B (replicate (T + m) 1)) (B, T) m in
        map (map length) a = replicate B (replicate T (m + T)) \<and> (\<forall>b < B. \<forall>t < T. \<forall>j < m + T. (a ! b ! t ! j = 0) = (j \<le> m + t)))"

definition bloom_attends ::
    "bloom_layer \<Rightarrow> nat \<Rightarrow> nat \<Rightarrow> nat \<Rightarrow> (vec \<Rightarrow> rat list list \<Rightarrow> (vec \<times> vec) list list \<Rightarrow> vec)
     \<Rightarrow> (nat \<Rightarrow> nat \<Rightarrow> nat \<Rightarrow> vec list \<Rightarrow> vec) \<Rightarrow> bool" where
  "bloom_attends layer B D d G row \<longleftrightarrow>
     (\<forall>hs past layer_past m mk bias. let H = bl_num_heads layer; n = m + length hs; E = extend_kvs row m hs past in
         hs \<noteq> [] \<and> list_all (token_shape B D) hs \<and> fitting (\<lambda>v. length v = d) [B * H, B * H] m past \<and>
         (layer_past = Some past \<or> layer_past = None \<and> m = 0) \<and>
         map (map length) mk = replicate B (replicate (length hs) n) \<and>
         (\<forall>b < B. \<forall>t < length hs. \<exists>j < n. \<not> mk ! b ! t ! j) \<and> map length bias = replicate (B * H) n \<longrightarrow>
         bl_forward layer (batch_first B hs) mk bias layer_past True =
           Inr (map (\<lambda>b. map (\<lambda>t. let js = filter (\<lambda>j. \<not> mk ! b ! t ! j) [0..<n] in
                  G (hs ! t ! b) (map (\<lambda>j. map (\<lambda>h. bias ! (b * H + h) ! j) [0..<H]) js) (seen_entries H b E js)) [0..<length hs]) [0..<B],
                Some E))"

definition bloom_layer_ok ::
    "bloom_layer \<Rightarrow> nat \<Rightarrow> nat \<Rightarrow> nat \<Rightarrow> (nat \<Rightarrow> rat) \<Rightarrow> (vec \<Rightarrow> rat list list \<Rightarrow> (vec \<times> vec) list list \<Rightarrow> vec)
     \<Rightarrow> (nat \<Rightarrow> nat \<Rightarrow> nat \<Rightarrow> vec list \<Rightarrow> vec) \<Rightarrow> bool" where
  "bloom_layer_ok layer B D d slope G row \<longleftrightarrow>
     alibi_ok layer B slope \<and> causal_mask_ok layer B \<and> bloom_attends layer B D d G row \<and>
     (\<forall>x bs es. length x = D \<longrightarrow> length (G x bs es) = D) \<and>
     (\<forall>i j p x. i < 2 \<and> j < B * bl_num_heads layer \<and> token_shape B D x \<longrightarrow> length (row i j p x) = d)"

text \<open>What a query at position \<open>m + t\<close> may attend to. Without a mask, a layer attends to what \<open>sees\<close> allows.\<close>

definition mask_view :: "(nat \<Rightarrow> nat \<Rightarrow> bool) \<Rightarrow> attn_mask option \<Rightarrow> nat \<Rightarrow> nat \<Rightarrow> nat \<Rightarrow> nat \<Rightarrow> bool" where
  "mask_view sees mk m b t j =
     (case mk of
        None \<Rightarrow> sees (m + t) j
      | Some (Mask_2d a) \<Rightarrow> sees (m + t) j \<and> a ! b ! j
      | Some (Mask_4d a) \<Rightarrow> a ! b ! t ! j = 0)"

text \<open>The masks that a layer takes: leaving the mask out with a past and several new tokens is right with flash attention only,
  and every query sees some position.\<close>

definition mask_fits :: "(nat \<Rightarrow> nat \<Rightarrow> bool) \<Rightarrow> bool \<Rightarrow> nat \<Rightarrow> nat \<Rightarrow> nat \<Rightarrow> attn_mask option \<Rightarrow> bool" where
  "mask_fits sees flash B T m mk \<longleftrightarrow>
     (case mk of
        None \<Rightarrow> flash \<or> T = 1 \<or> m = 0
      | Some (Mask_2d a) \<Rightarrow> flash \<and> map length a = replicate B (m + T)
      | Some (Mask_4d a) \<Rightarrow> map (map length) a = replicate B (replicate T (m + T))) \<and>
     (\<forall>b < B. \<forall>t < T. \<exists>j < m + T. mask_view sees mk m b t j)"

text \<open>The masks that the library builds for \<open>T\<close> tokens after \<open>m\<close>: none is built where none is needed.\<close>

definition built_mask_ok :: "(nat \<Rightarrow> nat \<Rightarrow> bool) \<Rightarrow> nat \<Rightarrow> nat \<Rightarrow> nat \<Rightarrow> rat list list list option \<Rightarrow> bool" where
  "built_mask_ok sees B T m built \<longleftrightarrow>
     (case built of
        None \<Rightarrow> T = 1 \<or> m = 0
      | Some a \<Rightarrow> map (map length) a = replicate B (replicate T (m + T)) \<and>
          (\<forall>b < B. \<forall>t < T. \<forall>j < m + T. (a ! b ! t ! j = 0) = sees (m + t) j))"

text \<open>A Mixtral layer, given the position ids that follow the cached positions and a cache that counts them, extends its own
  entry of the cache, and its output at a position is a function \<open>G\<close> of the position, the token and the visible entries.\<close>

definition mixtral_masks_ok :: "mixtral_layer \<Rightarrow> nat \<Rightarrow> (nat \<Rightarrow> nat \<Rightarrow> bool) \<Rightarrow> bool" where
  "mixtral_masks_ok layer B sees \<longleftrightarrow>
     (\<forall>T m. 0 < T \<longrightarrow>
        (mx_attn_implementation layer = Sdpa \<longrightarrow> built_mask_ok sees B T m (mx_mask_for_sdpa layer None (B, T) m)) \<and>
        (mx_attn_implementation layer = Eager \<longrightarrow> built_mask_ok sees B T m (mx_mask_4d layer None (B, T) m (mx_sliding_window layer))))"

definition mixtral_attends ::
    "mixtral_layer \<Rightarrow> nat \<Rightarrow> nat \<Rightarrow> nat \<Rightarrow> (nat \<Rightarrow> nat \<Rightarrow> bool) \<Rightarrow> (nat \<Rightarrow> vec \<Rightarrow> (vec \<times> vec) list list \<Rightarrow> vec)
     \<Rightarrow> (nat \<Rightarrow> nat \<Rightarrow> nat \<Rightarrow> vec list \<Rightarrow> vec) \<Rightarrow> bool" where
  "mixtral_attends layer B D d sees G row \<longleftrightarrow>
     (\<forall>hs past m mk. let K = mx_num_key_value_heads layer; idx = mx_layer_idx layer; n = m + length hs; E = extend_kvs row m hs past in
         hs \<noteq> [] \<and> list_all (token_shape B D) hs \<and> fitting (\<lambda>v. length v = d) [B * K, B * K] m past \<and>
         mask_fits sees (mx_attn_implementation layer = Flash_attention_2) B (length hs) m mk \<longrightarrow>
         (\<exists>cache. mx_forward layer (batch_first B hs) mk [m..<n]
             (Some \<lparr>dc_key_cache = replicate idx [] @ [regroup (replicate B K) (past ! 0)],
               dc_value_cache = replicate idx [] @ [regroup (replicate B K) (past ! 1)], dc_seen_tokens = m\<rparr>) True =
           Inr (map (\<lambda>b. map (\<lambda>t. G (m + t) (hs ! t ! b) (seen_entries K b E (filter (mask_view sees mk m b t) [0..<n]))) [0..<length hs]) [0..<B],
                Some cache) \<and>
           idx < length (dc_key_cache cache) \<and> idx < length (dc_value_cache cache) \<and>
           dc_key_cache cache ! idx = regroup (replicate B K) (E ! 0) \<and>
           dc_value_cache cache ! idx = regroup (replicate B K) (E ! 1)))"

definition mixtral_layer_ok ::
    "mixtral_layer \<Rightarrow> nat \<Rightarrow> nat \<Rightarrow> nat \<Rightarrow> (nat \<Rightarrow> nat \<Rightarrow> bool) \<Rightarrow> (nat \<Rightarrow> vec \<Rightarrow> (vec \<times> vec) list list \<Rightarrow> vec)
     \<Rightarrow> (nat \<Rightarrow> nat \<Rightarrow> nat \<Rightarrow> vec list \<Rightarrow> vec) \<Rightarrow> bool" where
  "mixtral_layer_ok layer B D d sees G row \<longleftrightarrow>
     (\<forall>i j. sees i j \<longrightarrow> j \<le> i) \<and> (\<forall>i. sees i i) \<and> mixtral_masks_ok layer B sees \<and> mixtral_attends layer B D d sees G row \<and>
     (\<forall>cache i. i < length (dc_key_cache cache) \<and> i < length (dc_value_cache cache) \<longrightarrow>
        mx_cache_item layer cache i = Inr (dc_key_cache cache ! i, dc_value_cache cache ! i)) \<and>
     (\<forall>p x es. length x = D \<longrightarrow> length (G p x es) = D) \<and>
     (\<forall>i j p x. i < 2 \<and> j < B * mx_num_key_value_heads layer \<and> token_shape B D x \<longrightarrow> length (row i j p x) = d)"

subsection \<open>Layers that attend to what a mask shows\<close>

text \<open>The output at position \<open>p\<close>, from the caches up to it.\<close>

definition masked_position ::
    "nat \<Rightarrow> (nat \<Rightarrow> nat \<Rightarrow> bool) \<Rightarrow> (nat \<Rightarrow> vec \<Rightarrow> (vec \<times> vec) list list \<Rightarrow> vec) \<Rightarrow> nat \<Rightarrow> vec list \<Rightarrow> vec kv list \<Rightarrow> vec list" where
  "masked_position K sees G p x c = map (\<lambda>b. G p (x ! b) (seen_entries K b c (filter (sees p) [0..<Suc p]))) [0..<length x]"

lemma filter_visible:
  assumes "\<forall>i j. sees i j \<longrightarrow> j \<le> i" and "p < n"
  shows "filter (sees p) [0..<n] = filter (sees p) [0..<Suc p]"
proof -
  have "[0..<n] = [0..<Suc p] @ [Suc p..<n]" using assms(2) upt_add_eq_append [of 0 "Suc p" "n - Suc p"] by simp
  moreover have "filter (sees p) [Suc p..<n] = []" using assms(1) by (fastforce simp: filter_empty_conv)
  ultimately show ?thesis by simp
qed

lemma seen_entries_cut:
  assumes "length c = 2" "length (c ! 0) = B * K" "length (c ! 1) = B * K" "b < B" "\<forall>j \<in> set js. j < n"
  shows "seen_entries K b (cut_kvs n c) js = seen_entries K b c js"
  using assms row_index [of _ K b B] unfolding seen_entries_def cut_kvs_def by (auto intro!: map_cong)

lemma masked_causal:
  assumes sees: "\<forall>i j. sees i j \<longrightarrow> j \<le> i"
    and G: "\<forall>p x es. length x = D \<longrightarrow> length (G p x es) = D"
    and row: "\<forall>i j p x. i < 2 \<and> j < B * K \<and> token_shape B D x \<longrightarrow> length (row i j p x) = d"
    and run: "\<forall>hs past m. hs \<noteq> [] \<and> list_all (token_shape B D) hs \<and> fitting (\<lambda>v. length v = d) [B * K, B * K] m past \<longrightarrow>
      fw hs past = Inr (map (\<lambda>t. map (\<lambda>b. G (m + t) (hs ! t ! b)
          (seen_entries K b (extend_kvs row m hs past) (filter (sees (m + t)) [0..<m + length hs]))) [0..<B]) [0..<length hs], extend_kvs row m hs past)"
  shows "causal_module (token_shape B D) (\<lambda>v. length v = d) [B * K, B * K] fw"
proof (rule positional_causal [where F = "masked_position K sees G" and row = row])
  show "\<forall>hs past m. hs \<noteq> [] \<and> list_all (token_shape B D) hs \<and> fitting (\<lambda>v. length v = d) [B * K, B * K] m past \<longrightarrow>
      fw hs past = Inr (map (\<lambda>t. masked_position K sees G (m + t) (hs ! t) (cut_kvs (Suc (m + t)) (extend_kvs row m hs past))) [0..<length hs],
        extend_kvs row m hs past)"
  proof (intro allI impI)
    fix hs m and past :: "vec kv list" assume a: "hs \<noteq> [] \<and> list_all (token_shape B D) hs \<and> fitting (\<lambda>v. length v = d) [B * K, B * K] m past"
    let ?E = "extend_kvs row m hs past"
    have E: "length ?E = 2" "length (?E ! 0) = B * K" "length (?E ! 1) = B * K"
      using a by (auto simp: fitting_rows extend_kvs_nth)
    have "map (\<lambda>b. G (m + t) (hs ! t ! b) (seen_entries K b ?E (filter (sees (m + t)) [0..<m + length hs]))) [0..<B] =
        masked_position K sees G (m + t) (hs ! t) (cut_kvs (Suc (m + t)) ?E)" if "t < length hs" for t
    proof -
      have len: "length (hs ! t) = B" using a that by (simp add: list_all_length token_shape_def)
      have "seen_entries K b ?E (filter (sees (m + t)) [0..<m + length hs]) =
          seen_entries K b (cut_kvs (Suc (m + t)) ?E) (filter (sees (m + t)) [0..<Suc (m + t)])" if b: "b < B" for b
      proof -
        have "filter (sees (m + t)) [0..<m + length hs] = filter (sees (m + t)) [0..<Suc (m + t)]"
          using \<open>t < length hs\<close> by (intro filter_visible [OF sees]) simp
        then show ?thesis using seen_entries_cut [OF E b, of "filter (sees (m + t)) [0..<Suc (m + t)]" "Suc (m + t)"] by simp
      qed
      then show ?thesis by (simp add: masked_position_def len del: upt_Suc)
    qed
    then show "fw hs past = Inr (map (\<lambda>t. masked_position K sees G (m + t) (hs ! t) (cut_kvs (Suc (m + t)) ?E)) [0..<length hs], ?E)"
      using run a by auto
  qed
  show "\<forall>p x c. token_shape B D x \<and> fitting (\<lambda>v. length v = d) [B * K, B * K] (Suc p) c \<longrightarrow> token_shape B D (masked_position K sees G p x c)"
    using G by (auto simp: masked_position_def token_shape_def)
  show "\<forall>i j p x. i < length [B * K, B * K] \<and> j < [B * K, B * K] ! i \<and> token_shape B D x \<longrightarrow> length (row i j p x) = d"
    using row by (auto simp: less_Suc_eq)
qed

lemma token_first_rows: "token_first T (map (\<lambda>b. map (f b) [0..<T]) [0..<B]) = map (\<lambda>t. map (\<lambda>b. f b t) [0..<B]) [0..<T]"
  by (simp add: token_first_def comp_def)

lemma dummy_fitting:
  assumes "fitting (\<lambda>v. length v = d) [n, k] m past" "0 < d"
  shows "dummy_rows (hd past) \<longleftrightarrow> m = 0"
  using assms(1)
proof (rule fitting_two)
  fix ks vs assume p: "past = [ks, vs]" "0 < n" "length ks = n" "\<forall>r \<in> set ks. length r = m" "\<forall>r \<in> set ks. \<forall>v \<in> set r. length v = d"
  then obtain r rs where "ks = r # rs" by (cases ks) auto
  with p assms(2) show ?thesis by (cases r) (auto simp: dummy_rows_def)
qed

lemma table_lengths:
  assumes "map (map length) a = replicate B (replicate T n)"
  shows "length a = B" "b < B \<Longrightarrow> length (a ! b) = T" "b < B \<Longrightarrow> t < T \<Longrightarrow> length (a ! b ! t) = n"
proof -
  show l: "length a = B" using arg_cong [OF assms, of length] by simp
  have r: "map length (a ! b) = replicate T n" if "b < B" for b using arg_cong [OF assms, of "\<lambda>x. x ! b"] that l by simp
  show "b < B \<Longrightarrow> length (a ! b) = T" using arg_cong [OF r, of b length] by simp
  then show "b < B \<Longrightarrow> t < T \<Longrightarrow> length (a ! b ! t) = n" using arg_cong [OF r, of b "\<lambda>x. x ! t"] by simp
qed

lemma batch_first_sizes:
  assumes "hs \<noteq> []" "list_all (token_shape B D) hs" "0 < B"
  shows "length (hd hs) = B" "length (batch_first B hs) = B" "length (hd (batch_first B hs)) = length hs"
  using assms by (auto simp: list_all_length token_shape_def hd_conv_nth batch_first_def)

subsection \<open>The wrappers pass the right masks, positions and caches\<close>

lemma bloom_run:
  fixes layer hs past m
  defines "H \<equiv> bl_num_heads layer"
  assumes ok: "bloom_layer_ok layer B D d slope G row" and B: "0 < B" and d: "0 < d"
    and hs: "hs \<noteq> []" "list_all (token_shape B D) hs" and past: "fitting (\<lambda>v. length v = d) [B * H, B * H] m past"
  shows "bloom_block_forward layer hs past = Inr (map (\<lambda>t. map (\<lambda>b.
      G (hs ! t ! b) (map (\<lambda>j. map (\<lambda>h. slope h * of_nat j) [0..<H]) (filter (\<lambda>j. j \<le> m + t) [0..<m + length hs]))
        (seen_entries H b (extend_kvs row m hs past) (filter (\<lambda>j. j \<le> m + t) [0..<m + length hs]))) [0..<B]) [0..<length hs],
    extend_kvs row m hs past)"
proof -
  let ?T = "length hs" and ?E = "extend_kvs row m hs past"
  define bias where "bias = bl_build_alibi_tensor layer (replicate B (replicate (?T + m) 1)) H"
  define a where "a = bl_prepare_4d_causal_attention_mask layer (replicate B (replicate (?T + m) 1)) (B, ?T) m"
  define lp where "lp = (if m = 0 then None else Some past)"
  have bias: "map length bias = replicate (B * H) (m + ?T)" "\<forall>b < B. \<forall>h < H. \<forall>j < m + ?T. bias ! (b * H + h) ! j = slope h * of_nat j"
    using ok by (simp_all add: bloom_layer_ok_def alibi_ok_def Let_def bias_def H_def add.commute)
  have a: "map (map length) a = replicate B (replicate ?T (m + ?T))" "\<forall>b < B. \<forall>t < ?T. \<forall>j < m + ?T. (a ! b ! t ! j = 0) = (j \<le> m + t)"
    using ok by (simp_all add: bloom_layer_ok_def causal_mask_ok_def Let_def a_def)
  let ?mask = "map (map (map (\<lambda>w. w \<noteq> 0))) a"
  have la: "length a = B" "\<And>b. b < B \<Longrightarrow> length (a ! b) = ?T" "\<And>b t. b < B \<Longrightarrow> t < ?T \<Longrightarrow> length (a ! b ! t) = m + ?T"
    using table_lengths [OF a(1)] by simp_all
  have hide: "?mask ! b ! t ! j = (m + t < j)" if "b < B" "t < ?T" "j < m + ?T" for b t j
    using that a(2) la by (simp add: not_le)
  have sees: "filter (\<lambda>j. \<not> ?mask ! b ! t ! j) [0..<m + ?T] = filter (\<lambda>j. j \<le> m + t) [0..<m + ?T]" if "b < B" "t < ?T" for b t
    using that hide by (intro filter_cong) auto
  have shape: "map (map length) ?mask = replicate B (replicate ?T (m + ?T))" using a(1) by (simp add: comp_def)
  have some: "\<forall>b < B. \<forall>t < ?T. \<exists>j < m + ?T. \<not> ?mask ! b ! t ! j"
  proof (intro allI impI)
    fix b t assume "b < B" "t < ?T"
    then have "\<not> ?mask ! b ! t ! t" by (subst hide) simp_all
    with \<open>t < ?T\<close> show "\<exists>j < m + ?T. \<not> ?mask ! b ! t ! j" by (intro exI [of _ t]) simp
  qed
  have call: "bl_forward layer (batch_first B hs) ?mask bias lp True =
      Inr (map (\<lambda>b. map (\<lambda>t. let js = filter (\<lambda>j. \<not> ?mask ! b ! t ! j) [0..<m + ?T] in
          G (hs ! t ! b) (map (\<lambda>j. map (\<lambda>h. bias ! (b * H + h) ! j) [0..<H]) js) (seen_entries H b ?E js)) [0..<?T]) [0..<B], Some ?E)"
  proof -
    have "lp = Some past \<or> lp = None \<and> m = 0" by (simp add: lp_def)
    moreover have "bloom_attends layer B D d G row" using ok by (simp add: bloom_layer_ok_def)
    ultimately show ?thesis using hs past shape some bias(1) unfolding bloom_attends_def Let_def H_def [symmetric] by blast
  qed
  have pl: "past_length past = m" by (rule past_length_fitting [OF past])
  have ne: "past \<noteq> []" using past by (auto simp: fitting_rows)
  have lp': "(if dummy_rows (hd past) then None else Some past) = lp"
    by (simp add: lp_def dummy_fitting [OF past d])
  have len: "(case lp of None \<Rightarrow> 0 | Some kvs \<Rightarrow> past_length kvs) = m" by (simp add: lp_def pl)
  have "bloom_block_forward layer hs past = bindR (bl_forward layer (batch_first B hs) ?mask bias lp True)
      (\<lambda>(output, kvs). Inr (token_first ?T output, case kvs of None \<Rightarrow> [] | Some k \<Rightarrow> k))"
    unfolding bloom_block_forward_def wrapped_bloom_forward_def
    using ne by (simp add: Let_def batch_first_sizes [OF hs B] lp' len bias_def a_def H_def)
  also have "\<dots> = Inr (map (\<lambda>t. map (\<lambda>b. let js = filter (\<lambda>j. \<not> ?mask ! b ! t ! j) [0..<m + ?T] in
          G (hs ! t ! b) (map (\<lambda>j. map (\<lambda>h. bias ! (b * H + h) ! j) [0..<H]) js) (seen_entries H b ?E js)) [0..<B]) [0..<?T], ?E)"
    unfolding call by (simp only: bindR_simps prod.case option.case token_first_rows)
  also have "\<dots> = Inr (map (\<lambda>t. map (\<lambda>b.
      G (hs ! t ! b) (map (\<lambda>j. map (\<lambda>h. slope h * of_nat j) [0..<H]) (filter (\<lambda>j. j \<le> m + t) [0..<m + ?T]))
        (seen_entries H b ?E (filter (\<lambda>j. j \<le> m + t) [0..<m + ?T]))) [0..<B]) [0..<?T], ?E)"
  proof -
    have "map (\<lambda>j. map (\<lambda>h. bias ! (b * H + h) ! j) [0..<H]) (filter (\<lambda>j. j \<le> m + t) [0..<m + ?T]) =
        map (\<lambda>j. map (\<lambda>h. slope h * of_nat j) [0..<H]) (filter (\<lambda>j. j \<le> m + t) [0..<m + ?T])" if "b < B" for b t
      using that bias(2) by auto
    note cols = this
    show ?thesis
      by (rule arg_cong [where f = "\<lambda>out. Inr (out, ?E)"], intro map_cong refl) (simp only: set_upt atLeastLessThan_iff sees cols Let_def)
  qed
  finally show ?thesis .
qed

lemma mixtral_mask_cases:
  assumes "mixtral_masks_ok layer B sees" "0 < T"
  obtains "mixtral_mask layer None (B, T) m = None" "mx_attn_implementation layer = Flash_attention_2 \<or> T = 1 \<or> m = 0"
  | a where "mixtral_mask layer None (B, T) m = Some (Mask_4d a)" "map (map length) a = replicate B (replicate T (m + T))"
      "\<forall>b < B. \<forall>t < T. \<forall>j < m + T. (a ! b ! t ! j = 0) = sees (m + t) j"
proof -
  have m: "mx_attn_implementation layer = Sdpa \<longrightarrow> built_mask_ok sees B T m (mx_mask_for_sdpa layer None (B, T) m)"
    "mx_attn_implementation layer = Eager \<longrightarrow> built_mask_ok sees B T m (mx_mask_4d layer None (B, T) m (mx_sliding_window layer))"
    using assms by (simp_all add: mixtral_masks_ok_def)
  show thesis
  proof (cases "mx_attn_implementation layer")
    case Flash_attention_2
    then show thesis using that(1) by (simp add: mixtral_mask_def)
  next
    case Sdpa
    then show thesis using m(1) that by (cases "mx_mask_for_sdpa layer None (B, T) m") (simp_all add: mixtral_mask_def built_mask_ok_def)
  next
    case Eager
    then show thesis using m(2) that
      by (cases "mx_mask_4d layer None (B, T) m (mx_sliding_window layer)") (simp_all add: mixtral_mask_def built_mask_ok_def)
  qed
qed

text \<open>The caches on the way in and out.\<close>

lemma mixtral_past_ok:
  assumes "fitting vec [B * mx_num_key_value_heads layer, B * mx_num_key_value_heads layer] m past"
  shows "mixtral_past layer (Some past) B m = Inr (Some
    \<lparr>dc_key_cache = replicate (mx_layer_idx layer) [] @ [regroup (replicate B (mx_num_key_value_heads layer)) (past ! 0)],
     dc_value_cache = replicate (mx_layer_idx layer) [] @ [regroup (replicate B (mx_num_key_value_heads layer)) (past ! 1)], dc_seen_tokens = m\<rparr>)"
  using assms
proof (rule fitting_two)
  fix ks vs assume e: "past = [ks, vs]" "length ks = B * mx_num_key_value_heads layer" "length vs = B * mx_num_key_value_heads layer"
    "\<forall>r \<in> set ks. length r = m" "\<forall>r \<in> set vs. length r = m"
  show ?thesis
    unfolding mixtral_past_def mixtral_cache_from_bloom_def e(1) by (simp add: rows_length [OF e(2,4)] rows_length [OF e(3,5)])
qed

lemma mixtral_present_ok:
  assumes "fitting vec [B * K, B * K] n E"
  shows "mixtral_cache_to_bloom K (regroup (replicate B K) (E ! 0), regroup (replicate B K) (E ! 1)) B n = Inr E"
  using assms
proof (rule fitting_two)
  fix ks vs assume e: "E = [ks, vs]" "length ks = B * K" "length vs = B * K" "\<forall>r \<in> set ks. length r = n" "\<forall>r \<in> set vs. length r = n"
  then have "concat (regroup (replicate B K) ks) = ks" "concat (regroup (replicate B K) vs) = vs"
    using concat_table [of ks B K] concat_table [of vs B K] regroup_table [of ks B K] regroup_table [of vs B K] by simp_all
  then show ?thesis by (simp add: mixtral_cache_to_bloom_def e(1) rows_length [OF e(2,4)] rows_length [OF e(3,5)])
qed

lemma mixtral_run:
  fixes layer hs past m
  defines "K \<equiv> mx_num_key_value_heads layer"
  assumes ok: "mixtral_layer_ok layer B D d sees G row" and B: "0 < B"
    and hs: "hs \<noteq> []" "list_all (token_shape B D) hs" and past: "fitting (\<lambda>v. length v = d) [B * K, B * K] m past"
  shows "mixtral_block_forward layer hs past = Inr (map (\<lambda>t. map (\<lambda>b. G (m + t) (hs ! t ! b)
      (seen_entries K b (extend_kvs row m hs past) (filter (sees (m + t)) [0..<m + length hs]))) [0..<B]) [0..<length hs],
    extend_kvs row m hs past)"
proof -
  let ?T = "length hs" and ?E = "extend_kvs row m hs past" and ?idx = "mx_layer_idx layer" and ?g = "regroup (replicate B K)"
  define mk where "mk = mixtral_mask layer None (B, ?T) m"
  have sees: "\<forall>i. sees i i" and masks: "mixtral_masks_ok layer B sees" and attends: "mixtral_attends layer B D d sees G row"
    and item: "\<And>cache i. i < length (dc_key_cache cache) \<and> i < length (dc_value_cache cache) \<Longrightarrow>
        mx_cache_item layer cache i = Inr (dc_key_cache cache ! i, dc_value_cache cache ! i)"
    and row: "\<forall>i j p x. i < length [B * K, B * K] \<and> j < [B * K, B * K] ! i \<and> token_shape B D x \<longrightarrow> length (row i j p x) = d"
    using ok by (auto simp: mixtral_layer_ok_def K_def less_Suc_eq)
  have T: "0 < ?T" using hs(1) by simp
  have view: "mask_view sees mk m b t j = sees (m + t) j" if "b < B" "t < ?T" "j < m + ?T" for b t j
    using masks T unfolding mk_def by (rule mixtral_mask_cases [of _ _ _ _ m]) (simp_all add: mask_view_def that)
  have fits: "mask_fits sees (mx_attn_implementation layer = Flash_attention_2) B ?T m mk"
    unfolding mask_fits_def
  proof (intro conjI allI impI)
    show "case mk of None \<Rightarrow> mx_attn_implementation layer = Flash_attention_2 \<or> ?T = 1 \<or> m = 0
      | Some (Mask_2d a) \<Rightarrow> mx_attn_implementation layer = Flash_attention_2 \<and> map length a = replicate B (m + ?T)
      | Some (Mask_4d a) \<Rightarrow> map (map length) a = replicate B (replicate ?T (m + ?T))"
      using masks T unfolding mk_def by (rule mixtral_mask_cases [of _ _ _ _ m]) simp_all
    fix b t assume "b < B" "t < ?T"
    then show "\<exists>j < m + ?T. mask_view sees mk m b t j" using view sees by (intro exI [of _ "m + t"]) simp
  qed
  have call: "\<exists>cache. mx_forward layer (batch_first B hs) mk [m..<?T + m]
       (Some \<lparr>dc_key_cache = replicate ?idx [] @ [?g (past ! 0)], dc_value_cache = replicate ?idx [] @ [?g (past ! 1)], dc_seen_tokens = m\<rparr>) True =
     Inr (map (\<lambda>b. map (\<lambda>t. G (m + t) (hs ! t ! b) (seen_entries K b ?E (filter (mask_view sees mk m b t) [0..<m + ?T]))) [0..<?T]) [0..<B], Some cache) \<and>
     ?idx < length (dc_key_cache cache) \<and> ?idx < length (dc_value_cache cache) \<and>
     dc_key_cache cache ! ?idx = ?g (?E ! 0) \<and> dc_value_cache cache ! ?idx = ?g (?E ! 1)"
    using attends hs past fits unfolding mixtral_attends_def Let_def K_def [symmetric] add.commute [of ?T] by blast
  then obtain cache where c: "mx_forward layer (batch_first B hs) mk [m..<?T + m]
       (Some \<lparr>dc_key_cache = replicate ?idx [] @ [?g (past ! 0)], dc_value_cache = replicate ?idx [] @ [?g (past ! 1)], dc_seen_tokens = m\<rparr>) True =
     Inr (map (\<lambda>b. map (\<lambda>t. G (m + t) (hs ! t ! b) (seen_entries K b ?E (filter (mask_view sees mk m b t) [0..<m + ?T]))) [0..<?T]) [0..<B], Some cache)"
    "mx_cache_item layer cache ?idx = Inr (?g (?E ! 0), ?g (?E ! 1))" using item by auto
  have outs: "map (\<lambda>b. map (\<lambda>t. G (m + t) (hs ! t ! b) (seen_entries K b ?E (filter (mask_view sees mk m b t) [0..<m + ?T]))) [0..<?T]) [0..<B] =
      map (\<lambda>b. map (\<lambda>t. G (m + t) (hs ! t ! b) (seen_entries K b ?E (filter (sees (m + t)) [0..<m + ?T]))) [0..<?T]) [0..<B]"
    by (intro map_cong refl arg_cong [where f = "G _ _"] arg_cong [where f = "seen_entries _ _ _"] filter_cong) (simp add: view)
  note past_in = mixtral_past_ok [OF past [unfolded K_def]]
  have "fitting (\<lambda>v. length v = d) [B * K, B * K] (?T + m) ?E"
    using extend_kvs_fitting [OF past hs(2) row] by (simp add: add.commute)
  note present_out = mixtral_present_ok [OF this]
  have ne: "past \<noteq> []" using past by (auto simp: fitting_rows)
  have "wrapped_mixtral_forward layer (batch_first B hs) None (Some past) True =
     Inr (map (\<lambda>b. map (\<lambda>t. G (m + t) (hs ! t ! b) (seen_entries K b ?E (filter (sees (m + t)) [0..<m + ?T]))) [0..<?T]) [0..<B], Some ?E)"
    unfolding wrapped_mixtral_forward_def
    using ne by (simp add: Let_def batch_first_sizes [OF hs B] past_length_fitting [OF past] past_in [unfolded One_nat_def] mk_def [symmetric]
        c [unfolded One_nat_def] K_def [symmetric] present_out [unfolded One_nat_def] outs
        del: map_eq_conv)
  then show ?thesis
    unfolding mixtral_block_forward_def batch_first_sizes [OF hs B] by (simp only: bindR_simps prod.case option.case token_first_rows)
qed

text \<open>Without a cache to fill, asking for one is an error.\<close>

lemma mixtral_needs_past:
  "mx_forward layer X (mixtral_mask layer None (length X, length (hd X)) 0) [0..<length (hd X)] None True = Inr (out, None) \<Longrightarrow>
   wrapped_mixtral_forward layer X None None True = Inl TypeError"
  by (simp add: wrapped_mixtral_forward_def mixtral_past_def Let_def)

subsection \<open>The blocks are causal\<close>

lemma bloom_causal:
  assumes "bloom_layer_ok layer B D d slope G row" and "0 < B" and "0 < d"
  shows "causal_module (token_shape B D) (\<lambda>v. length v = d) [B * bl_num_heads layer, B * bl_num_heads layer] (bloom_block_forward layer)"
proof (rule masked_causal [where sees = "\<lambda>i j. j \<le> i" and row = row and K = "bl_num_heads layer" and
      G = "\<lambda>p x. G x (map (\<lambda>j. map (\<lambda>h. slope h * of_nat j) [0..<bl_num_heads layer]) [0..<Suc p])"])
  let ?H = "bl_num_heads layer" and ?bias = "\<lambda>j. map (\<lambda>h. slope h * of_nat j) [0..<bl_num_heads layer]"
  show "\<forall>p x es. length x = D \<longrightarrow> length (G x (map ?bias [0..<Suc p]) es) = D"
    "\<forall>i j p x. i < 2 \<and> j < B * ?H \<and> token_shape B D x \<longrightarrow> length (row i j p x) = d"
    using assms(1) by (simp_all add: bloom_layer_ok_def)
  have upto: "filter (\<lambda>j. j \<le> m + t) [0..<m + n] = [0..<Suc (m + t)]" if "t < n" for m t n
    using filter_visible [of "\<lambda>i j. j \<le> i" "m + t" "m + n"] that by (simp add: filter_True del: upt_Suc)
  show "\<forall>hs past m. hs \<noteq> [] \<and> list_all (token_shape B D) hs \<and> fitting (\<lambda>v. length v = d) [B * ?H, B * ?H] m past \<longrightarrow>
      bloom_block_forward layer hs past = Inr (map (\<lambda>t. map (\<lambda>b. G (hs ! t ! b) (map ?bias [0..<Suc (m + t)])
        (seen_entries ?H b (extend_kvs row m hs past) (filter (\<lambda>j. j \<le> m + t) [0..<m + length hs]))) [0..<B]) [0..<length hs], extend_kvs row m hs past)"
  proof (intro allI impI, elim conjE)
    fix hs m and past :: "vec kv list"
    assume a: "hs \<noteq> []" "list_all (token_shape B D) hs" "fitting (\<lambda>v. length v = d) [B * ?H, B * ?H] m past"
    show "bloom_block_forward layer hs past = Inr (map (\<lambda>t. map (\<lambda>b. G (hs ! t ! b) (map ?bias [0..<Suc (m + t)])
        (seen_entries ?H b (extend_kvs row m hs past) (filter (\<lambda>j. j \<le> m + t) [0..<m + length hs]))) [0..<B]) [0..<length hs], extend_kvs row m hs past)"
      unfolding bloom_run [OF assms a] using upto [of _ "length hs" m] by (simp del: upt_Suc)
  qed
qed simp

text \<open>C34. A Mixtral block is causal, whatever the attention implementation and the sliding window: the wrapper hands a layer that
  attends to what its mask shows the position ids, the mask, the cache entry and the token count that belong to the past, and
  brings the cache back in the backend's layout, so that the steps of a session, and the chunks of a step, compute what one
  pass over the whole sequence computes.\<close>

theorem mixtral_block_causal:
  assumes "mixtral_layer_ok layer B D d sees G row" and "0 < B"
  shows "causal_module (token_shape B D) (\<lambda>v. length v = d)
    [B * mx_num_key_value_heads layer, B * mx_num_key_value_heads layer] (mixtral_block_forward layer)"
proof (rule masked_causal [where sees = sees and G = G and row = row])
  show "\<forall>hs past m. hs \<noteq> [] \<and> list_all (token_shape B D) hs \<and>
      fitting (\<lambda>v. length v = d) [B * mx_num_key_value_heads layer, B * mx_num_key_value_heads layer] m past \<longrightarrow>
      mixtral_block_forward layer hs past = Inr (map (\<lambda>t. map (\<lambda>b. G (m + t) (hs ! t ! b) (seen_entries (mx_num_key_value_heads layer) b
        (extend_kvs row m hs past) (filter (sees (m + t)) [0..<m + length hs]))) [0..<B]) [0..<length hs], extend_kvs row m hs past)"
    using mixtral_run [OF assms] by blast
qed (use assms(1) in \<open>simp_all add: mixtral_layer_ok_def\<close>)

subsection \<open>A small layer\<close>

text \<open>Two features, one head whose keys and values are the tokens: the output is the token plus the values that it sees.\<close>

definition demo_attend :: "nat \<Rightarrow> vec \<Rightarrow> (vec \<times> vec) list list \<Rightarrow> vec" where
  "demo_attend p x es = map (\<lambda>i. x ! i + sum_list (map (\<lambda>e. snd (hd e) ! i) es)) [0..<2]"

definition demo_mixtral_forward ::
    "vec list list \<Rightarrow> attn_mask option \<Rightarrow> nat list \<Rightarrow> dynamic_cache option \<Rightarrow> bool \<Rightarrow> (vec list list \<times> dynamic_cache option) result" where
  "demo_mixtral_forward X mk positions cache caching =
     (case cache of
        None \<Rightarrow> Inr (X, None)
      | Some c \<Rightarrow>
          let grow = (\<lambda>c. map2 (\<lambda>heads seq. [hd heads @ seq]) (last c) X); m = hd positions;
              ks = grow (dc_key_cache c); vs = grow (dc_value_cache c) in
          Inr (map (\<lambda>b. map (\<lambda>t. demo_attend (positions ! t) (X ! b ! t) (map (\<lambda>j. [(ks ! b ! 0 ! j, vs ! b ! 0 ! j)])
                   (filter (mask_view (\<lambda>i j. j \<le> i) mk m b t) [0..<m + length positions]))) [0..<length positions]) [0..<length X],
               Some (c\<lparr>dc_key_cache := butlast (dc_key_cache c) @ [ks], dc_value_cache := butlast (dc_value_cache c) @ [vs]\<rparr>)))"

definition demo_mixtral :: mixtral_layer where
  "demo_mixtral = \<lparr>mx_attn_implementation = Eager, mx_sliding_window = None, mx_layer_idx = 1, mx_num_key_value_heads = 1,
     mx_mask_for_sdpa = \<lambda>_ _ _. None,
     mx_mask_4d = \<lambda>_ (b, n) m _. Some (replicate b (map (\<lambda>t. map (\<lambda>j. if j \<le> m + t then 0 else - 1) [0..<m + n]) [0..<n])),
     mx_cache_item = \<lambda>c i. if i < length (dc_key_cache c) then Inr (dc_key_cache c ! i, dc_value_cache c ! i) else Inl KeyError,
     mx_forward = demo_mixtral_forward\<rparr>"

lemma regroup_single: "length rows = B \<Longrightarrow> regroup (replicate B (Suc 0)) rows = map (\<lambda>r. [r]) rows"
  using regroup_table [of rows B 1] by (auto intro: nth_equalityI)

lemma demo_mixtral_attends: "mixtral_attends demo_mixtral B 2 2 (\<lambda>i j. j \<le> i) demo_attend (\<lambda>i j p x. x ! j)"
  unfolding mixtral_attends_def Let_def
proof (intro allI impI, elim conjE)
  fix hs m and past :: "vec kv list" and mk
  let ?K = "mx_num_key_value_heads demo_mixtral" and ?idx = "mx_layer_idx demo_mixtral" and ?row = "\<lambda>i j p x. x ! j :: vec"
  let ?E = "extend_kvs ?row m hs past" and ?X = "batch_first B hs" and ?T = "length hs"
  assume hs: "hs \<noteq> []" and past: "fitting (\<lambda>v. length v = 2) [B * ?K, B * ?K] m past"
  have K: "?K = 1" "?idx = 1" by (simp_all add: demo_mixtral_def)
  from past obtain pk pv where p: "past = [pk, pv]" "length pk = B" "length pv = B"
    unfolding K by (rule fitting_two) simp
  have X: "length ?X = B" by (simp add: batch_first_def)
  have grow: "map2 (\<lambda>heads seq. [hd heads @ seq]) (map (\<lambda>r. [r]) pk) ?X = map (\<lambda>r. [r]) (?E ! 0)"
    "map2 (\<lambda>heads seq. [hd heads @ seq]) (map (\<lambda>r. [r]) pv) ?X = map (\<lambda>r. [r]) (?E ! 1)" and E: "length (?E ! 0) = B" "length (?E ! 1) = B"
    using p(2,3) by (auto simp: p(1) extend_kvs_def batch_first_table intro!: nth_equalityI)
  let ?c = "\<lparr>dc_key_cache = [[], map (\<lambda>r. [r]) (?E ! 0)], dc_value_cache = [[], map (\<lambda>r. [r]) (?E ! 1)], dc_seen_tokens = m\<rparr>"
  have out: "demo_mixtral_forward ?X mk [m..<m + ?T]
      (Some \<lparr>dc_key_cache = [[], map (\<lambda>r. [r]) pk], dc_value_cache = [[], map (\<lambda>r. [r]) pv], dc_seen_tokens = m\<rparr>) True =
    Inr (map (\<lambda>b. map (\<lambda>t. demo_attend (m + t) (hs ! t ! b) (seen_entries 1 b ?E (filter (mask_view (\<lambda>i j. j \<le> i) mk m b t) [0..<m + ?T]))) [0..<?T]) [0..<B],
      Some ?c)"
  proof -
    have "m + length [m..<m + ?T] = m + ?T" "hd [m..<m + ?T] = m" using hs by (simp_all add: hd_conv_nth)
    moreover have "?X ! b ! t = hs ! t ! b" "(m + t) = [m..<m + ?T] ! t" if "b < B" "t < ?T" for b t
      using that by (simp_all add: batch_first_table)
    moreover have "map (\<lambda>r. [r]) (?E ! i) ! b ! 0 ! j = ?E ! i ! b ! j" if "b < B" "i < 2" for i b j
      using that E by (auto simp: less_2_cases_iff)
    ultimately show ?thesis
      unfolding demo_mixtral_forward_def Let_def seen_entries_def
      by (auto simp: grow X intro!: map_cong arg_cong [where f = "demo_attend _ _"])
  qed
  show "\<exists>cache. mx_forward demo_mixtral ?X mk [m..<m + ?T]
      (Some \<lparr>dc_key_cache = replicate ?idx [] @ [regroup (replicate B ?K) (past ! 0)],
         dc_value_cache = replicate ?idx [] @ [regroup (replicate B ?K) (past ! 1)], dc_seen_tokens = m\<rparr>) True =
    Inr (map (\<lambda>b. map (\<lambda>t. demo_attend (m + t) (hs ! t ! b)
      (seen_entries ?K b ?E (filter (mask_view (\<lambda>i j. j \<le> i) mk m b t) [0..<m + ?T]))) [0..<?T]) [0..<B], Some cache) \<and>
    ?idx < length (dc_key_cache cache) \<and> ?idx < length (dc_value_cache cache) \<and>
    dc_key_cache cache ! ?idx = regroup (replicate B ?K) (?E ! 0) \<and> dc_value_cache cache ! ?idx = regroup (replicate B ?K) (?E ! 1)"
  proof (intro exI [of _ ?c] conjI)
    have "mx_forward demo_mixtral = demo_mixtral_forward" by (simp add: demo_mixtral_def)
    then show "mx_forward demo_mixtral ?X mk [m..<m + ?T]
      (Some \<lparr>dc_key_cache = replicate ?idx [] @ [regroup (replicate B ?K) (past ! 0)],
         dc_value_cache = replicate ?idx [] @ [regroup (replicate B ?K) (past ! 1)], dc_seen_tokens = m\<rparr>) True =
      Inr (map (\<lambda>b. map (\<lambda>t. demo_attend (m + t) (hs ! t ! b)
        (seen_entries ?K b ?E (filter (mask_view (\<lambda>i j. j \<le> i) mk m b t) [0..<m + ?T]))) [0..<?T]) [0..<B], Some ?c)"
      using out p(2,3) by (simp add: K p(1) regroup_single)
  qed (use E in \<open>simp_all add: K regroup_single\<close>)
qed

lemma demo_mixtral_ok: "mixtral_layer_ok demo_mixtral B 2 2 (\<lambda>i j. j \<le> i) demo_attend (\<lambda>i j p x. x ! j)"
  unfolding mixtral_layer_ok_def
proof (intro conjI demo_mixtral_attends)
  show "mixtral_masks_ok demo_mixtral B (\<lambda>i j. j \<le> i)"
    by (auto simp: mixtral_masks_ok_def demo_mixtral_def built_mask_ok_def comp_def map_replicate_const intro!: nth_equalityI)
qed (auto simp: demo_mixtral_def demo_attend_def token_shape_def)

text \<open>Two tokens in one pass and in two steps, and the pass evaluated.\<close>

theorem mixtral_block_causal_witness:
  "mixtral_block_forward demo_mixtral ([[[1, 2]]] @ [[[0, 1]]]) [[[]], [[]]] =
     bindR (mixtral_block_forward demo_mixtral [[[1, 2]]] [[[]], [[]]]) (\<lambda>(o1, k1).
     bindR (mixtral_block_forward demo_mixtral [[[0, 1]]] k1) (\<lambda>(o2, k2). Inr (o1 @ o2, k2)))"
proof (rule causal_append [where m = 0])
  show "causal_module (token_shape 1 2) (\<lambda>v. length v = 2) [1, 1] (mixtral_block_forward demo_mixtral)"
    using mixtral_block_causal [OF demo_mixtral_ok, of 1] by (simp add: demo_mixtral_def)
qed (simp_all add: token_shape_def fitting_def uniform_def)

lemma demo_mixtral_step:
  "mixtral_block_forward demo_mixtral [[[1, 2]], [[0, 1]]] [[[]], [[]]] =
     Inr ([[[2, 4]], [[1, 4]]], [[[[1, 2], [0, 1]]], [[[1, 2], [0, 1]]]])"
  by code_simp

end
