(* ===== verification/Launch.thy ===== *)
theory Launch
  imports Server
begin

text \<open>
  From the command line to a model: the options of \<open>cli/run_server.py\<close> as the arguments of the server, the automatic
  classes of \<open>utils/auto_config.py\<close> with \<open>utils/hf_auth.py\<close>, and \<open>client/from_pretrained.py\<close>, which keeps a
  client from downloading the shards of the remote blocks. The option parser, \<open>parse_size\<close>, hivemind's compression types, the
  loaders of transformers and regular expressions are parameters.

  The lemmas show which addresses a server listens on and announces, which revision and credentials a model is loaded with,
  and that exactly the shards with some needed parameter are fetched.
\<close>

subsection \<open>Options of a server\<close>

definition py_upper :: "string \<Rightarrow> string" where
  "py_upper s = map (\<lambda>c. let n = (of_char c :: nat) in if 97 \<le> n \<and> n \<le> 122 then char_of (n - 32) else c) s"

record cli_options =
  co_model :: "string option"
  co_converted_model_name_or_path :: "string option"
  co_host_maddrs :: "string list option"
  co_port :: "int option"
  co_announce_maddrs :: "string list option"
  co_public_ip :: "string option"
  co_daemon_startup_timeout :: rat
  co_compression :: string
  co_max_disk_space :: "string option"
  co_new_swarm :: bool
  co_quant_type :: "string option"
  co_server_args :: server_args            \<comment> \<open>the options that are passed on as they are\<close>

record 'c server_launch =
  sl_converted_model_name_or_path :: "string option"
  sl_host_maddrs :: "string list"
  sl_announce_maddrs :: "string list option"
  sl_startup_timeout :: rat
  sl_compression :: 'c
  sl_max_disk_space :: "int option"
  sl_args :: server_args

text \<open>\<open>QuantType[name]\<close>.\<close>

definition quant_type_named :: "string \<Rightarrow> quantization result" where
  "quant_type_named name = dict_item [(''NONE'', QUANT_NONE), (''INT8'', INT8), (''NF4'', NF4)] name"

definition listen_maddrs :: "int \<Rightarrow> string list" where
  "listen_maddrs port = [''/ip4/0.0.0.0/tcp/'' @ py_str port, ''/ip6/::/tcp/'' @ py_str port]"

definition launch_server ::
    "(string \<Rightarrow> 'c result) \<Rightarrow> (string \<Rightarrow> int result) \<Rightarrow> cli_options \<Rightarrow> 'c server_launch result" where
  "launch_server compression_type parse_size opts =
     (let path = (case co_model opts of Some m \<Rightarrow> if m = '''' then co_converted_model_name_or_path opts else Some m
                    | None \<Rightarrow> co_converted_model_name_or_path opts) in
      guardR (co_port opts = None \<or> co_host_maddrs opts = None) AssertionError
      (let port = (case co_port opts of None \<Rightarrow> 0 | Some p \<Rightarrow> p);
           host_maddrs = (case co_host_maddrs opts of None \<Rightarrow> listen_maddrs port | Some hs \<Rightarrow> hs) in
      bindR (case co_public_ip opts of
               None \<Rightarrow> Inr (co_announce_maddrs opts)
             | Some ip \<Rightarrow>
                 guardR (co_announce_maddrs opts = None) AssertionError
                 (guardR (port \<noteq> 0) AssertionError (Inr (Some [''/ip4/'' @ ip @ ''/tcp/'' @ py_str port])))) (\<lambda>announce_maddrs.
      bindR (compression_type (py_upper (co_compression opts))) (\<lambda>compression.
      bindR (case co_max_disk_space opts of None \<Rightarrow> Inr None | Some s \<Rightarrow> bindR (parse_size s) (\<lambda>n. Inr (Some n))) (\<lambda>max_disk_space.
      (let args = co_server_args opts;
           args1 = (if co_new_swarm opts then args\<lparr>ar_initial_peers := []\<rparr> else args) in
      bindR (case co_quant_type opts of None \<Rightarrow> Inr None | Some q \<Rightarrow> bindR (quant_type_named (py_upper q)) (\<lambda>t. Inr (Some t))) (\<lambda>quant.
      Inr \<lparr>sl_converted_model_name_or_path = path, sl_host_maddrs = host_maddrs, sl_announce_maddrs = announce_maddrs,
        sl_startup_timeout = co_daemon_startup_timeout opts, sl_compression = compression, sl_max_disk_space = max_disk_space,
        sl_args = args1\<lparr>ar_quant_type := quant\<rparr>\<rparr>)))))))"

text \<open>A server with a public address announces the port that it listens on, and it is not left to chance.\<close>

lemma announced_port_is_listened:
  assumes "launch_server C P opts = Inr l" and "co_public_ip opts = Some ip"
  obtains port where "port \<noteq> 0" "sl_announce_maddrs l = Some [''/ip4/'' @ ip @ ''/tcp/'' @ py_str port]"
    "sl_host_maddrs l = listen_maddrs port" "co_port opts = Some port"
proof -
  from assms have "co_port opts = None \<or> co_host_maddrs opts = None" "(case co_port opts of None \<Rightarrow> 0 | Some p \<Rightarrow> p) \<noteq> (0 :: int)"
    and l: "sl_announce_maddrs l = Some [''/ip4/'' @ ip @ ''/tcp/'' @ py_str (case co_port opts of None \<Rightarrow> 0 | Some p \<Rightarrow> p)]"
      "sl_host_maddrs l = (case co_host_maddrs opts of None \<Rightarrow> listen_maddrs (case co_port opts of None \<Rightarrow> 0 | Some p \<Rightarrow> p) | Some hs \<Rightarrow> hs)"
    by (auto simp: launch_server_def Let_def resultD guardR_def split: if_splits)
  then show thesis using that by (cases "co_port opts") auto
qed

text \<open>A new swarm connects to nobody, so its servers are never checked by the health service of the public swarm.\<close>

lemma new_swarm_unchecked:
  assumes "launch_server C P opts = Inr l" and "co_new_swarm opts" and "ho_public_peers h \<noteq> []"
    and "init_server h config (sl_args l) = Inr s"
  shows "\<not> sv_should_validate_reachability s"
proof -
  have "ar_initial_peers (sl_args l) = []" using assms(1,2) by (auto simp: launch_server_def Let_def resultD guardR_def split: if_splits)
  then show ?thesis using assms(3,4) by (auto simp: init_server_def Let_def bindR_Inr)
qed

text \<open>Without \<open>--quant_type\<close>, a server on a GPU quantizes its blocks to 4 bits.\<close>

lemma default_quantization:
  assumes "launch_server C P opts = Inr l" and "co_quant_type opts = None" and "init_server h config (sl_args l) = Inr s"
  shows "sv_quant_type s = (if dev_type (sv_device s) = ''cuda'' then NF4 else QUANT_NONE)"
proof -
  have "ar_quant_type (sl_args l) = None" using assms(1,2) by (auto simp: launch_server_def Let_def resultD guardR_def split: if_splits)
  then show ?thesis using assms(3) by (auto simp: init_server_def Let_def bindR_Inr)
qed

subsection \<open>Automatic classes\<close>

record 'k model_classes =
  cl_config :: 'k
  cl_model :: "'k option"
  cl_model_for_causal_lm :: "'k option"
  cl_model_for_sequence_classification :: "'k option"

definition register_model_classes ::
    "string \<Rightarrow> 'k model_classes \<Rightarrow> (string, 'k model_classes) dict \<Rightarrow> (string, 'k model_classes) dict result" where
  "register_model_classes model_type classes mapping =
     guardR (dict_get mapping model_type = None) AssertionError (Inr (dict_set model_type classes mapping))"

text \<open>The arguments of \<open>from_pretrained\<close> that the code reads; a token may be text or \<open>True\<close>.\<close>

datatype auth_token = Token_text string | Token_true

record load_args =
  lo_model_name_or_path :: "string option"
  lo_revision :: "string option"
  lo_token :: "auth_token option"
  lo_use_auth_token :: "auth_token option"

definition always_needs_auth :: "(string \<Rightarrow> bool) \<Rightarrow> string option \<Rightarrow> bool" where
  "always_needs_auth isdir model_name =
     (case model_name of None \<Rightarrow> False | Some n \<Rightarrow> \<not> isdir n \<and> starts_with n ''meta-llama/Llama-2-'')"

definition auto_from_pretrained ::
    "(string \<Rightarrow> bool) \<Rightarrow> (load_args \<Rightarrow> string result) \<Rightarrow> ('k \<Rightarrow> load_args \<Rightarrow> 'o result) \<Rightarrow> (string, 'k model_classes) dict
     \<Rightarrow> ('k model_classes \<Rightarrow> 'k option) \<Rightarrow> load_args \<Rightarrow> 'o result" where
  "auto_from_pretrained isdir config_model_type loader mapping field args =
     (let args' = (if always_needs_auth isdir (lo_model_name_or_path args) \<and> lo_token args = None \<and> lo_use_auth_token args = None
                   then args\<lparr>lo_use_auth_token := Some Token_true\<rparr> else args) in
      bindR (config_model_type args') (\<lambda>model_type.
      case dict_get mapping model_type of
        None \<Rightarrow> Inl ValueError
      | Some classes \<Rightarrow> (case field classes of None \<Rightarrow> Inl ValueError | Some cls \<Rightarrow> loader cls args')))"

definition DEFAULT_REVISIONS :: "(string, string) dict" where
  "DEFAULT_REVISIONS =
     [(''tiiuae/falcon-40b'', ''f1ba7d328c06aa6fbb4a8afd3c756f46d7e6b232''),
      (''tiiuae/falcon-40b-instruct'', ''7475ff8cfc36ed9a962b658ae3c33391566a85a5''),
      (''tiiuae/falcon-7b'', ''4e2d06f0a7c6370ebabbc30c6f59377ae8f73d76''),
      (''tiiuae/falcon-7b-instruct'', ''f8dac3fff96d5debd43edf56fb4e1abcfffbef28'')]"

definition default_revision :: "load_args \<Rightarrow> load_args" where
  "default_revision args =
     (if lo_revision args = None
      then (case lo_model_name_or_path args of
              None \<Rightarrow> args
            | Some n \<Rightarrow> (case dict_get DEFAULT_REVISIONS n of None \<Rightarrow> args | Some r \<Rightarrow> args\<lparr>lo_revision := Some r\<rparr>))
      else args)"

definition auto_load ::
    "(string \<Rightarrow> bool) \<Rightarrow> (load_args \<Rightarrow> string result) \<Rightarrow> ('k \<Rightarrow> load_args \<Rightarrow> 'o result) \<Rightarrow> (string, 'k model_classes) dict
     \<Rightarrow> ('k model_classes \<Rightarrow> 'k option) \<Rightarrow> load_args \<Rightarrow> 'o result" where
  "auto_load isdir config_model_type loader mapping field args =
     auto_from_pretrained isdir config_model_type loader mapping field (default_revision args)"

text \<open>A second registration of a type is refused, so registration never changes what a model type loads.\<close>

lemma register_keeps:
  "register_model_classes t c m = Inr m' \<Longrightarrow> dict_get m u = Some d \<Longrightarrow> dict_get m' u = Some d"
  by (auto simp: register_model_classes_def guardR_def split: if_splits)

text \<open>The configuration that chooses the class and the class itself are loaded with the same revision and
  credentials: those of the caller, a pinned revision for the Falcon repositories and the saved login for the gated ones.\<close>

lemma auto_load_consistent:
  assumes "auto_load isdir config loader mapping field args = Inr out"
  obtains a t c k where "config a = Inr t" "dict_get mapping t = Some c" "field c = Some k" "loader k a = Inr out"
    "lo_model_name_or_path a = lo_model_name_or_path args"
    "lo_revision args \<noteq> None \<Longrightarrow> lo_revision a = lo_revision args"
    "lo_token a = lo_token args" "lo_use_auth_token args \<noteq> None \<Longrightarrow> lo_use_auth_token a = lo_use_auth_token args"
    "always_needs_auth isdir (lo_model_name_or_path args) \<Longrightarrow> lo_token a \<noteq> None \<or> lo_use_auth_token a \<noteq> None"
proof -
  define r where "r = default_revision args"
  define a where "a = (if always_needs_auth isdir (lo_model_name_or_path r) \<and> lo_token r = None \<and> lo_use_auth_token r = None
    then r\<lparr>lo_use_auth_token := Some Token_true\<rparr> else r)"
  have r: "lo_model_name_or_path r = lo_model_name_or_path args" "lo_token r = lo_token args" "lo_use_auth_token r = lo_use_auth_token args"
    "lo_revision args \<noteq> None \<longrightarrow> lo_revision r = lo_revision args"
    by (auto simp: r_def default_revision_def split: option.splits)
  from assms obtain t c k where "config a = Inr t" "dict_get mapping t = Some c" "field c = Some k" "loader k a = Inr out"
    by (auto simp: auto_load_def auto_from_pretrained_def r_def [symmetric] a_def [symmetric] Let_def bindR_Inr split: option.splits)
  then show thesis by (rule that) (use r in \<open>auto simp: a_def\<close>)
qed

lemma falcon_revision_pinned:
  "default_revision \<lparr>lo_model_name_or_path = Some ''tiiuae/falcon-7b'', lo_revision = None, lo_token = None, lo_use_auth_token = None\<rparr> =
   \<lparr>lo_model_name_or_path = Some ''tiiuae/falcon-7b'', lo_revision = Some ''4e2d06f0a7c6370ebabbc30c6f59377ae8f73d76'', lo_token = None,
     lo_use_auth_token = None\<rparr>"
  by code_simp

subsection \<open>Shards of the remote blocks\<close>

text \<open>A context manager around code that reads the context variable: it is set inside and restored after, also when the
  code raises.\<close>

definition ignore_keys :: "'p list \<Rightarrow> ('p list option \<Rightarrow> 'a result \<times> 'p list option) \<Rightarrow> 'p list option \<Rightarrow> 'a result \<times> 'p list option" where
  "ignore_keys patterns body ignored_keys = (case body (Some patterns) of (r, _) \<Rightarrow> (r, ignored_keys))"

definition kept_weights :: "('p \<Rightarrow> string \<Rightarrow> bool) \<Rightarrow> 'p list \<Rightarrow> (string, string) dict \<Rightarrow> (string, string) dict" where
  "kept_weights matches patterns weight_map = filter (\<lambda>(param_name, _). \<forall>p \<in> set patterns. \<not> matches p param_name) weight_map"

definition patched_get_checkpoint_shard_files ::
    "('p \<Rightarrow> string \<Rightarrow> bool) \<Rightarrow> ((string, string) dict \<Rightarrow> 'f result) \<Rightarrow> (string, string) dict \<Rightarrow> 'p list option \<Rightarrow> 'f result \<times> 'p list option" where
  "patched_get_checkpoint_shard_files matches get_checkpoint_shard_files weight_map ignored_keys =
     (get_checkpoint_shard_files (case ignored_keys of None \<Rightarrow> weight_map | Some patterns \<Rightarrow> kept_weights matches patterns weight_map),
      ignored_keys)"

definition client_from_pretrained ::
    "'p list \<Rightarrow> (bool \<Rightarrow> 'p list option \<Rightarrow> 'a result \<times> 'p list option) \<Rightarrow> bool option \<Rightarrow> 'p list option \<Rightarrow> 'a result \<times> 'p list option" where
  "client_from_pretrained keys_to_ignore loader low_cpu_mem_usage =
     ignore_keys keys_to_ignore (loader (case low_cpu_mem_usage of None \<Rightarrow> True | Some b \<Rightarrow> b))"

text \<open>Loading a client model leaves the patterns of an enclosing load as they were, whatever the outcome.\<close>

lemma ignored_keys_restored: "snd (client_from_pretrained keys loader low ignored) = ignored"
  by (simp add: client_from_pretrained_def ignore_keys_def split_beta)

text \<open>A shard is fetched exactly when some parameter in it is matched by no pattern, and a kept parameter keeps its shard.\<close>

lemma shards_fetched:
  assumes "wf_dict weight_map"
  shows "(f \<in> snd ` set (kept_weights matches patterns weight_map)) =
    (\<exists>name. dict_get weight_map name = Some f \<and> (\<forall>p \<in> set patterns. \<not> matches p name))"
  using assms by (force simp: kept_weights_def)

end
