(* ===== verification/Spec2Isabelle.thy ===== *)
theory Spec2Isabelle
  imports Block_Selection Memory_Cache Task_Pool Inference_Session Packaging Disk_Cache
    Remote_Calls Sequential_Autograd Announcer Container Throughput Swarm Loading Consensus Lm_Head Generation
    Falcon_Block Llama_Server Adapters Reachability Wrapped_Blocks Launch
begin

text \<open>
  A verification development for peerz, a swarm that serves the blocks of large language models from many
  machines. Paths below are relative to \<open>src/src/peerz/\<close>.

  THE PROGRAM. A server (\<open>server/\<close>) loads some consecutive blocks of a model, keeps the attention keys and values
  of running requests in one memory cache, and announces the blocks that it has in a distributed hash table
  (\<open>utils/dht.py\<close>). A client (\<open>client/\<close>, \<open>models/*/model.py\<close>) keeps the embeddings and the output layer, looks up
  who serves which blocks, chooses a chain of servers and sends hidden states through it, step by step in an
  inference session or in a forward and backward pass. Servers come and go: a client retries, reroutes and
  replays its history; a server may move to blocks with too little throughput. Validators and a sequencer
  (\<open>validator/\<close>, \<open>sequencer/\<close>) watch the swarm and report to a contract.

  THEORIES AND CODE. Definitions carry the names of the functions that they translate.
  \<^item> \<open>Peerz_Prelude\<close>, \<open>Py_Strings\<close>: Python values. An exception is \<open>Inl e\<close>, loops that may raise are \<open>foldR\<close> and \<open>mapR\<close>, a
    dictionary is an association list in insertion order, slices and \<open>range\<close> follow Python on all indices,
    unbounded integers are \<open>int\<close>, floats are exact rationals (with infinity in \<open>xfloat\<close>).
    The locale \<open>invariant_system\<close> is the reachability argument of all interleaved models.
  \<^item> Swarm records: \<open>Data_Structures\<close> (\<open>data_structures.py\<close>), \<open>Dht_Utils\<close> (\<open>utils/dht.py\<close>), \<open>Ping\<close> (\<open>utils/ping.py\<close>,
    \<open>utils/random.py\<close>), \<open>Packaging\<close> (\<open>utils/packaging.py\<close>).
  \<^item> Server: \<open>Server\<close> (\<open>server/server.py\<close>, \<open>block_utils.py\<close>: settings, number and choice of blocks, serving loop),
    \<open>Block_Selection\<close> (\<open>block_selection.py\<close>), \<open>Container\<close> (\<open>container.py\<close>), \<open>Announcer\<close> (\<open>announcer.py\<close>), \<open>Throughput\<close>
    (\<open>throughput.py\<close>), \<open>Loading\<close> (\<open>from_pretrained.py\<close>), \<open>Disk_Cache\<close> (\<open>utils/disk_cache.py\<close>), \<open>Memory_Cache\<close>
    (\<open>memory_cache.py\<close>, \<open>utils/misc.py\<close>), \<open>Task_Pool\<close> (\<open>task_pool.py\<close>, \<open>task_prioritizer.py\<close>), \<open>Backend\<close> (\<open>backend.py\<close>),
    \<open>Block_Functions\<close> (\<open>block_functions.py\<close>), \<open>Handler\<close> and \<open>Handler_Sessions\<close> (\<open>handler.py\<close>),
    \<open>Reachability\<close> (\<open>reachability.py\<close>), \<open>Launch\<close> (\<open>cli/run_server.py\<close>, \<open>utils/auto_config.py\<close>, \<open>utils/hf_auth.py\<close>,
    \<open>client/from_pretrained.py\<close>).
  \<^item> Blocks of a model: \<open>Attention\<close> (vectors, causal attention, caches that all block types share), \<open>Llama_Block\<close>
    (\<open>models/llama/block.py\<close>, \<open>utils/cuda_graphs.py\<close>), \<open>Falcon_Block\<close> (\<open>models/falcon/block.py\<close>), \<open>Wrapped_Blocks\<close>
    (\<open>models/mixtral/block.py\<close>, \<open>models/bloom/block.py\<close>), \<open>Llama_Server\<close> (a server whose backends are Llama blocks).
  \<^item> Loading a block: \<open>Torch_Modules\<close> (module trees and the quantization, tensor parallelism and device tests of
    \<open>utils/convert_block.py\<close> and \<open>server/block_utils.py\<close>) and \<open>Adapters\<close> (\<open>utils/peft.py\<close>, \<open>convert_block\<close> itself).
  \<^item> Client: \<open>Sequence_Info\<close> and \<open>Sequence_Manager\<close> (\<open>client/routing/\<close>), \<open>Inference_Session\<close>
    (\<open>inference_session.py\<close>), \<open>Remote_Calls\<close> (\<open>remote_forward_backward.py\<close>), \<open>Sequential_Autograd\<close>
    (\<open>sequential_autograd.py\<close>), \<open>Client_Model\<close> (\<open>models/*/model.py\<close>, \<open>remote_sequential.py\<close>, \<open>ptune.py\<close>),
    \<open>Lm_Head\<close> (\<open>lm_head.py\<close>), \<open>Generation\<close> (\<open>remote_generation.py\<close>).
  \<^item> Both sides: \<open>Swarm\<close> puts a session of the client on servers that run the inference generator of the handler.
  \<^item> Chain of trust: \<open>Health\<close> (\<open>validator/health.py\<close>, \<open>p2p_utils.py\<close>, \<open>state_updater.py\<close>) and \<open>Consensus\<close>
    (\<open>validator/validator.py\<close>, \<open>sequencer/sequencer.py\<close>, \<open>utils/signature.py\<close>, \<open>utils/consensus.py\<close>).

  STATE AND STEPS. A component with one owner is a record and functions that return the changed record. What runs
  concurrently is a step relation over one shared state: the memory cache of all handler processes (each
  access to a shared counter, lock, event or pipe is a step), the tables and queues of handler sessions, the
  announcer thread with the callers of \<open>announce\<close>, the reader/writer lock of the disk cache. Client code
  acts on a world \<open>'w\<close> through parameters (routing, remote procedures), each of which may raise and returns the new
  world, so that a theorem about a retry loop holds for every pattern of failures.

  WHAT THE LEMMAS SHOW.
  \<^item> A distributed run computes the model: from a causal block (\<open>causal_module\<close> in \<open>Backend\<close>) over chunked steps, the
    chain of backends of a server, the session of a client with failures at its start, and the whole swarm,
    to the hidden states of the distributed model classes and the tokens of \<open>generate\<close>. The hypothesis
    \<open>causal_module\<close> is proved for Llama and Falcon blocks, and for Mixtral and Bloom wrappers around a layer that attends to
    what its mask shows.
  \<^item> Training: forward and backward passes with retries and rerouting give the values of the blocks and of the
    chain rule.
  \<^item> Resources: the memory cache accounts every byte and loses no wake-up; chosen blocks fill the GPU
    memory and no more; announced cache is enough for what clients count on; removal from the disk cache is
    least recently used and frees what is needed; every task runs once.
  \<^item> Adapters: what a request with an adapter computes with is that adapter only, each layer gets the tensors of its own block,
    the memory that is reserved for adapters is what they occupy; converted blocks keep their types.
  \<^item> Swarm: announce and read back, exact spans, routes of minimal latency and valid cover, termination of
    rebalancing and of the retry loops with a bound, robustness against malformed records.
  \<^item> Errors: what each check rejects, what is cleaned up after a failure, which sessions never recover.

  LOOPS. Loops with a bound recurse on it. The loops of the code that may run forever are partial
  functions into \<open>option\<close> (\<open>Some\<close>: returns or raises; \<open>None\<close>: runs forever), with theorems that say when they return: session
  steps, forward and backward passes, \<open>rpc_info\<close>, downloads of weights and of adapters. Fuel occurs only where an event list drives a loop
  (the serving loop, the updater), and the list is then what happens in the world, one entry per turn.

  PARAMETERS. The code of hivemind, torch, transformers, peft, bitsandbytes, numpy, dijkstar, web3 and the
  hub is not part of the repository; it occurs as arguments or as fields of records with what is used of it as named
  hypotheses (for example that a shortest path is one, or that the softmax of one row only depends on that row).
  Every property with such hypotheses has a witness on a concrete instance.

  NOT MODELLED. Rounding: floats are exact rationals, casts between dtypes are the identity, and masked scores have exactly no
  weight. Cancellation of coroutines, start-up and termination of processes, logging, and the timeouts that hivemind and asyncio
  put around whole calls. Backends run with no attention mask, as the code calls them; broadcasting occurs only where the
  adapters are copied. The swarm theorem takes blocks that are causal on all tokens, while the server theorem for Llama blocks
  restricts the tokens by shape. The timing of \<open>measure_compute_rps\<close>, configuration classes, argument parsers and entry points
  that construct one object and wait, and the classification heads call libraries only. \<open>validator/metrics.py\<close> is imported but
  never called, and formats a report that nothing in the repository produces.
\<close>


definition announced_span :: "int \<Rightarrow> remote_span_info" where
  "announced_span left = \<lparr>rs_peer = ''QmA'', rs_start = 3, rs_end = 5, rs_info = sample_info\<lparr>cache_tokens_left := Some left\<rparr>\<rparr>"


end
